(* ===== verification/Prelude.thy ===== *)
theory Prelude
  imports Main "HOL-Library.Word"
begin

text \<open>
  Shared vocabulary of the development: the machine integer types of the SDK's C code, the
  collections of rewrite rules that the components extend, and the generic facts on lists and
  words that their proofs use.
\<close>

unbundle bit_operations_syntax

type_synonym u8 = "8 word"
type_synonym u16 = "16 word"
type_synonym u32 = "32 word"
type_synonym u64 = "64 word"

named_theorems wdog_defs "definitions of the watchdog driver and service"
named_theorems mask_simps "task masks read as sets"

section \<open>Lists\<close>

lemma nth_list_update_if:
  "i < length xs \<Longrightarrow> xs[i := v] ! j = (if i = j then v else xs ! j)"
  by (simp add: nth_list_update)

lemma length_2_conv: "length xs = 2 \<longleftrightarrow> (\<exists>a b. xs = [a, b])"
  by (auto simp: numeral_2_eq_2 length_Suc_conv)

section \<open>Single bits of words\<close>

text \<open>The C expression \<open>1 << n\<close> at width 32.\<close>

definition bit32 :: "nat \<Rightarrow> u32" where
  "bit32 n = push_bit n 1"

lemma bit_bit32 [mask_simps]: "bit (bit32 n) k \<longleftrightarrow> k = n \<and> n < 32"
  by (auto simp: bit32_def bit_simps)

lemma and_bit32_eq_0 [mask_simps]: "(w AND bit32 n = 0) \<longleftrightarrow> \<not> (n < 32 \<and> bit w n)"
proof
  assume a: "w AND bit32 n = 0"
  show "\<not> (n < 32 \<and> bit w n)"
  proof
    assume b: "n < 32 \<and> bit w n"
    then have "bit (w AND bit32 n) n" by (simp add: bit_and_iff bit_bit32)
    with a show False by simp
  qed
next
  assume "\<not> (n < 32 \<and> bit w n)"
  then show "w AND bit32 n = 0"
    by (auto intro!: bit_word_eqI simp: bit_and_iff bit_bit32)
qed

lemma and_eq_right_iff [mask_simps]:
  fixes v w :: u32
  shows "(w AND v = v) \<longleftrightarrow> (\<forall>n < 32. bit v n \<longrightarrow> bit w n)"
proof
  assume "w AND v = v"
  then show "\<forall>n < 32. bit v n \<longrightarrow> bit w n"
    by (metis bit_and_iff)
next
  assume "\<forall>n < 32. bit v n \<longrightarrow> bit w n"
  then show "w AND v = v"
    by (auto intro!: bit_word_eqI simp: bit_and_iff)
qed

end
