(* ===== verification/Wdog_Driver.thy ===== *)
theory Wdog_Driver
  imports Prelude
begin

text \<open>
  The CMSDK watchdog driver, \<^verbatim>\<open>src/core/bsp/driver/src/DA16200/wdog.c\<close>: the memory mapped registers it
  writes, the static handler, instance counter and \<^verbatim>\<open>wdog_off\<close> switch it keeps, and the operations
  \<^verbatim>\<open>WDOG_CREATE\<close>, \<^verbatim>\<open>WDOG_INIT\<close>, \<^verbatim>\<open>WDOG_IOCTL\<close>, \<^verbatim>\<open>WDOG_READ\<close>, \<^verbatim>\<open>WDOG_CLOSE\<close> and the interrupt
  service routine. The driver has one unit and one static handler, so a \<^verbatim>\<open>HANDLE\<close> is a truth value:
  \<open>False\<close> is \<^verbatim>\<open>NULL\<close>. A callback is the pair of 32-bit words the code stores; 0 is the null function.
\<close>

section \<open>State\<close>

record WDOG_HANDLER_TYPE =
  inst :: u32
  setvalue :: u32
  force :: bool
  wdogbreak :: bool
  cb_func :: u32
  cb_param :: u32

record wdog_driver =
  LOAD :: u32
  CTRL :: u32
  LOCK :: u32
  VALUE :: u32
  intclr :: nat
  nmi_handler :: bool
  wdog_instance :: int
  wdog_handler_set :: bool
  wdog_handler :: WDOG_HANDLER_TYPE
  wdog_off :: bool

datatype wdog_cmd =
    WDOG_GET_DEVREG
  | WDOG_SET_ENABLE "u32 option"
  | WDOG_SET_DISABLE
  | WDOG_SET_COUNTER u32
  | WDOG_SET_RESET "u32 option"
  | WDOG_SET_CALLACK u32 u32 u32
  | WDOG_SET_ABORT "u32 option"
  | WDOG_GET_STATUS
  | WDOG_SET_ON
  | WDOG_SET_OFF

definition CTRL_INTEN :: u32 where "CTRL_INTEN = 1"
definition CTRL_RESEN :: u32 where "CTRL_RESEN = 2"
definition DA16X_SYSTEM_XTAL :: u32 where "DA16X_SYSTEM_XTAL = 40000000"

definition zero_handler :: WDOG_HANDLER_TYPE where
  "zero_handler = \<lparr>inst = 0, setvalue = 0, force = False, wdogbreak = False,
                   cb_func = 0, cb_param = 0\<rparr>"

text \<open>The state at reset: statics zero, all registers zero.\<close>

definition driver_boot :: wdog_driver where
  "driver_boot = \<lparr>LOAD = 0, CTRL = 0, LOCK = 0, VALUE = 0, intclr = 0, nmi_handler = False,
                  wdog_instance = 0, wdog_handler_set = False, wdog_handler = zero_handler,
                  wdog_off = False\<rparr>"

section \<open>Operations\<close>

text \<open>Every register access unlocks the block, writes and locks it again.\<close>

definition wdog_isr_create :: "wdog_driver \<Rightarrow> wdog_driver" where
  "wdog_isr_create d =
     d\<lparr>CTRL := 0, LOCK := 0,
       wdog_handler := (wdog_handler d)\<lparr>cb_func := 0, cb_param := 0\<rparr>\<rparr>"

definition wdog_isr_init :: "wdog_driver \<Rightarrow> wdog_driver" where
  "wdog_isr_init d =
     d\<lparr>nmi_handler := True, LOAD := setvalue (wdog_handler d),
       CTRL := CTRL_RESEN OR CTRL_INTEN, LOCK := 0\<rparr>"

definition wdog_isr_close :: "wdog_driver \<Rightarrow> wdog_driver" where
  "wdog_isr_close d = d\<lparr>CTRL := 0, LOCK := 0, nmi_handler := False\<rparr>"

definition wdog_callback_registry :: "u32 \<Rightarrow> u32 \<Rightarrow> u32 \<Rightarrow> wdog_driver \<Rightarrow> wdog_driver \<times> bool" where
  "wdog_callback_registry index callback userhandler d =
     (if index = 0
      then (d\<lparr>wdog_handler := (wdog_handler d)\<lparr>cb_func := callback, cb_param := userhandler\<rparr>\<rparr>, True)
      else (d, False))"

definition WDOG_CREATE :: "wdog_driver \<Rightarrow> wdog_driver \<times> bool" where
  "WDOG_CREATE d =
     (let d1 = (if wdog_handler_set d then d else d\<lparr>wdog_handler := zero_handler\<rparr>);
          d2 = d1\<lparr>wdog_handler := (wdog_handler d1)\<lparr>inst := of_int (wdog_instance d1)\<rparr>,
                 wdog_instance := wdog_instance d1 + 1\<rparr>;
          d3 = (if inst (wdog_handler d2) = 0
                then wdog_isr_create
                       (d2\<lparr>wdog_handler_set := True,
                           wdog_handler := (wdog_handler d2)
                             \<lparr>setvalue := DA16X_SYSTEM_XTAL * 50, force := False, wdogbreak := False\<rparr>\<rparr>)
                else d2)
      in (d3, True))"

definition WDOG_INIT :: "bool \<Rightarrow> wdog_driver \<Rightarrow> wdog_driver \<times> bool" where
  "WDOG_INIT handler d =
     (if \<not> handler then (d, False)
      else if inst (wdog_handler d) = 0 then (wdog_isr_init d, True)
      else (d, False))"

text \<open>The command switch of \<^verbatim>\<open>WDOG_IOCTL\<close>, once the handle and the off switch have been looked at.\<close>

fun wdog_ioctl_cmd :: "wdog_cmd \<Rightarrow> wdog_driver \<Rightarrow> wdog_driver \<times> bool \<times> u32 option" where
  "wdog_ioctl_cmd (WDOG_SET_ENABLE data) d =
     (let mode = (case data of None \<Rightarrow> CTRL_RESEN OR CTRL_INTEN
                  | Some v \<Rightarrow> if v = 0 then CTRL_RESEN OR CTRL_INTEN else CTRL_INTEN)
      in (d\<lparr>LOAD := setvalue (wdog_handler d), CTRL := mode, LOCK := 0\<rparr>, True, None))"
| "wdog_ioctl_cmd WDOG_SET_DISABLE d = (d\<lparr>CTRL := 0, LOCK := 0\<rparr>, True, None)"
| "wdog_ioctl_cmd (WDOG_SET_COUNTER v) d =
     (d\<lparr>wdog_handler := (wdog_handler d)\<lparr>setvalue := v\<rparr>\<rparr>, True, None)"
| "wdog_ioctl_cmd (WDOG_SET_RESET data) d =
     (d\<lparr>wdog_handler := (wdog_handler d)\<lparr>force := (data = None)\<rparr>\<rparr>, True, None)"
| "wdog_ioctl_cmd (WDOG_SET_ABORT data) d =
     (d\<lparr>wdog_handler := (wdog_handler d)\<lparr>wdogbreak := (data \<noteq> None)\<rparr>\<rparr>, True, None)"
| "wdog_ioctl_cmd WDOG_GET_STATUS d = (d, True, Some (if CTRL d = 0 then 0 else 1))"
| "wdog_ioctl_cmd (WDOG_SET_CALLACK i f p) d = (fst (wdog_callback_registry i f p d), True, None)"
| "wdog_ioctl_cmd WDOG_SET_OFF d = (d\<lparr>CTRL := 0, LOCK := 0, wdog_off := True\<rparr>, True, None)"
| "wdog_ioctl_cmd WDOG_SET_ON d = (d, False, None)"
| "wdog_ioctl_cmd WDOG_GET_DEVREG d = (d, False, None)"

definition WDOG_IOCTL :: "bool \<Rightarrow> wdog_cmd \<Rightarrow> wdog_driver \<Rightarrow> wdog_driver \<times> bool \<times> u32 option" where
  "WDOG_IOCTL handler cmd d =
     (if \<not> handler then (d, False, None)
      else if wdog_off d
      then (if cmd = WDOG_SET_ON
            then wdog_ioctl_cmd (WDOG_SET_ENABLE None) (d\<lparr>wdog_off := False\<rparr>)
            else (d, True, None))
      else wdog_ioctl_cmd cmd d)"

definition WDOG_READ :: "bool \<Rightarrow> wdog_driver \<Rightarrow> u32 option" where
  "WDOG_READ handler d = (if \<not> handler then None else Some (VALUE d))"

definition WDOG_CLOSE :: "bool \<Rightarrow> wdog_driver \<Rightarrow> wdog_driver \<times> bool" where
  "WDOG_CLOSE handler d =
     (if \<not> handler then (d, False)
      else if wdog_instance d > 0
      then (let d1 = d\<lparr>wdog_instance := wdog_instance d - 1\<rparr>
            in (if wdog_instance d1 = 0 then (wdog_isr_close d1)\<lparr>wdog_handler_set := False\<rparr> else d1, True))
      else (d, True))"

text \<open>
  What the interrupt service routine does: nothing without a handler; with \<^verbatim>\<open>force\<close> set it never
  returns (the reset output fires while it spins); otherwise it clears the interrupt and calls the
  registered function, if there is one.
\<close>

datatype isr_outcome = Isr_Return | Isr_Halted | Isr_Callback u32 u32

definition da16x_watchdog_isr :: "wdog_driver \<Rightarrow> wdog_driver \<times> isr_outcome" where
  "da16x_watchdog_isr d =
     (if \<not> wdog_handler_set d then (d, Isr_Return)
      else if force (wdog_handler d) then (d, Isr_Halted)
      else (let d1 = d\<lparr>intclr := Suc (intclr d), LOCK := 0\<rparr>
            in if cb_func (wdog_handler d1) \<noteq> 0
               then (d1, Isr_Callback (cb_func (wdog_handler d1)) (cb_param (wdog_handler d1)))
               else (d1, Isr_Return)))"

definition wdt_on :: "wdog_driver \<Rightarrow> wdog_driver" where
  "wdt_on d =
     (let (d1, h) = WDOG_CREATE d; (d2, _) = WDOG_INIT h d1; (d3, _) = WDOG_IOCTL h WDOG_SET_ON d2
      in d3)"

definition wdt_off :: "wdog_driver \<Rightarrow> wdog_driver" where
  "wdt_off d =
     (let (d1, h) = WDOG_CREATE d; (d2, _) = WDOG_INIT h d1; (d3, _) = WDOG_IOCTL h WDOG_SET_OFF d2;
          (d4, _) = WDOG_CLOSE h d3
      in d4)"

lemmas driver_defs =
  wdog_isr_create_def wdog_isr_init_def wdog_isr_close_def wdog_callback_registry_def
  WDOG_CREATE_def WDOG_INIT_def WDOG_IOCTL_def WDOG_CLOSE_def da16x_watchdog_isr_def

section \<open>The contract the watchdog service relies on\<close>

locale wdog_device =
  fixes ioctl :: "wdog_cmd \<Rightarrow> 'd \<Rightarrow> 'd"
    and isr :: "'d \<Rightarrow> 'd \<times> isr_outcome"
    and off :: "'d \<Rightarrow> bool"
    and running :: "'d \<Rightarrow> bool"
    and preset :: "'d \<Rightarrow> u32"
    and loaded :: "'d \<Rightarrow> u32"
    and attached :: "'d \<Rightarrow> bool"
  assumes off_disable: "off (ioctl WDOG_SET_DISABLE d) = off d"
    and off_counter: "off (ioctl (WDOG_SET_COUNTER v) d) = off d"
    and preset_counter: "\<not> off d \<Longrightarrow> preset (ioctl (WDOG_SET_COUNTER v) d) = v"
    and enable: "\<not> off d \<Longrightarrow> running (ioctl (WDOG_SET_ENABLE None) d) \<and>
                 loaded (ioctl (WDOG_SET_ENABLE None) d) = preset d"
    and reset_halts: "\<not> off d \<Longrightarrow> attached d \<Longrightarrow>
                      snd (isr (ioctl (WDOG_SET_RESET None) d)) = Isr_Halted"
    and off_ignores: "off d \<Longrightarrow> cmd \<noteq> WDOG_SET_ON \<Longrightarrow> ioctl cmd d = d"
    and turn_off: "\<not> off d \<Longrightarrow> off (ioctl WDOG_SET_OFF d) \<and> \<not> running (ioctl WDOG_SET_OFF d)"
    and turn_on: "off d \<Longrightarrow> \<not> off (ioctl WDOG_SET_ON d) \<and> running (ioctl WDOG_SET_ON d)"
begin

text \<open>Disable, preset, enable: the sequence that restarts an interval.\<close>

lemma rearm:
  assumes "\<not> off d"
  shows "running (ioctl (WDOG_SET_ENABLE None) (ioctl (WDOG_SET_COUNTER v) (ioctl WDOG_SET_DISABLE d))) \<and>
         loaded (ioctl (WDOG_SET_ENABLE None) (ioctl (WDOG_SET_COUNTER v) (ioctl WDOG_SET_DISABLE d))) = v"
  using assms by (simp add: enable preset_counter off_counter off_disable)

text \<open>Once off, every sequence of requests without \<open>WDOG_SET_ON\<close> leaves the device as it is.\<close>

lemma stays_off:
  "off d \<Longrightarrow> WDOG_SET_ON \<notin> set cmds \<Longrightarrow> fold ioctl cmds d = d"
  by (induction cmds) (auto simp: off_ignores)

lemma off_then_on:
  assumes "\<not> off d" "WDOG_SET_ON \<notin> set cmds"
  shows "\<not> running (fold ioctl (WDOG_SET_OFF # cmds) d)"
    and "running (ioctl WDOG_SET_ON (fold ioctl (WDOG_SET_OFF # cmds) d))"
  using turn_off [OF assms(1)] stays_off [OF _ assms(2), of "ioctl WDOG_SET_OFF d"] turn_on by auto

end

definition drv_ioctl :: "wdog_cmd \<Rightarrow> wdog_driver \<Rightarrow> wdog_driver" where
  "drv_ioctl cmd d = fst (WDOG_IOCTL True cmd d)"

lemma ctrl_bits [simp]: "CTRL_RESEN OR CTRL_INTEN \<noteq> 0" "CTRL_INTEN \<noteq> 0"
  by (simp_all add: CTRL_RESEN_def CTRL_INTEN_def)

interpretation dev: wdog_device drv_ioctl da16x_watchdog_isr wdog_off "\<lambda>d. CTRL d \<noteq> 0"
    "\<lambda>d. setvalue (wdog_handler d)" LOAD wdog_handler_set
  by unfold_locales (auto simp: drv_ioctl_def WDOG_IOCTL_def da16x_watchdog_isr_def Let_def)

text \<open>
  Switching the watchdog off through the driver lasts: whatever sequence of requests follows
  (enable, counter, reset and so on), as long as none of them is "on", the counter stays stopped,
  and the next "on" starts it again.
\<close>

theorem wdog_off_until_on:
  assumes "\<not> wdog_off d" "WDOG_SET_ON \<notin> set cmds"
  shows "CTRL (fold drv_ioctl (WDOG_SET_OFF # cmds) d) = 0 \<and>
         CTRL (drv_ioctl WDOG_SET_ON (fold drv_ioctl (WDOG_SET_OFF # cmds) d)) \<noteq> 0"
  using dev.off_then_on [OF assms] by blast

theorem wdog_off_until_on_witness:
  "CTRL (fold drv_ioctl [WDOG_SET_OFF, WDOG_SET_COUNTER 7, WDOG_SET_ENABLE None] driver_boot) = 0 \<and>
   CTRL (drv_ioctl WDOG_SET_ON
     (fold drv_ioctl [WDOG_SET_OFF, WDOG_SET_COUNTER 7, WDOG_SET_ENABLE None] driver_boot)) \<noteq> 0"
proof -
  have "\<not> wdog_off driver_boot" by (simp add: driver_boot_def)
  moreover have "WDOG_SET_ON \<notin> set [WDOG_SET_COUNTER 7, WDOG_SET_ENABLE None]" by simp
  ultimately show ?thesis by (rule wdog_off_until_on)
qed

end
