(* ===== verification/Util_Api.thy ===== *)
theory Util_Api
  imports Prelude
begin

text \<open>
  Number and date checks of \<^verbatim>\<open>src/core/system/src/common/main/util_api.c\<close>, which the command line and
  the AT command handlers use on their arguments: \<^verbatim>\<open>atoi_custom\<close>, \<^verbatim>\<open>get_int_val_from_str\<close> and
  \<^verbatim>\<open>is_date_time_valid\<close>. C \<^verbatim>\<open>int\<close> values are HOL integers, reduced to 32-bit two's complement where the
  code computes.
\<close>

section \<open>Definitions\<close>

definition s32 :: "int \<Rightarrow> int" where
  "s32 x = (x + 2 ^ 31) mod 2 ^ 32 - 2 ^ 31"

definition is_digit :: "char \<Rightarrow> bool" where
  "is_digit c \<longleftrightarrow> of_char CHR ''0'' \<le> (of_char c :: nat) \<and> of_char c \<le> (of_char CHR ''9'' :: nat)"

definition digit_val :: "char \<Rightarrow> int" where
  "digit_val c = of_char c - of_char CHR ''0''"

text \<open>The loop of \<^verbatim>\<open>atoi_custom\<close> from the second character on, and the whole function.\<close>

fun atoi_loop :: "string \<Rightarrow> int \<Rightarrow> int option" where
  "atoi_loop [] res = Some res"
| "atoi_loop (c # cs) res =
     (if is_digit c then atoi_loop cs (s32 (s32 (res * 10) + digit_val c)) else None)"

definition atoi_custom :: "string \<Rightarrow> int" where
  "atoi_custom str =
     (case str of [] \<Rightarrow> 0
      | c # cs \<Rightarrow>
          (if is_digit c
           then (case atoi_loop cs (digit_val c) of None \<Rightarrow> 0 | Some r \<Rightarrow> r)
           else if c = CHR ''-''
           then (case atoi_loop cs 0 of None \<Rightarrow> 0 | Some r \<Rightarrow> s32 (r * (-1)))
           else if c = CHR ''+''
           then (case atoi_loop cs 0 of None \<Rightarrow> 0 | Some r \<Rightarrow> r)
           else 0))"

datatype atoi_err_policy = POL_1 | POL_2

text \<open>
  The out parameter is returned with the result: \<open>None\<close> is the result -1, which leaves
  \<^verbatim>\<open>*int_val\<close> as it was; \<open>Some v\<close> is the result 0 with \<^verbatim>\<open>*int_val\<close> set to \<open>v\<close>.
\<close>

definition get_int_val_from_str :: "string \<Rightarrow> atoi_err_policy \<Rightarrow> int option" where
  "get_int_val_from_str param policy =
     (if length param = 1
      then (if param ! 0 = CHR ''0'' then Some 0
            else (let v = atoi_custom param in if v > 0 \<and> v < 10 then Some v else None))
      else if length param = 0 then None
      else if policy = POL_1 \<and> (param ! 0 = CHR ''0'' \<or> param ! 0 = CHR ''+'') then None
      else if policy = POL_2 \<and> param ! 0 = CHR ''+'' then None
      else if param ! 0 = CHR ''-'' \<and> param ! 1 = CHR ''0'' then None
      else (let v = atoi_custom param in if v > -1 \<and> v < 10 then None else Some v))"

record tm =
  tm_sec :: int
  tm_min :: int
  tm_hour :: int
  tm_mday :: int
  tm_mon :: int
  tm_year :: int

definition month_len :: "int \<Rightarrow> int \<Rightarrow> int option" where
  "month_len month year =
     (if month \<in> {1, 3, 5, 7, 8, 10, 12} then Some 31
      else if month \<in> {4, 6, 9, 11} then Some 30
      else if month = 2
      then Some (if (year mod 4 = 0 \<and> year mod 100 \<noteq> 0) \<or> year mod 400 = 0 then 29 else 28)
      else None)"

definition is_date_time_valid :: "tm \<Rightarrow> int" where
  "is_date_time_valid t =
     (if tm_year t < 70 \<or> tm_year t > 8099 then -2
      else if tm_hour t < 0 \<or> tm_hour t > 23 then -3
      else if tm_min t < 0 \<or> tm_min t > 59 then -3
      else if tm_sec t < 0 \<or> tm_sec t > 59 then -3
      else (case month_len (tm_mon t + 1) (tm_year t) of
              None \<Rightarrow> -2
            | Some len \<Rightarrow> if tm_mday t < 1 \<or> tm_mday t > len then -2 else 1))"

section \<open>Specification: decimal numerals and the Gregorian calendar\<close>

definition dec_digit :: "nat \<Rightarrow> char" where
  "dec_digit n = char_of (48 + n)"

fun show_nat :: "nat \<Rightarrow> string" where
  "show_nat n = (if n < 10 then [dec_digit n] else show_nat (n div 10) @ [dec_digit (n mod 10)])"

definition show_int :: "int \<Rightarrow> string" where
  "show_int i = (if i < 0 then CHR ''-'' # show_nat (nat (- i)) else show_nat (nat i))"

definition gregorian_leap :: "int \<Rightarrow> bool" where
  "gregorian_leap y \<longleftrightarrow> (4 dvd y \<and> \<not> 100 dvd y) \<or> 400 dvd y"

definition gregorian_days :: "int \<Rightarrow> int \<Rightarrow> int" where
  "gregorian_days month y =
     (if month = 2 then (if gregorian_leap y then 29 else 28)
      else if month \<in> {4, 6, 9, 11} then 30 else 31)"

definition gregorian_valid :: "tm \<Rightarrow> bool" where
  "gregorian_valid t \<longleftrightarrow>
     1970 \<le> tm_year t + 1900 \<and> tm_year t + 1900 \<le> 9999 \<and>
     0 \<le> tm_hour t \<and> tm_hour t \<le> 23 \<and> 0 \<le> tm_min t \<and> tm_min t \<le> 59 \<and>
     0 \<le> tm_sec t \<and> tm_sec t \<le> 59 \<and>
     0 \<le> tm_mon t \<and> tm_mon t \<le> 11 \<and>
     1 \<le> tm_mday t \<and> tm_mday t \<le> gregorian_days (tm_mon t + 1) (tm_year t + 1900)"

section \<open>Lemmas\<close>

declare show_nat.simps [simp del]

lemma s32_id [simp]: "- (2 ^ 31) \<le> x \<Longrightarrow> x < 2 ^ 31 \<Longrightarrow> s32 x = x"
  by (simp add: s32_def)

lemma of_char_dec_digit: "n < 10 \<Longrightarrow> of_char (dec_digit n) = (48 + n :: nat)"
  by (simp add: dec_digit_def of_char_of)

lemma is_digit_dec_digit [simp]: "n < 10 \<Longrightarrow> is_digit (dec_digit n)"
  by (simp add: is_digit_def of_char_dec_digit)

lemma digit_val_dec_digit [simp]: "n < 10 \<Longrightarrow> digit_val (dec_digit n) = int n"
proof -
  assume "n < 10"
  then have "(of_char (dec_digit n) :: int) = int (48 + n)"
    using of_char_dec_digit [of n] by (metis of_nat_of_char)
  then show ?thesis by (simp add: digit_val_def)
qed

lemma atoi_loop_append:
  "atoi_loop (xs @ ys) r = (case atoi_loop xs r of None \<Rightarrow> None | Some r' \<Rightarrow> atoi_loop ys r')"
  by (induction xs r rule: atoi_loop.induct) auto

lemma s32_step:
  assumes "r * 10 + d < (2::int) ^ 31" "0 \<le> r" "0 \<le> d"
  shows "s32 (s32 (r * 10) + d) = r * 10 + d"
  using assms by simp

lemma show_nat_tail:
  "\<exists>d ds. show_nat n = d # ds \<and> is_digit d \<and> (int n < 2 ^ 31 \<longrightarrow> atoi_loop ds (digit_val d) = Some (int n))
     \<and> (n \<ge> 10 \<longrightarrow> d \<noteq> CHR ''0'' \<and> ds \<noteq> []) \<and> (n < 10 \<longrightarrow> ds = [] \<and> d = dec_digit n)"
proof (induction n rule: show_nat.induct)
  case (1 n)
  show ?case
  proof (cases "n < 10")
    case True
    then show ?thesis by (simp add: show_nat.simps [of n])
  next
    case False
    with 1 obtain d ds where h: "show_nat (n div 10) = d # ds" "is_digit d"
      "int (n div 10) < 2 ^ 31 \<longrightarrow> atoi_loop ds (digit_val d) = Some (int (n div 10))"
      "n div 10 \<ge> 10 \<longrightarrow> d \<noteq> CHR ''0'' \<and> ds \<noteq> []" "n div 10 < 10 \<longrightarrow> ds = [] \<and> d = dec_digit (n div 10)"
      by blast
    have ne: "d \<noteq> CHR ''0''"
    proof (cases "n div 10 < 10")
      case True
      with False h(5) have "of_char d = (48 + n div 10 :: nat)" by (simp add: of_char_dec_digit)
      with False show ?thesis by (auto simp: of_char_def)
    next
      case F: False
      with h(4) show ?thesis by simp
    qed
    have eq: "show_nat n = d # (ds @ [dec_digit (n mod 10)])"
      using False h(1) by (simp add: show_nat.simps [of n])
    have "int n < 2 ^ 31 \<longrightarrow> atoi_loop (ds @ [dec_digit (n mod 10)]) (digit_val d) = Some (int n)"
    proof
      assume lt: "int n < 2 ^ 31"
      then have "atoi_loop ds (digit_val d) = Some (int (n div 10))" using h(3) by simp
      moreover have split: "int (n div 10) * 10 + int (n mod 10) = int n"
        by (metis div_mult_mod_eq of_nat_add of_nat_mult of_nat_numeral)
      moreover have "s32 (s32 (int (n div 10) * 10) + int (n mod 10)) = int n"
        using s32_step [of "int (n div 10)" "int (n mod 10)"] lt split by simp
      ultimately show "atoi_loop (ds @ [dec_digit (n mod 10)]) (digit_val d) = Some (int n)"
        by (simp add: atoi_loop_append)
    qed
    with eq h(2) ne False show ?thesis by simp
  qed
qed

lemma atoi_custom_show_nat: "int n < 2 ^ 31 \<Longrightarrow> atoi_custom (show_nat n) = int n"
  using show_nat_tail [of n] by (auto simp: atoi_custom_def)

lemma is_digit_not_sign: "is_digit c \<Longrightarrow> c \<noteq> CHR ''-'' \<and> c \<noteq> CHR ''+''"
  by (auto simp: is_digit_def of_char_def)

lemma atoi_loop_0_Cons:
  "is_digit d \<Longrightarrow> atoi_loop (d # ds) 0 = atoi_loop ds (s32 (digit_val d))"
  by (simp add: s32_def [of 0])

lemma digit_val_bounds: "is_digit d \<Longrightarrow> 0 \<le> digit_val d \<and> digit_val d < 10"
proof -
  assume "is_digit d"
  then have "48 \<le> (of_char d :: nat)" "(of_char d :: nat) \<le> 57"
    by (simp_all add: is_digit_def)
  moreover have "(of_char d :: int) = int (of_char d)" by (simp only: of_nat_of_char)
  ultimately show ?thesis by (simp add: digit_val_def)
qed

lemma atoi_custom_neg: "int n < 2 ^ 31 \<Longrightarrow> atoi_custom (CHR ''-'' # show_nat n) = - int n"
proof -
  assume lt: "int n < 2 ^ 31"
  obtain d ds where h: "show_nat n = d # ds" "is_digit d" "atoi_loop ds (digit_val d) = Some (int n)"
    using show_nat_tail [of n] lt by auto
  have "\<not> is_digit CHR ''-''" by (auto dest: is_digit_not_sign)
  moreover have "s32 (digit_val d) = digit_val d"
    using digit_val_bounds [OF h(2)] by simp
  ultimately show ?thesis using h lt
    by (simp add: atoi_custom_def atoi_loop_0_Cons del: atoi_loop.simps)
qed


section \<open>Properties\<close>

text \<open>
  Printing and parsing numbers round trip: for every 32-bit value except the smallest, the
  checked parser of the command line accepts the value's decimal numeral and returns the value.
\<close>

theorem get_int_val_from_str_show:
  assumes "\<bar>i\<bar> < 2 ^ 31"
  shows "get_int_val_from_str (show_int i) POL_1 = Some i"
proof (cases "i < 0")
  case True
  obtain d ds where h: "show_nat (nat (- i)) = d # ds" "d \<noteq> CHR ''0''"
  proof (cases "nat (- i) < 10")
    case L: True
    with True have "of_char (dec_digit (nat (- i))) \<noteq> (48 :: nat)"
      by (simp add: of_char_dec_digit)
    then have "dec_digit (nat (- i)) \<noteq> CHR ''0''" by (auto simp: of_char_def)
    with L show ?thesis using that by (simp add: show_nat.simps [of "nat (- i)"])
  next
    case False
    then show ?thesis using that show_nat_tail [of "nat (- i)"] by auto
  qed
  have "atoi_custom (show_int i) = i"
    using True assms atoi_custom_neg [of "nat (- i)"] by (simp add: show_int_def)
  then show ?thesis
    using True h by (simp add: get_int_val_from_str_def show_int_def Let_def)
next
  case False
  then have v: "atoi_custom (show_int i) = i"
    using assms atoi_custom_show_nat [of "nat i"] by (simp add: show_int_def)
  obtain d ds where h: "show_nat (nat i) = d # ds" "is_digit d"
    "nat i \<ge> 10 \<longrightarrow> d \<noteq> CHR ''0'' \<and> ds \<noteq> []" "nat i < 10 \<longrightarrow> ds = [] \<and> d = dec_digit (nat i)"
    using show_nat_tail [of "nat i"] by blast
  have zero: "dec_digit 0 = CHR ''0''"
    using of_char_dec_digit [of 0] by (simp add: of_char_eq_iff [symmetric, where 'a = nat])
  show ?thesis
  proof (cases "nat i < 10")
    case True
    then have ds: "show_int i = [d]" "d = dec_digit (nat i)"
      using h False by (simp_all add: show_int_def)
    show ?thesis
    proof (cases "i = 0")
      case True
      with ds zero show ?thesis by (simp add: get_int_val_from_str_def)
    next
      case nz: False
      then have "of_char d \<noteq> (48 :: nat)" using ds(2) True False by (simp add: of_char_dec_digit)
      then have "d \<noteq> CHR ''0''" by (auto simp: of_char_def)
      with nz False True v ds(1) show ?thesis by (simp add: get_int_val_from_str_def Let_def)
    qed
  next
    case F: False
    with False h v is_digit_not_sign [OF h(2)] show ?thesis
      by (auto simp: get_int_val_from_str_def show_int_def Let_def)
  qed
qed

theorem get_int_val_from_str_show_witness:
  "\<bar>-1204 :: int\<bar> < 2 ^ 31 \<and> get_int_val_from_str (show_int (-1204)) POL_1 = Some (-1204)"
  using get_int_val_from_str_show [of "-1204"] by simp

text \<open>
  The month length the code computes agrees with the calendar in every year whose two last
  digits are not zero: \<open>tm_year\<close> counts from 1900, a multiple of 4 and of 100.
\<close>

lemma month_len_gregorian:
  assumes "\<not> 100 dvd (y + 1900 :: int)" "1 \<le> m" "m \<le> 12"
  shows "month_len m y = Some (gregorian_days m (y + 1900))"
proof -
  have "100 dvd (y + 1900) \<longleftrightarrow> 100 dvd y" "4 dvd (y + 1900) \<longleftrightarrow> 4 dvd y"
    by (simp_all add: dvd_add_left_iff)
  moreover have "400 dvd x \<Longrightarrow> 100 dvd x" for x :: int by (rule dvd_trans) simp_all
  ultimately have "\<not> 100 dvd y" "\<not> 400 dvd y" "\<not> 400 dvd (y + 1900)"
    "4 dvd (y + 1900) \<longleftrightarrow> 4 dvd y"
    using assms(1) by blast+
  moreover have "m = 1 \<or> m = 2 \<or> m = 3 \<or> m = 4 \<or> m = 5 \<or> m = 6 \<or> m = 7 \<or> m = 8 \<or> m = 9
      \<or> m = 10 \<or> m = 11 \<or> m = 12"
    using assms(2,3) by arith
  ultimately show ?thesis using assms(1)
    by (elim disjE) (simp_all add: month_len_def gregorian_days_def gregorian_leap_def mod_eq_0_iff_dvd)
qed

lemma month_len_None: "m < 1 \<or> m > 12 \<Longrightarrow> month_len m y = None"
  by (auto simp: month_len_def)

text \<open>
  In every year that is not a multiple of 100, the date and time check accepts exactly the
  dates of the Gregorian calendar between 1970 and 9999.
\<close>

theorem is_date_time_valid_gregorian:
  assumes "\<not> 100 dvd (tm_year t + 1900)"
  shows "is_date_time_valid t = 1 \<longleftrightarrow> gregorian_valid t"
proof (cases "1 \<le> tm_mon t + 1 \<and> tm_mon t + 1 \<le> 12")
  case True
  then have "month_len (tm_mon t + 1) (tm_year t)
             = Some (gregorian_days (tm_mon t + 1) (tm_year t + 1900))"
    using month_len_gregorian [OF assms, of "tm_mon t + 1"] by blast
  with True show ?thesis by (auto simp: is_date_time_valid_def gregorian_valid_def)
next
  case False
  then have "month_len (tm_mon t + 1) (tm_year t) = None"
    by (intro month_len_None) linarith
  with False show ?thesis by (auto simp: is_date_time_valid_def gregorian_valid_def)
qed

theorem is_date_time_valid_gregorian_witness:
  "is_date_time_valid \<lparr>tm_sec = 59, tm_min = 59, tm_hour = 23, tm_mday = 29, tm_mon = 1, tm_year = 124\<rparr> = 1
   \<and> gregorian_valid \<lparr>tm_sec = 59, tm_min = 59, tm_hour = 23, tm_mday = 29, tm_mon = 1, tm_year = 124\<rparr>"
proof -
  let ?t = "\<lparr>tm_sec = 59, tm_min = 59, tm_hour = 23, tm_mday = 29, tm_mon = 1, tm_year = 124\<rparr>"
  have h: "\<not> 100 dvd (tm_year ?t + 1900)" by simp
  have "is_date_time_valid ?t = 1"
    by (simp add: is_date_time_valid_def month_len_def)
  with is_date_time_valid_gregorian [OF h] show ?thesis by simp
qed

text \<open>
  Because the leap year rule is applied to the year counted from 1900, the 29th of February
  2000, a day of the calendar, is refused, and the 29th of February 2300, not one, is accepted.
\<close>

theorem leap_rule_on_offset_year:
  "gregorian_valid \<lparr>tm_sec = 0, tm_min = 0, tm_hour = 0, tm_mday = 29, tm_mon = 1, tm_year = 100\<rparr> \<and>
   is_date_time_valid \<lparr>tm_sec = 0, tm_min = 0, tm_hour = 0, tm_mday = 29, tm_mon = 1, tm_year = 100\<rparr> = -2 \<and>
   \<not> gregorian_valid \<lparr>tm_sec = 0, tm_min = 0, tm_hour = 0, tm_mday = 29, tm_mon = 1, tm_year = 400\<rparr> \<and>
   is_date_time_valid \<lparr>tm_sec = 0, tm_min = 0, tm_hour = 0, tm_mday = 29, tm_mon = 1, tm_year = 400\<rparr> = 1"
  by (simp add: is_date_time_valid_def month_len_def gregorian_valid_def gregorian_days_def
      gregorian_leap_def)

end
