(* ===== verification/Sys_Watchdog.thy ===== *)
theory Sys_Watchdog
  imports Wdog_Driver Util_Api
begin

text \<open>
  The system watchdog service, \<^verbatim>\<open>src/core/system/src/common/da16x_sys_watchdog.c\<close>: tasks register, are
  monitored, and must notify the service once per watchdog interval. Its globals are the record
  \<open>sys_wdog\<close>, which holds the state of the driver below it. What a call reads from the kernel and
  the hardware (allocation, semaphores, the debugger flag, the clock, the calling task) is the
  record \<open>wdog_env\<close>. The build has \<^verbatim>\<open>__SUPPORT_SYS_WATCHDOG__\<close> and \<^verbatim>\<open>__AUTO_REBOOT_WDT__\<close>, as the SDK's
  configuration headers define them. Operations on the C side are serialised by one mutex, so each
  is one step here. The console output of \<^verbatim>\<open>da16x_sys_watchdog_display_info\<close> is not modelled.
\<close>

section \<open>State\<close>

record wdog_fsm =
  fsm_mutex :: bool
  fsm_watchdog :: bool

record sys_wdog =
  wdog_active :: bool
  fsm :: "wdog_fsm option"
  tasks_mask :: "u32 list"
  monitored_mask :: "u32 list"
  notified_mask :: "u32 list"
  idle_task_id :: int
  max_task_id :: int
  tasks_latency :: "u8 list"
  task_handle :: "u32 list"
  rescale_time :: u32
  auto_goto_por :: bool
  drv :: wdog_driver

record wdog_env =
  debug_mode :: bool
  fsm_addr :: u32
  sem_create :: bool
  sem_take :: bool
  sysclock :: u32
  current_task :: u32
  callback_addr :: u32

definition DEF_RESCALE_TIME :: u32 where "DEF_RESCALE_TIME = 500"
definition MIN_RESCALE_TIME :: u32 where "MIN_RESCALE_TIME = 10"
definition MAX_RESCALE_TIME :: u32 where "MAX_RESCALE_TIME = 3000"

definition sys_wdog_boot :: sys_wdog where
  "sys_wdog_boot = \<lparr>wdog_active = True, fsm = None, tasks_mask = [0, 0], monitored_mask = [0, 0],
     notified_mask = [0, 0], idle_task_id = -1, max_task_id = -1, tasks_latency = replicate 64 0,
     task_handle = replicate 64 0, rescale_time = DEF_RESCALE_TIME, auto_goto_por = False,
     drv = driver_boot\<rparr>"

section \<open>Guards and masks\<close>

definition da16x_sys_watchdog_is_init :: "sys_wdog \<Rightarrow> bool" where
  "da16x_sys_watchdog_is_init s \<longleftrightarrow> fsm s \<noteq> None"

definition da16x_sys_watchdog_vaildate_id :: "int \<Rightarrow> bool" where
  "da16x_sys_watchdog_vaildate_id i \<longleftrightarrow> \<not> (i < 0 \<or> i \<ge> 64)"

text \<open>Result 0 is \<open>True\<close>. Giving the semaphore back has no result that the callers read.\<close>

definition da16x_sys_watchdog_get_mutex :: "wdog_env \<Rightarrow> sys_wdog \<Rightarrow> bool" where
  "da16x_sys_watchdog_get_mutex e s =
     (case fsm s of None \<Rightarrow> False | Some f \<Rightarrow> fsm_watchdog f \<and> sem_take e)"

fun get_empty_loop :: "u32 list \<Rightarrow> nat \<Rightarrow> int" where
  "get_empty_loop [] idx = -1"
| "get_empty_loop (m # ms) idx =
     (case find (\<lambda>b. m AND bit32 b = 0) [0..<32] of
        Some b \<Rightarrow> int (b + idx * 32)
      | None \<Rightarrow> get_empty_loop ms (Suc idx))"

definition da16x_sys_watchdog_get_empty_id :: "sys_wdog \<Rightarrow> int" where
  "da16x_sys_watchdog_get_empty_id s = get_empty_loop (tasks_mask s) 0"

definition da16x_sys_watchdog_get_idx :: "int \<Rightarrow> nat \<times> nat" where
  "da16x_sys_watchdog_get_idx i =
     (if i \<ge> 32 then (nat (i div 32), nat (i - (i div 32) * 32)) else (0, nat i))"

definition or_bit :: "int \<Rightarrow> u32 list \<Rightarrow> u32 list" where
  "or_bit i ms = (let (idx, b) = da16x_sys_watchdog_get_idx i in ms[idx := ms ! idx OR bit32 b])"

definition clear_bit :: "int \<Rightarrow> u32 list \<Rightarrow> u32 list" where
  "clear_bit i ms = (let (idx, b) = da16x_sys_watchdog_get_idx i in ms[idx := ms ! idx AND NOT (bit32 b)])"

definition da16x_sys_watchdog_mask_task :: "int \<Rightarrow> sys_wdog \<Rightarrow> sys_wdog" where
  "da16x_sys_watchdog_mask_task i s = s\<lparr>tasks_mask := or_bit i (tasks_mask s)\<rparr>"

definition da16x_sys_watchdog_unmask_task :: "int \<Rightarrow> sys_wdog \<Rightarrow> sys_wdog" where
  "da16x_sys_watchdog_unmask_task i s = s\<lparr>tasks_mask := clear_bit i (tasks_mask s)\<rparr>"

definition da16x_sys_watchdog_mask_monitored_task :: "int \<Rightarrow> sys_wdog \<Rightarrow> sys_wdog" where
  "da16x_sys_watchdog_mask_monitored_task i s = s\<lparr>monitored_mask := or_bit i (monitored_mask s)\<rparr>"

definition da16x_sys_watchdog_unmask_monitored_task :: "int \<Rightarrow> sys_wdog \<Rightarrow> sys_wdog" where
  "da16x_sys_watchdog_unmask_monitored_task i s = s\<lparr>monitored_mask := clear_bit i (monitored_mask s)\<rparr>"

definition da16x_sys_watchdog_mask_notified_task :: "int \<Rightarrow> sys_wdog \<Rightarrow> sys_wdog" where
  "da16x_sys_watchdog_mask_notified_task i s = s\<lparr>notified_mask := or_bit i (notified_mask s)\<rparr>"

definition da16x_sys_watchdog_unmask_notified_task :: "int \<Rightarrow> sys_wdog \<Rightarrow> sys_wdog" where
  "da16x_sys_watchdog_unmask_notified_task i s = s\<lparr>notified_mask := clear_bit i (notified_mask s)\<rparr>"

section \<open>Driving the hardware\<close>

definition da16x_sys_watchdog_ioctl :: "wdog_cmd \<Rightarrow> sys_wdog \<Rightarrow> sys_wdog" where
  "da16x_sys_watchdog_ioctl cmd s =
     (case fsm s of None \<Rightarrow> s
      | Some f \<Rightarrow> s\<lparr>drv := fst (WDOG_IOCTL (fsm_watchdog f) cmd (drv s))\<rparr>)"

definition da16x_sys_watchdog_active :: "wdog_env \<Rightarrow> u32 \<Rightarrow> sys_wdog \<Rightarrow> sys_wdog" where
  "da16x_sys_watchdog_active e rescale s =
     (if \<not> da16x_sys_watchdog_is_init s then s
      else if debug_mode e then s
      else (let clk = sysclock e div 100;
                clk = (if rescale \<noteq> 0 then clk * rescale else clk);
                s1 = da16x_sys_watchdog_ioctl WDOG_SET_DISABLE s;
                s2 = da16x_sys_watchdog_ioctl (WDOG_SET_COUNTER clk) s1
            in da16x_sys_watchdog_ioctl (WDOG_SET_ENABLE None) s2))"

definition da16x_sys_watchdog_enable :: "wdog_env \<Rightarrow> sys_wdog \<Rightarrow> sys_wdog" where
  "da16x_sys_watchdog_enable e s =
     (if \<not> da16x_sys_watchdog_is_init s then s
      else if debug_mode e then s
      else (da16x_sys_watchdog_ioctl WDOG_SET_ON s)\<lparr>wdog_active := True\<rparr>)"

definition da16x_sys_watchdog_disable :: "wdog_env \<Rightarrow> sys_wdog \<Rightarrow> sys_wdog" where
  "da16x_sys_watchdog_disable e s =
     (if \<not> da16x_sys_watchdog_is_init s then s
      else if debug_mode e then s
      else (da16x_sys_watchdog_ioctl WDOG_SET_OFF s)\<lparr>wdog_active := False\<rparr>)"

definition da16x_sys_watchdog_get_status :: "sys_wdog \<Rightarrow> u32" where
  "da16x_sys_watchdog_get_status s =
     (case fsm s of None \<Rightarrow> 0
      | Some f \<Rightarrow> (case snd (snd (WDOG_IOCTL (fsm_watchdog f) WDOG_GET_STATUS (drv s))) of
                    None \<Rightarrow> 0 | Some v \<Rightarrow> v))"

definition da16x_sys_watchdog_reset_watchdog :: "wdog_env \<Rightarrow> sys_wdog \<Rightarrow> sys_wdog" where
  "da16x_sys_watchdog_reset_watchdog e s =
     da16x_sys_watchdog_active e (rescale_time s) (s\<lparr>notified_mask := [0, 0]\<rparr>)"

section \<open>The watchdog interrupt callback\<close>

text \<open>
  First loop: every task with latency left spends one unit of it and is excused for this interval.
  Second loop: a block of 32 tasks is alive when all its monitored, not excused tasks have notified.
\<close>

definition latency_block :: "u8 list \<Rightarrow> nat \<Rightarrow> u32" where
  "latency_block lat idx =
     foldl (\<lambda>m b. if lat ! (b + idx * 32) = 0 then m else m OR bit32 b) 0 [0..<32]"

definition spend_latency :: "u8 list \<Rightarrow> u8 list" where
  "spend_latency lat = map (\<lambda>l. if l = 0 then l else l - 1) lat"

definition block_alive :: "u32 \<Rightarrow> u32 \<Rightarrow> bool" where
  "block_alive notified required \<longleftrightarrow> notified AND required = required"

definition callback_check :: "sys_wdog \<Rightarrow> sys_wdog \<times> bool" where
  "callback_check s =
     (let reset_wdog_cnt = length (filter (\<lambda>idx. block_alive (notified_mask s ! idx)
            (monitored_mask s ! idx AND NOT (latency_block (tasks_latency s) idx))) [0..<2])
      in (s\<lparr>tasks_latency := spend_latency (tasks_latency s)\<rparr>, reset_wdog_cnt = 2))"

datatype callback_outcome = Cb_Returned | Cb_Restarted | Cb_Reset

text \<open>
  Without a restart the callback sets the driver's reset flag and calls the interrupt service
  routine itself, which spins until the hardware resets, or, if the flag did not stick, calls this
  callback again.
\<close>

partial_function (option) da16x_sys_watchdog_callback ::
    "wdog_env \<Rightarrow> u32 \<Rightarrow> sys_wdog \<Rightarrow> (sys_wdog \<times> callback_outcome) option" where
  "da16x_sys_watchdog_callback e param s =
     (if param = 0 then Some (s, Cb_Returned)
      else if snd (callback_check s)
      then Some (da16x_sys_watchdog_reset_watchdog e (fst (callback_check s)), Cb_Restarted)
      else (let s2 = da16x_sys_watchdog_ioctl (WDOG_SET_RESET None) (fst (callback_check s));
                r = da16x_watchdog_isr (drv s2);
                s3 = s2\<lparr>drv := fst r\<rparr>
            in (case snd r of
                  Isr_Halted \<Rightarrow> Some (s3, Cb_Reset)
                | Isr_Return \<Rightarrow> Some (s3, Cb_Returned)
                | Isr_Callback f p \<Rightarrow> da16x_sys_watchdog_callback e p s3)))"

section \<open>Initialisation and registration\<close>

definition da16x_sys_watchdog_init :: "wdog_env \<Rightarrow> sys_wdog \<Rightarrow> int \<times> sys_wdog" where
  "da16x_sys_watchdog_init e s =
     (if \<not> wdog_active s then (-1, s)
      else if da16x_sys_watchdog_is_init s then (-1, s)
      else if fsm_addr e = 0 then (-1, s)
      else (let (d1, h) = WDOG_CREATE (drv s) in
        if \<not> h then (-1, s\<lparr>drv := d1, fsm := None\<rparr>)
        else (let d2 = fst (WDOG_INIT h d1);
                  d3 = (if debug_mode e
                        then fst (WDOG_CLOSE h (fst (WDOG_IOCTL h WDOG_SET_DISABLE d2)))
                        else fst (WDOG_IOCTL h (WDOG_SET_CALLACK 0 (callback_addr e) (fsm_addr e))
                               (fst (WDOG_IOCTL h (WDOG_SET_ABORT (Some 1)) d2))));
                  s1 = s\<lparr>drv := d3, auto_goto_por := True,
                         fsm := Some \<lparr>fsm_mutex = sem_create e, fsm_watchdog = h\<rparr>,
                         tasks_mask := [0, 0], monitored_mask := [0, 0], notified_mask := [0, 0],
                         idle_task_id := -1, max_task_id := -1, tasks_latency := replicate 64 0\<rparr>
              in (0, da16x_sys_watchdog_active e (rescale_time s1) s1))))"

definition da16x_sys_watchdog_register :: "wdog_env \<Rightarrow> sys_wdog \<Rightarrow> int \<times> sys_wdog" where
  "da16x_sys_watchdog_register e s =
     (if \<not> wdog_active s then (-1, s)
      else (let (ret, s1) = (if \<not> da16x_sys_watchdog_is_init s
                             then da16x_sys_watchdog_init e s else (0, s)) in
        if ret \<noteq> 0 then (-1, s1)
        else if \<not> da16x_sys_watchdog_get_mutex e s1 then (-1, s1)
        else (let i = da16x_sys_watchdog_get_empty_id s1 in
          if i < 0 then (0, s1)
          else (let s2 = da16x_sys_watchdog_mask_task i s1;
                    s3 = da16x_sys_watchdog_mask_monitored_task i s2;
                    s4 = s3\<lparr>task_handle := (task_handle s3)[nat i := current_task e]\<rparr>;
                    s5 = (if i > max_task_id s4 then s4\<lparr>max_task_id := i\<rparr> else s4)
                in (i, s5)))))"

fun max_task_loop :: "u32 list \<Rightarrow> nat list \<Rightarrow> int option" where
  "max_task_loop ms [] = None"
| "max_task_loop ms (idx # idxs) =
     (case find (\<lambda>b. ms ! idx AND bit32 b \<noteq> 0) (rev [0..<32]) of
        Some b \<Rightarrow> Some (int (b + idx * 32))
      | None \<Rightarrow> max_task_loop ms idxs)"

definition wdog_enter :: "wdog_env \<Rightarrow> int \<Rightarrow> sys_wdog \<Rightarrow> bool" where
  "wdog_enter e i s \<longleftrightarrow>
     wdog_active s \<and> da16x_sys_watchdog_is_init s \<and> da16x_sys_watchdog_vaildate_id i \<and>
     da16x_sys_watchdog_get_mutex e s"

definition da16x_sys_watchdog_unregister :: "wdog_env \<Rightarrow> int \<Rightarrow> sys_wdog \<Rightarrow> int \<times> sys_wdog" where
  "da16x_sys_watchdog_unregister e i s =
     (if \<not> wdog_enter e i s then (-1, s)
      else (let s1 = da16x_sys_watchdog_unmask_task i s;
                s2 = da16x_sys_watchdog_unmask_monitored_task i s1;
                s3 = s2\<lparr>tasks_latency := (tasks_latency s2)[nat i := 0],
                       task_handle := (task_handle s2)[nat i := 0]\<rparr>
            in (0, case max_task_loop (tasks_mask s3) [1, 0] of
                     None \<Rightarrow> s3
                   | Some m \<Rightarrow> s3\<lparr>max_task_id := m\<rparr>)))"

definition da16x_sys_watchdog_configure_idle_id :: "int \<Rightarrow> sys_wdog \<Rightarrow> sys_wdog" where
  "da16x_sys_watchdog_configure_idle_id i s = (if \<not> wdog_active s then s else s\<lparr>idle_task_id := i\<rparr>)"

section \<open>Monitoring\<close>

definition da16x_sys_watchdog_suspend :: "wdog_env \<Rightarrow> int \<Rightarrow> sys_wdog \<Rightarrow> int \<times> sys_wdog" where
  "da16x_sys_watchdog_suspend e i s =
     (if \<not> wdog_enter e i s then (-1, s)
      else (0, da16x_sys_watchdog_unmask_monitored_task i s))"

definition da16x_sys_watchdog_resume_monitoring :: "int \<Rightarrow> sys_wdog \<Rightarrow> sys_wdog" where
  "da16x_sys_watchdog_resume_monitoring i s =
     (let s1 = da16x_sys_watchdog_mask_monitored_task i s
      in s1\<lparr>monitored_mask := map (\<lambda>idx. monitored_mask s1 ! idx AND tasks_mask s1 ! idx) [0..<2]\<rparr>)"

definition da16x_sys_watchdog_resume :: "wdog_env \<Rightarrow> int \<Rightarrow> sys_wdog \<Rightarrow> int \<times> sys_wdog" where
  "da16x_sys_watchdog_resume e i s =
     (if \<not> wdog_enter e i s then (-1, s)
      else (0, da16x_sys_watchdog_resume_monitoring i s))"

definition da16x_sys_watchdog_notify_about_task :: "wdog_env \<Rightarrow> int \<Rightarrow> sys_wdog \<Rightarrow> sys_wdog" where
  "da16x_sys_watchdog_notify_about_task e i s =
     (if \<not> wdog_active s then s
      else (let (idx, b) = da16x_sys_watchdog_get_idx i;
                s1 = (if tasks_mask s ! idx AND bit32 b \<noteq> 0
                      then (da16x_sys_watchdog_mask_notified_task i s)
                             \<lparr>tasks_latency := (tasks_latency s)[nat i := 0]\<rparr>
                      else s);
                reset_wdog_cnt = length (filter (\<lambda>idx. block_alive (notified_mask s1 ! idx)
                                          (monitored_mask s1 ! idx)) [0..<2])
            in if reset_wdog_cnt = 2 then da16x_sys_watchdog_reset_watchdog e s1 else s1))"

lemma watchdog_active_frame [simp]:
  "idle_task_id (da16x_sys_watchdog_active e r s) = idle_task_id s"
  "wdog_active (da16x_sys_watchdog_active e r s) = wdog_active s"
  "tasks_mask (da16x_sys_watchdog_active e r s) = tasks_mask s"
  "monitored_mask (da16x_sys_watchdog_active e r s) = monitored_mask s"
  "notified_mask (da16x_sys_watchdog_active e r s) = notified_mask s"
  "tasks_latency (da16x_sys_watchdog_active e r s) = tasks_latency s"
  "task_handle (da16x_sys_watchdog_active e r s) = task_handle s"
  "max_task_id (da16x_sys_watchdog_active e r s) = max_task_id s"
  "rescale_time (da16x_sys_watchdog_active e r s) = rescale_time s"
  "fsm (da16x_sys_watchdog_active e r s) = fsm s"
  by (simp_all add: da16x_sys_watchdog_active_def da16x_sys_watchdog_ioctl_def Let_def
      split: option.splits)

lemma notify_about_task_idle [simp]:
  "idle_task_id (da16x_sys_watchdog_notify_about_task e i s) = idle_task_id s"
  by (simp add: da16x_sys_watchdog_notify_about_task_def da16x_sys_watchdog_reset_watchdog_def
      da16x_sys_watchdog_mask_notified_task_def Let_def split: prod.splits)

text \<open>
  Notifying for one task also notifies for the idle task; the nested call is for the idle task
  itself and goes no deeper.
\<close>

function da16x_sys_watchdog_notify :: "wdog_env \<Rightarrow> int \<Rightarrow> sys_wdog \<Rightarrow> int \<times> sys_wdog" where
  "da16x_sys_watchdog_notify e i s =
     (if \<not> wdog_enter e i s then (-1, s)
      else (let s1 = da16x_sys_watchdog_notify_about_task e i s in
        (0, if wdog_active s1 \<and> i \<noteq> idle_task_id s1 \<and> idle_task_id s1 \<noteq> -1
            then snd (da16x_sys_watchdog_notify e (idle_task_id s1) s1) else s1)))"
  by pat_completeness auto
termination
  by (relation "measure (\<lambda>(e, i, s). if i = idle_task_id s then 0 else 1)") auto

declare da16x_sys_watchdog_notify.simps [simp del]

definition da16x_sys_watchdog_notify_idle :: "wdog_env \<Rightarrow> int \<Rightarrow> sys_wdog \<Rightarrow> sys_wdog" where
  "da16x_sys_watchdog_notify_idle e i s =
     (if \<not> wdog_active s then s
      else if i \<noteq> idle_task_id s \<and> idle_task_id s \<noteq> -1
      then snd (da16x_sys_watchdog_notify e (idle_task_id s) s) else s)"

definition da16x_sys_watchdog_notify_and_resume :: "wdog_env \<Rightarrow> int \<Rightarrow> sys_wdog \<Rightarrow> int \<times> sys_wdog" where
  "da16x_sys_watchdog_notify_and_resume e i s =
     (if \<not> wdog_enter e i s then (-1, s)
      else (let s1 = da16x_sys_watchdog_resume_monitoring i s;
                s2 = da16x_sys_watchdog_notify_about_task e i s1
            in (0, da16x_sys_watchdog_notify_idle e i s2)))"

definition da16x_sys_watchdog_set_latency :: "wdog_env \<Rightarrow> int \<Rightarrow> u8 \<Rightarrow> sys_wdog \<Rightarrow> int \<times> sys_wdog" where
  "da16x_sys_watchdog_set_latency e i latency s =
     (if \<not> wdog_enter e i s then (-1, s)
      else (0, s\<lparr>tasks_latency := (tasks_latency s)[nat i := latency]\<rparr>))"

definition da16x_sys_watchdog_set_rescale_time :: "wdog_env \<Rightarrow> u32 \<Rightarrow> sys_wdog \<Rightarrow> int \<times> sys_wdog" where
  "da16x_sys_watchdog_set_rescale_time e r s =
     (if \<not> wdog_active s then (-1, s)
      else if r < MIN_RESCALE_TIME \<or> r > MAX_RESCALE_TIME then (-1, s)
      else if \<not> da16x_sys_watchdog_is_init s then (-1, s)
      else if \<not> da16x_sys_watchdog_get_mutex e s then (-1, s)
      else (0, s\<lparr>rescale_time := r\<rparr>))"

definition da16x_sys_watchdog_get_rescale_time :: "sys_wdog \<Rightarrow> u32" where
  "da16x_sys_watchdog_get_rescale_time s = (if \<not> wdog_active s then 0 else rescale_time s)"

text \<open>
  The console command, without its output: \<open>True\<close> when the code reaches its help text. The
  parsed number is an \<^verbatim>\<open>int\<close> stored through a pointer to \<^verbatim>\<open>unsigned int\<close>.
\<close>

definition da16x_sys_watchdog_cmd :: "wdog_env \<Rightarrow> string list \<Rightarrow> sys_wdog \<Rightarrow> sys_wdog \<times> bool" where
  "da16x_sys_watchdog_cmd e argv s =
     (if length argv < 1 then (s, True)
      else if length argv = 2
      then (if argv ! 1 = ''info'' then (s, False)
            else if argv ! 1 = ''disable'' then (da16x_sys_watchdog_disable e s, False)
            else if argv ! 1 = ''enable'' then (da16x_sys_watchdog_enable e s, False)
            else (s, True))
      else if length argv = 3 \<and> argv ! 1 = ''rescale_time''
      then (case get_int_val_from_str (argv ! 2) POL_1 of
              None \<Rightarrow> (s, True)
            | Some v \<Rightarrow>
                (let (ret, s1) = da16x_sys_watchdog_set_rescale_time e (of_int v) s
                 in (s1, ret \<noteq> 0)))
      else (s, True))"

end
