(* ===== verification/Task_Masks.thy ===== *)
theory Task_Masks
  imports Sys_Watchdog
begin

text \<open>
  The task masks of the system watchdog read as finite sets of identifiers. The locale \<open>id_table\<close> is
  the contract the registration code relies on (insert, delete and "first free identifier" of a
  bounded identifier set); the two-word masks of the code are an interpretation of it.
\<close>

section \<open>The contract\<close>

locale id_table =
  fixes invar :: "'m \<Rightarrow> bool"
    and ids :: "'m \<Rightarrow> nat set"
    and cap :: nat
    and add :: "nat \<Rightarrow> 'm \<Rightarrow> 'm"
    and del :: "nat \<Rightarrow> 'm \<Rightarrow> 'm"
    and free_id :: "'m \<Rightarrow> nat option"
    and top_id :: "'m \<Rightarrow> nat option"
  assumes ids_bound: "invar m \<Longrightarrow> ids m \<subseteq> {..<cap}"
    and ids_add: "invar m \<Longrightarrow> i < cap \<Longrightarrow> ids (add i m) = insert i (ids m)"
    and ids_del: "invar m \<Longrightarrow> i < cap \<Longrightarrow> ids (del i m) = ids m - {i}"
    and invar_add: "invar m \<Longrightarrow> i < cap \<Longrightarrow> invar (add i m)"
    and invar_del: "invar m \<Longrightarrow> i < cap \<Longrightarrow> invar (del i m)"
    and free_id_None: "invar m \<Longrightarrow> free_id m = None \<longleftrightarrow> {..<cap} \<subseteq> ids m"
    and free_id_Some: "invar m \<Longrightarrow> free_id m = Some i \<Longrightarrow>
          i < cap \<and> i \<notin> ids m \<and> (\<forall>j < i. j \<in> ids m)"
    and top_id_None: "invar m \<Longrightarrow> top_id m = None \<longleftrightarrow> ids m = {}"
    and top_id_Some: "invar m \<Longrightarrow> top_id m = Some i \<Longrightarrow> i \<in> ids m \<and> (\<forall>j \<in> ids m. j \<le> i)"
begin

lemma finite_ids: "invar m \<Longrightarrow> finite (ids m)"
  using ids_bound finite_subset by blast

lemma card_ids: "invar m \<Longrightarrow> card (ids m) \<le> cap"
  using ids_bound card_mono [of "{..<cap}" "ids m"] by simp

text \<open>Allocation succeeds exactly while there is room, and grows the set by a new element.\<close>

lemma alloc_iff_room: "invar m \<Longrightarrow> free_id m \<noteq> None \<longleftrightarrow> card (ids m) < cap"
proof -
  assume inv: "invar m"
  show ?thesis
  proof
    assume "free_id m \<noteq> None"
    with inv have "\<not> {..<cap} \<subseteq> ids m" by (simp add: free_id_None)
    then have "ids m \<subset> {..<cap}" using ids_bound [OF inv] by blast
    then show "card (ids m) < cap" using psubset_card_mono [of "{..<cap}" "ids m"] by simp
  next
    assume lt: "card (ids m) < cap"
    show "free_id m \<noteq> None"
    proof
      assume "free_id m = None"
      with inv have "ids m = {..<cap}" using ids_bound [OF inv] by (auto simp: free_id_None)
      with lt show False by simp
    qed
  qed
qed

lemma alloc_fresh:
  "invar m \<Longrightarrow> free_id m = Some i \<Longrightarrow> ids (add i m) = insert i (ids m) \<and> i \<notin> ids m"
  using free_id_Some [of m i] ids_add [of m i] by blast

text \<open>Releasing what was just allocated gives the old set back.\<close>

lemma alloc_release:
  "invar m \<Longrightarrow> free_id m = Some i \<Longrightarrow> ids (del i (add i m)) = ids m"
  using free_id_Some [of m i] by (simp add: ids_add ids_del invar_add)

lemma top_id_Max: "invar m \<Longrightarrow> top_id m = Some i \<Longrightarrow> i = Max (ids m)"
  using top_id_Some [of m i] finite_ids [of m] by (metis Max_eqI)

end

section \<open>Masks as sets\<close>

definition mask_invar :: "u32 list \<Rightarrow> bool" where
  "mask_invar ms \<longleftrightarrow> length ms = 2"

definition mask_ids :: "u32 list \<Rightarrow> nat set" where
  "mask_ids ms = {i. i < 64 \<and> bit (ms ! (i div 32)) (i mod 32)}"

definition mask_free :: "u32 list \<Rightarrow> nat option" where
  "mask_free ms = (let i = get_empty_loop ms 0 in if i < 0 then None else Some (nat i))"

definition mask_top :: "u32 list \<Rightarrow> nat option" where
  "mask_top ms = map_option nat (max_task_loop ms [1, 0])"

lemma mask_invarI [simp]: "mask_invar [a, b]"
  by (simp add: mask_invar_def)

lemma lt_64_cases:
  assumes "i < (64::nat)"
  obtains "i < 32" "i div 32 = 0" "i mod 32 = i" | j where "j < 32" "i = j + 32" "i div 32 = 1" "i mod 32 = j"
proof (cases "i < 32")
  case True
  then show ?thesis using that(1) by simp
next
  case False
  then show ?thesis using that(2) [of "i - 32"] assms by (simp add: le_mod_geq le_div_geq)
qed

lemma mask_ids_iff [mask_simps]:
  "i \<in> mask_ids ms \<longleftrightarrow> i < 64 \<and> bit (ms ! (i div 32)) (i mod 32)"
  by (simp add: mask_ids_def)

lemma mask_ids_zero [simp]: "mask_ids [0, 0] = {}"
  by (auto simp: mask_ids_def elim: lt_64_cases)

lemma get_idx_nat:
  "i < 64 \<Longrightarrow> da16x_sys_watchdog_get_idx (int i) = (i div 32, i mod 32)"
  by (auto simp: da16x_sys_watchdog_get_idx_def nat_diff_distrib nat_div_distrib nat_mult_distrib
      minus_div_mult_eq_mod nat_mod_distrib simp flip: of_nat_div)

lemma div_lt_2: "i < (64::nat) \<Longrightarrow> i div 32 < 2"
  by linarith

lemma div_mod_32_eq: "(i::nat) div 32 = j div 32 \<Longrightarrow> i mod 32 = j mod 32 \<Longrightarrow> i = j"
  by (metis div_mult_mod_eq)

lemma or_bit_ids [mask_simps]:
  assumes "mask_invar ms" "i < 64"
  shows "mask_ids (or_bit (int i) ms) = insert i (mask_ids ms)"
  using assms div_lt_2 [of i]
  by (auto simp: mask_ids_def or_bit_def get_idx_nat mask_invar_def nth_list_update bit_or_iff bit_bit32
      dest: div_mod_32_eq)

lemma clear_bit_ids [mask_simps]:
  assumes "mask_invar ms" "i < 64"
  shows "mask_ids (clear_bit (int i) ms) = mask_ids ms - {i}"
  using assms div_lt_2 [of i]
  by (auto simp: mask_ids_def clear_bit_def get_idx_nat mask_invar_def nth_list_update bit_and_iff
      bit_not_iff bit_bit32 dest: div_mod_32_eq)

lemma mask_invar_or [simp]: "mask_invar ms \<Longrightarrow> mask_invar (or_bit i ms)"
  by (simp add: mask_invar_def or_bit_def split: prod.splits)

lemma mask_invar_clear [simp]: "mask_invar ms \<Longrightarrow> mask_invar (clear_bit i ms)"
  by (simp add: mask_invar_def clear_bit_def split: prod.splits)

lemma find_first:
  "find P [0..<n] = Some b \<Longrightarrow> b < n \<and> P b \<and> (\<forall>j < b. \<not> P j)"
  by (auto simp: find_Some_iff)

lemma find_last:
  "find P (rev [0..<n]) = Some b \<Longrightarrow> b < n \<and> P b \<and> (\<forall>j. b < j \<and> j < n \<longrightarrow> \<not> P j)"
proof -
  assume "find P (rev [0..<n]) = Some b"
  then obtain k where k: "k < n" "P (rev [0..<n] ! k)" "b = rev [0..<n] ! k"
    "\<forall>j < k. \<not> P (rev [0..<n] ! j)"
    by (auto simp: find_Some_iff)
  then have b: "b = n - Suc k" by (simp add: rev_nth)
  have "\<not> P j" if "b < j" "j < n" for j
  proof -
    from that b have "n - Suc j < k" "rev [0..<n] ! (n - Suc j) = j" by (auto simp: rev_nth)
    with k(4) show ?thesis by metis
  qed
  with k b show ?thesis by auto
qed

lemma mask_ids_pair:
  "i \<in> mask_ids [a, b] \<longleftrightarrow> i < 32 \<and> bit a i \<or> 32 \<le> i \<and> i < 64 \<and> bit b (i - 32)"
  by (cases "i < 64"; cases "i < 32") (auto simp: mask_ids_def le_mod_geq le_div_geq)

lemma get_empty_pair:
  "get_empty_loop [a, b] 0 =
     (case find (\<lambda>n. \<not> bit a n) [0..<32] of Some n \<Rightarrow> int n
      | None \<Rightarrow> (case find (\<lambda>n. \<not> bit b n) [0..<32] of Some n \<Rightarrow> int (n + 32) | None \<Rightarrow> -1))"
proof -
  have "find (\<lambda>n. m AND bit32 n = 0) [0..<32] = find (\<lambda>n. \<not> bit m n) [0..<32]" for m
    by (rule find_cong) (simp_all add: and_bit32_eq_0)
  then show ?thesis by (simp split: option.splits)
qed

lemma max_task_pair:
  "max_task_loop [a, b] [1, 0] =
     (case find (bit b) (rev [0..<32]) of Some n \<Rightarrow> Some (int (n + 32))
      | None \<Rightarrow> (case find (bit a) (rev [0..<32]) of Some n \<Rightarrow> Some (int n) | None \<Rightarrow> None))"
proof -
  have "find (\<lambda>n. m AND bit32 n \<noteq> 0) (rev [0..<32]) = find (bit m) (rev [0..<32])" for m
    by (rule find_cong) (simp_all add: and_bit32_eq_0)
  then show ?thesis by (simp split: option.splits)
qed

declare get_empty_loop.simps [simp del] max_task_loop.simps [simp del]

lemma mask_free_None: "mask_invar ms \<Longrightarrow> mask_free ms = None \<longleftrightarrow> {..<64} \<subseteq> mask_ids ms"
proof -
  assume "mask_invar ms"
  then obtain a b where ms: "ms = [a, b]" by (auto simp: mask_invar_def length_2_conv)
  have "mask_free ms = None \<longleftrightarrow> (\<forall>n < 32. bit a n) \<and> (\<forall>n < 32. bit b n)"
    by (auto simp: mask_free_def ms get_empty_pair find_None_iff Let_def split: option.splits
        dest!: find_first)
  also have "\<dots> \<longleftrightarrow> {..<64} \<subseteq> mask_ids ms"
  proof
    assume all: "(\<forall>n < 32. bit a n) \<and> (\<forall>n < 32. bit b n)"
    show "{..<64} \<subseteq> mask_ids ms"
    proof
      fix i :: nat
      assume "i \<in> {..<64}"
      then have "i < 32 \<or> (32 \<le> i \<and> i < 64 \<and> i - 32 < 32)" by auto
      with all show "i \<in> mask_ids ms" by (auto simp: ms mask_ids_pair)
    qed
  next
    assume sub: "{..<64} \<subseteq> mask_ids ms"
    have "bit a n" if "n < 32" for n
    proof -
      from that sub have "n \<in> mask_ids ms" by auto
      with that show ?thesis by (simp add: ms mask_ids_pair)
    qed
    moreover have "bit b n" if "n < 32" for n
    proof -
      from that sub have "n + 32 \<in> mask_ids ms" by auto
      then show ?thesis by (simp add: ms mask_ids_pair)
    qed
    ultimately show "(\<forall>n < 32. bit a n) \<and> (\<forall>n < 32. bit b n)" by blast
  qed
  finally show ?thesis .
qed

lemma mask_free_Some:
  assumes "mask_invar ms" "mask_free ms = Some i"
  shows "i < 64 \<and> i \<notin> mask_ids ms \<and> (\<forall>j < i. j \<in> mask_ids ms)"
proof -
  obtain a b where ms: "ms = [a, b]" using assms(1) by (auto simp: mask_invar_def length_2_conv)
  show ?thesis
  proof (cases "find (\<lambda>n. \<not> bit a n) [0..<32]")
    case (Some n)
    with assms(2) have "i = n" by (simp add: mask_free_def ms get_empty_pair)
    with find_first [OF Some] show ?thesis by (auto simp: ms mask_ids_pair)
  next
    case None
    then have a: "\<forall>n < 32. bit a n" by (simp add: find_None_iff)
    from None assms(2) obtain n where n: "find (\<lambda>n. \<not> bit b n) [0..<32] = Some n" "i = n + 32"
      by (auto simp: mask_free_def ms get_empty_pair Let_def split: option.splits if_splits)
    have "j \<in> mask_ids ms" if "j < i" for j
      using that n(2) a find_first [OF n(1)] by (cases "j < 32") (auto simp: ms mask_ids_pair)
    with n find_first [OF n(1)] show ?thesis by (auto simp: ms mask_ids_pair)
  qed
qed

lemma mask_top_None: "mask_invar ms \<Longrightarrow> mask_top ms = None \<longleftrightarrow> mask_ids ms = {}"
proof -
  assume "mask_invar ms"
  then obtain a b where ms: "ms = [a, b]" by (auto simp: mask_invar_def length_2_conv)
  have "mask_top ms = None \<longleftrightarrow> (\<forall>n < 32. \<not> bit a n) \<and> (\<forall>n < 32. \<not> bit b n)"
    by (auto simp: mask_top_def ms max_task_pair [simplified] find_None_iff split: option.splits dest!: find_last)
  also have "\<dots> \<longleftrightarrow> (\<forall>i. i \<notin> mask_ids ms)"
    by (auto simp: ms mask_ids_pair) (metis add.commute add_diff_cancel_left' le_add1 nat_add_left_cancel_less
        numeral_Bit0)
  finally show ?thesis by auto
qed

lemma mask_top_Some:
  assumes "mask_invar ms" "mask_top ms = Some i"
  shows "i \<in> mask_ids ms \<and> (\<forall>j \<in> mask_ids ms. j \<le> i)"
proof -
  obtain a b where ms: "ms = [a, b]" using assms(1) by (auto simp: mask_invar_def length_2_conv)
  show ?thesis
  proof (cases "find (bit b) (rev [0..<32])")
    case (Some n)
    with assms(2) have i: "i = n + 32" by (simp add: mask_top_def ms max_task_pair [simplified])
    have "j \<le> i" if "j \<in> mask_ids ms" for j
    proof (rule ccontr)
      assume "\<not> j \<le> i"
      with that i have "32 \<le> j" "j < 64" "bit b (j - 32)" "n < j - 32" "j - 32 < 32"
        by (auto simp: ms mask_ids_pair)
      with find_last [OF Some] show False by blast
    qed
    with i find_last [OF Some] show ?thesis by (auto simp: ms mask_ids_pair)
  next
    case None
    then have b: "\<forall>n < 32. \<not> bit b n" by (simp add: find_None_iff)
    from None assms(2) obtain n where n: "find (bit a) (rev [0..<32]) = Some n" "i = n"
      by (auto simp: mask_top_def ms max_task_pair [simplified] split: option.splits)
    have "j \<le> i" if "j \<in> mask_ids ms" for j
      using that find_last [OF n(1)] n(2) b by (force simp: ms mask_ids_pair not_le [symmetric])
    with n find_last [OF n(1)] show ?thesis by (auto simp: ms mask_ids_pair)
  qed
qed

interpretation tm: id_table mask_invar mask_ids 64 "\<lambda>i. or_bit (int i)" "\<lambda>i. clear_bit (int i)"
    mask_free mask_top
proof unfold_locales
  show "mask_invar m \<Longrightarrow> mask_ids m \<subseteq> {..<64}" for m by (auto simp: mask_ids_def)
qed (simp_all add: or_bit_ids clear_bit_ids mask_free_None mask_top_None mask_free_Some mask_top_Some)

section \<open>Derived masks\<close>

lemma block_alive_iff: "block_alive n r \<longleftrightarrow> (\<forall>k < 32. bit r k \<longrightarrow> bit n k)"
  by (simp add: block_alive_def and_eq_right_iff)

lemma blocks_alive_iff:
  assumes "mask_invar ns" "mask_invar rs"
  shows "length (filter (\<lambda>idx. block_alive (ns ! idx) (rs ! idx)) [0..<2]) = 2
         \<longleftrightarrow> mask_ids rs \<subseteq> mask_ids ns"
proof -
  obtain a b c d where eq: "ns = [a, b]" "rs = [c, d]"
    using assms by (auto simp: mask_invar_def length_2_conv)
  have "length (filter (\<lambda>idx. block_alive (ns ! idx) (rs ! idx)) [0..<2]) = 2
        \<longleftrightarrow> block_alive a c \<and> block_alive b d"
    by (simp add: eq numeral_2_eq_2 upt_rec)
  also have "\<dots> \<longleftrightarrow> (\<forall>i. i \<in> mask_ids rs \<longrightarrow> i \<in> mask_ids ns)"
  proof
    assume "block_alive a c \<and> block_alive b d"
    then show "\<forall>i. i \<in> mask_ids rs \<longrightarrow> i \<in> mask_ids ns"
      by (auto simp: eq mask_ids_pair block_alive_iff)
  next
    assume h: "\<forall>i. i \<in> mask_ids rs \<longrightarrow> i \<in> mask_ids ns"
    have "bit a k" if "k < 32" "bit c k" for k
      using that h by (auto simp: eq mask_ids_pair)
    moreover have "bit b k" if "k < 32" "bit d k" for k
      using that h [rule_format, of "k + 32"] by (auto simp: eq mask_ids_pair)
    ultimately show "block_alive a c \<and> block_alive b d" by (simp add: block_alive_iff)
  qed
  finally show ?thesis by blast
qed

lemma mask_and_ids:
  assumes "mask_invar ms" "mask_invar ns"
  shows "mask_ids (map (\<lambda>idx. ms ! idx AND ns ! idx) [0..<2]) = mask_ids ms \<inter> mask_ids ns"
    and "mask_invar (map (\<lambda>idx. ms ! idx AND ns ! idx) [0..<2])"
  by (auto simp: mask_ids_def mask_invar_def div_lt_2 bit_and_iff)

lemma latency_fold:
  "k < 32 \<Longrightarrow> n \<le> 32 \<Longrightarrow>
   bit (foldl (\<lambda>m b. if lat ! (b + idx * 32) = (0 :: u8) then m else m OR bit32 b) 0 [0..<n]) k
   \<longleftrightarrow> k < n \<and> lat ! (k + idx * 32) \<noteq> 0"
  by (induction n) (auto simp: bit_or_iff bit_bit32 less_Suc_eq)

lemma bit_latency_block: "k < 32 \<Longrightarrow> bit (latency_block lat idx) k \<longleftrightarrow> lat ! (k + idx * 32) \<noteq> 0"
  using latency_fold [of k 32 lat idx] by (simp add: latency_block_def)

lemma required_ids:
  "mask_invar ms \<Longrightarrow>
   mask_ids (map (\<lambda>idx. ms ! idx AND NOT (latency_block lat idx)) [0..<2])
     = {i \<in> mask_ids ms. lat ! i = 0}"
  by (auto simp: mask_ids_def mask_invar_def div_lt_2 bit_and_iff bit_not_iff bit_latency_block)

end
