(* ===== verification/Watchdog_Spec.thy ===== *)
theory Watchdog_Spec
  imports Task_Masks
begin

text \<open>
  The system watchdog against its abstract specification: sets of registered, monitored and notified
  task identifiers. The abstraction \<open>reg\<close>, \<open>mon\<close>, \<open>ntf\<close> reads the three masks; each operation of
  the service is shown to compute the corresponding set operation, the invariant \<open>wdog_wf\<close> holds in
  every reachable state, and the interrupt callback resets the system exactly when a monitored task
  without latency has not notified.
\<close>

section \<open>Abstraction and invariant\<close>

definition reg :: "sys_wdog \<Rightarrow> nat set" where "reg s = mask_ids (tasks_mask s)"
definition mon :: "sys_wdog \<Rightarrow> nat set" where "mon s = mask_ids (monitored_mask s)"
definition ntf :: "sys_wdog \<Rightarrow> nat set" where "ntf s = mask_ids (notified_mask s)"

definition masks_ok :: "sys_wdog \<Rightarrow> bool" where
  "masks_ok s \<longleftrightarrow> mask_invar (tasks_mask s) \<and> mask_invar (monitored_mask s) \<and>
     mask_invar (notified_mask s) \<and> length (tasks_latency s) = 64 \<and> length (task_handle s) = 64"

text \<open>
  Only registered tasks are monitored; a slot has a task handle exactly when it is registered; the
  largest identifier is an upper bound; before initialisation nothing is registered.
\<close>

definition wdog_wf :: "sys_wdog \<Rightarrow> bool" where
  "wdog_wf s \<longleftrightarrow> masks_ok s \<and> mon s \<subseteq> reg s \<and>
     (\<forall>i < 64. task_handle s ! i \<noteq> 0 \<longleftrightarrow> i \<in> reg s) \<and>
     (\<forall>i \<in> reg s. int i \<le> max_task_id s) \<and> max_task_id s < 64 \<and>
     (fsm s = None \<longrightarrow> reg s = {})"

lemmas wdog_abs = reg_def mon_def ntf_def

lemma wdog_wf_masks [simp]: "wdog_wf s \<Longrightarrow> masks_ok s"
  by (simp add: wdog_wf_def)

lemma masks_okD:
  assumes "masks_ok s"
  shows "mask_invar (tasks_mask s)" "mask_invar (monitored_mask s)" "mask_invar (notified_mask s)"
    "length (tasks_latency s) = 64" "length (task_handle s) = 64"
  using assms by (simp_all add: masks_ok_def)

lemma reg_lt: "i \<in> reg s \<Longrightarrow> i < 64"
  by (simp add: reg_def mask_ids_def)

lemma wdog_enterD:
  assumes "wdog_enter e i s"
  shows "0 \<le> i" "i < 64"
  using assms by (auto simp: wdog_enter_def da16x_sys_watchdog_vaildate_id_def)

lemma or_bit_int: "mask_invar ms \<Longrightarrow> 0 \<le> i \<Longrightarrow> i < 64 \<Longrightarrow>
    mask_ids (or_bit i ms) = insert (nat i) (mask_ids ms)"
  using or_bit_ids [of ms "nat i"] by simp

lemma clear_bit_int: "mask_invar ms \<Longrightarrow> 0 \<le> i \<Longrightarrow> i < 64 \<Longrightarrow>
    mask_ids (clear_bit i ms) = mask_ids ms - {nat i}"
  using clear_bit_ids [of ms "nat i"] by simp

section \<open>Registration\<close>

lemma get_empty_mask_free:
  "da16x_sys_watchdog_get_empty_id s =
     (case mask_free (tasks_mask s) of None \<Rightarrow> da16x_sys_watchdog_get_empty_id s | Some i \<Rightarrow> int i)"
  "mask_free (tasks_mask s) = None \<longleftrightarrow> da16x_sys_watchdog_get_empty_id s < 0"
  by (auto simp: da16x_sys_watchdog_get_empty_id_def mask_free_def Let_def)

lemma register_ready:
  assumes "wdog_active s" "da16x_sys_watchdog_is_init s" "da16x_sys_watchdog_get_mutex e s"
  shows "da16x_sys_watchdog_register e s =
    (case mask_free (tasks_mask s) of None \<Rightarrow> (0, s)
     | Some i \<Rightarrow> (int i, s\<lparr>tasks_mask := or_bit (int i) (tasks_mask s),
                      monitored_mask := or_bit (int i) (monitored_mask s),
                      task_handle := (task_handle s)[i := current_task e],
                      max_task_id := max (max_task_id s) (int i)\<rparr>))"
proof (cases "mask_free (tasks_mask s)")
  case None
  then have "da16x_sys_watchdog_get_empty_id s < 0" by (simp add: get_empty_mask_free)
  with None assms show ?thesis by (simp add: da16x_sys_watchdog_register_def)
next
  case (Some i)
  then have "da16x_sys_watchdog_get_empty_id s = int i"
    using get_empty_mask_free(1) [of s] by simp
  with Some assms show ?thesis
    by (simp add: da16x_sys_watchdog_register_def da16x_sys_watchdog_mask_task_def
        da16x_sys_watchdog_mask_monitored_task_def Let_def max_def)
qed

lemma init_state:
  assumes "fsm s = None" "wdog_active s" "fsm_addr e \<noteq> 0"
  shows "fst (da16x_sys_watchdog_init e s) = 0"
    and "tasks_mask (snd (da16x_sys_watchdog_init e s)) = [0, 0]"
    and "monitored_mask (snd (da16x_sys_watchdog_init e s)) = [0, 0]"
    and "notified_mask (snd (da16x_sys_watchdog_init e s)) = [0, 0]"
    and "tasks_latency (snd (da16x_sys_watchdog_init e s)) = replicate 64 0"
    and "task_handle (snd (da16x_sys_watchdog_init e s)) = task_handle s"
    and "max_task_id (snd (da16x_sys_watchdog_init e s)) = -1"
    and "fsm (snd (da16x_sys_watchdog_init e s)) = Some \<lparr>fsm_mutex = sem_create e, fsm_watchdog = True\<rparr>"
    and "wdog_active (snd (da16x_sys_watchdog_init e s))"
  using assms
  by (simp_all add: da16x_sys_watchdog_init_def da16x_sys_watchdog_is_init_def WDOG_CREATE_def Let_def)

lemma init_fail:
  "\<not> (fsm s = None \<and> wdog_active s \<and> fsm_addr e \<noteq> 0) \<Longrightarrow> da16x_sys_watchdog_init e s = (-1, s)"
  by (auto simp: da16x_sys_watchdog_init_def da16x_sys_watchdog_is_init_def)

lemma init_wf: "wdog_wf s \<Longrightarrow> wdog_wf (snd (da16x_sys_watchdog_init e s))"
proof (cases "fsm s = None \<and> wdog_active s \<and> fsm_addr e \<noteq> 0")
  case True
  assume "wdog_wf s"
  then have "length (task_handle s) = 64" "\<forall>i < 64. task_handle s ! i = 0"
    using True by (auto simp: wdog_wf_def masks_ok_def)
  with True show ?thesis
    by (simp add: wdog_wf_def masks_ok_def wdog_abs init_state)
next
  case False
  assume "wdog_wf s"
  with init_fail [OF False] show ?thesis by simp
qed

lemma register_cases:
  obtains "snd (da16x_sys_watchdog_register e s) = s"
  | "snd (da16x_sys_watchdog_register e s) = snd (da16x_sys_watchdog_init e s)"
  | s1 where "s1 = s \<or> s1 = snd (da16x_sys_watchdog_init e s)"
    "wdog_active s1" "da16x_sys_watchdog_is_init s1" "da16x_sys_watchdog_get_mutex e s1"
    "da16x_sys_watchdog_register e s = da16x_sys_watchdog_register e s1"
proof (cases "wdog_active s")
  case False
  then show ?thesis using that(1) by (simp add: da16x_sys_watchdog_register_def)
next
  case True
  note act = this
  show ?thesis
  proof (cases "da16x_sys_watchdog_is_init s")
    case True
    show ?thesis
    proof (cases "da16x_sys_watchdog_get_mutex e s")
      case m: True
      show ?thesis using that(3) [of s] act True m by blast
    next
      case m: False
      then show ?thesis using that(1) act True by (simp add: da16x_sys_watchdog_register_def)
    qed
  next
    case False
    then have none: "fsm s = None" by (simp add: da16x_sys_watchdog_is_init_def)
    show ?thesis
    proof (cases "fsm_addr e \<noteq> 0")
      case True
      obtain s1 where i: "da16x_sys_watchdog_init e s = (0, s1)"
        using init_state(1) [OF none act True] by (metis prod.collapse)
      have ini: "da16x_sys_watchdog_is_init s1" "wdog_active s1"
        using init_state [OF none act True] i by (simp_all add: da16x_sys_watchdog_is_init_def)
      show ?thesis
      proof (cases "da16x_sys_watchdog_get_mutex e s1")
        case m: True
        have "da16x_sys_watchdog_register e s = da16x_sys_watchdog_register e s1"
          using act False i ini m by (simp add: da16x_sys_watchdog_register_def)
        then show ?thesis using that(3) [of s1] ini m i by simp
      next
        case m: False
        have "da16x_sys_watchdog_register e s = (-1, s1)"
          using act False i m by (simp add: da16x_sys_watchdog_register_def)
        then show ?thesis using that(2) i by simp
      qed
    next
      case z: False
      then have "da16x_sys_watchdog_init e s = (-1, s)" by (intro init_fail) simp
      then show ?thesis using that(1) act False by (simp add: da16x_sys_watchdog_register_def)
    qed
  qed
qed

lemma register_wf:
  assumes wf: "wdog_wf s" and task: "current_task e \<noteq> 0"
  shows "wdog_wf (snd (da16x_sys_watchdog_register e s))"
proof (cases e s rule: register_cases)
  case 1
  with wf show ?thesis by simp
next
  case 2
  with init_wf [OF wf] show ?thesis by simp
next
  case (3 s1)
  have wf1: "wdog_wf s1" using 3(1) wf init_wf [OF wf] by blast
  note m = masks_okD [OF wdog_wf_masks [OF wf1]]
  show ?thesis
  proof (cases "mask_free (tasks_mask s1)")
    case None
    with 3 wf1 show ?thesis by (simp add: register_ready)
  next
    case (Some i)
    then have i: "i < 64" "i \<notin> reg s1" using mask_free_Some [OF m(1) Some] by (simp_all add: reg_def)
    have "fsm s1 \<noteq> None" using 3(3) by (simp add: da16x_sys_watchdog_is_init_def)
    with Some 3 wf1 m i task show ?thesis
      by (auto simp: register_ready wdog_wf_def masks_ok_def wdog_abs or_bit_ids nth_list_update)
  qed
qed

lemma unregister_ok:
  assumes "wdog_enter e i s"
  shows "da16x_sys_watchdog_unregister e i s =
    (0, s\<lparr>tasks_mask := clear_bit i (tasks_mask s), monitored_mask := clear_bit i (monitored_mask s),
          tasks_latency := (tasks_latency s)[nat i := 0], task_handle := (task_handle s)[nat i := 0],
          max_task_id := (case max_task_loop (clear_bit i (tasks_mask s)) [1, 0] of
                            None \<Rightarrow> max_task_id s | Some m \<Rightarrow> m)\<rparr>)"
  using assms
  by (simp add: da16x_sys_watchdog_unregister_def da16x_sys_watchdog_unmask_task_def Let_def
      da16x_sys_watchdog_unmask_monitored_task_def split: option.split)

lemma max_task_loop_int: "max_task_loop ms idxs = Some m \<Longrightarrow> 0 \<le> m"
  by (induction ms idxs rule: max_task_loop.induct)
    (auto simp: max_task_loop.simps split: option.splits)

lemma unregister_max:
  assumes "wdog_enter e i s" "masks_ok s"
  shows "max_task_id (snd (da16x_sys_watchdog_unregister e i s)) =
     (if reg s - {nat i} = {} then max_task_id s else int (Max (reg s - {nat i})))"
proof -
  let ?ms = "clear_bit i (tasks_mask s)"
  have inv: "mask_invar ?ms" using assms(2) by (simp add: masks_ok_def)
  have ids: "mask_ids ?ms = reg s - {nat i}"
    using wdog_enterD [OF assms(1)] assms(2) by (simp add: reg_def masks_ok_def clear_bit_int)
  show ?thesis
  proof (cases "max_task_loop ?ms [1, 0]")
    case None
    then have "mask_top ?ms = None" by (simp add: mask_top_def)
    with mask_top_None [OF inv] ids None assms(1) show ?thesis by (simp add: unregister_ok)
  next
    case (Some m)
    then have top: "mask_top ?ms = Some (nat m)" by (simp add: mask_top_def)
    have "reg s - {nat i} \<noteq> {}" using mask_top_Some [OF inv top] ids by blast
    moreover have "m = int (Max (reg s - {nat i}))"
      using tm.top_id_Max [OF inv top] ids max_task_loop_int [OF Some] by simp
    ultimately show ?thesis using Some assms(1) by (simp add: unregister_ok)
  qed
qed

lemma unregister_sets:
  assumes "wdog_enter e i s" "masks_ok s"
  shows "reg (snd (da16x_sys_watchdog_unregister e i s)) = reg s - {nat i}"
    and "mon (snd (da16x_sys_watchdog_unregister e i s)) = mon s - {nat i}"
    and "ntf (snd (da16x_sys_watchdog_unregister e i s)) = ntf s"
  using wdog_enterD [OF assms(1)] masks_okD [OF assms(2)] assms(1)
  by (simp_all add: unregister_ok wdog_abs clear_bit_int)

lemma unregister_wf:
  assumes wf: "wdog_wf s"
  shows "wdog_wf (snd (da16x_sys_watchdog_unregister e i s))"
proof (cases "wdog_enter e i s")
  case False
  with wf show ?thesis by (simp add: da16x_sys_watchdog_unregister_def)
next
  case True
  let ?s = "snd (da16x_sys_watchdog_unregister e i s)"
  note m = masks_okD [OF wdog_wf_masks [OF wf]] and sets = unregister_sets [OF True wdog_wf_masks [OF wf]]
  have fin: "finite (reg s - {nat i})" using tm.finite_ids [OF m(1)] by (simp add: reg_def)
  have "masks_ok ?s" using m True by (simp add: unregister_ok masks_ok_def)
  moreover have "mon ?s \<subseteq> reg ?s" using wf sets by (auto simp: wdog_wf_def)
  moreover have "\<forall>j < 64. task_handle ?s ! j \<noteq> 0 \<longleftrightarrow> j \<in> reg ?s"
    using wf m sets True wdog_enterD [OF True]
    by (auto simp: unregister_ok wdog_wf_def nth_list_update)
  moreover have "\<forall>j \<in> reg ?s. int j \<le> max_task_id ?s"
    using fin by (simp add: unregister_max [OF True wdog_wf_masks [OF wf]] sets) (auto intro: Max_ge)
  moreover have "max_task_id ?s < 64"
  proof (cases "reg s - {nat i} = {}")
    case ne: False
    then have "Max (reg s - {nat i}) \<in> reg s - {nat i}" using fin by (rule Max_in [rotated])
    then have "Max (reg s - {nat i}) < 64" using reg_lt by blast
    with ne show ?thesis by (simp add: unregister_max [OF True wdog_wf_masks [OF wf]])
  qed (use wf in \<open>simp add: unregister_max [OF True wdog_wf_masks [OF wf]] wdog_wf_def\<close>)
  moreover have "fsm ?s = None \<longrightarrow> reg ?s = {}"
    using True by (auto simp: unregister_ok wdog_enter_def da16x_sys_watchdog_is_init_def)
  ultimately show ?thesis by (simp add: wdog_wf_def)
qed

section \<open>Suspend, resume, notify\<close>

lemma suspend_sets:
  assumes "wdog_enter e i s" "masks_ok s"
  shows "reg (snd (da16x_sys_watchdog_suspend e i s)) = reg s"
    and "mon (snd (da16x_sys_watchdog_suspend e i s)) = mon s - {nat i}"
    and "ntf (snd (da16x_sys_watchdog_suspend e i s)) = ntf s"
  using wdog_enterD [OF assms(1)] masks_okD [OF assms(2)] assms(1)
  by (simp_all add: da16x_sys_watchdog_suspend_def wdog_abs clear_bit_int
      da16x_sys_watchdog_unmask_monitored_task_def)

lemma resume_monitoring_sets:
  assumes "0 \<le> i" "i < 64" "masks_ok s"
  shows "reg (da16x_sys_watchdog_resume_monitoring i s) = reg s"
    and "mon (da16x_sys_watchdog_resume_monitoring i s) = insert (nat i) (mon s) \<inter> reg s"
    and "ntf (da16x_sys_watchdog_resume_monitoring i s) = ntf s"
  using masks_okD [OF assms(3)] assms(1,2)
  by (simp_all add: da16x_sys_watchdog_resume_monitoring_def wdog_abs or_bit_int mask_and_ids
      da16x_sys_watchdog_mask_monitored_task_def Let_def)

lemma resume_monitoring_frame [simp]:
  "masks_ok s \<Longrightarrow> masks_ok (da16x_sys_watchdog_resume_monitoring i s)"
  "task_handle (da16x_sys_watchdog_resume_monitoring i s) = task_handle s"
  "max_task_id (da16x_sys_watchdog_resume_monitoring i s) = max_task_id s"
  "fsm (da16x_sys_watchdog_resume_monitoring i s) = fsm s"
  "wdog_active (da16x_sys_watchdog_resume_monitoring i s) = wdog_active s"
  "idle_task_id (da16x_sys_watchdog_resume_monitoring i s) = idle_task_id s"
  by (simp_all add: da16x_sys_watchdog_resume_monitoring_def masks_ok_def mask_invar_def
      da16x_sys_watchdog_mask_monitored_task_def Let_def)

lemma reset_watchdog_frame [simp]:
  "tasks_mask (da16x_sys_watchdog_reset_watchdog e s) = tasks_mask s"
  "monitored_mask (da16x_sys_watchdog_reset_watchdog e s) = monitored_mask s"
  "notified_mask (da16x_sys_watchdog_reset_watchdog e s) = [0, 0]"
  "tasks_latency (da16x_sys_watchdog_reset_watchdog e s) = tasks_latency s"
  "task_handle (da16x_sys_watchdog_reset_watchdog e s) = task_handle s"
  "max_task_id (da16x_sys_watchdog_reset_watchdog e s) = max_task_id s"
  "fsm (da16x_sys_watchdog_reset_watchdog e s) = fsm s"
  "wdog_active (da16x_sys_watchdog_reset_watchdog e s) = wdog_active s"
  "idle_task_id (da16x_sys_watchdog_reset_watchdog e s) = idle_task_id s"
  "rescale_time (da16x_sys_watchdog_reset_watchdog e s) = rescale_time s"
  by (simp_all add: da16x_sys_watchdog_reset_watchdog_def)

lemma notify_about_task_frame [simp]:
  "tasks_mask (da16x_sys_watchdog_notify_about_task e i s) = tasks_mask s"
  "monitored_mask (da16x_sys_watchdog_notify_about_task e i s) = monitored_mask s"
  "task_handle (da16x_sys_watchdog_notify_about_task e i s) = task_handle s"
  "max_task_id (da16x_sys_watchdog_notify_about_task e i s) = max_task_id s"
  "fsm (da16x_sys_watchdog_notify_about_task e i s) = fsm s"
  "wdog_active (da16x_sys_watchdog_notify_about_task e i s) = wdog_active s"
  by (simp_all add: da16x_sys_watchdog_notify_about_task_def Let_def
      da16x_sys_watchdog_mask_notified_task_def split: prod.splits)

lemma notify_about_task_masks [simp]:
  "masks_ok s \<Longrightarrow> masks_ok (da16x_sys_watchdog_notify_about_task e i s)"
  by (simp add: masks_ok_def da16x_sys_watchdog_notify_about_task_def Let_def
      da16x_sys_watchdog_mask_notified_task_def split: prod.splits)

lemma registered_bit:
  assumes "i < 64" "da16x_sys_watchdog_get_idx (int i) = (idx, b)"
  shows "tasks_mask s ! idx AND bit32 b \<noteq> 0 \<longleftrightarrow> i \<in> reg s"
  using assms by (auto simp: get_idx_nat and_bit32_eq_0 reg_def mask_ids_def)

text \<open>The notification step on sets: the interval ends when all monitored tasks have notified.\<close>

lemma notify_about_task_step:
  assumes "masks_ok s" "i < 64" "wdog_active s"
  defines "N \<equiv> if i \<in> reg s then insert i (ntf s) else ntf s"
  obtains s1 where "da16x_sys_watchdog_notify_about_task e (int i) s =
      (if mon s \<subseteq> N then da16x_sys_watchdog_reset_watchdog e s1 else s1)"
    and "ntf s1 = N" "drv s1 = drv s" "fsm s1 = fsm s"
proof -
  obtain idx b where ib: "da16x_sys_watchdog_get_idx (int i) = (idx, b)" by fastforce
  define s1 where "s1 = (if tasks_mask s ! idx AND bit32 b \<noteq> 0
      then (da16x_sys_watchdog_mask_notified_task (int i) s)\<lparr>tasks_latency := (tasks_latency s)[i := 0]\<rparr>
      else s)"
  note m = masks_okD [OF assms(1)]
  have n1: "ntf s1 = N" "mask_invar (notified_mask s1)" "monitored_mask s1 = monitored_mask s"
    using m assms(2) registered_bit [OF assms(2) ib]
    by (simp_all add: s1_def N_def ntf_def da16x_sys_watchdog_mask_notified_task_def or_bit_ids)
  have d1: "drv s1 = drv s" "fsm s1 = fsm s"
    by (simp_all add: s1_def da16x_sys_watchdog_mask_notified_task_def)
  have "da16x_sys_watchdog_notify_about_task e (int i) s =
      (if length (filter (\<lambda>idx. block_alive (notified_mask s1 ! idx) (monitored_mask s1 ! idx)) [0..<2]) = 2
       then da16x_sys_watchdog_reset_watchdog e s1 else s1)"
    using assms(3) by (simp add: da16x_sys_watchdog_notify_about_task_def ib s1_def)
  also have "\<dots> = (if mon s \<subseteq> N then da16x_sys_watchdog_reset_watchdog e s1 else s1)"
    using blocks_alive_iff [OF n1(2), of "monitored_mask s1"] n1 m by (simp add: wdog_abs)
  finally show ?thesis using that n1(1) d1 by blast
qed

lemma notify_about_task_ntf:
  assumes "masks_ok s" "i < 64" "wdog_active s"
  defines "N \<equiv> if i \<in> reg s then insert i (ntf s) else ntf s"
  shows "ntf (da16x_sys_watchdog_notify_about_task e (int i) s) = (if mon s \<subseteq> N then {} else N)"
proof -
  obtain s1 where "da16x_sys_watchdog_notify_about_task e (int i) s =
      (if mon s \<subseteq> N then da16x_sys_watchdog_reset_watchdog e s1 else s1)" "ntf s1 = N"
    using notify_about_task_step [OF assms(1-3), of e] unfolding N_def by metis
  then show ?thesis by (simp add: ntf_def)
qed

lemma notify_about_task_sets [simp]:
  "reg (da16x_sys_watchdog_notify_about_task e i s) = reg s"
  "mon (da16x_sys_watchdog_notify_about_task e i s) = mon s"
  by (simp_all add: wdog_abs)

lemma notify_about_task_wf:
  "wdog_wf s \<Longrightarrow> wdog_wf (da16x_sys_watchdog_notify_about_task e i s)"
  by (simp add: wdog_wf_def)

lemma notify_unfold:
  "da16x_sys_watchdog_notify e i s =
     (if \<not> wdog_enter e i s then (-1, s)
      else (0, da16x_sys_watchdog_notify_idle e i (da16x_sys_watchdog_notify_about_task e i s)))"
  by (subst da16x_sys_watchdog_notify.simps)
    (simp add: da16x_sys_watchdog_notify_idle_def Let_def)

lemma notify_wf: "wdog_wf s \<Longrightarrow> wdog_wf (snd (da16x_sys_watchdog_notify e i s))"
proof (induction e i s rule: da16x_sys_watchdog_notify.induct)
  case (1 e i s)
  then have "wdog_wf (da16x_sys_watchdog_notify_about_task e i s)" by (simp add: notify_about_task_wf)
  with 1 show ?case by (subst da16x_sys_watchdog_notify.simps) (simp add: Let_def)
qed

lemma notify_idle_wf: "wdog_wf s \<Longrightarrow> wdog_wf (da16x_sys_watchdog_notify_idle e i s)"
  by (simp add: da16x_sys_watchdog_notify_idle_def notify_wf)

lemma resume_monitoring_wf:
  "wdog_wf s \<Longrightarrow> 0 \<le> i \<Longrightarrow> i < 64 \<Longrightarrow> wdog_wf (da16x_sys_watchdog_resume_monitoring i s)"
  by (simp add: wdog_wf_def resume_monitoring_sets)

lemma notify_and_resume_wf:
  "wdog_wf s \<Longrightarrow> wdog_wf (snd (da16x_sys_watchdog_notify_and_resume e i s))"
  using wdog_enterD [of e i s]
  by (simp add: da16x_sys_watchdog_notify_and_resume_def Let_def notify_idle_wf notify_about_task_wf
      resume_monitoring_wf)

lemma resume_wf: "wdog_wf s \<Longrightarrow> wdog_wf (snd (da16x_sys_watchdog_resume e i s))"
  using wdog_enterD [of e i s] by (simp add: da16x_sys_watchdog_resume_def resume_monitoring_wf)

lemma suspend_wf: "wdog_wf s \<Longrightarrow> wdog_wf (snd (da16x_sys_watchdog_suspend e i s))"
proof (cases "wdog_enter e i s")
  case True
  assume wf: "wdog_wf s"
  have "masks_ok (snd (da16x_sys_watchdog_suspend e i s))"
    using True wf by (simp add: da16x_sys_watchdog_suspend_def masks_ok_def wdog_wf_def
        da16x_sys_watchdog_unmask_monitored_task_def)
  with True wf suspend_sets [OF True wdog_wf_masks [OF wf]] show ?thesis
    by (auto simp: wdog_wf_def da16x_sys_watchdog_suspend_def da16x_sys_watchdog_unmask_monitored_task_def)
qed (simp add: da16x_sys_watchdog_suspend_def)

end
