(* ===== verification/Watchdog_Props.thy ===== *)
theory Watchdog_Props
  imports Watchdog_Spec
begin

text \<open>
  Reachable states of the system watchdog, the behaviour of its interrupt callback and the
  service's main guarantees.
\<close>

section \<open>Reachable states\<close>

text \<open>
  One rule per entry point of the service. The only fact about the kernel used is that the handle
  of the running task is not null; the callback rule covers every interrupt from which the system
  survives.
\<close>

inductive wdog_step :: "wdog_env \<Rightarrow> sys_wdog \<Rightarrow> sys_wdog \<Rightarrow> bool" where
  init: "wdog_step e s (snd (da16x_sys_watchdog_init e s))"
| register: "current_task e \<noteq> 0 \<Longrightarrow> wdog_step e s (snd (da16x_sys_watchdog_register e s))"
| unregister: "wdog_step e s (snd (da16x_sys_watchdog_unregister e i s))"
| configure_idle: "wdog_step e s (da16x_sys_watchdog_configure_idle_id i s)"
| suspend: "wdog_step e s (snd (da16x_sys_watchdog_suspend e i s))"
| resume: "wdog_step e s (snd (da16x_sys_watchdog_resume e i s))"
| notify: "wdog_step e s (snd (da16x_sys_watchdog_notify e i s))"
| notify_and_resume: "wdog_step e s (snd (da16x_sys_watchdog_notify_and_resume e i s))"
| set_latency: "wdog_step e s (snd (da16x_sys_watchdog_set_latency e i l s))"
| set_rescale: "wdog_step e s (snd (da16x_sys_watchdog_set_rescale_time e r s))"
| cmd: "wdog_step e s (fst (da16x_sys_watchdog_cmd e argv s))"
| interrupt: "da16x_sys_watchdog_callback e p s = Some (s', Cb_Restarted) \<Longrightarrow> wdog_step e s s'"

inductive wdog_reachable :: "sys_wdog \<Rightarrow> bool" where
  boot: "wdog_reachable sys_wdog_boot"
| step: "wdog_reachable s \<Longrightarrow> wdog_step e s t \<Longrightarrow> wdog_reachable t"

section \<open>The callback\<close>

definition missing :: "sys_wdog \<Rightarrow> nat set" where
  "missing s = {i \<in> mon s. tasks_latency s ! i = 0 \<and> i \<notin> ntf s}"

lemma callback_check_alive:
  assumes "masks_ok s"
  shows "snd (callback_check s) \<longleftrightarrow> missing s = {}"
proof -
  let ?req = "map (\<lambda>idx. monitored_mask s ! idx AND NOT (latency_block (tasks_latency s) idx)) [0..<2]"
  note m = masks_okD [OF assms]
  have "filter (\<lambda>idx. block_alive (notified_mask s ! idx)
            (monitored_mask s ! idx AND NOT (latency_block (tasks_latency s) idx))) [0..<2]
      = filter (\<lambda>idx. block_alive (notified_mask s ! idx) (?req ! idx)) [0..<2]"
    by (rule filter_cong) auto
  then have "snd (callback_check s) \<longleftrightarrow> mask_ids ?req \<subseteq> ntf s"
    using blocks_alive_iff [OF m(3), of ?req] by (simp add: callback_check_def ntf_def mask_invar_def)
  also have "\<dots> \<longleftrightarrow> missing s = {}"
    using required_ids [OF m(2), of "tasks_latency s"] by (auto simp: missing_def mon_def)
  finally show ?thesis .
qed

lemma callback_check_state:
  "fst (callback_check s) = s\<lparr>tasks_latency := spend_latency (tasks_latency s)\<rparr>"
  by (simp add: callback_check_def)

lemma spend_latency_nth:
  "i < length lat \<Longrightarrow> unat (spend_latency lat ! i) = unat (lat ! i) - 1"
  by (auto simp: spend_latency_def unat_minus_one)

text \<open>The driver below is attached and switched on.\<close>

definition drv_ready :: "sys_wdog \<Rightarrow> bool" where
  "drv_ready s \<longleftrightarrow> (\<exists>f. fsm s = Some f \<and> fsm_watchdog f) \<and> \<not> wdog_off (drv s) \<and>
     wdog_handler_set (drv s)"

lemma drv_ready_ioctl:
  "drv_ready s \<Longrightarrow> da16x_sys_watchdog_ioctl c s = s\<lparr>drv := drv_ioctl c (drv s)\<rparr>"
  by (auto simp: drv_ready_def da16x_sys_watchdog_ioctl_def drv_ioctl_def)

lemma drv_ioctl_keeps:
  assumes "\<not> wdog_off d" "c \<in> {WDOG_SET_DISABLE, WDOG_SET_COUNTER v, WDOG_SET_ENABLE None}"
  shows "\<not> wdog_off (drv_ioctl c d)" "wdog_handler_set (drv_ioctl c d) = wdog_handler_set d"
  using assms by (auto simp: drv_ioctl_def WDOG_IOCTL_def)

lemma watchdog_active_ready:
  assumes "drv_ready s" "\<not> debug_mode e"
  shows "drv_ready (da16x_sys_watchdog_active e r s)"
    and "CTRL (drv (da16x_sys_watchdog_active e r s)) \<noteq> 0"
    and "LOAD (drv (da16x_sys_watchdog_active e r s)) =
           (if r \<noteq> 0 then (sysclock e div 100) * r else sysclock e div 100)"
proof -
  let ?v = "if r \<noteq> 0 then (sysclock e div 100) * r else sysclock e div 100"
  let ?d1 = "drv_ioctl WDOG_SET_DISABLE (drv s)"
  let ?d2 = "drv_ioctl (WDOG_SET_COUNTER ?v) ?d1"
  let ?d3 = "drv_ioctl (WDOG_SET_ENABLE None) ?d2"
  have k: "\<not> wdog_off ?d1" "wdog_handler_set ?d1" "\<not> wdog_off ?d2" "wdog_handler_set ?d2"
    "\<not> wdog_off ?d3" "wdog_handler_set ?d3"
    using assms(1) by (auto simp: drv_ready_def drv_ioctl_keeps)
  have r1: "drv_ready (s\<lparr>drv := ?d1\<rparr>)" "drv_ready (s\<lparr>drv := ?d2\<rparr>)" "drv_ready (s\<lparr>drv := ?d3\<rparr>)"
    using k assms(1) by (auto simp: drv_ready_def)
  have init: "da16x_sys_watchdog_is_init s"
    using assms(1) by (auto simp: drv_ready_def da16x_sys_watchdog_is_init_def)
  have eq: "da16x_sys_watchdog_active e r s = s\<lparr>drv := ?d3\<rparr>"
    using assms init r1 by (simp add: da16x_sys_watchdog_active_def Let_def drv_ready_ioctl)
  have "\<not> wdog_off (drv s)" using assms(1) by (simp add: drv_ready_def)
  from dev.rearm [OF this, of ?v] eq r1
  show "drv_ready (da16x_sys_watchdog_active e r s)"
    and "CTRL (drv (da16x_sys_watchdog_active e r s)) \<noteq> 0"
    and "LOAD (drv (da16x_sys_watchdog_active e r s)) = ?v"
    by simp_all
qed

lemma callback_restart:
  assumes "masks_ok s" "p \<noteq> 0" "missing s = {}"
  shows "da16x_sys_watchdog_callback e p s =
     Some (da16x_sys_watchdog_reset_watchdog e (s\<lparr>tasks_latency := spend_latency (tasks_latency s)\<rparr>),
           Cb_Restarted)"
  using assms callback_check_alive [OF assms(1)]
  by (simp add: da16x_sys_watchdog_callback.simps callback_check_state)

lemma callback_reset:
  assumes "masks_ok s" "p \<noteq> 0" "missing s \<noteq> {}" "drv_ready s"
  shows "\<exists>s'. da16x_sys_watchdog_callback e p s = Some (s', Cb_Reset)"
proof -
  let ?s1 = "s\<lparr>tasks_latency := spend_latency (tasks_latency s)\<rparr>"
  have r: "drv_ready ?s1" using assms(4) by (simp add: drv_ready_def)
  then have "snd (da16x_watchdog_isr (drv_ioctl (WDOG_SET_RESET None) (drv ?s1))) = Isr_Halted"
    by (intro dev.reset_halts) (simp_all add: drv_ready_def)
  with assms r show ?thesis
    by (subst da16x_sys_watchdog_callback.simps)
      (simp add: callback_check_alive callback_check_state drv_ready_ioctl Let_def)
qed

lemma wdog_wf_drv [simp]: "wdog_wf (s\<lparr>drv := d\<rparr>) = wdog_wf s"
  by (simp add: wdog_wf_def masks_ok_def wdog_abs)

lemma wdog_wf_latency: "wdog_wf s \<Longrightarrow> length lat = 64 \<Longrightarrow> wdog_wf (s\<lparr>tasks_latency := lat\<rparr>)"
  by (simp add: wdog_wf_def masks_ok_def wdog_abs)

lemma wdog_wf_ioctl [simp]: "wdog_wf (da16x_sys_watchdog_ioctl c s) = wdog_wf s"
  by (simp add: da16x_sys_watchdog_ioctl_def split: option.split)

lemma wdog_wf_reset: "wdog_wf s \<Longrightarrow> wdog_wf (da16x_sys_watchdog_reset_watchdog e s)"
  by (simp add: wdog_wf_def masks_ok_def wdog_abs)

lemma callback_check_wf: "wdog_wf s \<Longrightarrow> wdog_wf (fst (callback_check s))"
  using masks_okD(4) [of s] by (simp add: callback_check_state wdog_wf_latency spend_latency_def)

lemma callback_wf:
  assumes ret: "da16x_sys_watchdog_callback e p s = Some r" and "wdog_wf s"
  shows "wdog_wf (fst r)"
proof -
  have "wdog_wf s \<longrightarrow> wdog_wf (fst r)"
  proof (rule da16x_sys_watchdog_callback.raw_induct
      [where P = "\<lambda>e p s r. wdog_wf s \<longrightarrow> wdog_wf (fst r)", OF _ ret], intro impI)
    fix cb e p s r
    assume IH: "\<And>e p s r. cb e p s = Some r \<Longrightarrow> wdog_wf s \<longrightarrow> wdog_wf (fst r)"
      and eq: "(if p = 0 then Some (s, Cb_Returned)
        else if snd (callback_check s)
        then Some (da16x_sys_watchdog_reset_watchdog e (fst (callback_check s)), Cb_Restarted)
        else (let s2 = da16x_sys_watchdog_ioctl (WDOG_SET_RESET None) (fst (callback_check s));
                  r = da16x_watchdog_isr (drv s2);
                  s3 = s2\<lparr>drv := fst r\<rparr>
              in (case snd r of
                    Isr_Return \<Rightarrow> Some (s3, Cb_Returned)
                  | Isr_Halted \<Rightarrow> Some (s3, Cb_Reset)
                  | Isr_Callback f p \<Rightarrow> cb e p s3))) = Some r"
      and wf: "wdog_wf s"
    note ok = callback_check_wf [OF wf]
    have "wdog_wf ((da16x_sys_watchdog_ioctl c (fst (callback_check s)))\<lparr>drv := d\<rparr>)" for c d
      using ok by simp
    with eq ok wf IH show "wdog_wf (fst r)"
      by (auto simp: wdog_wf_reset Let_def split: if_splits isr_outcome.splits dest!: IH)
  qed
  with assms(2) show ?thesis by blast
qed

section \<open>Every reachable state is well formed\<close>

lemma boot_wf: "wdog_wf sys_wdog_boot"
  by (simp add: wdog_wf_def masks_ok_def wdog_abs sys_wdog_boot_def)

lemma frame_wf:
  "wdog_wf s \<Longrightarrow> wdog_wf (s\<lparr>idle_task_id := i\<rparr>)"
  "wdog_wf s \<Longrightarrow> wdog_wf (s\<lparr>rescale_time := r\<rparr>)"
  "wdog_wf s \<Longrightarrow> wdog_wf (s\<lparr>wdog_active := a\<rparr>)"
  by (simp_all add: wdog_wf_def masks_ok_def wdog_abs)

lemma set_latency_wf: "wdog_wf s \<Longrightarrow> wdog_wf (snd (da16x_sys_watchdog_set_latency e i l s))"
  using masks_okD(4) [of s] by (simp add: da16x_sys_watchdog_set_latency_def wdog_wf_latency)

lemma set_rescale_wf: "wdog_wf s \<Longrightarrow> wdog_wf (snd (da16x_sys_watchdog_set_rescale_time e r s))"
  by (simp add: da16x_sys_watchdog_set_rescale_time_def frame_wf)

lemma cmd_wf: "wdog_wf s \<Longrightarrow> wdog_wf (fst (da16x_sys_watchdog_cmd e argv s))"
proof -
  assume wf: "wdog_wf s"
  then have "wdog_wf (da16x_sys_watchdog_enable e s)" "wdog_wf (da16x_sys_watchdog_disable e s)"
    by (simp_all add: da16x_sys_watchdog_enable_def da16x_sys_watchdog_disable_def frame_wf)
  with wf set_rescale_wf [OF wf] show ?thesis
    by (auto simp: da16x_sys_watchdog_cmd_def case_prod_unfold Let_def split: option.splits)
qed

lemma wdog_step_wf: "wdog_step e s t \<Longrightarrow> wdog_wf s \<Longrightarrow> wdog_wf t"
  by (induction rule: wdog_step.induct)
    (auto simp: da16x_sys_watchdog_configure_idle_id_def init_wf register_wf unregister_wf suspend_wf
      resume_wf notify_wf notify_and_resume_wf set_latency_wf set_rescale_wf cmd_wf frame_wf
      dest: callback_wf)

text \<open>
  In every state the service can reach from boot, only registered tasks are monitored, a slot
  holds a task handle exactly when it is registered, and the recorded largest identifier bounds
  all registered ones.
\<close>

theorem wdog_reachable_wf:
  assumes "wdog_reachable s"
  shows "mon s \<subseteq> reg s \<and> (\<forall>i < 64. task_handle s ! i \<noteq> 0 \<longleftrightarrow> i \<in> reg s) \<and>
         (\<forall>i \<in> reg s. int i \<le> max_task_id s) \<and> max_task_id s < 64"
proof -
  have "wdog_wf s"
    using assms by (induction rule: wdog_reachable.induct) (auto intro: boot_wf wdog_step_wf)
  then show ?thesis by (simp add: wdog_wf_def)
qed

definition demo_env :: wdog_env where
  "demo_env = \<lparr>debug_mode = False, fsm_addr = 4096, sem_create = True, sem_take = True,
               sysclock = 80000000, current_task = 8192, callback_addr = 12288\<rparr>"

definition demo1 :: sys_wdog where
  "demo1 = snd (da16x_sys_watchdog_register demo_env sys_wdog_boot)"

lemma demo1_reachable: "wdog_reachable demo1"
  unfolding demo1_def
  by (rule wdog_reachable.step [OF wdog_reachable.boot wdog_step.register]) (simp add: demo_env_def)

theorem wdog_reachable_wf_witness:
  "wdog_reachable demo1 \<and> mon demo1 \<subseteq> reg demo1"
  using wdog_reachable_wf [OF demo1_reachable] demo1_reachable by blast


section \<open>The interrupt decides\<close>

text \<open>What a surviving interrupt leaves behind: a fresh interval, armed with the rescaled clock.\<close>

definition fresh_interval :: "wdog_env \<Rightarrow> sys_wdog \<Rightarrow> bool" where
  "fresh_interval e s \<longleftrightarrow> ntf s = {} \<and> drv_ready s \<and> CTRL (drv s) \<noteq> 0 \<and>
     LOAD (drv s) = (if rescale_time s \<noteq> 0 then (sysclock e div 100) * rescale_time s else sysclock e div 100)"

lemma reset_watchdog_fresh:
  assumes "drv_ready s" "\<not> debug_mode e"
  shows "fresh_interval e (da16x_sys_watchdog_reset_watchdog e s)"
proof -
  have "drv_ready (s\<lparr>notified_mask := [0, 0]\<rparr>)" using assms(1) by (simp add: drv_ready_def)
  from watchdog_active_ready [OF this assms(2)] show ?thesis
    by (simp add: fresh_interval_def ntf_def da16x_sys_watchdog_reset_watchdog_def)
qed

lemma reset_watchdog_sets [simp]:
  "mon (da16x_sys_watchdog_reset_watchdog e s) = mon s"
  "reg (da16x_sys_watchdog_reset_watchdog e s) = reg s"
  "ntf (da16x_sys_watchdog_reset_watchdog e s) = {}"
  by (simp_all add: wdog_abs)

text \<open>
  C6. When the watchdog interrupt fires, the system survives if and only if every monitored task
  that has no latency left has notified since the last restart. A surviving interrupt spends one
  unit of every task's latency, clears all notifications and arms the hardware counter with the
  rescaled clock; otherwise the interrupt spins until the hardware resets the chip.
\<close>

theorem callback_decides:
  assumes "wdog_wf s" "drv_ready s" "\<not> debug_mode e" "p \<noteq> 0"
  shows "if missing s = {}
         then \<exists>s'. da16x_sys_watchdog_callback e p s = Some (s', Cb_Restarted) \<and> fresh_interval e s' \<and>
                mon s' = mon s \<and> reg s' = reg s \<and>
                (\<forall>i < 64. unat (tasks_latency s' ! i) = unat (tasks_latency s ! i) - 1)
         else \<exists>s'. da16x_sys_watchdog_callback e p s = Some (s', Cb_Reset)"
proof (cases "missing s = {}")
  case True
  let ?s1 = "s\<lparr>tasks_latency := spend_latency (tasks_latency s)\<rparr>"
  have "drv_ready ?s1" using assms(2) by (simp add: drv_ready_def)
  note fresh = reset_watchdog_fresh [OF this assms(3)]
  have "length (tasks_latency s) = 64" using assms(1) by (simp add: wdog_wf_def masks_ok_def)
  with True fresh callback_restart [OF wdog_wf_masks [OF assms(1)] assms(4) True] show ?thesis
    by (simp add: spend_latency_nth wdog_abs)
next
  case False
  with callback_reset assms show ?thesis by simp
qed

lemma demo1_state:
  "tasks_mask demo1 = [1, 0]" "monitored_mask demo1 = [1, 0]" "notified_mask demo1 = [0, 0]"
  "tasks_latency demo1 = replicate 64 0" "wdog_active demo1" "idle_task_id demo1 = -1"
  "max_task_id demo1 = 0" "rescale_time demo1 = 500"
  "fsm demo1 = Some \<lparr>fsm_mutex = True, fsm_watchdog = True\<rparr>"
  unfolding demo1_def demo_env_def sys_wdog_boot_def DEF_RESCALE_TIME_def by code_simp+

lemma demo1_drv: "drv_ready demo1"
proof -
  have "\<not> wdog_off (drv demo1)" "wdog_handler_set (drv demo1)"
    unfolding demo1_def demo_env_def sys_wdog_boot_def DEF_RESCALE_TIME_def by code_simp+
  then show ?thesis by (simp add: drv_ready_def demo1_state)
qed

lemma demo1_wf: "wdog_wf demo1"
  unfolding demo1_def by (rule register_wf [OF boot_wf]) (simp add: demo_env_def)

lemma demo1_sets: "mon demo1 = {0}" "reg demo1 = {0}" "ntf demo1 = {}"
proof -
  have "mask_ids [1, 0] = {0}"
  proof -
    have "mask_ids (or_bit (int 0) [0, 0]) = insert 0 (mask_ids [0, 0])"
      by (rule or_bit_ids) (simp_all add: mask_invar_def)
    moreover have "or_bit 0 [0, 0] = [1, 0]" by code_simp
    ultimately show ?thesis by simp
  qed
  then show "mon demo1 = {0}" "reg demo1 = {0}" "ntf demo1 = {}"
    by (simp_all add: wdog_abs demo1_state)
qed

theorem callback_decides_witness:
  "missing demo1 = {0} \<and> (\<exists>s'. da16x_sys_watchdog_callback demo_env 1 demo1 = Some (s', Cb_Reset))"
proof -
  have m: "missing demo1 = {0}" by (auto simp: missing_def demo1_sets demo1_state)
  with callback_decides [OF demo1_wf demo1_drv, of demo_env 1] show ?thesis
    by (simp add: demo_env_def)
qed

section \<open>Registration\<close>

text \<open>
  Registering a task when a slot is free returns an identifier that no registered task has,
  the smallest such, registers and monitors it and leaves every other task as it was.
\<close>

theorem register_allocates_fresh_id:
  assumes "wdog_wf s" "wdog_active s" "da16x_sys_watchdog_is_init s" "da16x_sys_watchdog_get_mutex e s"
    and "card (reg s) < 64"
  shows "\<exists>i s'. da16x_sys_watchdog_register e s = (int i, s') \<and> i < 64 \<and> i \<notin> reg s \<and>
           (\<forall>j < i. j \<in> reg s) \<and> reg s' = insert i (reg s) \<and> mon s' = insert i (mon s) \<and> ntf s' = ntf s \<and>
           task_handle s' ! i = current_task e"
proof -
  note m = masks_okD [OF wdog_wf_masks [OF assms(1)]]
  obtain i where i: "mask_free (tasks_mask s) = Some i"
    using tm.alloc_iff_room [OF m(1)] assms(5) by (auto simp: reg_def)
  from mask_free_Some [OF m(1) i] m i assms show ?thesis
    by (auto simp: register_ready wdog_abs or_bit_ids)
qed

theorem register_allocates_fresh_id_witness:
  "\<exists>s'. da16x_sys_watchdog_register demo_env demo1 = (int 1, s') \<and> reg s' = {0, 1}"
proof -
  have env: "da16x_sys_watchdog_is_init demo1" "da16x_sys_watchdog_get_mutex demo_env demo1"
    by (simp_all add: da16x_sys_watchdog_is_init_def da16x_sys_watchdog_get_mutex_def demo1_state demo_env_def)
  obtain i s' where r: "da16x_sys_watchdog_register demo_env demo1 = (int i, s')"
    "i \<notin> reg demo1" "\<forall>j < i. j \<in> reg demo1" "reg s' = insert i (reg demo1)"
    using register_allocates_fresh_id [OF demo1_wf demo1_state(5) env] by (auto simp: demo1_sets)
  have "i = 1"
  proof (rule ccontr)
    assume "i \<noteq> 1"
    with r(2) have "1 < i" by (simp add: demo1_sets)
    with r(3) show False by (auto simp: demo1_sets)
  qed
  with r show ?thesis by (auto simp: demo1_sets)
qed

text \<open>A state with every slot taken.\<close>

definition demo_full :: sys_wdog where
  "demo_full = demo1\<lparr>tasks_mask := [-1, -1], task_handle := replicate 64 8192, max_task_id := 63\<rparr>"

lemma demo_full_sets: "reg demo_full = {..<64}" "mon demo_full = {0}"
proof -
  show "reg demo_full = {..<64}"
    by (auto simp: demo_full_def reg_def mask_ids_def elim: lt_64_cases)
  show "mon demo_full = {0}" using demo1_sets(1) by (simp add: demo_full_def mon_def)
qed

lemma demo_full_wf: "wdog_wf demo_full"
  unfolding wdog_wf_def demo_full_sets
  by (auto simp: demo_full_def masks_ok_def mask_invar_def demo1_state)

text \<open>
  When all 64 slots are taken, registering changes nothing but returns 0: the result of taking
  the mutex is returned in place of -1, so the caller gets the identifier of task 0.
\<close>

theorem register_full_returns_zero:
  assumes "wdog_wf s" "wdog_active s" "da16x_sys_watchdog_is_init s" "da16x_sys_watchdog_get_mutex e s"
    and "reg s = {..<64}"
  shows "da16x_sys_watchdog_register e s = (0, s)"
proof -
  have "mask_free (tasks_mask s) = None"
    using mask_free_None masks_okD [OF wdog_wf_masks [OF assms(1)]] assms(5) by (simp add: reg_def)
  with assms show ?thesis by (simp add: register_ready)
qed

theorem register_full_returns_zero_witness:
  "reg demo_full = {..<64} \<and> da16x_sys_watchdog_register demo_env demo_full = (0, demo_full)"
proof -
  have "wdog_active demo_full" "da16x_sys_watchdog_is_init demo_full"
    "da16x_sys_watchdog_get_mutex demo_env demo_full"
    by (simp_all add: da16x_sys_watchdog_is_init_def da16x_sys_watchdog_get_mutex_def demo_full_def
        demo1_state demo_env_def)
  with register_full_returns_zero [OF demo_full_wf] show ?thesis by (simp add: demo_full_sets)
qed

section \<open>Latency\<close>

text \<open>Consecutive interrupts with no call to the service in between; \<open>None\<close> if one does not survive.\<close>

fun silent_intervals :: "wdog_env \<Rightarrow> u32 \<Rightarrow> nat \<Rightarrow> sys_wdog \<Rightarrow> sys_wdog option" where
  "silent_intervals e p 0 s = Some s"
| "silent_intervals e p (Suc n) s =
     (case da16x_sys_watchdog_callback e p s of
        Some (s', Cb_Restarted) \<Rightarrow> silent_intervals e p n s'
      | _ \<Rightarrow> None)"

lemma silent_step:
  assumes "wdog_wf s" "drv_ready s" "\<not> debug_mode e" "p \<noteq> 0" "missing s = {}"
  obtains s' where "da16x_sys_watchdog_callback e p s = Some (s', Cb_Restarted)"
    "wdog_wf s'" "drv_ready s'" "ntf s' = {}" "mon s' = mon s" "length (tasks_latency s) = 64"
    "\<And>i. i < 64 \<Longrightarrow> unat (tasks_latency s' ! i) = unat (tasks_latency s ! i) - 1"
proof -
  let ?s1 = "s\<lparr>tasks_latency := spend_latency (tasks_latency s)\<rparr>"
  have len: "length (tasks_latency s) = 64" using assms(1) by (simp add: wdog_wf_def masks_ok_def)
  have "drv_ready ?s1" using assms(2) by (simp add: drv_ready_def)
  note fresh = reset_watchdog_fresh [OF this assms(3)]
  have cb: "da16x_sys_watchdog_callback e p s =
      Some (da16x_sys_watchdog_reset_watchdog e ?s1, Cb_Restarted)"
    by (rule callback_restart [OF wdog_wf_masks [OF assms(1)] assms(4,5)])
  have "wdog_wf (da16x_sys_watchdog_reset_watchdog e ?s1)"
    using callback_wf [OF cb assms(1)] by simp
  with that [OF cb] fresh len show ?thesis
    by (simp add: fresh_interval_def spend_latency_nth) (simp add: mon_def)
qed

lemma mon_lt: "i \<in> mon s \<Longrightarrow> i < 64"
  by (simp add: mon_def mask_ids_def)

lemma unat_eq_0_iff: "unat (x :: u8) = 0 \<longleftrightarrow> x = 0"
  by (simp add: unat_eq_zero)

lemma silent_intervals_latency:
  assumes "wdog_wf s" "drv_ready s" "\<not> debug_mode e" "p \<noteq> 0" "ntf s = {}"
    and "\<forall>i \<in> mon s. n \<le> unat (tasks_latency s ! i)"
  shows "\<exists>s'. silent_intervals e p n s = Some s' \<and> wdog_wf s' \<and> drv_ready s' \<and> ntf s' = {} \<and>
           mon s' = mon s \<and> (\<forall>i < 64. unat (tasks_latency s' ! i) = unat (tasks_latency s ! i) - n)"
  using assms
proof (induction n arbitrary: s)
  case (Suc n)
  have miss: "missing s = {}" using Suc.prems(6) by (auto simp: missing_def)
  obtain s1 where s1: "da16x_sys_watchdog_callback e p s = Some (s1, Cb_Restarted)"
    "wdog_wf s1" "drv_ready s1" "ntf s1 = {}" "mon s1 = mon s"
    "\<And>i. i < 64 \<Longrightarrow> unat (tasks_latency s1 ! i) = unat (tasks_latency s ! i) - 1"
    by (rule silent_step [OF Suc.prems(1-4) miss]) blast
  have "\<forall>i \<in> mon s1. n \<le> unat (tasks_latency s1 ! i)"
  proof
    fix i assume "i \<in> mon s1"
    then have "i \<in> mon s" "i < 64" using s1(5) mon_lt by auto
    then show "n \<le> unat (tasks_latency s1 ! i)" using Suc.prems(6) s1(6) by fastforce
  qed
  from Suc.IH [OF s1(2,3) Suc.prems(3,4) s1(4) this] obtain s2 where
    "silent_intervals e p n s1 = Some s2" "wdog_wf s2" "drv_ready s2" "ntf s2 = {}" "mon s2 = mon s1"
    "\<forall>i < 64. unat (tasks_latency s2 ! i) = unat (tasks_latency s1 ! i) - n"
    by blast
  with s1 show ?case by simp
qed simp

text \<open>
  A monitored task with latency n may stay silent for exactly n intervals: when all monitored
  tasks have latency at least n and one has exactly n, n consecutive interrupts without any
  notification are survived and the next one resets the system.
\<close>

theorem latency_tolerates_exactly:
  assumes "wdog_wf s" "drv_ready s" "\<not> debug_mode e" "p \<noteq> 0" "ntf s = {}"
    and "\<forall>i \<in> mon s. n \<le> unat (tasks_latency s ! i)" "k \<in> mon s" "unat (tasks_latency s ! k) = n"
  shows "\<exists>s' s''. silent_intervals e p n s = Some s' \<and>
           da16x_sys_watchdog_callback e p s' = Some (s'', Cb_Reset)"
proof -
  obtain s' where s': "silent_intervals e p n s = Some s'" "wdog_wf s'" "drv_ready s'" "ntf s' = {}"
    "mon s' = mon s" "\<forall>i < 64. unat (tasks_latency s' ! i) = unat (tasks_latency s ! i) - n"
    using silent_intervals_latency [OF assms(1-6)] by blast
  have "unat (tasks_latency s' ! k) = 0" using s'(6) assms(7,8) mon_lt by auto
  then have "k \<in> missing s'" using s'(4,5) assms(7) by (simp add: missing_def unat_eq_0_iff)
  then have "missing s' \<noteq> {}" by blast
  with callback_reset [OF wdog_wf_masks [OF s'(2)] assms(4) _ s'(3)] s'(1) show ?thesis by blast
qed

definition demo_lat :: sys_wdog where
  "demo_lat = snd (da16x_sys_watchdog_set_latency demo_env 0 3 demo1)"

lemma demo_lat_eq: "demo_lat = demo1\<lparr>tasks_latency := (tasks_latency demo1)[0 := 3]\<rparr>"
  by (simp add: demo_lat_def da16x_sys_watchdog_set_latency_def wdog_enter_def demo1_state
      da16x_sys_watchdog_vaildate_id_def da16x_sys_watchdog_get_mutex_def demo_env_def
      da16x_sys_watchdog_is_init_def)

theorem latency_tolerates_exactly_witness:
  "\<exists>s' s''. silent_intervals demo_env 1 3 demo_lat = Some s' \<and>
     da16x_sys_watchdog_callback demo_env 1 s' = Some (s'', Cb_Reset)"
proof (rule latency_tolerates_exactly [where k = 0])
  show "wdog_wf demo_lat" using set_latency_wf [OF demo1_wf] by (simp add: demo_lat_def)
  show "drv_ready demo_lat" using demo1_drv by (simp add: demo_lat_eq drv_ready_def)
  have "mon demo_lat = {0}" "ntf demo_lat = {}" "tasks_latency demo_lat ! 0 = 3"
    using demo1_sets by (simp_all add: demo_lat_eq wdog_abs demo1_state)
  then show "ntf demo_lat = {}" "\<forall>i \<in> mon demo_lat. 3 \<le> unat (tasks_latency demo_lat ! i)"
    "0 \<in> mon demo_lat" "unat (tasks_latency demo_lat ! 0) = 3"
    by simp_all
qed (simp_all add: demo_env_def)

section \<open>Notification rounds\<close>

lemma notify_plain:
  assumes "wdog_enter e i s" "idle_task_id s = -1"
  shows "da16x_sys_watchdog_notify e i s = (0, da16x_sys_watchdog_notify_about_task e i s)"
  using assms by (simp add: notify_unfold da16x_sys_watchdog_notify_idle_def)

definition notify_all :: "wdog_env \<Rightarrow> nat list \<Rightarrow> sys_wdog \<Rightarrow> sys_wdog" where
  "notify_all e ids s = foldl (\<lambda>s i. snd (da16x_sys_watchdog_notify e (int i) s)) s ids"

text \<open>What stays fixed while tasks notify.\<close>

definition round_ready :: "wdog_env \<Rightarrow> sys_wdog \<Rightarrow> bool" where
  "round_ready e s \<longleftrightarrow> wdog_wf s \<and> wdog_active s \<and> drv_ready s \<and> idle_task_id s = -1 \<and>
     sem_take e \<and> \<not> debug_mode e"

lemma round_ready_enter: "round_ready e s \<Longrightarrow> i < 64 \<Longrightarrow> wdog_enter e (int i) s"
  by (auto simp: round_ready_def wdog_enter_def drv_ready_def da16x_sys_watchdog_is_init_def
      da16x_sys_watchdog_vaildate_id_def da16x_sys_watchdog_get_mutex_def)

lemma notify_round_step:
  assumes "round_ready e s" "i \<in> mon s"
  defines "t \<equiv> snd (da16x_sys_watchdog_notify e (int i) s)"
  shows "round_ready e t" "mon t = mon s"
    and "mon s \<subseteq> insert i (ntf s) \<Longrightarrow> fresh_interval e t"
    and "\<not> mon s \<subseteq> insert i (ntf s) \<Longrightarrow> ntf t = insert i (ntf s)"
proof -
  have r: "wdog_wf s" "wdog_active s" "drv_ready s" "idle_task_id s = -1" "\<not> debug_mode e"
    using assms(1) by (simp_all add: round_ready_def)
  have i: "i < 64" "i \<in> reg s" using assms(2) mon_lt r(1) by (auto simp: wdog_wf_def)
  have t: "t = da16x_sys_watchdog_notify_about_task e (int i) s"
    using notify_plain [OF round_ready_enter [OF assms(1) i(1)] r(4)] by (simp add: t_def)
  obtain s1 where eq: "t = (if mon s \<subseteq> insert i (ntf s) then da16x_sys_watchdog_reset_watchdog e s1 else s1)"
    and s1: "ntf s1 = insert i (ntf s)" "drv s1 = drv s" "fsm s1 = fsm s"
    using notify_about_task_step [OF wdog_wf_masks [OF r(1)] i(1) r(2), of e] i(2) t by metis
  have d1: "drv_ready s1" using r(3) s1 by (simp add: drv_ready_def)
  note fresh = reset_watchdog_fresh [OF d1 r(5)]
  have "drv_ready t" using d1 fresh by (simp add: eq fresh_interval_def)
  then show "round_ready e t"
    using assms(1) r by (simp add: t round_ready_def notify_about_task_wf)
  show "mon t = mon s" by (simp add: t)
  show "mon s \<subseteq> insert i (ntf s) \<Longrightarrow> fresh_interval e t" using fresh by (simp add: eq)
  show "\<not> mon s \<subseteq> insert i (ntf s) \<Longrightarrow> ntf t = insert i (ntf s)" using s1(1) by (simp add: eq)
qed

lemma notify_round_partial:
  assumes "round_ready e s" "ntf s \<union> set ids \<subset> mon s"
  shows "round_ready e (notify_all e ids s) \<and> mon (notify_all e ids s) = mon s \<and>
         ntf (notify_all e ids s) = ntf s \<union> set ids"
  using assms
proof (induction ids arbitrary: s)
  case (Cons i ids)
  have i: "i \<in> mon s" "\<not> mon s \<subseteq> insert i (ntf s)" using Cons.prems(2) by auto
  note st = notify_round_step [OF Cons.prems(1) i(1)]
  from Cons.IH [OF st(1)] st(2) st(4) [OF i(2)] Cons.prems(2) show ?case
    by (auto simp: notify_all_def)
qed (simp add: notify_all_def)

text \<open>
  C35. A round of notifications keeps the system alive: when the monitored tasks notify one after
  the other in any order, the service only collects them until the last one is in, and that last
  notification clears all of them and re-arms the hardware counter for a full interval.
\<close>

theorem notify_round:
  assumes "round_ready e s" "ntf s = {}" "distinct ids" "set ids = mon s" "ids \<noteq> []"
  shows "(\<forall>k < length ids. ntf (notify_all e (take k ids) s) = set (take k ids)) \<and>
         fresh_interval e (notify_all e ids s)"
proof -
  have part: "set (take k ids) \<subset> mon s" if "k < length ids" for k
  proof -
    have "ids ! k \<notin> set (take k ids)"
      using assms(3) that by (auto simp: in_set_conv_nth nth_eq_iff_index_eq)
    moreover have "ids ! k \<in> mon s" using that assms(4) nth_mem by blast
    ultimately show ?thesis using assms(4) set_take_subset by fastforce
  qed
  let ?n = "length ids - 1" and ?l = "last ids"
  let ?s = "notify_all e (take ?n ids) s"
  have n: "?n < length ids" using assms(5) by (cases ids) auto
  have split: "ids = take ?n ids @ [?l]"
    using assms(5) by (metis append_butlast_last_id butlast_conv_take)
  have p: "round_ready e ?s" "mon ?s = mon s" "ntf ?s = set (take ?n ids)"
    using notify_round_partial [OF assms(1), of "take ?n ids"] part [OF n] assms(2) by auto
  have "mon ?s \<subseteq> insert ?l (ntf ?s)" using split assms(4) p by (metis Un_insert_right list.simps(15)
      empty_set order_refl set_append sup_bot_right)
  moreover have "?l \<in> mon ?s" using assms(4,5) p(2) by auto
  ultimately have "fresh_interval e (snd (da16x_sys_watchdog_notify e (int ?l) ?s))"
    using notify_round_step(3) [OF p(1)] by blast
  also have "snd (da16x_sys_watchdog_notify e (int ?l) ?s) = notify_all e ids s"
    by (subst (3) split) (simp add: notify_all_def)
  finally show ?thesis using notify_round_partial [OF assms(1)] part assms(2) by simp
qed

lemma demo1_round: "round_ready demo_env demo1"
  by (simp add: round_ready_def demo1_wf demo1_drv demo1_state) (simp add: demo_env_def)

theorem notify_round_witness:
  "ntf (notify_all demo_env [] demo1) = {} \<and> fresh_interval demo_env (notify_all demo_env [0] demo1)"
  using notify_round [OF demo1_round, of "[0]"] by (simp add: demo1_sets)

section \<open>Unregistering\<close>

text \<open>
  Unregistering removes the task from the registered and the monitored tasks, clears its
  latency and handle and recomputes the largest identifier; when the last task leaves, the largest
  identifier keeps its old value, although it is -1 in an empty table.
\<close>

theorem unregister_effect:
  assumes "wdog_wf s" "wdog_enter e i s"
  shows "fst (da16x_sys_watchdog_unregister e i s) = 0 \<and>
    (let s' = snd (da16x_sys_watchdog_unregister e i s) in
       reg s' = reg s - {nat i} \<and> mon s' = mon s - {nat i} \<and> ntf s' = ntf s \<and>
       tasks_latency s' ! nat i = 0 \<and> task_handle s' ! nat i = 0 \<and>
       max_task_id s' = (if reg s - {nat i} = {} then max_task_id s else int (Max (reg s - {nat i}))))"
  using unregister_sets [OF assms(2) wdog_wf_masks [OF assms(1)]]
    unregister_max [OF assms(2) wdog_wf_masks [OF assms(1)]]
    masks_okD [OF wdog_wf_masks [OF assms(1)]] wdog_enterD [OF assms(2)]
  by (simp add: Let_def) (simp add: unregister_ok [OF assms(2)])

theorem unregister_effect_witness:
  "wdog_enter demo_env 0 demo1 \<and> reg (snd (da16x_sys_watchdog_unregister demo_env 0 demo1)) = {} \<and>
   max_task_id (snd (da16x_sys_watchdog_unregister demo_env 0 demo1)) = 0"
proof -
  have "wdog_enter demo_env 0 demo1" using round_ready_enter [OF demo1_round, of 0] by simp
  with unregister_effect [OF demo1_wf this] show ?thesis by (simp add: Let_def demo1_sets demo1_state)
qed

text \<open>
  A notification outlives its task: unregistering leaves the notified bit set, so a task that
  registers next into the same slot counts as having notified before it ever called the service,
  and the next interrupt does not miss it.
\<close>

theorem stale_notification:
  assumes "wdog_wf s" "wdog_enter e (int i) s" "i \<in> ntf s" "{..<i} \<subseteq> reg s"
    and "s1 = snd (da16x_sys_watchdog_unregister e (int i) s)"
    and "da16x_sys_watchdog_register e s1 = (r, s2)"
  shows "r = int i \<and> i \<in> mon s2 \<and> i \<in> ntf s2 \<and> i \<notin> missing s2"
proof -
  note sets = unregister_sets [OF assms(2) wdog_wf_masks [OF assms(1)]]
  have wf1: "wdog_wf s1" using unregister_wf [OF assms(1)] assms(5) by simp
  have rdy: "wdog_active s1" "da16x_sys_watchdog_is_init s1" "da16x_sys_watchdog_get_mutex e s1"
    using assms(2,5) by (auto simp: unregister_ok wdog_enter_def da16x_sys_watchdog_is_init_def
        da16x_sys_watchdog_get_mutex_def)
  note m = masks_okD [OF wdog_wf_masks [OF wf1]]
  have free: "i \<notin> reg s1" "\<forall>j < i. j \<in> reg s1" "i < 64"
    using sets assms(4,5) wdog_enterD [OF assms(2)] by auto
  have "mask_free (tasks_mask s1) = Some i"
  proof (cases "mask_free (tasks_mask s1)")
    case None
    then show ?thesis using mask_free_None [OF m(1)] free by (auto simp: reg_def)
  next
    case (Some j)
    from mask_free_Some [OF m(1) Some] free show ?thesis
      by (auto simp: Some reg_def) (metis linorder_neqE_nat)
  qed
  with register_ready [OF rdy] assms(6) have
    "r = int i" "mon s2 = mask_ids (or_bit (int i) (monitored_mask s1))" "ntf s2 = ntf s1"
    by (auto simp: wdog_abs)
  then show ?thesis using or_bit_ids [OF m(2) free(3)] sets assms(3,5) by (simp add: missing_def)
qed

definition demo_notified :: sys_wdog where
  "demo_notified = demo1\<lparr>notified_mask := [1, 0]\<rparr>"

lemma demo_notified_ready:
  "wdog_wf demo_notified" "wdog_enter demo_env (int 0) demo_notified" "ntf demo_notified = {0}"
proof -
  show "wdog_wf demo_notified"
    using demo1_wf by (simp add: demo_notified_def wdog_wf_def masks_ok_def mask_invar_def wdog_abs)
  show "wdog_enter demo_env (int 0) demo_notified"
    using round_ready_enter [OF demo1_round, of 0]
    by (simp add: demo_notified_def wdog_enter_def da16x_sys_watchdog_is_init_def
        da16x_sys_watchdog_get_mutex_def)
  show "ntf demo_notified = {0}"
    using demo1_sets(1) by (simp add: demo_notified_def wdog_abs demo1_state)
qed

theorem stale_notification_witness:
  "\<exists>s2. da16x_sys_watchdog_register demo_env
          (snd (da16x_sys_watchdog_unregister demo_env (int 0) demo_notified)) = (0, s2) \<and> 0 \<notin> missing s2"
proof -
  obtain r s2 where "da16x_sys_watchdog_register demo_env
      (snd (da16x_sys_watchdog_unregister demo_env (int 0) demo_notified)) = (r, s2)"
    by fastforce
  from this stale_notification [OF demo_notified_ready(1,2) _ _ refl this] show ?thesis
    by (simp add: demo_notified_ready(3))
qed

section \<open>The rescale factor\<close>

text \<open>
  A factor is accepted only between 10 and 3000, any other value is refused and changes
  nothing. The interval it asks for may not be the interval the hardware gets, though: the counter
  is loaded with the product modulo 2^32, and with a 160 MHz clock and the largest factor it wraps
  from 4800000000 to 505032704 ticks.
\<close>

theorem rescale_time_bounds_and_wrap:
  assumes "da16x_sys_watchdog_set_rescale_time e r s = (ret, s')" "drv_ready s" "\<not> debug_mode e"
  shows "if ret = 0
         then 10 \<le> r \<and> r \<le> 3000 \<and> s' = s\<lparr>rescale_time := r\<rparr> \<and>
           unat (LOAD (drv (da16x_sys_watchdog_active e (rescale_time s') s'))) =
             (unat (sysclock e) div 100 * unat r) mod 2 ^ 32 \<and>
           (sysclock e = 160000000 \<and> r = 3000 \<longrightarrow>
              LOAD (drv (da16x_sys_watchdog_active e (rescale_time s') s')) = 505032704)
         else ret = -1 \<and> s' = s"
proof (cases "ret = 0")
  case True
  then have r: "10 \<le> r" "r \<le> 3000" "s' = s\<lparr>rescale_time := r\<rparr>"
    using assms(1) by (auto simp: da16x_sys_watchdog_set_rescale_time_def MIN_RESCALE_TIME_def
        MAX_RESCALE_TIME_def split: if_splits)
  then have "r \<noteq> 0" by auto
  have "drv_ready s'" using assms(2) r(3) by (simp add: drv_ready_def)
  note ld = watchdog_active_ready(3) [OF this assms(3), of "rescale_time s'"]
  from True r ld \<open>r \<noteq> 0\<close> show ?thesis
    by (auto simp: unat_word_ariths unat_div mod_mult_left_eq)
next
  case False
  with assms(1) show ?thesis
    by (auto simp: da16x_sys_watchdog_set_rescale_time_def split: if_splits)
qed

theorem rescale_time_bounds_and_wrap_witness:
  "\<exists>s'. da16x_sys_watchdog_set_rescale_time (demo_env\<lparr>sysclock := 160000000\<rparr>) 3000 demo1 = (0, s') \<and>
     LOAD (drv (da16x_sys_watchdog_active (demo_env\<lparr>sysclock := 160000000\<rparr>) (rescale_time s') s')) = 505032704"
proof -
  let ?e = "demo_env\<lparr>sysclock := 160000000\<rparr>"
  have "da16x_sys_watchdog_set_rescale_time ?e 3000 demo1 = (0, demo1\<lparr>rescale_time := 3000\<rparr>)"
    by (simp add: da16x_sys_watchdog_set_rescale_time_def demo1_state MIN_RESCALE_TIME_def
        MAX_RESCALE_TIME_def da16x_sys_watchdog_is_init_def da16x_sys_watchdog_get_mutex_def demo_env_def)
  from this rescale_time_bounds_and_wrap [OF this demo1_drv] show ?thesis by (simp add: demo_env_def)
qed

end
