(* ===== verification/Rtm_Mem.thy ===== *)
theory Rtm_Mem
  imports Prelude
begin

text \<open>
  The allocator of retention memory, \<^verbatim>\<open>src/core/system/src/dpm/da16x_dpm_rtm_mem.c\<close>: the part of
  memory that survives deep sleep is one heap of blocks, each behind an 8-byte header with the
  offsets of its neighbours and a used flag. Memory is a function from addresses to bytes and the
  headers are read and written in it, so a header can be overwritten like any other bytes. Addresses
  and offsets are natural numbers; the 16-bit and 32-bit reductions of the code are written out.
  Offsets are 16 bits wide (\<^verbatim>\<open>da16x_dpm_rtm_mem_size_t\<close>), the alignment is 4, and the debug options
  of the file (overflow check, sanity check, free from other contexts) are off, as in the SDK's
  configuration. \<^verbatim>\<open>LWIP_ASSERT\<close> only prints. All operations run under one mutex.
\<close>

section \<open>State\<close>

record rtm_heap =
  rtm :: nat
  rtm_size :: nat
  rtm_end :: nat
  lfree :: nat
  ram :: "nat \<Rightarrow> u8"
  alloc_fail_cnt :: u32
  alloc_illegal_cnt :: u32

definition LWIP_MEM_ALIGN_SIZE :: "nat \<Rightarrow> nat" where
  "LWIP_MEM_ALIGN_SIZE n = (n + 3) mod 2 ^ 32 div 4 * 4"

definition SIZEOF_STRUCT_RTM_MEM :: nat where "SIZEOF_STRUCT_RTM_MEM = 8"
definition MIN_SIZE_ALIGNED :: nat where "MIN_SIZE_ALIGNED = 12"

definition SIZE_ALIGNED :: "rtm_heap \<Rightarrow> nat" where
  "SIZE_ALIGNED s = LWIP_MEM_ALIGN_SIZE (rtm_size s)"

text \<open>Little-endian halfwords and the header fields \<^verbatim>\<open>next\<close>, \<^verbatim>\<open>prev\<close> and \<^verbatim>\<open>used\<close> at their offsets.\<close>

definition rd16 :: "(nat \<Rightarrow> u8) \<Rightarrow> nat \<Rightarrow> nat" where
  "rd16 m a = unat (m a) + 256 * unat (m (a + 1))"

definition wr16 :: "nat \<Rightarrow> nat \<Rightarrow> (nat \<Rightarrow> u8) \<Rightarrow> nat \<Rightarrow> u8" where
  "wr16 a v m = m(a := of_nat v, a + 1 := of_nat (v div 256))"

definition mem_next :: "rtm_heap \<Rightarrow> nat \<Rightarrow> nat" where "mem_next s mem = rd16 (ram s) mem"
definition mem_prev :: "rtm_heap \<Rightarrow> nat \<Rightarrow> nat" where "mem_prev s mem = rd16 (ram s) (mem + 2)"
definition mem_used :: "rtm_heap \<Rightarrow> nat \<Rightarrow> u8" where "mem_used s mem = ram s (mem + 4)"

definition set_next :: "nat \<Rightarrow> nat \<Rightarrow> rtm_heap \<Rightarrow> rtm_heap" where
  "set_next mem v s = s\<lparr>ram := wr16 mem v (ram s)\<rparr>"
definition set_prev :: "nat \<Rightarrow> nat \<Rightarrow> rtm_heap \<Rightarrow> rtm_heap" where
  "set_prev mem v s = s\<lparr>ram := wr16 (mem + 2) v (ram s)\<rparr>"
definition set_used :: "nat \<Rightarrow> u8 \<Rightarrow> rtm_heap \<Rightarrow> rtm_heap" where
  "set_used mem v s = s\<lparr>ram := (ram s)(mem + 4 := v)\<rparr>"

definition ptr_to_mem :: "rtm_heap \<Rightarrow> nat \<Rightarrow> nat" where
  "ptr_to_mem s ptr = (rtm s + ptr mod 2 ^ 16) mod 2 ^ 32"

definition sub32 :: "nat \<Rightarrow> nat \<Rightarrow> nat" where
  "sub32 a b = (a + 2 ^ 32 - b) mod 2 ^ 32"

definition mem_to_ptr :: "rtm_heap \<Rightarrow> nat \<Rightarrow> nat" where
  "mem_to_ptr s mem = sub32 mem (rtm s) mod 2 ^ 16"

section \<open>Freeing\<close>

text \<open>
  Both halves of plugging holes let a block absorb the next one: \<open>lfree\<close> moves down, the lower block
  takes over the link, and the block after both is pointed back, unless it is the end marker.
\<close>

definition link_back :: "nat \<Rightarrow> nat \<Rightarrow> rtm_heap \<Rightarrow> rtm_heap" where
  "link_back nxt mem s =
     (if nxt \<noteq> SIZE_ALIGNED s then set_prev (ptr_to_mem s nxt) (mem_to_ptr s mem) s else s)"

definition absorb :: "nat \<Rightarrow> nat \<Rightarrow> rtm_heap \<Rightarrow> rtm_heap" where
  "absorb lo up s =
     (let s1 = (if lfree s = up then s\<lparr>lfree := lo\<rparr> else s);
          s2 = set_next lo (mem_next s1 up) s1
      in link_back (mem_next s2 up) lo s2)"

definition plug_forward :: "nat \<Rightarrow> rtm_heap \<Rightarrow> rtm_heap" where
  "plug_forward mem s =
     (let nmem = ptr_to_mem s (mem_next s mem) in
      if mem \<noteq> nmem \<and> mem_used s nmem = 0 \<and> nmem \<noteq> rtm_end s then absorb mem nmem s else s)"

definition plug_backward :: "nat \<Rightarrow> rtm_heap \<Rightarrow> rtm_heap" where
  "plug_backward mem s =
     (let pmem = ptr_to_mem s (mem_prev s mem) in
      if pmem \<noteq> mem \<and> mem_used s pmem = 0 then absorb pmem mem s else s)"

definition da16x_dpm_rtm_mem_plug_holes :: "nat \<Rightarrow> rtm_heap \<Rightarrow> rtm_heap" where
  "da16x_dpm_rtm_mem_plug_holes mem s = plug_backward mem (plug_forward mem s)"

definition da16x_dpm_rtm_mem_link_valid :: "rtm_heap \<Rightarrow> nat \<Rightarrow> bool" where
  "da16x_dpm_rtm_mem_link_valid s mem =
     (let rmem_idx = mem_to_ptr s mem;
          nmem = ptr_to_mem s (mem_next s mem);
          pmem = ptr_to_mem s (mem_prev s mem)
      in \<not> (mem_next s mem > SIZE_ALIGNED s \<or> mem_prev s mem > SIZE_ALIGNED s \<or>
            mem_prev s mem \<noteq> rmem_idx \<and> mem_next s pmem \<noteq> rmem_idx \<or>
            nmem \<noteq> rtm_end s \<and> mem_prev s nmem \<noteq> rmem_idx))"

definition count_illegal :: "rtm_heap \<Rightarrow> rtm_heap" where
  "count_illegal s = s\<lparr>alloc_illegal_cnt := alloc_illegal_cnt s + 1\<rparr>"

definition da16x_dpm_rtm_mem_free :: "nat \<Rightarrow> rtm_heap \<Rightarrow> rtm_heap" where
  "da16x_dpm_rtm_mem_free rmem s =
     (if rmem = 0 then s
      else if rmem mod 4 \<noteq> 0 then count_illegal s
      else (let mem = sub32 rmem SIZEOF_STRUCT_RTM_MEM in
        if mem < rtm s \<or> (rmem + MIN_SIZE_ALIGNED) mod 2 ^ 32 > rtm_end s then count_illegal s
        else if mem_used s mem = 0 then count_illegal s
        else if \<not> da16x_dpm_rtm_mem_link_valid s mem then count_illegal s
        else (let s1 = set_used mem 0 s;
                  s2 = (if mem < lfree s1 then s1\<lparr>lfree := mem\<rparr> else s1)
              in da16x_dpm_rtm_mem_plug_holes mem s2)))"

section \<open>Initialisation and recovery after sleep\<close>

text \<open>The length parameter is a \<^verbatim>\<open>size_t\<close>; only its low 16 bits reach \<open>rtm_size\<close>.\<close>

definition heap_bounds :: "nat \<Rightarrow> nat \<Rightarrow> rtm_heap \<Rightarrow> rtm_heap" where
  "heap_bounds mem_ptr mem_len s =
     s\<lparr>rtm := (mem_ptr + 3) mod 2 ^ 32 div 4 * 4,
       rtm_size := sub32 mem_len SIZEOF_STRUCT_RTM_MEM mod 2 ^ 16\<rparr>"

definition set_rtm_end :: "rtm_heap \<Rightarrow> rtm_heap" where
  "set_rtm_end s =
     (let e = ptr_to_mem s (SIZE_ALIGNED s);
          s1 = set_used e 1 (s\<lparr>rtm_end := e\<rparr>);
          s2 = set_next e (SIZE_ALIGNED s) s1
      in set_prev e (SIZE_ALIGNED s) s2)"

definition da16x_dpm_rtm_mem_init :: "nat \<Rightarrow> nat \<Rightarrow> rtm_heap \<Rightarrow> rtm_heap" where
  "da16x_dpm_rtm_mem_init mem_ptr mem_len s =
     (let s1 = heap_bounds mem_ptr mem_len s;
          mem = rtm s1;
          s2 = set_used mem 0 (set_prev mem 0 (set_next mem (SIZE_ALIGNED s1) s1));
          s3 = set_rtm_end s2
      in s3\<lparr>lfree := rtm s3\<rparr>)"

definition da16x_dpm_rtm_mem_recovery :: "nat \<Rightarrow> nat \<Rightarrow> nat \<Rightarrow> rtm_heap \<Rightarrow> rtm_heap" where
  "da16x_dpm_rtm_mem_recovery mem_ptr mem_len lfree_ptr s =
     (set_rtm_end (heap_bounds mem_ptr mem_len s))\<lparr>lfree := lfree_ptr\<rparr>"

definition da16x_dpm_rtm_mem_get_free_ptr :: "rtm_heap \<Rightarrow> nat" where
  "da16x_dpm_rtm_mem_get_free_ptr s = lfree s"

section \<open>Trimming\<close>

text \<open>
  Creating a free block behind another one, in the order of the writes in the code, and pointing the
  block after it back, unless that is the end marker.
\<close>

definition link_block :: "nat \<Rightarrow> nat \<Rightarrow> nat \<Rightarrow> nat \<Rightarrow> nat \<Rightarrow> rtm_heap \<Rightarrow> rtm_heap" where
  "link_block mem ptr mem2 ptr2 nxt s =
     (let s1 = set_used mem2 0 s;
          s2 = set_next mem2 nxt s1;
          s3 = set_prev mem2 ptr s2
      in set_next mem ptr2 s3)"

definition link_next :: "nat \<Rightarrow> nat \<Rightarrow> rtm_heap \<Rightarrow> rtm_heap" where
  "link_next mem2 ptr2 s =
     (if mem_next s mem2 \<noteq> SIZE_ALIGNED s then set_prev (ptr_to_mem s (mem_next s mem2)) ptr2 s else s)"

text \<open>The requested size, aligned and at least the minimum, in 16 bits.\<close>

definition block_size :: "nat \<Rightarrow> nat" where
  "block_size size_in =
     (let size = LWIP_MEM_ALIGN_SIZE size_in mod 2 ^ 16
      in if size < MIN_SIZE_ALIGNED then MIN_SIZE_ALIGNED else size)"

text \<open>Result 0 is the null pointer.\<close>

definition da16x_dpm_rtm_mem_trim :: "nat \<Rightarrow> nat \<Rightarrow> rtm_heap \<Rightarrow> rtm_heap \<times> nat" where
  "da16x_dpm_rtm_mem_trim rmem new_size s =
     (let newsize = block_size new_size in
      if newsize > SIZE_ALIGNED s \<or> newsize < new_size then (s, 0)
      else if rmem < rtm s \<or> rmem \<ge> rtm_end s then (count_illegal s, rmem)
      else (let mem = sub32 rmem SIZEOF_STRUCT_RTM_MEM;
                ptr = mem_to_ptr s mem;
                size = sub32 (sub32 (mem_next s mem) ptr mod 2 ^ 16) SIZEOF_STRUCT_RTM_MEM mod 2 ^ 16
            in
        if newsize > size then (s, 0)
        else if newsize = size then (s, rmem)
        else (let mem2 = ptr_to_mem s (mem_next s mem);
                  ptr2 = (ptr + SIZEOF_STRUCT_RTM_MEM + newsize) mod 2 ^ 16;
                  new2 = ptr_to_mem s ptr2
              in
          if mem_used s mem2 = 0
          then (let nxt = mem_next s mem2;
                    s1 = (if lfree s = mem2 then s\<lparr>lfree := new2\<rparr> else s);
                    s5 = link_block mem ptr new2 ptr2 nxt s1
                in (link_next new2 ptr2 s5, rmem))
          else if newsize + SIZEOF_STRUCT_RTM_MEM + MIN_SIZE_ALIGNED \<le> size
          then (let s1 = (if new2 < lfree s then s\<lparr>lfree := new2\<rparr> else s);
                    s5 = link_block mem ptr new2 ptr2 (mem_next (set_used new2 0 s1) mem) s1
                in (link_next new2 ptr2 s5, rmem))
          else (s, rmem))))"

section \<open>Allocation\<close>

text \<open>
  The two loops follow the links of the heap, which need not lead anywhere on a corrupted heap:
  \<open>None\<close> is a loop that does not end.
\<close>

partial_function (option) malloc_scan :: "rtm_heap \<Rightarrow> nat \<Rightarrow> nat \<Rightarrow> nat option option" where
  "malloc_scan s sz ptr =
     (if ptr < SIZE_ALIGNED s - sz
      then (let mem = ptr_to_mem s ptr in
            if mem_used s mem = 0 \<and> sub32 (mem_next s mem) (ptr + SIZEOF_STRUCT_RTM_MEM) \<ge> sz
            then Some (Some ptr)
            else malloc_scan s sz (mem_next s mem))
      else Some None)"

partial_function (option) lfree_search :: "rtm_heap \<Rightarrow> nat \<Rightarrow> nat option" where
  "lfree_search s cur =
     (if mem_used s cur \<noteq> 0 \<and> cur \<noteq> rtm_end s
      then lfree_search s (ptr_to_mem s (mem_next s cur))
      else Some cur)"

text \<open>Taking the block at \<open>ptr\<close>: split it when another block fits behind, then move \<open>lfree\<close>.\<close>

definition take_block :: "nat \<Rightarrow> nat \<Rightarrow> rtm_heap \<Rightarrow> rtm_heap" where
  "take_block ptr sz s =
     (let mem = ptr_to_mem s ptr in
      if sub32 (mem_next s mem) (ptr + SIZEOF_STRUCT_RTM_MEM) \<ge>
           sz + SIZEOF_STRUCT_RTM_MEM + MIN_SIZE_ALIGNED
      then (let ptr2 = (ptr + SIZEOF_STRUCT_RTM_MEM + sz) mod 2 ^ 16;
                mem2 = ptr_to_mem s ptr2;
                s4 = link_block mem ptr mem2 ptr2 (mem_next (set_used mem2 0 s) mem) s
            in link_next mem2 ptr2 (set_used mem 1 s4))
      else set_used mem 1 s)"

definition da16x_dpm_rtm_mem_malloc :: "nat \<Rightarrow> rtm_heap \<Rightarrow> (rtm_heap \<times> nat) option" where
  "da16x_dpm_rtm_mem_malloc size_in s =
     (if size_in = 0 then Some (s, 0)
      else (let sz = block_size size_in in
        if sz > SIZE_ALIGNED s \<or> sz < size_in then Some (s, 0)
        else (case malloc_scan s sz (mem_to_ptr s (lfree s)) of
                None \<Rightarrow> None
              | Some None \<Rightarrow> Some (s\<lparr>alloc_fail_cnt := alloc_fail_cnt s + 1\<rparr>, 0)
              | Some (Some ptr) \<Rightarrow>
                  (let mem = ptr_to_mem s ptr;
                       s1 = take_block ptr sz s;
                       ret = (mem + SIZEOF_STRUCT_RTM_MEM) mod 2 ^ 32
                   in if mem = lfree s1
                      then (case lfree_search s1 (lfree s1) of
                              None \<Rightarrow> None
                            | Some cur \<Rightarrow> Some (s1\<lparr>lfree := cur\<rparr>, ret))
                      else Some (s1, ret)))))"

definition memset_zero :: "nat \<Rightarrow> nat \<Rightarrow> rtm_heap \<Rightarrow> rtm_heap" where
  "memset_zero p n s = s\<lparr>ram := (\<lambda>a. if p \<le> a \<and> a < p + n then 0 else ram s a)\<rparr>"

text \<open>Both parameters are 16 bits wide, their product is not.\<close>

definition da16x_dpm_rtm_mem_calloc :: "nat \<Rightarrow> nat \<Rightarrow> rtm_heap \<Rightarrow> (rtm_heap \<times> nat) option" where
  "da16x_dpm_rtm_mem_calloc count sz s =
     (let alloc_size = ((count mod 2 ^ 16) * (sz mod 2 ^ 16)) mod 2 ^ 32 in
      if alloc_size mod 2 ^ 16 \<noteq> alloc_size then Some (s, 0)
      else (case da16x_dpm_rtm_mem_malloc alloc_size s of
              None \<Rightarrow> None
            | Some (s1, p) \<Rightarrow> Some (if p \<noteq> 0 then memset_zero p alloc_size s1 else s1, p)))"

section \<open>Status\<close>

text \<open>The walk of the status command: node count, used and free bytes, in 16-bit counters.\<close>

partial_function (option) status_walk ::
    "rtm_heap \<Rightarrow> nat \<Rightarrow> nat \<times> nat \<times> nat \<Rightarrow> (nat \<times> nat \<times> nat) option" where
  "status_walk s ptr acc =
     (if ptr < SIZE_ALIGNED s
      then (let mem = ptr_to_mem s ptr;
                n = sub32 (mem_next s mem) (ptr + SIZEOF_STRUCT_RTM_MEM);
                acc' = (case acc of (node_count, used_mem, free_mem) \<Rightarrow>
                  if mem_used s mem = 0
                  then ((node_count + 1) mod 2 ^ 16, used_mem, (free_mem + n) mod 2 ^ 16)
                  else ((node_count + 1) mod 2 ^ 16, (used_mem + n) mod 2 ^ 16, free_mem))
            in status_walk s (mem_next s mem) acc')
      else Some acc)"

definition da16x_dpm_rtm_mem_status :: "rtm_heap \<Rightarrow> (nat \<times> nat \<times> nat) option" where
  "da16x_dpm_rtm_mem_status s = status_walk s (mem_to_ptr s (rtm s)) (0, 0, 0)"

section \<open>Field reads after field writes\<close>

lemma rd16_wr16_same [simp]: "v < 65536 \<Longrightarrow> rd16 (wr16 a v m) a = v"
  by (simp add: rd16_def wr16_def unat_of_nat)

lemma unat_u8_lt: "unat (w :: u8) < 256"
  by (rule order_less_le_trans [OF unsigned_less]) simp

lemma rd16_lt [simp]: "rd16 m a < 65536"
  using unat_u8_lt [of "m a"] unat_u8_lt [of "m (a + 1)"] by (simp add: rd16_def)

lemma wr16_other [simp]: "b \<noteq> a \<Longrightarrow> b \<noteq> a + 1 \<Longrightarrow> wr16 a v m b = m b"
  by (simp add: wr16_def)

lemma rd16_wr16_other [simp]: "a + 2 \<le> b \<or> b + 2 \<le> a \<Longrightarrow> rd16 (wr16 a v m) b = rd16 m b"
  by (auto simp: rd16_def wr16_def)

lemma rd16_upd [simp]: "a \<noteq> b \<Longrightarrow> a \<noteq> b + 1 \<Longrightarrow> rd16 (m(a := v)) b = rd16 m b"
  by (simp add: rd16_def)

lemma set_field_frame [simp]:
  "rtm (set_next a v s) = rtm s" "rtm (set_prev a v s) = rtm s" "rtm (set_used a w s) = rtm s"
  "rtm_size (set_next a v s) = rtm_size s" "rtm_size (set_prev a v s) = rtm_size s"
  "rtm_size (set_used a w s) = rtm_size s"
  "rtm_end (set_next a v s) = rtm_end s" "rtm_end (set_prev a v s) = rtm_end s"
  "rtm_end (set_used a w s) = rtm_end s"
  "lfree (set_next a v s) = lfree s" "lfree (set_prev a v s) = lfree s" "lfree (set_used a w s) = lfree s"
  "alloc_fail_cnt (set_next a v s) = alloc_fail_cnt s" "alloc_fail_cnt (set_prev a v s) = alloc_fail_cnt s"
  "alloc_fail_cnt (set_used a w s) = alloc_fail_cnt s"
  "alloc_illegal_cnt (set_next a v s) = alloc_illegal_cnt s"
  "alloc_illegal_cnt (set_prev a v s) = alloc_illegal_cnt s"
  "alloc_illegal_cnt (set_used a w s) = alloc_illegal_cnt s"
  by (simp_all add: set_next_def set_prev_def set_used_def)

lemma ptr_to_mem_cong: "rtm s = rtm t \<Longrightarrow> ptr_to_mem s p = ptr_to_mem t p"
  by (simp add: ptr_to_mem_def)

lemma SIZE_ALIGNED_cong: "rtm_size s = rtm_size t \<Longrightarrow> SIZE_ALIGNED s = SIZE_ALIGNED t"
  by (simp add: SIZE_ALIGNED_def)

end
