(* ===== verification/Rtm_Blocks.thy ===== *)
theory Rtm_Blocks
  imports Rtm_Mem
begin

text \<open>
  The heap of retention memory read as a list of blocks. A block is its length, header included,
  and whether it is used; \<open>heap_at\<close> says that the headers in memory describe a list of blocks.
  Three edits of that list are shown for the header writes of the code: merging two neighbours,
  splitting a block, and changing the used flag.
\<close>

type_synonym block = "nat \<times> bool"

definition total :: "block list \<Rightarrow> nat" where "total bs = sum_list (map fst bs)"

lemma total_simps [simp]:
  "total [] = 0" "total (b # bs) = fst b + total bs" "total (bs @ cs) = total bs + total cs"
  by (simp_all add: total_def)

text \<open>A block has room for its header and the minimum of data, and its length keeps the alignment.\<close>

definition block_ok :: "block \<Rightarrow> bool" where "block_ok b \<longleftrightarrow> 20 \<le> fst b \<and> 4 dvd fst b"

definition blocks_ok :: "block list \<Rightarrow> bool" where "blocks_ok bs \<longleftrightarrow> (\<forall>b \<in> set bs. block_ok b)"

lemma blocks_ok_simps [simp]:
  "blocks_ok []" "blocks_ok (b # bs) \<longleftrightarrow> block_ok b \<and> blocks_ok bs"
  "blocks_ok (bs @ cs) \<longleftrightarrow> blocks_ok bs \<and> blocks_ok cs"
  by (auto simp: blocks_ok_def)

lemma blocks_ok_dvd: "blocks_ok bs \<Longrightarrow> 4 dvd total bs"
  by (induction bs) (auto simp: block_ok_def)

lemma total_0_iff: "blocks_ok bs \<Longrightarrow> total bs = 0 \<longleftrightarrow> bs = []"
  by (cases bs) (auto simp: block_ok_def)

fun heap_at :: "(nat \<Rightarrow> u8) \<Rightarrow> nat \<Rightarrow> nat \<Rightarrow> nat \<Rightarrow> block list \<Rightarrow> bool" where
  "heap_at m r p off [] \<longleftrightarrow> True"
| "heap_at m r p off (b # bs) \<longleftrightarrow>
     rd16 m (r + off) = off + fst b \<and> rd16 m (r + off + 2) = p \<and>
     m (r + off + 4) = (if snd b then 1 else 0) \<and> heap_at m r off (off + fst b) bs"

text \<open>The offset of the last block of a list that starts at \<open>off\<close>, after a block at \<open>p\<close>.\<close>

fun last_off :: "nat \<Rightarrow> nat \<Rightarrow> block list \<Rightarrow> nat" where
  "last_off p off [] = p"
| "last_off p off (b # bs) = last_off off (off + fst b) bs"

lemma last_off_snoc [simp]: "last_off p off (bs @ [b]) = off + total bs"
  by (induction bs arbitrary: p off) (simp_all add: add.assoc)

lemma heap_at_append:
  "heap_at m r p off (bs @ cs) \<longleftrightarrow>
     heap_at m r p off bs \<and> heap_at m r (last_off p off bs) (off + total bs) cs"
  by (induction bs arbitrary: p off) (auto simp: add.assoc)

text \<open>Only the bytes of its own headers matter to a list of blocks.\<close>

fun hdrs :: "nat \<Rightarrow> block list \<Rightarrow> nat set" where
  "hdrs a [] = {}"
| "hdrs a (b # bs) = {a..<a + 5} \<union> hdrs (a + fst b) bs"

lemma hdrs_append: "hdrs a (bs @ cs) = hdrs a bs \<union> hdrs (a + total bs) cs"
  by (induction bs arbitrary: a) (auto simp: add.assoc)

lemma hdrs_range: "blocks_ok bs \<Longrightarrow> hdrs a bs \<subseteq> {a..<a + total bs}"
proof (induction bs arbitrary: a)
  case (Cons b bs)
  then have "hdrs (a + fst b) bs \<subseteq> {a + fst b..<a + fst b + total bs}" by simp
  with Cons.prems show ?case by (auto simp: block_ok_def)
qed simp

lemma rd16_cong: "m a = m' a \<Longrightarrow> m (a + 1) = m' (a + 1) \<Longrightarrow> rd16 m a = rd16 m' a"
  by (simp add: rd16_def)

lemma heap_at_cong:
  "(\<And>a. a \<in> hdrs (r + off) bs \<Longrightarrow> m a = m' a) \<Longrightarrow> heap_at m r p off bs = heap_at m' r p off bs"
proof (induction bs arbitrary: p off)
  case (Cons b bs)
  have e: "m (r + off + k) = m' (r + off + k)" if "k < 5" for k
    using that by (intro Cons.prems) simp
  have "rd16 m (r + off) = rd16 m' (r + off)" "rd16 m (r + off + 2) = rd16 m' (r + off + 2)"
    using e [of 0] e [of 1] e [of 2] e [of 3] by (auto intro!: rd16_cong simp: numeral_3_eq_3)
  moreover have "heap_at m r off (off + fst b) bs = heap_at m' r off (off + fst b) bs"
    using Cons.prems by (intro Cons.IH) (simp add: add.assoc)
  ultimately show ?case using e [of 4] by simp
qed simp

lemma heap_at_frame:
  assumes "blocks_ok bs" "\<And>a. r + off \<le> a \<Longrightarrow> a < r + off + total bs \<Longrightarrow> m a = m' a"
  shows "heap_at m r p off bs = heap_at m' r p off bs"
  using hdrs_range [OF assms(1), of "r + off"] assms(2) by (intro heap_at_cong) auto

section \<open>Writing the links\<close>

definition put_next :: "nat \<Rightarrow> nat \<Rightarrow> (nat \<Rightarrow> u8) \<Rightarrow> nat \<Rightarrow> u8" where "put_next a v m = wr16 a v m"
definition put_prev :: "nat \<Rightarrow> nat \<Rightarrow> (nat \<Rightarrow> u8) \<Rightarrow> nat \<Rightarrow> u8" where "put_prev a v m = wr16 (a + 2) v m"

text \<open>Pointing the first block of the rest of the list back, unless that rest is the end marker.\<close>

definition relink :: "nat \<Rightarrow> nat \<Rightarrow> nat \<Rightarrow> nat \<Rightarrow> (nat \<Rightarrow> u8) \<Rightarrow> nat \<Rightarrow> u8" where
  "relink r e off v m = (if off \<noteq> e then wr16 (r + off + 2) v m else m)"

lemma relink_other: "a \<noteq> r + off + 2 \<Longrightarrow> a \<noteq> r + off + 3 \<Longrightarrow> relink r e off v m a = m a"
  by (simp add: relink_def)

lemma heap_at_relink:
  assumes "heap_at m r p off bs" "blocks_ok bs" "e = off + total bs" "v < 65536"
  shows "heap_at (relink r e off v m) r v off bs"
proof (cases bs)
  case (Cons b cs)
  with assms(2,3) have "off \<noteq> e" by (auto simp: block_ok_def)
  moreover have "heap_at (wr16 (r + off + 2) v m) r off (off + fst b) cs = heap_at m r off (off + fst b) cs"
    using assms(2) Cons by (intro heap_at_frame) (auto simp: block_ok_def)
  ultimately show ?thesis using assms(1,4) Cons by (simp add: relink_def)
qed (use assms in simp)

lemma heap_at_relink_same: "heap_at m r p off [] \<Longrightarrow> relink r off off v m = m"
  by (simp add: relink_def)

section \<open>The three edits\<close>

lemma heap_at_merge:
  assumes "heap_at m r p off ((n1, u1) # (n2, u2) # bs)" "blocks_ok ((n1, u1) # (n2, u2) # bs)"
    and "e = off + n1 + n2 + total bs" "e < 65536"
  shows "heap_at (relink r e (off + n1 + n2) off (wr16 (r + off) (off + n1 + n2) m)) r p off
           ((n1 + n2, u1) # bs)"
proof -
  let ?m = "wr16 (r + off) (off + n1 + n2) m"
  have "heap_at m r (off + n1) (off + n1 + n2) bs" using assms(1) by simp
  then have "heap_at ?m r (off + n1) (off + n1 + n2) bs"
    using assms(2) by (subst heap_at_frame [of _ _ _ _ m]) (auto simp: block_ok_def)
  from heap_at_relink [OF this, of e off] assms(2-4)
  have "heap_at (relink r e (off + n1 + n2) off ?m) r off (off + n1 + n2) bs"
    by (auto simp: block_ok_def)
  with assms show ?thesis by (auto simp: relink_def block_ok_def add.assoc)
qed

lemma heap_at_split:
  assumes "rd16 m (r + off + 2) = p" "heap_at m r q (off + n1 + n2) bs"
    and "blocks_ok ((n1, u1) # (n2, False) # bs)"
    and "e = off + n1 + n2 + total bs" "e < 65536"
    and "m1 = wr16 (r + off + n1 + 2) off (wr16 (r + off + n1) (off + n1 + n2) (m(r + off + n1 + 4 := 0)))"
    and "m2 = (wr16 (r + off) (off + n1) m1)(r + off + 4 := if u1 then 1 else 0)"
  shows "heap_at (relink r e (off + n1 + n2) (off + n1) m2) r p off ((n1, u1) # (n2, False) # bs)"
proof -
  have "heap_at m2 r q (off + n1 + n2) bs"
    using assms(2,3) by (subst heap_at_frame [of _ _ _ _ m]) (auto simp: block_ok_def assms(6,7))
  from heap_at_relink [OF this, of e "off + n1"] assms(3-5)
  have tl: "heap_at (relink r e (off + n1 + n2) (off + n1) m2) r (off + n1) (off + n1 + n2) bs"
    by (auto simp: block_ok_def)
  have b: "20 \<le> n1" "20 \<le> n2" using assms(3) by (auto simp: block_ok_def)
  with assms(1,4,5) have "rd16 m2 (r + off) = off + n1" "rd16 m2 (r + off + 2) = p"
    "m2 (r + off + 4) = (if u1 then 1 else 0)" "rd16 m2 (r + off + n1) = off + n1 + n2"
    "rd16 m2 (r + off + n1 + 2) = off" "m2 (r + off + n1 + 4) = 0"
    by (simp_all add: assms(6,7))
  with tl b show ?thesis by (simp add: relink_def add.assoc)
qed

lemma heap_at_flag:
  assumes "heap_at m r p off ((n, u) # bs)" "blocks_ok ((n, u) # bs)"
  shows "heap_at (m(r + off + 4 := if v then 1 else 0)) r p off ((n, v) # bs)"
proof -
  have "heap_at (m(r + off + 4 := if v then 1 else 0)) r off (off + n) bs = heap_at m r off (off + n) bs"
    using assms(2) by (intro heap_at_frame) (auto simp: block_ok_def)
  with assms(1) show ?thesis by simp
qed

end
