(* ===== verification/Rtm_Heap.thy ===== *)
theory Rtm_Heap
  imports Rtm_Blocks
begin

text \<open>
  The allocator refines lists of blocks: \<open>heap_rel\<close> relates a heap to the list of its blocks, and
  allocation, release and trimming are shown to be first fit with splitting, release with merging
  of both neighbours, and shrinking of one block, on that list.
\<close>

section \<open>The refinement relation\<close>

definition heap_links :: "rtm_heap \<Rightarrow> block list \<Rightarrow> bool" where
  "heap_links s bs \<longleftrightarrow>
     0 < rtm s \<and> 4 dvd rtm s \<and> rtm s + SIZE_ALIGNED s + 8 \<le> 2 ^ 32 \<and> SIZE_ALIGNED s < 2 ^ 16 \<and>
     rtm_end s = rtm s + SIZE_ALIGNED s \<and> mem_used s (rtm_end s) = 1 \<and>
     blocks_ok bs \<and> bs \<noteq> [] \<and> total bs = SIZE_ALIGNED s \<and> heap_at (ram s) (rtm s) 0 0 bs"

text \<open>Free blocks are never neighbours, and \<open>lfree\<close> is the lowest free block or the end marker.\<close>

fun no_adj :: "block list \<Rightarrow> bool" where
  "no_adj (b # c # bs) \<longleftrightarrow> (snd b \<or> snd c) \<and> no_adj (c # bs)"
| "no_adj _ \<longleftrightarrow> True"

fun first_free :: "nat \<Rightarrow> block list \<Rightarrow> nat" where
  "first_free off [] = off"
| "first_free off (b # bs) = (if snd b then first_free (off + fst b) bs else off)"

definition heap_rel :: "rtm_heap \<Rightarrow> block list \<Rightarrow> bool" where
  "heap_rel s bs \<longleftrightarrow> heap_links s bs \<and> no_adj bs \<and> lfree s = rtm s + first_free 0 bs"

lemma heap_relD:
  assumes "heap_rel s bs"
  shows "heap_links s bs" "no_adj bs" "lfree s = rtm s + first_free 0 bs"
  using assms by (simp_all add: heap_rel_def)

lemma first_free_append:
  "first_free off (bs @ cs) = (if \<exists>b \<in> set bs. \<not> snd b then first_free off bs else first_free (off + total bs) cs)"
  by (induction bs arbitrary: off) (auto simp: add.assoc)

lemma first_free_bounds: "off \<le> first_free off bs \<and> first_free off bs \<le> off + total bs"
  by (induction bs arbitrary: off) (auto intro: order_trans [OF le_add1] simp: add.assoc [symmetric])

lemma first_free_split:
  obtains xs ys where "bs = xs @ ys" "\<forall>b \<in> set xs. snd b" "first_free off bs = off + total xs"
    "ys = [] \<or> \<not> snd (hd ys)"
proof (induction bs arbitrary: off thesis)
  case (Cons b bs)
  show ?case
  proof (cases "snd b")
    case True
    obtain xs ys where "bs = xs @ ys" "\<forall>b \<in> set xs. snd b"
      "first_free (off + fst b) bs = off + fst b + total xs" "ys = [] \<or> \<not> snd (hd ys)"
      by (rule Cons.IH)
    with Cons.prems [of "b # xs" ys] True show ?thesis by auto
  next
    case False
    with Cons.prems [of "[]" "b # bs"] show ?thesis by simp
  qed
qed simp

lemma no_adj_append:
  "no_adj (bs @ cs) \<longleftrightarrow>
     no_adj bs \<and> no_adj cs \<and> (bs \<noteq> [] \<and> cs \<noteq> [] \<longrightarrow> snd (last bs) \<or> snd (hd cs))"
proof (induction bs)
  case (Cons b bs)
  then show ?case by (cases bs; cases cs) auto
qed simp

section \<open>Reading through the relation\<close>

lemma ptr_to_mem_eq: "heap_links s bs \<Longrightarrow> ptr \<le> SIZE_ALIGNED s \<Longrightarrow> ptr_to_mem s ptr = rtm s + ptr"
  by (simp add: heap_links_def ptr_to_mem_def)

lemma mem_to_ptr_eq: "heap_links s bs \<Longrightarrow> ptr \<le> SIZE_ALIGNED s \<Longrightarrow> mem_to_ptr s (rtm s + ptr) = ptr"
  by (simp add: heap_links_def mem_to_ptr_def sub32_def)

lemma sub32_eq: "b \<le> a \<Longrightarrow> a < 2 ^ 32 \<Longrightarrow> sub32 a b = a - b"
proof -
  assume a: "b \<le> a" "a < 2 ^ 32"
  then have "a + 2 ^ 32 - b = (a - b) + 2 ^ 32" by simp
  with a show ?thesis unfolding sub32_def by (simp only: mod_add_self2 mod_less)
qed

text \<open>The header of the block that follows the blocks \<open>xs\<close>.\<close>

lemma block_fields:
  assumes "heap_links s (xs @ (n, u) # ys)"
  shows "mem_next s (rtm s + total xs) = total xs + n"
    and "mem_prev s (rtm s + total xs) = last_off 0 0 xs"
    and "mem_used s (rtm s + total xs) = (if u then 1 else 0)"
    and "total xs + n \<le> SIZE_ALIGNED s" "20 \<le> n" "4 dvd n" "4 dvd total xs"
    and "total xs + n = SIZE_ALIGNED s \<longleftrightarrow> ys = []"
proof -
  have h: "heap_at (ram s) (rtm s) 0 0 (xs @ (n, u) # ys)" and ok: "blocks_ok (xs @ (n, u) # ys)"
    and tot: "total (xs @ (n, u) # ys) = SIZE_ALIGNED s"
    using assms by (simp_all add: heap_links_def)
  then show "mem_next s (rtm s + total xs) = total xs + n"
    "mem_prev s (rtm s + total xs) = last_off 0 0 xs"
    "mem_used s (rtm s + total xs) = (if u then 1 else 0)"
    by (simp_all add: heap_at_append mem_next_def mem_prev_def mem_used_def)
  show "total xs + n \<le> SIZE_ALIGNED s" "20 \<le> n" "4 dvd n" "4 dvd total xs"
    using ok tot blocks_ok_dvd [of xs] by (auto simp: block_ok_def)
  show "total xs + n = SIZE_ALIGNED s \<longleftrightarrow> ys = []"
    using ok tot total_0_iff [of ys] by auto
qed

lemma last_off_le: "blocks_ok xs \<Longrightarrow> last_off 0 0 xs \<le> total xs"
  by (cases xs rule: rev_cases) auto

lemma heap_links_sizes:
  assumes "heap_links s bs"
  shows "rtm s + SIZE_ALIGNED s < 2 ^ 32" "SIZE_ALIGNED s < 2 ^ 16" "0 < rtm s" "4 dvd rtm s"
    "rtm_end s = rtm s + SIZE_ALIGNED s"
  using assms by (simp_all add: heap_links_def)

lemma heap_links_end: "heap_links s bs \<Longrightarrow> mem_used s (rtm_end s) = 1"
  unfolding heap_links_def by blast

section \<open>Allocation\<close>

definition fits :: "nat \<Rightarrow> block \<Rightarrow> bool" where
  "fits sz b \<longleftrightarrow> \<not> snd b \<and> sz + 8 \<le> fst b"

fun fit_off :: "nat \<Rightarrow> nat \<Rightarrow> block list \<Rightarrow> nat option" where
  "fit_off sz off [] = None"
| "fit_off sz off (b # bs) = (if fits sz b then Some off else fit_off sz (off + fst b) bs)"

lemma fit_off_None: "fit_off sz off bs = None \<longleftrightarrow> (\<forall>b \<in> set bs. \<not> fits sz b)"
  by (induction bs arbitrary: off) auto

lemma fit_off_append_used:
  "\<forall>b \<in> set xs. snd b \<Longrightarrow> fit_off sz off (xs @ ys) = fit_off sz (off + total xs) ys"
  by (induction xs arbitrary: off) (auto simp: fits_def add.assoc)

lemma fit_off_Some:
  assumes "fit_off sz off bs = Some q"
  obtains xs n ys where "bs = xs @ (n, False) # ys" "sz + 8 \<le> n" "q = off + total xs"
    "\<forall>b \<in> set xs. \<not> fits sz b"
  using assms
proof (induction bs arbitrary: off thesis)
  case (Cons b bs)
  show ?case
  proof (cases "fits sz b")
    case True
    with Cons.prems(2) Cons.prems(1) [of "[]" "fst b" bs] show ?thesis by (cases b) (simp add: fits_def)
  next
    case False
    with Cons.prems(2) obtain xs n ys where "bs = xs @ (n, False) # ys" "sz + 8 \<le> n"
      "q = off + fst b + total xs" "\<forall>b \<in> set xs. \<not> fits sz b"
      using Cons.IH [of "off + fst b"] by auto
    with Cons.prems(1) [of "b # xs" n ys] False show ?thesis by simp
  qed
qed simp

lemma fits_bound: "b \<in> set bs \<Longrightarrow> fits sz b \<Longrightarrow> sz + 8 \<le> total bs"
  by (auto simp: fits_def total_def dest!: split_list)

text \<open>The scan of the code stops early, where no block can be large enough any more.\<close>

lemma malloc_scan_fit:
  assumes "heap_links s (xs @ ys)" "sz \<le> SIZE_ALIGNED s"
  shows "malloc_scan s sz (total xs) = Some (fit_off sz (total xs) ys)"
  using assms
proof (induction ys arbitrary: xs)
  case Nil
  then have "total xs = SIZE_ALIGNED s" by (simp add: heap_links_def)
  moreover have "\<not> SIZE_ALIGNED s < SIZE_ALIGNED s - sz" by arith
  ultimately show ?case by (subst malloc_scan.simps) simp
next
  case (Cons b ys)
  obtain n u where b: "b = (n, u)" by fastforce
  note f = block_fields [OF Cons.prems(1) [unfolded b]]
  note z = heap_links_sizes [OF Cons.prems(1)]
  show ?case
  proof (cases "total xs < SIZE_ALIGNED s - sz")
    case False
    have "total xs + total (b # ys) = SIZE_ALIGNED s" using Cons.prems(1) by (simp add: heap_links_def)
    with False fits_bound [of _ "b # ys" sz] have "fit_off sz (total xs) (b # ys) = None"
      unfolding fit_off_None by fastforce
    with False show ?thesis by (subst malloc_scan.simps) simp
  next
    case True
    have mem: "ptr_to_mem s (total xs) = rtm s + total xs"
      using f(4) by (intro ptr_to_mem_eq [OF Cons.prems(1)]) simp
    have d: "sub32 (total xs + n) (total xs + 8) = n - 8"
      using f(4,5) z by (simp add: sub32_eq)
    have IH: "malloc_scan s sz (total xs + n) = Some (fit_off sz (total xs + n) ys)"
      using Cons.IH [of "xs @ [b]"] Cons.prems by (simp add: b)
    show ?thesis
      using True f(5)
      by (subst malloc_scan.simps)
        (auto simp: mem f(1,3) d IH b fits_def SIZEOF_STRUCT_RTM_MEM_def Let_def)
  qed
qed

lemma lfree_search_first:
  assumes "heap_links s (xs @ ys)"
  shows "lfree_search s (rtm s + total xs) = Some (rtm s + first_free (total xs) ys)"
  using assms
proof (induction ys arbitrary: xs)
  case Nil
  then have "rtm s + total xs = rtm_end s" by (simp add: heap_links_def)
  then show ?case by (subst lfree_search.simps) simp
next
  case (Cons b ys)
  obtain n u where b: "b = (n, u)" by fastforce
  note f = block_fields [OF Cons.prems [unfolded b]]
  have ne: "rtm s + total xs \<noteq> rtm_end s"
    using f(4,5) heap_links_sizes [OF Cons.prems] by simp
  have nx: "ptr_to_mem s (total xs + n) = rtm s + (total xs + n)"
    by (rule ptr_to_mem_eq [OF Cons.prems f(4)])
  have IH: "lfree_search s (rtm s + (total xs + n)) = Some (rtm s + first_free (total xs + n) ys)"
    using Cons.IH [of "xs @ [b]"] Cons.prems by (simp add: b)
  show ?case by (subst lfree_search.simps) (simp add: f(1,3) ne nx IH b)
qed

text \<open>Rewriting the blocks behind \<open>xs\<close> leaves the heap linked.\<close>

lemma heap_links_tail:
  assumes "heap_links s (xs @ zs)" "heap_at m (rtm s) (last_off 0 0 xs) (total xs) zs'"
    and "blocks_ok zs'" "total zs' = total zs" "zs' \<noteq> []"
    and "\<And>a. a < rtm s + total xs \<Longrightarrow> m a = ram s a"
    and "m (rtm_end s + 4) = ram s (rtm_end s + 4)"
  shows "heap_links (s\<lparr>ram := m\<rparr>) (xs @ zs')"
proof -
  have "heap_at (ram s) (rtm s) 0 0 xs" "blocks_ok xs"
    using assms(1) by (simp_all add: heap_links_def heap_at_append)
  then have "heap_at m (rtm s) 0 0 xs" using assms(6) by (subst heap_at_frame) auto
  moreover have "mem_used (s\<lparr>ram := m\<rparr>) (rtm_end s) = 1"
    using heap_links_end [OF assms(1)] assms(7) by (simp add: mem_used_def)
  ultimately show ?thesis
    using assms(1-5) by (simp add: heap_links_def heap_at_append SIZE_ALIGNED_def)
qed

text \<open>The header writes of the code, as one update of the memory.\<close>

definition split_ram :: "nat \<Rightarrow> nat \<Rightarrow> nat \<Rightarrow> nat \<Rightarrow> nat \<Rightarrow> bool \<Rightarrow> (nat \<Rightarrow> u8) \<Rightarrow> nat \<Rightarrow> u8" where
  "split_ram r e off n1 n2 u m =
     relink r e (off + n1 + n2) (off + n1)
       ((wr16 (r + off) (off + n1)
          (wr16 (r + off + n1 + 2) off
            (wr16 (r + off + n1) (off + n1 + n2) (m(r + off + n1 + 4 := 0)))))
        (r + off + 4 := if u then 1 else 0))"

lemma split_ram_changed:
  assumes "split_ram r e off n1 n2 u m a \<noteq> m a"
  shows "a \<in> {r + off..<r + off + 5} \<union> {r + off + n1..<r + off + n1 + 5} \<or>
         off + n1 + n2 \<noteq> e \<and> a \<in> {r + off + n1 + n2..<r + off + n1 + n2 + 5}"
proof (rule ccontr)
  assume n: "\<not> ?thesis"
  have ne: "a \<noteq> r + off" "a \<noteq> r + off + 1" "a \<noteq> r + off + 4" "a \<noteq> r + off + n1"
    "a \<noteq> r + off + n1 + 1" "a \<noteq> r + off + n1 + 2" "a \<noteq> r + off + n1 + 2 + 1"
    "a \<noteq> r + off + n1 + 4"
    using n by auto
  have "off + n1 + n2 \<noteq> e \<Longrightarrow> a \<noteq> r + (off + n1 + n2) + 2 \<and> a \<noteq> r + (off + n1 + n2) + 2 + 1"
    using n by auto
  moreover have "((wr16 (r + off) (off + n1) (wr16 (r + off + n1 + 2) off
      (wr16 (r + off + n1) (off + n1 + n2) (m(r + off + n1 + 4 := 0)))))(r + off + 4 := w)) a = m a" for w
    using ne by (simp only: wr16_other fun_upd_other not_False_eq_True)
  ultimately have "split_ram r e off n1 n2 u m a = m a"
    unfolding split_ram_def relink_def by (cases "off + n1 + n2 = e") (simp_all only: wr16_other if_True if_False
      not_True_eq_False not_False_eq_True simp_thms)
  with assms show False by simp
qed

lemma split_links:
  assumes "heap_links s (xs @ zs)" "zs \<noteq> []" "total zs = n1 + n2 + total ys"
    and "heap_at (ram s) (rtm s) q (total xs + n1 + n2) ys"
    and "block_ok (n1, u1)" "block_ok (n2, False)" "blocks_ok ys"
  defines "m \<equiv> split_ram (rtm s) (SIZE_ALIGNED s) (total xs) n1 n2 u1 (ram s)"
  shows "heap_links (s\<lparr>ram := m\<rparr>) (xs @ (n1, u1) # (n2, False) # ys)"
    and "m a \<noteq> ram s a \<Longrightarrow> a \<in> hdrs (rtm s) (xs @ (n1, u1) # (n2, False) # ys)"
proof -
  have h: "rd16 (ram s) (rtm s + total xs + 2) = last_off 0 0 xs"
    using assms(1,2) by (cases zs) (simp_all add: heap_links_def heap_at_append)
  have ok: "blocks_ok ((n1, u1) # (n2, False) # ys)" "blocks_ok xs"
    and tot: "SIZE_ALIGNED s = total xs + n1 + n2 + total ys" "SIZE_ALIGNED s < 65536"
    using assms(1,3,5-7) by (simp_all add: heap_links_def)
  have new: "heap_at m (rtm s) (last_off 0 0 xs) (total xs) ((n1, u1) # (n2, False) # ys)"
    unfolding m_def split_ram_def by (rule heap_at_split [OF h assms(4) ok(1) tot refl refl])
  have ch: "a \<in> hdrs (rtm s) (xs @ (n1, u1) # (n2, False) # ys)" if "m a \<noteq> ram s a" for a
    using split_ram_changed [OF that [unfolded m_def]] tot
    by (cases ys) (auto simp: hdrs_append add.assoc)
  then show "m a \<noteq> ram s a \<Longrightarrow> a \<in> hdrs (rtm s) (xs @ (n1, u1) # (n2, False) # ys)" .
  have low: "m a = ram s a" if "a < rtm s + total xs" for a
    using split_ram_changed [of "rtm s" "SIZE_ALIGNED s" "total xs" n1 n2 u1 "ram s" a] that
    unfolding m_def by fastforce
  have "m (rtm_end s + 4) = ram s (rtm_end s + 4)"
    using ch [of "rtm_end s + 4"] hdrs_range [of "xs @ (n1, u1) # (n2, False) # ys" "rtm s"] ok tot
      heap_links_sizes(5) [OF assms(1)] by fastforce
  with heap_links_tail [OF assms(1) new ok(1)] low assms(3)
  show "heap_links (s\<lparr>ram := m\<rparr>) (xs @ (n1, u1) # (n2, False) # ys)" by simp
qed

lemma flag_links:
  fixes v :: bool
  assumes "heap_links s (xs @ (n, u) # ys)"
  defines "m \<equiv> (ram s)(rtm s + total xs + 4 := if v then 1 else 0)"
  shows "heap_links (s\<lparr>ram := m\<rparr>) (xs @ (n, v) # ys)"
    and "m a \<noteq> ram s a \<Longrightarrow> a \<in> hdrs (rtm s) (xs @ (n, v) # ys)"
proof -
  have h: "heap_at (ram s) (rtm s) (last_off 0 0 xs) (total xs) ((n, u) # ys)"
    and ok: "blocks_ok ((n, u) # ys)" "20 \<le> n" "total xs + n + total ys = SIZE_ALIGNED s"
    using assms(1) by (auto simp: heap_links_def heap_at_append block_ok_def)
  have new: "heap_at m (rtm s) (last_off 0 0 xs) (total xs) ((n, v) # ys)"
    unfolding m_def by (rule heap_at_flag [OF h ok(1)])
  have "m (rtm_end s + 4) = ram s (rtm_end s + 4)"
    using ok heap_links_sizes(5) [OF assms(1)] by (simp add: m_def)
  with heap_links_tail [OF assms(1) new] ok(1)
  show "heap_links (s\<lparr>ram := m\<rparr>) (xs @ (n, v) # ys)" by (simp add: m_def block_ok_def)
  show "m a \<noteq> ram s a \<Longrightarrow> a \<in> hdrs (rtm s) (xs @ (n, v) # ys)"
    by (auto simp: m_def hdrs_append split: if_splits)
qed

text \<open>What is left of a free block of length \<open>n\<close> after taking \<open>sz\<close> bytes of data from it.\<close>

definition taken :: "nat \<Rightarrow> nat \<Rightarrow> block list" where
  "taken sz n = (if sz + 28 \<le> n then [(sz + 8, True), (n - (sz + 8), False)] else [(n, True)])"

text \<open>The sequence of header writes that creates a block behind another, as the code performs it.\<close>

lemma split_writes:
  assumes "heap_links s bs" "off + n1 + n2 \<le> SIZE_ALIGNED s" "20 \<le> n1" "20 \<le> n2"
    and "s4 = link_block (rtm s + off) off (rtm s + off + n1) (off + n1) (off + n1 + n2) s"
    and "s5 = (if u then set_used (rtm s + off) 1 s4 else s4)"
    and "u \<or> mem_used s (rtm s + off) = (if u1 then 1 else 0)" "u \<longrightarrow> u1"
  shows "link_next (rtm s + off + n1) (off + n1) s5
       = s\<lparr>ram := split_ram (rtm s) (SIZE_ALIGNED s) off n1 n2 u1 (ram s)\<rparr>"
proof -
  note z = heap_links_sizes [OF assms(1)]
  let ?m = "wr16 (rtm s + off) (off + n1) (wr16 (rtm s + off + n1 + 2) off
       (wr16 (rtm s + off + n1) (off + n1 + n2) ((ram s)(rtm s + off + n1 + 4 := 0))))"
  have s4: "s4 = s\<lparr>ram := ?m\<rparr>"
    by (simp add: assms(5) link_block_def set_next_def set_prev_def set_used_def)
  have "s5 = s\<lparr>ram := ?m(rtm s + off + 4 := if u1 then 1 else 0)\<rparr>"
  proof (cases u)
    case True
    with assms(8) show ?thesis by (simp add: assms(6) s4 set_used_def)
  next
    case False
    have "?m (rtm s + off + 4) = (if u1 then 1 else 0)"
      using False assms(3,7) by (simp add: mem_used_def)
    with False show ?thesis by (simp add: assms(6) s4 fun_upd_idem)
  qed
  moreover have "rd16 (?m(rtm s + off + 4 := v)) (rtm s + off + n1) = off + n1 + n2" for v
    using assms(2,3) z(2) by simp
  moreover have "ptr_to_mem s (off + n1 + n2) = rtm s + (off + n1 + n2)"
    by (rule ptr_to_mem_eq [OF assms(1,2)])
  ultimately show ?thesis
    by (simp add: link_next_def mem_next_def SIZE_ALIGNED_def set_prev_def split_ram_def relink_def
        ptr_to_mem_def add.assoc)
qed

lemma take_block_frame [simp]:
  "rtm (take_block ptr sz s) = rtm s" "rtm_size (take_block ptr sz s) = rtm_size s"
  "rtm_end (take_block ptr sz s) = rtm_end s" "lfree (take_block ptr sz s) = lfree s"
  "alloc_fail_cnt (take_block ptr sz s) = alloc_fail_cnt s"
  "alloc_illegal_cnt (take_block ptr sz s) = alloc_illegal_cnt s"
  by (simp_all add: take_block_def link_block_def link_next_def Let_def)

lemma take_block_links:
  assumes "heap_links s (xs @ (n, False) # ys)" "sz + 8 \<le> n" "4 dvd sz" "12 \<le> sz"
  shows "heap_links (take_block (total xs) sz s) (xs @ taken sz n @ ys)"
    and "ram (take_block (total xs) sz s) a \<noteq> ram s a \<Longrightarrow> a \<in> hdrs (rtm s) (xs @ taken sz n @ ys)"
proof -
  note f = block_fields [OF assms(1)] and z = heap_links_sizes [OF assms(1)]
  have mem: "ptr_to_mem s (total xs) = rtm s + total xs"
    using f(4) by (intro ptr_to_mem_eq [OF assms(1)]) simp
  have d: "sub32 (total xs + n) (total xs + 8) = n - 8"
    using f(4,5) z by (simp add: sub32_eq)
  have "heap_links (take_block (total xs) sz s) (xs @ taken sz n @ ys) \<and>
    (ram (take_block (total xs) sz s) a \<noteq> ram s a \<longrightarrow> a \<in> hdrs (rtm s) (xs @ taken sz n @ ys))"
  proof (cases "sz + 28 \<le> n")
    case True
    let ?n1 = "sz + 8" and ?n2 = "n - (sz + 8)"
    have ok: "block_ok (?n1, True)" "block_ok (?n2, False)"
      using True assms(3,4) f(6) by (auto simp: block_ok_def)
    have n: "total xs + ?n1 + ?n2 = total xs + n" using True by simp
    have p2: "(total xs + 8 + sz) mod 65536 = total xs + ?n1"
      using True f(4) z(2) by simp
    have m2: "ptr_to_mem s (total xs + ?n1) = rtm s + total xs + ?n1"
      using True f(4) ptr_to_mem_eq [OF assms(1), of "total xs + ?n1"] by simp
    have nx: "mem_next (set_used (rtm s + total xs + ?n1) 0 s) (rtm s + total xs) = total xs + n"
      using f(1) by (simp add: mem_next_def set_used_def)
    have sw: "link_next (rtm s + total xs + ?n1) (total xs + ?n1) (set_used (rtm s + total xs) 1
        (link_block (rtm s + total xs) (total xs) (rtm s + total xs + ?n1) (total xs + ?n1) (total xs + n) s)) =
      s\<lparr>ram := split_ram (rtm s) (SIZE_ALIGNED s) (total xs) ?n1 ?n2 True (ram s)\<rparr>"
      using True f(4) assms(4)
      by (intro split_writes [OF assms(1), where u = True, OF _ _ _ refl]) (simp_all add: n)
    have eq: "take_block (total xs) sz s =
      s\<lparr>ram := split_ram (rtm s) (SIZE_ALIGNED s) (total xs) ?n1 ?n2 True (ram s)\<rparr>"
      using True
      by (simp add: take_block_def mem f(1) d p2 [simplified] m2 nx SIZEOF_STRUCT_RTM_MEM_def
          MIN_SIZE_ALIGNED_def Let_def sw)
    have tl: "heap_at (ram s) (rtm s) (total xs) (total xs + ?n1 + ?n2) ys"
      using assms(1) unfolding n by (simp add: heap_links_def heap_at_append)
    have "total ((n, False) # ys) = ?n1 + ?n2 + total ys" "blocks_ok ys"
      using True assms(1) by (simp_all add: heap_links_def)
    note sp = split_links [OF assms(1) _ this(1) tl ok this(2)]
    then show ?thesis using True unfolding eq by (simp add: taken_def)
  next
    case False
    then have "take_block (total xs) sz s = s\<lparr>ram := (ram s)(rtm s + total xs + 4 := if True then 1 else 0)\<rparr>"
      by (auto simp: take_block_def mem f(1) d SIZEOF_STRUCT_RTM_MEM_def MIN_SIZE_ALIGNED_def
          set_used_def Let_def)
    with flag_links [OF assms(1), where v = True] False show ?thesis by (simp add: taken_def)
  qed
  then show "heap_links (take_block (total xs) sz s) (xs @ taken sz n @ ys)"
    "ram (take_block (total xs) sz s) a \<noteq> ram s a \<Longrightarrow> a \<in> hdrs (rtm s) (xs @ taken sz n @ ys)"
    by blast+
qed

lemma block_size_props:
  assumes "size_in \<le> block_size size_in" "size_in < 2 ^ 16"
  shows "4 dvd block_size size_in" "12 \<le> block_size size_in" "block_size size_in < size_in + 16"
proof -
  have "LWIP_MEM_ALIGN_SIZE size_in = (size_in + 3) div 4 * 4"
    using assms(2) by (simp add: LWIP_MEM_ALIGN_SIZE_def)
  moreover have "4 dvd (a div 4 * 4) mod 65536" for a :: nat
    by (simp add: dvd_mod)
  ultimately show "4 dvd block_size size_in"
    by (simp add: block_size_def MIN_SIZE_ALIGNED_def Let_def)
  show "12 \<le> block_size size_in" by (simp add: block_size_def MIN_SIZE_ALIGNED_def Let_def)
  have "(size_in + 3) div 4 * 4 mod 65536 \<le> size_in + 3"
    by (rule order_trans [OF mod_less_eq_dividend]) simp
  then show "block_size size_in < size_in + 16"
    using \<open>LWIP_MEM_ALIGN_SIZE size_in = _\<close> by (simp add: block_size_def MIN_SIZE_ALIGNED_def Let_def)
qed

lemma heap_links_lfree [simp]: "heap_links (s\<lparr>lfree := l\<rparr>) bs = heap_links s bs"
  by (simp add: heap_links_def SIZE_ALIGNED_def mem_used_def)

lemma heap_links_counts [simp]:
  "heap_links (s\<lparr>alloc_fail_cnt := c\<rparr>) bs = heap_links s bs"
  "heap_links (s\<lparr>alloc_illegal_cnt := c\<rparr>) bs = heap_links s bs"
  by (simp_all add: heap_links_def SIZE_ALIGNED_def mem_used_def)

lemma heap_rel_counts [simp]:
  "heap_rel (s\<lparr>alloc_fail_cnt := c\<rparr>) bs = heap_rel s bs"
  "heap_rel (s\<lparr>alloc_illegal_cnt := c\<rparr>) bs = heap_rel s bs"
  "heap_rel (count_illegal s) bs = heap_rel s bs"
  by (simp_all add: heap_rel_def count_illegal_def)

lemma no_adj_taken:
  assumes "no_adj (xs @ (n, False) # ys)"
  shows "no_adj (xs @ taken sz n @ ys)"
  using assms by (cases ys) (auto simp: no_adj_append taken_def)

lemma scan_from_lfree:
  assumes "heap_rel s bs" "sz \<le> SIZE_ALIGNED s"
  shows "malloc_scan s sz (mem_to_ptr s (lfree s)) = Some (fit_off sz 0 bs)"
proof -
  note r = heap_relD [OF assms(1)]
  obtain xs ys where xy: "bs = xs @ ys" "\<forall>b \<in> set xs. snd b" "first_free 0 bs = total xs"
    by (rule first_free_split [of bs 0]) auto
  have "total xs \<le> SIZE_ALIGNED s" using r(1) xy(1) by (simp add: heap_links_def)
  then have "mem_to_ptr s (lfree s) = total xs"
    using mem_to_ptr_eq [OF r(1)] by (simp add: r(3) xy(3))
  then show ?thesis
    using malloc_scan_fit [OF r(1) [unfolded xy(1)] assms(2)] xy(1,2) by (simp add: fit_off_append_used)
qed

lemma first_free_lt:
  assumes "\<exists>b \<in> set xs. \<not> snd b" "blocks_ok xs"
  shows "first_free off xs < off + total xs"
  using assms
proof (induction xs arbitrary: off)
  case (Cons b xs)
  show ?case
  proof (cases "snd b")
    case True
    with Cons.prems have "first_free (off + fst b) xs < off + fst b + total xs" by (intro Cons.IH) auto
    with True show ?thesis by simp
  qed (use Cons.prems in \<open>auto simp: block_ok_def\<close>)
qed simp

lemma malloc_takes:
  assumes rel: "heap_rel s bs" and sz: "0 < size_in" "size_in < 2 ^ 16"
    and le: "block_size size_in \<le> SIZE_ALIGNED s" "size_in \<le> block_size size_in"
    and bs: "bs = xs @ (n, False) # ys" "block_size size_in + 8 \<le> n"
    and first: "\<forall>b \<in> set xs. \<not> fits (block_size size_in) b"
  shows "\<exists>s'. da16x_dpm_rtm_mem_malloc size_in s = Some (s', rtm s + total xs + 8) \<and>
      heap_rel s' (xs @ taken (block_size size_in) n @ ys) \<and> rtm s' = rtm s \<and> rtm_size s' = rtm_size s \<and>
      (\<forall>a. ram s' a \<noteq> ram s a \<longrightarrow> a \<in> hdrs (rtm s) (xs @ taken (block_size size_in) n @ ys))"
proof -
  let ?sz = "block_size size_in" let ?bs = "xs @ taken ?sz n @ ys"
  let ?s1 = "take_block (total xs) ?sz s"
  note r = heap_relD [OF rel] and p = block_size_props [OF le(2) sz(2)]
  note l = r(1) [unfolded bs(1)] and f = block_fields [OF r(1) [unfolded bs(1)]]
  note z = heap_links_sizes [OF r(1)]
  note t = take_block_links [OF l bs(2) p(1,2)]
  have fit: "fit_off ?sz off bs = Some (off + total xs)" for off
    using first unfolding bs(1) by (induction xs arbitrary: off) (use bs(2) in \<open>auto simp: fits_def\<close>)
  have mem: "ptr_to_mem s (total xs) = rtm s + total xs"
    using f(4) by (intro ptr_to_mem_eq [OF l]) simp
  have ret: "(rtm s + total xs + 8) mod 2 ^ 32 = rtm s + total xs + 8"
    using f(4,5) z by simp
  have adj: "no_adj ?bs" using r(2) bs(1) no_adj_taken by blast
  show ?thesis
  proof (cases "rtm s + total xs = lfree s")
    case True
    then have all: "\<forall>b \<in> set xs. snd b"
      using first_free_lt [of xs 0] l r(3) bs(1)
      by (auto simp: heap_links_def first_free_append split: if_splits)
    have "lfree_search ?s1 (lfree s) = Some (rtm s + first_free (total xs) (taken ?sz n @ ys))"
      using lfree_search_first [OF t(1)] by (simp add: True [symmetric])
    moreover have "first_free 0 ?bs = first_free (total xs) (taken ?sz n @ ys)"
      using all by (auto simp: first_free_append)
    ultimately show ?thesis
      using sz(1) le scan_from_lfree [OF rel le(1)] fit [of 0] mem ret t adj True
      by (simp add: da16x_dpm_rtm_mem_malloc_def heap_rel_def SIZEOF_STRUCT_RTM_MEM_def Let_def)
  next
    case False
    have "first_free 0 ?bs = first_free 0 bs"
      using False r(3) bs(1) by (auto simp: first_free_append split: if_splits)
    then show ?thesis
      using sz(1) le scan_from_lfree [OF rel le(1)] fit [of 0] mem ret t adj False r(3)
      by (simp add: da16x_dpm_rtm_mem_malloc_def heap_rel_def SIZEOF_STRUCT_RTM_MEM_def Let_def)
  qed
qed

lemma malloc_fails:
  assumes "heap_rel s bs" "0 < size_in" "block_size size_in \<le> SIZE_ALIGNED s" "size_in \<le> block_size size_in"
    and "\<forall>b \<in> set bs. \<not> fits (block_size size_in) b"
  shows "da16x_dpm_rtm_mem_malloc size_in s = Some (s\<lparr>alloc_fail_cnt := alloc_fail_cnt s + 1\<rparr>, 0)"
proof -
  have "fit_off (block_size size_in) 0 bs = None" using assms(5) by (simp add: fit_off_None)
  with scan_from_lfree [OF assms(1,3)] assms(2-4) show ?thesis
    by (simp add: da16x_dpm_rtm_mem_malloc_def Let_def)
qed

section \<open>Release\<close>

lemma link_back_relink:
  assumes "heap_links s bs" "nxt \<le> SIZE_ALIGNED s" "off \<le> SIZE_ALIGNED s"
  shows "link_back nxt (rtm s + off) (s\<lparr>ram := m\<rparr>) = s\<lparr>ram := relink (rtm s) (SIZE_ALIGNED s) nxt off m\<rparr>"
  using ptr_to_mem_eq [OF assms(1,2)] mem_to_ptr_eq [OF assms(1,3)]
  by (simp add: link_back_def relink_def set_prev_def SIZE_ALIGNED_def ptr_to_mem_def mem_to_ptr_def)

lemma merge_links:
  assumes "heap_links s (xs @ (n1, u1) # (n2, u2) # ys)"
  defines "m \<equiv> relink (rtm s) (SIZE_ALIGNED s) (total xs + n1 + n2) (total xs)
                (wr16 (rtm s + total xs) (total xs + n1 + n2) (ram s))"
  shows "heap_links (s\<lparr>ram := m\<rparr>) (xs @ (n1 + n2, u1) # ys)"
    and "m a \<noteq> ram s a \<Longrightarrow> a \<in> hdrs (rtm s) (xs @ (n1 + n2, u1) # ys)"
proof -
  have h: "heap_at (ram s) (rtm s) (last_off 0 0 xs) (total xs) ((n1, u1) # (n2, u2) # ys)"
    and ok: "blocks_ok ((n1, u1) # (n2, u2) # ys)" "blocks_ok xs"
    and tot: "SIZE_ALIGNED s = total xs + n1 + n2 + total ys" "SIZE_ALIGNED s < 65536"
    using assms(1) by (simp_all add: heap_links_def heap_at_append)
  have new: "heap_at m (rtm s) (last_off 0 0 xs) (total xs) ((n1 + n2, u1) # ys)"
    unfolding m_def by (rule heap_at_merge [OF h ok(1) tot])
  have ok': "blocks_ok ((n1 + n2, u1) # ys)" using ok by (auto simp: block_ok_def)
  have ch: "a \<in> hdrs (rtm s) (xs @ (n1 + n2, u1) # ys)" if "m a \<noteq> ram s a" for a
    using that tot
    by (cases ys) (auto simp: m_def hdrs_append relink_def wr16_def add.assoc split: if_splits)
  then show "m a \<noteq> ram s a \<Longrightarrow> a \<in> hdrs (rtm s) (xs @ (n1 + n2, u1) # ys)" .
  have low: "m a = ram s a" if "a < rtm s + total xs" for a
    using that by (simp add: m_def relink_def wr16_def)
  have "m (rtm_end s + 4) = ram s (rtm_end s + 4)"
    using ch [of "rtm_end s + 4"] hdrs_range [of "xs @ (n1 + n2, u1) # ys" "rtm s"] ok ok' tot
      heap_links_sizes(5) [OF assms(1)] by fastforce
  with heap_links_tail [OF assms(1) new ok'] low
  show "heap_links (s\<lparr>ram := m\<rparr>) (xs @ (n1 + n2, u1) # ys)" by simp
qed

text \<open>The blocks and the pointer to the lowest free one agree; free neighbours are still allowed.\<close>

definition heap_mid :: "rtm_heap \<Rightarrow> block list \<Rightarrow> bool" where
  "heap_mid s bs \<longleftrightarrow> heap_links s bs \<and> lfree s = rtm s + first_free 0 bs"

definition same_frame :: "rtm_heap \<Rightarrow> rtm_heap \<Rightarrow> bool" where
  "same_frame s t \<longleftrightarrow> rtm t = rtm s \<and> rtm_size t = rtm_size s \<and> rtm_end t = rtm_end s \<and>
     alloc_fail_cnt t = alloc_fail_cnt s \<and> alloc_illegal_cnt t = alloc_illegal_cnt s"

fun merge_fwd :: "nat \<Rightarrow> block list \<Rightarrow> block list" where
  "merge_fwd n ((k, False) # ys) = (n + k, False) # ys"
| "merge_fwd n ys = (n, False) # ys"

lemma merge_two:
  assumes "heap_mid s (xs @ (n1, False) # (n2, False) # ys)"
  defines "t \<equiv> absorb (rtm s + total xs) (rtm s + total xs + n1) s"
  shows "heap_mid t (xs @ (n1 + n2, False) # ys)" "same_frame s t"
    and "ram t a \<noteq> ram s a \<Longrightarrow> a \<in> hdrs (rtm s) (xs @ (n1 + n2, False) # ys)"
proof -
  have l: "heap_links s (xs @ (n1, False) # (n2, False) # ys)"
    and lf: "lfree s = rtm s + first_free 0 (xs @ (n1, False) # (n2, False) # ys)"
    using assms(1) by (simp_all add: heap_mid_def)
  note f1 = block_fields [OF l] and z = heap_links_sizes [OF l]
  have l': "heap_links s ((xs @ [(n1, False)]) @ (n2, False) # ys)" using l by simp
  note f2 = block_fields [OF l', simplified]
  have "first_free 0 (xs @ (n1, False) # (n2, False) # ys) \<le> total xs"
    using first_free_bounds [of 0 xs] by (auto simp: first_free_append)
  then have nl: "lfree s \<noteq> rtm s + total xs + n1" using lf f1(5) by simp
  let ?m = "wr16 (rtm s + total xs) (total xs + n1 + n2) (ram s)"
  have "set_next (rtm s + total xs) (mem_next s (rtm s + total xs + n1)) s = s\<lparr>ram := ?m\<rparr>"
    using f2(1) by (simp add: set_next_def add.assoc)
  moreover have "mem_next (s\<lparr>ram := ?m\<rparr>) (rtm s + total xs + n1) = total xs + n1 + n2"
    using f2(1) f1(5) by (simp add: mem_next_def add.assoc)
  ultimately have "t = link_back (total xs + n1 + n2) (rtm s + total xs) (s\<lparr>ram := ?m\<rparr>)"
    using nl by (simp add: t_def absorb_def Let_def)
  then have t: "t = s\<lparr>ram := relink (rtm s) (SIZE_ALIGNED s) (total xs + n1 + n2) (total xs) ?m\<rparr>"
    using link_back_relink [OF l] f2(4) f1(4) by (simp add: add.assoc)
  show "ram t a \<noteq> ram s a \<Longrightarrow> a \<in> hdrs (rtm s) (xs @ (n1 + n2, False) # ys)"
    using merge_links(2) [OF l, of a] by (simp add: t)
  show "same_frame s t" by (simp add: t same_frame_def)
  have "first_free 0 (xs @ (n1, False) # (n2, False) # ys) = first_free 0 (xs @ (n1 + n2, False) # ys)"
    by (simp add: first_free_append)
  then show "heap_mid t (xs @ (n1 + n2, False) # ys)"
    using merge_links(1) [OF l] lf by (simp add: t heap_mid_def)
qed

lemma same_frame_refl [simp]: "same_frame s s"
  by (simp add: same_frame_def)

lemma plug_forward_links:
  assumes "heap_mid s (xs @ (n, False) # ys)"
  defines "t \<equiv> plug_forward (rtm s + total xs) s"
  shows "heap_mid t (xs @ merge_fwd n ys)" "same_frame s t"
    and "ram t a \<noteq> ram s a \<Longrightarrow> a \<in> hdrs (rtm s) (xs @ merge_fwd n ys)"
proof -
  have l: "heap_links s (xs @ (n, False) # ys)" using assms(1) by (simp add: heap_mid_def)
  note f = block_fields [OF l] and z = heap_links_sizes [OF l]
  have nm: "ptr_to_mem s (mem_next s (rtm s + total xs)) = rtm s + total xs + n"
    using ptr_to_mem_eq [OF l f(4)] by (simp add: f(1))
  have ne: "rtm s + total xs \<noteq> rtm s + total xs + n" using f(5) by simp
  have "heap_mid t (xs @ merge_fwd n ys) \<and> same_frame s t \<and>
    (ram t a \<noteq> ram s a \<longrightarrow> a \<in> hdrs (rtm s) (xs @ merge_fwd n ys))"
  proof (cases "\<exists>k ys'. ys = (k, False) # ys'")
    case True
    then obtain k ys' where ys: "ys = (k, False) # ys'" by blast
    have l': "heap_links s ((xs @ [(n, False)]) @ (k, False) # ys')" using l ys by simp
    note f2 = block_fields [OF l', simplified]
    have "rtm s + total xs + n \<noteq> rtm_end s" using f2(4,5) z by simp
    then have "t = absorb (rtm s + total xs) (rtm s + total xs + n) s"
      using f2(3) ne unfolding t_def plug_forward_def Let_def nm by (simp only: simp_thms if_True add.assoc)
    with merge_two [OF assms(1) [unfolded ys]] show ?thesis by (simp add: ys)
  next
    case False
    have "mem_used s (rtm s + total xs + n) \<noteq> 0"
    proof (cases ys)
      case Nil
      then show ?thesis using f(8) heap_links_end [OF l] z by (simp add: add.assoc)
    next
      case (Cons b ys')
      with False obtain k where ys: "ys = (k, True) # ys'" by (cases b) auto
      then have "heap_links s ((xs @ [(n, False)]) @ (k, True) # ys')" using l by simp
      from block_fields(3) [OF this] show ?thesis by (simp add: add.assoc)
    qed
    then have "t = s" unfolding t_def plug_forward_def Let_def nm by simp
    moreover have "merge_fwd n ys = (n, False) # ys"
      using False by (cases "(n, ys)" rule: merge_fwd.cases) auto
    ultimately show ?thesis using assms(1) by simp
  qed
  then show "heap_mid t (xs @ merge_fwd n ys)" "same_frame s t"
    "ram t a \<noteq> ram s a \<Longrightarrow> a \<in> hdrs (rtm s) (xs @ merge_fwd n ys)" by blast+
qed

definition merge_bwd :: "block list \<Rightarrow> nat \<Rightarrow> block list \<Rightarrow> block list" where
  "merge_bwd xs n ys =
     (if xs \<noteq> [] \<and> \<not> snd (last xs) then butlast xs @ (fst (last xs) + n, False) # ys
      else xs @ (n, False) # ys)"

lemma plug_backward_links:
  assumes "heap_mid s (xs @ (n, False) # ys)"
  defines "t \<equiv> plug_backward (rtm s + total xs) s"
  shows "heap_mid t (merge_bwd xs n ys)" "same_frame s t"
    and "ram t a \<noteq> ram s a \<Longrightarrow> a \<in> hdrs (rtm s) (merge_bwd xs n ys)"
proof -
  have l: "heap_links s (xs @ (n, False) # ys)" using assms(1) by (simp add: heap_mid_def)
  note f = block_fields [OF l] and z = heap_links_sizes [OF l]
  have "heap_mid t (merge_bwd xs n ys) \<and> same_frame s t \<and>
    (ram t a \<noteq> ram s a \<longrightarrow> a \<in> hdrs (rtm s) (merge_bwd xs n ys))"
  proof (cases xs rule: rev_cases)
    case Nil
    have "ptr_to_mem s (mem_prev s (rtm s)) = rtm s"
      using f(2) ptr_to_mem_eq [OF l, of 0] by (simp add: Nil)
    then have "t = s" by (simp add: t_def plug_backward_def Nil)
    with assms(1) show ?thesis by (simp add: Nil merge_bwd_def)
  next
    case (snoc ws b)
    obtain j v where b: "b = (j, v)" by fastforce
    have l': "heap_links s (ws @ (j, v) # (n, False) # ys)" using l snoc b by simp
    note g = block_fields [OF l']
    have pm: "ptr_to_mem s (mem_prev s (rtm s + total xs)) = rtm s + total ws"
      using f(2) g(4) ptr_to_mem_eq [OF l', of "total ws"] by (simp add: snoc)
    have mem: "rtm s + total xs = rtm s + total ws + j" by (simp add: snoc b)
    have ne: "rtm s + total ws \<noteq> rtm s + total xs" using g(5) by (simp add: mem)
    show ?thesis
    proof (cases v)
      case True
      then have "t = s" using g(3) by (simp add: t_def plug_backward_def pm)
      with True assms(1) show ?thesis by (simp add: snoc b merge_bwd_def)
    next
      case False
      then have t: "t = absorb (rtm s + total ws) (rtm s + total ws + j) s"
        using ne g(3) unfolding t_def plug_backward_def Let_def pm unfolding mem by simp
      have "heap_mid s (ws @ (j, False) # (n, False) # ys)" using assms(1) snoc b False by simp
      from merge_two [OF this] False show ?thesis by (simp add: snoc b merge_bwd_def t)
    qed
  qed
  then show "heap_mid t (merge_bwd xs n ys)" "same_frame s t"
    "ram t a \<noteq> ram s a \<Longrightarrow> a \<in> hdrs (rtm s) (merge_bwd xs n ys)" by blast+
qed

definition release :: "block list \<Rightarrow> nat \<Rightarrow> block list \<Rightarrow> block list" where
  "release xs n ys = merge_bwd xs (fst (hd (merge_fwd n ys))) (tl (merge_fwd n ys))"

lemma merge_fwd_Cons: "merge_fwd n ys = (fst (hd (merge_fwd n ys)), False) # tl (merge_fwd n ys)"
  by (cases "(n, ys)" rule: merge_fwd.cases) auto

lemma link_valid_block:
  assumes "heap_links s (xs @ (n, u) # ys)"
  shows "da16x_dpm_rtm_mem_link_valid s (rtm s + total xs)"
proof -
  note f = block_fields [OF assms] and z = heap_links_sizes [OF assms]
  have ok: "blocks_ok xs" using assms by (simp add: heap_links_def)
  have idx: "mem_to_ptr s (rtm s + total xs) = total xs"
    using mem_to_ptr_eq [OF assms, of "total xs"] f(4) by simp
  have nm: "ptr_to_mem s (total xs + n) = rtm s + (total xs + n)" by (rule ptr_to_mem_eq [OF assms f(4)])
  have bk: "mem_prev s (rtm s + (total xs + n)) = total xs" if "rtm s + (total xs + n) \<noteq> rtm_end s"
  proof -
    from that f(8) z(5) obtain k v ys' where ys: "ys = (k, v) # ys'" by (cases ys) auto
    have "heap_links s ((xs @ [(n, u)]) @ (k, v) # ys')" using assms ys by simp
    from block_fields(2) [OF this] show ?thesis by simp
  qed
  have fw: "last_off 0 0 xs = total xs \<or> mem_next s (ptr_to_mem s (last_off 0 0 xs)) = total xs"
  proof (cases xs rule: rev_cases)
    case (snoc ws b)
    then have l: "heap_links s (ws @ (fst b, snd b) # (n, u) # ys)" using assms by simp
    from block_fields [OF l] ptr_to_mem_eq [OF l, of "total ws"] snoc show ?thesis by simp
  qed simp
  show ?thesis
    using f(4) last_off_le [OF ok] bk fw
    by (auto simp: da16x_dpm_rtm_mem_link_valid_def Let_def idx f(1,2) nm)
qed

lemma hdrs_merge_fwd: "hdrs a (merge_fwd n ys) \<subseteq> hdrs a ((n, u) # ys)"
  by (cases "(n, ys)" rule: merge_fwd.cases) (auto simp: add.assoc)

lemma hdrs_flag: "hdrs a ((n, u) # ys) = hdrs a ((n, v) # ys)"
  by simp

lemma hdrs_release: "hdrs a (release xs n ys) \<subseteq> hdrs a (xs @ (n, u) # ys)"
proof -
  obtain n' ys' where m: "merge_fwd n ys = (n', False) # ys'" by (metis merge_fwd_Cons)
  have "hdrs a (merge_bwd xs n' ys') \<subseteq> hdrs a (xs @ (n', False) # ys')"
    by (cases xs rule: rev_cases) (auto simp: merge_bwd_def hdrs_append add.assoc)
  also have "\<dots> \<subseteq> hdrs a (xs @ (n, u) # ys)"
    using hdrs_merge_fwd [of "a + total xs" n ys u] by (auto simp: hdrs_append m simp del: hdrs.simps)
  finally show ?thesis by (simp add: release_def m)
qed

lemma no_adj_release:
  assumes "no_adj (xs @ (n, True) # ys)"
  shows "no_adj (release xs n ys)"
proof -
  have "no_adj xs" "no_adj ys"
    using assms by (cases ys; simp add: no_adj_append)+
  then have m: "no_adj (tl (merge_fwd n ys))" "tl (merge_fwd n ys) \<noteq> [] \<Longrightarrow> snd (hd (tl (merge_fwd n ys)))"
    by (cases "(n, ys)" rule: merge_fwd.cases; cases "tl ys"; auto)+
  then show ?thesis
    using \<open>no_adj xs\<close>
    by (cases xs rule: rev_cases; cases "tl (merge_fwd n ys)")
      (auto simp: release_def merge_bwd_def no_adj_append)
qed

lemma free_releases:
  assumes rel: "heap_rel s (xs @ (n, True) # ys)"
  defines "t \<equiv> da16x_dpm_rtm_mem_free (rtm s + total xs + 8) s"
  shows "heap_rel t (release xs n ys)" "same_frame s t"
    and "ram t a \<noteq> ram s a \<Longrightarrow> a \<in> hdrs (rtm s) (xs @ (n, True) # ys)"
    and "ram t (rtm s + total xs + 4) = 0"
proof -
  let ?mem = "rtm s + total xs"
  note r = heap_relD [OF rel]
  note f = block_fields [OF r(1)] and z = heap_links_sizes [OF r(1)]
  have mem: "sub32 (?mem + 8) 8 = ?mem" using f(4,5) z by (subst sub32_eq) simp_all
  have al: "(?mem + 8) mod 4 = 0" using f(7) z(4) by (simp add: mod_eq_0_iff_dvd)
  have rng: "(?mem + 8 + 12) mod 2 ^ 32 \<le> rtm_end s" using f(4,5) z by simp
  let ?s1 = "set_used ?mem 0 s"
  let ?s2 = "if ?mem < lfree ?s1 then ?s1\<lparr>lfree := ?mem\<rparr> else ?s1"
  have s1: "?s1 = s\<lparr>ram := (ram s)(rtm s + total xs + 4 := if False then 1 else 0)\<rparr>"
    by (simp add: set_used_def)
  have l1: "heap_links ?s1 (xs @ (n, False) # ys)" unfolding s1 by (rule flag_links(1) [OF r(1)])
  have ff: "first_free 0 (xs @ (n, False) # ys) = min (first_free 0 (xs @ (n, True) # ys)) (total xs)"
    using first_free_bounds [of 0 xs] first_free_bounds [of "total xs + n" ys]
    by (auto simp: first_free_append)
  have mid: "heap_mid ?s2 (xs @ (n, False) # ys)"
    using l1 r(3) ff by (simp add: heap_mid_def)
  have t: "t = plug_backward ?mem (plug_forward ?mem ?s2)"
    using mem al rng f(3) z(3) link_valid_block [OF r(1)] unfolding t_def
    by (simp add: da16x_dpm_rtm_mem_free_def SIZEOF_STRUCT_RTM_MEM_def MIN_SIZE_ALIGNED_def Let_def
        da16x_dpm_rtm_mem_plug_holes_def)
  have fr2: "same_frame s ?s2" "ram ?s2 = (ram s)(?mem + 4 := 0)"
    by (simp_all add: same_frame_def set_used_def)
  obtain n' ys' where mf: "merge_fwd n ys = (n', False) # ys'" by (metis merge_fwd_Cons)
  let ?s3 = "plug_forward ?mem ?s2"
  have rtm2: "rtm ?s2 = rtm s" by simp
  note pf = plug_forward_links [OF mid, unfolded rtm2]
  have mid3: "heap_mid ?s3 (xs @ (n', False) # ys')" using pf(1) mf by simp
  have rtm3: "rtm ?s3 = rtm s" using pf(2) fr2 by (simp add: same_frame_def)
  note pb = plug_backward_links [OF mid3, unfolded rtm3]
  have rs: "release xs n ys = merge_bwd xs n' ys'" by (simp add: release_def mf)
  show "same_frame s t" using pf(2) pb(2) fr2(1) by (simp add: t same_frame_def)
  show "heap_rel t (release xs n ys)"
    using pb(1) no_adj_release [OF r(2)] by (simp add: t rs heap_rel_def heap_mid_def)
  have h3: "hdrs (rtm s) (xs @ merge_fwd n ys) \<subseteq> hdrs (rtm s) (xs @ (n, True) # ys)"
    using hdrs_merge_fwd [of "rtm s + total xs" n ys True] by (auto simp: hdrs_append simp del: hdrs.simps)
  have ch: "a \<in> hdrs (rtm s) (xs @ (n, True) # ys)" if "ram t a \<noteq> ram s a" for a
  proof (cases "ram t a = ram ?s3 a")
    case True
    then have "ram ?s3 a \<noteq> ram ?s2 a \<or> a = ?mem + 4" using that fr2(2) by (auto split: if_splits)
    then show ?thesis using pf(3) [of a] h3 by (auto simp: hdrs_append)
  next
    case False
    then have "a \<in> hdrs (rtm s) (release xs n ys)" using pb(3) [of a] by (simp add: t rs)
    then show ?thesis using hdrs_release by blast
  qed
  then show "ram t a \<noteq> ram s a \<Longrightarrow> a \<in> hdrs (rtm s) (xs @ (n, True) # ys)" .
  have u3: "ram ?s3 (?mem + 4) = 0"
    using mid3 rtm3 block_fields(3) [of ?s3 xs n' False ys'] by (simp add: heap_mid_def mem_used_def)
  show "ram t (rtm s + total xs + 4) = 0"
  proof (cases "xs \<noteq> [] \<and> \<not> snd (last xs)")
    case True
    then obtain ws j where ws: "xs = ws @ [(j, False)]" by (cases xs rule: rev_cases) auto
    have lk: "heap_links t (ws @ (j + n', False) # ys')"
      using pb(1) by (simp add: t heap_mid_def ws merge_bwd_def)
    have ok: "blocks_ok ws" "blocks_ok ys'" "20 \<le> n'" "20 \<le> j"
      using mid3 by (auto simp: heap_mid_def heap_links_def ws block_ok_def)
    have "?mem + 4 \<notin> hdrs (rtm s) (merge_bwd xs n' ys')"
      using hdrs_range [OF ok(1), of "rtm s"] hdrs_range [OF ok(2), of "rtm s + total xs + n'"] ok(3,4)
      by (auto simp: ws merge_bwd_def hdrs_append add.assoc)
    with pb(3) [of "?mem + 4"] have "ram t (?mem + 4) = ram ?s3 (?mem + 4)" unfolding t by blast
    with u3 show ?thesis by simp
  next
    case False
    have "heap_links t (xs @ (n', False) # ys')" using pb(1) False by (auto simp: t heap_mid_def merge_bwd_def)
    moreover have "rtm t = rtm s" using pb(2) rtm3 by (simp add: t same_frame_def)
    ultimately show ?thesis using block_fields(3) [of t xs n' False ys'] by (simp add: mem_used_def)
  qed
qed

end
