(* ===== verification/Rtm_Trim.thy ===== *)
theory Rtm_Trim
  imports Rtm_Heap
begin

text \<open>
  Trimming and calloc on lists of blocks, and the blocks in use as pointers and sizes: what each
  operation does to the set of live allocations and to their contents.
\<close>

section \<open>Trimming\<close>

definition trimmed :: "nat \<Rightarrow> nat \<Rightarrow> block list \<Rightarrow> block list" where
  "trimmed sz n ys =
     (if sz + 8 = n then (n, True) # ys
      else if ys \<noteq> [] \<and> \<not> snd (hd ys)
      then (sz + 8, True) # (n + fst (hd ys) - (sz + 8), False) # tl ys
      else if sz + 28 \<le> n then (sz + 8, True) # (n - (sz + 8), False) # ys
      else (n, True) # ys)"

lemma trim_split:
  assumes rel: "heap_links s (xs @ (n, True) # zs)" and sz: "12 \<le> sz" "4 dvd sz"
    and tot: "n + total zs = sz + 8 + n2 + total ys" and n2: "block_ok (n2, False)" and ok: "blocks_ok ys"
    and tl: "heap_at (ram s) (rtm s) q (total xs + (sz + 8) + n2) ys"
    and nxt: "nxt = total xs + (sz + 8) + n2"
  defines "t \<equiv> link_next (rtm s + total xs + (sz + 8)) (total xs + (sz + 8))
      (link_block (rtm s + total xs) (total xs) (rtm s + total xs + (sz + 8)) (total xs + (sz + 8)) nxt s)"
  shows "heap_links t (xs @ (sz + 8, True) # (n2, False) # ys)" "same_frame s t" "lfree t = lfree s"
    and "ram t a \<noteq> ram s a \<Longrightarrow> a \<in> hdrs (rtm s) (xs @ (sz + 8, True) # (n2, False) # ys)"
proof -
  have b1: "block_ok (sz + 8, True)" using sz by (auto simp: block_ok_def)
  have le: "total xs + (sz + 8) + n2 \<le> SIZE_ALIGNED s" using rel tot by (simp add: heap_links_def)
  have t: "t = s\<lparr>ram := split_ram (rtm s) (SIZE_ALIGNED s) (total xs) (sz + 8) n2 True (ram s)\<rparr>"
    unfolding t_def nxt using sz n2 block_fields(3) [OF rel]
    by (intro split_writes [OF rel le, where u = False, OF _ _ refl]) (simp_all add: block_ok_def)
  have "total ((n, True) # zs) = (sz + 8) + n2 + total ys" using tot by simp
  note sp = split_links [OF rel _ this tl b1 n2 ok]
  show "heap_links t (xs @ (sz + 8, True) # (n2, False) # ys)" unfolding t by (rule sp(1)) simp
  show "same_frame s t" "lfree t = lfree s" by (simp_all add: t same_frame_def)
  show "ram t a \<noteq> ram s a \<Longrightarrow> a \<in> hdrs (rtm s) (xs @ (sz + 8, True) # (n2, False) # ys)"
    using sp(2) [of a] by (simp add: t)
qed

lemma trim_unfold:
  assumes rel: "heap_links s (xs @ (n, True) # ys)"
    and sz: "sz = block_size new_size" "sz \<le> SIZE_ALIGNED s" "new_size \<le> sz" "sz + 8 \<le> n" "12 \<le> sz"
    and new2: "new2 = rtm s + total xs + (sz + 8)"
  shows "da16x_dpm_rtm_mem_trim (rtm s + total xs + 8) new_size s =
    (if sz + 8 = n then (s, rtm s + total xs + 8)
     else if mem_used s (rtm s + (total xs + n)) = 0
     then (let s1 = (if lfree s = rtm s + (total xs + n) then s\<lparr>lfree := new2\<rparr> else s)
           in (link_next new2 (total xs + (sz + 8)) (link_block (rtm s + total xs) (total xs) new2
                 (total xs + (sz + 8)) (mem_next s (rtm s + (total xs + n))) s1), rtm s + total xs + 8))
     else if sz + 28 \<le> n
     then (let s1 = (if new2 < lfree s then s\<lparr>lfree := new2\<rparr> else s)
           in (link_next new2 (total xs + (sz + 8)) (link_block (rtm s + total xs) (total xs) new2
                 (total xs + (sz + 8)) (total xs + n) s1), rtm s + total xs + 8))
     else (s, rtm s + total xs + 8))"
proof -
  note f = block_fields [OF rel] and z = heap_links_sizes [OF rel]
  have mem: "sub32 (rtm s + total xs + 8) 8 = rtm s + total xs" using f(4,5) z by (subst sub32_eq) simp_all
  have ptr: "mem_to_ptr s (rtm s + total xs) = total xs"
    using mem_to_ptr_eq [OF rel, of "total xs"] f(4) by simp
  have siz: "sub32 (sub32 (total xs + n) (total xs) mod 2 ^ 16) 8 mod 2 ^ 16 = n - 8"
    using f(4,5) z by (simp add: sub32_eq)
  have m2: "ptr_to_mem s (total xs + n) = rtm s + (total xs + n)" by (rule ptr_to_mem_eq [OF rel f(4)])
  have p2: "(total xs + 8 + sz) mod 2 ^ 16 = total xs + (sz + 8)" using sz(4) f(4) z(2) by simp
  have n2: "ptr_to_mem s (total xs + (sz + 8)) = new2"
    using ptr_to_mem_eq [OF rel, of "total xs + (sz + 8)"] sz(4) f(4) by (simp add: new2)
  have nx: "mem_next (set_used new2 0 s) (rtm s + total xs) = total xs + n"
    "mem_next (set_used new2 0 (s\<lparr>lfree := l\<rparr>)) (rtm s + total xs) = total xs + n" for l
    using f(1) sz(5) by (simp_all add: mem_next_def set_used_def new2)
  have rng: "rtm s \<le> rtm s + total xs + 8" "rtm s + total xs + 8 < rtm_end s" using f(4,5) z by simp_all
  have g: "\<not> (SIZE_ALIGNED s < sz \<or> sz < new_size)" "\<not> (rtm s + total xs + 8 < rtm s \<or> rtm_end s \<le> rtm s + total xs + 8)"
    "\<not> n - 8 < sz" "sz = n - 8 \<longleftrightarrow> sz + 8 = n" "sz + 8 + 12 \<le> n - 8 \<longleftrightarrow> sz + 28 \<le> n"
    using sz rng f(5) by auto
  show ?thesis
    unfolding da16x_dpm_rtm_mem_trim_def Let_def sz(1) [symmetric] SIZEOF_STRUCT_RTM_MEM_def
      MIN_SIZE_ALIGNED_def mem ptr f(1) siz m2 p2 n2
    by (simp only: g if_False if_True nx split: if_split) (auto simp: nx)
qed

lemma no_adj_trimmed:
  assumes "no_adj (xs @ (n, True) # ys)"
  shows "no_adj (xs @ trimmed sz n ys)"
  using assms by (cases ys; cases "tl ys") (auto simp: trimmed_def no_adj_append)

lemma next_used:
  assumes "heap_links s (xs @ (n, True) # ys)" "ys = [] \<or> snd (hd ys)"
  shows "mem_used s (rtm s + (total xs + n)) \<noteq> 0"
proof (cases ys)
  case Nil
  then show ?thesis
    using block_fields(8) [OF assms(1)] heap_links_end [OF assms(1)] heap_links_sizes [OF assms(1)] by simp
next
  case (Cons b ys')
  then have "heap_links s ((xs @ [(n, True)]) @ (fst b, True) # ys')" using assms by (cases b) simp
  from block_fields(3) [OF this] show ?thesis by simp
qed

lemma lfree_cond: "(if c then s\<lparr>lfree := l\<rparr> else s) = s\<lparr>lfree := if c then l else lfree s\<rparr>"
  by simp

lemma trim_result:
  assumes rel: "heap_links s (xs @ (n, True) # zs)" and sz: "12 \<le> sz" "4 dvd sz"
    and tot: "n + total zs = sz + 8 + n2 + total ys" and n2: "block_ok (n2, False)" and ok: "blocks_ok ys"
    and tl: "heap_at (ram s) (rtm s) q (total xs + (sz + 8) + n2) ys"
    and nxt: "nxt = total xs + (sz + 8) + n2"
    and bs: "bs = xs @ (sz + 8, True) # (n2, False) # ys" "no_adj bs" "l = rtm s + first_free 0 bs"
  defines "t \<equiv> link_next (rtm s + total xs + (sz + 8)) (total xs + (sz + 8))
      (link_block (rtm s + total xs) (total xs) (rtm s + total xs + (sz + 8)) (total xs + (sz + 8)) nxt
        (s\<lparr>lfree := l\<rparr>))"
  shows "heap_rel t bs \<and> same_frame s t \<and> (\<forall>a. ram t a \<noteq> ram s a \<longrightarrow> a \<in> hdrs (rtm s) bs)"
proof -
  have l1: "heap_links (s\<lparr>lfree := l\<rparr>) (xs @ (n, True) # zs)" using rel by simp
  have tl1: "heap_at (ram (s\<lparr>lfree := l\<rparr>)) (rtm (s\<lparr>lfree := l\<rparr>)) q (total xs + (sz + 8) + n2) ys"
    using tl by simp
  note ts = trim_split [OF l1 sz tot n2 ok tl1 nxt, simplified, folded t_def]
  have fr: "same_frame s t" using ts(2) by (simp add: same_frame_def)
  with ts(1,3) bs(2,3) have "heap_rel t bs" by (simp add: heap_rel_def same_frame_def bs(1))
  with fr ts(4) show ?thesis by (simp add: bs(1))
qed

lemma trim_trims:
  assumes rel: "heap_rel s (xs @ (n, True) # ys)" and new: "new_size < 2 ^ 16"
    and sz: "sz = block_size new_size" "sz \<le> SIZE_ALIGNED s" "new_size \<le> sz" "sz + 8 \<le> n"
  shows "\<exists>t. da16x_dpm_rtm_mem_trim (rtm s + total xs + 8) new_size s = (t, rtm s + total xs + 8) \<and>
           heap_rel t (xs @ trimmed sz n ys) \<and> same_frame s t \<and>
           (\<forall>a. ram t a \<noteq> ram s a \<longrightarrow> a \<in> hdrs (rtm s) (xs @ trimmed sz n ys))"
proof -
  note r = heap_relD [OF rel]
  note f = block_fields [OF r(1)] and z = heap_links_sizes [OF r(1)]
  have p: "4 dvd sz" "12 \<le> sz" using block_size_props [of new_size] sz(1,3) new by simp_all
  note un = trim_unfold [OF r(1) sz p(2) refl, unfolded lfree_cond]
  have ok: "blocks_ok ys" using r(1) by (simp add: heap_links_def)
  have adj: "no_adj (xs @ trimmed sz n ys)" by (rule no_adj_trimmed [OF r(2)])
  show ?thesis
  proof (cases "sz + 8 = n \<or> n < sz + 28 \<and> (ys = [] \<or> snd (hd ys))")
    case True
    then have "trimmed sz n ys = (n, True) # ys" by (auto simp: trimmed_def)
    moreover have "da16x_dpm_rtm_mem_trim (rtm s + total xs + 8) new_size s = (s, rtm s + total xs + 8)"
      using True next_used [OF r(1)] by (auto simp: un)
    ultimately show ?thesis using rel by simp
  next
    case False
    then have lt: "sz + 8 < n" using sz(4) by simp
    show ?thesis
    proof (cases "ys = [] \<or> snd (hd ys)")
      case True
      let ?n2 = "n - (sz + 8)"
      have tr: "trimmed sz n ys = (sz + 8, True) # (?n2, False) # ys" using True False by (auto simp: trimmed_def)
      have n2: "block_ok (?n2, False)" using f(6) p(1) True False by (auto simp: block_ok_def)
      have off: "total xs + n = total xs + (sz + 8) + ?n2" using lt by simp
      have tl: "heap_at (ram s) (rtm s) (total xs) (total xs + (sz + 8) + ?n2) ys"
        using r(1) unfolding off [symmetric] by (simp add: heap_links_def heap_at_append)
      have lf: "(if rtm s + total xs + (sz + 8) < lfree s then rtm s + total xs + (sz + 8) else lfree s) =
          rtm s + first_free 0 (xs @ trimmed sz n ys)"
        using r(3) lt first_free_bounds [of 0 xs] first_free_bounds [of "total xs + n" ys]
        unfolding tr by (auto simp: first_free_append)
      have "n + total ys = sz + 8 + ?n2 + total ys" using lt by simp
      from trim_result [OF r(1) p(2,1) this n2 ok tl off _ adj lf] tr
      show ?thesis using un next_used [OF r(1) True] True False lt by (simp add: Let_def)
    next
      case move: False
      then obtain k ys' where ys: "ys = (k, False) # ys'" by (cases ys) auto
      let ?n2 = "n + k - (sz + 8)"
      have tr: "trimmed sz n ys = (sz + 8, True) # (?n2, False) # ys'" using ys lt by (simp add: trimmed_def)
      have l': "heap_links s ((xs @ [(n, True)]) @ (k, False) # ys')" using r(1) ys by simp
      note f2 = block_fields [OF l', simplified]
      have n2: "block_ok (?n2, False)" using f2(5,6) f(6) p(1) lt by (auto simp: block_ok_def)
      have off: "total xs + n + k = total xs + (sz + 8) + ?n2" using lt by simp
      have tl: "heap_at (ram s) (rtm s) (total xs + n) (total xs + (sz + 8) + ?n2) ys'"
        using l' unfolding off [symmetric] by (simp add: heap_links_def heap_at_append)
      have nx: "mem_next s (rtm s + (total xs + n)) = total xs + (sz + 8) + ?n2"
        using f2(1) unfolding off [symmetric] by (simp add: add.assoc)
      have us: "mem_used s (rtm s + (total xs + n)) = 0" using f2(3) by (simp add: add.assoc)
      have lf: "(if lfree s = rtm s + (total xs + n) then rtm s + total xs + (sz + 8) else lfree s) =
          rtm s + first_free 0 (xs @ trimmed sz n ys)"
        using r(3) f(5) first_free_bounds [of 0 xs] unfolding tr by (auto simp: first_free_append ys)
      have "n + total ys = sz + 8 + ?n2 + total ys'" "blocks_ok ys'" using ys lt ok by simp_all
      from trim_result [OF r(1) p(2,1) this(1) n2 this(2) tl nx _ adj lf] tr
      show ?thesis using un us lt by (simp add: Let_def)
    qed
  qed
qed

end
