(* ===== verification/Rtm_Live.thy ===== *)
theory Rtm_Live
  imports Rtm_Trim
begin

text \<open>
  What a client of the retention heap relies on: the set of live allocations, their separation, and
  that no operation touches the contents of an allocation it was not asked to touch. The interface
  is the locale \<open>retention_heap\<close>; the allocator of the SDK is its instance \<open>rtm_impl\<close>.
\<close>

section \<open>Live allocations\<close>

text \<open>Data pointer and data size of every used block.\<close>

fun live :: "nat \<Rightarrow> block list \<Rightarrow> (nat \<times> nat) set" where
  "live a [] = {}"
| "live a (b # bs) = (if snd b then {(a + 8, fst b - 8)} else {}) \<union> live (a + fst b) bs"

lemma live_append: "live a (bs @ cs) = live a bs \<union> live (a + total bs) cs"
  by (induction bs arbitrary: a) (auto simp: add.assoc)

lemma live_split:
  assumes "(p, k) \<in> live a bs"
  obtains xs n ys where "bs = xs @ (n, True) # ys" "p = a + total xs + 8" "k = n - 8"
  using assms
proof (induction bs arbitrary: a thesis)
  case (Cons b bs)
  show ?case
  proof (cases "(p, k) \<in> live (a + fst b) bs")
    case True
    obtain xs n ys where "bs = xs @ (n, True) # ys" "p = a + fst b + total xs + 8" "k = n - 8"
      using Cons.IH [OF _ True] by blast
    with Cons.prems(1) [of "b # xs" n ys] show ?thesis by simp
  next
    case False
    with Cons.prems(2) have "snd b" "p = a + 8" "k = fst b - 8" by (auto split: if_splits)
    with Cons.prems(1) [of "[]" "fst b" bs] show ?thesis by (cases b) simp
  qed
qed simp

lemma live_memI: "bs = xs @ (n, True) # ys \<Longrightarrow> (a + total xs + 8, n - 8) \<in> live a bs"
  by (simp add: live_append)

lemma live_range:
  assumes "(p, k) \<in> live a bs" "blocks_ok bs"
  shows "a + 8 \<le> p \<and> p + k \<le> a + total bs \<and> 12 \<le> k"
proof -
  obtain xs n ys where "bs = xs @ (n, True) # ys" "p = a + total xs + 8" "k = n - 8"
    by (rule live_split [OF assms(1)])
  with assms(2) show ?thesis by (auto simp: block_ok_def)
qed

lemma live_disjoint:
  assumes "(p, k) \<in> live a bs" "(q, l) \<in> live a bs" "(p, k) \<noteq> (q, l)" "blocks_ok bs"
  shows "p + k + 8 \<le> q \<or> q + l + 8 \<le> p"
  using assms
proof (induction bs arbitrary: a)
  case (Cons b bs)
  have far: "a + fst b + 8 \<le> r" if "(r, m) \<in> live (a + fst b) bs" for r m
    using live_range [OF that] Cons.prems(4) by simp
  from Cons.prems show ?case
    using Cons.IH [of "a + fst b"] far by (auto simp: block_ok_def split: if_splits)
qed simp

lemma live_hdrs:
  assumes "(p, k) \<in> live a bs" "blocks_ok bs"
  shows "{p..<p + k} \<inter> hdrs a bs = {}"
proof -
  obtain xs n ys where bs: "bs = xs @ (n, True) # ys" "p = a + total xs + 8" "k = n - 8"
    by (rule live_split [OF assms(1)])
  have ok: "blocks_ok xs" "blocks_ok ys" "20 \<le> n" using assms(2) bs(1) by (auto simp: block_ok_def)
  from hdrs_range [OF ok(1), of a] hdrs_range [OF ok(2), of "a + total xs + n"] ok(3) show ?thesis
    by (auto simp: bs hdrs_append)
qed

lemma heap_at_unique:
  assumes "heap_at m r p off bs" "heap_at m r p off cs" "blocks_ok bs" "blocks_ok cs" "total bs = total cs"
  shows "bs = cs"
  using assms
proof (induction bs arbitrary: p off cs)
  case Nil
  then show ?case using total_0_iff [of cs] by simp
next
  case (Cons b bs)
  then have "cs \<noteq> []" by (auto simp: block_ok_def)
  then obtain c cs' where cs: "cs = c # cs'" by (cases cs) auto
  have "fst b = fst c" "snd b = snd c"
    using Cons.prems(1,2) cs by (auto split: if_splits)
  then have "b = c" by (simp add: prod_eq_iff)
  moreover have "bs = cs'" using Cons.IH [of off "off + fst b" cs'] Cons.prems cs \<open>b = c\<close> by simp
  ultimately show ?case using cs by simp
qed

lemma heap_rel_unique: "heap_rel s bs \<Longrightarrow> heap_rel s cs \<Longrightarrow> bs = cs"
  by (rule heap_at_unique [of "ram s" "rtm s" 0 0]) (auto simp: heap_rel_def heap_links_def)

definition heap_inv :: "rtm_heap \<Rightarrow> bool" where
  "heap_inv s \<longleftrightarrow> (\<exists>bs. heap_rel s bs)"

definition allocated :: "rtm_heap \<Rightarrow> (nat \<times> nat) set" where
  "allocated s = {x. \<exists>bs. heap_rel s bs \<and> x \<in> live (rtm s) bs}"

lemma allocated_eq: "heap_rel s bs \<Longrightarrow> allocated s = live (rtm s) bs"
  using heap_rel_unique by (auto simp: allocated_def)

lemma heap_rel_ok: "heap_rel s bs \<Longrightarrow> blocks_ok bs"
  by (simp add: heap_rel_def heap_links_def)

section \<open>Contents\<close>

text \<open>
  Two heaps agree on an allocation when no byte of it differs. An operation that writes only headers
  of blocks keeps every allocation that is live before and after.
\<close>

definition keeps :: "rtm_heap \<Rightarrow> rtm_heap \<Rightarrow> nat \<times> nat \<Rightarrow> bool" where
  "keeps s t x \<longleftrightarrow> (\<forall>a \<in> {fst x..<fst x + snd x}. ram t a = ram s a)"

lemma keeps_hdrs:
  assumes "x \<in> live r bs" "blocks_ok bs" "\<And>a. ram t a \<noteq> ram s a \<Longrightarrow> a \<in> hdrs r bs"
  shows "keeps s t x"
  using live_hdrs [of "fst x" "snd x" r bs] assms by (fastforce simp: keeps_def)

definition poke :: "nat \<Rightarrow> u8 \<Rightarrow> rtm_heap \<Rightarrow> rtm_heap" where
  "poke a v s = s\<lparr>ram := (ram s)(a := v)\<rparr>"

lemma heap_rel_data:
  assumes "heap_rel s bs" "\<And>a. m a \<noteq> ram s a \<Longrightarrow> \<exists>(p, k) \<in> live (rtm s) bs. a \<in> {p..<p + k}"
  shows "heap_rel (s\<lparr>ram := m\<rparr>) bs"
proof -
  note l = heap_relD(1) [OF assms(1)] and z = heap_links_sizes [OF heap_relD(1) [OF assms(1)]]
  have ok: "blocks_ok bs" "total bs = SIZE_ALIGNED s" using l by (simp_all add: heap_links_def)
  have out: "m a = ram s a" if "a \<in> hdrs (rtm s) bs \<or> rtm s + total bs \<le> a" for a
  proof (rule ccontr)
    assume "m a \<noteq> ram s a"
    then obtain p k where pk: "(p, k) \<in> live (rtm s) bs" "a \<in> {p..<p + k}" using assms(2) by blast
    from live_hdrs [OF pk(1) ok(1)] live_range [OF pk(1) ok(1)] pk(2) that show False by auto
  qed
  have "heap_at m (rtm s) 0 0 bs = heap_at (ram s) (rtm s) 0 0 bs" by (rule heap_at_cong) (simp add: out)
  moreover have "mem_used (s\<lparr>ram := m\<rparr>) (rtm_end s) = mem_used s (rtm_end s)"
    using out [of "rtm_end s + 4"] ok(2) z by (simp add: mem_used_def)
  ultimately show ?thesis
    using assms(1) heap_links_end [OF l] by (simp add: heap_rel_def heap_links_def SIZE_ALIGNED_def)
qed

section \<open>Operations on allocations\<close>

definition free_sizes :: "rtm_heap \<Rightarrow> nat set" where
  "free_sizes s = {k. \<exists>bs n. heap_rel s bs \<and> (n, False) \<in> set bs \<and> k = n - 8}"

lemma free_sizes_eq:
  assumes "heap_rel s bs"
  shows "free_sizes s = {k. \<exists>n. (n, False) \<in> set bs \<and> k = n - 8}"
proof -
  have "heap_rel s cs \<longleftrightarrow> cs = bs" for cs using assms heap_rel_unique [OF assms, of cs] by auto
  then show ?thesis by (simp add: free_sizes_def)
qed

lemma live_taken:
  "live a (taken sz n) = {(a + 8, if sz + 28 \<le> n then sz else n - 8)}"
  by (simp add: taken_def)

lemma total_taken: "sz + 8 \<le> n \<Longrightarrow> total (taken sz n) = n"
  by (simp add: taken_def)

lemma block_size_ge: "n \<le> 65532 \<Longrightarrow> n \<le> block_size n"
  by (simp add: block_size_def LWIP_MEM_ALIGN_SIZE_def MIN_SIZE_ALIGNED_def Let_def) arith

lemma block_size_wrap: "65532 < n \<Longrightarrow> n < 2 ^ 16 \<Longrightarrow> block_size n < n"
proof -
  assume "65532 < n" "n < 2 ^ 16"
  then have "n = 65533 \<or> n = 65534 \<or> n = 65535" by auto
  then show ?thesis
    by (auto simp: block_size_def LWIP_MEM_ALIGN_SIZE_def MIN_SIZE_ALIGNED_def)
qed

lemma malloc_spec:
  assumes inv: "heap_inv s" and n: "n < 2 ^ 16"
  shows "\<exists>s' p. da16x_dpm_rtm_mem_malloc n s = Some (s', p) \<and> heap_inv s' \<and> rtm s' = rtm s \<and>
    (p = 0 \<longrightarrow> allocated s' = allocated s \<and> ram s' = ram s \<and> lfree s' = lfree s \<and>
       (n = 0 \<or> 65532 < n \<or> (\<forall>k \<in> free_sizes s. k < block_size n))) \<and>
    (p \<noteq> 0 \<longrightarrow> 4 dvd p \<and> (\<exists>k \<ge> n. (p, k) \<notin> allocated s \<and> allocated s' = insert (p, k) (allocated s)) \<and>
       (\<forall>x \<in> allocated s. keeps s s' x))"
proof -
  obtain bs where rel: "heap_rel s bs" using inv by (auto simp: heap_inv_def)
  note r = heap_relD [OF rel] and z = heap_links_sizes [OF heap_relD(1) [OF rel]]
  have tot: "total bs = SIZE_ALIGNED s" using r(1) by (simp add: heap_links_def)
  show ?thesis
  proof (cases "n = 0 \<or> SIZE_ALIGNED s < block_size n \<or> block_size n < n")
    case True
    have "da16x_dpm_rtm_mem_malloc n s = Some (s, 0)"
      using True by (auto simp: da16x_dpm_rtm_mem_malloc_def Let_def)
    moreover have "\<forall>k \<in> free_sizes s. k < block_size n" if "SIZE_ALIGNED s < block_size n"
    proof
      fix k assume "k \<in> free_sizes s"
      then obtain m where m: "(m, False) \<in> set bs" "k = m - 8"
        by (auto simp: free_sizes_eq [OF rel])
      then have "m \<le> total bs" by (auto simp: total_def dest!: split_list)
      with m(2) that tot show "k < block_size n" by simp
    qed
    moreover have "65532 < n" if "block_size n < n" using block_size_ge [of n] that by (cases "n \<le> 65532") simp_all
    ultimately show ?thesis using inv True by auto
  next
    case False
    then have le: "0 < n" "block_size n \<le> SIZE_ALIGNED s" "n \<le> block_size n" by auto
    show ?thesis
    proof (cases "\<forall>b \<in> set bs. \<not> fits (block_size n) b")
      case True
      let ?t = "s\<lparr>alloc_fail_cnt := alloc_fail_cnt s + 1\<rparr>"
      have "heap_rel ?t bs" using rel by simp
      then have "heap_inv ?t" "allocated ?t = allocated s"
        using allocated_eq [OF rel] allocated_eq [of ?t bs] by (auto simp: heap_inv_def)
      moreover have "\<forall>k \<in> free_sizes s. k < block_size n"
      proof
        fix k assume "k \<in> free_sizes s"
        then obtain m where m: "(m, False) \<in> set bs" "k = m - 8"
          by (auto simp: free_sizes_eq [OF rel])
        have "20 \<le> m" using m(1) heap_rel_ok [OF rel] by (auto simp: blocks_ok_def block_ok_def)
        with True m show "k < block_size n" by (fastforce simp: fits_def)
      qed
      ultimately show ?thesis using malloc_fails [OF rel le True] by simp
    next
      case False
      then obtain q where "fit_off (block_size n) 0 bs = Some q" using fit_off_None by (metis not_Some_eq)
      then obtain xs m ys where bs: "bs = xs @ (m, False) # ys" "block_size n + 8 \<le> m"
        "\<forall>b \<in> set xs. \<not> fits (block_size n) b" by (rule fit_off_Some)
      let ?bs = "xs @ taken (block_size n) m @ ys"
      let ?p = "rtm s + total xs + 8" let ?k = "if block_size n + 28 \<le> m then block_size n else m - 8"
      obtain s' where s': "da16x_dpm_rtm_mem_malloc n s = Some (s', ?p)" "heap_rel s' ?bs" "rtm s' = rtm s"
        "\<forall>a. ram s' a \<noteq> ram s a \<longrightarrow> a \<in> hdrs (rtm s) ?bs"
        using malloc_takes [OF rel le(1) n le(2,3) bs] by blast
      have lv: "allocated s' = insert (?p, ?k) (allocated s)"
        using bs(2) by (simp add: allocated_eq [OF s'(2)] allocated_eq [OF rel] s'(3) bs(1) live_append
            live_taken total_taken add.assoc)
      have fresh: "(?p, ?k) \<notin> allocated s"
        using live_range [of ?p ?k "rtm s" xs] live_range [of ?p ?k "rtm s + total xs + m" ys]
          heap_rel_ok [OF rel] bs by (auto simp: allocated_eq [OF rel] live_append add.assoc block_ok_def)
      have "4 dvd ?p" using block_fields(7) [OF r(1) [unfolded bs(1)]] z(4) by simp
      moreover have "\<forall>x \<in> allocated s. keeps s s' x"
      proof
        fix x assume "x \<in> allocated s"
        then have "x \<in> live (rtm s) ?bs" using lv by (simp add: allocated_eq [OF s'(2)] s'(3))
        then show "keeps s s' x" using heap_rel_ok [OF s'(2)] by (rule keeps_hdrs) (use s'(4) in blast)
      qed
      moreover have "n \<le> ?k" using le(3) bs(2) by auto
      ultimately show ?thesis
        using s' lv fresh by (auto simp: heap_inv_def)
    qed
  qed
qed

lemma free_spec:
  assumes inv: "heap_inv s" and p: "(p, k) \<in> allocated s"
  defines "t \<equiv> da16x_dpm_rtm_mem_free p s"
  shows "heap_inv t" "allocated t = allocated s - {(p, k)}" "\<forall>x \<in> allocated s. keeps s t x"
    and "rtm t = rtm s" "alloc_illegal_cnt t = alloc_illegal_cnt s"
    and "da16x_dpm_rtm_mem_free p t = count_illegal t"
proof -
  obtain bs where rel: "heap_rel s bs" using inv by (auto simp: heap_inv_def)
  obtain xs n ys where bs: "bs = xs @ (n, True) # ys" "p = rtm s + total xs + 8" "k = n - 8"
    using p live_split [of p k "rtm s" bs] by (auto simp: allocated_eq [OF rel])
  note fr = free_releases [OF rel [unfolded bs(1)], folded bs(2) t_def]
  have ok: "blocks_ok bs" by (rule heap_rel_ok [OF rel])
  show "heap_inv t" using fr(1) by (auto simp: heap_inv_def)
  show rt: "rtm t = rtm s" and "alloc_illegal_cnt t = alloc_illegal_cnt s"
    using fr(2) by (simp_all add: same_frame_def)
  have lf: "live a (merge_fwd n ys) = live (a + n) ys" for a
    by (cases "(n, ys)" rule: merge_fwd.cases) (auto simp: add.assoc)
  have "live a (release xs n ys) = live a xs \<union> live (a + total xs + n) ys" for a
  proof -
    obtain n' ys' where m: "merge_fwd n ys = (n', False) # ys'" by (metis merge_fwd_Cons)
    have "live a (merge_bwd xs n' ys') = live a (xs @ (n', False) # ys')"
      by (cases xs rule: rev_cases) (auto simp: merge_bwd_def live_append add.assoc)
    then show ?thesis using lf [of "a + total xs"] by (simp add: release_def m live_append)
  qed
  moreover have "(p, k) \<notin> live (rtm s) xs" "(p, k) \<notin> live (rtm s + total xs + n) ys"
    using live_range [of p k "rtm s" xs] live_range [of p k "rtm s + total xs + n" ys] ok bs
    by (auto simp: block_ok_def)
  ultimately show "allocated t = allocated s - {(p, k)}"
    using bs rt by (auto simp: allocated_eq [OF rel] allocated_eq [OF fr(1)] live_append)
  show "\<forall>x \<in> allocated s. keeps s t x"
  proof
    fix x assume "x \<in> allocated s"
    then have "x \<in> live (rtm s) bs" by (simp add: allocated_eq [OF rel])
    then show "keeps s t x" using ok by (rule keeps_hdrs) (use fr(3) bs(1) in simp)
  qed
  note z = heap_links_sizes [OF heap_relD(1) [OF rel]] and f = block_fields [OF heap_relD(1) [OF rel [unfolded bs(1)]]]
  have mem: "sub32 p 8 = rtm s + total xs" using f(4,5) z unfolding bs(2) by (subst sub32_eq) simp_all
  have "mem_used t (sub32 p 8) = 0" using fr(4) by (simp add: mem mem_used_def)
  moreover have "p \<noteq> 0" by (simp add: bs(2))
  ultimately show "da16x_dpm_rtm_mem_free p t = count_illegal t"
    by (simp add: da16x_dpm_rtm_mem_free_def SIZEOF_STRUCT_RTM_MEM_def Let_def)
qed

lemma poke_spec:
  assumes "heap_inv s" "(p, k) \<in> allocated s" "p \<le> a" "a < p + k"
  shows "heap_inv (poke a v s)" "allocated (poke a v s) = allocated s"
proof -
  obtain bs where rel: "heap_rel s bs" using assms(1) by (auto simp: heap_inv_def)
  have "heap_rel (poke a v s) bs"
    unfolding poke_def using assms(2-4)
    by (intro heap_rel_data [OF rel]) (fastforce simp: allocated_eq [OF rel] split: if_splits)
  then show "heap_inv (poke a v s)" "allocated (poke a v s) = allocated s"
    using allocated_eq [OF rel] allocated_eq [of "poke a v s" bs] by (auto simp: heap_inv_def poke_def)
qed

lemma allocated_disjoint:
  assumes "heap_inv s" "(p, k) \<in> allocated s" "(q, l) \<in> allocated s" "(p, k) \<noteq> (q, l)"
  shows "p + k + 8 \<le> q \<or> q + l + 8 \<le> p"
  using assms live_disjoint heap_rel_ok by (fastforce simp: heap_inv_def allocated_def dest: heap_rel_unique)

lemma allocated_range:
  assumes "heap_inv s" "(p, k) \<in> allocated s"
  shows "rtm s + 8 \<le> p \<and> p + k \<le> rtm s + SIZE_ALIGNED s \<and> 12 \<le> k \<and> p + k < 2 ^ 32"
proof -
  obtain bs where rel: "heap_rel s bs" using assms(1) by (auto simp: heap_inv_def)
  have "total bs = SIZE_ALIGNED s" using rel by (simp add: heap_rel_def heap_links_def)
  with live_range [of p k "rtm s" bs] assms(2) heap_rel_ok [OF rel]
    heap_links_sizes(1) [OF heap_relD(1) [OF rel]] show ?thesis
    by (auto simp: allocated_eq [OF rel])
qed

section \<open>The interface of a heap\<close>

text \<open>
  What a client may use: an invariant, the live allocations, reading and writing one byte, and the
  two operations.
\<close>

datatype heap_req = Alloc nat | Free nat | Write nat u8

locale retention_heap =
  fixes inv :: "'h \<Rightarrow> bool"
    and allocs :: "'h \<Rightarrow> (nat \<times> nat) set"
    and peek :: "'h \<Rightarrow> nat \<Rightarrow> u8"
    and put :: "nat \<Rightarrow> u8 \<Rightarrow> 'h \<Rightarrow> 'h"
    and alloc :: "nat \<Rightarrow> 'h \<Rightarrow> ('h \<times> nat) option"
    and dealloc :: "nat \<Rightarrow> 'h \<Rightarrow> 'h"
  assumes separate: "inv h \<Longrightarrow> (p, k) \<in> allocs h \<Longrightarrow> (q, l) \<in> allocs h \<Longrightarrow> (p, k) \<noteq> (q, l) \<Longrightarrow>
      p + k \<le> q \<or> q + l \<le> p"
    and nonempty: "inv h \<Longrightarrow> (p, k) \<in> allocs h \<Longrightarrow> 0 < p \<and> 0 < k"
    and put_inv: "inv h \<Longrightarrow> (p, k) \<in> allocs h \<Longrightarrow> p \<le> a \<Longrightarrow> a < p + k \<Longrightarrow>
      inv (put a v h) \<and> allocs (put a v h) = allocs h"
    and peek_put: "peek (put a v h) = (peek h)(a := v)"
    and alloc_returns: "inv h \<Longrightarrow> n < 2 ^ 16 \<Longrightarrow> \<exists>h' p. alloc n h = Some (h', p)"
    and alloc_inv: "inv h \<Longrightarrow> n < 2 ^ 16 \<Longrightarrow> alloc n h = Some (h', p) \<Longrightarrow> inv h'"
    and alloc_none: "inv h \<Longrightarrow> n < 2 ^ 16 \<Longrightarrow> alloc n h = Some (h', 0) \<Longrightarrow> allocs h' = allocs h"
    and alloc_some: "inv h \<Longrightarrow> n < 2 ^ 16 \<Longrightarrow> alloc n h = Some (h', p) \<Longrightarrow> p \<noteq> 0 \<Longrightarrow>
      \<exists>k \<ge> n. (p, k) \<notin> allocs h \<and> allocs h' = insert (p, k) (allocs h)"
    and alloc_keeps: "inv h \<Longrightarrow> n < 2 ^ 16 \<Longrightarrow> alloc n h = Some (h', p) \<Longrightarrow> (q, l) \<in> allocs h \<Longrightarrow>
      q \<le> a \<Longrightarrow> a < q + l \<Longrightarrow> peek h' a = peek h a"
    and dealloc_inv: "inv h \<Longrightarrow> (p, k) \<in> allocs h \<Longrightarrow>
      inv (dealloc p h) \<and> allocs (dealloc p h) = allocs h - {(p, k)}"
    and dealloc_keeps: "inv h \<Longrightarrow> (p, k) \<in> allocs h \<Longrightarrow> (q, l) \<in> allocs h \<Longrightarrow> q \<le> a \<Longrightarrow> a < q + l \<Longrightarrow>
      peek (dealloc p h) a = peek h a"
begin

text \<open>
  A client's view: its requests, and the heap after each of them. \<open>None\<close> when an allocation does not
  return.
\<close>

fun run :: "heap_req list \<Rightarrow> 'h \<Rightarrow> 'h option" where
  "run [] h = Some h"
| "run (Alloc n # rs) h = (case alloc n h of None \<Rightarrow> None | Some (h', p) \<Rightarrow> run rs h')"
| "run (Free p # rs) h = run rs (dealloc p h)"
| "run (Write a v # rs) h = run rs (put a v h)"

text \<open>Requests of other clients: they never free or write an allocation that is not theirs.\<close>

fun others :: "nat \<times> nat \<Rightarrow> heap_req list \<Rightarrow> 'h \<Rightarrow> bool" where
  "others x [] h \<longleftrightarrow> True"
| "others x (Alloc n # rs) h \<longleftrightarrow>
     n < 2 ^ 16 \<and> (case alloc n h of None \<Rightarrow> True | Some (h', p) \<Rightarrow> others x rs h')"
| "others x (Free p # rs) h \<longleftrightarrow> (\<exists>k. (p, k) \<in> allocs h - {x}) \<and> others x rs (dealloc p h)"
| "others x (Write a v # rs) h \<longleftrightarrow>
     (\<exists>p k. (p, k) \<in> allocs h - {x} \<and> p \<le> a \<and> a < p + k) \<and> others x rs (put a v h)"

lemma others_keep:
  assumes "inv h" "x \<in> allocs h" "others x rs h"
  shows "\<exists>h'. run rs h = Some h' \<and> inv h' \<and> x \<in> allocs h' \<and>
           (\<forall>a. fst x \<le> a \<longrightarrow> a < fst x + snd x \<longrightarrow> peek h' a = peek h a)"
  using assms
proof (induction x rs h rule: others.induct)
  case (2 x n rs h)
  then obtain h1 p where al: "alloc n h = Some (h1, p)" and n: "n < 2 ^ 16"
    using alloc_returns by fastforce
  have i1: "inv h1" by (rule alloc_inv [OF 2(2) n al])
  have x1: "x \<in> allocs h1"
    using alloc_none [OF 2(2) n] alloc_some [OF 2(2) n al] al 2(3) by (cases "p = 0") auto
  have "\<forall>a. fst x \<le> a \<longrightarrow> a < fst x + snd x \<longrightarrow> peek h1 a = peek h a"
    using alloc_keeps [OF 2(2) n al, of "fst x" "snd x"] 2(3) by simp
  moreover have "others x rs h1" using 2(4) al by simp
  ultimately show ?case using 2(1) [OF al refl i1 x1] al by auto
next
  case (3 x p rs h)
  then obtain k where k: "(p, k) \<in> allocs h" "(p, k) \<noteq> x" by auto
  have "\<forall>a. fst x \<le> a \<longrightarrow> a < fst x + snd x \<longrightarrow> peek (dealloc p h) a = peek h a"
    using dealloc_keeps [OF 3(2) k(1), of "fst x" "snd x"] 3(3) by simp
  moreover have "inv (dealloc p h)" "x \<in> allocs (dealloc p h)"
    using dealloc_inv [OF 3(2) k(1)] k(2) 3(3) by auto
  ultimately show ?case using 3 by auto
next
  case (4 x a v rs h)
  then obtain p k where k: "(p, k) \<in> allocs h" "(p, k) \<noteq> x" "p \<le> a" "a < p + k" by auto
  have "\<not> (fst x \<le> a \<and> a < fst x + snd x)"
    using separate [OF 4(2) k(1), of "fst x" "snd x"] 4(3) k by auto
  then have "\<forall>b. fst x \<le> b \<longrightarrow> b < fst x + snd x \<longrightarrow> peek (put a v h) b = peek h b"
    by (auto simp: peek_put)
  moreover have "inv (put a v h)" "x \<in> allocs (put a v h)"
    using put_inv [OF 4(2) k(1,3,4)] 4(3) by auto
  ultimately show ?case using 4 by auto
qed simp

end

interpretation rtm_impl: retention_heap heap_inv allocated ram poke da16x_dpm_rtm_mem_malloc
  da16x_dpm_rtm_mem_free
proof
  fix h h' :: rtm_heap and n p :: nat
  assume a: "heap_inv h" "n < 2 ^ 16"
  note m = malloc_spec [OF a]
  show "\<exists>h' p. da16x_dpm_rtm_mem_malloc n h = Some (h', p)" using m by blast
  {
    assume b: "da16x_dpm_rtm_mem_malloc n h = Some (h', p)"
    show "heap_inv h'" using m b by auto
    { assume "p \<noteq> 0"
      then show "\<exists>k \<ge> n. (p, k) \<notin> allocated h \<and> allocated h' = insert (p, k) (allocated h)"
        using m b by auto }
    { fix q l a assume "(q, l) \<in> allocated h" "q \<le> a" "a < q + l"
      then show "ram h' a = ram h a" using m b by (cases "p = 0") (fastforce simp: keeps_def)+ }
  }
  assume "da16x_dpm_rtm_mem_malloc n h = Some (h', 0)"
  then show "allocated h' = allocated h" using m by auto
next
  fix h :: rtm_heap and p k q l :: nat
  assume a: "heap_inv h" "(p, k) \<in> allocated h"
  show "0 < p \<and> 0 < k" using allocated_range [OF a] by auto
  show "heap_inv (da16x_dpm_rtm_mem_free p h) \<and>
    allocated (da16x_dpm_rtm_mem_free p h) = allocated h - {(p, k)}"
    using free_spec(1,2) [OF a] by simp
  { fix v b assume "p \<le> b" "b < p + k"
    then show "heap_inv (poke b v h) \<and> allocated (poke b v h) = allocated h"
      using poke_spec [OF a] by simp }
  assume b: "(q, l) \<in> allocated h"
  { assume "(p, k) \<noteq> (q, l)"
    then show "p + k \<le> q \<or> q + l \<le> p" using allocated_disjoint [OF a b] by auto }
  { fix c assume "q \<le> c" "c < q + l"
    then show "ram (da16x_dpm_rtm_mem_free p h) c = ram h c"
      using free_spec(3) [OF a] b by (fastforce simp: keeps_def) }
qed (simp add: poke_def)

end
