(* ===== verification/Rtm_Props.thy ===== *)
theory Rtm_Props
  imports Rtm_Live
begin

text \<open>
  The guarantees of the retention heap: initialisation and recovery after sleep, allocation,
  release, trimming, zeroed allocation, isolation of clients, and the status walk.
\<close>

section \<open>Initialisation\<close>

lemma align4: "n + 3 < 2 ^ 32 \<Longrightarrow> 4 dvd n \<Longrightarrow> LWIP_MEM_ALIGN_SIZE n = n"
  by (auto simp: LWIP_MEM_ALIGN_SIZE_def elim!: dvdE)

lemma set_rtm_end_state:
  assumes "rtm s + SIZE_ALIGNED s + 8 \<le> 2 ^ 32" "SIZE_ALIGNED s < 2 ^ 16"
  defines "t \<equiv> set_rtm_end s"
  shows "rtm t = rtm s" "rtm_size t = rtm_size s" "rtm_end t = rtm s + SIZE_ALIGNED s"
    and "mem_used t (rtm s + SIZE_ALIGNED s) = 1" "\<And>a. a < rtm s + SIZE_ALIGNED s \<Longrightarrow> ram t a = ram s a"
proof -
  have e: "ptr_to_mem s (SIZE_ALIGNED s) = rtm s + SIZE_ALIGNED s" using assms(1,2) by (simp add: ptr_to_mem_def)
  show "rtm t = rtm s" "rtm_size t = rtm_size s" "rtm_end t = rtm s + SIZE_ALIGNED s"
    "mem_used t (rtm s + SIZE_ALIGNED s) = 1" "\<And>a. a < rtm s + SIZE_ALIGNED s \<Longrightarrow> ram t a = ram s a"
    by (simp_all add: t_def set_rtm_end_def Let_def e mem_used_def set_next_def set_prev_def set_used_def)
qed

lemma init_rel:
  fixes s :: rtm_heap
  assumes "0 < mem_ptr" "4 dvd mem_ptr" "4 dvd mem_len" "28 \<le> mem_len" "mem_len < 2 ^ 16"
    and "mem_ptr + mem_len \<le> 2 ^ 32"
  defines "t \<equiv> da16x_dpm_rtm_mem_init mem_ptr mem_len s"
  shows "heap_rel t [(mem_len - 8, False)]" "rtm t = mem_ptr" "rtm_end t + 8 = mem_ptr + mem_len"
proof -
  let ?s1 = "heap_bounds mem_ptr mem_len s"
  have d: "4 dvd mem_len - 8" using assms(3) by (intro dvd_diff_nat) simp_all
  have sub: "sub32 mem_len 8 = mem_len - 8" using assms(4,5) by (subst sub32_eq) simp_all
  have b: "rtm ?s1 = mem_ptr" "rtm_size ?s1 = mem_len - 8"
    using assms(2,4-6) by (auto simp: heap_bounds_def SIZEOF_STRUCT_RTM_MEM_def sub elim!: dvdE)
  have sz: "SIZE_ALIGNED ?s1 = mem_len - 8"
    using align4 [OF _ d] assms(5) by (simp add: SIZE_ALIGNED_def b)
  let ?s2 = "set_used mem_ptr 0 (set_prev mem_ptr 0 (set_next mem_ptr (mem_len - 8) ?s1))"
  have b2: "rtm ?s2 = mem_ptr" "SIZE_ALIGNED ?s2 = mem_len - 8"
    using b sz by (simp_all add: SIZE_ALIGNED_def)
  have "rtm ?s2 + SIZE_ALIGNED ?s2 + 8 \<le> 2 ^ 32" "SIZE_ALIGNED ?s2 < 2 ^ 16" unfolding b2 using assms(4-6) by simp_all
  note e = set_rtm_end_state [OF this, unfolded b2]
  have t: "t = (set_rtm_end ?s2)\<lparr>lfree := mem_ptr\<rparr>"
    using e(1) by (simp add: t_def da16x_dpm_rtm_mem_init_def Let_def b sz)
  have r2: "ram ?s2 = (wr16 (mem_ptr + 2) 0 (wr16 mem_ptr (mem_len - 8) (ram ?s1)))(mem_ptr + 4 := 0)"
    by (simp add: set_used_def set_next_def set_prev_def)
  have eq: "ram t (mem_ptr + k) = ram ?s2 (mem_ptr + k)" if "k < 5" for k
    using e(5) [of "mem_ptr + k"] assms(4) that by (simp add: t)
  have "heap_at (ram t) mem_ptr 0 0 [(mem_len - 8, False)] = heap_at (ram ?s2) mem_ptr 0 0 [(mem_len - 8, False)]"
    by (rule heap_at_cong) (use eq in \<open>auto simp: le_iff_add\<close>)
  moreover have "heap_at (ram ?s2) mem_ptr 0 0 [(mem_len - 8, False)]"
    using assms(5) unfolding r2 by simp
  moreover have "SIZE_ALIGNED t = mem_len - 8" using b2(2) e(2) by (simp add: t SIZE_ALIGNED_def)
  moreover show rt: "rtm t = mem_ptr" and re: "rtm_end t + 8 = mem_ptr + mem_len"
    using e assms(4) by (simp_all add: t)
  moreover have "mem_used t (rtm_end t) = 1" "rtm_end t = mem_ptr + (mem_len - 8)" "lfree t = mem_ptr"
    using e by (simp_all add: t mem_used_def)
  moreover have "block_ok (mem_len - 8, False)" using d assms(4) by (simp add: block_ok_def)
  ultimately show "heap_rel t [(mem_len - 8, False)]"
    using assms(1,2,5,6) unfolding heap_rel_def heap_links_def by simp
qed

definition zero_heap :: rtm_heap where
  "zero_heap = \<lparr>rtm = 0, rtm_size = 0, rtm_end = 0, lfree = 0, ram = (\<lambda>a. 0), alloc_fail_cnt = 0,
     alloc_illegal_cnt = 0\<rparr>"

definition demo_heap :: rtm_heap where
  "demo_heap = da16x_dpm_rtm_mem_init 4096 136 zero_heap"

lemma demo_heap_rel: "heap_rel demo_heap [(128, False)]" "rtm demo_heap = 4096"
  using init_rel [of 4096 136 zero_heap] by (simp_all add: demo_heap_def)

lemma demo_heap_inv: "heap_inv demo_heap" "allocated demo_heap = {}"
  using demo_heap_rel allocated_eq by (auto simp: heap_inv_def)

text \<open>
  Initialising the heap on an aligned region gives a consistent heap with nothing allocated and
  one free block of all the memory but the two headers, and the end marker ends exactly where the
  region ends.
\<close>

theorem heap_init_correct:
  assumes "0 < mem_ptr" "4 dvd mem_ptr" "4 dvd mem_len" "28 \<le> mem_len" "mem_len < 2 ^ 16"
    and "mem_ptr + mem_len \<le> 2 ^ 32"
  shows "let t = da16x_dpm_rtm_mem_init mem_ptr mem_len s in
     heap_inv t \<and> allocated t = {} \<and> free_sizes t = {mem_len - 16} \<and> rtm_end t + 8 = mem_ptr + mem_len"
proof -
  note r = init_rel [OF assms, of s]
  have "free_sizes (da16x_dpm_rtm_mem_init mem_ptr mem_len s) = {mem_len - 16}"
    by (auto simp: free_sizes_eq [OF r(1)])
  with r show ?thesis by (auto simp: Let_def heap_inv_def allocated_eq [OF r(1)])
qed

theorem heap_init_correct_witness:
  "heap_inv (da16x_dpm_rtm_mem_init 4096 136 zero_heap) \<and>
   free_sizes (da16x_dpm_rtm_mem_init 4096 136 zero_heap) = {120}"
  using heap_init_correct [of 4096 136 zero_heap] by (simp add: Let_def)

text \<open>
  Initialising on a region whose length is not a multiple of 4 writes outside it: the length is
  rounded up, so the end marker's header ends behind the region.
\<close>

theorem heap_init_overruns:
  assumes "4 dvd mem_ptr" "\<not> 4 dvd mem_len" "28 \<le> mem_len" "mem_len < 2 ^ 16" "mem_ptr + mem_len + 8 \<le> 2 ^ 32"
  shows "rtm_end (da16x_dpm_rtm_mem_init mem_ptr mem_len s) + 8 > mem_ptr + mem_len"
proof -
  let ?s1 = "heap_bounds mem_ptr mem_len s"
  have sub: "sub32 mem_len 8 = mem_len - 8" using assms(3,4) by (subst sub32_eq) simp_all
  have b: "rtm ?s1 = mem_ptr" "rtm_size ?s1 = mem_len - 8"
    using assms(1,3-5) by (auto simp: heap_bounds_def SIZEOF_STRUCT_RTM_MEM_def sub elim!: dvdE)
  have sz: "SIZE_ALIGNED ?s1 = (mem_len - 5) div 4 * 4"
    using assms(3,4) by (simp add: SIZE_ALIGNED_def b LWIP_MEM_ALIGN_SIZE_def)
  have gt: "mem_len - 8 < (mem_len - 5) div 4 * 4" "(mem_len - 5) div 4 * 4 \<le> mem_len - 5"
    using assms(2,3) by presburger+
  let ?s2 = "set_used mem_ptr 0 (set_prev mem_ptr 0 (set_next mem_ptr ((mem_len - 5) div 4 * 4) ?s1))"
  have b2: "rtm ?s2 = mem_ptr" "SIZE_ALIGNED ?s2 = (mem_len - 5) div 4 * 4"
    using b sz by (simp_all add: SIZE_ALIGNED_def)
  have "rtm ?s2 + SIZE_ALIGNED ?s2 + 8 \<le> 2 ^ 32" "SIZE_ALIGNED ?s2 < 2 ^ 16" unfolding b2 using assms(3,4,5) gt by simp_all
  note e = set_rtm_end_state [OF this, unfolded b2]
  show ?thesis
    using e(3) gt assms(3) by (simp add: da16x_dpm_rtm_mem_init_def Let_def b sz)
qed

theorem heap_init_overruns_witness:
  "rtm_end (da16x_dpm_rtm_mem_init 4096 137 zero_heap) + 8 > 4096 + 137"
  using heap_init_overruns [of 4096 137 zero_heap] by simp

section \<open>Recovery after sleep\<close>

lemma recovery_rel:
  assumes "heap_rel s bs" "rtm (heap_bounds mem_ptr mem_len t) = rtm s"
    "rtm_size (heap_bounds mem_ptr mem_len t) = rtm_size s" "\<forall>a < rtm_end s. ram t a = ram s a"
  shows "let u = da16x_dpm_rtm_mem_recovery mem_ptr mem_len (da16x_dpm_rtm_mem_get_free_ptr s) t in
     heap_rel u bs \<and> allocated u = allocated s \<and> (\<forall>x \<in> allocated s. keeps s u x)"
proof -
  let ?t1 = "heap_bounds mem_ptr mem_len t"
  let ?u = "da16x_dpm_rtm_mem_recovery mem_ptr mem_len (da16x_dpm_rtm_mem_get_free_ptr s) t"
  note r = heap_relD [OF assms(1)]
  have l: "rtm s + SIZE_ALIGNED s + 8 \<le> 2 ^ 32" "rtm_end s = rtm s + SIZE_ALIGNED s" "blocks_ok bs"
    "total bs = SIZE_ALIGNED s" "heap_at (ram s) (rtm s) 0 0 bs"
    using r(1) by (simp_all add: heap_links_def)
  have sz: "SIZE_ALIGNED ?t1 = SIZE_ALIGNED s" using assms(3) by (simp add: SIZE_ALIGNED_def)
  have "rtm ?t1 + SIZE_ALIGNED ?t1 + 8 \<le> 2 ^ 32" "SIZE_ALIGNED ?t1 < 2 ^ 16" using r(1) assms(2) sz by (simp_all add: heap_links_def)
  note e = set_rtm_end_state [OF this, unfolded assms(2) sz]
  have u: "rtm ?u = rtm s" "SIZE_ALIGNED ?u = SIZE_ALIGNED s" "rtm_end ?u = rtm_end s"
    "mem_used ?u (rtm_end s) = 1" "lfree ?u = lfree s"
    using e l(2) assms(3) by (simp_all add: da16x_dpm_rtm_mem_recovery_def da16x_dpm_rtm_mem_get_free_ptr_def
        SIZE_ALIGNED_def mem_used_def)
  have m: "ram ?u a = ram s a" if "a < rtm_end s" for a
    using e(5) [of a] that l(2) assms(4) by (simp add: da16x_dpm_rtm_mem_recovery_def heap_bounds_def)
  have "heap_at (ram ?u) (rtm s) 0 0 bs"
    using l(5) m l(2,4) by (subst heap_at_frame [OF l(3), where m' = "ram s"]) auto
  then have rel: "heap_rel ?u bs" using r u by (simp add: heap_rel_def heap_links_def)
  moreover have "keeps s ?u x" if "x \<in> allocated s" for x
    using live_range [of "fst x" "snd x" "rtm s" bs] that l m by (auto simp: keeps_def allocated_eq [OF assms(1)])
  ultimately show ?thesis by (simp add: Let_def allocated_eq [OF assms(1)] allocated_eq [OF rel] u)
qed

text \<open>
  C33. The heap survives deep sleep: when only the retention memory and the saved pointer to the
  lowest free block are left, recovery with the parameters of the initialisation gives back a heap
  with the same blocks, the same allocations and the same contents.
\<close>

theorem heap_recovery_correct:
  assumes "heap_rel s bs" "rtm (heap_bounds mem_ptr mem_len t) = rtm s"
    "rtm_size (heap_bounds mem_ptr mem_len t) = rtm_size s" "\<forall>a < rtm_end s. ram t a = ram s a"
  shows "let u = da16x_dpm_rtm_mem_recovery mem_ptr mem_len (da16x_dpm_rtm_mem_get_free_ptr s) t in
     heap_rel u bs \<and> allocated u = allocated s \<and> (\<forall>x \<in> allocated s. keeps s u x)"
  by (rule recovery_rel [OF assms])

theorem heap_recovery_correct_witness:
  "heap_rel (da16x_dpm_rtm_mem_recovery 4096 136 (da16x_dpm_rtm_mem_get_free_ptr demo_heap)
      (zero_heap\<lparr>ram := ram demo_heap\<rparr>)) [(128, False)]"
proof -
  have "rtm_size demo_heap = 128"
    by (simp add: demo_heap_def da16x_dpm_rtm_mem_init_def heap_bounds_def set_rtm_end_def Let_def sub32_def
        SIZEOF_STRUCT_RTM_MEM_def)
  with heap_recovery_correct [OF demo_heap_rel(1), of 4096 136 "zero_heap\<lparr>ram := ram demo_heap\<rparr>"]
  show ?thesis
    by (simp add: Let_def demo_heap_rel heap_bounds_def sub32_def SIZEOF_STRUCT_RTM_MEM_def)
qed

section \<open>Allocation and release\<close>

text \<open>
  C1. Allocation always returns. It gives either a null pointer, with the heap unchanged and only
  when no free block can hold the aligned request, or an aligned pointer to a new allocation of at
  least the requested size that overlaps no other, with the contents of all others kept.
\<close>

theorem malloc_correct:
  assumes "heap_inv s" "0 < n" "n \<le> 65532"
  shows "\<exists>s' p. da16x_dpm_rtm_mem_malloc n s = Some (s', p) \<and> heap_inv s' \<and>
    (if p = 0 then allocated s' = allocated s \<and> ram s' = ram s \<and> (\<forall>k \<in> free_sizes s. k < block_size n)
     else 4 dvd p \<and> (\<exists>k \<ge> n. allocated s' = insert (p, k) (allocated s) \<and>
            (\<forall>(q, l) \<in> allocated s. p + k \<le> q \<or> q + l \<le> p)) \<and> (\<forall>x \<in> allocated s. keeps s s' x))"
proof -
  obtain s' p where m: "da16x_dpm_rtm_mem_malloc n s = Some (s', p)" "heap_inv s'"
    "p = 0 \<Longrightarrow> allocated s' = allocated s \<and> ram s' = ram s \<and> (\<forall>k \<in> free_sizes s. k < block_size n)"
    "p \<noteq> 0 \<Longrightarrow> 4 dvd p \<and> (\<exists>k \<ge> n. (p, k) \<notin> allocated s \<and> allocated s' = insert (p, k) (allocated s)) \<and>
       (\<forall>x \<in> allocated s. keeps s s' x)"
    using malloc_spec [OF assms(1), of n] assms(2,3) by auto
  show ?thesis
  proof (cases "p = 0")
    case False
    then obtain k where k: "n \<le> k" "(p, k) \<notin> allocated s" "allocated s' = insert (p, k) (allocated s)"
      using m(4) by blast
    have "\<forall>(q, l) \<in> allocated s. p + k \<le> q \<or> q + l \<le> p"
      using allocated_disjoint [OF m(2), of p k] k(2,3) by fastforce
    with k False m show ?thesis by auto
  qed (use m in auto)
qed

theorem malloc_correct_witness:
  "\<exists>s' p. da16x_dpm_rtm_mem_malloc 10 demo_heap = Some (s', p) \<and> p \<noteq> 0 \<and> heap_inv s'"
  using malloc_correct [OF demo_heap_inv(1), of 10] free_sizes_eq [OF demo_heap_rel(1)]
  by (auto simp: block_size_def LWIP_MEM_ALIGN_SIZE_def MIN_SIZE_ALIGNED_def split: if_splits)

lemma demo_alloc:
  obtains s where "da16x_dpm_rtm_mem_malloc 10 demo_heap = Some (s, 4104)"
    "heap_rel s [(20, True), (108, False)]" "rtm s = 4096" "heap_inv s" "allocated s = {(4104, 12)}"
proof -
  have bs: "block_size 10 = 12"
    by (simp add: block_size_def LWIP_MEM_ALIGN_SIZE_def MIN_SIZE_ALIGNED_def)
  have sz: "SIZE_ALIGNED demo_heap = 128"
    using demo_heap_rel(1) by (simp add: heap_rel_def heap_links_def)
  from malloc_takes [OF demo_heap_rel(1), of 10 "[]" 128 "[]"] obtain s where
    s: "da16x_dpm_rtm_mem_malloc 10 demo_heap = Some (s, 4104)" "heap_rel s [(20, True), (108, False)]"
    "rtm s = 4096"
    by (auto simp: bs sz demo_heap_rel taken_def)
  with that [OF s] show ?thesis by (auto simp: heap_inv_def allocated_eq [OF s(2)])
qed

text \<open>
  C2. Freeing a live allocation removes exactly it, counts no error and keeps the contents of all
  others; freeing the same pointer again right away is detected whatever was merged, and only the
  counter of illegal calls changes.
\<close>

theorem free_correct:
  assumes "heap_inv s" "(p, k) \<in> allocated s"
  shows "let t = da16x_dpm_rtm_mem_free p s in
     heap_inv t \<and> allocated t = allocated s - {(p, k)} \<and> alloc_illegal_cnt t = alloc_illegal_cnt s \<and>
     (\<forall>x \<in> allocated t. keeps s t x) \<and>
     da16x_dpm_rtm_mem_free p t = t\<lparr>alloc_illegal_cnt := alloc_illegal_cnt t + 1\<rparr>"
  using free_spec [OF assms] by (simp add: Let_def count_illegal_def)

theorem free_correct_witness:
  "\<exists>s. allocated s = {(4104, 12)} \<and> allocated (da16x_dpm_rtm_mem_free 4104 s) = {}"
proof -
  obtain s where "heap_inv s" "allocated s = {(4104, 12)}" by (rule demo_alloc)
  with free_correct [OF this(1), of 4104 12] show ?thesis by (auto simp: Let_def)
qed

text \<open>
  A pointer that no allocation can have, null, misaligned, below the heap or too close to its
  end, is never followed: freeing it changes no memory and no link, at most the counter of illegal
  calls.
\<close>

theorem free_rejects_foreign:
  assumes "heap_inv s" "p < 2 ^ 32" "p = 0 \<or> \<not> 4 dvd p \<or> 8 \<le> p \<and> p < rtm s + 8 \<or> rtm_end s < p + 12 \<and> p + 12 < 2 ^ 32"
  shows "da16x_dpm_rtm_mem_free p s = (if p = 0 then s else s\<lparr>alloc_illegal_cnt := alloc_illegal_cnt s + 1\<rparr>)"
proof (cases "p = 0 \<or> \<not> 4 dvd p")
  case True
  then show ?thesis by (auto simp: da16x_dpm_rtm_mem_free_def count_illegal_def mod_eq_0_iff_dvd)
next
  case False
  then have "8 \<le> p \<and> p < rtm s + 8 \<or> rtm_end s < p + 12 \<and> p + 12 < 2 ^ 32" "p \<noteq> 0" using assms(3) by auto
  moreover have "p < rtm s + 8 \<Longrightarrow> 8 \<le> p \<Longrightarrow> sub32 p 8 < rtm s" using assms(2) by (subst sub32_eq) auto
  ultimately show ?thesis
    by (auto simp: da16x_dpm_rtm_mem_free_def count_illegal_def SIZEOF_STRUCT_RTM_MEM_def
        MIN_SIZE_ALIGNED_def Let_def)
qed

theorem free_rejects_foreign_witness:
  "da16x_dpm_rtm_mem_free 4096 demo_heap = demo_heap\<lparr>alloc_illegal_cnt := alloc_illegal_cnt demo_heap + 1\<rparr>"
  using free_rejects_foreign [OF demo_heap_inv(1), of 4096] by (simp add: demo_heap_rel)

lemma malloc_success:
  assumes rel: "heap_rel s bs" and n: "n < 2 ^ 16" and m: "da16x_dpm_rtm_mem_malloc n s = Some (s', p)" "p \<noteq> 0"
  obtains xs k ys where "bs = xs @ (k, False) # ys" "block_size n + 8 \<le> k" "p = rtm s + total xs + 8"
    "heap_rel s' (xs @ taken (block_size n) k @ ys)" "rtm s' = rtm s" "n \<le> block_size n"
    "\<forall>a. ram s' a \<noteq> ram s a \<longrightarrow> a \<in> hdrs (rtm s) (xs @ taken (block_size n) k @ ys)"
proof -
  have le: "0 < n" "block_size n \<le> SIZE_ALIGNED s" "n \<le> block_size n"
    using m by (auto simp: da16x_dpm_rtm_mem_malloc_def Let_def split: if_splits)
  have "fit_off (block_size n) 0 bs \<noteq> None"
    using malloc_fails [OF rel le] m by (auto simp: fit_off_None)
  then obtain xs k ys where bs: "bs = xs @ (k, False) # ys" "block_size n + 8 \<le> k"
    "\<forall>b \<in> set xs. \<not> fits (block_size n) b" by (metis fit_off_Some not_Some_eq)
  from malloc_takes [OF rel le(1) n le(2,3) bs] m that [OF bs(1,2)] le(3) show ?thesis by auto
qed

text \<open>
  Freeing what was just allocated undoes the allocation exactly: the blocks, their sizes and the
  pointer to the lowest free block are those from before, so no fragmentation is left behind.
\<close>

theorem malloc_free_restores:
  assumes "heap_rel s bs" "n < 2 ^ 16" "da16x_dpm_rtm_mem_malloc n s = Some (s', p)" "p \<noteq> 0"
  shows "heap_rel (da16x_dpm_rtm_mem_free p s') bs \<and> lfree (da16x_dpm_rtm_mem_free p s') = lfree s"
proof -
  obtain xs k ys where bs: "bs = xs @ (k, False) # ys" "block_size n + 8 \<le> k" "p = rtm s + total xs + 8"
    and s': "heap_rel s' (xs @ taken (block_size n) k @ ys)" "rtm s' = rtm s"
    by (rule malloc_success [OF assms])
  have adj: "no_adj (xs @ (k, False) # ys)" using heap_relD(2) [OF assms(1)] bs(1) by simp
  have xs: "xs \<noteq> [] \<Longrightarrow> snd (last xs)" and ys: "ys \<noteq> [] \<Longrightarrow> snd (hd ys)"
    using adj by (cases ys; auto simp: no_adj_append)+
  have "heap_rel (da16x_dpm_rtm_mem_free p s') bs"
  proof (cases "block_size n + 28 \<le> k")
    case True
    have r1: "heap_rel s' (xs @ (block_size n + 8, True) # (k - (block_size n + 8), False) # ys)"
      using s'(1) True by (simp add: taken_def)
    have "release xs (block_size n + 8) ((k - (block_size n + 8), False) # ys) = bs"
      using xs bs(1,2) by (auto simp: release_def merge_bwd_def)
    with free_releases(1) [OF r1] show ?thesis by (simp add: bs(3) s'(2))
  next
    case False
    have r1: "heap_rel s' (xs @ (k, True) # ys)" using s'(1) False by (simp add: taken_def)
    have "merge_fwd k ys = (k, False) # ys"
      using ys by (cases "(k, ys)" rule: merge_fwd.cases) auto
    then have "release xs k ys = bs" using xs bs(1) by (auto simp: release_def merge_bwd_def)
    with free_releases(1) [OF r1] show ?thesis by (simp add: bs(3) s'(2))
  qed
  moreover have "rtm (da16x_dpm_rtm_mem_free p s') = rtm s"
    using free_spec(4) [of s' p] s' bs(2,3) by (auto simp: heap_inv_def allocated_eq [OF s'(1)] live_append live_taken)
  ultimately show ?thesis using heap_relD(3) assms(1) by metis
qed

theorem malloc_free_restores_witness:
  "\<exists>s'. da16x_dpm_rtm_mem_malloc 10 demo_heap = Some (s', 4104) \<and>
     heap_rel (da16x_dpm_rtm_mem_free 4104 s') [(128, False)]"
proof -
  obtain s' where m: "da16x_dpm_rtm_mem_malloc 10 demo_heap = Some (s', 4104)" by (rule demo_alloc)
  from malloc_free_restores [OF demo_heap_rel(1) _ m] m show ?thesis by simp
qed

section \<open>Trimming and zeroed allocation\<close>

lemma live_trimmed:
  assumes "sz + 8 \<le> n"
  shows "live a (trimmed sz n ys) = insert (a + 8, if hd (trimmed sz n ys) = (n, True) then n - 8 else sz) (live (a + n) ys)"
proof (cases ys)
  case (Cons b ys')
  then show ?thesis using assms by (cases b) (auto simp: trimmed_def add.assoc)
qed (use assms in \<open>auto simp: trimmed_def\<close>)

text \<open>
  Trimming a live allocation returns its pointer and shrinks that allocation only, to a size
  between the request and the old size; the bytes that remain and all other allocations keep their
  contents. A request that is larger than the allocation returns the null pointer and changes
  nothing.
\<close>

theorem trim_correct:
  assumes "heap_inv s" "(p, k) \<in> allocated s" "new_size \<le> 65532"
  shows "if block_size new_size \<le> k
     then \<exists>t k'. da16x_dpm_rtm_mem_trim p new_size s = (t, p) \<and> heap_inv t \<and> new_size \<le> k' \<and> k' \<le> k \<and>
        allocated t = insert (p, k') (allocated s - {(p, k)}) \<and> (\<forall>x \<in> allocated t. keeps s t x)
     else da16x_dpm_rtm_mem_trim p new_size s = (s, 0)"
proof -
  let ?sz = "block_size new_size"
  obtain bs where rel: "heap_rel s bs" using assms(1) by (auto simp: heap_inv_def)
  obtain xs n ys where bs: "bs = xs @ (n, True) # ys" "p = rtm s + total xs + 8" "k = n - 8"
    using assms(2) live_split [of p k "rtm s" bs] by (auto simp: allocated_eq [OF rel])
  note l = heap_relD(1) [OF rel [unfolded bs(1)]]
  note f = block_fields [OF l] and z = heap_links_sizes [OF l]
  have ge: "new_size \<le> ?sz" by (rule block_size_ge [OF assms(3)])
  show ?thesis
  proof (cases "?sz \<le> k")
    case True
    then have le: "?sz + 8 \<le> n" "?sz \<le> SIZE_ALIGNED s" using bs(3) f(4,5) by auto
    obtain t where t: "da16x_dpm_rtm_mem_trim p new_size s = (t, p)" "heap_rel t (xs @ trimmed ?sz n ys)"
      "same_frame s t" "\<forall>a. ram t a \<noteq> ram s a \<longrightarrow> a \<in> hdrs (rtm s) (xs @ trimmed ?sz n ys)"
      using trim_trims [OF rel [unfolded bs(1)] _ refl le(2) ge le(1)] assms(3) bs(2) by auto
    let ?k = "if hd (trimmed ?sz n ys) = (n, True) then n - 8 else ?sz"
    have rt: "rtm t = rtm s" using t(3) by (simp add: same_frame_def)
    have out: "(p, k) \<notin> live (rtm s) xs" "(p, k) \<notin> live (rtm s + total xs + n) ys"
      using live_range [of p k "rtm s" xs] live_range [of p k "rtm s + total xs + n" ys]
        heap_rel_ok [OF rel] bs by (auto simp: block_ok_def)
    have al: "allocated t = insert (p, ?k) (allocated s - {(p, k)})"
      using out by (auto simp: allocated_eq [OF t(2)] allocated_eq [OF rel] rt bs live_append
          live_trimmed [OF le(1)] add.assoc)
    have "keeps s t x" if "x \<in> allocated t" for x
      using that [unfolded allocated_eq [OF t(2)] rt] heap_rel_ok [OF t(2)]
      by (rule keeps_hdrs) (use t(4) in blast)
    moreover have "new_size \<le> ?k" "?k \<le> k" using ge le(1) bs(3) by auto
    ultimately show ?thesis using True t(1,2) al by (auto simp: heap_inv_def)
  next
    case False
    have mem: "sub32 p 8 = rtm s + total xs" using f(4,5) z unfolding bs(2) by (subst sub32_eq) simp_all
    have ptr: "mem_to_ptr s (rtm s + total xs) = total xs"
      using mem_to_ptr_eq [OF l, of "total xs"] f(4) by simp
    have "sub32 (sub32 (total xs + n) (total xs) mod 2 ^ 16) 8 mod 2 ^ 16 = k"
      using f(4,5) z bs(3) by (simp add: sub32_eq)
    moreover have "rtm s \<le> p" "p < rtm_end s" using f(4,5) z by (simp_all add: bs(2))
    ultimately show ?thesis
      using False by (simp add: da16x_dpm_rtm_mem_trim_def Let_def SIZEOF_STRUCT_RTM_MEM_def mem ptr f(1))
  qed
qed

theorem trim_correct_witness:
  "\<exists>s. allocated s = {(4104, 12)} \<and> da16x_dpm_rtm_mem_trim 4104 16 s = (s, 0)"
proof -
  obtain s where s: "heap_inv s" "allocated s = {(4104, 12)}" by (rule demo_alloc)
  have "block_size 16 = 16" by (simp add: block_size_def LWIP_MEM_ALIGN_SIZE_def MIN_SIZE_ALIGNED_def)
  with trim_correct [OF s(1), of 4104 12 16] s(2) show ?thesis by auto
qed

lemma calloc_spec:
  assumes "heap_inv s" "count < 2 ^ 16" "sz < 2 ^ 16" "count * sz < 2 ^ 16"
  shows "\<exists>s' p. da16x_dpm_rtm_mem_calloc count sz s = Some (s', p) \<and> heap_inv s' \<and> rtm s' = rtm s \<and>
    (p = 0 \<longrightarrow> allocated s' = allocated s \<and> ram s' = ram s \<and> lfree s' = lfree s \<and>
       (count * sz = 0 \<or> 65532 < count * sz \<or> (\<forall>k \<in> free_sizes s. k < block_size (count * sz)))) \<and>
    (p \<noteq> 0 \<longrightarrow> 4 dvd p \<and> (\<exists>k \<ge> count * sz. (p, k) \<notin> allocated s \<and> allocated s' = insert (p, k) (allocated s)) \<and>
       (\<forall>x \<in> allocated s. keeps s s' x) \<and> (\<forall>a \<in> {p..<p + count * sz}. ram s' a = 0))"
proof -
  let ?n = "count * sz"
  obtain s1 p where m: "da16x_dpm_rtm_mem_malloc ?n s = Some (s1, p)" "heap_inv s1" "rtm s1 = rtm s"
    "p = 0 \<Longrightarrow> allocated s1 = allocated s \<and> ram s1 = ram s \<and> lfree s1 = lfree s \<and>
       (?n = 0 \<or> 65532 < ?n \<or> (\<forall>k \<in> free_sizes s. k < block_size ?n))"
    "p \<noteq> 0 \<Longrightarrow> 4 dvd p \<and> (\<exists>k \<ge> ?n. (p, k) \<notin> allocated s \<and> allocated s1 = insert (p, k) (allocated s)) \<and>
       (\<forall>x \<in> allocated s. keeps s s1 x)"
    using malloc_spec [OF assms(1,4)] by auto
  have c: "da16x_dpm_rtm_mem_calloc count sz s = Some (if p \<noteq> 0 then memset_zero p ?n s1 else s1, p)"
    using assms(2-4) m(1) by (simp add: da16x_dpm_rtm_mem_calloc_def Let_def)
  show ?thesis
  proof (cases "p = 0")
    case True
    with c m show ?thesis by auto
  next
    case False
    then obtain k where k: "?n \<le> k" "(p, k) \<notin> allocated s" "allocated s1 = insert (p, k) (allocated s)"
      using m(5) by blast
    obtain bs where rel: "heap_rel s1 bs" using m(2) by (auto simp: heap_inv_def)
    let ?s2 = "memset_zero p ?n s1"
    have r2: "heap_rel ?s2 bs"
      unfolding memset_zero_def
    proof (rule heap_rel_data [OF rel])
      fix a assume "(if p \<le> a \<and> a < p + ?n then 0 else ram s1 a) \<noteq> ram s1 a"
      then have "a \<in> {p..<p + k}" using k(1) by (auto split: if_splits)
      moreover have "(p, k) \<in> live (rtm s1) bs" using k(3) allocated_eq [OF rel] by auto
      ultimately show "\<exists>(p, k) \<in> live (rtm s1) bs. a \<in> {p..<p + k}" by blast
    qed
    have al: "allocated ?s2 = allocated s1"
      unfolding allocated_eq [OF rel] allocated_eq [OF r2] by (simp add: memset_zero_def)
    have "keeps s ?s2 x" if x: "x \<in> allocated s" for x
    proof -
      have "p + k \<le> fst x \<or> fst x + snd x \<le> p"
        using allocated_disjoint [OF m(2), of p k "fst x" "snd x"] k x by (cases "(p, k) = x") auto
      moreover have "keeps s s1 x" using m(5) [OF False] x by blast
      ultimately show ?thesis using k(1) by (auto simp: keeps_def memset_zero_def)
    qed
    moreover have "\<forall>a \<in> {p..<p + ?n}. ram ?s2 a = 0" by (simp add: memset_zero_def)
    moreover have "heap_inv ?s2" "rtm ?s2 = rtm s"
      using r2 m(3) by (auto simp: heap_inv_def memset_zero_def)
    ultimately show ?thesis using False c k al m(5) by auto
  qed
qed

text \<open>
  C36. A zeroed request of any 16-bit count and size always returns. A product of the two that does not fit 16 bits gives the null pointer and changes
  nothing at all. Otherwise the null pointer is given only for nothing, for more than 65532 bytes or when no free block is large enough, with allocations and memory
  unchanged; a non-null result is an aligned new allocation of at least that many bytes, disjoint from all others, every byte that was asked for is zero, and every other
  allocation keeps its contents.
\<close>

theorem calloc_correct:
  assumes "heap_inv s" "count < 2 ^ 16" "sz < 2 ^ 16"
  shows "\<exists>s' p. da16x_dpm_rtm_mem_calloc count sz s = Some (s', p) \<and> heap_inv s' \<and>
    (if 2 ^ 16 \<le> count * sz then s' = s \<and> p = 0
     else if p = 0 then allocated s' = allocated s \<and> ram s' = ram s \<and>
       (count * sz = 0 \<or> 65532 < count * sz \<or> (\<forall>k \<in> free_sizes s. k < block_size (count * sz)))
     else 4 dvd p \<and> (\<exists>k \<ge> count * sz. allocated s' = insert (p, k) (allocated s) \<and> (\<forall>(q, l) \<in> allocated s. p + k \<le> q \<or> q + l \<le> p)) \<and>
       (\<forall>a \<in> {p..<p + count * sz}. ram s' a = 0) \<and> (\<forall>x \<in> allocated s. keeps s s' x))"
proof (cases "count * sz < 2 ^ 16")
  case True
  obtain s' p where c: "da16x_dpm_rtm_mem_calloc count sz s = Some (s', p)" "heap_inv s'"
    "p = 0 \<longrightarrow> allocated s' = allocated s \<and> ram s' = ram s \<and> lfree s' = lfree s \<and>
       (count * sz = 0 \<or> 65532 < count * sz \<or> (\<forall>k \<in> free_sizes s. k < block_size (count * sz)))"
    "p \<noteq> 0 \<longrightarrow> 4 dvd p \<and> (\<exists>k \<ge> count * sz. (p, k) \<notin> allocated s \<and> allocated s' = insert (p, k) (allocated s)) \<and>
       (\<forall>x \<in> allocated s. keeps s s' x) \<and> (\<forall>a \<in> {p..<p + count * sz}. ram s' a = 0)"
    using calloc_spec [OF assms True] by blast
  have n: "\<not> 2 ^ 16 \<le> count * sz" using True by simp
  show ?thesis
  proof (cases "p = 0")
    case False
    then obtain k where k: "k \<ge> count * sz" "(p, k) \<notin> allocated s" "allocated s' = insert (p, k) (allocated s)" using c(4) by blast
    have "\<forall>(q, l) \<in> allocated s. p + k \<le> q \<or> q + l \<le> p"
      using allocated_disjoint [OF c(2), of p k] k(2,3) by fastforce
    then show ?thesis unfolding if_not_P [OF n] using False c k(1,3) by (intro exI [of _ s'] exI [of _ p]) auto
  qed (unfold if_not_P [OF n], use c in auto)
next
  case False
  have "count * sz < 2 ^ 32" using mult_strict_mono [OF assms(2,3)] by simp
  then have "da16x_dpm_rtm_mem_calloc count sz s = Some (s, 0)" using False assms by (auto simp: da16x_dpm_rtm_mem_calloc_def Let_def)
  then show ?thesis using False assms(1) by auto
qed

theorem calloc_correct_witness:
  "\<exists>s' p. da16x_dpm_rtm_mem_calloc 3 4 demo_heap = Some (s', p) \<and> heap_inv s' \<and> p \<noteq> 0"
  using calloc_correct [OF demo_heap_inv(1), of 3 4] free_sizes_eq [OF demo_heap_rel(1)]
  by (auto simp: block_size_def LWIP_MEM_ALIGN_SIZE_def MIN_SIZE_ALIGNED_def split: if_splits)

section \<open>Clients do not disturb each other\<close>

text \<open>
  C3. An allocation is private to its owner: whatever other clients allocate, free and write, as
  long as each frees and writes only allocations of its own, every one of their requests returns, the
  heap stays consistent and the allocation keeps every byte.
\<close>

theorem clients_isolated:
  assumes "heap_inv s" "x \<in> allocated s" "rtm_impl.others x reqs s"
  shows "\<exists>t. rtm_impl.run reqs s = Some t \<and> heap_inv t \<and> x \<in> allocated t \<and> keeps s t x"
  using rtm_impl.others_keep [OF assms] by (auto simp: keeps_def)

theorem clients_isolated_witness:
  "\<exists>s t. allocated s = {(4104, 12)} \<and> rtm_impl.run [Alloc 20, Alloc 0] s = Some t \<and> (4104, 12) \<in> allocated t"
proof -
  obtain s where s: "heap_inv s" "allocated s = {(4104, 12)}" by (rule demo_alloc)
  have "rtm_impl.others (4104, 12) [Alloc 20, Alloc 0] s" by (auto split: option.splits)
  from clients_isolated [OF s(1) _ this] s(2) show ?thesis by auto
qed

section \<open>Status\<close>

definition used_bytes :: "block list \<Rightarrow> nat" where
  "used_bytes bs = sum_list (map (\<lambda>b. fst b - 8) (filter snd bs))"

definition free_bytes :: "block list \<Rightarrow> nat" where
  "free_bytes bs = sum_list (map (\<lambda>b. fst b - 8) (filter (\<lambda>b. \<not> snd b) bs))"

lemma bytes_total:
  "blocks_ok bs \<Longrightarrow> used_bytes bs + free_bytes bs + 8 * length bs = total bs"
  by (induction bs) (auto simp: used_bytes_def free_bytes_def block_ok_def)

lemma status_walk_sums:
  assumes "heap_links s (xs @ ys)" "i + length ys < 2 ^ 16" "u + used_bytes ys < 2 ^ 16" "f + free_bytes ys < 2 ^ 16"
  shows "status_walk s (total xs) (i, u, f) = Some (i + length ys, u + used_bytes ys, f + free_bytes ys)"
  using assms
proof (induction ys arbitrary: xs i u f)
  case Nil
  then have "total xs = SIZE_ALIGNED s" by (simp add: heap_links_def)
  then show ?case by (subst status_walk.simps) (simp add: used_bytes_def free_bytes_def)
next
  case (Cons b ys)
  obtain n v where b: "b = (n, v)" by fastforce
  note fl = block_fields [OF Cons.prems(1) [unfolded b]] and z = heap_links_sizes [OF Cons.prems(1)]
  have mem: "ptr_to_mem s (total xs) = rtm s + total xs"
    using fl(4) by (intro ptr_to_mem_eq [OF Cons.prems(1)]) simp
  have d: "sub32 (total xs + n) (total xs + 8) = n - 8" using fl(4,5) z by (simp add: sub32_eq)
  have lt: "total xs < SIZE_ALIGNED s" using fl(4,5) by simp
  have l': "heap_links s ((xs @ [b]) @ ys)" using Cons.prems(1) by simp
  note IH = Cons.IH [OF l']
  show ?case
    using lt Cons.prems(2-4) IH [of "i + 1" "u + (n - 8)" f] IH [of "i + 1" u "f + (n - 8)"]
    by (subst status_walk.simps)
      (auto simp: mem fl(1,3) d b SIZEOF_STRUCT_RTM_MEM_def Let_def used_bytes_def free_bytes_def add.assoc)
qed

lemma status_returns:
  assumes "heap_rel s bs"
  shows "\<exists>nodes used free. da16x_dpm_rtm_mem_status s = Some (nodes, used, free) \<and> nodes = length bs \<and>
    used = used_bytes bs \<and> free = free_bytes bs \<and> used + free + SIZEOF_STRUCT_RTM_MEM * nodes = SIZE_ALIGNED s"
proof -
  note l = heap_relD(1) [OF assms]
  have t: "used_bytes bs + free_bytes bs + 8 * length bs = SIZE_ALIGNED s" "SIZE_ALIGNED s < 2 ^ 16"
    using bytes_total [of bs] l by (simp_all add: heap_links_def)
  have "mem_to_ptr s (rtm s) = total []" using mem_to_ptr_eq [OF l, of 0] by simp
  with status_walk_sums [of s "[]" bs 0 0 0] l t show ?thesis
    by (simp add: da16x_dpm_rtm_mem_status_def SIZEOF_STRUCT_RTM_MEM_def)
qed

text \<open>
  The status command reports the number of blocks and the used and free bytes without
  overflow, and together with one header per block they account for the whole heap.
\<close>

theorem status_accounts:
  assumes "heap_rel s bs"
  shows "\<exists>nodes used free. da16x_dpm_rtm_mem_status s = Some (nodes, used, free) \<and> nodes = length bs \<and>
    used = used_bytes bs \<and> free = free_bytes bs \<and> used + free + SIZEOF_STRUCT_RTM_MEM * nodes = SIZE_ALIGNED s"
  by (rule status_returns [OF assms])

theorem status_accounts_witness: "da16x_dpm_rtm_mem_status demo_heap = Some (1, 0, 120)"
  using status_accounts [OF demo_heap_rel(1)] by (simp add: used_bytes_def free_bytes_def)

text \<open>
  The loops over the links end on a consistent heap: every request of every 16-bit size, every zeroed request and the status walk return.
\<close>

theorem heap_requests_end:
  assumes "heap_inv s" "n < 2 ^ 16"
  shows "da16x_dpm_rtm_mem_malloc n s \<noteq> None \<and> da16x_dpm_rtm_mem_calloc count sz s \<noteq> None \<and> da16x_dpm_rtm_mem_status s \<noteq> None"
proof (intro conjI)
  have m: "da16x_dpm_rtm_mem_malloc k s \<noteq> None" if "k < 2 ^ 16" for k
    using malloc_spec [OF assms(1) that] by auto
  then show "da16x_dpm_rtm_mem_malloc n s \<noteq> None" using assms(2) .
  define a where "a = ((count mod 2 ^ 16) * (sz mod 2 ^ 16)) mod 2 ^ 32"
  have "a mod 2 ^ 16 = a \<Longrightarrow> a < 2 ^ 16" by (metis mod_less_divisor zero_less_numeral zero_less_power)
  then show "da16x_dpm_rtm_mem_calloc count sz s \<noteq> None"
    unfolding da16x_dpm_rtm_mem_calloc_def Let_def a_def [symmetric] using m [of a] by (auto split: option.splits)
  obtain bs where "heap_rel s bs" using assms(1) by (auto simp: heap_inv_def)
  from status_returns [OF this] show "da16x_dpm_rtm_mem_status s \<noteq> None" by auto
qed

theorem heap_requests_end_witness:
  "da16x_dpm_rtm_mem_malloc 65535 demo_heap \<noteq> None \<and> da16x_dpm_rtm_mem_calloc 65535 65535 demo_heap \<noteq> None
   \<and> da16x_dpm_rtm_mem_status demo_heap \<noteq> None"
  by (rule heap_requests_end) (simp_all add: demo_heap_inv)

end
