(* ===== verification/User_Pool.thy ===== *)
theory User_Pool
  imports Rtm_Props
begin

text \<open>
  The named user data in retention memory: the pool of \<^verbatim>\<open>src/core/system/src/dpm/da16x_dpm.c\<close>
  (\<^verbatim>\<open>dpm_user_rtm_*\<close>) and its entry points in \<^verbatim>\<open>src/core/system/src/common/main/util_api.c\<close>
  (\<^verbatim>\<open>user_rtm_*\<close>). Every allocation starts with a 32-byte node, a name of 20 bytes, the address and
  size of the user's data and the link to the next node; the nodes live in the retention heap, so
  the list is read and written in its memory. The two fields of the pool header, which also survive
  sleep, and the flag for an initialised pool make up the state with the heap.
\<close>

section \<open>State\<close>

record user_pool =
  heap :: rtm_heap
  free_ptr :: nat
  first_user_addr :: nat
  init_done :: bool

definition REG_NAME_DPM_MAX_LEN :: nat where "REG_NAME_DPM_MAX_LEN = 20"
definition SIZEOF_dpm_user_rtm :: nat where "SIZEOF_dpm_user_rtm = 32"
definition RTM_USER_DATA_PTR :: nat where "RTM_USER_DATA_PTR = 0xF8A000"
definition USER_DATA_ALLOC_SZ :: nat where "USER_DATA_ALLOC_SZ = 0x2000"

definition ER_SUCCESS :: nat where "ER_SUCCESS = 0"
definition ER_INVALID_PARAMETERS :: nat where "ER_INVALID_PARAMETERS = 0x15"
definition ER_NOT_FOUND :: nat where "ER_NOT_FOUND = 0x16"
definition ER_DUPLICATED_ENTRY :: nat where "ER_DUPLICATED_ENTRY = 0x17"
definition ER_NO_MEMORY :: nat where "ER_NO_MEMORY = 0x19"

definition rd32 :: "(nat \<Rightarrow> u8) \<Rightarrow> nat \<Rightarrow> nat" where
  "rd32 m a = rd16 m a + 65536 * rd16 m (a + 2)"

definition wr32 :: "nat \<Rightarrow> nat \<Rightarrow> (nat \<Rightarrow> u8) \<Rightarrow> nat \<Rightarrow> u8" where
  "wr32 a v m = wr16 (a + 2) (v div 65536) (wr16 a (v mod 65536) m)"

text \<open>Comparing with and copying a null-terminated name.\<close>

fun str_at :: "(nat \<Rightarrow> u8) \<Rightarrow> nat \<Rightarrow> u8 list \<Rightarrow> bool" where
  "str_at m a [] \<longleftrightarrow> m a = 0"
| "str_at m a (c # cs) \<longleftrightarrow> m a = c \<and> str_at m (a + 1) cs"

fun put_str :: "nat \<Rightarrow> u8 list \<Rightarrow> (nat \<Rightarrow> u8) \<Rightarrow> nat \<Rightarrow> u8" where
  "put_str a [] m = m(a := 0)"
| "put_str a (c # cs) m = put_str (a + 1) cs (m(a := c))"

definition user_start :: "(nat \<Rightarrow> u8) \<Rightarrow> nat \<Rightarrow> nat" where "user_start m p = rd32 m (p + 20)"
definition user_size :: "(nat \<Rightarrow> u8) \<Rightarrow> nat \<Rightarrow> nat" where "user_size m p = rd32 m (p + 24)"
definition user_next :: "(nat \<Rightarrow> u8) \<Rightarrow> nat \<Rightarrow> nat" where "user_next m p = rd32 m (p + 28)"

section \<open>Creating and clearing the pool\<close>

definition dpm_user_rtm_pool_clear :: "user_pool \<Rightarrow> user_pool" where
  "dpm_user_rtm_pool_clear s = s\<lparr>free_ptr := 0, first_user_addr := 0\<rparr>"

definition dpm_user_rtm_clear :: "user_pool \<Rightarrow> user_pool" where
  "dpm_user_rtm_clear s = s\<lparr>heap := memset_zero RTM_USER_DATA_PTR USER_DATA_ALLOC_SZ (heap s)\<rparr>"

definition dpm_user_rtm_pool_create :: "bool \<Rightarrow> bool \<Rightarrow> user_pool \<Rightarrow> user_pool" where
  "dpm_user_rtm_pool_create wakeup boot_mode s =
     (if \<not> init_done s
      then (let s1 = (if \<not> wakeup \<and> \<not> boot_mode
                      then (let s0 = dpm_user_rtm_clear (dpm_user_rtm_pool_clear s);
                                h = da16x_dpm_rtm_mem_init RTM_USER_DATA_PTR USER_DATA_ALLOC_SZ (heap s0)
                            in s0\<lparr>heap := h, free_ptr := da16x_dpm_rtm_mem_get_free_ptr h, first_user_addr := 0\<rparr>)
                      else s\<lparr>heap := da16x_dpm_rtm_mem_recovery RTM_USER_DATA_PTR USER_DATA_ALLOC_SZ
                                       (free_ptr s) (heap s)\<rparr>)
            in s1\<lparr>init_done := True\<rparr>)
      else s)"

definition dpm_user_rtm_pool_delete :: "user_pool \<Rightarrow> user_pool" where
  "dpm_user_rtm_pool_delete s = dpm_user_rtm_clear (dpm_user_rtm_pool_clear s)"

section \<open>The list of nodes\<close>

text \<open>The loops follow links in memory; \<open>None\<close> is a loop that does not end.\<close>

partial_function (option) add_loop :: "(nat \<Rightarrow> u8) \<Rightarrow> nat \<Rightarrow> nat option" where
  "add_loop m cur = (if user_next m cur = 0 then Some cur else add_loop m (user_next m cur))"

definition set_user_next :: "nat \<Rightarrow> nat \<Rightarrow> user_pool \<Rightarrow> user_pool" where
  "set_user_next p v s = s\<lparr>heap := (heap s)\<lparr>ram := wr32 (p + 28) v (ram (heap s))\<rparr>\<rparr>"

definition dpm_user_rtm_add :: "nat \<Rightarrow> user_pool \<Rightarrow> user_pool option" where
  "dpm_user_rtm_add data s =
     (if first_user_addr s \<noteq> 0
      then (case add_loop (ram (heap s)) (first_user_addr s) of
              None \<Rightarrow> None | Some cur \<Rightarrow> Some (set_user_next cur data s))
      else Some (s\<lparr>first_user_addr := data\<rparr>))"

text \<open>The previous and the found node, if any.\<close>

partial_function (option) remove_loop :: "(nat \<Rightarrow> u8) \<Rightarrow> u8 list \<Rightarrow> nat \<Rightarrow> (nat \<times> nat) option option" where
  "remove_loop m name cur =
     (let prev = cur; cur = user_next m prev in
      if cur \<noteq> 0 \<and> str_at m cur name then Some (Some (prev, cur))
      else if cur \<noteq> 0 \<and> user_next m cur \<noteq> 0 then remove_loop m name cur
      else Some None)"

definition dpm_user_rtm_remove :: "u8 list \<Rightarrow> user_pool \<Rightarrow> (user_pool \<times> nat) option" where
  "dpm_user_rtm_remove name s =
     (let m = ram (heap s); cur = first_user_addr s in
      if cur \<noteq> 0
      then (if str_at m cur name then Some (s\<lparr>first_user_addr := user_next m cur\<rparr>, cur)
            else (case remove_loop m name cur of
                    None \<Rightarrow> None
                  | Some None \<Rightarrow> Some (s, 0)
                  | Some (Some (prev, cur)) \<Rightarrow> Some (set_user_next prev (user_next m cur) s, cur)))
      else Some (s, 0))"

partial_function (option) search_loop :: "(nat \<Rightarrow> u8) \<Rightarrow> u8 list \<Rightarrow> nat \<Rightarrow> nat option" where
  "search_loop m name cur =
     (if cur = 0 then Some 0
      else if str_at m cur name then Some cur
      else search_loop m name (user_next m cur))"

definition dpm_user_rtm_search :: "u8 list \<Rightarrow> user_pool \<Rightarrow> nat option" where
  "dpm_user_rtm_search name s =
     (if first_user_addr s \<noteq> 0 then search_loop (ram (heap s)) name (first_user_addr s) else Some 0)"

section \<open>The user's operations\<close>

text \<open>
  A name is \<open>None\<close> for the null pointer. The size given to the allocator is a 16-bit parameter of a
  32-bit sum. The result is the return code and, on success, the user's pointer.
\<close>

definition bad_name :: "u8 list option \<Rightarrow> bool" where
  "bad_name name = (case name of None \<Rightarrow> True | Some cs \<Rightarrow> length cs \<ge> REG_NAME_DPM_MAX_LEN)"

definition write_node :: "nat \<Rightarrow> u8 list \<Rightarrow> nat \<Rightarrow> (nat \<Rightarrow> u8) \<Rightarrow> nat \<Rightarrow> u8" where
  "write_node p name memory_size m =
     wr32 (p + 28) 0 (wr32 (p + 20) ((p + SIZEOF_dpm_user_rtm) mod 2 ^ 32)
       (wr32 (p + 24) memory_size (put_str p name m)))"

definition user_rtm_pool_allocate ::
    "u8 list option \<Rightarrow> nat \<Rightarrow> user_pool \<Rightarrow> (user_pool \<times> nat \<times> nat option) option" where
  "user_rtm_pool_allocate name memory_size s =
     (if bad_name name \<or> memory_size = 0 then Some (s, ER_INVALID_PARAMETERS, None)
      else (case dpm_user_rtm_search (the name) s of
        None \<Rightarrow> None
      | Some found \<Rightarrow>
          (if found \<noteq> 0 then Some (s, ER_DUPLICATED_ENTRY, None)
           else (case da16x_dpm_rtm_mem_calloc ((memory_size + SIZEOF_dpm_user_rtm) mod 2 ^ 32 mod 2 ^ 16) 1 (heap s) of
             None \<Rightarrow> None
           | Some (h, user_memory) \<Rightarrow>
               (if user_memory = 0 then Some (s\<lparr>heap := h\<rparr>, ER_NO_MEMORY, None)
                else (let s1 = s\<lparr>heap := h\<lparr>ram := write_node user_memory (the name) memory_size (ram h)\<rparr>,
                                 free_ptr := da16x_dpm_rtm_mem_get_free_ptr h\<rparr>
                      in (case dpm_user_rtm_add user_memory s1 of
                            None \<Rightarrow> None
                          | Some s2 \<Rightarrow> Some (s2, ER_SUCCESS, Some (user_start (ram (heap s2)) user_memory)))))))))"

definition user_rtm_release :: "u8 list option \<Rightarrow> user_pool \<Rightarrow> (user_pool \<times> nat) option" where
  "user_rtm_release name s =
     (if bad_name name then Some (s, ER_INVALID_PARAMETERS)
      else (case dpm_user_rtm_remove (the name) s of
        None \<Rightarrow> None
      | Some (s1, cur_mem) \<Rightarrow>
          (if cur_mem \<noteq> 0
           then (let h = da16x_dpm_rtm_mem_free cur_mem (heap s1)
                 in Some (s1\<lparr>heap := h, free_ptr := da16x_dpm_rtm_mem_get_free_ptr h\<rparr>, 0))
           else Some (s1, ER_NOT_FOUND))))"

text \<open>The size of the data and where it starts; size 0 when there is none.\<close>

definition user_rtm_get :: "u8 list option \<Rightarrow> user_pool \<Rightarrow> (nat \<times> nat option) option" where
  "user_rtm_get name s =
     (if bad_name name then Some (0, None)
      else (case dpm_user_rtm_search (the name) s of
        None \<Rightarrow> None
      | Some cur \<Rightarrow>
          (if cur \<noteq> 0 then Some (user_size (ram (heap s)) cur, Some (user_start (ram (heap s)) cur))
           else Some (0, None))))"

definition dpm_user_rtm_allocate ::
    "bool \<Rightarrow> u8 list option \<Rightarrow> nat \<Rightarrow> user_pool \<Rightarrow> (user_pool \<times> nat \<times> nat option) option" where
  "dpm_user_rtm_allocate dpm_mode name memory_size s =
     (if \<not> dpm_mode then Some (s, ER_INVALID_PARAMETERS, None) else user_rtm_pool_allocate name memory_size s)"

definition dpm_user_rtm_release :: "bool \<Rightarrow> u8 list option \<Rightarrow> user_pool \<Rightarrow> (user_pool \<times> nat) option" where
  "dpm_user_rtm_release dpm_mode name s =
     (if \<not> dpm_mode then Some (s, ER_INVALID_PARAMETERS) else user_rtm_release name s)"

definition dpm_user_rtm_get :: "bool \<Rightarrow> u8 list option \<Rightarrow> user_pool \<Rightarrow> (nat \<times> nat option) option" where
  "dpm_user_rtm_get dpm_mode name s = (if \<not> dpm_mode then Some (0, None) else user_rtm_get name s)"

end
