(* ===== verification/Pool_Props.thy ===== *)
theory Pool_Props
  imports User_Pool
begin

text \<open>
  The pool of named user data keeps its promise: it is a finite map from names to separate areas of
  retention memory. The relation \<open>pool_rel\<close> reads the list of nodes in memory; allocation,
  release and lookup are shown to be insertion, removal and lookup, to leave the data of all other
  names alone, and to survive sleep.
\<close>

section \<open>Words and strings in memory\<close>

lemma rd32_wr32_same [simp]: "v < 2 ^ 32 \<Longrightarrow> rd32 (wr32 a v m) a = v"
  by (simp add: rd32_def wr32_def less_mult_imp_div_less)

lemma wr32_other: "b < a \<or> a + 4 \<le> b \<Longrightarrow> wr32 a v m b = m b"
  by (auto simp: wr32_def wr16_def)

lemma rd16_agree: "m a = m' a \<Longrightarrow> m (a + 1) = m' (a + 1) \<Longrightarrow> rd16 m a = rd16 m' a"
  by (simp add: rd16_def)

lemma rd32_agree: "(\<And>b. a \<le> b \<Longrightarrow> b < a + 4 \<Longrightarrow> m b = m' b) \<Longrightarrow> rd32 m a = rd32 m' a"
  unfolding rd32_def by (intro arg_cong2 [where f = "(+)"] arg_cong [where f = "(*) 65536"] rd16_agree) simp_all

lemma rd32_wr32_other [simp]: "a + 4 \<le> b \<or> b + 4 \<le> a \<Longrightarrow> rd32 (wr32 a v m) b = rd32 m b"
  by (rule rd32_agree) (rule wr32_other, auto)

lemma rd32_lt: "rd32 m a < 2 ^ 32"
proof -
  have "rd16 m a < 65536" "rd16 m (a + 2) < 65536" by (rule rd16_lt)+
  then have "rd32 m a < 65536 + 65536 * 65535" unfolding rd32_def by linarith
  then show ?thesis by simp
qed

lemma str_at_agree:
  "(\<And>b. a \<le> b \<Longrightarrow> b \<le> a + length cs \<Longrightarrow> m b = m' b) \<Longrightarrow> str_at m a cs = str_at m' a cs"
proof (induction cs arbitrary: a)
  case (Cons c cs)
  have "str_at m (a + 1) cs = str_at m' (a + 1) cs" by (rule Cons.IH) (use Cons.prems in simp)
  with Cons.prems [of a] show ?case by simp
qed simp

lemma str_at_inj: "str_at m a cs \<Longrightarrow> str_at m a ds \<Longrightarrow> 0 \<notin> set cs \<Longrightarrow> 0 \<notin> set ds \<Longrightarrow> cs = ds"
proof (induction cs arbitrary: a ds)
  case (Cons c cs)
  then show ?case by (cases ds) auto
next
  case Nil
  then show ?case by (cases ds) auto
qed

lemma put_str_other: "b < a \<or> a + length cs < b \<Longrightarrow> put_str a cs m b = m b"
  by (induction cs arbitrary: a m) auto

lemma str_at_put_str [simp]: "str_at (put_str a cs m) a cs"
proof (induction cs arbitrary: a m)
  case (Cons c cs)
  have "put_str (a + 1) cs (m(a := c)) a = c" by (simp add: put_str_other)
  moreover have "str_at (put_str (a + 1) cs m') (a + 1) cs" for m' by (rule Cons.IH)
  ultimately show ?case by simp
qed simp

section \<open>Nodes and lists of nodes\<close>

type_synonym entry = "nat \<times> u8 list \<times> nat"

abbreviation addr :: "entry \<Rightarrow> nat" where "addr e \<equiv> fst e"
abbreviation ename :: "entry \<Rightarrow> u8 list" where "ename e \<equiv> fst (snd e)"
abbreviation esize :: "entry \<Rightarrow> nat" where "esize e \<equiv> snd (snd e)"

definition node_at :: "(nat \<Rightarrow> u8) \<Rightarrow> entry \<Rightarrow> bool" where
  "node_at m e \<longleftrightarrow> str_at m (addr e) (ename e) \<and> user_start m (addr e) = addr e + 32 \<and>
     user_size m (addr e) = esize e"

definition entry_ok :: "entry \<Rightarrow> bool" where
  "entry_ok e \<longleftrightarrow> addr e \<noteq> 0 \<and> length (ename e) < 20 \<and> 0 \<notin> set (ename e)"

fun lseg :: "(nat \<Rightarrow> u8) \<Rightarrow> nat \<Rightarrow> entry list \<Rightarrow> nat \<Rightarrow> bool" where
  "lseg m p [] q \<longleftrightarrow> p = q"
| "lseg m p (e # es) q \<longleftrightarrow> p = addr e \<and> node_at m e \<and> lseg m (user_next m p) es q"

lemma lseg_append: "lseg m p (es @ fs) q \<longleftrightarrow> (\<exists>r. lseg m p es r \<and> lseg m r fs q)"
  by (induction es arbitrary: p) auto

definition node_bytes :: "entry list \<Rightarrow> nat set" where
  "node_bytes es = (\<Union>e \<in> set es. {addr e..<addr e + 32})"

lemma node_at_agree:
  assumes "\<And>b. b \<in> {addr e..<addr e + 32} \<Longrightarrow> m b = m' b" "entry_ok e"
  shows "node_at m e = node_at m' e" "user_next m (addr e) = user_next m' (addr e)"
proof -
  have "str_at m (addr e) (ename e) = str_at m' (addr e) (ename e)"
    using assms(2) by (intro str_at_agree assms(1)) (auto simp: entry_ok_def)
  moreover have "user_start m (addr e) = user_start m' (addr e)" "user_size m (addr e) = user_size m' (addr e)"
    unfolding user_start_def user_size_def by (intro rd32_agree assms(1); simp)+
  ultimately show "node_at m e = node_at m' e" by (simp add: node_at_def)
  show "user_next m (addr e) = user_next m' (addr e)"
    unfolding user_next_def by (intro rd32_agree assms(1)) simp
qed

lemma lseg_agree:
  assumes "\<And>b. b \<in> node_bytes es \<Longrightarrow> m b = m' b" "\<forall>e \<in> set es. entry_ok e"
  shows "lseg m p es q = lseg m' p es q"
  using assms
proof (induction es arbitrary: p)
  case (Cons e es)
  have a: "m b = m' b" if "b \<in> {addr e..<addr e + 32}" for b
    using Cons.prems(1) that by (simp add: node_bytes_def)
  have ok: "entry_ok e" using Cons.prems(2) by simp
  have "lseg m r es q = lseg m' r es q" for r
    using Cons.prems by (intro Cons.IH) (simp_all add: node_bytes_def)
  with node_at_agree [OF a ok] show ?case by auto
qed simp

text \<open>The loops of the code on a list of nodes.\<close>

fun find_name :: "u8 list \<Rightarrow> entry list \<Rightarrow> entry option" where
  "find_name name [] = None"
| "find_name name (e # es) = (if ename e = name then Some e else find_name name es)"

lemma find_name_None: "find_name name es = None \<longleftrightarrow> name \<notin> ename ` set es"
  by (induction es) auto

lemma find_name_Some:
  "find_name name es = Some e \<Longrightarrow> \<exists>xs ys. es = xs @ e # ys \<and> ename e = name \<and> name \<notin> ename ` set xs"
proof (induction es)
  case (Cons f es)
  show ?case
  proof (cases "ename f = name")
    case True
    with Cons.prems show ?thesis by (intro exI [of _ "[]"] exI [of _ es]) simp
  next
    case False
    with Cons obtain xs ys where "es = xs @ e # ys \<and> ename e = name \<and> name \<notin> ename ` set xs" by auto
    with False show ?thesis by (intro exI [of _ "f # xs"] exI [of _ ys]) auto
  qed
qed simp

lemma node_name:
  assumes "node_at m e" "entry_ok e" "0 \<notin> set name"
  shows "str_at m (addr e) name \<longleftrightarrow> ename e = name"
  using assms str_at_inj [of m "addr e" "ename e" name] by (auto simp: node_at_def entry_ok_def)

lemma search_loop_find:
  assumes "lseg m p es 0" "\<forall>e \<in> set es. entry_ok e" "0 \<notin> set name"
  shows "search_loop m name p = Some (case find_name name es of None \<Rightarrow> 0 | Some e \<Rightarrow> addr e)"
  using assms
proof (induction es arbitrary: p)
  case Nil
  then show ?case by (subst search_loop.simps) simp
next
  case (Cons e es)
  have "p = addr e" "node_at m e" "entry_ok e" "p \<noteq> 0"
    using Cons.prems by (auto simp: entry_ok_def)
  moreover have "search_loop m name (user_next m p) = Some (case find_name name es of None \<Rightarrow> 0 | Some e \<Rightarrow> addr e)"
    using Cons.prems by (intro Cons.IH) auto
  ultimately show ?case using node_name Cons.prems(3) by (subst search_loop.simps) simp
qed

lemma add_loop_last:
  assumes "lseg m p (es @ [e]) 0" "\<forall>e \<in> set (es @ [e]). entry_ok e"
  shows "add_loop m p = Some (addr e)"
  using assms
proof (induction es arbitrary: p)
  case Nil
  then have "user_next m p = 0" "p = addr e" by auto
  then show ?case by (subst add_loop.simps) simp
next
  case (Cons f es)
  have "user_next m p \<noteq> 0"
    using Cons.prems by (cases es) (auto simp: entry_ok_def)
  then show ?case using Cons by (subst add_loop.simps) auto
qed

lemma remove_loop_find:
  assumes "lseg m p (f # es) 0" "\<forall>e \<in> set (f # es). entry_ok e" "0 \<notin> set name"
  shows "remove_loop m name p = Some (case find_name name es of None \<Rightarrow> None
      | Some e \<Rightarrow> Some (addr (last (f # takeWhile (\<lambda>e. ename e \<noteq> name) es)), addr e))"
  using assms
proof (induction es arbitrary: p f)
  case Nil
  then have "user_next m p = 0" by auto
  then show ?case by (subst remove_loop.simps) simp
next
  case (Cons e es)
  have e: "user_next m p = addr e" "node_at m e" "entry_ok e" "addr e \<noteq> 0" "p = addr f"
    using Cons.prems by (auto simp: entry_ok_def)
  have name: "str_at m (addr e) name \<longleftrightarrow> ename e = name" by (rule node_name [OF e(2,3) Cons.prems(3)])
  show ?case
  proof (cases "ename e = name")
    case True
    then show ?thesis using e(1,4,5) name by (subst remove_loop.simps) (simp add: Let_def)
  next
    case False
    show ?thesis
    proof (cases es)
      case Nil
      then have "user_next m (addr e) = 0" using Cons.prems(1) e(1) by simp
      with False e(1) name Nil show ?thesis by (subst remove_loop.simps) (simp add: Let_def)
    next
      case es: (Cons g gs)
      have nx: "user_next m (addr e) \<noteq> 0"
        using Cons.prems e(1) es by (auto simp: entry_ok_def)
      have "remove_loop m name (addr e) = Some (case find_name name es of None \<Rightarrow> None
          | Some e' \<Rightarrow> Some (addr (last (e # takeWhile (\<lambda>e. ename e \<noteq> name) es)), addr e'))"
        using Cons.prems e(1) by (intro Cons.IH) auto
      moreover have "remove_loop m name p = remove_loop m name (addr e)"
        using False e(1,4) name nx by (subst remove_loop.simps) (simp add: Let_def)
      ultimately show ?thesis using False by (simp split: option.split)
    qed
  qed
qed

section \<open>The pool\<close>

definition owned :: "rtm_heap \<Rightarrow> entry \<Rightarrow> bool" where
  "owned h e \<longleftrightarrow> (\<exists>k. (addr e, k) \<in> allocated h \<and> 32 + esize e \<le> k)"

definition pool_rel :: "user_pool \<Rightarrow> entry list \<Rightarrow> bool" where
  "pool_rel s es \<longleftrightarrow> heap_inv (heap s) \<and> lseg (ram (heap s)) (first_user_addr s) es 0 \<and>
     (\<forall>e \<in> set es. entry_ok e \<and> owned (heap s) e) \<and> distinct (map ename es) \<and> distinct (map addr es) \<and>
     free_ptr s = lfree (heap s)"

lemma pool_relD:
  assumes "pool_rel s es"
  shows "heap_inv (heap s)" "lseg (ram (heap s)) (first_user_addr s) es 0" "\<forall>e \<in> set es. entry_ok e"
    "\<forall>e \<in> set es. owned (heap s) e" "distinct (map ename es)" "distinct (map addr es)"
    "free_ptr s = lfree (heap s)"
  using assms by (auto simp: pool_rel_def)

text \<open>The bytes of an entry, its node included, and those of its data.\<close>

definition area :: "entry \<Rightarrow> nat set" where "area e = {addr e..<addr e + 32 + esize e}"

definition data_kept :: "user_pool \<Rightarrow> user_pool \<Rightarrow> entry \<Rightarrow> bool" where
  "data_kept s t e \<longleftrightarrow> (\<forall>b \<in> {addr e + 32..<addr e + 32 + esize e}. ram (heap t) b = ram (heap s) b)"

lemma owned_area: "owned h e \<Longrightarrow> \<exists>k. (addr e, k) \<in> allocated h \<and> area e \<subseteq> {addr e..<addr e + k}"
  by (auto simp: owned_def area_def)

lemma owned_separate:
  assumes "heap_inv h" "owned h e" "owned h f" "addr e \<noteq> addr f"
  shows "area e \<inter> area f = {}"
proof -
  obtain k l where kl: "(addr e, k) \<in> allocated h" "area e \<subseteq> {addr e..<addr e + k}"
    "(addr f, l) \<in> allocated h" "area f \<subseteq> {addr f..<addr f + l}"
    using owned_area assms(2,3) by meson
  have "addr e + k \<le> addr f \<or> addr f + l \<le> addr e"
    using rtm_impl.separate [OF assms(1) kl(1,3)] assms(4) by simp
  with kl(2,4) show ?thesis by fastforce
qed

lemma node_bytes_area: "node_bytes es \<subseteq> (\<Union>e \<in> set es. area e)"
  by (auto simp: node_bytes_def area_def)

lemma node_area: "{addr e..<addr e + 32} \<subseteq> area e" "{addr e + 32..<addr e + 32 + esize e} \<subseteq> area e"
  by (auto simp: area_def)

lemma heap_data:
  assumes "heap_inv h" "\<And>a. m a \<noteq> ram h a \<Longrightarrow> \<exists>(p, k) \<in> allocated h. a \<in> {p..<p + k}"
  shows "heap_inv (h\<lparr>ram := m\<rparr>)" "allocated (h\<lparr>ram := m\<rparr>) = allocated h"
proof -
  obtain bs where rel: "heap_rel h bs" using assms(1) by (auto simp: heap_inv_def)
  have r2: "heap_rel (h\<lparr>ram := m\<rparr>) bs"
    using assms(2) by (intro heap_rel_data [OF rel]) (simp add: allocated_eq [OF rel])
  then show "heap_inv (h\<lparr>ram := m\<rparr>)" by (auto simp: heap_inv_def)
  show "allocated (h\<lparr>ram := m\<rparr>) = allocated h"
    unfolding allocated_eq [OF rel] allocated_eq [OF r2] by simp
qed

lemma owned_ram: "allocated h' = allocated h \<Longrightarrow> owned h' e = owned h e"
  by (simp add: owned_def)

text \<open>Changing the link of the last node of a segment.\<close>

lemma lseg_link:
  assumes "lseg m p (es @ [e]) r" "\<forall>x \<in> set (es @ [e]). entry_ok x" "q < 2 ^ 32"
    and "{addr e..<addr e + 32} \<inter> node_bytes es = {}"
  shows "lseg (wr32 (addr e + 28) q m) p (es @ [e]) q"
proof -
  let ?m = "wr32 (addr e + 28) q m"
  have seg: "lseg m p es (addr e)" "node_at m e" using assms(1) by (auto simp: lseg_append)
  have "lseg ?m p es (addr e)"
  proof (subst lseg_agree)
    fix b assume "b \<in> node_bytes es"
    with assms(4) have "\<not> (addr e \<le> b \<and> b < addr e + 32)" by auto
    then show "?m b = m b" by (intro wr32_other) auto
  qed (use assms(2) seg(1) in auto)
  moreover have "node_at ?m e"
  proof -
    have "str_at ?m (addr e) (ename e) = str_at m (addr e) (ename e)"
      using assms(2) by (intro str_at_agree wr32_other) (auto simp: entry_ok_def)
    with seg(2) show ?thesis by (simp add: node_at_def user_start_def user_size_def)
  qed
  moreover have "user_next ?m (addr e) = q" using assms(3) by (simp add: user_next_def)
  ultimately show ?thesis by (auto simp: lseg_append)
qed

lemma write_node_entry:
  assumes "length name < 20" "n < 2 ^ 32" "p + 32 < 2 ^ 32"
  shows "node_at (write_node p name n m) (p, name, n)" "user_next (write_node p name n m) p = 0"
    and "b \<notin> {p..<p + 32} \<Longrightarrow> write_node p name n m b = m b"
proof -
  let ?m = "write_node p name n m"
  have "str_at ?m p name = str_at (put_str p name m) p name"
    using assms(1) by (intro str_at_agree) (simp add: write_node_def wr32_other)
  then show "node_at ?m (p, name, n)"
    using assms(2,3) by (simp add: node_at_def user_start_def user_size_def write_node_def SIZEOF_dpm_user_rtm_def)
  show "user_next ?m p = 0" by (simp add: user_next_def write_node_def)
  show "b \<notin> {p..<p + 32} \<Longrightarrow> ?m b = m b"
    using assms(1) by (auto simp: write_node_def wr32_other put_str_other)
qed

lemma lseg_kept:
  assumes "lseg m p es q" "\<forall>e \<in> set es. entry_ok e" "\<And>e b. e \<in> set es \<Longrightarrow> b \<in> area e \<Longrightarrow> m' b = m b"
  shows "lseg m' p es q"
proof -
  have "m b = m' b" if "b \<in> node_bytes es" for b
    using assms(3) [symmetric] node_bytes_area [of es] that by blast
  from lseg_agree [OF this assms(2)] assms(1) show ?thesis by simp
qed

text \<open>Writing the link of a node of its own touches nothing else.\<close>

lemma set_user_next_frame:
  fixes v :: nat
  assumes "heap_inv (heap s)" "owned (heap s) l"
  defines "t \<equiv> set_user_next (addr l) v s"
  shows "ram (heap t) = wr32 (addr l + 28) v (ram (heap s))"
    and "heap_inv (heap t)" "allocated (heap t) = allocated (heap s)"
    and "b \<notin> {addr l + 28..<addr l + 32} \<Longrightarrow> ram (heap t) b = ram (heap s) b"
    and "owned (heap s) f \<Longrightarrow> addr f \<noteq> addr l \<Longrightarrow> b \<in> area f \<Longrightarrow> ram (heap t) b = ram (heap s) b"
    and "owned (heap s) f \<Longrightarrow> data_kept s t f"
    and "first_user_addr t = first_user_addr s" "free_ptr t = free_ptr s" "lfree (heap t) = lfree (heap s)"
proof -
  let ?m = "ram (heap s)"
  show m': "ram (heap t) = wr32 (addr l + 28) v ?m" by (simp add: t_def set_user_next_def)
  have out: "ram (heap t) b = ?m b" if "b \<notin> {addr l + 28..<addr l + 32}" for b
    using that unfolding m' by (intro wr32_other) auto
  obtain k where k: "(addr l, k) \<in> allocated (heap s)" "32 + esize l \<le> k"
    using assms(2) by (auto simp: owned_def)
  have ch: "\<exists>(p, k) \<in> allocated (heap s). a \<in> {p..<p + k}" if "wr32 (addr l + 28) v ?m a \<noteq> ?m a" for a
  proof -
    have "a \<in> {addr l + 28..<addr l + 32}" using out that unfolding m' by blast
    then have "a \<in> {addr l..<addr l + k}" using k(2) by auto
    with k(1) show ?thesis by blast
  qed
  show "heap_inv (heap t)" "allocated (heap t) = allocated (heap s)"
    using heap_data [OF assms(1) ch] by (simp_all add: t_def set_user_next_def)
  show "b \<notin> {addr l + 28..<addr l + 32} \<Longrightarrow> ram (heap t) b = ?m b" by (rule out)
  have sep: "ram (heap t) b = ?m b" if "owned (heap s) f" "addr f \<noteq> addr l" "b \<in> area f" for f b
  proof -
    have "b \<notin> {addr l..<addr l + 32}"
      using owned_separate [OF assms(1) that(1) assms(2) that(2)] node_area [of l] that(3) by blast
    then show ?thesis by (intro out) auto
  qed
  then show "owned (heap s) f \<Longrightarrow> addr f \<noteq> addr l \<Longrightarrow> b \<in> area f \<Longrightarrow> ram (heap t) b = ?m b" .
  show "owned (heap s) f \<Longrightarrow> data_kept s t f"
    using sep [of f] node_area(2) [of f] out by (cases "addr f = addr l") (auto simp: data_kept_def)
  show "first_user_addr t = first_user_addr s" "free_ptr t = free_ptr s" "lfree (heap t) = lfree (heap s)"
    by (simp_all add: t_def set_user_next_def)
qed

lemma owned_nodes:
  assumes "heap_inv h" "owned h l" "\<forall>x \<in> set xs. owned h x \<and> addr x \<noteq> addr l"
  shows "{addr l..<addr l + 32} \<inter> node_bytes xs = {}"
proof -
  have "area l \<inter> area x = {}" if "x \<in> set xs" for x
    using that assms(3) by (intro owned_separate [OF assms(1,2)]) auto
  then show ?thesis using node_area(1) [of l] node_bytes_area [of xs] by blast
qed

text \<open>Adding a node that is in memory but in no list.\<close>

lemma add_links:
  assumes rel: "pool_rel s es"
    and e: "entry_ok e" "owned (heap s) e" "node_at (ram (heap s)) e" "user_next (ram (heap s)) (addr e) = 0"
    and fresh: "ename e \<notin> ename ` set es" "addr e \<notin> addr ` set es"
  shows "\<exists>t. dpm_user_rtm_add (addr e) s = Some t \<and> pool_rel t (es @ [e]) \<and>
           (\<forall>f \<in> set (es @ [e]). data_kept s t f)"
proof -
  let ?m = "ram (heap s)"
  note r = pool_relD [OF rel]
  show ?thesis
  proof (cases es rule: rev_cases)
    case Nil
    then have "first_user_addr s = 0" using r(2) by simp
    with Nil r e show ?thesis
      by (auto simp: dpm_user_rtm_add_def pool_rel_def data_kept_def)
  next
    case (snoc xs l)
    have ne: "first_user_addr s \<noteq> 0" using r(2,3) snoc by (cases xs) (auto simp: entry_ok_def)
    have lp: "add_loop ?m (first_user_addr s) = Some (addr l)"
      using add_loop_last [of ?m "first_user_addr s" xs l] r(2,3) snoc by simp
    have l: "owned (heap s) l" "entry_ok l" "addr e \<noteq> addr l" using r(3,4) fresh(2) snoc by auto
    let ?t = "set_user_next (addr l) (addr e) s"
    note f = set_user_next_frame [OF r(1) l(1), where v = "addr e"]
    have lt: "addr e < 2 ^ 32"
      using e(2) allocated_range [OF r(1)] by (fastforce simp: owned_def)
    have "{addr l..<addr l + 32} \<inter> node_bytes xs = {}"
      using r(4,6) snoc by (intro owned_nodes [OF r(1) l(1)]) (auto simp: image_iff)
    then have "lseg (ram (heap ?t)) (first_user_addr s) (xs @ [l]) (addr e)"
      unfolding f(1) using r(2,3) snoc lt by (intro lseg_link) simp_all
    moreover have "lseg (ram (heap ?t)) (addr e) [e] 0"
    proof (rule lseg_kept [of ?m])
      show "lseg ?m (addr e) [e] 0" using e(3,4) by simp
    qed (use e(1,2) f(5) l(3) in auto)
    ultimately have seg: "lseg (ram (heap ?t)) (first_user_addr s) (es @ [e]) 0" by (auto simp: lseg_append snoc)
    have "pool_rel ?t (es @ [e])"
      unfolding pool_rel_def f(7,8,9) using seg f(2,3) r(3-7) e(1,2) fresh by (auto simp: owned_def)
    moreover have "dpm_user_rtm_add (addr e) s = Some ?t" using ne lp by (simp add: dpm_user_rtm_add_def)
    ultimately show ?thesis using f(6) r(4) e(2) by auto
  qed
qed

lemma keeps_area:
  assumes "\<forall>x \<in> allocated h. keeps h h' x" "owned h e" "b \<in> area e"
  shows "ram h' b = ram h b"
  using assms owned_area [OF assms(2)] by (fastforce simp: keeps_def)

lemma pool_search:
  assumes "pool_rel s es" "0 \<notin> set name"
  shows "dpm_user_rtm_search name s = Some (case find_name name es of None \<Rightarrow> 0 | Some e \<Rightarrow> addr e)"
proof -
  note r = pool_relD [OF assms(1)]
  note sl = search_loop_find [OF r(2,3) assms(2)]
  show ?thesis
  proof (cases "first_user_addr s = 0")
    case True
    then have "es = []" using r(2,3) by (cases es) (auto simp: entry_ok_def)
    with True show ?thesis by (simp add: dpm_user_rtm_search_def)
  qed (simp add: dpm_user_rtm_search_def sl)
qed

lemma allocate_spec:
  assumes rel: "pool_rel s es" and nm: "length nm < 20" "0 \<notin> set nm" "nm \<notin> ename ` set es"
    and n: "0 < n" "n + 32 < 2 ^ 16"
  shows "\<exists>t code ptr. user_rtm_pool_allocate (Some nm) n s = Some (t, code, ptr) \<and>
    (ptr = None \<longrightarrow> code = ER_NO_MEMORY \<and> pool_rel t es) \<and>
    (ptr \<noteq> None \<longrightarrow> code = ER_SUCCESS \<and> (\<exists>p. ptr = Some (p + 32) \<and> pool_rel t (es @ [(p, nm, n)]) \<and>
        (\<forall>b \<in> {p + 32..<p + 32 + n}. ram (heap t) b = 0))) \<and> (\<forall>e \<in> set es. data_kept s t e)"
proof -
  note r = pool_relD [OF rel]
  have srch: "dpm_user_rtm_search nm s = Some 0"
    using pool_search [OF rel nm(2)] find_name_None [of nm es] nm(3) by simp
  obtain h p where c: "da16x_dpm_rtm_mem_calloc (n + 32) 1 (heap s) = Some (h, p)" "heap_inv h"
    "p = 0 \<longrightarrow> allocated h = allocated (heap s) \<and> ram h = ram (heap s) \<and> lfree h = lfree (heap s)"
    "p \<noteq> 0 \<longrightarrow> (\<exists>k \<ge> n + 32. (p, k) \<notin> allocated (heap s) \<and> allocated h = insert (p, k) (allocated (heap s))) \<and>
       (\<forall>x \<in> allocated (heap s). keeps (heap s) h x) \<and> (\<forall>a \<in> {p..<p + (n + 32)}. ram h a = 0)"
    using calloc_spec [OF r(1), of "n + 32" 1] n by auto
  have un: "user_rtm_pool_allocate (Some nm) n s =
     (if p = 0 then Some (s\<lparr>heap := h\<rparr>, ER_NO_MEMORY, None)
      else (let s1 = s\<lparr>heap := h\<lparr>ram := write_node p nm n (ram h)\<rparr>, free_ptr := lfree h\<rparr>
            in (case dpm_user_rtm_add p s1 of None \<Rightarrow> None
                | Some s2 \<Rightarrow> Some (s2, ER_SUCCESS, Some (user_start (ram (heap s2)) p)))))"
    using n nm(1) srch c(1) by (simp add: user_rtm_pool_allocate_def bad_name_def REG_NAME_DPM_MAX_LEN_def
        SIZEOF_dpm_user_rtm_def da16x_dpm_rtm_mem_get_free_ptr_def)
  show ?thesis
  proof (cases "p = 0")
    case True
    then have "pool_rel (s\<lparr>heap := h\<rparr>) es" using True c r by (simp add: pool_rel_def owned_def)
    then show ?thesis using True un c(3) by (auto simp: data_kept_def)
  next
    case False
    then obtain k where k: "n + 32 \<le> k" "(p, k) \<notin> allocated (heap s)" "allocated h = insert (p, k) (allocated (heap s))"
      and kp: "\<forall>x \<in> allocated (heap s). keeps (heap s) h x" and z: "\<forall>a \<in> {p..<p + (n + 32)}. ram h a = 0"
      using c(4) by blast
    have pk: "p + k < 2 ^ 32" using allocated_range [OF c(2), of p k] k(3) by simp
    let ?e = "(p, nm, n)" let ?m = "write_node p nm n (ram h)"
    let ?s1 = "s\<lparr>heap := h\<lparr>ram := ?m\<rparr>, free_ptr := lfree h\<rparr>"
    note w = write_node_entry [where name = nm and n = n and p = p and m = "ram h"]
    have lt: "n < 2 ^ 32" "p + 32 < 2 ^ 32" using n(2) pk k(1) by simp_all
    have ch: "\<exists>(q, l) \<in> allocated h. a \<in> {q..<q + l}" if "?m a \<noteq> ram h a" for a
    proof -
      have "a \<in> {p..<p + 32}" using w(3) [OF nm(1) lt, of a] that by blast
      then have "a \<in> {p..<p + k}" using k(1) by auto
      then show ?thesis using k(3) by blast
    qed
    note hd = heap_data [OF c(2) ch]
    have own: "owned h e" if "e \<in> set es" for e using r(4) that k(3) by (auto simp: owned_def)
    have owe: "owned h ?e" using k by (auto simp: owned_def)
    have fa: "p \<notin> addr ` set es"
    proof
      assume "p \<in> addr ` set es"
      then obtain l where "(p, l) \<in> allocated (heap s)" using r(4) by (fastforce simp: owned_def)
      then show False using rtm_impl.separate [OF c(2), of p k p l] k allocated_range [OF c(2), of p l]
        allocated_range [OF c(2), of p k] by auto
    qed
    have kept: "?m b = ram (heap s) b" if e: "e \<in> set es" "b \<in> area e" for e b
    proof -
      have "area ?e \<inter> area e = {}"
        using owe own [OF e(1)] fa e(1) by (intro owned_separate [OF c(2)]) auto
      then have "b \<notin> {p..<p + 32}" using e(2) node_area(1) [of ?e] by auto
      then have "?m b = ram h b" by (rule w(3) [OF nm(1) lt])
      also have "\<dots> = ram (heap s) b" using keeps_area [OF kp _ e(2)] r(4) e(1) by blast
      finally show ?thesis .
    qed
    have "lseg ?m (first_user_addr s) es 0" by (rule lseg_kept [OF r(2,3) kept])
    then have rel1: "pool_rel ?s1 es"
      using hd r(3,5,6) own by (simp add: pool_rel_def owned_def)
    have nd: "entry_ok ?e" "owned (heap ?s1) ?e" "node_at (ram (heap ?s1)) ?e" "user_next (ram (heap ?s1)) (addr ?e) = 0"
      using w(1,2) [OF nm(1) lt] nm(1,2) False owe hd(2) by (simp_all add: entry_ok_def owned_def)
    obtain t where t: "dpm_user_rtm_add p ?s1 = Some t" "pool_rel t (es @ [?e])"
      "\<forall>f \<in> set (es @ [?e]). data_kept ?s1 t f"
      using add_links [OF rel1 nd] nm(3) fa by auto
    have "lseg (ram (heap t)) (first_user_addr t) (es @ [?e]) 0" using pool_relD(2) [OF t(2)] .
    then have st: "user_start (ram (heap t)) p = p + 32" by (auto simp: lseg_append node_at_def)
    have d1: "data_kept s t e" if "e \<in> set es" for e
      using t(3) kept [OF that] node_area(2) [of e] that by (auto simp: data_kept_def)
    have "ram (heap t) b = 0" if "b \<in> {p + 32..<p + 32 + n}" for b
    proof -
      have "ram (heap t) b = ?m b" using t(3) that by (simp add: data_kept_def)
      also have "\<dots> = ram h b" using that by (intro w(3) [OF nm(1) lt]) auto
      also have "\<dots> = 0" using z that by auto
      finally show ?thesis .
    qed
    then show ?thesis using un False t(1,2) st d1 by auto
  qed
qed

lemma data_kept_area:
  assumes "data_kept s s1 f" "\<And>b. b \<in> area f \<Longrightarrow> ram (heap t) b = ram (heap s1) b"
  shows "data_kept s t f"
  using assms node_area(2) [of f] by (auto simp: data_kept_def subset_iff)

lemma takeWhile_before:
  "name \<notin> ename ` set xs \<Longrightarrow> ename e = name \<Longrightarrow> takeWhile (\<lambda>e. ename e \<noteq> name) (xs @ e # ys) = xs"
  by (induction xs) auto

lemma remove_unlinks:
  assumes rel: "pool_rel s (xs @ e # ys)" and nm: "ename e = nm"
  shows "\<exists>t. dpm_user_rtm_remove nm s = Some (t, addr e) \<and> heap_inv (heap t) \<and>
     allocated (heap t) = allocated (heap s) \<and> lseg (ram (heap t)) (first_user_addr t) (xs @ ys) 0 \<and>
     (\<forall>f \<in> set (xs @ e # ys). data_kept s t f)"
proof -
  let ?m = "ram (heap s)"
  note r = pool_relD [OF rel]
  have nz: "0 \<notin> set nm" using r(3) nm by (auto simp: entry_ok_def)
  have seg: "lseg ?m (first_user_addr s) xs (addr e)" "node_at ?m e" "lseg ?m (user_next ?m (addr e)) ys 0"
    using r(2) by (auto simp: lseg_append)
  have ne: "first_user_addr s \<noteq> 0" using r(2,3) by (cases xs) (auto simp: entry_ok_def)
  have nx: "nm \<notin> ename ` set xs" using r(5) nm by auto
  show ?thesis
  proof (cases xs)
    case Nil
    then have "first_user_addr s = addr e" "str_at ?m (addr e) nm"
      using seg(1,2) nm by (auto simp: node_at_def)
    with ne seg(3) r(1) Nil show ?thesis
      by (auto simp: dpm_user_rtm_remove_def Let_def data_kept_def)
  next
    case (Cons f fs)
    have f0: "first_user_addr s = addr f" "node_at ?m f" "entry_ok f" using seg(1) r(3) Cons by auto
    have no: "\<not> str_at ?m (addr f) nm" using node_name [OF f0(2,3) nz] nx Cons by auto
    have fnd: "find_name nm (fs @ e # ys) = Some e"
    proof -
      have "find_name nm (zs @ e # ys) = Some e" if "nm \<notin> ename ` set zs" for zs
        using that nm by (induction zs) auto
      with nx Cons show ?thesis by auto
    qed
    obtain ws l where ws: "xs = ws @ [l]" using Cons by (metis list.distinct(1) rev_exhaust)
    have "nm \<notin> ename ` set fs" using nx Cons by simp
    then have "takeWhile (\<lambda>e. ename e \<noteq> nm) (fs @ e # ys) = fs" using nm by (rule takeWhile_before)
    moreover have "last (f # fs) = l" using ws Cons by (metis last_snoc)
    ultimately have "last (f # takeWhile (\<lambda>e. ename e \<noteq> nm) (fs @ e # ys)) = l" by simp
    then have lp: "remove_loop ?m nm (addr f) = Some (Some (addr l, addr e))"
      using remove_loop_find [of ?m "addr f" f "fs @ e # ys" nm] r(2,3) nz fnd Cons f0(1) by simp
    have l: "owned (heap s) l" "entry_ok l" using r(3,4) ws by auto
    let ?q = "user_next ?m (addr e)"
    let ?t = "set_user_next (addr l) ?q s"
    note fr = set_user_next_frame [OF r(1) l(1), where v = ?q]
    have "{addr l..<addr l + 32} \<inter> node_bytes ws = {}"
      using r(4,6) ws by (intro owned_nodes [OF r(1) l(1)]) (auto simp: image_iff)
    then have "lseg (ram (heap ?t)) (first_user_addr s) (ws @ [l]) ?q"
      unfolding fr(1) using seg(1) r(3) ws rd32_lt [of ?m "addr e + 28"]
      by (intro lseg_link) (auto simp: user_next_def)
    moreover have "lseg (ram (heap ?t)) ?q ys 0"
    proof (rule lseg_kept [OF seg(3)])
      fix g b assume g: "g \<in> set ys" "b \<in> area g"
      have "addr g \<noteq> addr l" using r(6) ws g(1) by (auto simp: image_iff)
      then show "ram (heap ?t) b = ?m b" using fr(5) [of g b] r(4) g by auto
    qed (use r(3) in auto)
    ultimately have "lseg (ram (heap ?t)) (first_user_addr ?t) (xs @ ys) 0"
      unfolding fr(7) by (auto simp: lseg_append ws)
    moreover have "dpm_user_rtm_remove nm s = Some (?t, addr e)"
      using ne no lp by (simp add: dpm_user_rtm_remove_def Let_def f0(1))
    ultimately show ?thesis using fr(2,3,6) r(4) by blast
  qed
qed

lemma release_spec:
  assumes rel: "pool_rel s es" and nm: "find_name nm es = Some e"
  shows "\<exists>t. user_rtm_release (Some nm) s = Some (t, 0) \<and> pool_rel t (remove1 e es) \<and>
     (\<forall>f \<in> set (remove1 e es). data_kept s t f)"
proof -
  obtain xs ys where es: "es = xs @ e # ys" "ename e = nm" "nm \<notin> ename ` set xs" using find_name_Some [OF nm] by blast
  note r = pool_relD [OF rel]
  have rm: "remove1 e es = xs @ ys" using es by (auto simp: remove1_append)
  obtain s1 where s1: "dpm_user_rtm_remove nm s = Some (s1, addr e)" "heap_inv (heap s1)"
    "allocated (heap s1) = allocated (heap s)" "lseg (ram (heap s1)) (first_user_addr s1) (xs @ ys) 0"
    "\<forall>f \<in> set (xs @ e # ys). data_kept s s1 f"
    using remove_unlinks [of s xs e ys nm] rel es by auto
  have e: "entry_ok e" "owned (heap s) e" using r(3,4) es by auto
  then obtain k where k: "(addr e, k) \<in> allocated (heap s1)" by (auto simp: owned_def s1(3))
  let ?h = "da16x_dpm_rtm_mem_free (addr e) (heap s1)"
  let ?t = "s1\<lparr>heap := ?h, free_ptr := lfree ?h\<rparr>"
  note fs = free_spec [OF s1(2) k]
  have ad: "addr f \<noteq> addr e" if "f \<in> set (xs @ ys)" for f
    using r(6) es(1) that by (auto simp: image_iff)
  have own: "owned ?h f" if "f \<in> set (xs @ ys)" for f
    using r(4) es(1) that ad [OF that] by (fastforce simp: owned_def fs(2) s1(3))
  have own1: "owned (heap s1) f" if "f \<in> set (xs @ ys)" for f
    using r(4) es(1) that by (auto simp: owned_def s1(3))
  have kept: "ram ?h b = ram (heap s1) b" if "f \<in> set (xs @ ys)" "b \<in> area f" for f b
    using keeps_area [OF fs(3) own1 [OF that(1)] that(2)] .
  have "lseg (ram ?h) (first_user_addr s1) (xs @ ys) 0"
    using r(3) es(1) by (intro lseg_kept [OF s1(4) _ kept]) auto
  then have "pool_rel ?t (xs @ ys)"
    using fs(1) own r(3,5,6) es(1) by (auto simp: pool_rel_def)
  moreover have "user_rtm_release (Some nm) s = Some (?t, 0)"
    using e es(2) s1(1) by (auto simp: user_rtm_release_def bad_name_def REG_NAME_DPM_MAX_LEN_def entry_ok_def
        da16x_dpm_rtm_mem_get_free_ptr_def Let_def)
  moreover have "data_kept s ?t f" if "f \<in> set (xs @ ys)" for f
  proof -
    have "data_kept s s1 f" using s1(5) that by auto
    then show ?thesis using kept [OF that] by (elim data_kept_area) simp
  qed
  ultimately show ?thesis by (auto simp: rm)
qed

lemma get_spec:
  assumes rel: "pool_rel s es" and nm: "length nm < 20" "0 \<notin> set nm"
  shows "user_rtm_get (Some nm) s = Some (case find_name nm es of None \<Rightarrow> (0, None)
     | Some e \<Rightarrow> (esize e, Some (addr e + 32)))"
proof (cases "find_name nm es")
  case None
  with pool_search [OF rel nm(2)] nm(1) show ?thesis
    by (simp add: user_rtm_get_def bad_name_def REG_NAME_DPM_MAX_LEN_def)
next
  case (Some e)
  then obtain xs ys where es: "es = xs @ e # ys" using find_name_Some by blast
  have "node_at (ram (heap s)) e" "addr e \<noteq> 0"
    using pool_relD(2,3) [OF rel] es by (auto simp: lseg_append entry_ok_def)
  with pool_search [OF rel nm(2)] nm(1) Some show ?thesis
    by (simp add: user_rtm_get_def bad_name_def REG_NAME_DPM_MAX_LEN_def node_at_def)
qed

end
