(* ===== verification/Pool_Claims.thy ===== *)
theory Pool_Claims
  imports Pool_Props
begin

text \<open>
  The guarantees of the pool of named user data, stated over its operations.
\<close>

section \<open>A pool to run on\<close>

definition demo_pool :: user_pool where
  "demo_pool = dpm_user_rtm_pool_create False False
     \<lparr>heap = zero_heap, free_ptr = 0, first_user_addr = 0, init_done = False\<rparr>"

lemma create_cold:
  assumes "\<not> init_done s"
  defines "t \<equiv> dpm_user_rtm_pool_create False False s"
  shows "pool_rel t []" "rtm (heap t) = RTM_USER_DATA_PTR" "rtm_size (heap t) = 8184"
    "heap_rel (heap t) [(8184, False)]" "first_user_addr t = 0" "init_done t"
proof -
  let ?z = "memset_zero RTM_USER_DATA_PTR USER_DATA_ALLOC_SZ (heap s)"
  let ?h = "da16x_dpm_rtm_mem_init RTM_USER_DATA_PTR USER_DATA_ALLOC_SZ ?z"
  have t: "t = s\<lparr>heap := ?h, free_ptr := lfree ?h, first_user_addr := 0, init_done := True\<rparr>"
    using assms(1) by (simp add: t_def dpm_user_rtm_pool_create_def dpm_user_rtm_clear_def
        dpm_user_rtm_pool_clear_def da16x_dpm_rtm_mem_get_free_ptr_def Let_def)
  have r: "heap_rel ?h [(8184, False)]" "rtm ?h = RTM_USER_DATA_PTR"
    using init_rel [of RTM_USER_DATA_PTR USER_DATA_ALLOC_SZ ?z]
    by (simp_all add: RTM_USER_DATA_PTR_def USER_DATA_ALLOC_SZ_def)
  show "rtm_size (heap t) = 8184"
    by (simp add: t da16x_dpm_rtm_mem_init_def heap_bounds_def set_rtm_end_def Let_def sub32_def
        SIZEOF_STRUCT_RTM_MEM_def USER_DATA_ALLOC_SZ_def)
  have "heap_inv ?h" using r(1) by (auto simp: heap_inv_def)
  then show "pool_rel t []" by (simp add: t pool_rel_def)
  show "rtm (heap t) = RTM_USER_DATA_PTR" "heap_rel (heap t) [(8184, False)]" "first_user_addr t = 0" "init_done t"
    using r by (simp_all add: t)
qed

lemma demo_pool_rel:
  "pool_rel demo_pool []" "rtm (heap demo_pool) = RTM_USER_DATA_PTR" "rtm_size (heap demo_pool) = 8184"
  "heap_rel (heap demo_pool) [(8184, False)]" "first_user_addr demo_pool = 0" "init_done demo_pool"
  unfolding demo_pool_def by (rule create_cold; simp)+

section \<open>Allocation, lookup, release\<close>

lemma find_name_snoc:
  "find_name nm (es @ [e]) = (case find_name nm es of None \<Rightarrow> if ename e = nm then Some e else None | Some f \<Rightarrow> Some f)"
  by (induction es) auto

text \<open>
  C9. Allocating fewer than 65504 bytes under a new name of at most 19 characters always returns. Without memory it reports so and nothing is
  lost. Otherwise looking the name up gives the requested size and the returned pointer, the new
  data is all zero, and every other name is found as before, with its data untouched. The limit is that of the 16-bit size of the heap, which the code does not
  check: \<open>pool_allocate_truncates\<close> shows the success with a smaller block beyond it.
\<close>

theorem pool_allocate_correct:
  assumes "pool_rel s es" "length nm < 20" "0 \<notin> set nm" "nm \<notin> ename ` set es" "0 < n" "n + 32 < 2 ^ 16"
  shows "\<exists>t code ptr. user_rtm_pool_allocate (Some nm) n s = Some (t, code, ptr) \<and>
    (if ptr = None then code = ER_NO_MEMORY \<and> pool_rel t es
     else code = ER_SUCCESS \<and> (\<exists>p. ptr = Some (p + 32) \<and> pool_rel t (es @ [(p, nm, n)]) \<and>
       (\<forall>b \<in> {p + 32..<p + 32 + n}. ram (heap t) b = 0)) \<and> user_rtm_get (Some nm) t = Some (n, ptr)) \<and>
    (\<forall>e \<in> set es. user_rtm_get (Some (ename e)) t = user_rtm_get (Some (ename e)) s \<and> data_kept s t e)"
proof -
  obtain t code ptr where a: "user_rtm_pool_allocate (Some nm) n s = Some (t, code, ptr)"
    "ptr = None \<longrightarrow> code = ER_NO_MEMORY \<and> pool_rel t es"
    "ptr \<noteq> None \<longrightarrow> code = ER_SUCCESS \<and> (\<exists>p. ptr = Some (p + 32) \<and> pool_rel t (es @ [(p, nm, n)]) \<and>
        (\<forall>b \<in> {p + 32..<p + 32 + n}. ram (heap t) b = 0))"
    "\<forall>e \<in> set es. data_kept s t e"
    using allocate_spec [OF assms] by blast
  have ok: "length (ename e) < 20" "0 \<notin> set (ename e)" if "e \<in> set es" for e
    using pool_relD(3) [OF assms(1)] that by (auto simp: entry_ok_def)
  have fn: "find_name nm es = None" using assms(4) by (simp add: find_name_None)
  show ?thesis
  proof (cases ptr)
    case None
    then have "pool_rel t es" using a(2) by simp
    then have "user_rtm_get (Some (ename e)) t = user_rtm_get (Some (ename e)) s" if "e \<in> set es" for e
      using get_spec [OF _ ok [OF that]] assms(1) by simp
    with None a show ?thesis by simp
  next
    case (Some d)
    then obtain p where p: "d = p + 32" "pool_rel t (es @ [(p, nm, n)])"
      "\<forall>b \<in> {p + 32..<p + 32 + n}. ram (heap t) b = 0" using a(3) by auto
    have "user_rtm_get (Some (ename e)) t = user_rtm_get (Some (ename e)) s" if "e \<in> set es" for e
    proof -
      have "find_name (ename e) es \<noteq> None" using that by (simp add: find_name_None)
      then have "find_name (ename e) (es @ [(p, nm, n)]) = find_name (ename e) es"
        by (auto simp: find_name_snoc)
      then show ?thesis using get_spec [OF p(2) ok [OF that]] get_spec [OF assms(1) ok [OF that]] by simp
    qed
    moreover have "user_rtm_get (Some nm) t = Some (n, ptr)"
      using get_spec [OF p(2) assms(2,3)] fn Some p(1) by (simp add: find_name_snoc)
    ultimately show ?thesis using Some a p by auto
  qed
qed

theorem pool_allocate_correct_witness:
  "\<exists>t code ptr. user_rtm_pool_allocate (Some [97]) 100 demo_pool = Some (t, code, ptr) \<and>
     (ptr \<noteq> None \<longrightarrow> user_rtm_get (Some [97]) t = Some (100, ptr))"
  using pool_allocate_correct [OF demo_pool_rel(1), of "[97]" 100] by (auto split: if_splits)

text \<open>
  C38. A name that is too long, the null pointer or a size of zero is refused; so is a name that is
  already there. In both cases nothing changes.
\<close>

theorem pool_allocate_refuses:
  assumes "pool_rel s es"
  shows "(bad_name name \<or> n = 0 \<longrightarrow>
            user_rtm_pool_allocate name n s = Some (s, ER_INVALID_PARAMETERS, None)) \<and>
         (e \<in> set es \<and> 0 < n \<longrightarrow>
            user_rtm_pool_allocate (Some (ename e)) n s = Some (s, ER_DUPLICATED_ENTRY, None))"
proof (intro conjI impI)
  assume "e \<in> set es \<and> 0 < n"
  then have e: "e \<in> set es" "0 < n" by auto
  have ok: "entry_ok e" using pool_relD(3) [OF assms] e(1) by blast
  obtain f where f: "find_name (ename e) es = Some f" using e(1) find_name_None [of "ename e" es] by fastforce
  then have "addr f \<noteq> 0"
    using find_name_Some [OF f] pool_relD(3) [OF assms] by (auto simp: entry_ok_def)
  then show "user_rtm_pool_allocate (Some (ename e)) n s = Some (s, ER_DUPLICATED_ENTRY, None)"
    using pool_search [OF assms, of "ename e"] ok f e(2)
    by (simp add: user_rtm_pool_allocate_def bad_name_def REG_NAME_DPM_MAX_LEN_def entry_ok_def)
qed (auto simp: user_rtm_pool_allocate_def)

theorem pool_allocate_refuses_witness:
  "user_rtm_pool_allocate None 4 demo_pool = Some (demo_pool, ER_INVALID_PARAMETERS, None)"
  using pool_allocate_refuses [OF demo_pool_rel(1), of None 4] by (simp add: bad_name_def)

text \<open>
  C10. Releasing a name frees its memory: afterwards the name is unknown, and every other name is
  found as before with its data untouched. An unknown name is reported and nothing changes.
\<close>

theorem pool_release_correct:
  assumes "pool_rel s es" "length nm < 20" "0 \<notin> set nm"
  shows "\<exists>t code. user_rtm_release (Some nm) s = Some (t, code) \<and> user_rtm_get (Some nm) t = Some (0, None) \<and>
    (if nm \<in> ename ` set es
     then code = 0 \<and> (\<exists>e \<in> set es. ename e = nm \<and> pool_rel t (remove1 e es) \<and>
       (\<forall>f \<in> set es - {e}. user_rtm_get (Some (ename f)) t = user_rtm_get (Some (ename f)) s \<and> data_kept s t f))
     else code = ER_NOT_FOUND \<and> t = s)"
proof (cases "find_name nm es")
  case None
  have "dpm_user_rtm_remove nm s = Some (s, 0)"
  proof (cases es)
    case Nil
    then have "first_user_addr s = 0" using pool_relD(2) [OF assms(1)] by simp
    then show ?thesis by (simp add: dpm_user_rtm_remove_def)
  next
    case (Cons f fs)
    note r = pool_relD [OF assms(1)]
    have f: "first_user_addr s = addr f" "node_at (ram (heap s)) f" "entry_ok f" using r(2,3) Cons by auto
    have "remove_loop (ram (heap s)) nm (addr f) = Some None"
      using remove_loop_find [of "ram (heap s)" "addr f" f fs nm] r(2,3) Cons assms(3) None f(1)
      by (simp split: if_splits)
    moreover have "\<not> str_at (ram (heap s)) (addr f) nm" using node_name [OF f(2,3) assms(3)] None Cons by auto
    ultimately show ?thesis using f(1,3) by (simp add: dpm_user_rtm_remove_def Let_def entry_ok_def)
  qed
  then have "user_rtm_release (Some nm) s = Some (s, ER_NOT_FOUND)"
    using assms(2) by (simp add: user_rtm_release_def bad_name_def REG_NAME_DPM_MAX_LEN_def)
  moreover have "user_rtm_get (Some nm) s = Some (0, None)" using get_spec [OF assms] None by simp
  ultimately show ?thesis using None by (simp add: find_name_None)
next
  case (Some e)
  obtain t where t: "user_rtm_release (Some nm) s = Some (t, 0)" "pool_rel t (remove1 e es)"
    "\<forall>f \<in> set (remove1 e es). data_kept s t f" using release_spec [OF assms(1) Some] by blast
  note r = pool_relD [OF assms(1)]
  have d: "distinct es" using r(6) by (simp add: distinct_map)
  have inj: "inj_on ename (set es)" using r(5) by (simp add: distinct_map)
  have e: "e \<in> set es" "ename e = nm" using find_name_Some [OF Some] by auto
  have rm: "set (remove1 e es) = set es - {e}" using d by simp
  have "f = e" if "f \<in> set es" "ename f = nm" for f
    using inj_onD [OF inj _ that(1) e(1)] that(2) e(2) by simp
  then have "nm \<notin> ename ` set (remove1 e es)"
    unfolding rm by auto
  then have "user_rtm_get (Some nm) t = Some (0, None)"
    using get_spec [OF t(2) assms(2,3)] find_name_None [of nm "remove1 e es"] by simp
  moreover have "user_rtm_get (Some (ename f)) t = user_rtm_get (Some (ename f)) s" if f: "f \<in> set es - {e}" for f
  proof -
    have fnd: "find_name (ename f) xs = Some f" if "f \<in> set xs" "set xs \<subseteq> set es" for xs
    proof -
      have "find_name (ename f) xs \<noteq> None" using that(1) by (simp add: find_name_None)
      then obtain g where g: "find_name (ename f) xs = Some g" by blast
      then have "ename g = ename f" "g \<in> set xs" using find_name_Some [OF g] by auto
      with inj_onD [OF inj] that f g show ?thesis by blast
    qed
    have ok: "length (ename f) < 20" "0 \<notin> set (ename f)" using r(3) f by (auto simp: entry_ok_def)
    show ?thesis
      using get_spec [OF t(2) ok] get_spec [OF assms(1) ok] fnd [of es] fnd [of "remove1 e es"] f rm by auto
  qed
  ultimately show ?thesis using t e rm by auto
qed

theorem pool_release_correct_witness:
  "\<exists>t code. user_rtm_release (Some [97]) demo_pool = Some (t, code) \<and> code = ER_NOT_FOUND"
  using pool_release_correct [OF demo_pool_rel(1), of "[97]"] by auto

section \<open>Sleep\<close>

lemma pool_recovered:
  assumes "pool_rel s es" "rtm (heap s) = RTM_USER_DATA_PTR" "rtm_size (heap s) = 8184"
    and "\<forall>a < rtm_end (heap s). ram (heap w) a = ram (heap s) a"
    and "first_user_addr w = first_user_addr s" "free_ptr w = free_ptr s" "\<not> init_done w"
  shows "let t = dpm_user_rtm_pool_create True boot_mode w in
     pool_rel t es \<and> init_done t \<and> (\<forall>e \<in> set es. data_kept s t e)"
proof -
  note r = pool_relD [OF assms(1)]
  obtain bs where rel: "heap_rel (heap s) bs" using r(1) by (auto simp: heap_inv_def)
  let ?h = "da16x_dpm_rtm_mem_recovery RTM_USER_DATA_PTR USER_DATA_ALLOC_SZ (free_ptr s) (heap w)"
  have hb: "rtm (heap_bounds RTM_USER_DATA_PTR USER_DATA_ALLOC_SZ (heap w)) = rtm (heap s)"
    "rtm_size (heap_bounds RTM_USER_DATA_PTR USER_DATA_ALLOC_SZ (heap w)) = rtm_size (heap s)"
    using assms(2,3) by (simp_all add: heap_bounds_def sub32_def SIZEOF_STRUCT_RTM_MEM_def
        RTM_USER_DATA_PTR_def USER_DATA_ALLOC_SZ_def)
  from recovery_rel [OF rel hb assms(4)]
  have h: "heap_rel ?h bs" "allocated ?h = allocated (heap s)" "\<forall>x \<in> allocated (heap s). keeps (heap s) ?h x"
    by (simp_all add: Let_def da16x_dpm_rtm_mem_get_free_ptr_def r(7))
  have t: "dpm_user_rtm_pool_create True boot_mode w = w\<lparr>heap := ?h, init_done := True\<rparr>"
    using assms(6,7) by (simp add: dpm_user_rtm_pool_create_def Let_def)
  have kept: "ram ?h b = ram (heap s) b" if "e \<in> set es" "b \<in> area e" for e b
    using keeps_area [OF h(3) _ that(2)] r(4) that(1) by blast
  have "lseg (ram ?h) (first_user_addr s) es 0" by (rule lseg_kept [OF r(2,3) kept])
  moreover have "lfree ?h = free_ptr s" by (simp add: da16x_dpm_rtm_mem_recovery_def)
  moreover have "heap_inv ?h" using h(1) by (auto simp: heap_inv_def)
  ultimately have "pool_rel (w\<lparr>heap := ?h, init_done := True\<rparr>) es"
    using r(3-6) h(2) assms(5,6) by (auto simp: pool_rel_def owned_def)
  moreover have "data_kept s (w\<lparr>heap := ?h, init_done := True\<rparr>) e" if "e \<in> set es" for e
    using kept [OF that] node_area(2) [of e] by (auto simp: data_kept_def subset_iff)
  ultimately show ?thesis by (simp add: t Let_def)
qed

text \<open>
  C34. The pool survives sleep: when the retention memory and the pool header are what is left of a
  pool, creating the pool on wake-up gives back every name with its size, its address and its data.
\<close>

theorem pool_survives_sleep:
  assumes "pool_rel s es" "rtm (heap s) = RTM_USER_DATA_PTR" "rtm_size (heap s) = 8184"
    and "\<forall>a < rtm_end (heap s). ram (heap w) a = ram (heap s) a"
    and "first_user_addr w = first_user_addr s" "free_ptr w = free_ptr s" "\<not> init_done w"
  shows "let t = dpm_user_rtm_pool_create True boot_mode w in
     pool_rel t es \<and> init_done t \<and> (\<forall>e \<in> set es. data_kept s t e)"
  by (rule pool_recovered [OF assms])

theorem pool_survives_sleep_witness:
  "pool_rel (dpm_user_rtm_pool_create True False (demo_pool\<lparr>init_done := False\<rparr>)) []"
  using pool_survives_sleep [OF demo_pool_rel(1-3), of "demo_pool\<lparr>init_done := False\<rparr>" False]
  by (simp add: Let_def)

section \<open>Two faults\<close>

text \<open>
  A request of 64 KiB or more is not refused: the sum of the size and the node is cut to 16 bits
  before it reaches the allocator. In an empty pool a request for 65536 + n bytes succeeds whenever
  n + 32 bytes are free, and the name is then reported with a size that reaches beyond the heap.
\<close>

theorem pool_allocate_truncates:
  assumes "pool_rel s []" "length nm < 20" "0 \<notin> set nm" "n + 32 < 2 ^ 16" "\<exists>k \<in> free_sizes (heap s). n + 48 \<le> k"
  shows "\<exists>t p. user_rtm_pool_allocate (Some nm) (65536 + n) s = Some (t, ER_SUCCESS, Some (p + 32)) \<and>
     user_rtm_get (Some nm) t = Some (65536 + n, Some (p + 32)) \<and>
     rtm (heap t) + SIZE_ALIGNED (heap s) < p + 32 + (65536 + n)"
proof -
  note r = pool_relD [OF assms(1)]
  have f0: "first_user_addr s = 0" using r(2) by simp
  let ?n = "n + 32"
  obtain h p where m: "da16x_dpm_rtm_mem_malloc ?n (heap s) = Some (h, p)" "heap_inv h" "rtm h = rtm (heap s)"
    "p = 0 \<longrightarrow> (\<forall>k \<in> free_sizes (heap s). k < block_size ?n) \<or> 65532 < ?n"
    "p \<noteq> 0 \<longrightarrow> (\<exists>k \<ge> ?n. allocated h = insert (p, k) (allocated (heap s)))"
    using malloc_spec [OF r(1), of ?n] assms(4) by auto
  obtain bs where bs: "heap_rel (heap s) bs" using r(1) by (auto simp: heap_inv_def)
  have tot: "total bs = SIZE_ALIGNED (heap s)" "SIZE_ALIGNED (heap s) < 65536"
    using heap_relD(1) [OF bs] by (simp_all add: heap_links_def)
  obtain k0 where k0: "k0 \<in> free_sizes (heap s)" "n + 48 \<le> k0" using assms(5) by blast
  then obtain q where q: "(q, False) \<in> set bs" "k0 = q - 8" by (auto simp: free_sizes_eq [OF bs])
  then have "q \<le> total bs" by (auto simp: total_def dest!: split_list)
  then have small: "?n \<le> 65532" using k0(2) q(2) tot by simp
  then have "block_size ?n < ?n + 16" using block_size_props(3) [OF block_size_ge, of ?n] by simp
  then have p0: "p \<noteq> 0" using m(4) k0 small by fastforce
  then obtain k where k: "?n \<le> k" "allocated h = insert (p, k) (allocated (heap s))" using m(5) by blast
  have rng: "rtm h + 8 \<le> p" "p + k < 2 ^ 32" using allocated_range [OF m(2), of p k] k(2) by auto
  let ?h = "memset_zero p ?n h" let ?m = "write_node p nm (65536 + n) (ram ?h)"
  have c: "da16x_dpm_rtm_mem_calloc ?n 1 (heap s) = Some (?h, p)"
    using m(1) assms(4) p0 by (simp add: da16x_dpm_rtm_mem_calloc_def Let_def)
  have cut: "(65536 + n + SIZEOF_dpm_user_rtm) mod 2 ^ 32 mod 2 ^ 16 = ?n"
  proof -
    have "65536 + n + SIZEOF_dpm_user_rtm = ?n + 65536" by (simp add: SIZEOF_dpm_user_rtm_def)
    moreover have "(?n + 65536) mod 2 ^ 32 = ?n + 65536" using assms(4) by simp
    moreover have "(?n + 65536) mod 2 ^ 16 = ?n" using mod_add_self2 [of ?n 65536] assms(4) by simp
    ultimately show ?thesis by (simp only:)
  qed
  have lt: "65536 + n < 2 ^ 32" "p + 32 < 2 ^ 32" using assms(4) rng(2) k(1) by simp_all
  note w = write_node_entry [OF assms(2) lt, where m = "ram ?h"]
  have nd: "user_start ?m p = p + 32" "user_size ?m p = 65536 + n" "str_at ?m p nm"
    using w(1) by (simp_all add: node_at_def)
  let ?t = "s\<lparr>heap := ?h\<lparr>ram := ?m\<rparr>, free_ptr := lfree ?h, first_user_addr := p\<rparr>"
  have a: "user_rtm_pool_allocate (Some nm) (65536 + n) s = Some (?t, ER_SUCCESS, Some (p + 32))"
    unfolding user_rtm_pool_allocate_def cut
    using assms(2) c p0 f0 nd(1) by (simp add: bad_name_def REG_NAME_DPM_MAX_LEN_def dpm_user_rtm_search_def
        dpm_user_rtm_add_def da16x_dpm_rtm_mem_get_free_ptr_def Let_def)
  have "search_loop ?m nm p = Some p" using p0 nd(3) by (subst search_loop.simps) simp
  then have "user_rtm_get (Some nm) ?t = Some (65536 + n, Some (p + 32))"
    using assms(2) p0 nd by (simp add: user_rtm_get_def bad_name_def REG_NAME_DPM_MAX_LEN_def dpm_user_rtm_search_def)
  moreover have "rtm (heap ?t) = rtm h" by (simp add: memset_zero_def)
  ultimately show ?thesis using a rng(1) tot(2) by (intro exI [of _ ?t] exI [of _ p]) simp
qed

theorem pool_allocate_truncates_witness:
  "\<exists>t p. user_rtm_pool_allocate (Some [97]) 65536 demo_pool = Some (t, ER_SUCCESS, Some (p + 32)) \<and>
     user_rtm_get (Some [97]) t = Some (65536, Some (p + 32))"
  using pool_allocate_truncates [OF demo_pool_rel(1), of "[97]" 0] free_sizes_eq [OF demo_pool_rel(4)] by auto

text \<open>
  Deleting the pool leaves it unusable: the heap's memory is zeroed, end marker included, but the
  pool still counts as initialised, so creating it again does nothing and the heap stays broken.
\<close>

theorem pool_delete_not_recreated:
  assumes "pool_rel s es" "rtm (heap s) = RTM_USER_DATA_PTR" "rtm_size (heap s) = 8184" "init_done s"
  shows "dpm_user_rtm_pool_create wakeup boot_mode (dpm_user_rtm_pool_delete s) = dpm_user_rtm_pool_delete s \<and>
         \<not> heap_inv (heap (dpm_user_rtm_pool_delete s))"
proof
  show "dpm_user_rtm_pool_create wakeup boot_mode (dpm_user_rtm_pool_delete s) = dpm_user_rtm_pool_delete s"
    using assms(4) by (simp add: dpm_user_rtm_pool_create_def dpm_user_rtm_pool_delete_def
        dpm_user_rtm_clear_def dpm_user_rtm_pool_clear_def)
  let ?h = "heap (dpm_user_rtm_pool_delete s)"
  have h: "?h = memset_zero RTM_USER_DATA_PTR USER_DATA_ALLOC_SZ (heap s)"
    by (simp add: dpm_user_rtm_pool_delete_def dpm_user_rtm_clear_def dpm_user_rtm_pool_clear_def)
  have sz: "SIZE_ALIGNED ?h = 8184" "rtm ?h = RTM_USER_DATA_PTR"
    using assms(2,3) by (simp_all add: h SIZE_ALIGNED_def memset_zero_def LWIP_MEM_ALIGN_SIZE_def)
  show "\<not> heap_inv ?h"
  proof
    assume "heap_inv ?h"
    then obtain bs where "heap_links ?h bs" by (auto simp: heap_inv_def heap_rel_def)
    then have "mem_used ?h (RTM_USER_DATA_PTR + 8184) = 1"
      using heap_links_end heap_links_sizes(5) sz by metis
    then show False by (simp add: h mem_used_def memset_zero_def USER_DATA_ALLOC_SZ_def)
  qed
qed

theorem pool_delete_not_recreated_witness:
  "\<not> heap_inv (heap (dpm_user_rtm_pool_create False False (dpm_user_rtm_pool_delete demo_pool)))"
  using pool_delete_not_recreated [OF demo_pool_rel(1-3,6), of False False] by simp

end
