(* ===== verification/Ret_Timer.thy ===== *)
theory Ret_Timer
  imports Prelude
begin

text \<open>
  The retention timers, \<^verbatim>\<open>src/core/system/src/ramlib/da16200_timer.c\<close>: sixteen timers in retention
  memory share one hardware counter. The armed timers form a list linked by index, each with the
  time that is left after its predecessor fires. Times are 64-bit microseconds, kept as natural
  numbers with the reductions that can matter written out. The table is a function from indices;
  index 16 (\<^verbatim>\<open>TIMER_ERR\<close>) is the end of the list, and reading or writing there touches the memory
  behind the table. What the registers read as during a call is the record \<open>timer_env\<close>: the
  counter at its start and when it arms the hardware again; the counter is 36 bits wide, so
  the conversions do not overflow. The functions that start and stop the hardware counter are those
  of \<^verbatim>\<open>src/core/bsp/driver/src/DA16200/da16x_rtcifbcfm.c\<close>. Callbacks are recorded in the order in
  which they are called; in the interrupt the code refuses to set or kill timers while they run,
  and those called at wake-up are taken not to.
\<close>

section \<open>State\<close>

record DA16X_TIMER =
  in_use :: u8
  nxt :: nat
  power_status :: u8
  cbfunc :: u32
  cbparam :: u32
  booting_offset :: u32
  time :: nat

record DA16X_TIMER_PARAM =
  callback_param :: u32
  callback_func :: u32
  booting_offset_param :: u32

record timers =
  gtimer :: "nat \<Rightarrow> DA16X_TIMER"
  time_slice :: nat
  BOOT_TIM :: bool
  gCurIdx :: nat
  time_gap :: nat
  isr_block :: bool
  isr_gap :: nat
  hTimer :: bool
  rtc_exp_callback :: "nat option"
  RTC_EXP_TH :: nat
  rtcm_boot :: u32
  power_down :: "(nat \<times> nat) option"
  fired :: "(u32 \<times> u32) list"

record timer_env =
  malloc_ok :: bool
  RTC_EXP_Status :: u32
  counter :: nat
  counter_end :: nat
  wake_reg :: nat
  wakeup_source :: nat
  retention_ctrl :: nat

definition TIMER_ERR :: nat where "TIMER_ERR = 16"
definition FIXED_TIMER_ERR :: nat where "FIXED_TIMER_ERR = TIMER_ERR - 2"

text \<open>Both macros compute with signed 64-bit numbers. Counters have 36 bits, so that the first cannot overflow; a time can be of any size.\<close>

definition CLK2US :: "nat \<Rightarrow> nat" where "CLK2US clk = clk * 15625 div 512"
definition US2CLK :: "nat \<Rightarrow> nat" where 
  "US2CLK us =
     (let x = us * 512 mod 2 ^ 64
      in if x < 2 ^ 63 then x div 15625 else (2 ^ 64 - (2 ^ 64 - x) div 15625) mod 2 ^ 64)"

definition upd :: "nat \<Rightarrow> (DA16X_TIMER \<Rightarrow> DA16X_TIMER) \<Rightarrow> timers \<Rightarrow> timers" where
  "upd i f s = s\<lparr>gtimer := (gtimer s)(i := f (gtimer s i))\<rparr>"

definition get_remain_counter :: "timer_env \<Rightarrow> nat" where
  "get_remain_counter e =
     (if wake_reg e > counter e then wake_reg e - counter e else counter e - wake_reg e)"

section \<open>The hardware counter\<close>

definition RTC_EXP_STATUS_RUN :: u32 where "RTC_EXP_STATUS_RUN = 0x100"

definition registry_rtc_exp_timer :: "timer_env \<Rightarrow> nat \<Rightarrow> nat \<Rightarrow> timers \<Rightarrow> bool \<times> timers" where
  "registry_rtc_exp_timer e exptime isrcallback s =
     (if rtc_exp_callback s \<noteq> None \<or> RTC_EXP_Status e AND RTC_EXP_STATUS_RUN \<noteq> 0 then (False, s)
      else (True, s\<lparr>rtc_exp_callback := Some isrcallback, RTC_EXP_TH := exptime\<rparr>))"

definition clear_rtc_exp_status :: "timer_env \<Rightarrow> bool \<Rightarrow> timers \<Rightarrow> u32 \<times> timers" where
  "clear_rtc_exp_status e mode s =
     (RTC_EXP_Status e, if mode then s\<lparr>rtc_exp_callback := None\<rparr> else s)"

definition MCNT_CREATE :: "timer_env \<Rightarrow> bool" where
  "MCNT_CREATE e = malloc_ok e"

definition MCNT_START :: "timer_env \<Rightarrow> nat \<Rightarrow> nat \<Rightarrow> timers \<Rightarrow> bool \<times> timers" where
  "MCNT_START e count callback s =
     (if \<not> hTimer s then (False, s)
      else (let (_, s1) = clear_rtc_exp_status e True s
            in registry_rtc_exp_timer e (count + counter_end e) callback s1))"

text \<open>The result code, the remaining clocks and the state; the handle is checked first.\<close>

definition MCNT_STOP :: "timer_env \<Rightarrow> timers \<Rightarrow> nat \<times> nat \<times> timers" where
  "MCNT_STOP e s =
     (if \<not> hTimer s then (2, 0, s)
      else (let (status, s1) = clear_rtc_exp_status e True s in
            if status = 0 \<and> RTC_EXP_TH s1 > counter e then (1, RTC_EXP_TH s1 - counter e, s1)
            else (0, 0, s1)))"

section \<open>Allocation of a timer\<close>

definition chk_timer_id :: "timers \<Rightarrow> nat \<Rightarrow> nat" where
  "chk_timer_id s i =
     (if i \<ge> TIMER_ERR then TIMER_ERR
      else if i = 9 \<or> i = 10 then TIMER_ERR
      else if in_use (gtimer s i) \<noteq> 0 then TIMER_ERR else i)"

definition DA16200_TIMER_ALLOC :: "nat \<Rightarrow> nat \<Rightarrow> DA16X_TIMER_PARAM \<Rightarrow> timers \<Rightarrow> nat \<times> timers" where
  "DA16200_TIMER_ALLOC i t param s =
     (if chk_timer_id s i = TIMER_ERR then (TIMER_ERR, s)
      else (i, upd i (\<lambda>x. x\<lparr>in_use := 1, nxt := TIMER_ERR, power_status := 0,
                  cbfunc := callback_func param, cbparam := callback_param param, time := t,
                  booting_offset :=
                    (if booting_offset_param param = 0
                     then (if i = 0 then 0xE800 else if i = 1 then 0xF400 else 0x40000000)
                     else booting_offset_param param)\<rparr>) s))"

definition DA16200_TIMER_ACTIVE :: "timer_env \<Rightarrow> nat \<Rightarrow> timers \<Rightarrow> timers" where
  "DA16200_TIMER_ACTIVE e i s = snd (MCNT_START e (US2CLK (time (gtimer s i))) i s)"

section \<open>Sorting a timer into the list\<close>

text \<open>The loop; \<open>ret\<close> is the head of the list, \<open>before\<close> the timer visited last.\<close>

function sort_loop :: "nat \<Rightarrow> nat \<Rightarrow> nat \<Rightarrow> nat \<Rightarrow> nat \<Rightarrow> timers \<Rightarrow> nat \<times> timers" where
  "sort_loop idx ret before cur new s =
     (if in_use (gtimer s cur) = 1
      then (if time (gtimer s cur) > time (gtimer s new)
            then (let s1 = upd cur (\<lambda>x. x\<lparr>time := time x - time (gtimer s new)\<rparr>) s in
                  if cur = before then (new, upd new (\<lambda>x. x\<lparr>nxt := cur\<rparr>) s1)
                  else (ret, upd new (\<lambda>x. x\<lparr>nxt := cur\<rparr>) (upd before (\<lambda>x. x\<lparr>nxt := new\<rparr>) s1)))
            else if time (gtimer s cur) < time (gtimer s new)
            then (let s1 = upd new (\<lambda>x. x\<lparr>time := time x - time (gtimer s cur)\<rparr>) s in
                  if nxt (gtimer s1 cur) \<noteq> TIMER_ERR
                  then (if idx + 1 > FIXED_TIMER_ERR then (TIMER_ERR, s1)
                        else sort_loop (idx + 1) ret cur (nxt (gtimer s1 cur)) new s1)
                  else (ret, upd cur (\<lambda>x. x\<lparr>nxt := new\<rparr>) s1))
            else (ret, upd new (\<lambda>x. x\<lparr>time := 0\<rparr>)
                    (upd cur (\<lambda>x. x\<lparr>nxt := new\<rparr>)
                      (upd new (\<lambda>x. x\<lparr>nxt := nxt (gtimer s cur)\<rparr>) s))))
      else (if time (gtimer s ret) > time (gtimer s new) then (new, s) else (ret, s)))"
  by pat_completeness auto
termination by (relation "measure (\<lambda>(idx, _). FIXED_TIMER_ERR - idx)") (auto simp: FIXED_TIMER_ERR_def)

declare sort_loop.simps [simp del]

definition time_sorting :: "nat \<Rightarrow> nat \<Rightarrow> timers \<Rightarrow> nat \<times> timers" where
  "time_sorting current_id new_one s = sort_loop 1 current_id current_id current_id new_one s"

section \<open>Time that passed during sleep, and expired timers\<close>

text \<open>Taking the gap from the front of the list.\<close>

function gap_loop :: "nat \<Rightarrow> nat \<Rightarrow> nat \<Rightarrow> timers \<Rightarrow> timers" where
  "gap_loop idx i gap s =
     (if i \<noteq> TIMER_ERR \<and> gap > 0
      then (if time (gtimer s i) > gap then upd i (\<lambda>x. x\<lparr>time := time x - gap\<rparr>) s
            else (let gap1 = gap - time (gtimer s i);
                      s1 = upd i (\<lambda>x. x\<lparr>time := 0\<rparr>) s
                  in if gap1 < time_slice s1 then s1
                     else if idx + 1 > FIXED_TIMER_ERR then s1
                     else gap_loop (idx + 1) (nxt (gtimer s1 i)) gap1 s1))
      else s)"
  by pat_completeness auto
termination by (relation "measure (\<lambda>(idx, _). FIXED_TIMER_ERR - idx)") (auto simp: FIXED_TIMER_ERR_def)

declare gap_loop.simps [simp del]

definition fire :: "nat \<Rightarrow> timers \<Rightarrow> timers" where
  "fire i s =
     (if cbfunc (gtimer s i) \<noteq> 0
      then s\<lparr>fired := fired s @ [(cbfunc (gtimer s i), cbparam (gtimer s i))]\<rparr> else s)"

function expire_loop :: "nat \<Rightarrow> nat \<Rightarrow> timers \<Rightarrow> nat \<times> timers" where
  "expire_loop idx i s =
     (if i \<noteq> TIMER_ERR \<and> time (gtimer s i) \<le> time_slice s
      then (let s1 = upd i (\<lambda>x. x\<lparr>in_use := 0\<rparr>) (fire i s) in
            if idx + 1 > FIXED_TIMER_ERR then (nxt (gtimer s1 i), s1)
            else expire_loop (idx + 1) (nxt (gtimer s1 i)) s1)
      else (i, s))"
  by pat_completeness auto
termination by (relation "measure (\<lambda>(idx, _). FIXED_TIMER_ERR - idx)") (auto simp: FIXED_TIMER_ERR_def)

declare expire_loop.simps [simp del]

definition DA16200_PROCESS_CALLBACK :: "timer_env \<Rightarrow> nat \<Rightarrow> timers \<Rightarrow> nat \<times> timers" where
  "DA16200_PROCESS_CALLBACK e i s =
     (if in_use (gtimer s i) \<noteq> 0
      then (let s1 = upd i (\<lambda>x. x\<lparr>in_use := 0, time := 0\<rparr>) (fire i s);
                next = nxt (gtimer s1 (gCurIdx s1));
                s2 = (if time_gap s1 \<noteq> 0 then gap_loop 0 next (CLK2US (get_remain_counter e + 3)) s1 else s1)
            in expire_loop 0 next s2)
      else (TIMER_ERR, s))"

section \<open>Interrupt\<close>

definition DA16200_TIMER_CALLBACK :: "timer_env \<Rightarrow> timers \<Rightarrow> timers" where
  "DA16200_TIMER_CALLBACK e s =
     (let (next, s1) = DA16200_PROCESS_CALLBACK e (gCurIdx s) s in
      if next \<noteq> TIMER_ERR
      then (let s2 = upd next (\<lambda>x. x\<lparr>time := (time x + 2 ^ 64 - CLK2US (counter_end e - isr_gap s1)) mod 2 ^ 64\<rparr>)
                       (s1\<lparr>gCurIdx := next\<rparr>)
            in DA16200_TIMER_ACTIVE e next s2)
      else s1\<lparr>gCurIdx := TIMER_ERR\<rparr>)"

definition rtc_mirror_hisr :: "timer_env \<Rightarrow> timers \<Rightarrow> timers" where
  "rtc_mirror_hisr e s =
     (DA16200_TIMER_CALLBACK e (s\<lparr>isr_block := True, isr_gap := counter e\<rparr>))\<lparr>isr_block := False\<rparr>"

section \<open>Setting and killing timers\<close>

definition DA16X_GET_EMPTY_ID :: "timers \<Rightarrow> nat" where
  "DA16X_GET_EMPTY_ID s =
     (case find (\<lambda>i. chk_timer_id s i = i) [5..<16] of Some i \<Rightarrow> i | None \<Rightarrow> TIMER_ERR)"

definition stop_counter :: "timer_env \<Rightarrow> timers \<Rightarrow> timers" where
  "stop_counter e s =
     (let (r, remain, s1) = MCNT_STOP e s in
      if r \<noteq> 0 then upd (gCurIdx s) (\<lambda>x. x\<lparr>time := CLK2US remain\<rparr>) s1 else s1)"

definition DA16X_SET_TIMER ::
    "timer_env \<Rightarrow> nat \<Rightarrow> nat \<Rightarrow> DA16X_TIMER_PARAM \<Rightarrow> timers \<Rightarrow> nat \<times> timers" where
  "DA16X_SET_TIMER e i t param s =
     (if isr_block s then (TIMER_ERR, s)
      else (let (r, s1) = DA16200_TIMER_ALLOC i t param s in
        if r = TIMER_ERR then (TIMER_ERR, s1)
        else if \<not> hTimer s1 \<and> \<not> MCNT_CREATE e then (TIMER_ERR, s1)
        else (let s2 = s1\<lparr>hTimer := True\<rparr>;
                  s3 = (if gCurIdx s2 \<noteq> TIMER_ERR
                        then (let (c, s') = time_sorting (gCurIdx s2) i (stop_counter e s2)
                              in s'\<lparr>gCurIdx := c\<rparr>)
                        else s2\<lparr>gCurIdx := i\<rparr>)
              in (i, DA16200_TIMER_ACTIVE e (gCurIdx s3) s3))))"

text \<open>Sorting the timer in before sleep, and the way into power down.\<close>

definition sort_for_sleep :: "timer_env \<Rightarrow> nat \<Rightarrow> timers \<Rightarrow> timers" where
  "sort_for_sleep e i s =
     (if gCurIdx s \<noteq> TIMER_ERR
      then (let sa = (if hTimer s then stop_counter e s else s);
                sb = (if time_gap sa \<noteq> 0
                      then gap_loop 0 (gCurIdx sa) (CLK2US (get_remain_counter e + 2)) sa else sa);
                (c, s') = time_sorting (gCurIdx sb) i sb
            in s'\<lparr>gCurIdx := c\<rparr>)
      else s\<lparr>gCurIdx := i\<rparr>)"

definition into_power_down :: "nat \<Rightarrow> timers \<Rightarrow> timers" where
  "into_power_down i s =
     (let s1 = (if i < 2 then s\<lparr>BOOT_TIM := True\<rparr> else s);
          s2 = s1\<lparr>rtcm_boot := booting_offset (gtimer s1 (gCurIdx s1))\<rparr>;
          s3 = (if time (gtimer s2 (gCurIdx s2)) < 1000
                then upd (gCurIdx s2) (\<lambda>x. x\<lparr>time := 1000\<rparr>) s2 else s2)
      in s3\<lparr>power_down := Some (gCurIdx s3, US2CLK (time (gtimer s3 (gCurIdx s3))))\<rparr>)"

definition DA16X_SET_WAKEUP_TIMER ::
    "timer_env \<Rightarrow> nat \<Rightarrow> nat \<Rightarrow> DA16X_TIMER_PARAM \<Rightarrow> timers \<Rightarrow> nat \<times> timers" where
  "DA16X_SET_WAKEUP_TIMER e i t param s =
     (if isr_block s then (TIMER_ERR, s)
      else (let (r, s1) = DA16200_TIMER_ALLOC i t param s in
        if r = TIMER_ERR then (TIMER_ERR, s1)
        else (i, into_power_down i (sort_for_sleep e i s1))))"

text \<open>Looking for the predecessor of a timer; \<open>None\<close> when it is not found in time.\<close>

function kill_loop :: "nat \<Rightarrow> nat \<Rightarrow> nat \<Rightarrow> timers \<Rightarrow> nat option" where
  "kill_loop idx i next s =
     (if nxt (gtimer s next) \<noteq> i
      then (if idx + 1 \<ge> FIXED_TIMER_ERR then None else kill_loop (idx + 1) i (nxt (gtimer s next)) s)
      else Some next)"
  by pat_completeness auto
termination by (relation "measure (\<lambda>(idx, _). FIXED_TIMER_ERR - idx)") (auto simp: FIXED_TIMER_ERR_def)

declare kill_loop.simps [simp del]

definition add_time :: "nat \<Rightarrow> DA16X_TIMER \<Rightarrow> DA16X_TIMER" where
  "add_time t x = x\<lparr>time := (time x + t) mod 2 ^ 64\<rparr>"

definition DA16X_KILL_TIMER :: "timer_env \<Rightarrow> nat \<Rightarrow> timers \<Rightarrow> nat \<times> timers" where
  "DA16X_KILL_TIMER e i s =
     (if isr_block s then (TIMER_ERR, s)
      else if chk_timer_id s i = i then (TIMER_ERR, s)
      else if i = 9 \<or> i = 10 then (TIMER_ERR, s)
      else (let s1 = upd i (\<lambda>x. x\<lparr>in_use := 0\<rparr>) s in
        if \<not> hTimer s1 then (TIMER_ERR, s1)
        else if gCurIdx s1 = i
        then (let (_, remain, s2) = MCNT_STOP e s1;
                  next = nxt (gtimer s2 i)
              in if next = TIMER_ERR then (i, s2\<lparr>gCurIdx := TIMER_ERR\<rparr>)
                 else (let s3 = (upd next (add_time (CLK2US remain)) s2)\<lparr>gCurIdx := next\<rparr>
                       in (i, DA16200_TIMER_ACTIVE e next s3)))
        else (case kill_loop 0 i (gCurIdx s1) s1 of
                None \<Rightarrow> (TIMER_ERR, s1)
              | Some p \<Rightarrow>
                  (let s2 = upd p (\<lambda>x. x\<lparr>nxt := nxt (gtimer s1 i)\<rparr>) s1
                   in (i, if nxt (gtimer s2 i) \<noteq> TIMER_ERR
                          then upd (nxt (gtimer s2 i)) (add_time (time (gtimer s2 i))) s2 else s2)))))"

section \<open>Wake-up\<close>

definition zero_timer :: DA16X_TIMER where
  "zero_timer = \<lparr>in_use = 0, nxt = 0, power_status = 0, cbfunc = 0, cbparam = 0, booting_offset = 0, time = 0\<rparr>"

definition timers_reset :: "timers \<Rightarrow> timers" where
  "timers_reset s =
     s\<lparr>time_slice := 200, BOOT_TIM := False,
       gtimer := (\<lambda>i. if i < 16 \<and> i \<noteq> 9 \<and> i \<noteq> 10 then zero_timer\<lparr>nxt := TIMER_ERR\<rparr> else gtimer s i),
       gCurIdx := TIMER_ERR, isr_block := False\<rparr>"

text \<open>Arming the next timer, with the counter handle created on demand.\<close>

definition enable_next :: "timer_env \<Rightarrow> nat \<Rightarrow> timers \<Rightarrow> timers \<times> bool" where
  "enable_next e next s =
     (if next \<noteq> TIMER_ERR \<and> in_use (gtimer s next) \<noteq> 0
      then (if \<not> hTimer s \<and> \<not> MCNT_CREATE e then (s, False)
            else (DA16200_TIMER_ACTIVE e next (s\<lparr>hTimer := True, gCurIdx := next\<rparr>), True))
      else (s\<lparr>gCurIdx := TIMER_ERR\<rparr>, True))"

definition DA16X_TIMER_SCHEDULER :: "timer_env \<Rightarrow> timers \<Rightarrow> timers" where
  "DA16X_TIMER_SCHEDULER e s =
     (let wakeup_id = retention_ctrl e div 16 mod 16;
          s0 = s\<lparr>gCurIdx := wakeup_id, time_gap := 0\<rparr>
      in if wakeup_source e \<in> {0x82, 0x83, 0x92, 0x93}
         then (if wakeup_id < 2 \<and> BOOT_TIM s0
               then (let s1 = upd wakeup_id (\<lambda>x. x\<lparr>in_use := 0\<rparr>) s0
                     in s1\<lparr>BOOT_TIM := False, gCurIdx := nxt (gtimer s1 wakeup_id), time_gap := counter e\<rparr>)
               else (let s1 = s0\<lparr>time_gap := get_remain_counter e\<rparr>;
                         s2 = (if wakeup_id < 2 then upd wakeup_id (\<lambda>x. x\<lparr>in_use := 1\<rparr>) s1 else s1);
                         (next, s3) = DA16200_PROCESS_CALLBACK e wakeup_id s2;
                         (s4, ok) = enable_next e next (s3\<lparr>time_gap := counter_end e\<rparr>)
                     in if ok then s4\<lparr>time_gap := 0\<rparr> else s4))
         else if wakeup_source e \<in> {0x81, 0x90, 0x91}
         then (let s1 = (if wakeup_id < 2
                         then (let sa = upd wakeup_id (\<lambda>x. x\<lparr>in_use := 0\<rparr>) s0;
                                   c = nxt (gtimer sa wakeup_id)
                               in upd c (add_time (CLK2US (get_remain_counter e))) (sa\<lparr>gCurIdx := c\<rparr>))
                         else upd wakeup_id (\<lambda>x. x\<lparr>time := CLK2US (get_remain_counter e)\<rparr>) s0)
               in fst (enable_next e (gCurIdx s1) s1))
         else if wakeup_source e \<in> {0x00, 0x01, 0x02, 0x04, 0x08, 0x09, 0x10, 0x11, 0x12, 0x13, 0x18, 0x19, 0x20, 0x40}
         then timers_reset s0
         else s0\<lparr>gCurIdx := TIMER_ERR\<rparr>)"

end
