(* ===== verification/Timer_Agenda.thy ===== *)
theory Timer_Agenda
  imports Ret_Timer
begin

text \<open>
  The abstract view of the retention timers: the linked list read as an agenda, the list of
  timers with the times of their expiry, and what the loops of the code do to it. Sorting a
  timer in is an insertion into the agenda; unlinking one is its removal; taking a gap from the front
  shifts the agenda.
\<close>

named_theorems timer_upd "reading the table after an update"

section \<open>The list and its agenda\<close>

definition usable :: "nat \<Rightarrow> bool" where
  "usable i \<longleftrightarrow> i < TIMER_ERR \<and> i \<noteq> 9 \<and> i \<noteq> 10"

fun linked :: "(nat \<Rightarrow> DA16X_TIMER) \<Rightarrow> nat \<Rightarrow> nat list \<Rightarrow> bool" where
  "linked g i [] \<longleftrightarrow> i = TIMER_ERR"
| "linked g i (j # L) \<longleftrightarrow> i = j \<and> usable j \<and> in_use (g j) = 1 \<and> linked g (nxt (g j)) L"

fun agenda :: "(nat \<Rightarrow> DA16X_TIMER) \<Rightarrow> nat \<Rightarrow> nat list \<Rightarrow> (nat \<times> nat) list" where
  "agenda g acc [] = []"
| "agenda g acc (j # L) = (j, acc + time (g j)) # agenda g (acc + time (g j)) L"

text \<open>Insertion: behind the first timer that expires at the same time, else by time.\<close>

fun insert_event :: "nat \<times> nat \<Rightarrow> (nat \<times> nat) list \<Rightarrow> (nat \<times> nat) list" where
  "insert_event (i, t) [] = [(i, t)]"
| "insert_event (i, t) ((j, u) # xs) =
     (if u > t then (i, t) # (j, u) # xs
      else if u = t then (j, u) # (i, t) # xs
      else (j, u) # insert_event (i, t) xs)"

definition remove_event :: "nat \<Rightarrow> (nat \<times> nat) list \<Rightarrow> (nat \<times> nat) list" where
  "remove_event i xs = filter (\<lambda>(j, _). j \<noteq> i) xs"

lemma agenda_sorted: "sorted (map snd (agenda g acc L)) \<and> (\<forall>p \<in> set (agenda g acc L). acc \<le> snd p)"
  by (induction L arbitrary: acc) (fastforce)+

lemma mset_insert_event: "set (insert_event p xs) = insert p (set xs)"
  by (induction p xs rule: insert_event.induct) auto

lemma map_fst_agenda [simp]: "map fst (agenda g acc L) = L"
  by (induction L arbitrary: acc) auto

section \<open>Updates of the table\<close>

lemma upd_same [timer_upd]: "gtimer (upd i f s) i = f (gtimer s i)"
  by (simp add: upd_def)

lemma upd_other [timer_upd]: "j \<noteq> i \<Longrightarrow> gtimer (upd i f s) j = gtimer s j"
  by (simp add: upd_def)

lemma upd_fields [timer_upd]:
  "gCurIdx (upd i f s) = gCurIdx s" "time_slice (upd i f s) = time_slice s"
  "hTimer (upd i f s) = hTimer s" "isr_block (upd i f s) = isr_block s"
  "time_gap (upd i f s) = time_gap s" "BOOT_TIM (upd i f s) = BOOT_TIM s"
  "RTC_EXP_TH (upd i f s) = RTC_EXP_TH s" "rtc_exp_callback (upd i f s) = rtc_exp_callback s"
  "fired (upd i f s) = fired s" "isr_gap (upd i f s) = isr_gap s"
  by (simp_all add: upd_def)

lemma linked_cong:
  "(\<And>j. j \<in> set L \<Longrightarrow> in_use (g' j) = in_use (g j) \<and> nxt (g' j) = nxt (g j))
    \<Longrightarrow> linked g' i L = linked g i L"
  by (induction L arbitrary: i) auto

lemma agenda_cong:
  "(\<And>j. j \<in> set L \<Longrightarrow> time (g' j) = time (g j)) \<Longrightarrow> agenda g' acc L = agenda g acc L"
  by (induction L arbitrary: acc) auto

lemma linked_usable: "linked g i L \<Longrightarrow> j \<in> set L \<Longrightarrow> usable j \<and> in_use (g j) = 1"
  by (induction L arbitrary: i) auto

lemma linked_length:
  assumes "linked g i L" "distinct L"
  shows "length L \<le> 14"
proof -
  have "set L \<subseteq> {..<16} - {9, 10}"
    using linked_usable[OF assms(1)] by (auto simp: usable_def TIMER_ERR_def)
  then have "card (set L) \<le> card ({..<16::nat} - {9, 10})" by (intro card_mono) auto
  then show ?thesis using assms(2) by (simp add: distinct_card)
qed

lemma linked_length_new:
  assumes "linked g i L" "distinct L" "usable n" "n \<notin> set L"
  shows "length L \<le> 13"
proof -
  have "set L \<subseteq> {..<16} - {9, 10, n}"
    using linked_usable[OF assms(1)] assms(4) by (auto simp: usable_def TIMER_ERR_def)
  then have "card (set L) \<le> card ({..<16::nat} - {9, 10, n})" by (intro card_mono) auto
  then show ?thesis using assms by (simp add: distinct_card usable_def TIMER_ERR_def)
qed

section \<open>Sorting in\<close>

text \<open>Two tables that differ in links and times only.\<close>

definition same_users :: "(nat \<Rightarrow> DA16X_TIMER) \<Rightarrow> (nat \<Rightarrow> DA16X_TIMER) \<Rightarrow> bool" where
  "same_users g g' \<longleftrightarrow> 
     (\<forall>j. in_use (g' j) = in_use (g j) \<and> power_status (g' j) = power_status (g j) \<and> cbfunc (g' j) = cbfunc (g j) \<and>
          cbparam (g' j) = cbparam (g j) \<and> booting_offset (g' j) = booting_offset (g j))"

definition sorted_in :: "nat \<Rightarrow> nat \<Rightarrow> nat list \<Rightarrow> nat list \<Rightarrow> timers \<Rightarrow> timers \<Rightarrow> bool" where
  "sorted_in acc n L L' s s' \<longleftrightarrow>
     distinct L' \<and> set L' = insert n (set L) \<and>
     agenda (gtimer s') acc L' = insert_event (n, acc + time (gtimer s n)) (agenda (gtimer s) acc L) \<and>
     same_users (gtimer s) (gtimer s') \<and> (\<exists>g. s' = s\<lparr>gtimer := g\<rparr>) \<and>
     (\<forall>j. j \<notin> insert n (set L) \<longrightarrow> time (gtimer s' j) = time (gtimer s j))"

lemma same_users_refl [simp]: "same_users g g"
  by (simp add: same_users_def)

lemma same_users_trans: "same_users f g \<Longrightarrow> same_users g h \<Longrightarrow> same_users f h"
  by (simp add: same_users_def)

lemma same_users_upd [simp]:
  "same_users (gtimer s) (gtimer (upd i (\<lambda>x. x\<lparr>nxt := m x\<rparr>) s))"
  "same_users (gtimer s) (gtimer (upd i (\<lambda>x. x\<lparr>time := f x\<rparr>) s))"
  by (simp_all add: same_users_def upd_def)

lemma upd_table: "\<exists>g. upd i f s = s\<lparr>gtimer := g\<rparr>"
  by (auto simp: upd_def)

lemma upd_shape: "\<exists>g. s' = s\<lparr>gtimer := g\<rparr> \<Longrightarrow> \<exists>g. upd i f s' = s\<lparr>gtimer := g\<rparr>"
  by (auto simp: upd_def)

text \<open>The timer is placed in front of the visited one, with its predecessor linked to it.\<close>

lemma place_before:
  fixes s :: timers and n cur b acc :: nat
  defines "s1 \<equiv> upd cur (\<lambda>x. x\<lparr>time := time x - time (gtimer s n)\<rparr>) s"
  assumes "linked (gtimer s) cur (cur # L)" "distinct (cur # L)" "n \<notin> set (cur # L)"
    "time (gtimer s cur) > time (gtimer s n)" "usable n" "in_use (gtimer s n) = 1"
    "b \<notin> set (cur # L)" "b \<noteq> n"
    "s' = upd n (\<lambda>x. x\<lparr>nxt := cur\<rparr>) (upd b (\<lambda>x. x\<lparr>nxt := n\<rparr>) s1) \<or> s' = upd n (\<lambda>x. x\<lparr>nxt := cur\<rparr>) s1"
  shows "sorted_in acc n (cur # L) (n # cur # L) s s' \<and> linked (gtimer s') n (n # cur # L)"
proof -
  have g: "gtimer s' n = (gtimer s n)\<lparr>nxt := cur\<rparr>"
    "gtimer s' cur = (gtimer s cur)\<lparr>time := time (gtimer s cur) - time (gtimer s n)\<rparr>"
    "\<And>j. j \<noteq> n \<Longrightarrow> j \<noteq> cur \<Longrightarrow> j \<noteq> b \<Longrightarrow> gtimer s' j = gtimer s j"
    "time (gtimer s' b) = time (gtimer s b)"
    using assms by (auto simp: timer_upd)
  have rest: "gtimer s' j = gtimer s j" if "j \<in> set L" for j
    using assms(3,4,8) that by (intro g(3)) auto
  have "linked (gtimer s') (nxt (gtimer s cur)) L"
    using assms(2) by (subst linked_cong[of L _ "gtimer s"]) (auto simp: rest)
  moreover have "agenda (gtimer s') a L = agenda (gtimer s) a L" for a
    by (intro agenda_cong) (simp add: rest)
  moreover have "same_users (gtimer s) (gtimer s')"
    using assms(10) unfolding s1_def by (auto simp: same_users_def upd_def)
  moreover have "\<exists>g. s' = s\<lparr>gtimer := g\<rparr>"
    using assms(10) unfolding s1_def by (auto simp: upd_def)
  moreover have "\<forall>j. j \<notin> insert n (set (cur # L)) \<longrightarrow> time (gtimer s' j) = time (gtimer s j)"
    using g(3,4) by (metis insertCI list.set_intros(1))
  ultimately show ?thesis using assms(2-7) g(1,2) by (simp add: sorted_in_def) 
qed

text \<open>The timer is placed behind a visited one that expires at the same time or is the last.\<close>

lemma place_behind:
  assumes "linked (gtimer s) cur (cur # L)" "distinct (cur # L)" "n \<notin> set (cur # L)"
    "usable n" "in_use (gtimer s n) = 1"
    "gtimer s' n = (gtimer s n)\<lparr>nxt := nxt (gtimer s cur), time := time (gtimer s n) - time (gtimer s cur)\<rparr>"
    "gtimer s' cur = (gtimer s cur)\<lparr>nxt := n\<rparr>"
    "\<And>j. j \<noteq> n \<Longrightarrow> j \<noteq> cur \<Longrightarrow> gtimer s' j = gtimer s j"
    "\<exists>g. s' = s\<lparr>gtimer := g\<rparr>"
    "time (gtimer s cur) = time (gtimer s n) \<or> time (gtimer s cur) < time (gtimer s n) \<and> L = []"
  shows "sorted_in acc n (cur # L) (cur # n # L) s s' \<and> linked (gtimer s') cur (cur # n # L)"
proof -
  have rest: "gtimer s' j = gtimer s j" if "j \<in> set L" for j
    using assms(2,3) that by (intro assms(8)) auto
  have "linked (gtimer s') (nxt (gtimer s cur)) L"
    using assms(1) by (subst linked_cong[of L _ "gtimer s"]) (auto simp: rest)
  moreover have "agenda (gtimer s') a L = agenda (gtimer s) a L" for a
    by (intro agenda_cong) (simp add: rest)
  moreover have "same_users (gtimer s) (gtimer s')"
    unfolding same_users_def
  proof
    fix j
    consider "j = n" | "j = cur" | "j \<noteq> n" "j \<noteq> cur" by blast
    then show "in_use (gtimer s' j) = in_use (gtimer s j) \<and> power_status (gtimer s' j) = power_status (gtimer s j) \<and>
        cbfunc (gtimer s' j) = cbfunc (gtimer s j) \<and> cbparam (gtimer s' j) = cbparam (gtimer s j) \<and>
        booting_offset (gtimer s' j) = booting_offset (gtimer s j)"
      using assms(6-8) by cases simp_all
  qed
  moreover have "\<forall>j. j \<notin> insert n (set (cur # L)) \<longrightarrow> time (gtimer s' j) = time (gtimer s j)"
    using assms(8) by (metis insertCI list.set_intros(1))
  ultimately show ?thesis using assms(1-7,9,10) by (auto simp: sorted_in_def)
qed

lemma sorted_in_step:
  assumes "sorted_in (acc + time (gtimer s cur)) n L L' s1 s'"
    and s1: "s1 = upd n (\<lambda>x. x\<lparr>time := time x - time (gtimer s cur)\<rparr>) s"
    and "time (gtimer s cur) < time (gtimer s n)" "distinct (cur # L)" "n \<notin> set (cur # L)"
  shows "sorted_in acc n (cur # L) (cur # L') s s'"
proof -
  have cur: "time (gtimer s' cur) = time (gtimer s cur)" and oth: "\<And>j. j \<noteq> n \<Longrightarrow> gtimer s1 j = gtimer s j"
    using assms(1,4,5) by (auto simp: sorted_in_def s1 timer_upd)
  have n1: "time (gtimer s1 n) = time (gtimer s n) - time (gtimer s cur)"
    by (simp add: s1 timer_upd)
  have "agenda (gtimer s1) a L = agenda (gtimer s) a L" for a
    using assms(5) by (intro agenda_cong) (auto simp: s1 timer_upd upd_def)
  moreover have "same_users (gtimer s) (gtimer s')"
    using assms(1) same_users_trans[of "gtimer s" "gtimer s1"] by (simp add: sorted_in_def s1)
  moreover have "\<exists>g. s' = s\<lparr>gtimer := g\<rparr>"
    using assms(1) by (auto simp: sorted_in_def s1 upd_def)
  moreover have "\<forall>j. j \<notin> insert n (set (cur # L)) \<longrightarrow> time (gtimer s' j) = time (gtimer s j)"
    using assms(1) oth by (auto simp: sorted_in_def)
  ultimately show ?thesis using assms(1,3-5) by (auto simp: sorted_in_def cur n1)
qed

text \<open>
  What the loop achieves from the visited timer \<open>cur\<close> on, entered from \<open>b\<close>; the first
  visited timer is entered from itself, and then the result is the new head.
\<close>

definition sort_post :: "nat \<Rightarrow> nat \<Rightarrow> nat \<Rightarrow> nat \<Rightarrow> nat \<Rightarrow> nat list \<Rightarrow> timers \<Rightarrow> nat list \<Rightarrow> nat \<times> timers \<Rightarrow> bool" where
  "sort_post acc ret b cur n L s L' res \<longleftrightarrow>
     sorted_in acc n L L' s (snd res) \<and>
     linked (gtimer (snd res)) (if b = cur then fst res else nxt (gtimer (snd res) b)) L' \<and>
     (b \<noteq> cur \<longrightarrow> fst res = ret) \<and>
     (\<forall>j. j \<noteq> b \<and> j \<noteq> n \<and> j \<notin> set L \<longrightarrow> gtimer (snd res) j = gtimer s j)"

definition sort_pre :: "nat \<Rightarrow> nat \<Rightarrow> nat \<Rightarrow> nat \<Rightarrow> nat list \<Rightarrow> timers \<Rightarrow> bool" where
  "sort_pre ret b cur n L s \<longleftrightarrow>
     linked (gtimer s) cur L \<and> distinct L \<and> L \<noteq> [] \<and> n \<notin> set L \<and>
     (b = cur \<and> ret = cur \<or> b \<notin> set L \<and> b \<noteq> n \<and> nxt (gtimer s b) = cur) \<and>
     usable n \<and> in_use (gtimer s n) = 1 \<and> nxt (gtimer s n) = TIMER_ERR"

lemma sort_front:
  assumes "sort_pre ret b cur n (cur # L) s" "time (gtimer s cur) > time (gtimer s n)"
  shows "sort_post acc ret b cur n (cur # L) s (n # cur # L) (sort_loop idx ret b cur n s)"
proof -
  let ?s1 = "upd cur (\<lambda>x. x\<lparr>time := time x - time (gtimer s n)\<rparr>) s"
  define s' where "s' = upd n (\<lambda>x. x\<lparr>nxt := cur\<rparr>) (if cur = b then ?s1 else upd b (\<lambda>x. x\<lparr>nxt := n\<rparr>) ?s1)"
  have r: "sort_loop idx ret b cur n s = (if cur = b then n else ret, s')"
    using assms unfolding s'_def by (subst sort_loop.simps) (simp add: Let_def sort_pre_def)
  have entry: "b \<noteq> cur \<Longrightarrow> nxt (gtimer s' b) = n" and ne: "n \<noteq> cur"
    and frame: "\<And>j. j \<noteq> b \<Longrightarrow> j \<noteq> n \<Longrightarrow> j \<noteq> cur \<Longrightarrow> gtimer s' j = gtimer s j"
    using assms(1) by (auto simp: s'_def sort_pre_def timer_upd)
  obtain b' where b': "b' \<notin> set (n # cur # L)" "b \<noteq> cur \<Longrightarrow> b' = b"
  proof (cases "b = cur")
    case True
    obtain b' where "b' \<notin> set (n # cur # L)" using ex_new_if_finite[of "set (n # cur # L)"] by auto
    then show ?thesis using that True by blast
  next
    case False
    then have "b \<notin> set (n # cur # L)" using assms(1) by (auto simp: sort_pre_def)
    then show ?thesis using that by blast
  qed
  have "sorted_in acc n (cur # L) (n # cur # L) s s' \<and> linked (gtimer s') n (n # cur # L)"
    using assms b' unfolding s'_def by (intro place_before[where b = b']) (simp_all add: sort_pre_def)
  then show ?thesis using entry frame unfolding sort_post_def r by auto
qed

lemma sort_behind:
  assumes pre: "sort_pre ret b cur n (cur # L) s"
    and t: "time (gtimer s cur) = time (gtimer s n) \<or> time (gtimer s cur) < time (gtimer s n) \<and> L = []"
  shows "sort_post acc ret b cur n (cur # L) s (cur # n # L) (sort_loop idx ret b cur n s)"
proof -
  define s' where "s' = (if time (gtimer s cur) = time (gtimer s n)
      then upd n (\<lambda>x. x\<lparr>time := 0\<rparr>) (upd cur (\<lambda>x. x\<lparr>nxt := n\<rparr>) (upd n (\<lambda>x. x\<lparr>nxt := nxt (gtimer s cur)\<rparr>) s))
      else upd cur (\<lambda>x. x\<lparr>nxt := n\<rparr>) (upd n (\<lambda>x. x\<lparr>time := time x - time (gtimer s cur)\<rparr>) s))"
  have last: "L = [] \<Longrightarrow> nxt (gtimer s cur) = TIMER_ERR" and ne: "n \<noteq> cur" "cur \<noteq> n"
    and new: "nxt (gtimer s n) = TIMER_ERR"
    using pre by (auto simp: sort_pre_def)
  have r: "sort_loop idx ret b cur n s = (ret, s')"
    using pre t last ne unfolding s'_def
    by (subst sort_loop.simps) (auto simp: Let_def sort_pre_def timer_upd)
  have g: "gtimer s' n = (gtimer s n)\<lparr>nxt := nxt (gtimer s cur), time := time (gtimer s n) - time (gtimer s cur)\<rparr>"
    "gtimer s' cur = (gtimer s cur)\<lparr>nxt := n\<rparr>"
    "\<And>j. j \<noteq> n \<Longrightarrow> j \<noteq> cur \<Longrightarrow> gtimer s' j = gtimer s j" "\<exists>g. s' = s\<lparr>gtimer := g\<rparr>"
  proof -
    show "gtimer s' n = (gtimer s n)\<lparr>nxt := nxt (gtimer s cur), time := time (gtimer s n) - time (gtimer s cur)\<rparr>"
      using t last new ne unfolding s'_def by (cases "gtimer s n") (auto simp: timer_upd)
    show "gtimer s' cur = (gtimer s cur)\<lparr>nxt := n\<rparr>"
      using ne unfolding s'_def by (simp add: timer_upd)
    show "\<exists>g. s' = s\<lparr>gtimer := g\<rparr>" unfolding s'_def by (simp add: upd_table upd_shape)
  qed (simp add: s'_def timer_upd)
  have "sorted_in acc n (cur # L) (cur # n # L) s s' \<and> linked (gtimer s') cur (cur # n # L)"
    using pre by (intro place_behind[OF _ _ _ _ _ g t]) (simp_all add: sort_pre_def)
  moreover have "(if b = cur then ret else nxt (gtimer s' b)) = cur"
    using pre g(3)[of b] by (auto simp: sort_pre_def)
  moreover have "\<forall>j. j \<noteq> b \<and> j \<noteq> n \<and> j \<notin> set (cur # L) \<longrightarrow> gtimer s' j = gtimer s j"
    using g(3) by (metis list.set_intros(1))
  ultimately show ?thesis unfolding sort_post_def r fst_conv snd_conv by (simp only: simp_thms)
qed

lemma sort_on:
  fixes s cur n
  defines "s1 \<equiv> upd n (\<lambda>x. x\<lparr>time := time x - time (gtimer s cur)\<rparr>) s"
  assumes pre: "sort_pre ret b cur n (cur # L) s" "time (gtimer s cur) < time (gtimer s n)" "L \<noteq> []"
    and idx: "idx + length (cur # L) \<le> 15"
  shows "sort_loop idx ret b cur n s = sort_loop (idx + 1) ret cur (nxt (gtimer s cur)) n s1"
    and "sort_pre ret cur (nxt (gtimer s cur)) n L s1"
    and "sort_post (acc + time (gtimer s cur)) ret cur (nxt (gtimer s cur)) n L s1 L' res \<Longrightarrow>
           sort_post acc ret b cur n (cur # L) s (cur # L') res"
proof -
  have cur: "gtimer s1 cur = gtimer s cur" "cur \<noteq> n" "cur \<notin> set L"
    using pre(1) by (auto simp: s1_def sort_pre_def timer_upd upd_def)
  have nc: "nxt (gtimer s cur) \<noteq> TIMER_ERR" "nxt (gtimer s cur) \<in> set L"
    using pre(1,3) by (cases L; auto simp: sort_pre_def usable_def)+
  have "linked (gtimer s1) (nxt (gtimer s cur)) L"
    using pre(1) by (subst linked_cong[of L _ "gtimer s"]) (auto simp: sort_pre_def s1_def upd_def)
  then show "sort_pre ret cur (nxt (gtimer s cur)) n L s1"
    using pre(1,3) cur by (auto simp: sort_pre_def s1_def timer_upd)
  have "\<not> idx + 1 > FIXED_TIMER_ERR"
    using idx pre(3) by (cases L) (auto simp: FIXED_TIMER_ERR_def TIMER_ERR_def)
  then show "sort_loop idx ret b cur n s = sort_loop (idx + 1) ret cur (nxt (gtimer s cur)) n s1"
    using pre cur nc unfolding s1_def by (subst sort_loop.simps) (simp add: Let_def sort_pre_def)
  assume post: "sort_post (acc + time (gtimer s cur)) ret cur (nxt (gtimer s cur)) n L s1 L' res"
  have ne: "cur \<noteq> nxt (gtimer s cur)" using cur nc by auto
  have so: "sorted_in acc n (cur # L) (cur # L') s (snd res)"
    using post pre unfolding s1_def by (intro sorted_in_step) (auto simp: sort_post_def sort_pre_def)
  have frame: "\<And>j. j \<noteq> cur \<Longrightarrow> j \<noteq> n \<Longrightarrow> j \<notin> set L \<Longrightarrow> gtimer (snd res) j = gtimer s j"
    using post by (simp add: sort_post_def s1_def timer_upd)
  have "linked (gtimer (snd res)) cur (cur # L')"
    using post so ne pre(1) by (simp add: sort_post_def sorted_in_def same_users_def sort_pre_def)
  then show "sort_post acc ret b cur n (cur # L) s (cur # L') res"
    using so frame[of b] frame post ne pre(1) by (auto simp: sort_post_def sort_pre_def)
qed

lemma sort_loop_post:
  assumes "sort_pre ret b cur n L s" "idx + length L \<le> 15"
  shows "\<exists>L'. sort_post acc ret b cur n L s L' (sort_loop idx ret b cur n s)"
  using assms
proof (induction L arbitrary: s cur b idx acc)
  case Nil
  then show ?case by (simp add: sort_pre_def)
next
  case (Cons c L)
  then have c: "c = cur" by (auto simp: sort_pre_def)
  note pre = Cons.prems[unfolded c]
  consider "time (gtimer s cur) > time (gtimer s n)"
    | "time (gtimer s cur) = time (gtimer s n) \<or> time (gtimer s cur) < time (gtimer s n) \<and> L = []"
    | "time (gtimer s cur) < time (gtimer s n)" "L \<noteq> []"
    by fastforce
  then show ?case
  proof cases
    case 1
    then show ?thesis using sort_front[OF pre(1)] unfolding c by blast
  next
    case 2
    then show ?thesis using sort_behind[OF pre(1)] unfolding c by blast
  next
    case 3
    note on = sort_on[OF pre(1) 3 pre(2)]
    have "idx + 1 + length L \<le> 15" using pre(2) by simp
    from Cons.IH[OF on(2) this] obtain L' where
      "sort_post (acc + time (gtimer s cur)) ret cur (nxt (gtimer s cur)) n L
         (upd n (\<lambda>x. x\<lparr>time := time x - time (gtimer s cur)\<rparr>) s) L' (sort_loop idx ret b cur n s)"
      unfolding on(1) by blast
    from on(3)[OF this] show ?thesis unfolding c by blast
  qed
qed

text \<open>Sorting a timer into a well-linked list never fails and inserts it into the agenda.\<close>

lemma time_sorting_refines:
  assumes "linked (gtimer s) h L" "distinct L" "L \<noteq> []" "n \<notin> set L"
    "usable n" "in_use (gtimer s n) = 1" "nxt (gtimer s n) = TIMER_ERR"
  shows "\<exists>r L' s'. time_sorting h n s = (r, s') \<and> sorted_in 0 n L L' s s' \<and> linked (gtimer s') r L'"
proof -
  have "sort_pre h h h n L s" using assms by (simp add: sort_pre_def)
  then obtain L' where "sort_post 0 h h h n L s L' (time_sorting h n s)"
    using sort_loop_post linked_length_new[OF assms(1,2,5,4)] unfolding time_sorting_def by fastforce
  then show ?thesis by (cases "time_sorting h n s") (auto simp: sort_post_def)
qed

end
