(* ===== verification/Timer_Loops.thy ===== *)
theory Timer_Loops
  imports Timer_Agenda
begin

text \<open>
  The other loops of the retention timers on the agenda: taking the time that passed during
  sleep from the front, expiring the timers that are due, and looking for a predecessor.
\<close>

definition calls :: "(nat \<Rightarrow> DA16X_TIMER) \<Rightarrow> nat list \<Rightarrow> (u32 \<times> u32) list" where
  "calls g L = [(cbfunc (g j), cbparam (g j)). j \<leftarrow> L, cbfunc (g j) \<noteq> 0]"

lemma calls_simps [simp]:
  "calls g [] = []"
  "calls g (j # L) = (if cbfunc (g j) \<noteq> 0 then [(cbfunc (g j), cbparam (g j))] else []) @ calls g L"
  by (simp_all add: calls_def)

lemma calls_cong:
  "(\<And>j. j \<in> set L \<Longrightarrow> cbfunc (g' j) = cbfunc (g j) \<and> cbparam (g' j) = cbparam (g j)) \<Longrightarrow> calls g' L = calls g L"
  by (induction L) auto

definition earlier :: "nat \<Rightarrow> (nat \<times> nat) list \<Rightarrow> (nat \<times> nat) list" where
  "earlier d xs = map (\<lambda>(j, t). (j, t - d)) xs"

lemma agenda_shift: "agenda g (a + b) L = map (\<lambda>(j, t). (j, a + t)) (agenda g b L)"
  by (induction L arbitrary: b) (simp_all add: add.assoc)

lemma agenda_from: "agenda g a L = map (\<lambda>(j, t). (j, a + t)) (agenda g 0 L)"
  using agenda_shift[of g a 0 L] by simp

lemma earlier_shift [simp]: "map ((\<lambda>(j, t). (j, t - d)) \<circ> (\<lambda>(j, t). (j, d + t))) xs = (xs :: (nat \<times> nat) list)"
  by (induction xs) auto

section \<open>The gap\<close>

text \<open>
  The gap that is taken differs from the one asked for by less than the time slice, and only
  the times of the listed timers change.
\<close>

lemma gap_loop_refines:
  assumes "linked (gtimer s) i L" "distinct L" "idx + length L \<le> 14"
  shows "\<exists>d g. gap_loop idx i gap s = s\<lparr>gtimer := g\<rparr> \<and> d \<le> gap \<and> (d = gap \<or> gap < d + time_slice s) \<and>
           agenda g 0 L = earlier d (agenda (gtimer s) 0 L) \<and>
           (\<forall>j. g j = (gtimer s j)\<lparr>time := time (g j)\<rparr>) \<and> (\<forall>j. j \<notin> set L \<longrightarrow> g j = gtimer s j)"
  using assms
proof (induction L arbitrary: s i idx gap)
  case Nil
  then show ?case
    by (intro exI[of _ gap] exI[of _ "gtimer s"]) (simp add: gap_loop.simps earlier_def)
next
  case (Cons j L)
  then have j: "i = j" "i \<noteq> TIMER_ERR" "i \<notin> set L" by (auto simp: usable_def)
  let ?t = "time (gtimer s i)"
  define g0 where "g0 = (\<lambda>t. (gtimer s)(i := (gtimer s i)\<lparr>time := t\<rparr>))"
  have g0: "g0 t i = (gtimer s i)\<lparr>time := t\<rparr>" "\<And>k. k \<noteq> i \<Longrightarrow> g0 t k = gtimer s k"
    "upd i (\<lambda>x. x\<lparr>time := t\<rparr>) s = s\<lparr>gtimer := g0 t\<rparr>" for t
    by (simp_all add: g0_def upd_def)
  have ag: "agenda (g0 t) a L = agenda (gtimer s) a L" for t a
    using j by (intro agenda_cong) (auto simp: g0_def)
  have only: "\<forall>k. g0 t k = (gtimer s k)\<lparr>time := time (g0 t k)\<rparr>"
    "\<forall>k. k \<notin> set (j # L) \<longrightarrow> g0 t k = gtimer s k" for t
    using j(1) by (auto simp: g0_def)
  consider "gap = 0" | "?t > gap" "gap > 0" | "?t \<le> gap" "gap > 0" "gap - ?t < time_slice s"
    | "?t \<le> gap" "gap > 0" "gap - ?t \<ge> time_slice s" by linarith
  then show ?case
  proof cases
    case 1
    then show ?thesis
      by (intro exI[of _ 0] exI[of _ "gtimer s"]) (simp add: gap_loop.simps earlier_def)
  next
    case 2
    then have "gap_loop idx i gap s = s\<lparr>gtimer := g0 (?t - gap)\<rparr>"
      using j(2) by (subst gap_loop.simps) (simp add: g0_def upd_def)
    moreover have "agenda (g0 (?t - gap)) 0 (j # L) = earlier gap (agenda (gtimer s) 0 (j # L))"
      using 2 unfolding j(1)[symmetric] by (auto simp: earlier_def g0 ag agenda_from[of _ "time _"] agenda_from[of _ "time _ - gap"])
    ultimately show ?thesis using only by (intro exI[of _ gap] exI[of _ "g0 (?t - gap)"]) simp
  next
    case 3
    then have "gap_loop idx i gap s = s\<lparr>gtimer := g0 0\<rparr>"
      using j(2) by (subst gap_loop.simps) (simp add: g0 Let_def)
    moreover have "agenda (g0 0) 0 (j # L) = earlier ?t (agenda (gtimer s) 0 (j # L))"
      unfolding j(1)[symmetric] by (auto simp: earlier_def g0 ag agenda_from[of _ "time _"])
    moreover have "gap < ?t + time_slice s" using 3 by linarith
    ultimately show ?thesis using only 3(1) by (intro exI[of _ ?t] exI[of _ "g0 0"]) simp
  next
    case 4
    let ?s1 = "s\<lparr>gtimer := g0 0\<rparr>"
    have "\<not> idx + 1 > FIXED_TIMER_ERR" using Cons.prems(3) by (simp add: FIXED_TIMER_ERR_def TIMER_ERR_def)
    then have r: "gap_loop idx i gap s = gap_loop (idx + 1) (nxt (gtimer s i)) (gap - ?t) ?s1"
      using j(2) 4 by (subst gap_loop.simps) (simp add: g0 Let_def)
    have "linked (gtimer ?s1) (nxt (gtimer s i)) L"
      using Cons.prems(1) j by (subst linked_cong[of L _ "gtimer s"]) (auto simp: g0_def)
    then obtain d g where IH: "gap_loop (idx + 1) (nxt (gtimer s i)) (gap - ?t) ?s1 = ?s1\<lparr>gtimer := g\<rparr>"
      "d \<le> gap - ?t" "d = gap - ?t \<or> gap - ?t < d + time_slice s"
      "agenda g 0 L = earlier d (agenda (g0 0) 0 L)"
      "\<forall>k. g k = (g0 0 k)\<lparr>time := time (g k)\<rparr>" "\<forall>k. k \<notin> set L \<longrightarrow> g k = g0 0 k"
      using Cons.IH[of ?s1 "nxt (gtimer s i)" "idx + 1" "gap - ?t"] Cons.prems(2,3) by auto
    have gi: "time (g i) = 0" using IH(6) j(1,3) g0(1)[of 0] by simp
    have "agenda g 0 (j # L) = earlier (?t + d) (agenda (gtimer s) 0 (j # L))"
      using gi IH(4) ag unfolding j(1)[symmetric] by (auto simp: earlier_def agenda_from[of _ "time _"])
    moreover have "g k = (gtimer s k)\<lparr>time := time (g k)\<rparr>" for k
      using IH(5)[rule_format, of k] only(1)[of 0] by (cases "k = i") (simp_all add: g0)
    moreover have "\<forall>k. k \<notin> set (j # L) \<longrightarrow> g k = gtimer s k" using IH(6) j(1) by (auto simp: g0)
    moreover have "?t + d \<le> gap" "?t + d = gap \<or> gap < ?t + d + time_slice s" using IH(2,3) 4 by auto
    ultimately show ?thesis using r IH(1)
      by (intro exI[of _ "?t + d"] exI[of _ g]) simp
  qed
qed

section \<open>Expiry\<close>

text \<open>The timers that the loop expires, and those that stay.\<close>

definition due :: "timers \<Rightarrow> nat list \<Rightarrow> nat list" where
  "due s L = takeWhile (\<lambda>j. time (gtimer s j) \<le> time_slice s) L"

definition later :: "timers \<Rightarrow> nat list \<Rightarrow> nat list" where
  "later s L = dropWhile (\<lambda>j. time (gtimer s j) \<le> time_slice s) L"

definition first :: "nat list \<Rightarrow> nat" where
  "first L = (case L of [] \<Rightarrow> TIMER_ERR | j # _ \<Rightarrow> j)"

definition retire :: "nat list \<Rightarrow> (nat \<Rightarrow> DA16X_TIMER) \<Rightarrow> nat \<Rightarrow> DA16X_TIMER" where
  "retire D g j = (if j \<in> set D then (g j)\<lparr>in_use := 0\<rparr> else g j)"

lemma due_later: "due s L @ later s L = L"
  by (simp add: due_def later_def)

lemma linked_first: "linked g i L \<Longrightarrow> i = first L"
  by (cases L) (auto simp: first_def)

lemma expire_loop_refines:
  assumes "linked (gtimer s) i L" "distinct L" "idx + length L \<le> 14"
  shows "expire_loop idx i s =
           (first (later s L), s\<lparr>gtimer := retire (due s L) (gtimer s), fired := fired s @ calls (gtimer s) (due s L)\<rparr>)"
  using assms
proof (induction L arbitrary: s i idx)
  case Nil
  then show ?case by (simp add: expire_loop.simps later_def due_def first_def retire_def [abs_def])
next
  case (Cons j L)
  then have j: "i = j" "i \<noteq> TIMER_ERR" "j \<notin> set L" by (auto simp: usable_def)
  show ?case
  proof (cases "time (gtimer s j) \<le> time_slice s")
    case False
    then show ?thesis using j
      by (simp add: expire_loop.simps later_def due_def first_def retire_def [abs_def])
  next
    case True
    let ?s1 = "upd j (\<lambda>x. x\<lparr>in_use := 0\<rparr>) (fire j s)"
    have g: "gtimer ?s1 j = (gtimer s j)\<lparr>in_use := 0\<rparr>" "\<And>k. k \<noteq> j \<Longrightarrow> gtimer ?s1 k = gtimer s k"
      "time_slice ?s1 = time_slice s" "fired ?s1 = fired s @ calls (gtimer s) [j]"
      by (simp_all add: timer_upd fire_def upd_def)
    have "\<not> idx + 1 > FIXED_TIMER_ERR" using Cons.prems(3) by (simp add: FIXED_TIMER_ERR_def TIMER_ERR_def)
    then have r: "expire_loop idx i s = expire_loop (idx + 1) (nxt (gtimer s j)) ?s1"
      using True j by (subst expire_loop.simps) (simp add: Let_def g(1))
    have rest: "gtimer ?s1 k = gtimer s k" if "k \<in> set L" for k
      using j(3) that by (intro g(2)) auto
    have lk: "linked (gtimer ?s1) (nxt (gtimer s j)) L"
      using Cons.prems(1) by (subst linked_cong[of L _ "gtimer s"]) (auto simp: rest)
    have same: "due ?s1 L = due s L" "later ?s1 L = later s L" "calls (gtimer ?s1) (due s L) = calls (gtimer s) (due s L)"
      unfolding due_def later_def
      by (auto intro!: takeWhile_cong dropWhile_cong calls_cong dest: set_takeWhileD simp: g(3) rest)
    have "retire (due s L) (gtimer ?s1) = retire (due s (j # L)) (gtimer s)"
      using True g(1,2) by (auto simp: retire_def due_def fun_eq_iff rest dest!: set_takeWhileD)
    moreover have "?s1\<lparr>gtimer := h, fired := c\<rparr> = s\<lparr>gtimer := h, fired := c\<rparr>" for h c
      by (simp add: upd_def fire_def)
    moreover have "later s (j # L) = later s L" "due s (j # L) = j # due s L"
      using True by (simp_all add: later_def due_def)
    ultimately show ?thesis
      using Cons.IH[OF lk, of "idx + 1"] Cons.prems(2,3) by (simp add: r same g(4))
  qed
qed

section \<open>Looking for a predecessor\<close>

lemma kill_loop_finds:
  assumes "linked g h (A @ p # i # B)" "distinct (A @ p # i # B)" "idx + length A < 14"
    "\<And>j. nxt (gtimer s j) = nxt (g j)"
  shows "kill_loop idx i h s = Some p"
  using assms(1-3)
proof (induction A arbitrary: h idx)
  case Nil
  then show ?case by (subst kill_loop.simps) (simp add: assms(4))
next
  case (Cons a A)
  then have "nxt (g h) \<noteq> i" by (cases A) auto
  then show ?case using Cons
    by (subst kill_loop.simps) (auto simp: assms(4) FIXED_TIMER_ERR_def TIMER_ERR_def)
qed

end
