(* ===== verification/Timer_Ops.thy ===== *)
theory Timer_Ops
  imports Timer_Loops
begin

text \<open>
  The operations of the retention timers on the agenda: arming and stopping the hardware counter,
  the callback processing, and the removal of a timer from the list.
\<close>

definition timers_wf :: "timers \<Rightarrow> nat list \<Rightarrow> bool" where
  "timers_wf s L \<longleftrightarrow> linked (gtimer s) (gCurIdx s) L \<and> distinct L"

text \<open>The agenda at a moment at which the hardware counter runs for the first timer.\<close>

definition agenda_now :: "timer_env \<Rightarrow> timers \<Rightarrow> nat list \<Rightarrow> (nat \<times> nat) list" where
  "agenda_now e s L =
     (case L of [] \<Rightarrow> []
      | h # K \<Rightarrow> (h, CLK2US (RTC_EXP_TH s - counter e)) # agenda (gtimer s) (CLK2US (RTC_EXP_TH s - counter e)) K)"

text \<open>The hardware counter runs for the first timer of the list.\<close>

definition armed :: "timer_env \<Rightarrow> timers \<Rightarrow> nat list \<Rightarrow> bool" where
  "armed e s L \<longleftrightarrow>
     rtc_exp_callback s = Some (first L) \<and>
     RTC_EXP_TH s = US2CLK (time (gtimer s (first L))) + counter_end e"

lemma timer_active:
  assumes "hTimer s" "RTC_EXP_Status e = 0"
  shows "DA16200_TIMER_ACTIVE e i s =
    s\<lparr>rtc_exp_callback := Some i, RTC_EXP_TH := US2CLK (time (gtimer s i)) + counter_end e\<rparr>"
  using assms
  by (simp add: DA16200_TIMER_ACTIVE_def MCNT_START_def clear_rtc_exp_status_def registry_rtc_exp_timer_def)

lemma mcnt_stop_running:
  assumes "hTimer s" "RTC_EXP_Status e = 0" "RTC_EXP_TH s > counter e"
  shows "MCNT_STOP e s = (1, RTC_EXP_TH s - counter e, s\<lparr>rtc_exp_callback := None\<rparr>)"
  using assms by (simp add: MCNT_STOP_def clear_rtc_exp_status_def)

lemma stop_counter_running:
  assumes "hTimer s" "RTC_EXP_Status e = 0" "RTC_EXP_TH s > counter e"
  shows "stop_counter e s =
    upd (gCurIdx s) (\<lambda>x. x\<lparr>time := CLK2US (RTC_EXP_TH s - counter e)\<rparr>) (s\<lparr>rtc_exp_callback := None\<rparr>)"
  using mcnt_stop_running[OF assms] by (simp add: stop_counter_def)

lemma timer_alloc_free:
  assumes "usable i" "in_use (gtimer s i) = 0"
  shows "\<exists>g. DA16200_TIMER_ALLOC i t p s = (i, s\<lparr>gtimer := g\<rparr>) \<and> in_use (g i) = 1 \<and> nxt (g i) = TIMER_ERR \<and>
    time (g i) = t \<and> cbfunc (g i) = callback_func p \<and> cbparam (g i) = callback_param p \<and>
    (\<forall>j. j \<noteq> i \<longrightarrow> g j = gtimer s j)"
proof -
  have "chk_timer_id s i = i" "i \<noteq> TIMER_ERR" using assms by (auto simp: chk_timer_id_def usable_def)
  then obtain f where f: "DA16200_TIMER_ALLOC i t p s = (i, upd i f s)"
    "\<And>x. in_use (f x) = 1 \<and> nxt (f x) = TIMER_ERR \<and> time (f x) = t \<and> cbfunc (f x) = callback_func p \<and> cbparam (f x) = callback_param p"
    unfolding DA16200_TIMER_ALLOC_def by simp
  have "upd i f s = s\<lparr>gtimer := gtimer (upd i f s)\<rparr>" by (simp add: upd_def)
  then show ?thesis using f by (intro exI[of _ "gtimer (upd i f s)"]) (simp add: timer_upd)
qed

section \<open>Sorting in while the counter is stopped\<close>

lemma agenda_now_stopped:
  assumes "L = h # K" "distinct L" "time (g h) = CLK2US (RTC_EXP_TH s - counter e)"
    "\<And>j. j \<in> set K \<Longrightarrow> time (g j) = time (gtimer s j)"
  shows "agenda g 0 L = agenda_now e s L"
  using assms by (simp add: agenda_now_def agenda_cong[of K g "gtimer s"])

lemma sort_in_list:
  assumes "timers_wf s L" "L \<noteq> []" "usable n" "in_use (gtimer s n) = 0"
    and g: "linked g (gCurIdx s) L" "in_use (g n) = 1" "nxt (g n) = TIMER_ERR" "gtimer s' = g"
  shows "\<exists>L' r s''. time_sorting (gCurIdx s) n s' = (r, s'') \<and> linked (gtimer s'') r L' \<and> distinct L' \<and>
    set L' = insert n (set L) \<and> agenda (gtimer s'') 0 L' = insert_event (n, time (g n)) (agenda g 0 L) \<and>
    same_users g (gtimer s'') \<and> (\<exists>h. s'' = s'\<lparr>gtimer := h\<rparr>)"
proof -
  have "n \<notin> set L" using assms(1,4) linked_usable by (fastforce simp: timers_wf_def)
  moreover have "distinct L" using assms(1) by (simp add: timers_wf_def)
  ultimately obtain r L' s'' where "time_sorting (gCurIdx s) n s' = (r, s'')"
      "sorted_in 0 n L L' s' s''" "linked (gtimer s'') r L'"
    using time_sorting_refines[of s' "gCurIdx s" L n] assms(2,3) g by blast
  then show ?thesis using g(4) by (auto simp: sorted_in_def)
qed

section \<open>Processing the callbacks\<close>

lemma process_callback_refines:
  assumes "timers_wf s (h # L)" "time_gap s = 0"
  shows "DA16200_PROCESS_CALLBACK e h s =
    (first (later s L),
     s\<lparr>gtimer := (retire (due s L) (gtimer s))(h := (gtimer s h)\<lparr>in_use := 0, time := 0\<rparr>),
       fired := fired s @ calls (gtimer s) (h # due s L)\<rparr>)"
proof -
  let ?s1 = "upd h (\<lambda>x. x\<lparr>in_use := 0, time := 0\<rparr>) (fire h s)"
  have h: "gCurIdx s = h" "in_use (gtimer s h) \<noteq> 0" "h \<notin> set L" "distinct L"
    using assms(1) by (auto simp: timers_wf_def)
  have g: "gtimer ?s1 h = (gtimer s h)\<lparr>in_use := 0, time := 0\<rparr>" "\<And>k. k \<noteq> h \<Longrightarrow> gtimer ?s1 k = gtimer s k"
    "time_slice ?s1 = time_slice s" "time_gap ?s1 = time_gap s" "gCurIdx ?s1 = gCurIdx s"
    "fired ?s1 = fired s @ calls (gtimer s) [h]"
    by (simp_all add: timer_upd fire_def upd_def)
  have rest: "gtimer ?s1 k = gtimer s k" if "k \<in> set L" for k using h(3) that by (intro g(2)) auto
  have lk: "linked (gtimer ?s1) (nxt (gtimer s h)) L"
    using assms(1) by (subst linked_cong[of L _ "gtimer s"]) (auto simp: rest timers_wf_def)
  have "length L \<le> 14" using linked_length[of "gtimer s" "gCurIdx s" "h # L"] assms(1) by (simp add: timers_wf_def)
  then have ex: "expire_loop 0 (nxt (gtimer s h)) ?s1 =
      (first (later ?s1 L), ?s1\<lparr>gtimer := retire (due ?s1 L) (gtimer ?s1), fired := fired ?s1 @ calls (gtimer ?s1) (due ?s1 L)\<rparr>)"
    using h(4) by (intro expire_loop_refines[OF lk]) auto
  have same: "due ?s1 L = due s L" "later ?s1 L = later s L" "calls (gtimer ?s1) (due s L) = calls (gtimer s) (due s L)"
    unfolding due_def later_def
    by (auto intro!: takeWhile_cong dropWhile_cong calls_cong dest: set_takeWhileD simp: g(3) rest)
  have "retire (due s L) (gtimer ?s1) = (retire (due s L) (gtimer s))(h := (gtimer s h)\<lparr>in_use := 0, time := 0\<rparr>)"
    using g(1,2) h(3) by (auto simp: retire_def due_def fun_eq_iff dest: set_takeWhileD)
  moreover have "?s1\<lparr>gtimer := x, fired := c\<rparr> = s\<lparr>gtimer := x, fired := c\<rparr>" for x c
    by (simp add: upd_def fire_def)
  ultimately show ?thesis
    using h assms(2) by (simp add: DA16200_PROCESS_CALLBACK_def Let_def g same ex)
qed

lemma time_only:
  "x = y\<lparr>time := t\<rparr> \<Longrightarrow> in_use x = in_use y \<and> nxt x = nxt y \<and> cbfunc x = cbfunc y \<and> cbparam x = cbparam y"
  by simp

text \<open>With time that passed during sleep taken from the list first.\<close>

lemma process_callback_gap:
  assumes wf: "timers_wf s (h # L)" and "time_gap s \<noteq> 0"
  shows "\<exists>d g. d \<le> CLK2US (get_remain_counter e + 3) \<and>
    (d = CLK2US (get_remain_counter e + 3) \<or> CLK2US (get_remain_counter e + 3) < d + time_slice s) \<and>
    agenda g 0 L = earlier d (agenda (gtimer s) 0 L) \<and>
    (\<forall>j. j \<noteq> h \<longrightarrow> g j = (gtimer s j)\<lparr>time := time (g j)\<rparr>) \<and> g h = (gtimer s h)\<lparr>in_use := 0, time := 0\<rparr> \<and>
    DA16200_PROCESS_CALLBACK e h s = (first (later (s\<lparr>gtimer := g\<rparr>) L),
      s\<lparr>gtimer := retire (due (s\<lparr>gtimer := g\<rparr>) L) g, fired := fired s @ calls (gtimer s) (h # due (s\<lparr>gtimer := g\<rparr>) L)\<rparr>)"
proof -
  let ?c = "fired s @ calls (gtimer s) [h]" and ?G = "CLK2US (get_remain_counter e + 3)"
  define g1 where "g1 = (gtimer s)(h := (gtimer s h)\<lparr>in_use := 0, time := 0\<rparr>)"
  define s1 where "s1 = s\<lparr>gtimer := g1, fired := ?c\<rparr>"
  have s1: "upd h (\<lambda>x. x\<lparr>in_use := 0, time := 0\<rparr>) (fire h s) = s1"
    by (simp add: s1_def g1_def fire_def upd_def)
  have h: "gCurIdx s = h" "in_use (gtimer s h) \<noteq> 0" "h \<notin> set L" "distinct L"
    using wf by (auto simp: timers_wf_def)
  have rest: "g1 k = gtimer s k" if "k \<in> set L" for k using h(3) that by (auto simp: g1_def)
  have lk: "linked (gtimer s1) (nxt (gtimer s h)) L"
    using wf by (subst linked_cong[of L _ "gtimer s"]) (auto simp: rest s1_def timers_wf_def)
  have len: "0 + length L \<le> 14" using linked_length[of "gtimer s" "gCurIdx s" "h # L"] wf by (simp add: timers_wf_def)
  obtain d g where gap: "gap_loop 0 (nxt (gtimer s h)) ?G s1 = s1\<lparr>gtimer := g\<rparr>" "d \<le> ?G"
    "d = ?G \<or> ?G < d + time_slice s1" "agenda g 0 L = earlier d (agenda (gtimer s1) 0 L)"
    "\<forall>j. g j = (gtimer s1 j)\<lparr>time := time (g j)\<rparr>" "\<forall>j. j \<notin> set L \<longrightarrow> g j = gtimer s1 j"
    using gap_loop_refines[OF lk h(4) len, of ?G] by blast
  have users: "in_use (g j) = in_use (g1 j) \<and> nxt (g j) = nxt (g1 j) \<and> cbfunc (g j) = cbfunc (g1 j) \<and> cbparam (g j) = cbparam (g1 j)" for j
    using time_only[OF gap(5)[rule_format, of j]] by (simp add: s1_def)
  let ?s2 = "s\<lparr>gtimer := g\<rparr>"
  have same: "due (s1\<lparr>gtimer := g\<rparr>) L = due ?s2 L" "later (s1\<lparr>gtimer := g\<rparr>) L = later ?s2 L"
    by (simp_all add: due_def later_def s1_def)
  have "calls g (due ?s2 L) = calls (gtimer s) (due ?s2 L)"
    using users rest unfolding due_def by (intro calls_cong) (auto dest: set_takeWhileD)
  moreover have "linked g (nxt (gtimer s h)) L"
    using lk users by (subst linked_cong[of L _ "gtimer s1"]) (auto simp: s1_def)
  ultimately have ex: "expire_loop 0 (nxt (gtimer s h)) (s1\<lparr>gtimer := g\<rparr>) = (first (later ?s2 L),
      s\<lparr>gtimer := retire (due ?s2 L) g, fired := fired s @ calls (gtimer s) (h # due ?s2 L)\<rparr>)"
    using expire_loop_refines[of "s1\<lparr>gtimer := g\<rparr>" "nxt (gtimer s h)" L 0] h(4) len same by (simp add: s1_def)
  have gh: "g h = (gtimer s h)\<lparr>in_use := 0, time := 0\<rparr>" using gap(6) h(3) by (simp add: s1_def g1_def)
  have "DA16200_PROCESS_CALLBACK e h s = expire_loop 0 (nxt (gtimer s h)) (s1\<lparr>gtimer := g\<rparr>)"
    using h assms(2) gap(1) unfolding DA16200_PROCESS_CALLBACK_def s1 by (simp add: Let_def s1_def g1_def)
  moreover have "g j = (gtimer s j)\<lparr>time := time (g j)\<rparr>" if "j \<noteq> h" for j
    using gap(5)[rule_format, of j] that by (simp add: s1_def g1_def)
  moreover have "agenda (gtimer s1) 0 L = agenda (gtimer s) 0 L"
    using rest by (intro agenda_cong) (simp add: s1_def)
  ultimately show ?thesis using ex gap(2-4) gh by (intro exI[of _ d] exI[of _ g]) (simp add: s1_def)
qed

end
