(* ===== verification/Timer_Props.thy ===== *)
theory Timer_Props
  imports Timer_Ops
begin

text \<open>
  The properties of the retention timers: setting, killing and expiring timers on the agenda,
  waking up, and the places where the code departs from it.
\<close>

section \<open>Setting a timer\<close>

text \<open>The agenda that the code works on: a counter that has run out keeps the old time of its timer.\<close>

definition agenda_seen :: "timer_env \<Rightarrow> timers \<Rightarrow> nat list \<Rightarrow> (nat \<times> nat) list" where
  "agenda_seen e s L = (if RTC_EXP_TH s > counter e then agenda_now e s L else agenda (gtimer s) 0 L)"

lemma stop_counter_seen:
  assumes "timers_wf s L" "L \<noteq> []" "hTimer s'" "RTC_EXP_Status e = 0" "gCurIdx s' = gCurIdx s" "RTC_EXP_TH s' = RTC_EXP_TH s"
    "\<And>j. j \<in> set L \<Longrightarrow> gtimer s' j = gtimer s j" "n \<notin> set L"
  shows "\<exists>g. stop_counter e s' = s'\<lparr>rtc_exp_callback := None, gtimer := g\<rparr> \<and> linked g (gCurIdx s) L \<and>
    agenda g 0 L = agenda_seen e s L \<and> g n = gtimer s' n \<and> same_users (gtimer s') g"
proof (cases "RTC_EXP_TH s > counter e")
  case True
  obtain h K where L: "L = h # K" "gCurIdx s = h" "h \<notin> set K" "h \<noteq> n"
    using assms(1,2,8) by (cases L) (auto simp: timers_wf_def)
  let ?r = "CLK2US (RTC_EXP_TH s - counter e)"
  define g where "g = (gtimer s')(h := (gtimer s' h)\<lparr>time := ?r\<rparr>)"
  have "stop_counter e s' = s'\<lparr>rtc_exp_callback := None, gtimer := g\<rparr>"
    using stop_counter_running[OF assms(3,4)] True L assms(5,6) by (simp add: upd_def g_def)
  moreover have "linked g (gCurIdx s) L"
    using assms(1,7) by (subst linked_cong[of L _ "gtimer s"]) (auto simp: timers_wf_def g_def)
  moreover have "agenda g 0 L = agenda_now e s L"
    using assms(1,7) L by (intro agenda_now_stopped) (auto simp: timers_wf_def g_def)
  moreover have "same_users (gtimer s') g" "g n = gtimer s' n" using L(4) by (auto simp: same_users_def g_def)
  ultimately show ?thesis using True by (auto simp: agenda_seen_def)
next
  case False
  have "stop_counter e s' = s'\<lparr>rtc_exp_callback := None, gtimer := gtimer s'\<rparr>"
    using False assms(3,6) by (simp add: stop_counter_def MCNT_STOP_def clear_rtc_exp_status_def)
  moreover have "linked (gtimer s') (gCurIdx s) L" "agenda (gtimer s') 0 L = agenda (gtimer s) 0 L"
    using assms(1,7) linked_cong[of L "gtimer s'" "gtimer s"] agenda_cong[of L "gtimer s'" "gtimer s"]
    by (auto simp: timers_wf_def)
  ultimately show ?thesis using False
    by (intro exI[of _ "gtimer s'"]) (simp add: agenda_seen_def)
qed

lemma set_timer_inserts:
  assumes wf: "timers_wf s L" and "\<not> isr_block s" "usable i" "in_use (gtimer s i) = 0"
    and env: "hTimer s \<or> malloc_ok e" "RTC_EXP_Status e = 0"
  shows "\<exists>L' s'. DA16X_SET_TIMER e i t p s = (i, s') \<and> timers_wf s' L' \<and> set L' = insert i (set L) \<and>
    agenda (gtimer s') 0 L' = insert_event (i, t) (agenda_seen e s L) \<and> armed e s' L' \<and>
    cbfunc (gtimer s' i) = callback_func p \<and> cbparam (gtimer s' i) = callback_param p \<and>
    (\<forall>j. j \<noteq> i \<longrightarrow> cbfunc (gtimer s' j) = cbfunc (gtimer s j) \<and> cbparam (gtimer s' j) = cbparam (gtimer s j))"
proof -
  obtain g1 where a: "DA16200_TIMER_ALLOC i t p s = (i, s\<lparr>gtimer := g1\<rparr>)" "in_use (g1 i) = 1"
    "nxt (g1 i) = TIMER_ERR" "time (g1 i) = t" "cbfunc (g1 i) = callback_func p" "cbparam (g1 i) = callback_param p"
    "\<And>j. j \<noteq> i \<Longrightarrow> g1 j = gtimer s j"
    using timer_alloc_free[OF assms(3,4)] by blast
  have i: "i \<noteq> TIMER_ERR" "i \<notin> set L"
    using assms(1,3,4) linked_usable by (fastforce simp: timers_wf_def usable_def)+
  let ?s2 = "s\<lparr>gtimer := g1, hTimer := True\<rparr>"
  show ?thesis
  proof (cases "L = []")
    case True
    then have c: "gCurIdx s = TIMER_ERR" using wf by (simp add: timers_wf_def)
    let ?s' = "DA16200_TIMER_ACTIVE e i (?s2\<lparr>gCurIdx := i\<rparr>)"
    have "DA16X_SET_TIMER e i t p s = (i, ?s')"
      using a(1) assms(2) env(1) i c by (auto simp: DA16X_SET_TIMER_def MCNT_CREATE_def)
    moreover have "agenda_seen e s [] = []" by (simp add: agenda_seen_def agenda_now_def)
    ultimately show ?thesis using True a(2-) assms(3) env(2)
      by (intro exI[of _ "[i]"] exI[of _ ?s']) (simp add: timer_active timers_wf_def armed_def first_def)
  next
    case False
    have c: "gCurIdx s \<noteq> TIMER_ERR" using wf False by (cases L) (auto simp: timers_wf_def usable_def)
    have "gtimer ?s2 j = gtimer s j" if "j \<in> set L" for j using a(7)[of j] i(2) that by auto
    then obtain g where st: "stop_counter e ?s2 = ?s2\<lparr>rtc_exp_callback := None, gtimer := g\<rparr>" "linked g (gCurIdx s) L"
      "agenda g 0 L = agenda_seen e s L" "g i = g1 i" "same_users g1 g"
      using stop_counter_seen[OF wf False _ env(2), of ?s2 i] i(2) by auto
    obtain L' r s'' where so: "time_sorting (gCurIdx s) i (stop_counter e ?s2) = (r, s'')" "linked (gtimer s'') r L'"
      "distinct L'" "set L' = insert i (set L)" "agenda (gtimer s'') 0 L' = insert_event (i, t) (agenda g 0 L)"
      "same_users g (gtimer s'')" "\<exists>h. s'' = (stop_counter e ?s2)\<lparr>gtimer := h\<rparr>"
      using sort_in_list[OF wf False assms(3,4) st(2), of "stop_counter e ?s2"] a(2-4) st(1,4) by auto
    let ?s' = "DA16200_TIMER_ACTIVE e r (s''\<lparr>gCurIdx := r\<rparr>)"
    have "DA16X_SET_TIMER e i t p s = (i, ?s')"
      using a(1) assms(2) env(1) i(1) c so(1) by (auto simp: DA16X_SET_TIMER_def MCNT_CREATE_def)
    moreover have "hTimer s''" using so(7) st(1) by auto
    moreover have "r = first L'" using linked_first[OF so(2)] .
    moreover have "same_users g1 (gtimer s'')" using same_users_trans[OF st(5) so(6)] .
    ultimately show ?thesis using so(2-5) st(3) a(5-7) env(2)
      by (intro exI[of _ L'] exI[of _ ?s']) (auto simp: timer_active timers_wf_def armed_def same_users_def)
  qed
qed

lemma set_timer_fails:
  assumes wf: "timers_wf s L" and "\<not> isr_block s" "usable i" "in_use (gtimer s i) = 0" "\<not> hTimer s" "\<not> malloc_ok e"
  shows "\<exists>s'. DA16X_SET_TIMER e i t p s = (TIMER_ERR, s') \<and> timers_wf s' L \<and> agenda (gtimer s') 0 L = agenda (gtimer s) 0 L \<and>
    i \<notin> set L \<and> in_use (gtimer s' i) = 1 \<and> (\<forall>j. j \<noteq> i \<longrightarrow> gtimer s' j = gtimer s j) \<and>
    gCurIdx s' = gCurIdx s \<and> rtc_exp_callback s' = rtc_exp_callback s \<and> RTC_EXP_TH s' = RTC_EXP_TH s"
proof -
  obtain g where a: "DA16200_TIMER_ALLOC i t p s = (i, s\<lparr>gtimer := g\<rparr>)" "in_use (g i) = 1" "\<And>j. j \<noteq> i \<Longrightarrow> g j = gtimer s j"
    using timer_alloc_free[OF assms(3,4)] by blast
  have i: "i \<noteq> TIMER_ERR" "i \<notin> set L"
    using assms(1,3,4) linked_usable by (fastforce simp: timers_wf_def usable_def)+
  have same: "g j = gtimer s j" if "j \<in> set L" for j using a(3)[of j] i(2) that by auto
  have "linked g (gCurIdx s) L = linked (gtimer s) (gCurIdx s) L" "agenda g 0 L = agenda (gtimer s) 0 L"
    using same by (auto intro!: linked_cong agenda_cong)
  then show ?thesis using a assms(2,5,6) i wf by (simp add: DA16X_SET_TIMER_def MCNT_CREATE_def timers_wf_def)
qed

text \<open>
  C11. Setting a free timer in a well-formed table, outside the interrupt and with no status of the counter pending, succeeds when the
  counter has its handle or can allocate it, and inserts the timer into the agenda at its
  time: every other timer keeps its expiry, the list stays well formed and without a duplicate, its
  callback is the one given and the callbacks of the others are unchanged, and the hardware counter
  is armed for the first timer. The agenda of the others is the one that counts the running
  time of the first one; when the counter had already run out without its interrupt having been
  served, the first timer gets its whole old time again. Without a handle and without memory for it the call fails; list, agenda, counter and the other
  timers stay as they were, but the timer stays marked as used although it is in no list.
\<close>

theorem set_timer_correct:
  assumes "timers_wf s L" "\<not> isr_block s" "usable i" "in_use (gtimer s i) = 0" "RTC_EXP_Status e = 0"
  shows "if hTimer s \<or> malloc_ok e
    then \<exists>L' s'. DA16X_SET_TIMER e i t p s = (i, s') \<and> timers_wf s' L' \<and> set L' = insert i (set L) \<and>
      agenda (gtimer s') 0 L' = insert_event (i, t) (agenda_seen e s L) \<and> armed e s' L' \<and>
      cbfunc (gtimer s' i) = callback_func p \<and> cbparam (gtimer s' i) = callback_param p \<and>
      (\<forall>j. j \<noteq> i \<longrightarrow> cbfunc (gtimer s' j) = cbfunc (gtimer s j) \<and> cbparam (gtimer s' j) = cbparam (gtimer s j))
    else \<exists>s'. DA16X_SET_TIMER e i t p s = (TIMER_ERR, s') \<and> timers_wf s' L \<and> agenda (gtimer s') 0 L = agenda (gtimer s) 0 L \<and>
      i \<notin> set L \<and> in_use (gtimer s' i) = 1 \<and> (\<forall>j. j \<noteq> i \<longrightarrow> gtimer s' j = gtimer s j) \<and>
      gCurIdx s' = gCurIdx s \<and> rtc_exp_callback s' = rtc_exp_callback s \<and> RTC_EXP_TH s' = RTC_EXP_TH s"
  using set_timer_inserts[OF assms(1-4) _ assms(5), of t p] set_timer_fails[OF assms(1-4), of e t p] by (simp split: if_split)

text \<open>A table with the timers 3 and 7 armed, the first for 20000 and the second for 30000 microseconds.\<close>

definition two_timers :: timers where
  "two_timers =
     \<lparr>gtimer = (\<lambda>i. zero_timer\<lparr>nxt := TIMER_ERR\<rparr>)
        (3 := zero_timer\<lparr>in_use := 1, nxt := 7, cbfunc := 0x1000, cbparam := 3, time := 20000\<rparr>,
         7 := zero_timer\<lparr>in_use := 1, nxt := TIMER_ERR, cbfunc := 0x2000, cbparam := 7, time := 10000\<rparr>),
      time_slice = 200, BOOT_TIM = False, gCurIdx = 3, time_gap = 0, isr_block = False, isr_gap = 0,
      hTimer = True, rtc_exp_callback = Some 3, RTC_EXP_TH = 1655, rtcm_boot = 0, power_down = None, fired = []\<rparr>"

definition env_1000 :: timer_env where
  "env_1000 = \<lparr>malloc_ok = True, RTC_EXP_Status = 0, counter = 1000, counter_end = 1002, wake_reg = 990,
     wakeup_source = 0x82, retention_ctrl = 0x30\<rparr>"

lemmas timer_example = two_timers_def env_1000_def timers_wf_def usable_def TIMER_ERR_def zero_timer_def

theorem set_timer_correct_witness:
  "\<exists>L' s'. DA16X_SET_TIMER env_1000 5 25000 \<lparr>callback_param = 5, callback_func = 0x3000, booting_offset_param = 0\<rparr> two_timers = (5, s') \<and>
     set L' = {3, 5, 7} \<and> agenda (gtimer s') 0 L' = [(3, 19989), (5, 25000), (7, 29989)]"
proof -
  have "agenda_seen env_1000 two_timers [3, 7] = [(3, 19989), (7, 29989)]"
    by (simp add: agenda_seen_def agenda_now_def CLK2US_def timer_example)
  moreover have "timers_wf two_timers [3, 7]" "\<not> isr_block two_timers" "usable 5" "in_use (gtimer two_timers 5) = 0"
    "hTimer two_timers" "RTC_EXP_Status env_1000 = 0"
    by (simp_all add: timer_example)
  ultimately show ?thesis
    using set_timer_correct[of two_timers "[3, 7]" 5 env_1000 25000 "\<lparr>callback_param = 5, callback_func = 0x3000, booting_offset_param = 0\<rparr>"]
    by (auto simp: insert_commute)
qed

section \<open>Killing a timer\<close>

lemma linked_append:
  "linked g i (A @ j # B) \<Longrightarrow> linked g j (j # B)"
  by (induction A arbitrary: i) auto

lemma agenda_append:
  "agenda g a (A @ B) = agenda g a A @ agenda g (a + sum_list (map (\<lambda>j. time (g j)) A)) B"
  by (induction A arbitrary: a) (auto simp: add.assoc)

lemma remove_event_absent: "i \<notin> set L \<Longrightarrow> remove_event i (agenda g a L) = agenda g a L"
  by (induction L arbitrary: a) (auto simp: remove_event_def)

lemma remove_event_cons: "remove_event i ((j, t) # xs) = (if j = i then remove_event i xs else (j, t) # remove_event i xs)"
  by (simp add: remove_event_def)

lemma remove_event_append [simp]: "remove_event i (xs @ ys) = remove_event i xs @ remove_event i ys"
  by (simp add: remove_event_def)

text \<open>Unlinking a timer behind its predecessor.\<close>

lemma unlink_linked:
  assumes "linked g i (A @ p # k # B)"
    "nxt (g' p) = nxt (g k)" "in_use (g' p) = in_use (g p)"
    "\<And>j. j \<in> set (A @ B) \<Longrightarrow> nxt (g' j) = nxt (g j) \<and> in_use (g' j) = in_use (g j)"
  shows "linked g' i (A @ p # B)"
  using assms
proof (induction A arbitrary: i)
  case Nil
  moreover have "linked g' (nxt (g k)) B"
    using Nil by (subst linked_cong[of B _ g]) auto
  ultimately show ?case by simp
qed auto

lemma unlink_agenda:
  assumes "distinct (A @ p # k # B)" "\<And>j. j \<in> set (A @ [p]) \<Longrightarrow> time (g' j) = time (g j)"
    "B \<noteq> [] \<Longrightarrow> time (g' (hd B)) = time (g (hd B)) + time (g k)"
    "\<And>j. j \<in> set (tl B) \<Longrightarrow> time (g' j) = time (g j)"
  shows "agenda g' 0 (A @ p # B) = remove_event k (agenda g 0 (A @ p # k # B))"
proof -
  have "agenda g' a (A @ [p]) = agenda g a (A @ [p])" for a
    by (rule agenda_cong) (rule assms(2))
  moreover have "map (\<lambda>j. time (g' j)) A = map (\<lambda>j. time (g j)) A" "time (g' p) = time (g p)"
    using assms(2) by simp_all
  moreover have "agenda g' a B = agenda g (a + time (g k)) B" for a
  proof (cases B)
    case (Cons b C)
    have "agenda g' x C = agenda g x C" for x using assms(4) Cons by (intro agenda_cong) simp
    then show ?thesis using assms(3) Cons by (simp add: ac_simps)
  qed simp
  ultimately show ?thesis
    using assms(1) agenda_append[of g' 0 "A @ [p]" B] agenda_append[of g 0 "A @ [p]" "k # B"]
    by (simp add: remove_event_absent remove_event_cons del: map_eq_conv)
qed

lemma expiry_ge_time: "(j, t) \<in> set (agenda g a L) \<Longrightarrow> time (g j) \<le> t"
  by (induction L arbitrary: a) auto

text \<open>The first timer is killed: its successor takes over the rest of the running time.\<close>

lemma kill_head:
  assumes "timers_wf s (i # B)" "hTimer s" "\<not> isr_block s" "RTC_EXP_Status e = 0"
    and small: "\<forall>p \<in> set (agenda_now e s (i # B)). snd p < 2 ^ 64"
  shows "\<exists>s'. DA16X_KILL_TIMER e i s = (i, s') \<and> timers_wf s' B \<and> in_use (gtimer s' i) = 0 \<and>
    agenda (gtimer s') 0 B = remove_event i (agenda_now e s (i # B)) \<and> (B \<noteq> [] \<longrightarrow> armed e s' B)"
proof -
  let ?r = "CLK2US (RTC_EXP_TH s - counter e)"
  let ?s1 = "upd i (\<lambda>x. x\<lparr>in_use := 0\<rparr>) s"
  have i: "gCurIdx s = i" "usable i" "in_use (gtimer s i) = 1" "i \<notin> set B" "distinct B" "linked (gtimer s) (nxt (gtimer s i)) B"
    using assms(1) by (auto simp: timers_wf_def)
  have chk: "chk_timer_id s i \<noteq> i" "i \<noteq> 9" "i \<noteq> 10"
    using i(2,3) by (auto simp: chk_timer_id_def usable_def)
  have "MCNT_STOP e ?s1 = (if RTC_EXP_TH s > counter e then 1 else 0, RTC_EXP_TH s - counter e, ?s1\<lparr>rtc_exp_callback := None\<rparr>)"
    using assms(2,4) by (simp add: timer_upd MCNT_STOP_def clear_rtc_exp_status_def)
  then obtain k where stop: "MCNT_STOP e ?s1 = (k, RTC_EXP_TH s - counter e, ?s1\<lparr>rtc_exp_callback := None\<rparr>)" by blast
  have ev: "remove_event i (agenda_now e s (i # B)) = agenda (gtimer s) ?r B"
    using i(4) by (simp add: agenda_now_def remove_event_cons remove_event_absent)
  show ?thesis
  proof (cases B)
    case Nil
    then have "DA16X_KILL_TIMER e i s = (i, ?s1\<lparr>rtc_exp_callback := None, gCurIdx := TIMER_ERR\<rparr>)"
      using i chk assms(2,3) stop by (simp add: DA16X_KILL_TIMER_def Let_def timer_upd)
    then show ?thesis using Nil ev by (auto simp: timers_wf_def timer_upd)
  next
    case (Cons b C)
    let ?s2 = "?s1\<lparr>rtc_exp_callback := None\<rparr>"
    let ?s3 = "(upd b (add_time ?r) ?s2)\<lparr>gCurIdx := b\<rparr>"
    have b: "nxt (gtimer s i) = b" "b \<noteq> TIMER_ERR" "b \<noteq> i" "i \<noteq> b" "b \<notin> set C"
      using i(4-6) Cons by (auto simp: usable_def)
    have sum: "(time (gtimer s b) + ?r) mod 2 ^ 64 = ?r + time (gtimer s b)"
      using small Cons by (simp add: agenda_now_def add.commute)
    have g3: "gtimer ?s3 b = (gtimer s b)\<lparr>time := ?r + time (gtimer s b)\<rparr>" "gtimer ?s3 i = (gtimer s i)\<lparr>in_use := 0\<rparr>"
      "\<And>j. j \<noteq> b \<Longrightarrow> j \<noteq> i \<Longrightarrow> gtimer ?s3 j = gtimer s j"
      using b sum by (simp_all add: timer_upd upd_def add_time_def)
    have rest: "gtimer ?s3 j = gtimer s j" if "j \<in> set C" for j
      using that b(5) i(4) Cons by (intro g3(3)) auto
    have "DA16X_KILL_TIMER e i s = (i, DA16200_TIMER_ACTIVE e b ?s3)"
      using i(1) b chk assms(2,3) stop by (simp add: DA16X_KILL_TIMER_def Let_def timer_upd)
    moreover have "hTimer ?s3" using assms(2) by (simp add: timer_upd)
    moreover have "linked (gtimer ?s3) b B"
      using i(6) Cons b(1) g3(1) linked_cong[of C "gtimer ?s3" "gtimer s"] rest by simp
    moreover have "agenda (gtimer ?s3) 0 B = agenda (gtimer s) ?r B"
      using Cons g3(1) agenda_cong[of C "gtimer ?s3" "gtimer s"] rest by simp
    ultimately show ?thesis using i(5) ev g3(2) assms(4) Cons
      by (intro exI[of _ "DA16200_TIMER_ACTIVE e b ?s3"]) (simp add: timer_active timers_wf_def armed_def first_def timer_upd del: linked.simps agenda.simps)
  qed
qed

text \<open>A later timer is killed: it is unlinked and its successor takes over its time.\<close>

lemma kill_inner:
  assumes "timers_wf s (A @ p # i # B)" "hTimer s" "\<not> isr_block s"
    and small: "\<forall>q \<in> set (agenda (gtimer s) 0 (A @ p # i # B)). snd q < 2 ^ 64"
  shows "\<exists>g. DA16X_KILL_TIMER e i s = (i, s\<lparr>gtimer := g\<rparr>) \<and> linked g (gCurIdx s) (A @ p # B) \<and> in_use (g i) = 0 \<and>
    agenda g 0 (A @ p # B) = remove_event i (agenda (gtimer s) 0 (A @ p # i # B))"
proof -
  let ?s1 = "upd i (\<lambda>x. x\<lparr>in_use := 0\<rparr>) s"
  let ?s2 = "upd p (\<lambda>x. x\<lparr>nxt := nxt (gtimer ?s1 i)\<rparr>) ?s1"
  define s3 where "s3 = (if nxt (gtimer ?s2 i) \<noteq> TIMER_ERR
      then upd (nxt (gtimer ?s2 i)) (add_time (time (gtimer ?s2 i))) ?s2 else ?s2)"
  have lk: "linked (gtimer s) (gCurIdx s) (A @ p # i # B)" and d: "distinct (A @ p # i # B)"
    using assms(1) by (auto simp: timers_wf_def)
  have i: "usable i" "in_use (gtimer s i) = 1" "gCurIdx s \<noteq> i" "linked (gtimer s) (nxt (gtimer s i)) B"
    using lk d linked_usable[OF lk, of i] linked_append[of _ _ "A @ [p]" i B] by (cases A; auto)+
  have chk: "chk_timer_id s i \<noteq> i" "i \<noteq> 9" "i \<noteq> 10"
    using i(1,2) by (auto simp: chk_timer_id_def usable_def)
  have len: "length A < 14" using linked_length[OF lk d] by simp
  have "kill_loop 0 i (gCurIdx s) ?s1 = Some p"
    using len by (intro kill_loop_finds[OF lk d]) (auto simp: upd_def)
  then have res: "DA16X_KILL_TIMER e i s = (i, s3)"
    using assms(2,3) chk i(3) unfolding s3_def
    by (simp only: DA16X_KILL_TIMER_def Let_def timer_upd if_False option.case simp_thms)
  have nb: "B \<noteq> [] \<Longrightarrow> nxt (gtimer s i) = hd B \<and> hd B \<noteq> TIMER_ERR" "B = [] \<Longrightarrow> nxt (gtimer s i) = TIMER_ERR"
    using i(4) by (cases B; auto simp: usable_def)+
  have sum: "(time (gtimer s (hd B)) + time (gtimer s i)) mod 2 ^ 64 = time (gtimer s (hd B)) + time (gtimer s i)" if "B \<noteq> []"
    using small that agenda_append[of "gtimer s" 0 "A @ [p]" "i # B"] by (cases B) auto
  have g: "nxt (gtimer s3 p) = nxt (gtimer s i)" "in_use (gtimer s3 i) = 0"
    "\<And>j. j \<noteq> p \<Longrightarrow> nxt (gtimer s3 j) = nxt (gtimer s j)" "\<And>j. j \<noteq> i \<Longrightarrow> in_use (gtimer s3 j) = in_use (gtimer s j)"
    "B \<noteq> [] \<Longrightarrow> time (gtimer s3 (hd B)) = time (gtimer s (hd B)) + time (gtimer s i)"
    "\<And>j. B = [] \<or> j \<noteq> hd B \<Longrightarrow> time (gtimer s3 j) = time (gtimer s j)"
    using nb sum d unfolding s3_def by (cases "B = []"; auto simp: upd_def add_time_def)+
  have "linked (gtimer s3) (gCurIdx s) (A @ p # B)"
    using d by (intro unlink_linked[OF lk] conjI g(1,3,4)) auto
  moreover have "agenda (gtimer s3) 0 (A @ p # B) = remove_event i (agenda (gtimer s) 0 (A @ p # i # B))"
    using d by (intro unlink_agenda[OF d] g(5) g(6)) (cases B; auto)+
  moreover have "s3 = s\<lparr>gtimer := gtimer s3\<rparr>" unfolding s3_def by (simp add: upd_def)
  ultimately show ?thesis using res g(2) by (intro exI[of _ "gtimer s3"]) simp
qed

lemma kill_in_list:
  assumes wf: "timers_wf s L" "i \<in> set L" and "hTimer s" "\<not> isr_block s"
    and head: "i = hd L \<Longrightarrow> RTC_EXP_Status e = 0"
    and small: "\<forall>q \<in> set (agenda (gtimer s) 0 L) \<union> set (agenda_now e s L). snd q < 2 ^ 64"
  shows "\<exists>s'. DA16X_KILL_TIMER e i s = (i, s') \<and> timers_wf s' (remove1 i L) \<and> in_use (gtimer s' i) = 0 \<and>
    agenda (gtimer s') 0 (remove1 i L) =
      remove_event i (if i = hd L then agenda_now e s L else agenda (gtimer s) 0 L) \<and>
    (if i = hd L then remove1 i L \<noteq> [] \<longrightarrow> armed e s' (remove1 i L)
     else rtc_exp_callback s' = rtc_exp_callback s \<and> RTC_EXP_TH s' = RTC_EXP_TH s)"
proof (cases "i = hd L")
  case True
  then obtain B where L: "L = i # B" using wf(2) by (cases L) auto
  then have r: "remove1 i L = B" by simp
  have "\<forall>q \<in> set (agenda_now e s L). snd q < 2 ^ 64" using small by blast
  then show ?thesis
    unfolding if_P[OF True] r using kill_head[of s i B e] wf(1) assms(3,4) head[OF True] unfolding L by blast
next
  case False
  obtain A' B where "L = A' @ i # B" "i \<notin> set A'" using split_list_first[OF wf(2)] by blast
  moreover from this False obtain A p where "A' = A @ [p]" by (cases A' rule: rev_cases) auto
  ultimately have L: "L = A @ p # i # B" "i \<notin> set (A @ [p])" by auto
  then have r: "remove1 i L = A @ p # B" by (simp add: remove1_append)
  obtain g where "DA16X_KILL_TIMER e i s = (i, s\<lparr>gtimer := g\<rparr>)" "linked g (gCurIdx s) (A @ p # B)" "in_use (g i) = 0"
    "agenda g 0 (A @ p # B) = remove_event i (agenda (gtimer s) 0 (A @ p # i # B))"
    using kill_inner[of s A p i B e] wf(1) assms(3,4) small unfolding L(1) by auto
  then show ?thesis using False wf(1) L r by (auto simp: timers_wf_def)
qed

lemma kill_without_handle:
  assumes "timers_wf s L" "i \<in> set L" "\<not> hTimer s" "\<not> isr_block s"
  shows "DA16X_KILL_TIMER e i s = (TIMER_ERR, upd i (\<lambda>x. x\<lparr>in_use := 0\<rparr>) s) \<and> \<not> timers_wf (upd i (\<lambda>x. x\<lparr>in_use := 0\<rparr>) s) L"
proof
  have i: "usable i" "in_use (gtimer s i) = 1"
    using assms(1,2) linked_usable by (fastforce simp: timers_wf_def)+
  then have "chk_timer_id s i \<noteq> i" "i \<noteq> 9" "i \<noteq> 10" by (auto simp: chk_timer_id_def usable_def)
  then show "DA16X_KILL_TIMER e i s = (TIMER_ERR, upd i (\<lambda>x. x\<lparr>in_use := 0\<rparr>) s)"
    using assms(3,4) by (simp add: DA16X_KILL_TIMER_def Let_def timer_upd)
  show "\<not> timers_wf (upd i (\<lambda>x. x\<lparr>in_use := 0\<rparr>) s) L"
    using linked_usable[of _ _ L i] assms(2) by (fastforce simp: timers_wf_def timer_upd)
qed

text \<open>
  C12. Killing a timer of a well-formed list outside the interrupt, when the counter has its handle, removes it from the agenda and leaves every other
  timer its expiry: the list stays well formed, the killed timer is free again, and when the
  first timer is killed and no status of the counter is pending, the hardware counter is armed for the new first one. The agenda is the one
  that counts the running time when the first timer is killed, with nothing left of it when the counter has run out; otherwise the counter is not
  touched. Expiry times are below 2 to the 64. Without the handle the call fails: the timer is marked as free but stays in the list, which is no well-formed
  list any more, and nothing else changes.
\<close>

theorem kill_timer_correct:
  assumes "timers_wf s L" "i \<in> set L" "\<not> isr_block s" "i = hd L \<Longrightarrow> RTC_EXP_Status e = 0"
    "\<forall>q \<in> set (agenda (gtimer s) 0 L) \<union> set (agenda_now e s L). snd q < 2 ^ 64"
  shows "if hTimer s
    then \<exists>s'. DA16X_KILL_TIMER e i s = (i, s') \<and> timers_wf s' (remove1 i L) \<and> in_use (gtimer s' i) = 0 \<and>
      agenda (gtimer s') 0 (remove1 i L) =
        remove_event i (if i = hd L then agenda_now e s L else agenda (gtimer s) 0 L) \<and>
      (if i = hd L then remove1 i L \<noteq> [] \<longrightarrow> armed e s' (remove1 i L)
       else rtc_exp_callback s' = rtc_exp_callback s \<and> RTC_EXP_TH s' = RTC_EXP_TH s)
    else DA16X_KILL_TIMER e i s = (TIMER_ERR, upd i (\<lambda>x. x\<lparr>in_use := 0\<rparr>) s) \<and> \<not> timers_wf (upd i (\<lambda>x. x\<lparr>in_use := 0\<rparr>) s) L"
proof (cases "hTimer s")
  case True
  then show ?thesis unfolding if_P[OF True] by (rule kill_in_list[OF assms(1,2) _ assms(3-5)])
next
  case False
  then show ?thesis unfolding if_not_P[OF False] by (intro kill_without_handle[OF assms(1,2)] assms(3))
qed

theorem kill_timer_correct_witness:
  "\<exists>s'. DA16X_KILL_TIMER env_1000 3 two_timers = (3, s') \<and> agenda (gtimer s') 0 [7] = [(7, 29989)] \<and>
     RTC_EXP_TH s' = 982 + 1002"
proof -
  have "timers_wf two_timers [3, 7]" "hTimer two_timers" "\<not> isr_block two_timers"
    "3 = hd [3::nat, 7] \<Longrightarrow> RTC_EXP_Status env_1000 = 0"
    "\<forall>q \<in> set (agenda (gtimer two_timers) 0 [3, 7]) \<union> set (agenda_now env_1000 two_timers [3, 7]). snd q < 2 ^ 64"
    by (simp_all add: timer_example agenda_now_def CLK2US_def)
  from kill_timer_correct[where i = 3, OF this(1) _ this(3-5)] this(2)
  obtain s' where "DA16X_KILL_TIMER env_1000 3 two_timers = (3, s')"
    "agenda (gtimer s') 0 [7] = remove_event 3 (agenda_now env_1000 two_timers [3, 7])" "armed env_1000 s' [7]"
    by auto
  moreover from this(2) have "agenda (gtimer s') 0 [7] = [(7, 29989)]"
    by (simp add: agenda_now_def remove_event_def CLK2US_def timer_example)
  moreover from this have "time (gtimer s' 7) = 29989" by simp
  ultimately show ?thesis
    by (simp add: armed_def first_def US2CLK_def env_1000_def)
qed

section \<open>Expiry\<close>

lemma linked_later: "linked g i L \<Longrightarrow> linked g (first (dropWhile P L)) (dropWhile P L)"
proof (induction L arbitrary: i)
  case (Cons j L)
  then show ?case using linked_first[of g i "j # L"] by (auto simp: first_def)
qed (simp add: first_def)

lemma later_not_due: "distinct L \<Longrightarrow> j \<in> set (later s L) \<Longrightarrow> j \<notin> set (due s L)"
  using due_later[of s L] by (metis IntI distinct_append emptyE)

lemma wrap_sub:
  fixes t d :: nat
  assumes "d \<le> t" "t < 2 ^ 64"
  shows "(t + 2 ^ 64 - d) mod 2 ^ 64 = t - d"
proof -
  have "t + 2 ^ 64 - d = (t - d) + 2 ^ 64" using assms(1) by simp
  then show ?thesis using assms(2) by (simp only: mod_add_self2 mod_less less_imp_diff_less)
qed

lemma agenda_earlier:
  assumes "d \<le> time (g r)" "time (g' r) = time (g r) - d" "\<And>j. j \<in> set R \<Longrightarrow> time (g' j) = time (g j)"
  shows "agenda g' 0 (r # R) = earlier d (agenda g 0 (r # R))"
proof -
  have "agenda g' a R = agenda g a R" for a by (intro agenda_cong) (rule assms(3))
  then show ?thesis using assms(1,2)
    by (auto simp: earlier_def agenda_from[of _ "time _"] agenda_from[of _ "time _ - d"])
qed

lemma hisr_result:
  assumes wf: "timers_wf s (h # L)" and "time_gap s = 0" "hTimer s" "RTC_EXP_Status e = 0"
  defines "g \<equiv> (retire (due s L) (gtimer s))(h := (gtimer s h)\<lparr>in_use := 0, time := 0\<rparr>)"
    and "r \<equiv> first (later s L)"
  defines "g' \<equiv> (if later s L = [] then g
      else g(r := (g r)\<lparr>time := (time (g r) + 2 ^ 64 - CLK2US (counter_end e - counter e)) mod 2 ^ 64\<rparr>))"
  shows "\<exists>cb th. rtc_mirror_hisr e s = s\<lparr>gtimer := g', fired := fired s @ calls (gtimer s) (h # due s L), isr_block := False,
      isr_gap := counter e, gCurIdx := r, rtc_exp_callback := cb, RTC_EXP_TH := th\<rparr> \<and>
    (later s L \<noteq> [] \<longrightarrow> cb = Some r \<and> th = US2CLK (time (g' r)) + counter_end e)"
proof -
  let ?s0 = "s\<lparr>isr_block := True, isr_gap := counter e\<rparr>"
  have p: "DA16200_PROCESS_CALLBACK e h ?s0 = (r, ?s0\<lparr>gtimer := g, fired := fired s @ calls (gtimer s) (h # due s L)\<rparr>)"
    using process_callback_refines[of ?s0 h L e] wf assms(2) unfolding g_def r_def
    by (simp add: timers_wf_def due_def later_def)
  have h: "gCurIdx s = h" using wf by (simp add: timers_wf_def)
  have lk: "linked (gtimer s) r (later s L)"
    using wf unfolding r_def later_def by (intro linked_later[of _ "nxt (gtimer s h)"]) (simp add: timers_wf_def)
  show ?thesis
  proof (cases "later s L = []")
    case True
    then have "r = TIMER_ERR" using lk by simp
    then show ?thesis using p h True
      by (intro exI[of _ "rtc_exp_callback s"] exI[of _ "RTC_EXP_TH s"])
        (simp add: rtc_mirror_hisr_def DA16200_TIMER_CALLBACK_def g'_def)
  next
    case False
    then have "r \<noteq> TIMER_ERR" using lk by (cases "later s L") (auto simp: usable_def)
    then show ?thesis using p h False assms(3,4)
      by (intro exI[of _ "Some r"] exI[of _ "US2CLK (time (g' r)) + counter_end e"])
        (simp add: rtc_mirror_hisr_def DA16200_TIMER_CALLBACK_def g'_def timer_active upd_def)
  qed
qed

text \<open>The interrupt keeps tasks from setting and killing timers while it runs.\<close>

lemma blocked_calls: "isr_block u \<Longrightarrow> DA16X_SET_TIMER e i t p u = (TIMER_ERR, u) \<and>
    DA16X_SET_WAKEUP_TIMER e i t p u = (TIMER_ERR, u) \<and> DA16X_KILL_TIMER e i u = (TIMER_ERR, u)"
  by (simp add: DA16X_SET_TIMER_def DA16X_SET_WAKEUP_TIMER_def DA16X_KILL_TIMER_def)

lemma gap_loop_block: "isr_block (gap_loop k i gap s) = isr_block s"
  by (induction k i gap s rule: gap_loop.induct) (subst gap_loop.simps, auto simp: Let_def upd_def)

lemma expire_loop_block: "isr_block (snd (expire_loop k i s)) = isr_block s"
  by (induction k i s rule: expire_loop.induct) (subst expire_loop.simps, auto simp: Let_def upd_def fire_def)

lemma process_block: "isr_block (snd (DA16200_PROCESS_CALLBACK e i s)) = isr_block s"
  by (simp add: DA16200_PROCESS_CALLBACK_def Let_def expire_loop_block gap_loop_block upd_def fire_def)

lemma active_block: "isr_block (DA16200_TIMER_ACTIVE e i s) = isr_block s"
  by (simp add: DA16200_TIMER_ACTIVE_def MCNT_START_def clear_rtc_exp_status_def registry_rtc_exp_timer_def)

lemma callback_block: "isr_block (DA16200_TIMER_CALLBACK e s) = isr_block s"
  using process_block[of e "gCurIdx s" s]
  by (cases "DA16200_PROCESS_CALLBACK e (gCurIdx s) s") (simp add: DA16200_TIMER_CALLBACK_def active_block upd_def)



section \<open>Waking up\<close>

text \<open>
  C14. A wake-up by the counter for a timer other than the two of the TIM boot expires that timer and
  every timer that is due, after the time that passed since the wake-up time has been taken from
  all remaining timers (up to less than one time slice); exactly their callbacks are called, in the order
  of the list. The list of the others stays well formed, their distances are kept, and the hardware
  counter is armed for the first of them.
\<close>

theorem wakeup_expires:
  assumes src: "wakeup_source e \<in> {0x82, 0x83, 0x92, 0x93}" and h: "retention_ctrl e div 16 mod 16 = h" "h \<ge> 2"
    and wf: "linked (gtimer s) h (h # L)" "distinct (h # L)"
    and env: "get_remain_counter e \<noteq> 0" "hTimer s \<or> malloc_ok e" "RTC_EXP_Status e = 0"
  shows "\<exists>d g. d \<le> CLK2US (get_remain_counter e + 3) \<and>
    (d = CLK2US (get_remain_counter e + 3) \<or> CLK2US (get_remain_counter e + 3) < d + time_slice s) \<and>
    agenda g 0 L = earlier d (agenda (gtimer s) 0 L) \<and>
    (let R = later (s\<lparr>gtimer := g\<rparr>) L; s' = DA16X_TIMER_SCHEDULER e s
     in fired s' = fired s @ calls (gtimer s) (h # due (s\<lparr>gtimer := g\<rparr>) L) \<and> timers_wf s' R \<and>
        agenda (gtimer s') 0 R = agenda g 0 R \<and> (R \<noteq> [] \<longrightarrow> armed e s' R) \<and> time_gap s' = 0)"
proof -
  let ?s1 = "s\<lparr>gCurIdx := h, time_gap := get_remain_counter e\<rparr>"
  have "timers_wf ?s1 (h # L)" "time_gap ?s1 \<noteq> 0" using wf env(1) by (simp_all add: timers_wf_def)
  from process_callback_gap[OF this, of e] obtain d g where
    dg: "d \<le> CLK2US (get_remain_counter e + 3)" "d = CLK2US (get_remain_counter e + 3) \<or> CLK2US (get_remain_counter e + 3) < d + time_slice s"
    "agenda g 0 L = earlier d (agenda (gtimer s) 0 L)" "\<And>j. j \<noteq> h \<Longrightarrow> g j = (gtimer s j)\<lparr>time := time (g j)\<rparr>"
    and p: "DA16200_PROCESS_CALLBACK e h ?s1 = (first (later (?s1\<lparr>gtimer := g\<rparr>) L),
      ?s1\<lparr>gtimer := retire (due (?s1\<lparr>gtimer := g\<rparr>) L) g, fired := fired s @ calls (gtimer s) (h # due (?s1\<lparr>gtimer := g\<rparr>) L)\<rparr>)"
    by auto
  let ?s2 = "s\<lparr>gtimer := g\<rparr>"
  let ?R = "later ?s2 L" and ?D = "due ?s2 L"
  have same: "later (?s1\<lparr>gtimer := g\<rparr>) L = ?R" "due (?s1\<lparr>gtimer := g\<rparr>) L = ?D" by (simp_all add: later_def due_def)
  have d: "distinct L" "h \<notin> set L" "distinct ?R" using wf(2) by (auto simp: later_def)
  have sub: "set ?R \<subseteq> set L" unfolding later_def by (auto dest: set_dropWhileD)
  have keep: "retire ?D g j = g j" "in_use (g j) = in_use (gtimer s j)" "nxt (g j) = nxt (gtimer s j)" if "j \<in> set ?R" for j
  proof -
    have "j \<noteq> h" using sub d(2) that by auto
    with time_only[OF dg(4)[of j]] show "in_use (g j) = in_use (gtimer s j)" "nxt (g j) = nxt (gtimer s j)" by auto
    show "retire ?D g j = g j" using later_not_due[OF d(1) that] by (simp add: retire_def)
  qed
  have "linked (gtimer s) (first ?R) ?R"
    using wf(1) unfolding later_def by (intro linked_later[of _ "nxt (gtimer s h)"]) simp
  then have lk: "linked (retire ?D g) (first ?R) ?R" using keep by (subst linked_cong[of ?R _ "gtimer s"]) auto
  have ag: "agenda (retire ?D g) 0 ?R = agenda g 0 ?R" using keep by (intro agenda_cong) simp
  let ?s3 = "s\<lparr>gCurIdx := h, gtimer := retire ?D g, fired := fired s @ calls (gtimer s) (h # ?D), time_gap := counter_end e\<rparr>"
  have sch: "DA16X_TIMER_SCHEDULER e s = (let (s4, ok) = enable_next e (first ?R) ?s3 in if ok then s4\<lparr>time_gap := 0\<rparr> else s4)"
    using src h p by (auto simp: DA16X_TIMER_SCHEDULER_def Let_def same)
  have "fired (DA16X_TIMER_SCHEDULER e s) = fired s @ calls (gtimer s) (h # ?D) \<and> timers_wf (DA16X_TIMER_SCHEDULER e s) ?R \<and>
      agenda (gtimer (DA16X_TIMER_SCHEDULER e s)) 0 ?R = agenda g 0 ?R \<and> (?R \<noteq> [] \<longrightarrow> armed e (DA16X_TIMER_SCHEDULER e s) ?R) \<and>
      time_gap (DA16X_TIMER_SCHEDULER e s) = 0"
  proof (cases "?R = []")
    case True
    then show ?thesis using lk ag d(3) by (simp add: sch enable_next_def timers_wf_def)
  next
    case False
    then have "first ?R \<noteq> TIMER_ERR" "in_use (retire ?D g (first ?R)) \<noteq> 0"
      using lk by (cases ?R; auto simp: usable_def)+
    then show ?thesis using lk ag d(3) env(2,3)
      by (auto simp: sch enable_next_def timers_wf_def timer_active armed_def MCNT_CREATE_def)
  qed
  then show ?thesis using dg(1-3) by (auto simp: Let_def intro!: exI[of _ d] exI[of _ g])
qed

theorem wakeup_expires_witness:
  "\<exists>d g. d \<le> 396 \<and> agenda g 0 [7] = [(7, 10000 - d)] \<and>
     fired (DA16X_TIMER_SCHEDULER env_1000 two_timers) = (0x1000, 3) # calls (gtimer two_timers) (due (two_timers\<lparr>gtimer := g\<rparr>) [7])"
proof -
  have c: "get_remain_counter env_1000 = 10" "CLK2US (10 + 3) = 396"
    by (simp_all add: get_remain_counter_def env_1000_def CLK2US_def)
  have "wakeup_source env_1000 \<in> {0x82, 0x83, 0x92, 0x93}" "retention_ctrl env_1000 div 16 mod 16 = 3" "(3::nat) \<ge> 2"
    "linked (gtimer two_timers) 3 [3, 7]" "distinct [3::nat, 7]"
    "hTimer two_timers \<or> malloc_ok env_1000" "RTC_EXP_Status env_1000 = 0"
    by (simp_all add: timer_example)
  moreover have "get_remain_counter env_1000 \<noteq> 0" using c(1) by simp
  ultimately obtain d g where "d \<le> 396" "agenda g 0 [7] = earlier d (agenda (gtimer two_timers) 0 [7])"
    "fired (DA16X_TIMER_SCHEDULER env_1000 two_timers) = fired two_timers @ calls (gtimer two_timers) (3 # due (two_timers\<lparr>gtimer := g\<rparr>) [7])"
    using wakeup_expires[of env_1000 3 two_timers "[7]"] unfolding c Let_def by blast
  then show ?thesis
    by (intro exI[of _ d] exI[of _ g]) (simp add: earlier_def two_timers_def)
qed

section \<open>Going to sleep\<close>

lemma gap_before_sorting:
  fixes G
  assumes "linked (gtimer s) h L" "distinct L" "n \<notin> set L"
  defines "s' \<equiv> (if time_gap s \<noteq> 0 then gap_loop 0 h G s else s)"
  shows "\<exists>d g. s' = s\<lparr>gtimer := g\<rparr> \<and> d \<le> G \<and> (time_gap s = 0 \<longrightarrow> d = 0) \<and> (time_gap s \<noteq> 0 \<longrightarrow> d = G \<or> G < d + time_slice s) \<and>
    agenda g 0 L = earlier d (agenda (gtimer s) 0 L) \<and> linked g h L \<and> g n = gtimer s n"
proof (cases "time_gap s = 0")
  case True
  then show ?thesis using assms(1)
    by (intro exI[of _ 0] exI[of _ "gtimer s"]) (simp add: s'_def earlier_def)
next
  case False
  have "0 + length L \<le> 14" using linked_length[OF assms(1,2)] by simp
  then obtain d g where g: "gap_loop 0 h G s = s\<lparr>gtimer := g\<rparr>" "d \<le> G" "d = G \<or> G < d + time_slice s"
    "agenda g 0 L = earlier d (agenda (gtimer s) 0 L)" "\<forall>j. g j = (gtimer s j)\<lparr>time := time (g j)\<rparr>" "\<forall>j. j \<notin> set L \<longrightarrow> g j = gtimer s j"
    using gap_loop_refines[OF assms(1,2), of 0 G] by blast
  have "linked g h L" using assms(1) time_only[OF g(5)[rule_format]] by (subst linked_cong[of L _ "gtimer s"]) auto
  then show ?thesis using g False assms(3) by (intro exI[of _ d] exI[of _ g]) (simp add: s'_def)
qed

text \<open>The list that is sorted for sleep.\<close>

lemma sorted_for_sleep:
  assumes wf: "timers_wf s L" "L \<noteq> []" and "usable i" "in_use (gtimer s i) = 0" "RTC_EXP_Status e = 0"
    and g1: "in_use (g1 i) = 1" "nxt (g1 i) = TIMER_ERR" "\<forall>j. j \<noteq> i \<longrightarrow> g1 j = gtimer s j"
  defines "s1 \<equiv> s\<lparr>gtimer := g1\<rparr>" and "G \<equiv> CLK2US (get_remain_counter e + 2)"
  defines "sa \<equiv> (if hTimer s1 then stop_counter e s1 else s1)"
  defines "sb \<equiv> (if time_gap sa \<noteq> 0 then gap_loop 0 (gCurIdx sa) G sa else sa)"
  shows "\<exists>d L' s''. time_sorting (gCurIdx sb) i sb = (first L', s'') \<and> (time_gap s = 0 \<longrightarrow> d = 0) \<and> d \<le> G \<and>
    (time_gap s \<noteq> 0 \<longrightarrow> d = G \<or> G < d + time_slice s) \<and>
    agenda (gtimer s'') 0 L' = insert_event (i, time (g1 i)) (earlier d (if hTimer s then agenda_seen e s L else agenda (gtimer s) 0 L)) \<and>
    linked (gtimer s'') (first L') L' \<and> distinct L' \<and> set L' = insert i (set L) \<and> BOOT_TIM s'' = BOOT_TIM s"
proof -
  have i: "i \<notin> set L" using wf(1) assms(4) linked_usable by (fastforce simp: timers_wf_def)
  have old: "gtimer s1 j = gtimer s j" if "j \<in> set L" for j using g1(3) i that by (auto simp: s1_def)
  have d: "distinct L" using wf(1) by (simp add: timers_wf_def)
  obtain ga where sa: "gtimer sa = ga" "linked ga (gCurIdx s) L" "ga i = g1 i"
    "agenda ga 0 L = (if hTimer s then agenda_seen e s L else agenda (gtimer s) 0 L)"
    "gCurIdx sa = gCurIdx s" "time_gap sa = time_gap s" "time_slice sa = time_slice s" "BOOT_TIM sa = BOOT_TIM s"
  proof (cases "hTimer s")
    case True
    then obtain g where "stop_counter e s1 = s1\<lparr>rtc_exp_callback := None, gtimer := g\<rparr>" "linked g (gCurIdx s) L"
      "agenda g 0 L = agenda_seen e s L" "g i = gtimer s1 i"
      using stop_counter_seen[OF wf _ assms(5), of s1 i] old i by (auto simp: s1_def)
    then show ?thesis using that[of g] True by (simp add: sa_def s1_def)
  next
    case False
    have "linked g1 (gCurIdx s) L" "agenda g1 0 L = agenda (gtimer s) 0 L"
      using wf(1) old linked_cong[of L g1 "gtimer s"] agenda_cong[of L g1 "gtimer s"] by (auto simp: timers_wf_def s1_def)
    then show ?thesis using that[of g1] False by (simp add: sa_def s1_def)
  qed
  have sbx: "sb = (if time_gap s \<noteq> 0 then gap_loop 0 (gCurIdx s) G sa else sa)" by (simp add: sb_def sa)
  obtain dd gb where sb: "sb = sa\<lparr>gtimer := gb\<rparr>" "dd \<le> G" "time_gap s = 0 \<longrightarrow> dd = 0"
    "time_gap s \<noteq> 0 \<longrightarrow> dd = G \<or> G < dd + time_slice s" "agenda gb 0 L = earlier dd (agenda ga 0 L)"
    "linked gb (gCurIdx s) L" "gb i = g1 i"
    using gap_before_sorting[of sa "gCurIdx s" L i G, unfolded sa(1,3,5-7) sbx[symmetric], OF sa(2) d i]
    by (elim exE conjE) (rule that)
  have new: "in_use (gb i) = 1" "nxt (gb i) = TIMER_ERR" "gtimer sb = gb" using g1(1,2) sb(1,7) by simp_all
  obtain L' r s'' where so: "time_sorting (gCurIdx s) i sb = (r, s'')" "linked (gtimer s'') r L'" "distinct L'" "set L' = insert i (set L)"
    "agenda (gtimer s'') 0 L' = insert_event (i, time (gb i)) (agenda gb 0 L)" "\<exists>h. s'' = sb\<lparr>gtimer := h\<rparr>"
    using sort_in_list[OF wf assms(3,4) sb(6) new] by auto
  moreover have "BOOT_TIM s'' = BOOT_TIM s" using so(6) sb(1) sa(8) by auto
  ultimately show ?thesis using linked_first[OF so(2)] sb sa
    by (intro exI[of _ dd] exI[of _ L'] exI[of _ s'']) simp
qed

lemma clamp_linked: "linked (g(k := (g k)\<lparr>time := x\<rparr>)) j L = linked g j L"
  by (rule linked_cong) auto

text \<open>
  C15. Setting a wake-up timer inserts it into the agenda, after the running time and the time that passed
  since the wake-up (up to less than one time slice) have been taken from the others, and sends the
  chip to sleep for the time of the first timer, for at least a millisecond, with the boot offset of that
  timer stored for the boot code; a timer of the TIM boot marks the next boot as one.
\<close>

theorem set_wakeup_timer_correct:
  assumes wf: "timers_wf s L" and "\<not> isr_block s" "usable i" "in_use (gtimer s i) = 0" "RTC_EXP_Status e = 0"
  shows "\<exists>d L' g s'. DA16X_SET_WAKEUP_TIMER e i t p s = (i, s') \<and>
    (time_gap s = 0 \<longrightarrow> d = 0) \<and> d \<le> CLK2US (get_remain_counter e + 2) \<and>
    (time_gap s \<noteq> 0 \<longrightarrow> d = CLK2US (get_remain_counter e + 2) \<or> CLK2US (get_remain_counter e + 2) < d + time_slice s) \<and>
    agenda g 0 L' = insert_event (i, t) (earlier d (if hTimer s then agenda_seen e s L else agenda (gtimer s) 0 L)) \<and>
    timers_wf s' L' \<and> set L' = insert i (set L) \<and>
    gtimer s' = g(first L' := (g (first L'))\<lparr>time := max 1000 (time (g (first L')))\<rparr>) \<and>
    power_down s' = Some (first L', US2CLK (max 1000 (time (g (first L'))))) \<and>
    rtcm_boot s' = booting_offset (g (first L')) \<and> (BOOT_TIM s' \<longleftrightarrow> i < 2 \<or> BOOT_TIM s)"
proof -
  obtain g1 where a: "DA16200_TIMER_ALLOC i t p s = (i, s\<lparr>gtimer := g1\<rparr>)" "in_use (g1 i) = 1"
    "nxt (g1 i) = TIMER_ERR" "time (g1 i) = t" "\<forall>j. j \<noteq> i \<longrightarrow> g1 j = gtimer s j"
    using timer_alloc_free[OF assms(3,4)] by blast
  have i: "i \<noteq> TIMER_ERR" using assms(3) by (simp add: usable_def)
  let ?G = "CLK2US (get_remain_counter e + 2)"
  let ?s1 = "s\<lparr>gtimer := g1\<rparr>"
  let ?sa = "if hTimer ?s1 then stop_counter e ?s1 else ?s1"
  let ?sb = "if time_gap ?sa \<noteq> 0 then gap_loop 0 (gCurIdx ?sa) ?G ?sa else ?sa"
  define s3 where "s3 = sort_for_sleep e i ?s1"
  obtain d L' where s3: "time_gap s = 0 \<longrightarrow> d = 0" "d \<le> ?G" "time_gap s \<noteq> 0 \<longrightarrow> d = ?G \<or> ?G < d + time_slice s"
    "agenda (gtimer s3) 0 L' = insert_event (i, t) (earlier d (if hTimer s then agenda_seen e s L else agenda (gtimer s) 0 L))"
    "gCurIdx s3 = first L'" "linked (gtimer s3) (first L') L'" "distinct L'" "set L' = insert i (set L)" "BOOT_TIM s3 = BOOT_TIM s"
  proof (cases "L = []")
    case True
    then have "s3 = ?s1\<lparr>gCurIdx := i\<rparr>" using wf by (simp add: timers_wf_def s3_def sort_for_sleep_def)
    moreover have "agenda_seen e s [] = []" by (simp add: agenda_seen_def agenda_now_def)
    ultimately show ?thesis using that[of "if time_gap s = 0 then 0 else ?G" "[i]"] True a(2-4) assms(3)
      by (simp add: earlier_def first_def)
  next
    case False
    then have "gCurIdx s \<noteq> TIMER_ERR" using wf by (cases L) (auto simp: timers_wf_def usable_def)
    moreover obtain d L' s'' where so: "time_sorting (gCurIdx ?sb) i ?sb = (first L', s'')" "time_gap s = 0 \<longrightarrow> d = 0" "d \<le> ?G"
      "time_gap s \<noteq> 0 \<longrightarrow> d = ?G \<or> ?G < d + time_slice s"
      "agenda (gtimer s'') 0 L' = insert_event (i, t) (earlier d (if hTimer s then agenda_seen e s L else agenda (gtimer s) 0 L))"
      "linked (gtimer s'') (first L') L'" "distinct L'" "set L' = insert i (set L)" "BOOT_TIM s'' = BOOT_TIM s"
      using sorted_for_sleep[OF wf False assms(3-5) a(2,3,5), unfolded a(4)] by (elim exE conjE) (rule that)
    ultimately have "s3 = s''\<lparr>gCurIdx := first L'\<rparr>" unfolding s3_def sort_for_sleep_def Let_def so(1) by simp
    then show ?thesis using that[of d L'] so(2-) by simp
  qed
  let ?r = "first L'"
  let ?m = "max 1000 (time (gtimer s3 ?r))"
  let ?s' = "s3\<lparr>BOOT_TIM := i < 2 \<or> BOOT_TIM s, rtcm_boot := booting_offset (gtimer s3 ?r),
     gtimer := (gtimer s3)(?r := (gtimer s3 ?r)\<lparr>time := ?m\<rparr>), power_down := Some (?r, US2CLK ?m)\<rparr>"
  have "DA16X_SET_WAKEUP_TIMER e i t p s = (i, ?s')"
    using assms(2) i s3(5,9)
    by (simp add: DA16X_SET_WAKEUP_TIMER_def a(1) s3_def [symmetric] into_power_down_def upd_def max_def)
  then show ?thesis using s3
    by (intro exI[of _ d] exI[of _ L'] exI[of _ "gtimer s3"] exI[of _ ?s']) (simp add: timers_wf_def clamp_linked)
qed

theorem set_wakeup_timer_correct_witness:
  "\<exists>L' g s'. DA16X_SET_WAKEUP_TIMER env_1000 0 100 \<lparr>callback_param = 0, callback_func = 0, booting_offset_param = 0\<rparr> two_timers = (0, s') \<and>
     agenda g 0 L' = [(0, 100), (3, 19989), (7, 29989)] \<and> power_down s' = Some (0, 32) \<and> BOOT_TIM s'"
proof -
  have "timers_wf two_timers [3, 7]" "\<not> isr_block two_timers" "usable 0" "in_use (gtimer two_timers 0) = 0" "RTC_EXP_Status env_1000 = 0"
    by (simp_all add: timer_example)
  moreover have "agenda_seen env_1000 two_timers [3, 7] = [(3, 19989), (7, 29989)]" "hTimer two_timers" "time_gap two_timers = 0"
    by (simp_all add: agenda_seen_def agenda_now_def CLK2US_def timer_example)
  ultimately obtain d L' g s' where
    r: "DA16X_SET_WAKEUP_TIMER env_1000 0 100 \<lparr>callback_param = 0, callback_func = 0, booting_offset_param = 0\<rparr> two_timers = (0, s')"
    "d = 0" "agenda g 0 L' = insert_event (0, 100) (earlier d [(3, 19989), (7, 29989)])"
    "power_down s' = Some (first L', US2CLK (max 1000 (time (g (first L')))))" "BOOT_TIM s'"
    using set_wakeup_timer_correct[of two_timers "[3, 7]" 0 env_1000 100 "\<lparr>callback_param = 0, callback_func = 0, booting_offset_param = 0\<rparr>"]
    by auto
  have ag: "agenda g 0 L' = [(0, 100), (3, 19989), (7, 29989)]" using r(2,3) by (simp add: earlier_def)
  then obtain K where "L' = 0 # K" by (cases L') auto
  with ag have "first L' = 0" "time (g 0) = 100" by (auto simp: first_def)
  then show ?thesis using r ag by (intro exI[of _ L'] exI[of _ g] exI[of _ s']) (simp add: US2CLK_def)
qed

section \<open>Outside the agenda\<close>

text \<open>
  A wake-up by an external signal for one of the two timers of the TIM boot that has no successor
  writes behind the timer table: the index of its successor is the end mark 16, and the remaining time is
  added to the entry with this index, which does not exist; the memory there holds the millisecond offset
  of the system time and the gap. The sixteen timers themselves change only in that the woken one is
  freed.
\<close>

theorem ext_wakeup_writes_behind_table:
  assumes "wakeup_source e \<in> {0x81, 0x90, 0x91}" "retention_ctrl e div 16 mod 16 = i" "i < 2" "nxt (gtimer s i) = TIMER_ERR"
  shows "time (gtimer (DA16X_TIMER_SCHEDULER e s) TIMER_ERR)
      = (time (gtimer s TIMER_ERR) + CLK2US (get_remain_counter e)) mod 2 ^ 64 \<and>
    gCurIdx (DA16X_TIMER_SCHEDULER e s) = TIMER_ERR \<and>
    (\<forall>j < TIMER_ERR. gtimer (DA16X_TIMER_SCHEDULER e s) j = (gtimer s j)\<lparr>in_use := if j = i then 0 else in_use (gtimer s j)\<rparr>)"
  using assms
  by (auto simp: DA16X_TIMER_SCHEDULER_def enable_next_def Let_def upd_def add_time_def TIMER_ERR_def)

theorem ext_wakeup_writes_behind_table_witness:
  "time (gtimer (DA16X_TIMER_SCHEDULER (env_1000\<lparr>wakeup_source := 0x81, retention_ctrl := 0\<rparr>) two_timers) TIMER_ERR) = 305"
  using ext_wakeup_writes_behind_table[of "env_1000\<lparr>wakeup_source := 0x81, retention_ctrl := 0\<rparr>" 0 two_timers]
  by (simp add: timer_example get_remain_counter_def CLK2US_def)

end
