(* ===== verification/Coap_Utils.thy ===== *)
theory Coap_Utils
  imports Prelude "HOL-Library.Signed_Division"
begin

text \<open>
  The CoAP codec, \<^verbatim>\<open>src/core/system/src/coap/coap_utils.c\<close>: parsing a packet from a buffer, generating
  one into a buffer, block options and buffers that own their bytes. A read-only buffer is the
  list of its bytes (\<^verbatim>\<open>NULL\<close> with length 0 is the empty list); a cursor into the packet is the list of the
  bytes from there to the end of the buffer, so that an access outside it would be an access outside
  the list. Generated bytes are the list of what has been stored from the start of the
  buffer on, whether or not the buffer is large enough for it. On an error the fields that the C code has written by
  then are left as they are; the callers drop such a packet, and the model gives the error only.
\<close>

section \<open>Packets\<close>

record coap_header_t =
  version :: u8
  type :: u8
  token_len :: u8
  code :: u8
  msg_id :: "u8 \<times> u8"

record coap_option_t =
  num :: u8
  buf :: "u8 list"

text \<open>The number of options is the length of the list of options.\<close>

record coap_packet_t =
  header :: coap_header_t
  token :: "u8 list"
  opts :: "coap_option_t list"
  payload :: "u8 list"
  payload_raw :: "u8 list"
  copy_mode :: u8

datatype coap_error_t =
    COAP_ERR_SUCCESS | COAP_ERR_HEADER_TOO_SHORT | COAP_ERR_VERSION_NOT_1 | COAP_ERR_TOKEN_TOO_SHORT
  | COAP_ERR_OPTION_TOO_SHORT_FOR_HEADER | COAP_ERR_OPTION_TOO_SHORT | COAP_ERR_OPTION_OVERFLOW
  | COAP_ERR_OPTION_TOO_BIG | COAP_ERR_OPTION_LEN_INVALID | COAP_ERR_BUFFER_TOO_SMALL
  | COAP_ERR_NOT_SUPPORTED | COAP_ERR_OPTION_DELTA_INVALID

definition MAXOPT :: nat where "MAXOPT = 16"

section \<open>Bit arrays\<close>

text \<open>One byte per bit; the loops run from the last position down.\<close>

fun set_bits_loop :: "u8 list \<Rightarrow> nat \<Rightarrow> nat \<Rightarrow> int \<Rightarrow> u8 list" where
  "set_bits_loop arr pos 0 val = arr"
| "set_bits_loop arr pos (Suc n) val = set_bits_loop (arr[pos + n := word_of_int (val smod 2)]) pos n (val sdiv 2)"

definition coap_set_in_bit_array :: "u8 list \<Rightarrow> nat \<Rightarrow> nat \<Rightarrow> int \<Rightarrow> u8 list" where
  "coap_set_in_bit_array arr pos len val = set_bits_loop arr pos len val"

text \<open>Powers of two come from \<^verbatim>\<open>pow_long\<close>; the sum is cut to eight bits in the end.\<close>

fun get_bits_loop :: "u8 list \<Rightarrow> nat \<Rightarrow> nat \<Rightarrow> nat \<Rightarrow> int \<Rightarrow> int" where
  "get_bits_loop arr pos len 0 ret = ret"
| "get_bits_loop arr pos len (Suc n) ret =
     get_bits_loop arr pos len n (if arr ! (pos + n) \<noteq> 0 then ret + 2 ^ (pos + len - 1 - (pos + n)) else ret)"

definition coap_get_from_bit_array :: "u8 list \<Rightarrow> nat \<Rightarrow> nat \<Rightarrow> u8" where
  "coap_get_from_bit_array arr pos len = word_of_int (get_bits_loop arr pos len len 0)"

definition coap_get_byte_from_bits :: "u8 list \<Rightarrow> int" where
  "coap_get_byte_from_bits arr = get_bits_loop arr 0 8 8 0"

definition coap_get_bits_from_byte :: "u8 list \<Rightarrow> int \<Rightarrow> u8 list" where
  "coap_get_bits_from_byte arr val = set_bits_loop (replicate 8 0 @ drop 8 arr) 0 8 val"

section \<open>Parsing\<close>

definition coap_parse_header :: "u8 list \<Rightarrow> coap_error_t + coap_header_t" where
  "coap_parse_header b =
     (if length b < 4 then Inl COAP_ERR_HEADER_TOO_SHORT
      else (let v = drop_bit 6 (b ! 0 AND 0xC0) in
        if v \<noteq> 1 then Inl COAP_ERR_VERSION_NOT_1
        else Inr \<lparr>version = v, type = drop_bit 4 (b ! 0 AND 0x30), token_len = b ! 0 AND 0x0F,
                  code = b ! 1, msg_id = (b ! 2, b ! 3)\<rparr>))"

definition coap_parse_token :: "coap_header_t \<Rightarrow> u8 list \<Rightarrow> coap_error_t + u8 list" where
  "coap_parse_token h b =
     (if token_len h = 0 then Inr []
      else if token_len h \<le> 8
      then (if 4 + unat (token_len h) > length b then Inl COAP_ERR_TOKEN_TOO_SHORT
            else Inr (take (unat (token_len h)) (drop 4 b)))
      else Inl COAP_ERR_TOKEN_TOO_SHORT)"

text \<open>
  An extended field of an option: the header length so far, the offset of the current byte and the
  nibble; the code has this step twice, for the delta and for the length.
\<close>

definition ext_field :: "coap_error_t \<Rightarrow> u8 list \<Rightarrow> nat \<Rightarrow> nat \<Rightarrow> u16 \<Rightarrow> coap_error_t + (nat \<times> nat \<times> u16)" where
  "ext_field invalid b headlen pos nib =
     (if nib = 13
      then (if length b < headlen + 1 then Inl COAP_ERR_OPTION_TOO_SHORT_FOR_HEADER
            else Inr (headlen + 1, pos + 1, ucast (b ! (pos + 1)) + 13))
      else if nib = 14
      then (if length b < headlen + 2 then Inl COAP_ERR_OPTION_TOO_SHORT_FOR_HEADER
            else Inr (headlen + 2, pos + 2, (push_bit 8 (ucast (b ! (pos + 1))) OR ucast (b ! (pos + 2))) + 269))
      else if nib = 15 then Inl invalid
      else Inr (headlen, pos, nib))"

definition coap_parse_option :: "u16 \<Rightarrow> u8 list \<Rightarrow> coap_error_t + (coap_option_t \<times> u16 \<times> u8 list)" where
  "coap_parse_option run_delta b =
     (if length b < 1 then Inl COAP_ERR_OPTION_TOO_SHORT_FOR_HEADER
      else case ext_field COAP_ERR_OPTION_DELTA_INVALID b 1 0 (ucast (drop_bit 4 (b ! 0 AND 0xF0))) of
        Inl err \<Rightarrow> Inl err
      | Inr (headlen, pos, cur_delta) \<Rightarrow>
          (case ext_field COAP_ERR_OPTION_LEN_INVALID b headlen pos (ucast (b ! 0 AND 0x0F)) of
             Inl err \<Rightarrow> Inl err
           | Inr (_, pos, len) \<Rightarrow>
               if pos + 1 + unat len > length b then Inl COAP_ERR_OPTION_TOO_BIG
               else Inr (\<lparr>num = ucast (cur_delta + run_delta), buf = take (unat len) (drop (pos + 1) b)\<rparr>,
                         run_delta + cur_delta, drop (pos + 1 + unat len) b)))"

text \<open>The loop over the options; \<open>n\<close> is the room that is left in the array of options.\<close>

fun parse_options :: "nat \<Rightarrow> u16 \<Rightarrow> u8 list \<Rightarrow> coap_error_t + (coap_option_t list \<times> u8 list)" where
  "parse_options 0 delta b = Inr ([], b)"
| "parse_options (Suc n) delta b =
     (if b \<noteq> [] \<and> hd b \<noteq> 0xFF
      then (case coap_parse_option delta b of
              Inl err \<Rightarrow> Inl err
            | Inr (opt, delta', rest) \<Rightarrow>
                (case parse_options n delta' rest of
                   Inl err \<Rightarrow> Inl err
                 | Inr (os, rest') \<Rightarrow> Inr (opt # os, rest')))
      else Inr ([], b))"

definition coap_parse_option_and_payload ::
    "nat \<Rightarrow> coap_header_t \<Rightarrow> u8 list \<Rightarrow> coap_error_t + (coap_option_t list \<times> u8 list)" where
  "coap_parse_option_and_payload num_opt h b =
     (if 4 + unat (token_len h) > length b then Inl COAP_ERR_OPTION_OVERFLOW
      else case parse_options num_opt 0 (drop (4 + unat (token_len h)) b) of
        Inl err \<Rightarrow> Inl err
      | Inr (os, rest) \<Rightarrow>
          Inr (os, if 1 < length rest \<and> hd rest = 0xFF then tl rest else []))"

definition coap_parse_raw_data :: "coap_packet_t \<Rightarrow> u8 list \<Rightarrow> coap_error_t + coap_packet_t" where
  "coap_parse_raw_data packet b =
     (case coap_parse_header b of
        Inl err \<Rightarrow> Inl err
      | Inr h \<Rightarrow> (case coap_parse_token h b of
          Inl err \<Rightarrow> Inl err
        | Inr t \<Rightarrow> (case coap_parse_option_and_payload MAXOPT h b of
            Inl err \<Rightarrow> Inl err
          | Inr (os, pl) \<Rightarrow> Inr (packet\<lparr>header := h, token := t, opts := os, payload := pl\<rparr>))))"

text \<open>The first run of options with a number: the index of its first option, and its length.\<close>

fun search_run :: "coap_option_t list \<Rightarrow> nat \<Rightarrow> u8 \<Rightarrow> nat option \<Rightarrow> u8 \<Rightarrow> nat option \<times> u8" where
  "search_run [] idx n opt cnt = (opt, cnt)"
| "search_run (x # xs) idx n opt cnt =
     (if num x = n then search_run xs (idx + 1) n (if opt = None then Some idx else opt) (cnt + 1)
      else if opt \<noteq> None then (opt, cnt) else search_run xs (idx + 1) n opt cnt)"

definition coap_search_options :: "coap_packet_t \<Rightarrow> u8 \<Rightarrow> nat option \<times> u8" where
  "coap_search_options packet n = search_run (opts packet) 0 n None 0"

section \<open>Generating\<close>

text \<open>The nibble, which keeps its old value when the number does not fit, and the result code.\<close>

definition coap_get_option_nibble :: "u32 \<Rightarrow> u8 \<Rightarrow> int \<times> u8" where
  "coap_get_option_nibble v nib =
     (if v < 13 then (0, ucast (0xFF AND v))
      else if v \<le> 0xFF + 13 then (0, 13)
      else if v \<le> 0xFFFF + 269 then (0, 14)
      else (-1, nib))"

definition write_ext :: "u8 \<Rightarrow> u32 \<Rightarrow> u8 list \<Rightarrow> u8 list \<times> u8 list" where
  "write_ext nib v byte_buf =
     (if nib = 13
      then (let bb = coap_set_in_bit_array byte_buf 0 8 (sint (v - 13))
            in (bb, [word_of_int (coap_get_byte_from_bits bb)]))
      else if nib = 14
      then (let bb = coap_set_in_bit_array byte_buf 0 16 (sint (v - 269))
            in (bb, [word_of_int (coap_get_byte_from_bits bb), word_of_int (coap_get_byte_from_bits (drop 8 bb))]))
      else (byte_buf, []))"

text \<open>
  One option: the work array, the two nibbles of the previous round, the number of the previous
  option; the result has the new work array and nibbles and the bytes that are stored.
\<close>

definition write_option :: "u8 list \<Rightarrow> u8 \<Rightarrow> u8 \<Rightarrow> u32 \<Rightarrow> coap_option_t \<Rightarrow> u8 list \<times> u8 \<times> u8 \<times> u8 list" where
  "write_option bb0 dn0 ln0 last_num opt =
     (let delta = ucast (num opt) - last_num;
          dn = snd (coap_get_option_nibble delta dn0);
          bb1 = coap_set_in_bit_array bb0 0 4 (uint dn);
          len = of_nat (length (buf opt));
          ln = snd (coap_get_option_nibble len ln0);
          bb2 = coap_set_in_bit_array bb1 4 4 (uint ln);
          (bb3, d) = write_ext dn delta bb2;
          (bb4, l) = write_ext ln len bb3
      in (bb4, dn, ln, [word_of_int (coap_get_byte_from_bits bb2)] @ d @ l @ buf opt))"

fun write_options :: "u8 list \<Rightarrow> u8 \<Rightarrow> u8 \<Rightarrow> u32 \<Rightarrow> coap_option_t list \<Rightarrow> u8 list" where
  "write_options bb dn ln last_num [] = []"
| "write_options bb dn ln last_num (x # xs) =
     (let (bb', dn', ln', out) = write_option bb dn ln last_num x in out @ write_options bb' dn' ln' (ucast (num x)) xs)"

definition header_bytes :: "coap_header_t \<Rightarrow> u8 list" where
  "header_bytes h =
     [(push_bit 6 (version h AND 3) OR push_bit 4 (type h AND 3)) OR (token_len h AND 0x0F),
      code h, fst (msg_id h), snd (msg_id h)]"

text \<open>
  The result code with the bytes stored from the start of the buffer on; \<open>buflen\<close> is the room in
  the buffer, and on success the new length is the number of stored bytes.
\<close>

definition coap_generate_packet :: "nat \<Rightarrow> coap_packet_t \<Rightarrow> coap_error_t \<times> u8 list" where
  "coap_generate_packet buflen p =
     (if buflen < 4 + unat (token_len (header p)) then (COAP_ERR_BUFFER_TOO_SMALL, [])
      else if token_len (header p) > 0 \<and> unat (token_len (header p)) \<noteq> length (token p)
      then (COAP_ERR_NOT_SUPPORTED, header_bytes (header p))
      else (let out = header_bytes (header p)
                    @ (if token_len (header p) > 0 then token p else [])
                    @ write_options (replicate 32 0) 0 0 0 (opts p)
            in if copy_mode p \<noteq> 0 \<and> payload_raw p \<noteq> []
               then (if buflen < 1 + length (payload_raw p) + length out then (COAP_ERR_BUFFER_TOO_SMALL, out)
                     else (COAP_ERR_SUCCESS, out @ [0xFF] @ payload_raw p))
               else if payload p \<noteq> []
               then (if buflen < 1 + length (payload p) + length out then (COAP_ERR_BUFFER_TOO_SMALL, out)
                     else (COAP_ERR_SUCCESS, out @ [0xFF] @ payload p))
               else (COAP_ERR_SUCCESS, out)))"

section \<open>Responses\<close>

definition COAP_OPTION_CONTENT_FORMAT :: u8 where "COAP_OPTION_CONTENT_FORMAT = 12"

text \<open>Message types: confirmable 0, non-confirmable 1, acknowledgement 2.\<close>

definition response_packet :: "u8 \<Rightarrow> nat \<Rightarrow> coap_packet_t \<Rightarrow> u8 list \<Rightarrow> u8 \<times> u8 \<Rightarrow> u8 list option \<Rightarrow> u8 \<Rightarrow> u16 \<Rightarrow>
    coap_error_t + coap_packet_t" where
  "response_packet typ scratch_len packet content msgid tok rsp_code content_type =
     (if scratch_len < 2 then Inl COAP_ERR_BUFFER_TOO_SMALL
      else Inr (packet\<lparr>
        header := \<lparr>version = 1, type = typ,
          token_len = (case tok of None \<Rightarrow> 0 | Some t \<Rightarrow> of_nat (length t)), code = rsp_code, msg_id = msgid\<rparr>,
        token := (case tok of None \<Rightarrow> token packet | Some t \<Rightarrow> t),
        opts := [\<lparr>num = COAP_OPTION_CONTENT_FORMAT,
                  buf = [ucast (drop_bit 8 (content_type AND 0xFF00)), ucast (content_type AND 0x00FF)]\<rparr>],
        payload := content\<rparr>))"

definition coap_generate_response :: "nat \<Rightarrow> coap_packet_t \<Rightarrow> u8 list \<Rightarrow> u8 \<times> u8 \<Rightarrow> u8 list option \<Rightarrow> u8 \<Rightarrow> u16 \<Rightarrow> coap_header_t \<Rightarrow>
    coap_error_t + coap_packet_t" where
  "coap_generate_response scratch_len packet content msgid tok rsp_code content_type req_hdr =
     response_packet (if type req_hdr = 0 then 2 else 1) scratch_len packet content msgid tok rsp_code content_type"

definition coap_generate_seperate_response :: "nat \<Rightarrow> coap_packet_t \<Rightarrow> u8 list \<Rightarrow> u8 \<times> u8 \<Rightarrow> u8 list option \<Rightarrow> u8 \<Rightarrow> u16 \<Rightarrow> coap_header_t \<Rightarrow>
    coap_error_t + coap_packet_t" where
  "coap_generate_seperate_response scratch_len packet content msgid tok rsp_code content_type req_hdr =
     response_packet 0 scratch_len packet content msgid tok rsp_code content_type"

section \<open>Buffers that own their bytes\<close>

text \<open>\<open>alloc n\<close> says whether a request for \<open>n\<close> bytes is granted.\<close>

definition coap_set_rw_buffer :: "(nat \<Rightarrow> bool) \<Rightarrow> u8 list \<Rightarrow> u8 list \<Rightarrow> int \<times> u8 list" where
  "coap_set_rw_buffer alloc buffer data =
     (if data = [] then (0, buffer)
      else if \<not> alloc (length buffer + length data + 1) then (-1, buffer)
      else (int (length buffer + length data), buffer @ data))"

definition coap_free_rw_buffer :: "u8 list \<Rightarrow> u8 list" where
  "coap_free_rw_buffer data = []"

record coap_rw_packet_t =
  rw_header :: coap_header_t
  rw_token :: "u8 list"
  rw_numopts :: nat
  rw_opts :: "coap_option_t list"
  rw_payload :: "u8 list"

text \<open>The array has room for \<open>MAXOPT\<close> options, of which the first \<open>rw_numopts\<close> are valid.\<close>

definition clear_opts :: "nat \<Rightarrow> coap_option_t list \<Rightarrow> coap_option_t list" where
  "clear_opts n os = map (\<lambda>x. x\<lparr>num := 0, buf := coap_free_rw_buffer (buf x)\<rparr>) (take n os) @ drop n os"

text \<open>Requests for memory are numbered over the call: \<open>alloc k n\<close> is the answer to the one for token (0), options (from 1) or payload.\<close>

definition copy_opts :: "(nat \<Rightarrow> nat \<Rightarrow> bool) \<Rightarrow> coap_option_t list \<Rightarrow> coap_option_t list \<Rightarrow> coap_option_t list" where
  "copy_opts alloc src dst =
     map (\<lambda>(k, x, y). y\<lparr>num := num x, buf := snd (coap_set_rw_buffer (alloc (Suc k)) (buf y) (buf x))\<rparr>)
       (zip [0..<length src] (zip src dst))
     @ drop (length src) dst"

definition coap_copy_rw_packet :: "(nat \<Rightarrow> nat \<Rightarrow> bool) \<Rightarrow> coap_rw_packet_t \<Rightarrow> coap_packet_t \<Rightarrow> coap_rw_packet_t" where
  "coap_copy_rw_packet alloc dst src =
     dst\<lparr>rw_header := header src,
       rw_token := snd (coap_set_rw_buffer (alloc 0) (if rw_token dst \<noteq> [] then coap_free_rw_buffer (rw_token dst) else rw_token dst) (token src)),
       rw_numopts := length (opts src),
       rw_opts := copy_opts alloc (opts src) (clear_opts (rw_numopts dst) (rw_opts dst)),
       rw_payload := snd (coap_set_rw_buffer (alloc (Suc (length (opts src)))) (if rw_payload dst \<noteq> [] then coap_free_rw_buffer (rw_payload dst) else rw_payload dst) (payload src))\<rparr>"

definition zero_header :: coap_header_t where
  "zero_header = \<lparr>version = 0, type = 0, token_len = 0, code = 0, msg_id = (0, 0)\<rparr>"

definition coap_clear_rw_packet :: "coap_rw_packet_t \<Rightarrow> coap_rw_packet_t" where
  "coap_clear_rw_packet p =
     \<lparr>rw_header = zero_header, rw_token = [], rw_numopts = 0,
      rw_opts = map (\<lambda>_. \<lparr>num = 0, buf = []\<rparr>) (rw_opts p), rw_payload = []\<rparr>"

section \<open>Block-wise transfer\<close>

text \<open>Block number, more flag and size exponent of an option; \<open>None\<close> leaves the caller's variables alone.\<close>

definition fill_bits :: "u8 list \<Rightarrow> u8 list \<Rightarrow> u8 list" where
  "fill_bits bs arr = fold (\<lambda>j a. coap_set_in_bit_array a (j * 8) 8 (uint (bs ! j))) [0..<length bs] arr"

definition coap_get_block_info :: "(nat \<Rightarrow> bool) \<Rightarrow> coap_option_t \<Rightarrow> (u32 \<times> u8 \<times> u8) option" where
  "coap_get_block_info alloc opt =
     (let n = length (buf opt); total_len = n * 8 in
      if n = 0 \<or> \<not> alloc total_len then None
      else (let arr = fill_bits (buf opt) (replicate total_len 0)
            in Some (ucast (coap_get_from_bit_array arr 0 (total_len - 4)),
                     coap_get_from_bit_array arr (total_len - 4) 1,
                     coap_get_from_bit_array arr (total_len - 3) 3)))"

definition coap_get_block_opt_len :: "int \<Rightarrow> int" where
  "coap_get_block_opt_len blockno =
     (if blockno \<le> 15 then 1
      else if blockno > 15 \<and> blockno \<le> 255 + 15 then 2
      else 2 + ((blockno - (255 + 15)) smod 255) + 1)"

text \<open>The bytes of a block option stored at \<open>pos\<close>, and the position behind them.\<close>

fun store_bytes :: "u8 list \<Rightarrow> nat \<Rightarrow> u8 list \<Rightarrow> u8 list" where
  "store_bytes d pos [] = d"
| "store_bytes d pos (x # xs) = store_bytes (d[pos := x]) (pos + 1) xs"

definition block_bits :: "int \<Rightarrow> int \<Rightarrow> nat \<Rightarrow> u8 \<Rightarrow> u8 list" where
  "block_bits blockno szx total_len mflag =
     coap_set_in_bit_array (coap_set_in_bit_array (coap_set_in_bit_array (replicate total_len 0)
       0 (total_len - 4) blockno) (total_len - 4) 1 (uint mflag)) (total_len - 3) 3 szx"

definition coap_set_block_payload :: "(nat \<Rightarrow> bool) \<Rightarrow> int \<Rightarrow> int \<Rightarrow> nat \<Rightarrow> u8 list \<Rightarrow> nat \<Rightarrow> u8 \<Rightarrow> nat \<times> u8 list" where
  "coap_set_block_payload alloc blockno szx block_opt_len data pos mflag =
     (let total_len = block_opt_len * 8 in
      if \<not> alloc total_len then (0, data)
      else (let arr = block_bits blockno szx total_len mflag
            in (pos + block_opt_len,
                store_bytes data pos (map (\<lambda>idx. coap_get_from_bit_array arr (idx * 8) 8) [0..<block_opt_len]))))"

text \<open>One block of the payload into the raw payload, and the more flag (\<open>None\<close>: left alone).\<close>

definition coap_set_bytes_splitted_by_block ::
    "(nat \<Rightarrow> bool) \<Rightarrow> coap_packet_t \<Rightarrow> u32 \<Rightarrow> nat \<Rightarrow> int \<times> coap_packet_t \<times> u8 option" where
  "coap_set_bytes_splitted_by_block alloc packet block_num block_szx =
     (let block_size = (2 :: u32) ^ (block_szx + 4);
          start_idx = block_num * block_size;
          n = of_nat (length (payload packet))
      in if start_idx \<ge> n then (0, packet\<lparr>payload := []\<rparr>, None)
         else (let (add_fact, mflag) = (if n < start_idx + block_size then (n - start_idx, 0) else (block_size, 1));
                   (ret, raw) = coap_set_rw_buffer alloc (payload_raw packet)
                                  (take (unat add_fact) (drop (unat start_idx) (payload packet)))
               in if ret < 0 then (-1, packet, Some mflag)
                  else (0, packet\<lparr>payload_raw := raw, copy_mode := 1\<rparr>, Some mflag)))"

end
