(* ===== verification/Coap_Bits.thy ===== *)
theory Coap_Bits
  imports Coap_Utils
begin

text \<open>
  The bit arrays of the CoAP codec as numbers: writing a number and reading it back, and the
  bytes that the generator stores for an option, written out without the arrays.
\<close>

section \<open>Arrays and numbers\<close>

lemma length_set_bits_loop [simp]: "length (set_bits_loop arr pos n v) = length arr"
  by (induction arr pos n v rule: set_bits_loop.induct) auto

lemma half_nonneg: "0 \<le> v \<Longrightarrow> v sdiv 2 = v div 2" "0 \<le> v \<Longrightarrow> v smod 2 = of_bool (odd v)" for v :: int
  by (auto simp: signed_divide_int_def signed_modulo_int_def mod2_eq_if sgn_if elim: oddE)

lemma nth_set_bits_loop:
  assumes "0 \<le> v" "pos + n \<le> length arr"
  shows "set_bits_loop arr pos n v ! k =
    (if pos \<le> k \<and> k < pos + n then of_bool (bit v (pos + n - 1 - k)) else arr ! k)"
  using assms
proof (induction n arbitrary: arr v)
  case (Suc n)
  have "set_bits_loop arr pos (Suc n) v ! k =
      (if pos \<le> k \<and> k < pos + n then of_bool (bit (v div 2) (pos + n - 1 - k)) else (arr[pos + n := of_bool (odd v)]) ! k)"
    using Suc.IH[of "v div 2" "arr[pos + n := of_bool (odd v)]"] Suc.prems
    by (cases "odd v") (simp_all add: half_nonneg)
  also have "\<dots> = (if pos \<le> k \<and> k < pos + Suc n then of_bool (bit v (pos + Suc n - 1 - k)) else arr ! k)"
  proof -
    have "bit (v div 2) (pos + n - 1 - k) = bit v (pos + n - k)" if "k < pos + n"
      using that bit_Suc[of v "pos + n - 1 - k"] by (simp add: Suc_diff_Suc)
    then show ?thesis using Suc.prems(2) by (auto simp: nth_list_update bit_0)
  qed
  finally show ?case .
qed auto

lemma length_set_in_bit_array [simp]: "length (coap_set_in_bit_array arr pos n v) = length arr"
  by (simp add: coap_set_in_bit_array_def)

lemma nth_set_in_bit_array:
  assumes "0 \<le> v" "pos + n \<le> length arr"
  shows "coap_set_in_bit_array arr pos n v ! k =
    (if pos \<le> k \<and> k < pos + n then of_bool (bit v (pos + n - 1 - k)) else arr ! k)"
  unfolding coap_set_in_bit_array_def by (rule nth_set_bits_loop[OF assms])

lemma get_bits_loop_number:
  assumes "n \<le> len" "\<And>i. i < n \<Longrightarrow> (arr ! (pos + i) \<noteq> 0) = bit v (len - 1 - i)"
  shows "get_bits_loop arr pos len n ret = ret + (take_bit len v - take_bit (len - n) v)"
  using assms
proof (induction n arbitrary: ret)
  case (Suc n)
  have "len - n = Suc (len - Suc n)" using Suc.prems(1) by simp
  then have t: "take_bit (len - n) v = 2 ^ (len - Suc n) * of_bool (bit v (len - Suc n)) + take_bit (len - Suc n) v"
    by (metis take_bit_Suc_from_most)
  have "pos + len - 1 - (pos + n) = len - Suc n" by simp
  then show ?case using Suc.IH[of "if arr ! (pos + n) \<noteq> 0 then ret + 2 ^ (len - Suc n) else ret"] Suc.prems t
    by (cases "bit v (len - Suc n)") simp_all
qed simp

lemma get_from_bit_array_number:
  assumes "\<And>i. i < len \<Longrightarrow> (arr ! (pos + i) \<noteq> 0) = bit v (len - 1 - i)"
  shows "coap_get_from_bit_array arr pos len = word_of_int (take_bit len v)"
  using get_bits_loop_number[of len len arr pos v 0] assms by (simp add: coap_get_from_bit_array_def)

lemma get_byte_number:
  assumes "\<And>i. i < 8 \<Longrightarrow> (arr ! i \<noteq> 0) = bit v (7 - i)"
  shows "coap_get_byte_from_bits arr = take_bit 8 v"
  using get_bits_loop_number[of 8 8 arr 0 v 0] assms by (simp add: coap_get_byte_from_bits_def)

text \<open>Writing a number and reading it back.\<close>

lemma bit_array_roundtrip:
  assumes "0 \<le> v" "pos + len \<le> length arr"
  shows "coap_get_from_bit_array (coap_set_in_bit_array arr pos len v) pos len = word_of_int (v mod 2 ^ len)"
  using assms nth_set_bits_loop[of v pos len arr]
  by (subst get_from_bit_array_number[of _ _ _ v]) (auto simp: coap_set_in_bit_array_def take_bit_eq_mod)

section \<open>The bytes of an option\<close>

text \<open>The nibble of a number and its extension bytes.\<close>

definition nibble :: "nat \<Rightarrow> nat" where
  "nibble v = (if v < 13 then v else if v \<le> 268 then 13 else 14)"

definition ext_bytes :: "nat \<Rightarrow> u8 list" where
  "ext_bytes v =
     (if v < 13 then [] else if v \<le> 268 then [of_nat (v - 13)]
      else [of_nat ((v - 269) div 256), of_nat ((v - 269) mod 256)])"

definition option_bytes :: "nat \<Rightarrow> u8 list \<Rightarrow> u8 list" where
  "option_bytes delta bs =
     [of_nat (16 * nibble delta + nibble (length bs))] @ ext_bytes delta @ ext_bytes (length bs) @ bs"

lemma nibble_less: "nibble v \<le> 14"
  by (simp add: nibble_def)

lemma get_option_nibble_nat:
  assumes "v < 65805"
  shows "coap_get_option_nibble (of_nat v) nib = (0, of_nat (nibble v))"
proof -
  have u: "unat (of_nat v :: u32) = v" using assms by (simp add: unsigned_of_nat take_bit_eq_mod)
  then have "(of_nat v :: u32) < 13 \<longleftrightarrow> v < 13" "(of_nat v :: u32) \<le> 0xFF + 13 \<longleftrightarrow> v \<le> 268"
    "(of_nat v :: u32) \<le> 0xFFFF + 269 \<longleftrightarrow> v \<le> 65804"
    by (simp_all add: word_less_nat_alt word_le_nat_alt)
  moreover have "ucast (0xFF AND (of_nat v :: u32)) = (of_nat v :: u8)" if "v < 13"
  proof -
    have "0xFF = (mask 8 :: u32)" by (simp add: mask_eq_exp_minus_1)
    then have "0xFF AND (of_nat v :: u32) = take_bit 8 (of_nat v)" by (simp add: take_bit_eq_mask and.commute)
    then show ?thesis using that
      by (simp add: unsigned_take_bit_eq unsigned_of_nat take_bit_word_eq_self take_bit_nat_eq_self)
  qed
  ultimately show ?thesis using assms by (simp add: coap_get_option_nibble_def nibble_def)
qed

lemma option_head_byte:
  assumes "dn < 16" "ln < 16" "8 \<le> length bb"
  shows "coap_get_byte_from_bits (coap_set_in_bit_array (coap_set_in_bit_array bb 0 4 (int dn)) 4 4 (int ln)) = int (16 * dn + ln)"
proof -
  define v where "v = int (16 * dn + ln)"
  have lo: "bit v j = bit (int ln) j" if "j < 4" for j
  proof -
    have "take_bit 4 v = take_bit 4 (int ln)" by (simp add: take_bit_eq_mod v_def)
    then have "bit (take_bit 4 v) j = bit (take_bit 4 (int ln)) j" by (rule arg_cong[where f = "\<lambda>x. bit x j"])
    then show ?thesis using that unfolding bit_take_bit_iff by blast
  qed
  have hi: "bit v (4 + j) = bit (int dn) j" for j
  proof -
    have "v div 16 = int dn" using assms(2) unfolding v_def by linarith
    then have d: "drop_bit 4 v = int dn" unfolding drop_bit_eq_div by simp
    show ?thesis using fun_cong[OF bit_drop_bit_eq[of 4 v], of j] unfolding d comp_apply by (rule sym)
  qed
  let ?a = "coap_set_in_bit_array (coap_set_in_bit_array bb 0 4 (int dn)) 4 4 (int ln)"
  have "(?a ! i \<noteq> 0) = bit v (7 - i)" if "i < 8" for i
  proof (cases "i < 4")
    case True
    then have "7 - i = 4 + (3 - i)" by simp
    then have "bit v (7 - i) = bit (int dn) (3 - i)" using hi[of "3 - i"] by (simp only:)
    then show ?thesis using True assms(3) by (simp add: coap_set_in_bit_array_def nth_set_bits_loop)
  next
    case False
    then show ?thesis using that assms(3) lo[of "7 - i"] by (simp add: coap_set_in_bit_array_def nth_set_bits_loop)
  qed
  then have "coap_get_byte_from_bits ?a = take_bit 8 v" by (rule get_byte_number)
  also have "\<dots> = v" using assms(1,2) by (simp add: take_bit_eq_mod v_def)
  finally show ?thesis unfolding v_def .
qed

lemma set_byte:
  assumes "0 \<le> v" "v < 256" "8 \<le> length bb"
  shows "coap_get_byte_from_bits (coap_set_in_bit_array bb 0 8 v) = v"
proof -
  have "coap_get_byte_from_bits (coap_set_in_bit_array bb 0 8 v) = take_bit 8 v"
    using assms by (intro get_byte_number) (simp add: coap_set_in_bit_array_def nth_set_bits_loop)
  then show ?thesis using assms(1,2) by (simp add: take_bit_eq_mod)
qed

lemma set_two_bytes:
  assumes "0 \<le> v" "v < 65536" "16 \<le> length bb"
  shows "coap_get_byte_from_bits (coap_set_in_bit_array bb 0 16 v) = v div 256"
    and "coap_get_byte_from_bits (drop 8 (coap_set_in_bit_array bb 0 16 v)) = v mod 256"
proof -
  let ?a = "coap_set_in_bit_array bb 0 16 v"
  have b: "bit (drop_bit 8 v) (7 - i) = bit v (15 - i)" if "i < 8" for i
    using that fun_cong[OF bit_drop_bit_eq[of 8 v], of "7 - i"] by (simp add: comp_def)
  have "coap_get_byte_from_bits ?a = take_bit 8 (drop_bit 8 v)"
    using assms b by (intro get_byte_number) (simp add: coap_set_in_bit_array_def nth_set_bits_loop)
  then show "coap_get_byte_from_bits ?a = v div 256"
    using assms(1,2) by (simp add: take_bit_eq_mod drop_bit_eq_div)
  have "coap_get_byte_from_bits (drop 8 ?a) = take_bit 8 v"
    using assms by (intro get_byte_number) (simp add: coap_set_in_bit_array_def nth_set_bits_loop)
  then show "coap_get_byte_from_bits (drop 8 ?a) = v mod 256" by (simp add: take_bit_eq_mod)
qed

lemma nibble_word:
  "(of_nat (nibble v) :: u8) = 13 \<longleftrightarrow> 13 \<le> v \<and> v \<le> 268" "(of_nat (nibble v) :: u8) = 14 \<longleftrightarrow> 268 < v"
  "unat (of_nat (nibble v) :: u8) = nibble v"
proof -
  show u: "unat (of_nat (nibble v) :: u8) = nibble v"
    using nibble_less[of v] by (simp add: unsigned_of_nat take_bit_eq_mod)
  show "(of_nat (nibble v) :: u8) = 13 \<longleftrightarrow> 13 \<le> v \<and> v \<le> 268"
    using u by (auto simp: nibble_def word_unat_eq_iff)
  show "(of_nat (nibble v) :: u8) = 14 \<longleftrightarrow> 268 < v"
    using u by (auto simp: nibble_def word_unat_eq_iff)
qed

lemma sint_sub:
  assumes "k \<le> v" "v < 2 ^ 31"
  shows "sint ((of_nat v :: u32) - of_nat k) = int (v - k)"
proof -
  have "(of_nat v :: u32) - of_nat k = of_nat (v - k)" using assms(1) by (simp add: of_nat_diff)
  also have "sint (of_nat (v - k) :: u32) = int (v - k)"
    using assms(2) by (simp add: signed_of_nat signed_take_bit_int_eq_self)
  finally show ?thesis .
qed

lemma write_ext_bytes:
  assumes "v < 65805" "length bb = 32"
  shows "\<exists>bb'. write_ext (of_nat (nibble v)) (of_nat v) bb = (bb', ext_bytes v) \<and> length bb' = 32"
proof -
  consider "v < 13" | "13 \<le> v" "v \<le> 268" | "268 < v" by linarith
  then show ?thesis
  proof cases
    case 1
    then show ?thesis using assms by (simp add: write_ext_def nibble_word ext_bytes_def)
  next
    case 2
    have "sint ((of_nat v :: u32) - 13) = int (v - 13)" using sint_sub[of 13 v] 2 by simp
    then show ?thesis using 2 assms(2) set_byte[of "int (v - 13)" bb]
      by (simp add: write_ext_def nibble_word ext_bytes_def coap_set_in_bit_array_def)
  next
    case 3
    define w where "w = v - 269"
    have w: "v = w + 269" using 3 by (simp add: w_def)
    have "sint ((of_nat v :: u32) - 269) = int w" using sint_sub[of 269 v] w assms(1) by simp
    moreover have "int w div 256 = int (w div 256)" "int w mod 256 = int (w mod 256)" by (simp_all add: zdiv_int zmod_int)
    ultimately show ?thesis using w assms set_two_bytes[of "int w" bb]
      by (simp add: write_ext_def nibble_word ext_bytes_def coap_set_in_bit_array_def)
  qed
qed

lemma write_option_bytes:
  assumes "lst \<le> unat (num x)" "length (buf x) < 65536" "length bb = 32"
  shows "\<exists>bb' dn' ln'. write_option bb dn ln (of_nat lst) x = (bb', dn', ln', option_bytes (unat (num x) - lst) (buf x)) \<and> length bb' = 32"
proof -
  let ?d = "unat (num x) - lst" and ?l = "length (buf x)"
  have "unat (num x) < 256" using unsigned_less[of "num x", where ?'a = nat] by simp
  then have d: "?d < 65805" by simp
  have "(of_nat (unat (num x)) :: u32) = ucast (num x)" by simp
  then have delta: "(ucast (num x) :: u32) - of_nat lst = of_nat ?d" using assms(1) by (metis of_nat_diff)
  let ?bb2 = "coap_set_in_bit_array (coap_set_in_bit_array bb 0 4 (int (nibble ?d))) 4 4 (int (nibble ?l))"
  have u: "uint (of_nat (nibble v) :: u8) = int (nibble v)" for v using nibble_word(3)[of v] by (metis uint_nat)
  have head: "coap_get_byte_from_bits ?bb2 = int (16 * nibble ?d + nibble ?l)"
    using nibble_less[of ?d] nibble_less[of ?l] assms(3) by (intro option_head_byte) auto
  obtain bb3 where e1: "write_ext (of_nat (nibble ?d)) (of_nat ?d) ?bb2 = (bb3, ext_bytes ?d)" "length bb3 = 32"
    using write_ext_bytes[of ?d ?bb2] d assms(3) by (auto simp: coap_set_in_bit_array_def)
  obtain bb4 where e2: "write_ext (of_nat (nibble ?l)) (of_nat ?l) bb3 = (bb4, ext_bytes ?l)" "length bb4 = 32"
    using write_ext_bytes[of ?l bb3] e1(2) assms(2) by auto
  have "write_option bb dn ln (of_nat lst) x =
      (bb4, of_nat (nibble ?d), of_nat (nibble ?l), [word_of_int (int (16 * nibble ?d + nibble ?l))] @ ext_bytes ?d @ ext_bytes ?l @ buf x)"
    using e1(1) e2(1) d assms(2)
    by (simp only: write_option_def Let_def delta get_option_nibble_nat snd_conv u head split_conv)
  then show ?thesis using e2(2) by (simp add: option_bytes_def)
qed

end
