(* ===== verification/Coap_Props.thy ===== *)
theory Coap_Props
  imports Coap_Bits
begin

text \<open>
  The properties of the CoAP codec: a generated packet is parsed back, a parsed packet stays
  inside its buffer, and what the code does at its limits.
\<close>

section \<open>Parsing an option\<close>

lemma unat_u8_of_nat: "n < 256 \<Longrightarrow> unat (of_nat n :: u8) = n"
  by (simp add: unsigned_of_nat take_bit_nat_eq_self)

lemma ucast_u8_of_nat: "n < 256 \<Longrightarrow> (ucast (of_nat n :: u8) :: u16) = of_nat n"
  by (simp add: unsigned_of_nat take_bit_nat_eq_self)

lemma join_bytes:
  assumes "w < 65536"
  shows "push_bit 8 (ucast (of_nat (w div 256) :: u8)) OR ucast (of_nat (w mod 256) :: u8) = (of_nat w :: u16)"
proof (rule bit_word_eqI)
  fix n assume n: "n < LENGTH(16)"
  have d: "w div 256 = drop_bit 8 w" "w mod 256 = take_bit 8 w" by (simp_all add: drop_bit_eq_div take_bit_eq_mod)
  show "bit (push_bit 8 (ucast (of_nat (w div 256) :: u8)) OR ucast (of_nat (w mod 256) :: u8) :: u16) n = bit (of_nat w :: u16) n"
    using n unfolding d by (auto simp: bit_simps)
qed

lemma ext_field_bytes:
  assumes "v < 65536" "drop (pos + 1) b = ext_bytes v @ rest"
  shows "ext_field err b (pos + 1) pos (of_nat (nibble v)) = Inr (pos + 1 + length (ext_bytes v), pos + length (ext_bytes v), of_nat v)"
proof -
  have n: "(of_nat (nibble v) :: u16) = 13 \<longleftrightarrow> 13 \<le> v \<and> v \<le> 268" "(of_nat (nibble v) :: u16) = 14 \<longleftrightarrow> 268 < v" "(of_nat (nibble v) :: u16) \<noteq> 15"
    using nibble_less[of v] by (auto simp: nibble_def word_unat_eq_iff unsigned_of_nat take_bit_eq_mod split: if_splits)
  have l: "length b - (pos + 1) = length (ext_bytes v) + length rest"
    using arg_cong[OF assms(2), of length] by (simp only: length_drop length_append)
  have len: "length b = pos + 1 + length (ext_bytes v) + length rest" if "ext_bytes v \<noteq> []"
    using l that by (cases "ext_bytes v") auto
  have nth: "b ! (pos + 1 + k) = ext_bytes v ! k" if "k < length (ext_bytes v)" for k
  proof -
    have "pos + 1 \<le> length b" using that len by (cases "ext_bytes v") auto
    then have "b ! (pos + 1 + k) = drop (pos + 1) b ! k" by simp
    then show ?thesis using that by (simp only: assms(2) nth_append if_True)
  qed
  consider "v < 13" | "13 \<le> v" "v \<le> 268" | "268 < v" by linarith
  then show ?thesis
  proof cases
    case 1
    then show ?thesis using n by (simp add: ext_field_def ext_bytes_def nibble_def)
  next
    case 2
    then have e: "ext_bytes v = [of_nat (v - 13)]" by (simp add: ext_bytes_def)
    have "(ucast (of_nat (v - 13) :: u8) :: u16) + 13 = of_nat v"
    proof -
      have "(ucast (of_nat (v - 13) :: u8) :: u16) = of_nat (v - 13)" using 2 by (intro ucast_u8_of_nat) simp
      then show ?thesis using 2(1) by (metis of_nat_add of_nat_numeral le_add_diff_inverse2)
    qed
    then show ?thesis using 2 n len nth[of 0] e by (simp add: ext_field_def)
  next
    case 3
    define w where "w = v - 269"
    have w: "v = w + 269" "w < 65536" using 3 assms(1) by (simp_all add: w_def)
    then have e: "ext_bytes v = [of_nat (w div 256), of_nat (w mod 256)]" by (simp add: ext_bytes_def)
    show ?thesis using 3 n len nth[of 0] nth[of 1] e join_bytes[OF w(2)] w(1) by (simp add: ext_field_def)
  qed
qed

lemma nibble_masks:
  fixes w :: u8
  shows "drop_bit 4 (w AND 0xF0) = drop_bit 4 w" "w AND 0x0F = take_bit 4 w"
proof -
  have m: "(0xF0 :: u8) = push_bit 4 (mask 4)" "(0x0F :: u8) = mask 4" by (simp_all add: mask_eq_exp_minus_1 push_bit_eq_mult)
  have "bit (push_bit 4 (mask 4) :: u8) (4 + n) \<longleftrightarrow> n < 4" for n by (auto simp: bit_push_bit_iff bit_mask_iff)
  moreover have "bit w (4 + n) \<Longrightarrow> n < 4" for n using bit_imp_le_length[of w "4 + n"] by simp
  ultimately show "drop_bit 4 (w AND 0xF0) = drop_bit 4 w" unfolding m
    by (intro bit_word_eqI) (metis bit_drop_bit_eq bit_and_iff comp_apply)
  show "w AND 0x0F = take_bit 4 w" unfolding m take_bit_eq_mask by (simp add: and.commute)
qed

lemma head_nibbles:
  assumes "dn \<le> 14" "ln \<le> 14"
  shows "(ucast (drop_bit 4 ((of_nat (16 * dn + ln) :: u8) AND 0xF0)) :: u16) = of_nat dn"
    and "(ucast ((of_nat (16 * dn + ln) :: u8) AND 0x0F) :: u16) = of_nat ln"
    and "(of_nat (16 * dn + ln) :: u8) \<noteq> 0xFF"
proof -
  let ?v = "16 * dn + ln"
  have v: "unat (of_nat ?v :: u8) = ?v" using assms by (intro unat_u8_of_nat) simp
  have "unat (drop_bit 4 (of_nat ?v :: u8)) = ?v div 16" "unat (take_bit 4 (of_nat ?v :: u8)) = ?v mod 16"
    using assms by (simp_all only: unsigned_drop_bit_eq unsigned_take_bit_eq v) (simp_all add: drop_bit_eq_div take_bit_eq_mod v)
  then have "unat (drop_bit 4 ((of_nat ?v :: u8) AND 0xF0)) = dn" "unat ((of_nat ?v :: u8) AND 0x0F) = ln"
    using assms unfolding nibble_masks by simp_all
  then show "(ucast (drop_bit 4 ((of_nat ?v :: u8) AND 0xF0)) :: u16) = of_nat dn" "(ucast ((of_nat ?v :: u8) AND 0x0F) :: u16) = of_nat ln"
    by (metis of_nat_unat)+
  show "(of_nat ?v :: u8) \<noteq> 0xFF" using v assms by (auto simp: word_unat_eq_iff)
qed

lemma parse_option_bytes:
  assumes "lst \<le> unat n" "length bs < 65536"
  shows "coap_parse_option (of_nat lst) (option_bytes (unat n - lst) bs @ rest) = Inr (\<lparr>num = n, buf = bs\<rparr>, of_nat (unat n), rest)"
proof -
  let ?d = "unat n - lst" and ?l = "length bs"
  let ?b = "option_bytes ?d bs @ rest" and ?D = "ext_bytes (unat n - lst)" and ?L = "ext_bytes (length bs)"
  have "unat n < 256" using unsigned_less[of n, where ?'a = nat] by simp
  then have d: "?d < 65536" by simp
  have b: "?b = of_nat (16 * nibble ?d + nibble ?l) # ?D @ ?L @ bs @ rest" by (simp add: option_bytes_def)
  note nib = head_nibbles[OF nibble_less nibble_less, of ?d ?l]
  have f1: "ext_field COAP_ERR_OPTION_DELTA_INVALID ?b 1 0 (of_nat (nibble ?d)) = Inr (1 + length ?D, length ?D, of_nat ?d)"
    using ext_field_bytes[OF d, of 0 ?b "?L @ bs @ rest" COAP_ERR_OPTION_DELTA_INVALID] b by simp
  have f2: "ext_field COAP_ERR_OPTION_LEN_INVALID ?b (1 + length ?D) (length ?D) (of_nat (nibble ?l)) =
      Inr (1 + length ?D + length ?L, length ?D + length ?L, of_nat ?l)"
    using ext_field_bytes[OF assms(2), of "length ?D" ?b "bs @ rest" COAP_ERR_OPTION_LEN_INVALID] b by (simp add: add.commute)
  have u: "unat (of_nat ?l :: u16) = ?l" using assms(2) by (simp add: unsigned_of_nat take_bit_nat_eq_self)
  have s: "(of_nat ?d :: u16) + of_nat lst = of_nat (unat n)" "(of_nat lst :: u16) + of_nat ?d = of_nat (unat n)"
    using assms(1) by (simp_all flip: of_nat_add)
  have "(ucast (of_nat (unat n) :: u16) :: u8) = n"
    by (auto intro!: bit_word_eqI simp: bit_simps)
  then show ?thesis
    using f1 f2 nib(1,2) s u unfolding b by (simp add: coap_parse_option_def)
qed

section \<open>Whole packets\<close>

text \<open>The options of a packet, by number, from a previous number on.\<close>

fun options_bytes :: "nat \<Rightarrow> coap_option_t list \<Rightarrow> u8 list" where
  "options_bytes lst [] = []"
| "options_bytes lst (x # xs) = option_bytes (unat (num x) - lst) (buf x) @ options_bytes (unat (num x)) xs"

fun ordered :: "nat \<Rightarrow> coap_option_t list \<Rightarrow> bool" where
  "ordered lst [] \<longleftrightarrow> True"
| "ordered lst (x # xs) \<longleftrightarrow> lst \<le> unat (num x) \<and> length (buf x) < 65536 \<and> ordered (unat (num x)) xs"

lemma write_options_bytes:
  assumes "ordered lst xs" "length bb = 32"
  shows "write_options bb dn ln (of_nat lst) xs = options_bytes lst xs"
  using assms
proof (induction xs arbitrary: bb dn ln lst)
  case (Cons x xs)
  then obtain bb' dn' ln' where w: "write_option bb dn ln (of_nat lst) x = (bb', dn', ln', option_bytes (unat (num x) - lst) (buf x))" "length bb' = 32"
    using write_option_bytes[of lst x bb dn ln] by auto
  have "(ucast (num x) :: u32) = of_nat (unat (num x))" by simp
  then show ?case using Cons.IH[OF _ w(2), of "unat (num x)" dn' ln'] Cons.prems(1) w(1) by simp
qed simp

lemma parse_options_bytes:
  assumes "ordered lst xs" "length xs \<le> n" "rest = [] \<or> hd rest = 0xFF"
  shows "parse_options n (of_nat lst) (options_bytes lst xs @ rest) = Inr (xs, rest)"
  using assms
proof (induction xs arbitrary: n lst)
  case Nil
  then show ?case by (cases n) auto
next
  case (Cons x xs)
  then obtain m where n: "n = Suc m" "length xs \<le> m" by (cases n) auto
  let ?b = "option_bytes (unat (num x) - lst) (buf x) @ (options_bytes (unat (num x)) xs @ rest)"
  have p: "coap_parse_option (of_nat lst) ?b = Inr (x, of_nat (unat (num x)), options_bytes (unat (num x)) xs @ rest)"
    using parse_option_bytes[of lst "num x" "buf x"] Cons.prems(1) by simp
  have "?b \<noteq> []" "hd ?b \<noteq> 0xFF"
    using head_nibbles(3)[OF nibble_less nibble_less] by (simp_all add: option_bytes_def)
  moreover have "parse_options m (of_nat (unat (num x))) (options_bytes (unat (num x)) xs @ rest) = Inr (xs, rest)"
    using Cons.IH[of "unat (num x)" m] n(2) Cons.prems by (simp del: of_nat_unat)
  ultimately show ?case using p n(1) by (simp del: of_nat_unat)
qed

lemma small_word:
  fixes w :: u8
  assumes "unat w < 2 ^ k" "bit w n"
  shows "n < k"
proof -
  have "take_bit k w = w" using assms(1) by (simp add: word_unat_eq_iff unsigned_take_bit_eq take_bit_nat_eq_self)
  then show "n < k" using assms(2) by (metis bit_take_bit_iff)
qed

lemma header_byte_fields:
  fixes v t l :: u8
  assumes "v < 4" "t < 4" "l < 16"
  defines "b \<equiv> (push_bit 6 (v AND 3) OR push_bit 4 (t AND 3)) OR (l AND 0x0F)"
  shows "drop_bit 6 (b AND 0xC0) = v" "drop_bit 4 (b AND 0x30) = t" "b AND 0x0F = l"
proof -
  have m: "(3 :: u8) = mask 2" "(0x0F :: u8) = mask 4" "(0xC0 :: u8) = push_bit 6 (mask 2)" "(0x30 :: u8) = push_bit 4 (mask 2)"
    by (simp_all add: mask_eq_exp_minus_1 push_bit_eq_mult)
  have s: "bit v n \<Longrightarrow> n < 2" "bit t n \<Longrightarrow> n < 2" "bit l n \<Longrightarrow> n < 4" for n
    using small_word[of v 2 n] small_word[of t 2 n] small_word[of l 4 n] assms(1-3)
    by (simp_all add: word_less_nat_alt)
  have b: "bit b n \<longleftrightarrow> n < 8 \<and> (6 \<le> n \<and> bit v (n - 6) \<or> 4 \<le> n \<and> bit t (n - 4) \<or> bit l n)" for n
    unfolding b_def m using s(1)[of "n - 6"] s(2)[of "n - 4"] s(3)[of n]
    by (auto simp: bit_or_iff bit_and_iff bit_push_bit_iff bit_mask_iff)
  have "bit (drop_bit 6 (b AND push_bit 6 (mask 2))) n = bit v n" if "n < 8" for n
    using that b[of "6 + n"] s(1)[of n] s(2)[of "2 + n"] s(3)[of "6 + n"]
    by (auto simp: bit_drop_bit_eq bit_and_iff bit_push_bit_iff bit_mask_iff)
  then show "drop_bit 6 (b AND 0xC0) = v" unfolding m by (intro bit_word_eqI) simp
  have "bit (drop_bit 4 (b AND push_bit 4 (mask 2))) n = bit t n" if "n < 8" for n
    using that b[of "4 + n"] s(2)[of n] s(3)[of "4 + n"]
    by (auto simp: bit_drop_bit_eq bit_and_iff bit_push_bit_iff bit_mask_iff)
  then show "drop_bit 4 (b AND 0x30) = t" unfolding m by (intro bit_word_eqI) simp
  have "bit (b AND mask 4) n = bit l n" if "n < 8" for n
    using that b[of n] s(3)[of n] by (auto simp: bit_and_iff bit_mask_iff)
  then show "b AND 0x0F = l" unfolding m by (intro bit_word_eqI) simp
qed

definition body_bytes :: "coap_packet_t \<Rightarrow> u8 list" where
  "body_bytes p = (if copy_mode p \<noteq> 0 \<and> payload_raw p \<noteq> [] then payload_raw p else payload p)"

definition packet_wf :: "coap_packet_t \<Rightarrow> bool" where
  "packet_wf p \<longleftrightarrow> version (header p) = 1 \<and> type (header p) < 4 \<and> unat (token_len (header p)) = length (token p) \<and>
     length (token p) \<le> 8 \<and> length (opts p) \<le> MAXOPT \<and> ordered 0 (opts p)"

definition packet_bytes :: "coap_packet_t \<Rightarrow> u8 list" where
  "packet_bytes p = header_bytes (header p) @ token p @ options_bytes 0 (opts p)
     @ (if body_bytes p = [] then [] else 0xFF # body_bytes p)"

lemma generate_packet_bytes:
  assumes "packet_wf p" "4 + length (token p) \<le> buflen" "body_bytes p \<noteq> [] \<Longrightarrow> length (packet_bytes p) \<le> buflen"
  shows "coap_generate_packet buflen p = (COAP_ERR_SUCCESS, packet_bytes p)"
proof -
  let ?h = "header p"
  have w: "unat (token_len ?h) = length (token p)" "ordered 0 (opts p)" using assms(1) by (simp_all add: packet_wf_def)
  have opts: "write_options (replicate 32 0) 0 0 0 (opts p) = options_bytes 0 (opts p)"
    using write_options_bytes[OF w(2), of "replicate 32 0" 0 0] by simp
  have tok: "token_len ?h > 0 \<longleftrightarrow> token p \<noteq> []" using w(1) by (auto simp: word_less_nat_alt)
  show ?thesis
    using assms(2,3) w(1) tok opts
    by (auto simp: coap_generate_packet_def packet_bytes_def body_bytes_def header_bytes_def)
qed

lemma parse_packet_bytes:
  assumes wf: "packet_wf p"
  shows "coap_parse_raw_data q (packet_bytes p) =
    Inr (q\<lparr>header := header p, token := token p, opts := opts p, payload := body_bytes p\<rparr>)"
proof -
  let ?h = "header p" and ?os = "options_bytes 0 (opts p)"
  let ?pl = "if body_bytes p = [] then [] else 0xFF # body_bytes p"
  let ?b = "packet_bytes p"
  have w: "version ?h = 1" "type ?h < 4" "unat (token_len ?h) = length (token p)" "length (token p) \<le> 8"
    "length (opts p) \<le> MAXOPT" "ordered 0 (opts p)"
    using wf by (simp_all add: packet_wf_def)
  have tok: "token_len ?h > 0 \<longleftrightarrow> token p \<noteq> []" using w(3) by (auto simp: word_less_nat_alt)
  have b: "?b = header_bytes ?h @ token p @ ?os @ ?pl" by (simp add: packet_bytes_def)
  have l: "token_len ?h < 16" using w(3,4) by (simp add: word_less_nat_alt)
  have v: "version ?h < 4" using w(1) by simp
  note f = header_byte_fields[OF v w(2) l]
  have hd: "coap_parse_header ?b = Inr ?h"
    using f w(1) unfolding b coap_parse_header_def by (simp add: header_bytes_def)
  have hl: "length (header_bytes ?h) = 4" by (simp add: header_bytes_def)
  have tk: "coap_parse_token ?h ?b = Inr (token p)"
    using w(3,4) tok hl unfolding b by (auto simp: coap_parse_token_def word_le_nat_alt word_less_nat_alt)
  have "drop (4 + unat (token_len ?h)) ?b = ?os @ ?pl" using w(3) hl unfolding b by simp
  moreover have "parse_options MAXOPT 0 (?os @ ?pl) = Inr (opts p, ?pl)" using parse_options_bytes[OF w(6,5), of ?pl] by simp
  ultimately have "coap_parse_option_and_payload MAXOPT ?h ?b = Inr (opts p, body_bytes p)"
    using w(3) hl by (simp add: coap_parse_option_and_payload_def b)
  then show ?thesis using hd tk by (simp add: coap_parse_raw_data_def)
qed

text \<open>
  C30. A packet whose options are in order, whose token has the length in the header and which has at most
  sixteen options is generated without an error when it fits into the buffer, as exactly the bytes
  that the buffer needs room for, and parsing these bytes gives the packet back: header, token, every
  option with its number and value, and the payload (the raw payload in copy mode).
\<close>

theorem coap_generate_parse:
  assumes wf: "packet_wf p" and fits: "length (packet_bytes p) \<le> buflen"
  shows "coap_generate_packet buflen p = (COAP_ERR_SUCCESS, packet_bytes p) \<and>
    coap_parse_raw_data q (packet_bytes p) =
      Inr (q\<lparr>header := header p, token := token p, opts := opts p, payload := body_bytes p\<rparr>)"
proof -
  have "4 + length (token p) \<le> length (packet_bytes p)" by (simp add: packet_bytes_def header_bytes_def)
  then show ?thesis using generate_packet_bytes[OF wf, of buflen] parse_packet_bytes[OF wf] fits by simp
qed

definition get_packet :: coap_packet_t where
  "get_packet =
     \<lparr>header = \<lparr>version = 1, type = 0, token_len = 2, code = 1, msg_id = (0x12, 0x34)\<rparr>, token = [0xAA, 0xBB],
      opts = [\<lparr>num = 11, buf = [0x61, 0x62]\<rparr>, \<lparr>num = 60, buf = []\<rparr>], payload = [], payload_raw = [], copy_mode = 0\<rparr>"

lemmas coap_example = get_packet_def packet_wf_def packet_bytes_def body_bytes_def MAXOPT_def header_bytes_def
  option_bytes_def nibble_def ext_bytes_def

theorem coap_generate_parse_witness:
  "coap_generate_packet 20 get_packet = (COAP_ERR_SUCCESS, [0x42, 1, 0x12, 0x34, 0xAA, 0xBB, 0xB2, 0x61, 0x62, 0xD0, 36]) \<and>
   coap_parse_raw_data get_packet [0x42, 1, 0x12, 0x34, 0xAA, 0xBB, 0xB2, 0x61, 0x62, 0xD0, 36] = Inr get_packet"
proof -
  have b: "packet_bytes get_packet = [0x42, 1, 0x12, 0x34, 0xAA, 0xBB, 0xB2, 0x61, 0x62, 0xD0, 36]"
    by (simp add: coap_example) 
  moreover have "packet_wf get_packet" "length (packet_bytes get_packet) \<le> 20"
    unfolding b by (simp_all add: coap_example)
  moreover have "get_packet\<lparr>header := header get_packet, token := token get_packet, opts := opts get_packet, payload := body_bytes get_packet\<rparr> = get_packet"
    by (simp add: coap_example)
  ultimately show ?thesis using coap_generate_parse[of get_packet 20 get_packet] by simp
qed

section \<open>Parsing stays inside the buffer\<close>

lemma ext_field_pos: "ext_field e b headlen pos nib = Inr (headlen', pos', v) \<Longrightarrow> pos' \<le> pos + 2"
  by (auto simp: ext_field_def split: if_splits)

lemma parse_option_inside:
  assumes "coap_parse_option d b = Inr (x, d', rest)"
  shows "\<exists>f. b = f @ buf x @ rest \<and> 1 \<le> length f \<and> length f \<le> 5"
proof -
  obtain h1 p1 d1 h2 pos l where e: "ext_field COAP_ERR_OPTION_DELTA_INVALID b 1 0 (ucast (drop_bit 4 (b ! 0 AND 0xF0))) = Inr (h1, p1, d1)"
    "ext_field COAP_ERR_OPTION_LEN_INVALID b h1 p1 (ucast (b ! 0 AND 0x0F)) = Inr (h2, pos, l)"
    "pos + 1 + unat l \<le> length b" "buf x = take (unat l) (drop (pos + 1) b)" "rest = drop (pos + 1 + unat l) b"
    using assms by (auto simp: coap_parse_option_def not_less split: if_splits sum.splits prod.splits)
  then obtain len where p: "pos \<le> 4" "pos + 1 + len \<le> length b" "buf x = take len (drop (pos + 1) b)" "rest = drop (pos + 1 + len) b"
    using ext_field_pos[OF e(1)] ext_field_pos[OF e(2)] by fastforce
  have "b = take (pos + 1) b @ buf x @ rest"
    unfolding p(3,4) by (metis append_take_drop_id drop_drop add.commute)
  moreover have "length (take (pos + 1) b) = pos + 1" using p(2) by simp
  ultimately show ?thesis using p(1) by (intro exI[of _ "take (pos + 1) b"]) simp
qed

text \<open>The options as they stand in the buffer: each value behind the one to five bytes \<open>f\<close> of its own head.\<close>

definition laid_out :: "u8 list list \<Rightarrow> coap_option_t list \<Rightarrow> u8 list" where
  "laid_out fs xs = concat (map2 (\<lambda>f x. f @ buf x) fs xs)"

definition heads_of :: "u8 list list \<Rightarrow> coap_option_t list \<Rightarrow> bool" where
  "heads_of fs xs \<longleftrightarrow> list_all2 (\<lambda>f x. 1 \<le> length f \<and> length f \<le> 5) fs xs"

lemma laid_out_length: "heads_of fs xs \<Longrightarrow> (\<Sum>x\<leftarrow>xs. 1 + length (buf x)) \<le> length (laid_out fs xs)"
  unfolding heads_of_def by (induction rule: list_all2_induct) (auto simp: laid_out_def)

lemma laid_out_part: "heads_of fs xs \<Longrightarrow> x \<in> set xs \<Longrightarrow> \<exists>u v. laid_out fs xs = u @ buf x @ v"
  unfolding heads_of_def
proof (induction rule: list_all2_induct)
  case (Cons f fs y ys)
  show ?case
  proof (cases "x = y")
    case True
    then show ?thesis by (auto simp: laid_out_def)
  next
    case False
    then obtain u v where "laid_out fs ys = u @ buf x @ v" using Cons by auto
    then have "laid_out (f # fs) (y # ys) = (f @ buf y @ u) @ buf x @ v" by (simp add: laid_out_def)
    then show ?thesis by blast
  qed
qed simp

lemma parse_options_inside:
  assumes "parse_options n d b = Inr (xs, rest)"
  shows "length xs \<le> n \<and> (\<exists>fs. heads_of fs xs \<and> b = laid_out fs xs @ rest) \<and> (length xs < n \<longrightarrow> rest = [] \<or> hd rest = 0xFF)"
  using assms
proof (induction n d b arbitrary: xs rest rule: parse_options.induct)
  case (2 n d b)
  show ?case
  proof (cases "b \<noteq> [] \<and> hd b \<noteq> 0xFF")
    case True
    then obtain x d' r os where x: "coap_parse_option d b = Inr (x, d', r)" "parse_options n d' r = Inr (os, rest)" "xs = x # os"
      using 2(2) by (auto split: sum.splits)
    obtain f where f: "b = f @ buf x @ r" "1 \<le> length f" "length f \<le> 5" using parse_option_inside[OF x(1)] by blast
    note IH = 2(1)[OF True x(1) refl refl x(2)]
    then obtain fs where "heads_of fs os" "r = laid_out fs os @ rest" by blast
    then have "heads_of (f # fs) xs \<and> b = laid_out (f # fs) xs @ rest" using f x(3) by (simp add: heads_of_def laid_out_def)
    then show ?thesis using IH x(3) by auto
  next
    case False
    then show ?thesis using 2(2) by (auto simp: heads_of_def laid_out_def)
  qed
qed (auto simp: heads_of_def laid_out_def)

text \<open>
  C31. Whatever bytes are received, a packet that the parser accepts has at most sixteen options, and the buffer is, in this order and without a gap,
  the four bytes of the header, the token, for each option one to five bytes and its value, and a rest. With a payload the rest is the marker
  0xFF and the payload; without one it is empty or begins with the marker, or there are sixteen options already, behind which nothing is
  read. So no two parts overlap and none reaches beyond the buffer. The version is 1 and the token has at most eight bytes.
\<close>

theorem coap_parse_inside:
  assumes "coap_parse_raw_data q b = Inr p"
  shows "length (opts p) \<le> 16 \<and> version (header p) = 1 \<and> length (token p) \<le> 8 \<and> unat (token_len (header p)) = length (token p) \<and>
    (\<exists>hdr fs rest. length hdr = 4 \<and> heads_of fs (opts p) \<and> b = hdr @ token p @ laid_out fs (opts p) @ rest \<and>
       (if payload p = [] then rest \<in> {[], [0xFF]} \<or> length (opts p) = 16 else rest = 0xFF # payload p)) \<and>
    4 + length (token p) + (\<Sum>x\<leftarrow>opts p. 1 + length (buf x)) + (if payload p = [] then 0 else 1 + length (payload p)) \<le> length b \<and>
    (\<exists>u v. b = u @ token p @ v \<and> length u = 4) \<and> (\<forall>x \<in> set (opts p). \<exists>u v. b = u @ buf x @ v) \<and> (\<exists>u. b = u @ payload p)"
proof -
  obtain h t os pl where h: "coap_parse_header b = Inr h" "coap_parse_token h b = Inr t"
    "coap_parse_option_and_payload MAXOPT h b = Inr (os, pl)"
    "p = q\<lparr>header := h, token := t, opts := os, payload := pl\<rparr>"
    using assms by (auto simp: coap_parse_raw_data_def split: sum.splits)
  have P: "header p = h" "token p = t" "opts p = os" "payload p = pl" using h(4) by simp_all
  have v: "version h = 1" "length b \<ge> 4" using h(1) by (auto simp: coap_parse_header_def Let_def split: if_splits)
  have t: "unat (token_len h) = length t" "length t \<le> 8" "t = take (length t) (drop 4 b)"
    using h(2) by (auto simp: coap_parse_token_def word_le_nat_alt split: if_splits)
  obtain rest where o: "4 + length t \<le> length b" "parse_options MAXOPT 0 (drop (4 + length t) b) = Inr (os, rest)"
    "pl = (if 1 < length rest \<and> hd rest = 0xFF then tl rest else [])"
    using h(3) t(1) by (auto simp: coap_parse_option_and_payload_def split: if_splits sum.splits)
  obtain fs where fs: "heads_of fs os" "drop (4 + length t) b = laid_out fs os @ rest" "length os \<le> 16"
    "length os < 16 \<longrightarrow> rest = [] \<or> hd rest = 0xFF"
    using parse_options_inside[OF o(2)] by (auto simp: MAXOPT_def)
  have "b = take 4 b @ t @ drop (4 + length t) b"
    using t(3) by (metis append_take_drop_id drop_drop add.commute)
  then have b: "b = take 4 b @ t @ laid_out fs os @ rest" unfolding fs(2) .
  have r: "if pl = [] then rest \<in> {[], [0xFF]} \<or> length os = 16 else rest = 0xFF # pl"
    using o(3) fs(3,4) by (cases rest; cases "tl rest") auto
  have "length b = 4 + length t + length (laid_out fs os) + length rest" using arg_cong[OF b, of length] v(2) by simp
  then have sum: "4 + length t + (\<Sum>x\<leftarrow>os. 1 + length (buf x)) + (if pl = [] then 0 else 1 + length pl) \<le> length b"
    using laid_out_length[OF fs(1)] r by (auto split: if_splits)
  have opt: "\<exists>u v. b = u @ buf x @ v" if x: "x \<in> set os" for x
  proof -
    obtain u v where "laid_out fs os = u @ buf x @ v" using laid_out_part[OF fs(1) x] by blast
    then have "b = (take 4 b @ t @ u) @ buf x @ v @ rest" using b by simp
    then show ?thesis by blast
  qed
  have pay: "\<exists>u. b = u @ pl"
  proof (cases "pl = []")
    case False
    then have "b = (take 4 b @ t @ laid_out fs os @ [0xFF]) @ pl" using b r by simp
    then show ?thesis by blast
  qed simp
  have len: "length (take 4 b) = 4" using v(2) by simp
  have lay: "\<exists>hdr fs rest. length hdr = 4 \<and> heads_of fs os \<and> b = hdr @ t @ laid_out fs os @ rest \<and>
       (if pl = [] then rest \<in> {[], [0xFF]} \<or> length os = 16 else rest = 0xFF # pl)"
    using len fs(1) b r by blast
  have "\<exists>u v. b = u @ t @ v \<and> length u = 4" using b len by blast
  then show ?thesis
    unfolding P using v(1) t(1,2) fs(3) sum opt pay lay by blast
qed

theorem coap_parse_inside_witness:
  "4 + length (token get_packet) + (\<Sum>x\<leftarrow>opts get_packet. 1 + length (buf x)) \<le> length (packet_bytes get_packet)"
proof -
  have "packet_wf get_packet" by (simp add: coap_example)
  then have "coap_parse_raw_data get_packet (packet_bytes get_packet) =
      Inr (get_packet\<lparr>header := header get_packet, token := token get_packet, opts := opts get_packet, payload := body_bytes get_packet\<rparr>)"
    using parse_packet_bytes by blast
  from coap_parse_inside[OF this] show ?thesis by simp
qed

section \<open>Generating behind the end of the buffer\<close>

text \<open>
  Without a payload the room in the buffer is compared with the header and the token only: the
  generator reports success and stores all options, however small the rest of the buffer is.
\<close>

theorem coap_generate_ignores_room:
  assumes "packet_wf p" "body_bytes p = []" "4 + length (token p) \<le> buflen"
  shows "fst (coap_generate_packet buflen p) = COAP_ERR_SUCCESS \<and>
    length (snd (coap_generate_packet buflen p)) = 4 + length (token p) + length (options_bytes 0 (opts p))"
  using generate_packet_bytes[OF assms(1,3)] assms(2) by (simp add: packet_bytes_def header_bytes_def)

theorem coap_generate_ignores_room_witness:
  "fst (coap_generate_packet 6 get_packet) = COAP_ERR_SUCCESS \<and> length (snd (coap_generate_packet 6 get_packet)) = 11"
proof -
  have "packet_wf get_packet" "body_bytes get_packet = []" "4 + length (token get_packet) \<le> 6" by (simp_all add: coap_example)
  moreover have "length (options_bytes 0 (opts get_packet)) = 5" "length (token get_packet) = 2" by (simp_all add: coap_example)
  ultimately show ?thesis using coap_generate_ignores_room[of get_packet 6] by simp
qed

end
