(* ===== verification/Coap_Block.thy ===== *)
theory Coap_Block
  imports Coap_Bits
begin

text \<open>
  Block-wise transfer: the block option that the codec writes and reads, and the blocks that a payload
  is cut into.
\<close>

section \<open>The block option\<close>

lemma nth_fill_bits:
  assumes "length arr = 8 * length bs" "i < 8 * length bs"
  shows "fill_bits bs arr ! i = of_bool (bit (uint (bs ! (i div 8))) (7 - i mod 8))"
proof -
  have "length (fold (\<lambda>j a. coap_set_in_bit_array a (j * 8) 8 (uint (bs ! j))) [0..<m] arr) = length arr \<and>
    (\<forall>i < 8 * m. fold (\<lambda>j a. coap_set_in_bit_array a (j * 8) 8 (uint (bs ! j))) [0..<m] arr ! i
        = of_bool (bit (uint (bs ! (i div 8))) (7 - i mod 8)))" if "m \<le> length bs" for m
    using that
  proof (induction m)
    case (Suc m)
    let ?f = "fold (\<lambda>j a. coap_set_in_bit_array a (j * 8) 8 (uint (bs ! j))) [0..<m] arr"
    have IH: "length ?f = length arr" "\<And>i. i < 8 * m \<Longrightarrow> ?f ! i = of_bool (bit (uint (bs ! (i div 8))) (7 - i mod 8))"
      using Suc by auto
    have n: "coap_set_in_bit_array ?f (m * 8) 8 (uint (bs ! m)) ! i =
        (if m * 8 \<le> i \<and> i < m * 8 + 8 then of_bool (bit (uint (bs ! m)) (m * 8 + 8 - 1 - i)) else ?f ! i)" for i
      using IH(1) Suc.prems assms(1) by (intro nth_set_in_bit_array) auto
    have "coap_set_in_bit_array ?f (m * 8) 8 (uint (bs ! m)) ! i = of_bool (bit (uint (bs ! (i div 8))) (7 - i mod 8))" if "i < 8 * Suc m" for i
    proof (cases "i < 8 * m")
      case True
      then show ?thesis unfolding n using IH(2) by simp
    next
      case False
      define r where "r = i - m * 8"
      have r: "i = m * 8 + r" "r < 8" using that False by (simp_all add: r_def)
      then show ?thesis unfolding n by simp
    qed
    then show ?case using IH(1) by simp
  qed simp
  from this[of "length bs"] assms show ?thesis by (simp add: fill_bits_def)
qed

text \<open>The array of a block option holds the bits of one number.\<close>

definition block_number :: "int \<Rightarrow> int \<Rightarrow> u8 \<Rightarrow> int" where
  "block_number n szx m = 16 * n + 8 * uint m + szx"

lemma block_number_bits:
  assumes "0 \<le> n" "0 \<le> szx" "szx < 8" "m < 2"
  shows "bit (block_number n szx m) (4 + j) = bit n j" "bit (block_number n szx m) 3 = bit (uint m) 0"
    "j < 3 \<Longrightarrow> bit (block_number n szx m) j = bit szx j"
proof -
  let ?v = "block_number n szx m"
  have m: "uint m < 2" "0 \<le> uint m" using assms(4) by (simp_all add: word_less_def)
  have v: "?v = 16 * n + (8 * uint m + szx)" "?v = 8 * (2 * n + uint m) + szx" by (simp_all add: block_number_def)
  have "?v div 16 = n" using m assms(2,3) by (intro int_div_pos_eq[OF v(1)]) linarith+
  moreover have "?v div 8 = 2 * n + uint m" "?v mod 8 = szx"
    by (rule int_div_pos_eq[OF v(2) assms(2,3)], rule int_mod_pos_eq[OF v(2) assms(2,3)])
  ultimately have d: "drop_bit 4 ?v = n" "drop_bit 3 ?v = 2 * n + uint m" "take_bit 3 ?v = take_bit 3 szx"
    using assms(2,3) by (simp_all add: drop_bit_eq_div take_bit_eq_mod)
  show "bit ?v (4 + j) = bit n j" using fun_cong[OF bit_drop_bit_eq[of 4 ?v], of j] unfolding d(1) comp_apply by (rule sym)
  show "bit ?v 3 = bit (uint m) 0" using fun_cong[OF bit_drop_bit_eq[of 3 ?v], of 0] unfolding d(2) comp_apply by (simp add: bit_0)
  show "bit ?v j = bit szx j" if "j < 3"
    using arg_cong[OF d(3), of "\<lambda>x. bit x j"] that unfolding bit_take_bit_iff by blast
qed

lemma block_bits_number:
  assumes "0 \<le> n" "0 \<le> szx" "szx < 8" "m < 2" "8 \<le> k" "i < k"
  shows "(block_bits n szx k m ! i \<noteq> 0) = bit (block_number n szx m) (k - 1 - i)"
proof -
  note b = block_number_bits[OF assms(1-4)]
  have e: "block_bits n szx k m ! i =
      (if k - 3 \<le> i \<and> i < k - 3 + 3 then of_bool (bit szx (k - 3 + 3 - 1 - i))
       else if k - 4 \<le> i \<and> i < k - 4 + 1 then of_bool (bit (uint m) (k - 4 + 1 - 1 - i))
       else if 0 \<le> i \<and> i < 0 + (k - 4) then of_bool (bit n (0 + (k - 4) - 1 - i)) else replicate k 0 ! i)"
    using assms(1,2,5) unfolding block_bits_def by (simp add: nth_set_in_bit_array)
  consider "i < k - 4" | "i = k - 4" | "k - 3 \<le> i" by linarith
  then show ?thesis
  proof cases
    case 1
    then have k: "k - 1 - i = 4 + (k - 5 - i)" using assms(5) by simp
    have v: "block_bits n szx k m ! i = of_bool (bit n (k - 5 - i))" unfolding e using 1 assms(5) by auto
    show ?thesis unfolding k b(1) v by simp
  next
    case 2
    then have k: "k - 1 - i = 3" using assms(5) by simp
    have v: "block_bits n szx k m ! i = of_bool (bit (uint m) 0)" unfolding e using 2 assms(5) by auto
    show ?thesis unfolding k b(2) v by simp
  next
    case 3
    then show ?thesis using assms(5,6) e b(3)[of "k - 1 - i"] by simp
  qed
qed

lemma store_bytes_all: "length d = pos + length bs \<Longrightarrow> store_bytes d pos bs = take pos d @ bs"
proof (induction d pos bs rule: store_bytes.induct)
  case (2 d pos x xs)
  then show ?case by (simp add: take_update_swap take_Suc_conv_app_nth list_update_append)
qed simp

text \<open>
  A block option that the codec writes is read back with its more flag and its size, and with its
  block number modulo 256: the number is cut to eight bits when it is read, so that from block 256 on the
  reader sees another block. The number has to fit into the bits of the option.
\<close>

theorem block_option_roundtrip:
  assumes "0 \<le> n" "n < 2 ^ (8 * k - 4)" "0 \<le> szx" "szx < 8" "m < 2" "0 < k" "alloc (8 * k)" "length data = k"
  shows "\<exists>bs. coap_set_block_payload alloc n szx k data 0 m = (k, bs) \<and> length bs = k \<and>
    coap_get_block_info alloc \<lparr>num = onum, buf = bs\<rparr> = Some (word_of_int (n mod 256), m, word_of_int szx)"
proof -
  let ?v = "block_number n szx m" and ?K = "8 * k"
  define bs where "bs = map (\<lambda>idx. coap_get_from_bit_array (block_bits n szx ?K m) (idx * 8) 8) [0..<k]"
  have K: "8 \<le> ?K" using assms(6) by simp
  note bits = block_bits_number[OF assms(1,3,4,5) K]
  have st: "coap_set_block_payload alloc n szx k data 0 m = (k, bs)" "length bs = k"
    using assms(7,8) store_bytes_all[of data 0 bs] unfolding bs_def by (simp_all add: coap_set_block_payload_def mult.commute)
  have byte: "uint (bs ! j) = take_bit 8 (drop_bit (?K - 8 * Suc j) ?v)" if "j < k" for j
  proof -
    have "coap_get_from_bit_array (block_bits n szx ?K m) (j * 8) 8 = word_of_int (take_bit 8 (drop_bit (?K - 8 * Suc j) ?v))"
    proof (rule get_from_bit_array_number)
      fix i :: nat assume i: "i < 8"
      have "?K - 1 - (j * 8 + i) = ?K - 8 * Suc j + (8 - 1 - i)" using that i by simp
      then show "(block_bits n szx ?K m ! (j * 8 + i) \<noteq> 0) = bit (drop_bit (?K - 8 * Suc j) ?v) (8 - 1 - i)"
        using bits[of "j * 8 + i"] that i fun_cong[OF bit_drop_bit_eq[of "?K - 8 * Suc j" ?v], of "8 - 1 - i"] by (simp add: comp_def add.commute)
    qed
    then show ?thesis using that by (simp add: bs_def uint_word_of_int take_bit_eq_mod)
  qed
  define arr where "arr = fill_bits bs (replicate ?K 0)"
  have arr: "(arr ! i \<noteq> 0) = bit ?v (?K - 1 - i)" if "i < ?K" for i
  proof -
    define q r where "q = i div 8" and "r = i mod 8"
    have qr: "i = 8 * q + r" "r < 8" by (simp_all add: q_def r_def)
    then have "q < k" using that by linarith
    then obtain d where d: "k = Suc (q + d)" using less_imp_Suc_add by blast
    have j: "i div 8 < k" "7 - i mod 8 < 8" and i: "?K - 1 - i = ?K - 8 * Suc (i div 8) + (7 - i mod 8)"
      unfolding q_def[symmetric] r_def[symmetric] d using qr by simp_all
    have "arr ! i = of_bool (bit (uint (bs ! (i div 8))) (7 - i mod 8))"
      using that st(2) unfolding arr_def by (intro nth_fill_bits) auto
    also have "bit (uint (bs ! (i div 8))) (7 - i mod 8) = bit ?v (?K - 1 - i)"
      unfolding byte[OF j(1)] i using j(2) fun_cong[OF bit_drop_bit_eq[of "?K - 8 * Suc (i div 8)" ?v], of "7 - i mod 8"]
      by (simp add: bit_take_bit_iff comp_def)
    finally show ?thesis by simp
  qed
  note b = block_number_bits[OF assms(1,3,4,5)]
  have "coap_get_from_bit_array arr 0 (?K - 4) = word_of_int (take_bit (?K - 4) n)"
  proof (rule get_from_bit_array_number)
    fix i assume i: "i < ?K - 4"
    have "?K - 1 - i = 4 + (?K - 4 - 1 - i)" using i by simp
    then show "(arr ! (0 + i) \<noteq> 0) = bit n (?K - 4 - 1 - i)" using arr[of i] b(1)[of "?K - 4 - 1 - i"] i by simp
  qed
  moreover have "take_bit (?K - 4) n = n" using assms(1,2) by (simp add: take_bit_int_eq_self)
  moreover have "coap_get_from_bit_array arr (?K - 4) 1 = word_of_int (take_bit 1 (uint m))"
    using arr[of "?K - 4"] b(2) K by (intro get_from_bit_array_number) simp
  moreover have "coap_get_from_bit_array arr (?K - 3) 3 = word_of_int (take_bit 3 szx)"
  proof (rule get_from_bit_array_number)
    fix i :: nat assume i: "i < 3"
    have "?K - 1 - (?K - 3 + i) = 3 - 1 - i" using i K by simp
    then show "(arr ! (?K - 3 + i) \<noteq> 0) = bit szx (3 - 1 - i)" using arr[of "?K - 3 + i"] b(3)[of "3 - 1 - i"] i K by simp
  qed
  moreover have "take_bit 3 szx = szx" using assms(3,4) by (simp add: take_bit_int_eq_self)
  moreover have "word_of_int (take_bit 1 (uint m)) = m"
    using assms(5) unfolding word_less_def by (simp add: take_bit_int_eq_self)
  moreover have "(ucast (word_of_int n :: u8) :: u32) = word_of_int (n mod 256)"
    by (simp add: unsigned_of_int take_bit_eq_mod)
  ultimately have "coap_get_block_info alloc \<lparr>num = onum, buf = bs\<rparr> = Some (word_of_int (n mod 256), m, word_of_int szx)"
    using st(2) assms(6,7) unfolding arr_def by (simp add: coap_get_block_info_def Let_def mult.commute)
  then show ?thesis using st by blast
qed

theorem block_option_roundtrip_witness:
  "\<exists>bs. coap_set_block_payload (\<lambda>_. True) 258 6 2 [0, 0] 0 1 = (2, bs) \<and>
     coap_get_block_info (\<lambda>_. True) \<lparr>num = 23, buf = bs\<rparr> = Some (2, 1, 6)"
  using block_option_roundtrip[of 258 2 6 1 "\<lambda>_. True" "[0, 0]" 23] by auto

text \<open>The computed length suffices up to block 270; from there on it is no length at all.\<close>

lemma block_opt_len_suffices:
  assumes "0 \<le> n" "n \<le> 270"
  shows "0 < coap_get_block_opt_len n \<and> n < 2 ^ (8 * nat (coap_get_block_opt_len n) - 4)"
  using assms by (auto simp: coap_get_block_opt_len_def)

lemma block_opt_len_grows: "coap_get_block_opt_len 524 = 257"
  by (simp add: coap_get_block_opt_len_def signed_modulo_int_def signed_divide_int_def)

section \<open>The blocks of a payload\<close>

definition block_bytes :: "(nat \<Rightarrow> bool) \<Rightarrow> coap_packet_t \<Rightarrow> nat \<Rightarrow> nat \<Rightarrow> u8 list" where
  "block_bytes alloc p szx k = payload_raw (fst (snd (coap_set_bytes_splitted_by_block alloc p (of_nat k) szx)))"

definition block_more :: "(nat \<Rightarrow> bool) \<Rightarrow> coap_packet_t \<Rightarrow> nat \<Rightarrow> nat \<Rightarrow> u8 option" where
  "block_more alloc p szx k = snd (snd (coap_set_bytes_splitted_by_block alloc p (of_nat k) szx))"

lemma unat_u32_of_nat: "n < 2 ^ 32 \<Longrightarrow> unat (of_nat n :: u32) = n"
  by (simp add: unsigned_of_nat take_bit_nat_eq_self)

lemma split_block:
  assumes raw: "payload_raw p = []" and alloc: "\<And>n. alloc n"
    and small: "length (payload p) + 2 ^ (szx + 4) < 2 ^ 32" and k: "k * 2 ^ (szx + 4) < length (payload p)"
  shows "block_bytes alloc p szx k = take (2 ^ (szx + 4)) (drop (k * 2 ^ (szx + 4)) (payload p))"
    and "block_more alloc p szx k = Some (of_bool (Suc k * 2 ^ (szx + 4) \<le> length (payload p)))"
proof -
  let ?B = "2 ^ (szx + 4) :: nat" and ?n = "length (payload p)"
  let ?s = "(of_nat k :: u32) * 2 ^ (szx + 4)" and ?N = "of_nat ?n :: u32" and ?b = "(2 :: u32) ^ (szx + 4)"
  have e: "?s = of_nat (k * ?B)" "?b = of_nat ?B" "?s + ?b = of_nat (k * ?B + ?B)" by (simp_all add: algebra_simps)
  have lt: "k * ?B < 2 ^ 32" "?n < 2 ^ 32" "?B < 2 ^ 32" "k * ?B + ?B < 2 ^ 32" using small k by linarith+
  have u: "unat ?s = k * ?B" "unat ?N = ?n" "unat ?b = ?B" "unat (?s + ?b) = k * ?B + ?B"
    using unat_u32_of_nat[OF lt(1), folded e(1)] unat_u32_of_nat[OF lt(2)] unat_u32_of_nat[OF lt(3), folded e(2)]
      unat_u32_of_nat[OF lt(4), folded e(3)] by (simp_all only:)
  have start: "\<not> ?s \<ge> ?N" using k u by (simp add: word_le_nat_alt)
  have sub: "unat (?N - ?s) = ?n - k * ?B" using u k by (simp add: unat_sub word_le_nat_alt)
  have cond: "?N < ?s + ?b \<longleftrightarrow> ?n < k * ?B + ?B" by (simp add: word_less_nat_alt u)
  define chunk where "chunk = take ?B (drop (k * ?B) (payload p))"
  have "chunk \<noteq> []" using k by (simp add: chunk_def)
  then have rw: "coap_set_rw_buffer alloc (payload_raw p) chunk = (int (length chunk), chunk)"
    using raw alloc by (simp add: coap_set_rw_buffer_def)
  have r: "coap_set_bytes_splitted_by_block alloc p (of_nat k) szx =
      (0, p\<lparr>payload_raw := chunk, copy_mode := 1\<rparr>, Some (of_bool (Suc k * ?B \<le> ?n)))"
  proof (cases "?n < k * ?B + ?B")
    case True
    then have tk: "take (unat (?N - ?s)) (drop (unat ?s) (payload p)) = chunk" using sub u(1) by (simp add: chunk_def)
    have "\<not> Suc k * ?B \<le> ?n" using True by simp
    then show ?thesis
      by (simp only: coap_set_bytes_splitted_by_block_def Let_def start cond True if_True if_False split_conv tk rw) simp
  next
    case False
    have tk: "take (unat ?b) (drop (unat ?s) (payload p)) = chunk" using u(1,3) by (simp add: chunk_def)
    have "Suc k * ?B \<le> ?n" using False by simp
    then show ?thesis
      by (simp only: coap_set_bytes_splitted_by_block_def Let_def start cond False if_True if_False split_conv tk rw) simp
  qed
  show "block_bytes alloc p szx k = take ?B (drop (k * ?B) (payload p))" unfolding block_bytes_def r chunk_def by simp
  show "block_more alloc p szx k = Some (of_bool (Suc k * ?B \<le> ?n))" unfolding block_more_def r by simp
qed

lemma concat_blocks: "concat (map (\<lambda>k. take b (drop (k * b) xs)) [0..<m]) = take (m * b) xs"
proof (induction m)
  case (Suc m)
  have "take (Suc m * b) xs = take (m * b) xs @ take b (drop (m * b) xs)"
    using take_add[of "m * b" b xs] by (simp only: mult_Suc add.commute)
  then show ?case using Suc by simp
qed simp

text \<open>
  C32. Cutting a payload into blocks and putting the blocks together gives the payload, when the packet has no raw payload yet, the memory for each block is granted and the payload
  and one more block are shorter than 4 GiB: every block but the last is as long as the size exponent says, the last one is not empty and has what
  is left. The more flag is set on exactly the blocks that are full, so on the last one too when the payload ends with it.
\<close>

theorem blocks_reassemble:
  assumes "payload_raw p = []" "\<And>n. alloc n" "length (payload p) + 2 ^ (szx + 4) < 2 ^ 32"
    and cnt: "cnt = (length (payload p) + 2 ^ (szx + 4) - 1) div 2 ^ (szx + 4)"
  shows "concat (map (block_bytes alloc p szx) [0..<cnt]) = payload p \<and>
    (\<forall>k. Suc k < cnt \<longrightarrow> length (block_bytes alloc p szx k) = 2 ^ (szx + 4)) \<and>
    (\<forall>k. Suc k = cnt \<longrightarrow> length (block_bytes alloc p szx k) = length (payload p) - k * 2 ^ (szx + 4) \<and>
       0 < length (block_bytes alloc p szx k) \<and> length (block_bytes alloc p szx k) \<le> 2 ^ (szx + 4)) \<and>
    (\<forall>k < cnt. block_more alloc p szx k = Some (of_bool (length (block_bytes alloc p szx k) = 2 ^ (szx + 4))))"
proof -
  let ?B = "2 ^ (szx + 4) :: nat" and ?n = "length (payload p)"
  have B: "?B > 0" by simp
  have "cnt * ?B + (?n + ?B - 1) mod ?B = ?n + ?B - 1" unfolding cnt by (rule div_mult_mod_eq)
  moreover have "(?n + ?B - 1) mod ?B < ?B" using B by (rule mod_less_divisor)
  ultimately have all: "?n \<le> cnt * ?B" and less: "cnt * ?B < ?n + ?B" by linarith+
  have k: "k * ?B < ?n" if "k < cnt" for k
  proof -
    have "Suc k * ?B \<le> cnt * ?B" using that by (intro mult_le_mono1) simp
    then show ?thesis using less by simp
  qed
  have bl: "block_bytes alloc p szx k = take ?B (drop (k * ?B) (payload p))" if "k < cnt" for k
    by (rule split_block(1)[OF assms(1-3) k[OF that]])
  have mo: "block_more alloc p szx k = Some (of_bool (Suc k * ?B \<le> ?n))" if "k < cnt" for k
    by (rule split_block(2)[OF assms(1-3) k[OF that]])
  have "map (block_bytes alloc p szx) [0..<cnt] = map (\<lambda>k. take ?B (drop (k * ?B) (payload p))) [0..<cnt]"
    using bl by simp
  then have c: "concat (map (block_bytes alloc p szx) [0..<cnt]) = payload p" using all by (simp only: concat_blocks) simp
  have full: "(length (block_bytes alloc p szx k) = ?B) = (Suc k * ?B \<le> ?n)" if "k < cnt" for k
    using bl[OF that] k[OF that] by auto
  have "length (block_bytes alloc p szx k) = ?B" if "Suc k < cnt" for k
    using bl[of k] k[OF that] that by simp
  moreover have "length (block_bytes alloc p szx k) = ?n - k * ?B \<and> 0 < length (block_bytes alloc p szx k) \<and>
      length (block_bytes alloc p szx k) \<le> ?B" if "Suc k = cnt" for k
    using bl[of k] k[of k] all that by (auto simp: algebra_simps)
  moreover have "block_more alloc p szx k = Some (of_bool (length (block_bytes alloc p szx k) = ?B))" if "k < cnt" for k
    unfolding mo[OF that] full[OF that] by (rule refl)
  ultimately show ?thesis using c by blast
qed

theorem blocks_reassemble_witness:
  "concat (map (block_bytes (\<lambda>_. True)
     \<lparr>header = zero_header, token = [], opts = [], payload = replicate 40 7, payload_raw = [], copy_mode = 0\<rparr> 0) [0..<3]) = replicate 40 7"
  using blocks_reassemble[of "\<lparr>header = zero_header, token = [], opts = [], payload = replicate 40 7, payload_raw = [], copy_mode = 0\<rparr>"
      "\<lambda>_. True" 0 3] by simp

end
