(* ===== verification/Coap_Copy.thy ===== *)
theory Coap_Copy
  imports Coap_Utils
begin

text \<open>
  Packets that own their bytes, and the search for options: a destination packet stays well-formed under copying
  and clearing, a copy has the fields of its source, and the search finds every option with a number
  when the options are sorted, as they are in every packet that can be generated.
\<close>

section \<open>Copies\<close>

text \<open>
  A packet that owns its bytes is well-formed when its array has room for \<open>MAXOPT\<close> options and every entry behind
  the valid ones is empty.
\<close>

definition rw_wf :: "coap_rw_packet_t \<Rightarrow> bool" where
  "rw_wf p \<longleftrightarrow> length (rw_opts p) = MAXOPT \<and> rw_numopts p \<le> MAXOPT \<and> (\<forall>x \<in> set (drop (rw_numopts p) (rw_opts p)). buf x = [])"

lemma length_clear_opts [simp]: "length (clear_opts n os) = length os"
  by (simp add: clear_opts_def)

lemma clear_opts_empty:
  "\<forall>x \<in> set (drop n os). buf x = [] \<Longrightarrow> \<forall>x \<in> set (clear_opts n os). buf x = []"
  by (auto simp: clear_opts_def coap_free_rw_buffer_def)

lemma length_copy_opts: "length src \<le> length dst \<Longrightarrow> length (copy_opts alloc src dst) = length dst"
  by (simp add: copy_opts_def)

lemma drop_copy_opts: "length src \<le> length dst \<Longrightarrow> drop (length src) (copy_opts alloc src dst) = drop (length src) dst"
  by (simp add: copy_opts_def)

lemma take_copy_opts:
  assumes "length src \<le> length dst" "\<forall>y \<in> set dst. buf y = []" "\<And>k n. alloc k n"
  shows "map num (take (length src) (copy_opts alloc src dst)) = map num src"
    and "map buf (take (length src) (copy_opts alloc src dst)) = map buf src"
proof -
  have t: "take (length src) (copy_opts alloc src dst)
      = map (\<lambda>(k, x, y). y\<lparr>num := num x, buf := snd (coap_set_rw_buffer (alloc (Suc k)) (buf y) (buf x))\<rparr>)
          (zip [0..<length src] (zip src dst))"
    using assms(1) by (simp add: copy_opts_def)
  show "map num (take (length src) (copy_opts alloc src dst)) = map num src"
    unfolding t using assms(1) by (intro nth_equalityI) auto
  show "map buf (take (length src) (copy_opts alloc src dst)) = map buf src"
    unfolding t using assms by (intro nth_equalityI) (auto simp: coap_set_rw_buffer_def)
qed

lemma free_if: "(if t \<noteq> [] then coap_free_rw_buffer t else t) = []"
  by (simp add: coap_free_rw_buffer_def)

text \<open>
  C37. Copying a packet of at most sixteen options into a well-formed destination and clearing the
  destination both leave it well-formed, whichever allocations fail; when none fails, the copy has the header, token, options
  and payload of the source, and after clearing nothing is left.
\<close>

theorem coap_copy_wf:
  assumes "rw_wf dst" "length (opts src) \<le> MAXOPT"
  shows "rw_wf (coap_copy_rw_packet alloc dst src) \<and> rw_wf (coap_clear_rw_packet dst)
    \<and> rw_numopts (coap_clear_rw_packet dst) = 0 \<and> rw_token (coap_clear_rw_packet dst) = [] \<and> rw_payload (coap_clear_rw_packet dst) = []
    \<and> (let r = coap_copy_rw_packet (\<lambda>k n. True) dst src in
        rw_header r = header src \<and> rw_token r = token src \<and> rw_payload r = payload src
        \<and> map num (take (rw_numopts r) (rw_opts r)) = map num (opts src) \<and> map buf (take (rw_numopts r) (rw_opts r)) = map buf (opts src))"
proof (intro conjI)
  define c where "c = clear_opts (rw_numopts dst) (rw_opts dst)"
  have c: "length c = MAXOPT" "\<forall>x \<in> set c. buf x = []"
    using assms(1) clear_opts_empty[of "rw_numopts dst" "rw_opts dst"] by (simp_all add: c_def rw_wf_def)
  have l: "length (opts src) \<le> length c" using c assms(2) by simp
  show "rw_wf (coap_copy_rw_packet alloc dst src)"
    using c assms(2) by (auto simp: rw_wf_def coap_copy_rw_packet_def c_def[symmetric] length_copy_opts[OF l] drop_copy_opts[OF l] dest: in_set_dropD)
  show "rw_wf (coap_clear_rw_packet dst)" using assms(1) by (auto simp: rw_wf_def coap_clear_rw_packet_def drop_map)
  show "let r = coap_copy_rw_packet (\<lambda>k n. True) dst src in
        rw_header r = header src \<and> rw_token r = token src \<and> rw_payload r = payload src
        \<and> map num (take (rw_numopts r) (rw_opts r)) = map num (opts src) \<and> map buf (take (rw_numopts r) (rw_opts r)) = map buf (opts src)"
    using take_copy_opts[OF l c(2), of "\<lambda>k n. True"]
    by (simp add: coap_copy_rw_packet_def free_if coap_set_rw_buffer_def Let_def c_def[symmetric])
qed (simp_all add: coap_clear_rw_packet_def)

definition empty_rw :: coap_rw_packet_t where
  "empty_rw = coap_clear_rw_packet \<lparr>rw_header = zero_header, rw_token = [], rw_numopts = 0,
     rw_opts = replicate MAXOPT \<lparr>num = 0, buf = []\<rparr>, rw_payload = []\<rparr>"

theorem coap_copy_wf_witness:
  "rw_wf (coap_copy_rw_packet (\<lambda>k n. n > 2) empty_rw
     \<lparr>header = zero_header, token = [1], opts = [\<lparr>num = 11, buf = [104, 105]\<rparr>], payload = [7], payload_raw = [], copy_mode = 0\<rparr>)"
  using coap_copy_wf[of empty_rw "\<lparr>header = zero_header, token = [1], opts = [\<lparr>num = 11, buf = [104, 105]\<rparr>], payload = [7],
     payload_raw = [], copy_mode = 0\<rparr>" "\<lambda>k n. n > 2"]
  by (simp add: rw_wf_def empty_rw_def coap_clear_rw_packet_def MAXOPT_def)

section \<open>Search\<close>

lemma search_run_found:
  "search_run xs idx n (Some k) c = (Some k, c + of_nat (length (takeWhile (\<lambda>x. num x = n) xs)))"
  by (induction xs arbitrary: idx c) auto

lemma search_run_first:
  "search_run xs idx n None c =
     (let ys = dropWhile (\<lambda>x. num x \<noteq> n) xs in
      if ys = [] then (None, c)
      else (Some (idx + (length xs - length ys)), c + of_nat (length (takeWhile (\<lambda>x. num x = n) ys))))"
proof (induction xs arbitrary: idx c)
  case (Cons x xs)
  have "length (dropWhile (\<lambda>x. num x \<noteq> n) xs) \<le> length xs" by (rule length_dropWhile_le)
  with Cons show ?case by (auto simp: Let_def search_run_found Suc_diff_le)
qed simp

lemma sorted_run:
  assumes "sorted (map num xs)"
  shows "takeWhile (\<lambda>x. num x = n) (dropWhile (\<lambda>x. num x \<noteq> n) xs) = filter (\<lambda>x. num x = n) xs"
  using assms
proof (induction xs)
  case (Cons x xs)
  show ?case
  proof (cases "num x = n")
    case False
    with Cons show ?thesis by simp
  next
    case True
    have "takeWhile (\<lambda>x. num x = n) xs = filter (\<lambda>x. num x = n) xs" using Cons.prems True
    proof (induction xs)
      case (Cons y ys)
      show ?case
      proof (cases "num y = n")
        case False
        with Cons.prems have "\<forall>z \<in> set (y # ys). num z \<noteq> n" by auto
        then show ?thesis using False by (auto simp: filter_empty_conv)
      qed (use Cons in auto)
    qed simp
    with True show ?thesis by simp
  qed
qed simp

text \<open>
  In a packet whose options are sorted by number the search returns the position and the count of exactly the options
  with the number asked for, and nothing when there is none.
\<close>

theorem coap_search_finds_all:
  assumes "sorted (map num (opts p))" "length (opts p) \<le> MAXOPT"
  shows "case coap_search_options p n of
      (None, c) \<Rightarrow> c = 0 \<and> n \<notin> num ` set (opts p)
    | (Some k, c) \<Rightarrow> 0 < c \<and> take (unat c) (drop k (opts p)) = filter (\<lambda>x. num x = n) (opts p) \<and> k + unat c \<le> length (opts p)"
proof -
  define ys where "ys = dropWhile (\<lambda>x. num x \<noteq> n) (opts p)"
  define r where "r = takeWhile (\<lambda>x. num x = n) ys"
  have s: "coap_search_options p n = (if ys = [] then (None, 0) else (Some (length (opts p) - length ys), of_nat (length r)))"
    by (simp add: coap_search_options_def search_run_first Let_def ys_def r_def)
  have len: "length r \<le> length ys" "length ys \<le> length (opts p)"
    unfolding r_def ys_def by (rule length_takeWhile_le, rule length_dropWhile_le)
  have u: "unat (of_nat (length r) :: u8) = length r"
    using len assms(2) by (simp add: unsigned_of_nat take_bit_nat_eq_self MAXOPT_def)
  have d: "drop (length (opts p) - length ys) (opts p) = ys"
    unfolding ys_def by (metis dropWhile_eq_drop length_drop diff_diff_cancel length_takeWhile_le)
  have t: "take (length r) ys = r" unfolding r_def by (metis takeWhile_eq_take)
  have f: "r = filter (\<lambda>x. num x = n) (opts p)" unfolding r_def ys_def by (rule sorted_run[OF assms(1)])
  show ?thesis
  proof (cases "ys = []")
    case True
    then have "\<forall>x \<in> set (opts p). num x \<noteq> n" unfolding ys_def by (simp add: dropWhile_eq_Nil_conv)
    then show ?thesis using True by (auto simp: s)
  next
    case False
    then have "num (hd ys) = n" unfolding ys_def using hd_dropWhile by blast
    then have "r \<noteq> []" using False unfolding r_def by (cases ys) auto
    then have "(of_nat (length r) :: u8) \<noteq> 0" using u by auto
    then show ?thesis using False len by (simp add: s u d t f[symmetric] word_gt_0)
  qed
qed

theorem coap_search_finds_all_witness:
  "coap_search_options \<lparr>header = zero_header, token = [], opts = [\<lparr>num = 3, buf = []\<rparr>, \<lparr>num = 11, buf = [1]\<rparr>, \<lparr>num = 11, buf = [2]\<rparr>],
     payload = [], payload_raw = [], copy_mode = 0\<rparr> 11 = (Some 1, 2)"
  using coap_search_finds_all[of "\<lparr>header = zero_header, token = [], opts = [\<lparr>num = 3, buf = []\<rparr>, \<lparr>num = 11, buf = [1]\<rparr>, \<lparr>num = 11, buf = [2]\<rparr>],
     payload = [], payload_raw = [], copy_mode = 0\<rparr>" 11]
  by (simp add: MAXOPT_def coap_search_options_def)

end
