(* ===== verification/Ip_Utils.thy ===== *)
theory Ip_Utils
  imports Util_Api
begin

text \<open>
  Internet addresses of \<^verbatim>\<open>src/core/system/src/common/common_utils.c\<close>: powers, addresses as strings and as
  32-bit numbers, the checks of addresses and masks, the range of a subnet, and numbers
  printed in any radix. The C type \<^verbatim>\<open>long\<close> has 32 bits and is a word, read as a signed number where it is compared. A
  string argument is the list of its characters without the terminating zero; \<open>None\<close> is behaviour that C
  leaves undefined (a part of sixteen characters or more overruns the buffer of \<^verbatim>\<open>iptolong\<close>, a fifth part
  shifts by a negative amount, a number outside the range of \<^verbatim>\<open>int\<close>).
\<close>

section \<open>Powers\<close>

text \<open>The loop of \<^verbatim>\<open>pow_long\<close> in its round \<open>j\<close>, in which \<^verbatim>\<open>bit\<close> is the power \<open>2 ^ j\<close>.\<close>

function pow_loop :: "u32 \<Rightarrow> u32 \<Rightarrow> nat \<Rightarrow> int \<Rightarrow> u32" where
  "pow_loop result x j order =
     (if 2 ^ j \<le> order then pow_loop (if bit order j then result * x else result) (x * x) (j + 1) order else result)"
  by pat_completeness auto
termination
proof (relation "measure (\<lambda>(_, _, j, order). nat order - j)")
  fix result x :: u32 and j :: nat and order :: int
  assume "2 ^ j \<le> order"
  moreover have "int j < 2 ^ j" using less_exp[of j] by (metis of_nat_less_iff of_nat_numeral of_nat_power)
  ultimately have "j < nat order" by linarith
  then show "((if bit order j then result * x else result, x * x, j + 1, order), result, x, j, order)
      \<in> measure (\<lambda>(_, _, j, order). nat order - j)" by simp
qed simp

declare pow_loop.simps [simp del]

definition pow_long :: "u32 \<Rightarrow> int \<Rightarrow> u32" where
  "pow_long x order = pow_loop 1 x 0 order"

definition calcbits :: "u32 \<Rightarrow> nat" where
  "calcbits m = length (filter (\<lambda>b. m AND pow_long 2 (int b) \<noteq> 0) [0..<32])"

section \<open>Addresses as strings\<close>

definition octet :: "nat \<Rightarrow> u32 \<Rightarrow> nat" where
  "octet k ip = unat (drop_bit k ip AND 0xFF)"

definition longtoip :: "u32 \<Rightarrow> string" where
  "longtoip ip = show_nat (octet 24 ip) @ ''.'' @ show_nat (octet 16 ip) @ ''.'' @ show_nat (octet 8 ip) @ ''.'' @ show_nat (octet 0 ip)"

text \<open>The library function \<^verbatim>\<open>atoi\<close>: white space, a sign, and the digits up to the first other character.\<close>

definition is_space :: "char \<Rightarrow> bool" where
  "is_space c \<longleftrightarrow> c = CHR '' '' \<or> (9 \<le> (of_char c :: nat) \<and> of_char c \<le> (13 :: nat))"

definition digits_value :: "string \<Rightarrow> int" where
  "digits_value s = foldl (\<lambda>r c. r * 10 + digit_val c) 0 (takeWhile is_digit s)"

definition atoi :: "string \<Rightarrow> int" where
  "atoi s =
     (case dropWhile is_space s of
        [] \<Rightarrow> 0
      | c # cs \<Rightarrow> if c = CHR ''-'' then - digits_value cs else if c = CHR ''+'' then digits_value cs else digits_value (c # cs))"

definition fits_int :: "int \<Rightarrow> bool" where
  "fits_int v \<longleftrightarrow> - (2 ^ 31) \<le> v \<and> v < 2 ^ 31"

text \<open>The loop of \<^verbatim>\<open>iptolong\<close> on the rest of the string; \<open>bcnt\<close> is the shift of the previous part.\<close>

function ip_loop :: "string \<Rightarrow> nat \<Rightarrow> u32 \<Rightarrow> u32 option" where
  "ip_loop s bcnt ipa =
     (if s = [] then Some ipa
      else (let tmp = takeWhile (\<lambda>c. c \<noteq> CHR ''.'') s;
                byte = atoi tmp
            in if length tmp \<ge> 16 \<or> bcnt < 8 \<or> \<not> fits_int byte then None
               else ip_loop (drop (length tmp + 1) s) (bcnt - 8) (ipa + push_bit (bcnt - 8) (word_of_int byte))))"
  by pat_completeness auto
termination by (relation "measure (\<lambda>(s, _). length s)") auto

declare ip_loop.simps [simp del]

definition iptolong :: "string \<Rightarrow> u32 option" where
  "iptolong ip = ip_loop ip 32 0"

fun skip_parts :: "nat \<Rightarrow> string \<Rightarrow> string" where
  "skip_parts 0 s = s"
| "skip_parts (Suc n) s = skip_parts n (drop 1 (dropWhile (\<lambda>c. c \<noteq> CHR ''.'') s))"

definition getipdigit :: "u32 \<Rightarrow> int \<Rightarrow> int" where
  "getipdigit ipaddress digit =
     (if digit > 4 \<or> digit < 1 then 0
      else atoi (takeWhile (\<lambda>c. c \<noteq> CHR ''.'') (skip_parts (nat (digit - 1)) (longtoip ipaddress))))"

section \<open>Checks\<close>

text \<open>
  The loop of \<^verbatim>\<open>isvalidip\<close> over the string and its terminating zero, which is \<open>None\<close>; the digits of the
  current part and the number of parts.
\<close>

fun valid_loop :: "char option list \<Rightarrow> string \<Rightarrow> nat \<Rightarrow> bool" where
  "valid_loop [] ipdig pcnt = True"
| "valid_loop (c # cs) ipdig pcnt =
     (if (case c of Some d \<Rightarrow> is_digit d | None \<Rightarrow> False)
      then (if length ipdig + 1 > 3 then False else valid_loop cs (ipdig @ [the c]) pcnt)
      else if ipdig = [] then False
      else if c \<noteq> Some CHR ''.'' \<and> c \<noteq> None then False
      else if atoi ipdig > 255 \<or> atoi ipdig < 0 then False
      else if pcnt + 1 > 4 then False
      else valid_loop cs [] (pcnt + 1))"

definition isvalidip :: "string \<Rightarrow> bool option" where
  "isvalidip theip =
     (if length theip < 7 then Some False
      else if \<not> valid_loop (map Some theip @ [None]) [] 0 then Some False
      else (case iptolong theip of
              None \<Rightarrow> None
            | Some newip \<Rightarrow> Some (\<not> (newip = 0 \<or> newip = -1 \<or> getipdigit newip 1 = 0))))"

text \<open>The classes are macros of the network library.\<close>

definition IP_CLASSA :: "u32 \<Rightarrow> bool" where "IP_CLASSA a \<longleftrightarrow> a AND 0x80000000 = 0"
definition IP_CLASSB :: "u32 \<Rightarrow> bool" where "IP_CLASSB a \<longleftrightarrow> a AND 0xC0000000 = 0x80000000"
definition IP_CLASSC :: "u32 \<Rightarrow> bool" where "IP_CLASSC a \<longleftrightarrow> a AND 0xE0000000 = 0xC0000000"

definition is_in_valid_ip_class :: "string \<Rightarrow> bool option" where
  "is_in_valid_ip_class theip =
     (case isvalidip theip of
        Some True \<Rightarrow> (case iptolong theip of
            None \<Rightarrow> None | Some a \<Rightarrow> Some (IP_CLASSA a \<or> IP_CLASSB a \<or> IP_CLASSC a))
      | r \<Rightarrow> r)"

text \<open>The two loops over the bits of a mask from \<open>b\<close> down; the result is the last index.\<close>

function ones_loop :: "u32 \<Rightarrow> int \<Rightarrow> int" where
  "ones_loop m b = (if m AND pow_long 2 b \<noteq> 0 \<and> b \<ge> 0 then ones_loop m (b - 1) else b)"
  by pat_completeness auto
termination by (relation "measure (\<lambda>(_, b). nat (b + 1))") auto

function zeros_loop :: "u32 \<Rightarrow> int \<Rightarrow> int" where
  "zeros_loop m b = (if m AND pow_long 2 b = 0 \<and> b \<ge> 0 then zeros_loop m (b - 1) else b)"
  by pat_completeness auto
termination by (relation "measure (\<lambda>(_, b). nat (b + 1))") auto

declare ones_loop.simps [simp del] zeros_loop.simps [simp del]

definition mask_ok :: "u32 \<Rightarrow> bool" where
  "mask_ok m = (if m = 0 \<or> m = -1 then False
      else if calcbits m > 32 - 2 then False
      else zeros_loop m (ones_loop m 31) = -1)"

definition isvalidmask :: "string \<Rightarrow> bool option" where
  "isvalidmask theip = map_option mask_ok (iptolong theip)"

section \<open>Subnets\<close>

definition subnetBCIP :: "u32 \<Rightarrow> u32 \<Rightarrow> u32" where
  "subnetBCIP ip subnet = ip OR (subnet XOR 0xFFFFFFFF)"

definition subnetRangeFirstIP :: "u32 \<Rightarrow> u32 \<Rightarrow> u32" where
  "subnetRangeFirstIP ip subnet = (ip AND subnet) + 1"

definition subnetRangeLastIP :: "u32 \<Rightarrow> u32 \<Rightarrow> u32" where
  "subnetRangeLastIP ip subnet = subnetBCIP ip subnet - 1"

definition isvalidIPrange :: "u32 \<Rightarrow> u32 \<Rightarrow> u32 \<Rightarrow> bool" where
  "isvalidIPrange ip firstIP lastIP \<longleftrightarrow> firstIP \<le>s ip \<and> ip \<le>s lastIP"

definition isvalidIPsubnetRange :: "u32 \<Rightarrow> u32 \<Rightarrow> u32 \<Rightarrow> bool" where
  "isvalidIPsubnetRange ip subnetip subnet \<longleftrightarrow>
     subnetRangeFirstIP subnetip subnet \<le>s ip \<and> ip \<le>s subnetRangeLastIP subnetip subnet"

definition isvalid_domain :: "string \<Rightarrow> int option" where
  "isvalid_domain str =
     (let cnt = (of_nat (length (filter (\<lambda>c. c = CHR ''.'') str)) :: u8) in
      map_option (\<lambda>v. if v \<and> cnt = 3 then 2 else if cnt > 0 then 1 else 0) (is_in_valid_ip_class str))"

section \<open>Numbers in any radix\<close>

definition xlat :: string where "xlat = ''0123456789abcdefghijklmnopqrstuvwxyz''"

text \<open>The digits from the last one on, as they are collected.\<close>

function ulltoa_loop :: "u64 \<Rightarrow> nat \<Rightarrow> string" where
  "ulltoa_loop v radix =
     xlat ! (unat v mod radix) # (if 2 \<le> radix \<and> unat v div radix \<noteq> 0 then ulltoa_loop (of_nat (unat v div radix)) radix else [])"
  by pat_completeness auto
termination
proof (relation "measure (\<lambda>(v, _). unat v)")
  fix v :: u64 and radix :: nat
  assume *: "2 \<le> radix \<and> unat v div radix \<noteq> 0"
  have "unat (of_nat (unat v div radix) :: u64) \<le> unat v div radix" by (simp only: unsigned_of_nat take_bit_eq_mod mod_less_eq_dividend of_nat_id)
  also have "unat v div radix < unat v"
  proof (rule div_less_dividend)
    show "1 < radix" using * by linarith
    show "0 < unat v" using * by (rule_tac ccontr) simp
  qed
  finally show "((of_nat (unat v div radix), radix), v, radix) \<in> measure (\<lambda>(v, _). unat v)" by simp
qed simp

declare ulltoa_loop.simps [simp del]

text \<open>\<open>None\<close> leaves the buffer as it is.\<close>

definition ulltoa :: "u64 \<Rightarrow> int \<Rightarrow> string option" where
  "ulltoa v radix = (if radix < 2 \<or> radix > 36 then None else Some (rev (ulltoa_loop v (nat radix))))"

definition lltoa :: "u64 \<Rightarrow> int \<Rightarrow> string option" where
  "lltoa v radix =
     (if radix = 10 \<and> sint v < 0 then map_option (\<lambda>s. CHR ''-'' # s) (ulltoa (- v) radix) else ulltoa v radix)"

end
