(* ===== verification/Ip_Props.thy ===== *)
theory Ip_Props
  imports Ip_Utils
begin

text \<open>
  What the address functions compute: an address printed by \<^verbatim>\<open>longtoip\<close> is read back by \<^verbatim>\<open>iptolong\<close>, part by part
  and as a whole; the checks decide what they are named after; the subnet test is the membership
  in the network; the number printers agree with the decimal notation.
\<close>

section \<open>Powers and masks\<close>

lemma pow_loop_eq: "0 \<le> order \<Longrightarrow> pow_loop r x j order = r * x ^ nat (order div 2 ^ j)"
proof (induction r x j order rule: pow_loop.induct)
  case (1 r x j n)
  show ?case
  proof (cases "2 ^ j \<le> n")
    case False
    with 1(2) have "n div 2 ^ j = 0" by (simp add: div_pos_pos_trivial)
    with False show ?thesis by (simp add: pow_loop.simps[of r x j n])
  next
    case True
    define q where "q = n div 2 ^ j"
    have q: "0 \<le> q" using 1(2) by (simp add: q_def pos_imp_zdiv_nonneg_iff)
    have "n div 2 ^ (j + 1) = q div 2" unfolding q_def by (simp only: power_add power_one_right zdiv_zmult2_eq zero_le_numeral)
    moreover have "bit n j \<longleftrightarrow> odd q" by (simp add: q_def bit_iff_odd)
    moreover have "x ^ nat q = (if odd q then x else 1) * (x * x) ^ nat (q div 2)"
    proof -
      have e: "(x * x) ^ nat (q div 2) = x ^ (2 * nat (q div 2))" by (simp add: power_mult power2_eq_square)
      have h: "nat (q div 2) = nat q div 2" "odd q \<longleftrightarrow> odd (nat q)" using q by (simp_all add: nat_div_distrib even_nat_iff)
      show ?thesis
      proof (cases "odd q")
        case True
        then have "nat q = Suc (2 * nat (q div 2))" using h by (metis odd_two_times_div_two_succ Suc_eq_plus1)
        with e True show ?thesis by simp
      next
        case False
        then have "nat q = 2 * nat (q div 2)" using h by (metis even_two_times_div_two)
        with e False show ?thesis by simp
      qed
    qed
    ultimately show ?thesis using 1(1)[OF True 1(2)] True
      by (simp add: pow_loop.simps[of r x j n] q_def[symmetric] mult.assoc)
  qed
qed

lemma pow_long_eq: "0 \<le> order \<Longrightarrow> pow_long x order = x ^ nat order"
  by (simp add: pow_long_def pow_loop_eq)

lemma and_pow_long: "0 \<le> b \<Longrightarrow> (m AND pow_long 2 b = 0) \<longleftrightarrow> \<not> (b < 32 \<and> bit m (nat b))"
proof -
  assume b: "0 \<le> b"
  have "pow_long 2 b = bit32 (nat b)" using b by (simp add: pow_long_eq bit32_def push_bit_eq_mult)
  with b show ?thesis by (auto simp: mask_simps nat_less_iff)
qed

lemma calcbits_card: "calcbits m = card {b. b < 32 \<and> bit m b}"
proof -
  have "calcbits m = length (filter (bit m) [0..<32])"
    unfolding calcbits_def by (rule arg_cong[where f = length]) (rule filter_cong, auto simp: and_pow_long)
  also have "\<dots> = card (set (filter (bit m) [0..<32]))" by (rule distinct_card[symmetric]) simp
  also have "set (filter (bit m) [0..<32]) = {b. b < 32 \<and> bit m b}" by auto
  finally show ?thesis .
qed

lemma ones_loop_run:
  "-1 \<le> b \<Longrightarrow> b < 32 \<Longrightarrow> -1 \<le> ones_loop m b \<and> ones_loop m b \<le> b
     \<and> (\<forall>i. ones_loop m b < int i \<and> int i \<le> b \<longrightarrow> bit m i) \<and> (ones_loop m b \<ge> 0 \<longrightarrow> \<not> bit m (nat (ones_loop m b)))"
proof (induction m b rule: ones_loop.induct)
  case (1 m b)
  show ?case
  proof (cases "m AND pow_long 2 b \<noteq> 0 \<and> b \<ge> 0")
    case False
    then have "ones_loop m b = b" by (auto simp: ones_loop.simps[of m b])
    with False 1(2,3) show ?thesis by (auto simp: and_pow_long)
  next
    case True
    then have e: "ones_loop m b = ones_loop m (b - 1)" by (simp add: ones_loop.simps[of m b])
    from True have bt: "bit m (nat b)" by (auto simp: and_pow_long)
    have "-1 \<le> b - 1" "b - 1 < 32" using True 1(3) by auto
    note IH = 1(1)[OF True this]
    have "bit m i" if "ones_loop m (b - 1) < int i" "int i \<le> b" for i
      using IH that bt by (cases "int i = b") auto
    with IH show ?thesis unfolding e by auto
  qed
qed

lemma zeros_loop_run: "-1 \<le> b \<Longrightarrow> b < 32 \<Longrightarrow> zeros_loop m b = -1 \<longleftrightarrow> (\<forall>i. int i \<le> b \<longrightarrow> \<not> bit m i)"
proof (induction m b rule: zeros_loop.induct)
  case (1 m b)
  show ?case
  proof (cases "m AND pow_long 2 b = 0 \<and> b \<ge> 0")
    case False
    then have "zeros_loop m b = b" by (auto simp: zeros_loop.simps[of m b])
    with False 1(2,3) show ?thesis by (cases "b = -1") (auto simp: and_pow_long intro!: exI[of _ "nat b"])
  next
    case True
    then have e: "zeros_loop m b = zeros_loop m (b - 1)" by (simp add: zeros_loop.simps[of m b])
    from True 1(3) have bt: "\<not> bit m (nat b)" by (auto simp: and_pow_long)
    have "-1 \<le> b - 1" "b - 1 < 32" using True 1(3) by auto
    note IH = 1(1)[OF True this]
    have "(\<forall>i. int i \<le> b \<longrightarrow> \<not> bit m i) \<longleftrightarrow> (\<forall>i. int i \<le> b - 1 \<longrightarrow> \<not> bit m i)"
      using bt by (metis le_less nat_int zle_diff1_eq)
    with IH show ?thesis unfolding e by simp
  qed
qed

text \<open>The mask of a prefix of \<open>n\<close> bits.\<close>

abbreviation prefix_mask :: "nat \<Rightarrow> u32" where
  "prefix_mask n \<equiv> NOT (mask (32 - n))"

lemma bit_prefix_mask: "n \<le> 32 \<Longrightarrow> bit (prefix_mask n) i \<longleftrightarrow> 32 - n \<le> i \<and> i < 32"
  by (auto simp: bit_simps)

lemma calcbits_prefix: "n \<le> 32 \<Longrightarrow> calcbits (prefix_mask n) = n"
proof -
  assume n: "n \<le> 32"
  have "{b. b < 32 \<and> bit (prefix_mask n) b} = {32 - n..<32}" using n by (auto simp: bit_prefix_mask)
  with n show ?thesis by (simp add: calcbits_card)
qed

lemma loops_prefix:
  "zeros_loop m (ones_loop m 31) = -1 \<longleftrightarrow> (\<exists>n \<le> 32. m = prefix_mask n)"
proof
  have o: "-1 \<le> ones_loop m 31" "ones_loop m 31 \<le> 31" "\<And>i. ones_loop m 31 < int i \<Longrightarrow> int i \<le> 31 \<Longrightarrow> bit m i"
    "ones_loop m 31 \<ge> 0 \<Longrightarrow> \<not> bit m (nat (ones_loop m 31))"
    using ones_loop_run[of 31 m] by auto
  {
    assume "zeros_loop m (ones_loop m 31) = -1"
    then have z: "\<And>i. int i \<le> ones_loop m 31 \<Longrightarrow> \<not> bit m i" using zeros_loop_run[of "ones_loop m 31" m] o by auto
    define n where "n = nat (31 - ones_loop m 31)"
    have n: "n \<le> 32" using o by (simp add: n_def)
    have "m = prefix_mask n"
    proof (rule bit_word_eqI)
      fix i assume "i < LENGTH(32)"
      then have i: "i < 32" by simp
      have "32 - n \<le> i \<longleftrightarrow> ones_loop m 31 < int i" using n o unfolding n_def by linarith
      with i o(3)[of i] z[of i] show "bit m i \<longleftrightarrow> bit (prefix_mask n) i" unfolding bit_prefix_mask[OF n] by auto
    qed
    with n show "\<exists>n \<le> 32. m = prefix_mask n" by blast
  }
  {
    assume "\<exists>n \<le> 32. m = prefix_mask n"
    then obtain n where n: "n \<le> 32" and m: "\<And>i. bit m i \<longleftrightarrow> 32 - n \<le> i \<and> i < 32" using bit_prefix_mask by metis
    have "\<not> bit m i" if "int i \<le> ones_loop m 31" for i
    proof
      assume b: "bit m i"
      have "\<not> bit m (nat (ones_loop m 31))" using o(4) that by linarith
      moreover have "i \<le> nat (ones_loop m 31)" "nat (ones_loop m 31) < 32" using that o(2) by linarith+
      ultimately show False using b m by (meson le_trans)
    qed
    then show "zeros_loop m (ones_loop m 31) = -1" using zeros_loop_run[of "ones_loop m 31" m] o by auto
  }
qed

lemma mask_ok_prefix: "mask_ok m \<longleftrightarrow> (\<exists>n. 1 \<le> n \<and> n \<le> 30 \<and> m = prefix_mask n)"
proof -
  have z: "prefix_mask 0 = 0" by (rule bit_word_eqI) (simp add: bit_simps)
  have a: "prefix_mask 32 = -1" by simp
  have "(m \<noteq> 0 \<and> m \<noteq> -1 \<and> calcbits m \<le> 30 \<and> (\<exists>n \<le> 32. m = prefix_mask n)) \<longleftrightarrow> (\<exists>n. 1 \<le> n \<and> n \<le> 30 \<and> m = prefix_mask n)"
  proof
    assume *: "m \<noteq> 0 \<and> m \<noteq> -1 \<and> calcbits m \<le> 30 \<and> (\<exists>n \<le> 32. m = prefix_mask n)"
    then obtain n where n: "n \<le> 32" "m = prefix_mask n" by blast
    then have "n \<le> 30" using * calcbits_prefix[of n] by simp
    moreover have "n \<noteq> 0" using * n z by metis
    ultimately show "\<exists>n. 1 \<le> n \<and> n \<le> 30 \<and> m = prefix_mask n" using n by (intro exI[of _ n]) simp
  next
    assume "\<exists>n. 1 \<le> n \<and> n \<le> 30 \<and> m = prefix_mask n"
    then obtain n where n: "1 \<le> n" "n \<le> 30" "m = prefix_mask n" by blast
    then have b: "bit m i \<longleftrightarrow> 32 - n \<le> i \<and> i < 32" for i using bit_prefix_mask[of n] by simp
    have "bit m 31" "\<not> bit m 0" using b n by auto
    then have "m \<noteq> 0" "m \<noteq> -1" by auto
    with n calcbits_prefix[of n] show "m \<noteq> 0 \<and> m \<noteq> -1 \<and> calcbits m \<le> 30 \<and> (\<exists>n \<le> 32. m = prefix_mask n)" by (auto intro!: exI[of _ n])
  qed
  then show ?thesis unfolding mask_ok_def loops_prefix by auto
qed

section \<open>Decimal notation\<close>

lemma show_nat_digits: "\<forall>c \<in> set (show_nat n). is_digit c"
proof (induction n rule: show_nat.induct)
  case (1 n)
  then show ?case by (simp add: show_nat.simps[of n])
qed

lemma show_nat_not_Nil [simp]: "show_nat n \<noteq> []"
  by (subst show_nat.simps) simp

lemma length_show_nat: "n < 10 ^ Suc k \<Longrightarrow> length (show_nat n) \<le> Suc k"
proof (induction k arbitrary: n)
  case 0
  then show ?case by (simp add: show_nat.simps)
next
  case (Suc k)
  have "n div 10 < 10 ^ Suc k" using Suc.prems by (simp add: less_mult_imp_div_less)
  then show ?case using Suc.IH[of "n div 10"] by (simp add: show_nat.simps[of n])
qed

lemma takeWhile_digits: "takeWhile is_digit (show_nat n) = show_nat n"
  using show_nat_digits by (simp add: takeWhile_eq_all_conv)

lemma digits_value_show_nat: "digits_value (show_nat n) = int n"
proof -
  have "foldl (\<lambda>r c. r * 10 + digit_val c) 0 (show_nat n) = int n"
  proof (induction n rule: show_nat.induct)
    case (1 n)
    have "int (n div 10) * 10 + int (n mod 10) = int n" by (metis div_mult_mod_eq of_nat_add of_nat_mult of_nat_numeral)
    with 1 show ?case by (simp add: show_nat.simps[of n])
  qed
  then show ?thesis by (simp add: digits_value_def takeWhile_digits)
qed

lemma digit_not_space: "is_digit c \<Longrightarrow> \<not> is_space c \<and> c \<noteq> CHR ''.''"
  by (auto simp: is_digit_def is_space_def)

lemma atoi_show_nat [simp]: "atoi (show_nat n) = int n"
proof -
  obtain c cs where c: "show_nat n = c # cs" by (cases "show_nat n") auto
  then have "is_digit c" using show_nat_digits[of n] by simp
  with c show ?thesis using digits_value_show_nat[of n] digit_not_space[of c] is_digit_not_sign[of c]
    by (simp add: atoi_def)
qed

lemma takeWhile_part: "takeWhile (\<lambda>c. c \<noteq> CHR ''.'') (show_nat n @ CHR ''.'' # s) = show_nat n"
  "takeWhile (\<lambda>c. c \<noteq> CHR ''.'') (show_nat n) = show_nat n"
proof -
  have "\<forall>c \<in> set (show_nat n). c \<noteq> CHR ''.''" using show_nat_digits digit_not_space by blast
  then show "takeWhile (\<lambda>c. c \<noteq> CHR ''.'') (show_nat n @ CHR ''.'' # s) = show_nat n"
    "takeWhile (\<lambda>c. c \<noteq> CHR ''.'') (show_nat n) = show_nat n"
    by (simp_all add: takeWhile_eq_all_conv takeWhile_append)
qed

lemma dropWhile_part: "dropWhile (\<lambda>c. c \<noteq> CHR ''.'') (show_nat n @ CHR ''.'' # s) = CHR ''.'' # s"
proof -
  have "\<forall>c \<in> set (show_nat n). c \<noteq> CHR ''.''" using show_nat_digits digit_not_space by blast
  then show ?thesis by (simp add: dropWhile_append)
qed

section \<open>Addresses as strings\<close>

lemma octet_le: "octet k w \<le> 255"
proof -
  have "drop_bit k w AND 0xFF \<le> 0xFF" by (rule word_and_le1)
  then show ?thesis by (simp add: octet_def word_le_nat_alt)
qed

lemma octet_word: "(of_nat (octet k w) :: u32) = drop_bit k w AND 0xFF"
  by (simp add: octet_def)

lemma length_octet: "length (show_nat (octet k w)) \<le> 3"
  using length_show_nat[of "octet k w" 2] octet_le[of k w] by (simp add: eval_nat_numeral)

lemma ip_loop_part:
  assumes "n \<le> 255" "8 \<le> b"
  shows "ip_loop (show_nat n @ CHR ''.'' # s) b a = ip_loop s (b - 8) (a + push_bit (b - 8) (of_nat n))"
    and "ip_loop (show_nat n) b a = Some (a + push_bit (b - 8) (of_nat n))"
proof -
  have l: "length (show_nat n) \<le> 3" using length_show_nat[of n 2] assms by (simp add: eval_nat_numeral)
  have f: "fits_int (int n)" using assms by (simp add: fits_int_def)
  show "ip_loop (show_nat n @ CHR ''.'' # s) b a = ip_loop s (b - 8) (a + push_bit (b - 8) (of_nat n))"
    using l f assms by (simp add: ip_loop.simps[of "show_nat n @ CHR ''.'' # s"] takeWhile_part)
  show "ip_loop (show_nat n) b a = Some (a + push_bit (b - 8) (of_nat n))"
    using l f assms by (simp add: ip_loop.simps[of "show_nat n"] takeWhile_part ip_loop.simps[of "[]"])
qed

lemma octets_sum:
  fixes w :: u32
  shows "push_bit 24 (drop_bit 24 w AND 0xFF) + push_bit 16 (drop_bit 16 w AND 0xFF)
    + push_bit 8 (drop_bit 8 w AND 0xFF) + (w AND 0xFF) = w"
proof -
  have m: "(0xFF :: u32) = mask 8" by (simp add: mask_eq_exp_minus_1)
  have "push_bit 24 (drop_bit 24 w AND 0xFF) OR push_bit 16 (drop_bit 16 w AND 0xFF)
      OR push_bit 8 (drop_bit 8 w AND 0xFF) OR (w AND 0xFF) = w"
    unfolding m
  proof (rule bit_word_eqI)
    fix i assume "i < LENGTH(32)"
    then consider "i < 8" | "8 \<le> i" "i < 16" | "16 \<le> i" "i < 24" | "24 \<le> i" "i < 32" by fastforce
    then show "bit (push_bit 24 (drop_bit 24 w AND mask 8) OR push_bit 16 (drop_bit 16 w AND mask 8)
        OR push_bit 8 (drop_bit 8 w AND mask 8) OR (w AND mask 8)) i = bit w i"
      by cases (auto simp: bit_simps)
  qed
  moreover have "push_bit 24 (drop_bit 24 w AND 0xFF) + push_bit 16 (drop_bit 16 w AND 0xFF)
      = push_bit 24 (drop_bit 24 w AND 0xFF) OR push_bit 16 (drop_bit 16 w AND 0xFF)"
    unfolding m by (rule disjunctive_add_eq_or) (rule bit_word_eqI, auto simp: bit_simps)
  moreover have "(push_bit 24 (drop_bit 24 w AND 0xFF) OR push_bit 16 (drop_bit 16 w AND 0xFF)) + push_bit 8 (drop_bit 8 w AND 0xFF)
      = (push_bit 24 (drop_bit 24 w AND 0xFF) OR push_bit 16 (drop_bit 16 w AND 0xFF)) OR push_bit 8 (drop_bit 8 w AND 0xFF)"
    unfolding m by (rule disjunctive_add_eq_or) (rule bit_word_eqI, auto simp: bit_simps)
  moreover have "((push_bit 24 (drop_bit 24 w AND 0xFF) OR push_bit 16 (drop_bit 16 w AND 0xFF)) OR push_bit 8 (drop_bit 8 w AND 0xFF)) + (w AND 0xFF)
      = ((push_bit 24 (drop_bit 24 w AND 0xFF) OR push_bit 16 (drop_bit 16 w AND 0xFF)) OR push_bit 8 (drop_bit 8 w AND 0xFF)) OR (w AND 0xFF)"
    unfolding m by (rule disjunctive_add_eq_or) (rule bit_word_eqI, auto simp: bit_simps)
  ultimately show ?thesis by (simp only: or.assoc)
qed

lemma iptolong_longtoip: "iptolong (longtoip w) = Some w"
  using octets_sum[of w]
  by (simp add: iptolong_def longtoip_def ip_loop_part octet_le octet_word)

lemma getipdigit_octets:
  "getipdigit w 1 = int (octet 24 w)" "getipdigit w 2 = int (octet 16 w)"
  "getipdigit w 3 = int (octet 8 w)" "getipdigit w 4 = int (octet 0 w)"
  by (simp_all add: getipdigit_def longtoip_def takeWhile_part dropWhile_part eval_nat_numeral)

section \<open>The checks of addresses\<close>

lemma valid_digits:
  "\<forall>c \<in> set ds. is_digit c \<Longrightarrow> length acc + length ds \<le> 3 \<Longrightarrow> valid_loop (map Some ds @ cs) acc p = valid_loop cs (acc @ ds) p"
  by (induction ds arbitrary: acc) auto

lemma valid_part:
  assumes "n \<le> 255" "p < 4"
  shows "valid_loop (map Some (show_nat n) @ Some CHR ''.'' # cs) [] p = valid_loop cs [] (p + 1)"
    and "valid_loop (map Some (show_nat n) @ [None]) [] p"
proof -
  have l: "length (show_nat n) \<le> 3" using length_show_nat[of n 2] assms by (simp add: eval_nat_numeral)
  have d: "\<not> is_digit CHR ''.''" by (simp add: is_digit_def)
  show "valid_loop (map Some (show_nat n) @ Some CHR ''.'' # cs) [] p = valid_loop cs [] (p + 1)"
    "valid_loop (map Some (show_nat n) @ [None]) [] p"
    using l d assms by (simp_all add: valid_digits show_nat_digits)
qed

lemma valid_longtoip: "valid_loop (map Some (longtoip w) @ [None]) [] 0"
  by (simp add: longtoip_def valid_part octet_le)

lemma length_longtoip: "7 \<le> length (longtoip w)"
proof -
  have "Suc 0 \<le> length (show_nat n)" for n by (simp add: Suc_le_eq)
  from this[of "octet 24 w"] this[of "octet 16 w"] this[of "octet 8 w"] this[of "octet 0 w"]
  show ?thesis by (simp add: longtoip_def)
qed

lemma isvalidip_longtoip: "isvalidip (longtoip w) = Some (octet 24 w \<noteq> 0 \<and> w \<noteq> -1)"
proof -
  have "octet 24 0 = 0" by (simp add: octet_def)
  then show ?thesis using length_longtoip[of w]
    by (auto simp: isvalidip_def valid_longtoip iptolong_longtoip getipdigit_octets)
qed

lemma valid_loop_reads:
  "valid_loop (map Some s @ [None]) acc p \<Longrightarrow> \<forall>c \<in> set acc. is_digit c \<Longrightarrow> length acc \<le> 3 \<Longrightarrow> ip_loop (acc @ s) (32 - 8 * p) a \<noteq> None"
proof (induction s arbitrary: acc p a)
  case Nil
  have t: "takeWhile (\<lambda>c. c \<noteq> CHR ''.'') acc = acc" using Nil(2) digit_not_space by (auto simp: takeWhile_eq_all_conv)
  from Nil(1) have "acc \<noteq> []" "0 \<le> atoi acc" "atoi acc \<le> 255" "p < 4" by (auto split: if_splits)
  with Nil(3) show ?case by (simp add: t ip_loop.simps[of acc] ip_loop.simps[of "[]"] fits_int_def)
next
  case (Cons c cs)
  show ?case
  proof (cases "is_digit c")
    case True
    then have "valid_loop (map Some cs @ [None]) (acc @ [c]) p" "length (acc @ [c]) \<le> 3" using Cons.prems by (auto split: if_splits)
    with Cons.IH[of "acc @ [c]"] Cons.prems(2) True show ?thesis by simp
  next
    case False
    with Cons.prems(1) have v: "acc \<noteq> []" "c = CHR ''.''" "0 \<le> atoi acc" "atoi acc \<le> 255" "p < 4" "valid_loop (map Some cs @ [None]) [] (p + 1)"
      by (auto split: if_splits)
    have a: "\<forall>c \<in> set acc. c \<noteq> CHR ''.''" using Cons.prems(2) digit_not_space by auto
    then have t: "takeWhile (\<lambda>c. c \<noteq> CHR ''.'') (acc @ CHR ''.'' # cs) = acc" by (simp add: takeWhile_append)
    have b: "\<not> 32 - 8 * p < 8" using v(5) by simp
    have "ip_loop (acc @ c # cs) (32 - 8 * p) a = ip_loop ([] @ cs) (32 - 8 * (p + 1)) (a + push_bit (32 - 8 * p - 8) (word_of_int (atoi acc)))"
      using v Cons.prems(3) b by (simp add: t ip_loop.simps[of "acc @ CHR ''.'' # cs"] fits_int_def)
    with Cons.IH[OF v(6)] show ?thesis by simp
  qed
qed

lemma isvalidip_total: "isvalidip s \<noteq> None"
proof (cases "valid_loop (map Some s @ [None]) [] 0")
  case True
  then obtain a where "iptolong s = Some a" using valid_loop_reads[of s "[]" 0 0] by (auto simp: iptolong_def)
  then show ?thesis by (auto simp: isvalidip_def)
qed (auto simp: isvalidip_def)

lemma isvalidip_reads: "isvalidip s = Some True \<Longrightarrow> iptolong s \<noteq> None"
  by (auto simp: isvalidip_def split: if_splits option.splits)

lemma is_in_valid_ip_class_total: "is_in_valid_ip_class s \<noteq> None"
  using isvalidip_total[of s] isvalidip_reads[of s]
  by (auto simp: is_in_valid_ip_class_def split: option.splits bool.splits)

lemma class_bits:
  "IP_CLASSA w \<longleftrightarrow> \<not> bit w 31"
  "IP_CLASSB w \<longleftrightarrow> bit w 31 \<and> \<not> bit w 30"
  "IP_CLASSC w \<longleftrightarrow> bit w 31 \<and> bit w 30 \<and> \<not> bit w 29"
proof -
  have c: "(0x80000000 :: u32) = bit32 31" "(0xC0000000 :: u32) = bit32 31 OR bit32 30" "(0xE0000000 :: u32) = bit32 31 OR bit32 30 OR bit32 29"
    by (simp_all add: bit32_def)
  show "IP_CLASSA w \<longleftrightarrow> \<not> bit w 31" unfolding IP_CLASSA_def c by (simp add: mask_simps)
  show "IP_CLASSB w \<longleftrightarrow> bit w 31 \<and> \<not> bit w 30" unfolding IP_CLASSB_def c
  proof
    assume e: "w AND (bit32 31 OR bit32 30) = bit32 31"
    show "bit w 31 \<and> \<not> bit w 30" using arg_cong[OF e, of "\<lambda>x. bit x 31"] arg_cong[OF e, of "\<lambda>x. bit x 30"]
      by (simp add: bit_and_iff bit_or_iff bit_bit32)
  qed (rule bit_word_eqI, auto simp: bit_and_iff bit_or_iff bit_bit32)
  show "IP_CLASSC w \<longleftrightarrow> bit w 31 \<and> bit w 30 \<and> \<not> bit w 29" unfolding IP_CLASSC_def c
  proof
    assume e: "w AND (bit32 31 OR bit32 30 OR bit32 29) = bit32 31 OR bit32 30"
    show "bit w 31 \<and> bit w 30 \<and> \<not> bit w 29"
      using arg_cong[OF e, of "\<lambda>x. bit x 31"] arg_cong[OF e, of "\<lambda>x. bit x 30"] arg_cong[OF e, of "\<lambda>x. bit x 29"]
      by (simp add: bit_and_iff bit_or_iff bit_bit32)
  qed (rule bit_word_eqI, auto simp: bit_and_iff bit_or_iff bit_bit32)
qed

lemma bit_word_nat: "bit (w :: u32) n \<longleftrightarrow> odd (unat w div 2 ^ n)"
proof -
  have "bit w n \<longleftrightarrow> bit (unat w) n" by (simp add: bit_unsigned_iff)
  then show ?thesis by (simp add: bit_iff_odd)
qed

lemma class_octet: "IP_CLASSA w \<or> IP_CLASSB w \<or> IP_CLASSC w \<longleftrightarrow> octet 24 w < 224"
proof -
  define u where "u = unat w div 2 ^ 29"
  have w: "unat w < 2 ^ 32" using unsigned_less[of w, where 'a = nat] by simp
  then have u: "u < 8" unfolding u_def by (simp add: less_mult_imp_div_less)
  have b: "bit w 31 \<longleftrightarrow> odd (u div 4)" "bit w 30 \<longleftrightarrow> odd (u div 2)" "bit w 29 \<longleftrightarrow> odd u"
    using bit_word_nat[of w 31] bit_word_nat[of w 30] bit_word_nat[of w 29] by (simp_all add: u_def div_mult2_eq[symmetric])
  have m: "(0xFF :: u32) = mask 8" by (simp add: mask_eq_exp_minus_1)
  have "drop_bit 24 w AND 0xFF = drop_bit 24 w" unfolding m
    by (rule bit_word_eqI) (auto simp: bit_simps dest: bit_imp_le_length)
  then have "octet 24 w = unat w div 2 ^ 24" by (simp add: octet_def drop_bit_eq_div unat_div)
  then have "u = octet 24 w div 32" by (simp add: u_def div_mult2_eq[symmetric])
  then have "octet 24 w < 224 \<longleftrightarrow> u < 7" by (simp add: div_less_iff_less_mult)
  moreover have "(odd (u div 4) \<and> odd (u div 2) \<and> odd u) \<longleftrightarrow> u = 7" using u by presburger
  ultimately show ?thesis using u unfolding class_bits b by linarith
qed

lemma minus_one_octet: "octet 24 (-1) = 255"
  by (simp add: octet_def mask_eq_exp_minus_1)

section \<open>Subnets\<close>

lemma sint_word_of_int: "- (2 ^ 31) \<le> j \<Longrightarrow> j < 2 ^ 31 \<Longrightarrow> sint (word_of_int j :: u32) = j"
  by (simp add: signed_of_int signed_take_bit_int_eq_self)

lemma sint_bounds: "- (2 ^ 31) \<le> sint (w :: u32)" "sint w < 2 ^ 31"
  using sint_greater_eq[of w] sint_less[of w] by simp_all

lemma int_and_not_mask: "(a :: int) AND NOT (mask k) = a - a mod 2 ^ k"
proof -
  have "a = (a AND NOT (mask k)) + (a AND mask k)"
    by (subst disjunctive_add_eq_or; intro bit_eqI; auto simp: bit_simps)
  then show ?thesis by (simp add: take_bit_eq_mask[symmetric] take_bit_eq_mod)
qed

lemma sint_network:
  assumes "k \<le> 31"
  shows "sint (w AND NOT (mask k) :: u32) = sint w - sint w mod 2 ^ k"
proof -
  have "sint (w AND NOT (mask k)) = sint w AND NOT (mask k)"
    using assms by (intro bit_eqI) (auto simp: bit_simps min_def)
  then show ?thesis by (simp add: int_and_not_mask)
qed

lemma or_mask_add: "(w :: u32) OR mask k = (w AND NOT (mask k)) + mask k"
proof -
  have "(w AND NOT (mask k)) + mask k = (w AND NOT (mask k)) OR mask k"
    by (rule disjunctive_add_eq_or) (rule bit_word_eqI, auto simp: bit_simps)
  also have "\<dots> = w OR mask k" by (rule bit_word_eqI) (auto simp: bit_simps)
  finally show ?thesis by simp
qed

lemma sint_eq: "(a = b) \<longleftrightarrow> sint a = sint (b :: u32)"
  by (auto intro: signed_word_eqI)

lemma block_between:
  assumes "(0 :: int) < P" "b mod P = 0"
  shows "i - i mod P = b \<longleftrightarrow> b \<le> i \<and> i < b + P"
proof
  assume "i - i mod P = b"
  then show "b \<le> i \<and> i < b + P" using assms(1) pos_mod_bound[of P i] pos_mod_sign[of P i] by linarith
next
  assume *: "b \<le> i \<and> i < b + P"
  have "i mod P = (i - b) mod P" using assms(2) by (metis diff_zero mod_diff_right_eq)
  also have "\<dots> = i - b" using * by (simp add: mod_pos_pos_trivial)
  finally show "i - i mod P = b" by simp
qed

lemma subnet_block:
  fixes ip net :: u32
  assumes "2 \<le> k" "k \<le> 31"
  defines "m \<equiv> NOT (mask k)"
  shows "isvalidIPsubnetRange ip net m \<longleftrightarrow> ip AND m = net AND m \<and> ip \<noteq> net AND m \<and> ip \<noteq> subnetBCIP net m"
proof -
  define P B :: int where "P = 2 ^ k" and "B = sint (net AND m)"
  have P: "4 \<le> P" "P dvd 2 ^ 31"
    unfolding P_def using power_increasing[OF assms(1), of "2::int"] by (simp, intro le_imp_power_dvd assms(2))
  have Bm: "B = sint net - sint net mod P" unfolding B_def m_def P_def by (rule sint_network[OF assms(2)])
  then have dvd: "P dvd B" using minus_mod_eq_mult_div[of "sint net" P] by simp
  have B0: "- (2 ^ 31) \<le> B" "B < 2 ^ 31" unfolding B_def by (rule sint_bounds)+
  have B1: "B + P \<le> 2 ^ 31"
  proof -
    have "P dvd 2 ^ 31 - B" "0 < 2 ^ 31 - B" using P(2) dvd B0 by (auto simp: dvd_diff)
    then have "P \<le> 2 ^ 31 - B" by (rule zdvd_imp_le)
    then show ?thesis by simp
  qed
  have nb: "net AND m = word_of_int B" by (simp add: B_def)
  have mk: "(mask k :: u32) = word_of_int (P - 1)" by (simp add: P_def mask_eq_exp_minus_1)
  have "m XOR 0xFFFFFFFF = mask k"
  proof -
    have f: "(0xFFFFFFFF :: u32) = mask 32" by (simp add: mask_eq_exp_minus_1)
    show ?thesis unfolding m_def f by (intro bit_word_eqI) (auto simp: bit_simps)
  qed
  then have "subnetBCIP net m = (net AND m) + mask k" by (simp only: subnetBCIP_def or_mask_add m_def)
  then have bc: "subnetBCIP net m = word_of_int (B + (P - 1))" by (simp only: nb mk of_int_add)
  have s: "sint (net AND m) = B" "sint (subnetBCIP net m) = B + P - 1"
      "sint (subnetRangeFirstIP net m) = B + 1" "sint (subnetRangeLastIP net m) = B + P - 2"
  proof -
    show "sint (net AND m) = B" by (simp add: B_def)
    show "sint (subnetBCIP net m) = B + P - 1" unfolding bc using B0 B1 P(1) by (subst sint_word_of_int) auto
    have "subnetRangeFirstIP net m = word_of_int (B + 1)" by (simp add: subnetRangeFirstIP_def nb)
    then show "sint (subnetRangeFirstIP net m) = B + 1" using B0 B1 P(1) sint_word_of_int[of "B + 1"] by simp
    have "subnetRangeLastIP net m = word_of_int (B + P - 2)" by (simp add: subnetRangeLastIP_def bc)
    then show "sint (subnetRangeLastIP net m) = B + P - 2" using B0 B1 P(1) sint_word_of_int[of "B + P - 2"] by simp
  qed
  have n: "sint (ip AND m) = sint ip - sint ip mod P" unfolding m_def P_def by (rule sint_network[OF assms(2)])
  have "(ip AND m = net AND m) \<longleftrightarrow> sint ip - sint ip mod P = B" by (simp only: sint_eq[of "ip AND m"] n s(1))
  also have "\<dots> \<longleftrightarrow> B \<le> sint ip \<and> sint ip < B + P" using P(1) dvd by (intro block_between) auto
  finally have e: "(ip AND m = net AND m) \<longleftrightarrow> B \<le> sint ip \<and> sint ip < B + P" .
  have ne: "(ip \<noteq> net AND m) \<longleftrightarrow> sint ip \<noteq> B" "(ip \<noteq> subnetBCIP net m) \<longleftrightarrow> sint ip \<noteq> B + P - 1"
    by (simp_all only: sint_eq[of ip] s)
  show ?thesis unfolding isvalidIPsubnetRange_def word_sle_eq s e ne using P(1) by auto
qed

section \<open>Numbers in any radix\<close>

definition radix_value :: "nat \<Rightarrow> string \<Rightarrow> nat" where
  "radix_value r s = foldl (\<lambda>a c. a * r + length (takeWhile (\<lambda>d. d \<noteq> c) xlat)) 0 s"

lemma xlat_facts: "length xlat = 36" "distinct xlat"
  by (simp_all add: xlat_def)

lemma index_nth: "distinct xs \<Longrightarrow> i < length xs \<Longrightarrow> length (takeWhile (\<lambda>d. d \<noteq> xs ! i) xs) = i"
proof (induction xs arbitrary: i)
  case (Cons x xs)
  then show ?case by (cases i) auto
qed simp

lemma xlat_value: "i < 36 \<Longrightarrow> length (takeWhile (\<lambda>d. d \<noteq> xlat ! i) xlat) = i"
  using index_nth[of xlat i] xlat_facts by simp

lemma xlat_dec: "i < 10 \<Longrightarrow> xlat ! i = dec_digit i"
proof -
  assume "i < 10"
  then have "i \<in> {0, 1, 2, 3, 4, 5, 6, 7, 8, 9}" by auto
  then show ?thesis by (elim insertE) (simp_all add: xlat_def dec_digit_def char_of_def bit_0)
qed

lemma unat_quotient: "unat (of_nat (unat (v :: u64) div r) :: u64) = unat v div r"
proof -
  have "unat v div r < 2 ^ 64" using unsigned_less[of v, where 'a = nat] le_less_trans[OF div_le_dividend[of "unat v" r]] by simp
  then show ?thesis by (simp add: unsigned_of_nat take_bit_nat_eq_self)
qed

lemma ulltoa_loop_value: "2 \<le> r \<Longrightarrow> r \<le> 36 \<Longrightarrow> radix_value r (rev (ulltoa_loop v r)) = unat v"
proof (induction v r rule: ulltoa_loop.induct)
  case (1 v r)
  define q where "q = (of_nat (unat v div r) :: u64)"
  have uq: "unat q = unat v div r" unfolding q_def by (rule unat_quotient)
  have "unat v mod r < 36" using 1(2,3) mod_less_divisor[of r "unat v"] by linarith
  then have x: "length (takeWhile (\<lambda>d. d \<noteq> xlat ! (unat v mod r)) xlat) = unat v mod r" by (rule xlat_value)
  show ?case
  proof (cases "unat v div r = 0")
    case True
    then have "unat v mod r = unat v" by (metis add_0 div_mult_mod_eq mult_0)
    with True x show ?thesis by (simp add: ulltoa_loop.simps[of v r] radix_value_def)
  next
    case False
    then have c: "2 \<le> r \<and> unat v div r \<noteq> 0" using 1(2) by simp
    have IH: "radix_value r (rev (ulltoa_loop q r)) = unat v div r"
      using 1(1)[OF c 1(2,3)] unfolding q_def[symmetric] uq .
    have "ulltoa_loop v r = xlat ! (unat v mod r) # ulltoa_loop q r"
      unfolding q_def using c by (simp only: ulltoa_loop.simps[of v r] simp_thms if_True)
    then show ?thesis using IH x by (simp add: radix_value_def)
  qed
qed

lemma ulltoa_loop_length: "2 \<le> r \<Longrightarrow> unat v < 2 ^ Suc k \<Longrightarrow> length (ulltoa_loop v r) \<le> Suc k"
proof (induction k arbitrary: v)
  case 0
  then have "unat v div r = 0" by (simp add: div_less)
  then show ?case by (simp add: ulltoa_loop.simps[of v r])
next
  case (Suc k)
  define q where "q = (of_nat (unat v div r) :: u64)"
  have uq: "unat q = unat v div r" unfolding q_def by (rule unat_quotient)
  have "unat v div r \<le> unat v div 2" using Suc.prems(1) by (simp add: div_le_mono2)
  also have "\<dots> < 2 ^ Suc k" using Suc.prems(2) by simp
  finally have "length (ulltoa_loop q r) \<le> Suc k" using Suc.IH[of q] Suc.prems(1) uq by simp
  then show ?case unfolding q_def by (simp add: ulltoa_loop.simps[of v r])
qed

lemma ulltoa_loop_dec: "rev (ulltoa_loop v 10) = show_nat (unat v)"
proof (induction "unat v" arbitrary: v rule: less_induct)
  case less
  define q where "q = (of_nat (unat v div 10) :: u64)"
  have uq: "unat q = unat v div 10" unfolding q_def by (rule unat_quotient)
  have x: "xlat ! (unat v mod 10) = dec_digit (unat v mod 10)" by (rule xlat_dec) simp
  show ?case
  proof (cases "unat v < 10")
    case True
    then show ?thesis using x by (simp add: ulltoa_loop.simps[of v 10] show_nat.simps[of "unat v"])
  next
    case False
    then have "rev (ulltoa_loop q 10) = show_nat (unat v div 10)" using less[of q] uq by simp
    moreover have "unat v div 10 \<noteq> 0" using False by (simp add: div_eq_0_iff)
    ultimately show ?thesis unfolding q_def using x False
      by (simp add: ulltoa_loop.simps[of v 10] show_nat.simps[of "unat v"])
  qed
qed

lemma unat_neg: "sint (v :: u64) < 0 \<Longrightarrow> unat (- v) = nat (- sint v)"
proof -
  assume n: "sint v < 0"
  have b: "- (2 ^ 63) \<le> sint v" using sint_greater_eq[of v] by simp
  have "- v = word_of_int (- sint v)" by simp
  then have "uint (- v) = take_bit 64 (- sint v)" by (simp only: unsigned_of_int) simp
  also have "\<dots> = - sint v" using n b by (intro take_bit_int_eq_self) auto
  finally show ?thesis by (simp add: unat_eq_nat_uint)
qed

lemma unat_nonneg: "\<not> sint (v :: u64) < 0 \<Longrightarrow> unat v = nat (sint v)"
proof -
  assume n: "\<not> sint v < 0"
  have b: "sint v < 2 ^ 63" using sint_less[of v] by simp
  have "uint (word_of_int (sint v) :: u64) = take_bit 64 (sint v)" by (simp only: unsigned_of_int) simp
  then have "uint v = take_bit 64 (sint v)" by (simp only: of_int_sint scast_id)
  also have "\<dots> = sint v" using n b by (intro take_bit_int_eq_self) auto
  finally show ?thesis by (simp add: unat_eq_nat_uint)
qed

lemma lltoa_dec: "lltoa v 10 = Some (show_int (sint v))"
  using unat_neg[of v] unat_nonneg[of v]
  by (auto simp: lltoa_def ulltoa_def ulltoa_loop_dec show_int_def)

section \<open>Properties\<close>

text \<open>
  Every 32-bit address is read back from its dotted notation, as a whole by \<^verbatim>\<open>iptolong\<close> and part by part by
  \<^verbatim>\<open>getipdigit\<close>.
\<close>

theorem address_roundtrip:
  "iptolong (longtoip w) = Some w \<and> getipdigit w 1 = int (octet 24 w) \<and> getipdigit w 2 = int (octet 16 w)
     \<and> getipdigit w 3 = int (octet 8 w) \<and> getipdigit w 4 = int (octet 0 w)"
  by (simp add: iptolong_longtoip getipdigit_octets)

text \<open>
  The checks of an address are defined on every string: the parts that \<^verbatim>\<open>isvalidip\<close> lets through never
  overrun the buffer of \<^verbatim>\<open>iptolong\<close>, shift by a negative amount or leave the range of \<^verbatim>\<open>int\<close>. On a printed
  address they decide as named: a first part that is not zero and not the limited broadcast address; class A, B or C, which is a
  first part below 224; and 2 for such an address taken as a domain name.
\<close>

theorem ip_checks_decide:
  "isvalidip s \<noteq> None \<and> is_in_valid_ip_class s \<noteq> None \<and> isvalid_domain s \<noteq> None
   \<and> isvalidip (longtoip w) = Some (octet 24 w \<noteq> 0 \<and> w \<noteq> -1)
   \<and> is_in_valid_ip_class (longtoip w) = Some (octet 24 w \<noteq> 0 \<and> octet 24 w < 224)
   \<and> isvalid_domain (longtoip w) = Some (if octet 24 w \<noteq> 0 \<and> octet 24 w < 224 then 2 else 1)"
proof (intro conjI)
  show c: "is_in_valid_ip_class (longtoip w) = Some (octet 24 w \<noteq> 0 \<and> octet 24 w < 224)"
    by (simp add: is_in_valid_ip_class_def isvalidip_longtoip iptolong_longtoip class_octet minus_one_octet split: bool.splits)
  have "filter (\<lambda>c. c = CHR ''.'') (show_nat n) = []" for n
    using show_nat_digits[of n] digit_not_space by (auto simp: filter_empty_conv)
  then show "isvalid_domain (longtoip w) = Some (if octet 24 w \<noteq> 0 \<and> octet 24 w < 224 then 2 else 1)"
    unfolding isvalid_domain_def c by (simp add: longtoip_def)
qed (simp_all add: isvalidip_total is_in_valid_ip_class_total isvalidip_longtoip isvalid_domain_def Let_def del: not_None_eq)

text \<open>
  A subnet mask is accepted exactly when it consists of \<open>n\<close> leading ones, for an \<open>n\<close> from 1 to 30.
\<close>

theorem isvalidmask_prefix:
  "isvalidmask (longtoip m) = Some (\<exists>n. 1 \<le> n \<and> n \<le> 30 \<and> m = NOT (mask (32 - n)))"
  by (simp add: isvalidmask_def iptolong_longtoip mask_ok_prefix)

text \<open>
  With an accepted mask the test of a subnet range, which compares signed numbers, is membership: the address has
  the network part of the subnet and is neither its network address nor its broadcast address.
\<close>

theorem subnet_range_is_membership:
  assumes "isvalidmask s = Some True" "iptolong s = Some m"
  shows "isvalidIPsubnetRange ip net m \<longleftrightarrow> ip AND m = net AND m \<and> ip \<noteq> net AND m \<and> ip \<noteq> subnetBCIP net m"
proof -
  have "mask_ok m" using assms by (simp add: isvalidmask_def)
  then obtain n where "1 \<le> n" "n \<le> 30" "m = NOT (mask (32 - n))" unfolding mask_ok_prefix by blast
  then show ?thesis using subnet_block[of "32 - n" ip net] by simp
qed

theorem subnet_range_is_membership_witness:
  "isvalidIPsubnetRange 0xC0A80117 0xC0A80101 0xFFFFFF00 \<longleftrightarrow>
     0xC0A80117 AND 0xFFFFFF00 = (0xC0A80101 AND 0xFFFFFF00 :: u32)
     \<and> 0xC0A80117 \<noteq> (0xC0A80101 AND 0xFFFFFF00 :: u32) \<and> 0xC0A80117 \<noteq> subnetBCIP 0xC0A80101 0xFFFFFF00"
proof (rule subnet_range_is_membership)
  show "iptolong (longtoip 0xFFFFFF00) = Some 0xFFFFFF00" by (rule iptolong_longtoip)
  have "(0xFFFFFF00 :: u32) = NOT (mask (32 - 24))" by (simp add: mask_eq_exp_minus_1)
  then have "mask_ok 0xFFFFFF00" unfolding mask_ok_prefix by (intro exI[of _ 24]) simp
  then show "isvalidmask (longtoip 0xFFFFFF00) = Some True" by (simp add: isvalidmask_def iptolong_longtoip)
qed

text \<open>
  The digits that \<^verbatim>\<open>ulltoa\<close> writes in a radix from 2 to 36 denote the number, at least one and at most 64 of
  them, so that the buffer of 65 characters suffices; and \<^verbatim>\<open>lltoa\<close> in radix 10 writes the decimal notation of every
  signed 64-bit number, the least one included.
\<close>

theorem ulltoa_lltoa_print:
  assumes "2 \<le> radix" "radix \<le> 36"
  shows "\<exists>s. ulltoa v radix = Some s \<and> radix_value (nat radix) s = unat v \<and> 1 \<le> length s \<and> length s \<le> 64
    \<and> lltoa v 10 = Some (show_int (sint v))"
proof -
  have "length (ulltoa_loop v (nat radix)) \<le> 64"
    using ulltoa_loop_length[of "nat radix" v 63] assms unsigned_less[of v, where 'a = nat] by simp
  moreover have "1 \<le> length (ulltoa_loop v (nat radix))" by (subst ulltoa_loop.simps) simp
  ultimately show ?thesis using ulltoa_loop_value[of "nat radix" v] assms by (simp add: ulltoa_def lltoa_dec)
qed

theorem ulltoa_lltoa_print_witness:
  "\<exists>s. ulltoa 255 16 = Some s \<and> radix_value (nat 16) s = unat (255 :: u64) \<and> 1 \<le> length s \<and> length s \<le> 64
    \<and> lltoa 255 10 = Some (show_int (sint (255 :: u64)))"
  by (rule ulltoa_lltoa_print) simp_all

text \<open>
  The checks let through an address with fewer than four parts, since they count the parts only from above; and a mask with a
  part of sixteen digits overruns the buffer, since \<^verbatim>\<open>isvalidmask\<close> does not check the form of its argument.
\<close>

lemma isvalidip_accepts_two_parts: "isvalidip ''123.123'' = Some True"
  by code_simp

lemma isvalidmask_overruns: "isvalidmask (replicate 16 CHR ''1'') = None"
  by code_simp

end
