(* ===== verification/Dpm_Sleep.thy ===== *)
theory Dpm_Sleep
  imports Prelude
begin

text \<open>
  The sleep manager of \<^verbatim>\<open>src/core/system/src/dpm/da16x_dpm.c\<close>: the table of modules that take part in deep sleep,
  the bits with which they ask for it, and the daemon that powers the chip down when all of them have asked. Names are strings without
  the terminating zero; a name that does not fit into its field overruns the table, which is \<open>None\<close>.
  A call that waits in a loop for the end of a power-down that has begun is \<open>Blocked\<close>: it changes nothing and is tried
  again after a delay. The results of the operating system and of the Wi-Fi driver are arguments; what the daemon calls
  is returned as a list of actions.
\<close>

section \<open>State\<close>

record dpm_list_table =
  mod_name :: string
  bit_index :: u32
  port_number :: u32
  rcv_ready :: u32
  init_done :: u32

datatype pdown = WAIT_DPM_SLEEP | RUN_DPM_SLEEP | DONE_DPM_SLEEP

text \<open>The event group does not exist (\<open>None\<close>) before the daemon is initialised.\<close>

record dpm =
  rtm_exist :: bool
  dpm_mode :: u8
  sleep_list :: "dpm_list_table list"
  reg_dpm_req_flag :: u32
  dpm_sleep_set_flag :: u32
  dpm_pdown_state :: pdown
  ev_group :: "u32 option"
  dpm_daemon_start_flag :: bool
  dpm_daemon_hold_flag :: bool
  dpm_daemon_cmd_hold_flag :: bool
  dpm_mac_err_flag :: bool
  dpm_mac_err_max_try_reached_flag :: bool
  dpm_rtc_to_chk_flag :: bool

definition MAX_DPM_REQ_CNT :: nat where "MAX_DPM_REQ_CNT = 32"
definition REG_NAME_DPM_MAX_LEN :: nat where "REG_NAME_DPM_MAX_LEN = 20"

definition DPM_REG_OK :: int where "DPM_REG_OK = 0"
definition DPM_SET_OK :: int where "DPM_SET_OK = 0"
definition DPM_REG_ERR :: int where "DPM_REG_ERR = -1"
definition DPM_SET_ERR :: int where "DPM_SET_ERR = -2"
definition DPM_NOT_REGISTERED :: int where "DPM_NOT_REGISTERED = 8888"
definition DPM_REG_DUP_NAME :: int where "DPM_REG_DUP_NAME = 9999"

definition DPM_DAEMON_TRIGGER :: u32 where "DPM_DAEMON_TRIGGER = bit32 0"
definition DPM_SLEEP_SET :: u32 where "DPM_SLEEP_SET = bit32 1"

definition REG_NAME_DPM_SUPPLICANT :: string where "REG_NAME_DPM_SUPPLICANT = ''DPM_SUPP''"

definition empty_entry :: dpm_list_table where
  "empty_entry = \<lparr>mod_name = [], bit_index = 0, port_number = 0, rcv_ready = 0, init_done = 0\<rparr>"

text \<open>The static variables before anything has run, on a chip with retention memory in the mode \<open>m\<close>.\<close>

definition dpm_boot :: "u8 \<Rightarrow> dpm" where
  "dpm_boot m =
     \<lparr>rtm_exist = True, dpm_mode = m, sleep_list = replicate MAX_DPM_REQ_CNT empty_entry,
      reg_dpm_req_flag = 0, dpm_sleep_set_flag = 0, dpm_pdown_state = WAIT_DPM_SLEEP, ev_group = None,
      dpm_daemon_start_flag = False, dpm_daemon_hold_flag = False, dpm_daemon_cmd_hold_flag = False,
      dpm_mac_err_flag = False, dpm_mac_err_max_try_reached_flag = False, dpm_rtc_to_chk_flag = False\<rparr>"

datatype 'a call = Blocked | Returns 'a

section \<open>Queries\<close>

definition chk_dpm_mode :: "dpm \<Rightarrow> bool" where
  "chk_dpm_mode s \<longleftrightarrow> rtm_exist s \<and> dpm_mode s \<noteq> 0"

definition is_dpm_sleep_ready :: "dpm \<Rightarrow> bool" where
  "is_dpm_sleep_ready s \<longleftrightarrow> reg_dpm_req_flag s = dpm_sleep_set_flag s"

text \<open>The first entry with a name, which every operation looks for with a loop of its own.\<close>

definition slot :: "string \<Rightarrow> dpm \<Rightarrow> nat option" where
  "slot name s = find (\<lambda>i. mod_name (sleep_list s ! i) = name) [0..<MAX_DPM_REQ_CNT]"

definition chk_dpm_reg_state :: "string \<Rightarrow> dpm \<Rightarrow> int" where
  "chk_dpm_reg_state name s = (if slot name s \<noteq> None then DPM_REG_DUP_NAME else DPM_NOT_REGISTERED)"

definition chk_dpm_rcv_ready :: "string \<Rightarrow> dpm \<Rightarrow> u32" where
  "chk_dpm_rcv_ready name s = (case slot name s of Some i \<Rightarrow> rcv_ready (sleep_list s ! i) | None \<Rightarrow> 0)"

text \<open>This loop goes on behind an entry whose bit is not set.\<close>

definition chk_dpm_set_state :: "string \<Rightarrow> dpm \<Rightarrow> bool" where
  "chk_dpm_set_state name s \<longleftrightarrow>
     find (\<lambda>i. mod_name (sleep_list s ! i) = name \<and> dpm_sleep_set_flag s AND bit32 i \<noteq> 0) [0..<MAX_DPM_REQ_CNT] \<noteq> None"

definition chk_dpm_reg_port :: "u32 \<Rightarrow> dpm \<Rightarrow> string option" where
  "chk_dpm_reg_port port s =
     map_option (\<lambda>i. mod_name (sleep_list s ! i))
       (find (\<lambda>i. port_number (sleep_list s ! i) = port \<and> reg_dpm_req_flag s AND bit32 i \<noteq> 0) [0..<MAX_DPM_REQ_CNT])"

definition get_bit_dpm_sleep :: "string \<Rightarrow> dpm \<Rightarrow> u32" where
  "get_bit_dpm_sleep name s =
     (if \<not> chk_dpm_mode s then word_of_int DPM_SET_ERR
      else case slot name s of
        None \<Rightarrow> word_of_int DPM_SET_ERR
      | Some i \<Rightarrow> drop_bit i (dpm_sleep_set_flag s AND bit32 i))"

text \<open>The highest bit in which the two flags differ; the loop starts one behind the table, where both bits are 0.\<close>

definition get_dpm_set_task_names :: "dpm \<Rightarrow> string option" where
  "get_dpm_set_task_names s =
     (if \<not> rtm_exist s then None
      else map_option (\<lambda>i. mod_name (sleep_list s ! i))
        (find (\<lambda>i. drop_bit i (reg_dpm_req_flag s) AND 1 \<noteq> drop_bit i (dpm_sleep_set_flag s) AND 1) (rev [0..<MAX_DPM_REQ_CNT + 1])))"

definition chk_dpm_init_done :: "string \<Rightarrow> dpm \<Rightarrow> bool" where
  "chk_dpm_init_done name s = (case slot name s of Some i \<Rightarrow> init_done (sleep_list s ! i) \<noteq> 0 | None \<Rightarrow> False)"

section \<open>Registration\<close>

definition upd_entry :: "nat \<Rightarrow> (dpm_list_table \<Rightarrow> dpm_list_table) \<Rightarrow> dpm \<Rightarrow> dpm" where
  "upd_entry i f s = s\<lparr>sleep_list := (sleep_list s)[i := f (sleep_list s ! i)]\<rparr>"

text \<open>\<open>got\<close> and \<open>gave\<close> are the results of taking and giving the mutex.\<close>

definition reg_dpm_sleep :: "bool \<Rightarrow> bool \<Rightarrow> string \<Rightarrow> u32 \<Rightarrow> dpm \<Rightarrow> (int \<times> dpm) option" where
  "reg_dpm_sleep got gave name port s =
     (if \<not> chk_dpm_mode s then Some (DPM_REG_OK, s)
      else if \<not> got then Some (DPM_REG_ERR, s)
      else if chk_dpm_reg_state name s = DPM_REG_DUP_NAME then Some (if gave then DPM_REG_DUP_NAME else DPM_REG_ERR, s)
      else case slot [] s of
        None \<Rightarrow> Some (DPM_REG_ERR, s)
      | Some i \<Rightarrow>
          if length name \<ge> REG_NAME_DPM_MAX_LEN then None
          else Some (if gave then DPM_REG_OK else DPM_REG_ERR,
            upd_entry i (\<lambda>x. x\<lparr>mod_name := name, port_number := port, bit_index := of_nat i\<rparr>)
              (s\<lparr>reg_dpm_req_flag := reg_dpm_req_flag s OR bit32 i,
                 dpm_sleep_set_flag := dpm_sleep_set_flag s AND NOT (bit32 i)\<rparr>)))"

definition unreg_dpm_sleep :: "bool \<Rightarrow> string \<Rightarrow> dpm \<Rightarrow> dpm" where
  "unreg_dpm_sleep got name s =
     (if \<not> chk_dpm_mode s then s
      else case slot name s of
        None \<Rightarrow> s
      | Some i \<Rightarrow>
          if \<not> got then s
          else upd_entry i (\<lambda>x. x\<lparr>mod_name := [], bit_index := 0\<rparr>)
            (s\<lparr>reg_dpm_req_flag := reg_dpm_req_flag s AND NOT (bit32 i),
               dpm_sleep_set_flag := dpm_sleep_set_flag s AND NOT (bit32 i)\<rparr>))"

text \<open>The test for the end of the table in this loop never holds, so that an unknown name is accepted.\<close>

definition set_dpm_rcv_ready :: "string \<Rightarrow> dpm \<Rightarrow> int \<times> dpm" where
  "set_dpm_rcv_ready name s =
     (if \<not> chk_dpm_mode s then (DPM_SET_OK, s)
      else case slot name s of
        None \<Rightarrow> (DPM_SET_OK, s)
      | Some i \<Rightarrow> (DPM_SET_OK, upd_entry i (\<lambda>x. x\<lparr>rcv_ready := (if port_number x = 0 then 0 else 1)\<rparr>) s))"

definition set_dpm_rcv_ready_by_port :: "u32 \<Rightarrow> dpm \<Rightarrow> int \<times> dpm" where
  "set_dpm_rcv_ready_by_port port s =
     (if \<not> chk_dpm_mode s then (DPM_SET_OK, s)
      else case find (\<lambda>i. port_number (sleep_list s ! i) = port) [0..<MAX_DPM_REQ_CNT] of
        None \<Rightarrow> (DPM_SET_ERR, s)
      | Some i \<Rightarrow> (DPM_SET_OK, upd_entry i (\<lambda>x. x\<lparr>rcv_ready := 1\<rparr>) s))"

definition set_dpm_init_done :: "string \<Rightarrow> dpm \<Rightarrow> int \<times> dpm" where
  "set_dpm_init_done name s =
     (if \<not> chk_dpm_mode s then (DPM_SET_OK, s)
      else case slot name s of
        None \<Rightarrow> (DPM_SET_OK, s)
      | Some i \<Rightarrow> (DPM_SET_OK, upd_entry i (\<lambda>x. x\<lparr>init_done := 1\<rparr>) s))"

section \<open>Asking for sleep\<close>

definition trx_module :: "string \<Rightarrow> bool" where
  "trx_module name \<longleftrightarrow> name = ''DPM_UMAC'' \<or> name = ''DPM_UMAC_RX'' \<or> name = ''Disconnect_loss''"

definition set_event :: "u32 \<Rightarrow> dpm \<Rightarrow> dpm" where
  "set_event b s = s\<lparr>ev_group := map_option (\<lambda>w. w OR b) (ev_group s)\<rparr>"

definition set_dpm_sleep :: "string \<Rightarrow> dpm \<Rightarrow> (int \<times> dpm) call" where
  "set_dpm_sleep name s =
     (if \<not> chk_dpm_mode s then Returns (DPM_SET_OK, s)
      else if dpm_pdown_state s \<noteq> WAIT_DPM_SLEEP \<and> \<not> trx_module name then Blocked
      else case slot name s of
        None \<Rightarrow> Returns (DPM_NOT_REGISTERED, s)
      | Some i \<Rightarrow>
          (let s1 = upd_entry i (\<lambda>x. x\<lparr>bit_index := of_nat i\<rparr>) s in
           if dpm_sleep_set_flag s AND bit32 i = 1 then Returns (DPM_SET_OK, s1)
           else (let s2 = s1\<lparr>dpm_sleep_set_flag := dpm_sleep_set_flag s OR bit32 i\<rparr> in
             if dpm_pdown_state s = RUN_DPM_SLEEP then Returns (DPM_SET_OK, s2)
             else Returns (DPM_SET_OK, set_event DPM_SLEEP_SET s2))))"

definition clr_dpm_sleep :: "string \<Rightarrow> dpm \<Rightarrow> (int \<times> dpm) call" where
  "clr_dpm_sleep name s =
     (if \<not> chk_dpm_mode s then Returns (DPM_SET_OK, s)
      else if dpm_pdown_state s \<noteq> WAIT_DPM_SLEEP \<and> \<not> trx_module name then Blocked
      else case slot name s of
        None \<Rightarrow> Returns (DPM_SET_ERR, s)
      | Some i \<Rightarrow> Returns (DPM_SET_OK, s\<lparr>dpm_sleep_set_flag :=
          dpm_sleep_set_flag s AND NOT (bit32 (unat (bit_index (sleep_list s ! i))))\<rparr>))"

definition set_dpm_all_flags :: "dpm \<Rightarrow> dpm" where
  "set_dpm_all_flags s = (if \<not> rtm_exist s then s else s\<lparr>dpm_sleep_set_flag := reg_dpm_req_flag s\<rparr>)"

section \<open>The daemon\<close>

text \<open>The calls of the watchdog, the driver and the operating system.\<close>

datatype dpm_action =
    Wdog_notify | Wdog_suspend | Wdog_notify_and_resume | Wdog_unregister | Delay nat
  | Unset_not_rcv | Set_not_rcv | Sleep_callback | Combo_ready | Power_off | Clear_rtc_exp | Connection_loss

definition hold_dpm_sleepd :: "dpm \<Rightarrow> dpm \<times> dpm_action list" where
  "hold_dpm_sleepd s = (s\<lparr>dpm_daemon_hold_flag := True\<rparr>, [Unset_not_rcv])"

definition resume_dpm_sleepd :: "dpm \<Rightarrow> dpm" where "resume_dpm_sleepd s = s\<lparr>dpm_daemon_hold_flag := False\<rparr>"

text \<open>\<open>ev_ok\<close> and \<open>mutex_ok\<close>: the event group and the mutex could be created.\<close>

definition init_dpm_sleep_daemon :: "bool \<Rightarrow> bool \<Rightarrow> dpm \<Rightarrow> dpm" where
  "init_dpm_sleep_daemon ev_ok mutex_ok s =
     (if \<not> chk_dpm_mode s then s
      else if dpm_daemon_start_flag s then s
      else if \<not> ev_ok then s\<lparr>ev_group := None\<rparr>
      else if \<not> mutex_ok then s\<lparr>ev_group := Some 0\<rparr>
      else s\<lparr>ev_group := Some 0, dpm_daemon_start_flag := True\<rparr>)"

text \<open>The timer that triggers the daemon every 30 milliseconds.\<close>

definition dpm_trigger_timer_fn :: "dpm \<Rightarrow> dpm" where
  "dpm_trigger_timer_fn s =
     (if \<not> dpm_daemon_start_flag s then s
      else if dpm_mac_err_flag s then s\<lparr>dpm_pdown_state := WAIT_DPM_SLEEP, dpm_mac_err_flag := False\<rparr>
      else if dpm_pdown_state s \<noteq> WAIT_DPM_SLEEP then s
      else set_event DPM_DAEMON_TRIGGER s)"

text \<open>
  The places where the daemon lets other tasks run: the top of its loop, the wait for events, the way from the
  check to the power-down, the call of the Wi-Fi driver that powers the chip down, and the endless loop behind a
  successful power-down.
\<close>

datatype daemon_pc = D_top | D_waiting | D_committed | D_powering | D_off | D_ended

record daemon =
  pc :: daemon_pc
  sleep_delay_cnt :: int
  dpm_sleep_try_chk_cnt :: int

definition DPM_DAEMON_SLEEP_DELAY_CNT :: int where "DPM_DAEMON_SLEEP_DELAY_CNT = 2"
definition MAX_CHECK_CNT_PS_CMD_FAIL :: int where "MAX_CHECK_CNT_PS_CMD_FAIL = 10"

definition daemon_boot :: daemon where
  "daemon_boot = \<lparr>pc = D_top, sleep_delay_cnt = DPM_DAEMON_SLEEP_DELAY_CNT, dpm_sleep_try_chk_cnt = 0\<rparr>"

record daemon_env =
  driver_can_rcv :: bool
  sock_available :: bool
  external_xtal :: bool
  mng_save_rtm :: bool
  has_sleep_cb :: bool
  runtime_cal :: bool
  ble_combo :: bool
  pdown_result :: int

text \<open>The start of a round, up to the wait for events.\<close>

definition daemon_top :: "daemon_env \<Rightarrow> daemon \<Rightarrow> dpm \<Rightarrow> daemon \<times> dpm \<times> dpm_action list" where
  "daemon_top e d s =
     (if \<not> dpm_daemon_start_flag s then (d\<lparr>pc := D_ended\<rparr>, s, [Wdog_unregister])
      else if dpm_daemon_hold_flag s \<or> dpm_daemon_cmd_hold_flag s
      then (d, s, [Wdog_notify, Wdog_suspend, Delay 2, Wdog_notify_and_resume])
      else (d\<lparr>pc := D_waiting\<rparr>, s,
            [Wdog_notify] @ (if driver_can_rcv e then [Unset_not_rcv] else []) @ [Wdog_notify, Wdog_suspend]))"

text \<open>From the end of the wait to the decision. The bits of the group are read and not cleared.\<close>

definition daemon_decide :: "daemon_env \<Rightarrow> daemon \<Rightarrow> dpm \<Rightarrow> daemon \<times> dpm \<times> dpm_action list" where
  "daemon_decide e d s =
     (let cnt = sleep_delay_cnt d - 1; d1 = d\<lparr>pc := D_top, sleep_delay_cnt := cnt\<rparr> in
      if dpm_mode s \<noteq> 0 \<and> cnt \<le> 0
      then (if reg_dpm_req_flag s \<noteq> 0 \<and> reg_dpm_req_flag s = dpm_sleep_set_flag s
            then (if \<not> sock_available e then (d1, s, [Wdog_notify, Wdog_suspend, Delay 2, Wdog_notify_and_resume])
                  else if \<not> external_xtal e then (d1, s, [Wdog_notify, Wdog_suspend, Delay 1])
                  else (d1\<lparr>pc := D_committed\<rparr>, s, [Wdog_notify, Wdog_suspend, Wdog_notify_and_resume]))
            else (d1\<lparr>sleep_delay_cnt := DPM_DAEMON_SLEEP_DELAY_CNT\<rparr>, s, []))
      else (if dpm_mode s \<noteq> 0 then d1 else d\<lparr>pc := D_top\<rparr>, s, []))"

definition daemon_woken :: "daemon_env \<Rightarrow> daemon \<Rightarrow> dpm \<Rightarrow> daemon \<times> dpm \<times> dpm_action list" where
  "daemon_woken e d s =
     (let ev = (case ev_group s of Some w \<Rightarrow> w | None \<Rightarrow> 0) AND (DPM_SLEEP_SET OR DPM_DAEMON_TRIGGER) in
      if ev = 0 then (d\<lparr>pc := D_top\<rparr>, s, [Wdog_notify_and_resume])
      else if dpm_daemon_hold_flag s
      then (d\<lparr>pc := D_top\<rparr>, s, [Wdog_notify_and_resume, Wdog_notify, Wdog_suspend, Delay 1, Wdog_notify_and_resume])
      else (let d1 = (if ev AND DPM_DAEMON_TRIGGER \<noteq> 0 then d
                      else d\<lparr>sleep_delay_cnt := DPM_DAEMON_SLEEP_DELAY_CNT\<rparr>)
            in if dpm_rtc_to_chk_flag s then (d1\<lparr>pc := D_top\<rparr>, s, [Wdog_notify_and_resume])
               else (let (d2, s2, acts) = daemon_decide e d1 s in (d2, s2, Wdog_notify_and_resume # acts))))"

text \<open>The way to the power-down, up to the call of the Wi-Fi driver.\<close>

definition daemon_commit :: "daemon_env \<Rightarrow> daemon \<Rightarrow> dpm \<Rightarrow> daemon \<times> dpm \<times> dpm_action list" where
  "daemon_commit e d s =
     (d\<lparr>pc := D_powering\<rparr>, s\<lparr>dpm_pdown_state := RUN_DPM_SLEEP\<rparr>,
      (if mng_save_rtm e \<and> has_sleep_cb e then [Sleep_callback] else []) @ [Set_not_rcv]
        @ (if runtime_cal e then [Wdog_notify, Wdog_suspend, Delay 1, Wdog_notify_and_resume] else [])
        @ (if ble_combo e then [Wdog_notify, Wdog_suspend, Combo_ready, Wdog_notify_and_resume] else [])
        @ [Power_off])"

text \<open>What follows from the result of that call. A power-down that works ends in an endless loop.\<close>

definition daemon_result :: "daemon_env \<Rightarrow> daemon \<Rightarrow> dpm \<Rightarrow> daemon \<times> dpm \<times> dpm_action list" where
  "daemon_result e d s =
     (let r = pdown_result e;
          s1 = s\<lparr>dpm_pdown_state := WAIT_DPM_SLEEP\<rparr>;
          d1 = d\<lparr>pc := D_top, sleep_delay_cnt := DPM_DAEMON_SLEEP_DELAY_CNT\<rparr>
      in if r = -1 \<or> r = -2 \<or> r = -3 then (d1, s1, [])
         else if r = -4
         then (d1, (case clr_dpm_sleep REG_NAME_DPM_SUPPLICANT s1 of Returns (_, s2) \<Rightarrow> s2 | Blocked \<Rightarrow> s1), [])
         else if r = 0
         then (d\<lparr>pc := D_off\<rparr>, s\<lparr>dpm_pdown_state := DONE_DPM_SLEEP\<rparr>, [Clear_rtc_exp, Wdog_notify, Wdog_suspend])
         else if dpm_sleep_try_chk_cnt d \<ge> MAX_CHECK_CNT_PS_CMD_FAIL
         then (d\<lparr>pc := D_top, dpm_sleep_try_chk_cnt := 0\<rparr>,
               s\<lparr>dpm_mac_err_flag := True, dpm_mac_err_max_try_reached_flag := True\<rparr>, [Connection_loss])
         else (d1\<lparr>dpm_sleep_try_chk_cnt := dpm_sleep_try_chk_cnt d + 1\<rparr>, s\<lparr>dpm_mac_err_flag := True\<rparr>, []))"

text \<open>One stretch of the daemon between two places where other tasks run.\<close>

definition daemon_step :: "daemon_env \<Rightarrow> daemon \<Rightarrow> dpm \<Rightarrow> daemon \<times> dpm \<times> dpm_action list" where
  "daemon_step e d s =
     (case pc d of
        D_top \<Rightarrow> daemon_top e d s
      | D_waiting \<Rightarrow> daemon_woken e d s
      | D_committed \<Rightarrow> daemon_commit e d s
      | D_powering \<Rightarrow> daemon_result e d s
      | D_off \<Rightarrow> (d, s, [Delay 10])
      | D_ended \<Rightarrow> (d, s, []))"

end
