(* ===== verification/Dpm_Props.thy ===== *)
theory Dpm_Props
  imports Dpm_Sleep
begin

text \<open>
  The table of the sleep manager as a pair of sets of names, the registered modules and those that have asked for
  sleep; its well-formedness; and the interface of the registry, with what follows from it for the tasks that use it.
\<close>

section \<open>Abstraction and invariant\<close>

definition name_at :: "dpm \<Rightarrow> nat \<Rightarrow> string" where
  "name_at s i = mod_name (sleep_list s ! i)"

definition registered :: "dpm \<Rightarrow> string set" where
  "registered s = {n. n \<noteq> [] \<and> (\<exists>i < 32. name_at s i = n)}"

definition asleep :: "dpm \<Rightarrow> string set" where
  "asleep s = {name_at s i | i. i < 32 \<and> bit (dpm_sleep_set_flag s) i}"

definition dpm_wf :: "dpm \<Rightarrow> bool" where
  "dpm_wf s \<longleftrightarrow> length (sleep_list s) = 32
     \<and> (\<forall>i < 32. bit (reg_dpm_req_flag s) i \<longleftrightarrow> name_at s i \<noteq> [])
     \<and> (\<forall>i < 32. bit (dpm_sleep_set_flag s) i \<longrightarrow> name_at s i \<noteq> [])
     \<and> (\<forall>i < 32. \<forall>j < 32. name_at s i = name_at s j \<longrightarrow> name_at s i \<noteq> [] \<longrightarrow> i = j)
     \<and> (\<forall>i < 32. name_at s i \<noteq> [] \<longrightarrow> bit_index (sleep_list s ! i) = of_nat i)"

lemma dpm_wfD:
  assumes "dpm_wf s"
  shows "length (sleep_list s) = 32" "i < 32 \<Longrightarrow> bit (reg_dpm_req_flag s) i \<longleftrightarrow> name_at s i \<noteq> []"
    "i < 32 \<Longrightarrow> bit (dpm_sleep_set_flag s) i \<Longrightarrow> name_at s i \<noteq> []"
    "i < 32 \<Longrightarrow> j < 32 \<Longrightarrow> name_at s i = name_at s j \<Longrightarrow> name_at s i \<noteq> [] \<Longrightarrow> i = j"
    "i < 32 \<Longrightarrow> name_at s i \<noteq> [] \<Longrightarrow> bit_index (sleep_list s ! i) = of_nat i"
  using assms unfolding dpm_wf_def by blast+

lemma dpm_wfI:
  assumes "length (sleep_list s) = 32" "\<And>i. i < 32 \<Longrightarrow> bit (reg_dpm_req_flag s) i \<longleftrightarrow> name_at s i \<noteq> []"
    "\<And>i. i < 32 \<Longrightarrow> bit (dpm_sleep_set_flag s) i \<Longrightarrow> name_at s i \<noteq> []"
    "\<And>i j. i < 32 \<Longrightarrow> j < 32 \<Longrightarrow> name_at s i = name_at s j \<Longrightarrow> name_at s i \<noteq> [] \<Longrightarrow> i = j"
    "\<And>i. i < 32 \<Longrightarrow> name_at s i \<noteq> [] \<Longrightarrow> bit_index (sleep_list s ! i) = of_nat i"
  shows "dpm_wf s"
  using assms unfolding dpm_wf_def by blast

lemma asleep_eq:
  assumes "\<And>j. j < 32 \<Longrightarrow> bit (dpm_sleep_set_flag t) j \<longleftrightarrow> bit (dpm_sleep_set_flag s) j \<and> j \<noteq> i"
    "\<And>j. j \<noteq> i \<Longrightarrow> name_at t j = name_at s j"
  shows "asleep t = {name_at s j | j. j < 32 \<and> bit (dpm_sleep_set_flag s) j \<and> j \<noteq> i}"
  unfolding asleep_def by (intro Collect_cong ex_cong1) (use assms in auto)

lemma find_upt_Some: "find P [0..<n] = Some i \<Longrightarrow> i < n \<and> P i"
  by (auto simp: find_Some_iff)

lemma find_upt_None: "find P [0..<n] = None \<longleftrightarrow> (\<forall>i < n. \<not> P i)"
  by (auto simp: find_None_iff)

lemma slot_Some: "slot n s = Some i \<Longrightarrow> i < 32 \<and> name_at s i = n"
  unfolding slot_def MAX_DPM_REQ_CNT_def name_at_def by (rule find_upt_Some)

lemma slot_None: "slot n s = None \<longleftrightarrow> (\<forall>i < 32. name_at s i \<noteq> n)"
  unfolding slot_def MAX_DPM_REQ_CNT_def name_at_def by (rule find_upt_None)

lemma slot_registered: "n \<noteq> [] \<Longrightarrow> slot n s \<noteq> None \<longleftrightarrow> n \<in> registered s"
  by (auto simp: slot_None registered_def)

lemma asleep_registered: "dpm_wf s \<Longrightarrow> asleep s \<subseteq> registered s"
  using dpm_wfD(3) by (fastforce simp: asleep_def registered_def)

lemma asleep_at: "dpm_wf s \<Longrightarrow> i < 32 \<Longrightarrow> name_at s i \<noteq> [] \<Longrightarrow> name_at s i \<in> asleep s \<longleftrightarrow> bit (dpm_sleep_set_flag s) i"
  using dpm_wfD(4) by (fastforce simp: asleep_def)

lemma name_at_upd:
  "length (sleep_list s) = 32 \<Longrightarrow> i < 32 \<Longrightarrow> name_at (upd_entry i f s) j = (if j = i then mod_name (f (sleep_list s ! i)) else name_at s j)"
  by (auto simp: name_at_def upd_entry_def nth_list_update_if)

lemma upd_entry_fields [simp]:
  "reg_dpm_req_flag (upd_entry i f s) = reg_dpm_req_flag s" "dpm_sleep_set_flag (upd_entry i f s) = dpm_sleep_set_flag s"
  "dpm_pdown_state (upd_entry i f s) = dpm_pdown_state s" "length (sleep_list (upd_entry i f s)) = length (sleep_list s)"
  "rtm_exist (upd_entry i f s) = rtm_exist s" "dpm_mode (upd_entry i f s) = dpm_mode s" "ev_group (upd_entry i f s) = ev_group s"
  "dpm_daemon_start_flag (upd_entry i f s) = dpm_daemon_start_flag s" "dpm_mac_err_flag (upd_entry i f s) = dpm_mac_err_flag s"
  by (simp_all add: upd_entry_def)

lemma ready_iff: "dpm_wf s \<Longrightarrow> is_dpm_sleep_ready s \<longleftrightarrow> asleep s = registered s"
proof
  assume w: "dpm_wf s" and r: "is_dpm_sleep_ready s"
  show "asleep s = registered s"
  proof
    show "registered s \<subseteq> asleep s"
    proof
      fix n assume "n \<in> registered s"
      then obtain i where i: "i < 32" "name_at s i = n" "n \<noteq> []" by (auto simp: registered_def)
      then have "bit (dpm_sleep_set_flag s) i" using dpm_wfD(2)[OF w] r by (simp add: is_dpm_sleep_ready_def)
      with i show "n \<in> asleep s" by (auto simp: asleep_def)
    qed
  qed (rule asleep_registered[OF w])
next
  assume w: "dpm_wf s" and e: "asleep s = registered s"
  have "bit (reg_dpm_req_flag s) i = bit (dpm_sleep_set_flag s) i" if "i < 32" for i
    using asleep_at[OF w that] dpm_wfD(2,3)[OF w that] e that by (auto simp: registered_def)
  then show "is_dpm_sleep_ready s" unfolding is_dpm_sleep_ready_def by (intro bit_word_eqI) simp
qed

lemma bit_or_bit32: "i < 32 \<Longrightarrow> bit (w OR bit32 i) j \<longleftrightarrow> bit w j \<or> j = i"
  by (simp add: bit_or_iff bit_bit32)

lemma bit_clear_bit32: "j < 32 \<Longrightarrow> bit (w AND NOT (bit32 i)) j \<longleftrightarrow> bit w j \<and> j \<noteq> i"
  by (auto simp: bit_and_iff bit_not_iff bit_bit32)

section \<open>The operations on the sets\<close>

text \<open>A new entry in the empty slot \<open>i\<close>.\<close>

lemma enter_entry:
  fixes p :: u32
  assumes w: "dpm_wf s" and i: "i < 32" "name_at s i = []" and n: "n \<noteq> []" "n \<notin> registered s"
  defines "t \<equiv> upd_entry i (\<lambda>x. x\<lparr>mod_name := n, port_number := p, bit_index := of_nat i\<rparr>)
    (s\<lparr>reg_dpm_req_flag := reg_dpm_req_flag s OR bit32 i, dpm_sleep_set_flag := dpm_sleep_set_flag s AND NOT (bit32 i)\<rparr>)"
  shows "dpm_wf t \<and> registered t = insert n (registered s) \<and> asleep t = asleep s"
proof (intro conjI)
  note len = dpm_wfD(1)[OF w]
  have nm: "name_at t j = (if j = i then n else name_at s j)" for j
    unfolding t_def using len i(1) by (simp add: name_at_upd) (simp add: name_at_def)
  have bi: "bit_index (sleep_list t ! j) = (if j = i then of_nat i else bit_index (sleep_list s ! j))" for j
    unfolding t_def upd_entry_def using len i(1) by (simp add: nth_list_update_if)
  have fl: "bit (reg_dpm_req_flag t) j \<longleftrightarrow> bit (reg_dpm_req_flag s) j \<or> j = i"
    "j < 32 \<Longrightarrow> bit (dpm_sleep_set_flag t) j \<longleftrightarrow> bit (dpm_sleep_set_flag s) j \<and> j \<noteq> i" for j
    unfolding t_def using i(1) by (simp_all add: bit_or_bit32 bit_clear_bit32)
  have ne: "name_at s j \<noteq> n" if "j < 32" for j using n that by (auto simp: registered_def)
  show "dpm_wf t"
  proof (rule dpm_wfI)
    show "length (sleep_list t) = 32" using len by (simp add: t_def)
    show "bit (reg_dpm_req_flag t) j \<longleftrightarrow> name_at t j \<noteq> []" if "j < 32" for j
      using fl(1)[of j] nm[of j] dpm_wfD(2)[OF w that] n(1) by simp
    show "name_at t j \<noteq> []" if "j < 32" "bit (dpm_sleep_set_flag t) j" for j
      using fl(2)[OF that(1)] nm[of j] dpm_wfD(3)[OF w that(1)] that(2) by simp
    show "j = k" if "j < 32" "k < 32" "name_at t j = name_at t k" "name_at t j \<noteq> []" for j k
      using that ne[of j] ne[of k] dpm_wfD(4)[OF w that(1,2)] unfolding nm by (auto split: if_splits)
    show "bit_index (sleep_list t ! j) = of_nat j" if "j < 32" "name_at t j \<noteq> []" for j
      using that dpm_wfD(5)[OF w that(1)] unfolding nm bi by (auto split: if_splits)
  qed
  show "registered t = insert n (registered s)" unfolding registered_def nm using n(1) i by auto
  have nb: "\<not> bit (dpm_sleep_set_flag s) i" using dpm_wfD(3)[OF w i(1)] i(2) by blast
  have "asleep t = {name_at s j | j. j < 32 \<and> bit (dpm_sleep_set_flag s) j \<and> j \<noteq> i}"
    by (rule asleep_eq[OF fl(2)]) (simp_all add: nm)
  also have "\<dots> = asleep s" unfolding asleep_def using nb by (intro Collect_cong ex_cong1) auto
  finally show "asleep t = asleep s" .
qed

lemma asleep_without:
  assumes w: "dpm_wf s" and i: "i < 32" "name_at s i = n"
  shows "{name_at s j | j. j < 32 \<and> bit (dpm_sleep_set_flag s) j \<and> j \<noteq> i} = asleep s - {n}"
proof -
  have "j \<noteq> i \<longleftrightarrow> name_at s j \<noteq> n" if "j < 32" "bit (dpm_sleep_set_flag s) j" for j
    using dpm_wfD(4)[OF w that(1) i(1)] i(2) dpm_wfD(3)[OF w that] by auto
  then have "{name_at s j | j. j < 32 \<and> bit (dpm_sleep_set_flag s) j \<and> j \<noteq> i}
      = {name_at s j | j. j < 32 \<and> bit (dpm_sleep_set_flag s) j \<and> name_at s j \<noteq> n}"
    by (intro Collect_cong ex_cong1) auto
  also have "\<dots> = asleep s - {n}" unfolding asleep_def by blast
  finally show ?thesis .
qed

text \<open>An entry is removed.\<close>

lemma leave_entry:
  assumes w: "dpm_wf s" and i: "i < 32" "name_at s i = n"
  defines "t \<equiv> upd_entry i (\<lambda>x. x\<lparr>mod_name := [], bit_index := 0\<rparr>)
    (s\<lparr>reg_dpm_req_flag := reg_dpm_req_flag s AND NOT (bit32 i), dpm_sleep_set_flag := dpm_sleep_set_flag s AND NOT (bit32 i)\<rparr>)"
  shows "dpm_wf t \<and> registered t = registered s - {n} \<and> asleep t = asleep s - {n}"
proof (intro conjI)
  note len = dpm_wfD(1)[OF w]
  have nm: "name_at t j = (if j = i then [] else name_at s j)" for j
    unfolding t_def using len i(1) by (simp add: name_at_upd) (simp add: name_at_def)
  have bi: "bit_index (sleep_list t ! j) = (if j = i then 0 else bit_index (sleep_list s ! j))" for j
    unfolding t_def upd_entry_def using len i(1) by (simp add: nth_list_update_if)
  have fl: "j < 32 \<Longrightarrow> bit (reg_dpm_req_flag t) j \<longleftrightarrow> bit (reg_dpm_req_flag s) j \<and> j \<noteq> i"
    "j < 32 \<Longrightarrow> bit (dpm_sleep_set_flag t) j \<longleftrightarrow> bit (dpm_sleep_set_flag s) j \<and> j \<noteq> i" for j
    unfolding t_def by (simp_all add: bit_clear_bit32)
  have ne: "name_at s j = n \<Longrightarrow> n \<noteq> [] \<Longrightarrow> j < 32 \<Longrightarrow> j = i" for j using dpm_wfD(4)[OF w _ i(1), of j] i(2) by simp
  show "dpm_wf t"
  proof (rule dpm_wfI)
    show "length (sleep_list t) = 32" using len by (simp add: t_def)
    show "bit (reg_dpm_req_flag t) j \<longleftrightarrow> name_at t j \<noteq> []" if "j < 32" for j
      using fl(1)[OF that] nm[of j] dpm_wfD(2)[OF w that] by simp
    show "name_at t j \<noteq> []" if "j < 32" "bit (dpm_sleep_set_flag t) j" for j
      using fl(2)[OF that(1)] nm[of j] dpm_wfD(3)[OF w that(1)] that(2) by simp
    show "j = k" if "j < 32" "k < 32" "name_at t j = name_at t k" "name_at t j \<noteq> []" for j k
      using that dpm_wfD(4)[OF w that(1,2)] unfolding nm by (auto split: if_splits)
    show "bit_index (sleep_list t ! j) = of_nat j" if "j < 32" "name_at t j \<noteq> []" for j
      using that dpm_wfD(5)[OF w that(1)] unfolding nm bi by (auto split: if_splits)
  qed
  show "registered t = registered s - {n}"
  proof (rule set_eqI)
    fix x
    have "(\<exists>j < 32. name_at t j = x) \<longleftrightarrow> (\<exists>j < 32. name_at s j = x) \<and> x \<noteq> n" if "x \<noteq> []"
    proof (cases "x = n")
      case True
      then have "name_at t j \<noteq> x" if "j < 32" for j using ne[of j] that \<open>x \<noteq> []\<close> by (auto simp: nm)
      with True show ?thesis by blast
    next
      case False
      then have "name_at t j = x \<longleftrightarrow> name_at s j = x" for j using that i(2) by (simp add: nm)
      with False show ?thesis by simp
    qed
    then show "x \<in> registered t \<longleftrightarrow> x \<in> registered s - {n}" by (auto simp: registered_def)
  qed
  have "asleep t = {name_at s j | j. j < 32 \<and> bit (dpm_sleep_set_flag s) j \<and> j \<noteq> i}"
    by (rule asleep_eq[OF fl(2)]) (simp_all add: nm)
  also have "\<dots> = asleep s - {n}" by (rule asleep_without[OF w i])
  finally show "asleep t = asleep s - {n}" .
qed

text \<open>The bit of an entry is set or cleared.\<close>

lemma set_bit_entry:
  assumes w: "dpm_wf s" and i: "i < 32" "name_at s i = n" "n \<noteq> []"
    and t: "sleep_list t = sleep_list s" "reg_dpm_req_flag t = reg_dpm_req_flag s" "dpm_sleep_set_flag t = dpm_sleep_set_flag s OR bit32 i"
  shows "dpm_wf t \<and> registered t = registered s \<and> asleep t = insert n (asleep s)"
proof -
  have nm: "name_at t j = name_at s j" for j by (simp add: name_at_def t(1))
  have "dpm_wf t" unfolding dpm_wf_def nm t using dpm_wfD[OF w] i by (auto simp: bit_or_bit32)
  moreover have "registered t = registered s" by (simp add: registered_def nm)
  moreover have "asleep t = insert n (asleep s)" unfolding asleep_def nm t(3) using i by (auto simp: bit_or_bit32)
  ultimately show ?thesis by blast
qed

lemma clear_bit_entry:
  assumes w: "dpm_wf s" and i: "i < 32" "name_at s i = n" "n \<noteq> []"
    and t: "sleep_list t = sleep_list s" "reg_dpm_req_flag t = reg_dpm_req_flag s" "dpm_sleep_set_flag t = dpm_sleep_set_flag s AND NOT (bit32 i)"
  shows "dpm_wf t \<and> registered t = registered s \<and> asleep t = asleep s - {n}"
proof -
  have nm: "name_at t j = name_at s j" for j by (simp add: name_at_def t(1))
  have "dpm_wf t" unfolding dpm_wf_def nm t using dpm_wfD[OF w] by (auto simp: bit_clear_bit32)
  moreover have "registered t = registered s" by (simp add: registered_def nm)
  moreover have "asleep t = asleep s - {n}"
    unfolding asleep_without[OF w i(1,2), symmetric] by (rule asleep_eq) (simp_all add: nm t(3) bit_clear_bit32)
  ultimately show ?thesis by blast
qed

lemma table_full: "dpm_wf s \<Longrightarrow> slot [] s = None \<longleftrightarrow> card (registered s) = 32"
proof -
  assume w: "dpm_wf s"
  define I where "I = {i. i < 32 \<and> name_at s i \<noteq> []}"
  have inj: "inj_on (name_at s) I" unfolding I_def by (intro inj_onI) (use dpm_wfD(4)[OF w] in auto)
  have "registered s = name_at s ` I" by (auto simp: registered_def I_def)
  then have c: "card (registered s) = card I" using card_image[OF inj] by simp
  have I: "I \<subseteq> {..<32}" by (auto simp: I_def)
  have "slot [] s = None \<longleftrightarrow> I = {..<32}" by (auto simp: slot_None I_def)
  also have "\<dots> \<longleftrightarrow> card I = 32" using card_subset_eq[OF _ I] by auto
  finally show ?thesis by (simp add: c)
qed

lemma reg_spec:
  assumes "dpm_wf s" "chk_dpm_mode s" "n \<noteq> []" "length n < 20"
  shows "\<exists>r t. reg_dpm_sleep True True n p s = Some (r, t) \<and> dpm_wf t \<and>
    (if n \<in> registered s then r = DPM_REG_DUP_NAME \<and> t = s
     else if card (registered s) = 32 then r = DPM_REG_ERR \<and> t = s
     else r = DPM_REG_OK \<and> registered t = insert n (registered s) \<and> asleep t = asleep s)"
proof (cases "n \<in> registered s")
  case True
  then show ?thesis using assms slot_registered[OF assms(3), of s] by (simp add: reg_dpm_sleep_def chk_dpm_reg_state_def)
next
  case new: False
  then have c: "chk_dpm_reg_state n s \<noteq> DPM_REG_DUP_NAME"
    using slot_registered[OF assms(3), of s] by (simp add: chk_dpm_reg_state_def DPM_NOT_REGISTERED_def DPM_REG_DUP_NAME_def)
  show ?thesis
  proof (cases "slot [] s")
    case None
    then show ?thesis using new assms c table_full[OF assms(1)] by (simp add: reg_dpm_sleep_def)
  next
    case (Some i)
    then have i: "i < 32" "name_at s i = []" and nf: "card (registered s) \<noteq> 32"
      using slot_Some[OF Some] table_full[OF assms(1)] by auto
    from enter_entry[OF assms(1) i assms(3) new, of p] show ?thesis
      using new assms c Some nf by (simp add: reg_dpm_sleep_def REG_NAME_DPM_MAX_LEN_def)
  qed
qed

lemma unreg_spec:
  assumes "dpm_wf s" "chk_dpm_mode s" "n \<noteq> []"
  shows "dpm_wf (unreg_dpm_sleep True n s) \<and> registered (unreg_dpm_sleep True n s) = registered s - {n}
    \<and> asleep (unreg_dpm_sleep True n s) = asleep s - {n}"
proof (cases "slot n s")
  case None
  then have "n \<notin> registered s" using slot_registered[OF assms(3), of s] by simp
  then show ?thesis using None assms asleep_registered[OF assms(1)] by (auto simp: unreg_dpm_sleep_def)
next
  case (Some i)
  from leave_entry[OF assms(1)] slot_Some[OF Some] show ?thesis using Some assms(2) by (simp add: unreg_dpm_sleep_def)
qed

lemma set_index_same:
  assumes "dpm_wf s" "i < 32" "name_at s i \<noteq> []"
  shows "upd_entry i (\<lambda>x. x\<lparr>bit_index := of_nat i\<rparr>) s = s"
proof -
  have "(sleep_list s ! i)\<lparr>bit_index := of_nat i\<rparr> = sleep_list s ! i" using dpm_wfD(5)[OF assms] by (metis dpm_list_table.surjective dpm_list_table.update_convs(2))
  then show ?thesis using dpm_wfD(1)[OF assms(1)] by (simp add: upd_entry_def)
qed

lemma set_event_fields [simp]:
  "sleep_list (set_event b s) = sleep_list s" "reg_dpm_req_flag (set_event b s) = reg_dpm_req_flag s"
  "dpm_sleep_set_flag (set_event b s) = dpm_sleep_set_flag s" "dpm_pdown_state (set_event b s) = dpm_pdown_state s"
  "dpm_daemon_start_flag (set_event b s) = dpm_daemon_start_flag s" "dpm_mac_err_flag (set_event b s) = dpm_mac_err_flag s"
  "rtm_exist (set_event b s) = rtm_exist s" "dpm_mode (set_event b s) = dpm_mode s"
  by (simp_all add: set_event_def)

lemma set_spec:
  assumes w: "dpm_wf s" and m: "chk_dpm_mode s" "dpm_pdown_state s = WAIT_DPM_SLEEP \<or> trx_module n" and n: "n \<noteq> []"
  shows "\<exists>r t. set_dpm_sleep n s = Returns (r, t) \<and> dpm_wf t \<and>
    (if n \<in> registered s then r = DPM_SET_OK \<and> registered t = registered s \<and> asleep t = insert n (asleep s)
     else r = DPM_NOT_REGISTERED \<and> t = s)"
proof (cases "slot n s")
  case None
  then have "n \<notin> registered s" using slot_registered[OF n, of s] by simp
  then show ?thesis using None assms by (auto simp: set_dpm_sleep_def)
next
  case (Some i)
  have i: "i < 32" "name_at s i = n" and r: "n \<in> registered s" using slot_Some[OF Some] slot_registered[OF n, of s] Some by auto
  have same: "upd_entry i (\<lambda>x. x\<lparr>bit_index := of_nat i\<rparr>) s = s" using set_index_same[OF w i(1)] i(2) n by simp
  show ?thesis
  proof (cases "dpm_sleep_set_flag s AND bit32 i = 1")
    case True
    then have "dpm_sleep_set_flag s AND bit32 i \<noteq> 0" by simp
    then have "bit (dpm_sleep_set_flag s) i" by (simp add: mask_simps)
    then have "asleep s = insert n (asleep s)" using asleep_at[OF w i(1)] i(2) n by auto
    then show ?thesis using True Some m r w by (auto simp: set_dpm_sleep_def same Let_def)
  next
    case False
    define t where "t = s\<lparr>dpm_sleep_set_flag := dpm_sleep_set_flag s OR bit32 i\<rparr>"
    have t: "dpm_wf t \<and> registered t = registered s \<and> asleep t = insert n (asleep s)"
      "dpm_wf (set_event DPM_SLEEP_SET t) \<and> registered (set_event DPM_SLEEP_SET t) = registered s
        \<and> asleep (set_event DPM_SLEEP_SET t) = insert n (asleep s)"
      by (rule set_bit_entry[OF w i n]; simp add: t_def)+
    show ?thesis using t False Some m r by (auto simp: set_dpm_sleep_def same Let_def t_def[symmetric])
  qed
qed

lemma clr_spec:
  assumes w: "dpm_wf s" and m: "chk_dpm_mode s" "dpm_pdown_state s = WAIT_DPM_SLEEP \<or> trx_module n" and n: "n \<noteq> []"
  shows "\<exists>r t. clr_dpm_sleep n s = Returns (r, t) \<and> dpm_wf t \<and>
    (if n \<in> registered s then r = DPM_SET_OK \<and> registered t = registered s \<and> asleep t = asleep s - {n}
     else r = DPM_SET_ERR \<and> t = s)"
proof (cases "slot n s")
  case None
  then have "n \<notin> registered s" using slot_registered[OF n, of s] by simp
  then show ?thesis using None assms by (auto simp: clr_dpm_sleep_def)
next
  case (Some i)
  have i: "i < 32" "name_at s i = n" and r: "n \<in> registered s" using slot_Some[OF Some] slot_registered[OF n, of s] Some by auto
  have "bit_index (sleep_list s ! i) = of_nat i" using dpm_wfD(5)[OF w i(1)] i(2) n by simp
  then have b: "unat (bit_index (sleep_list s ! i)) = i" using i(1) by (simp add: unsigned_of_nat take_bit_nat_eq_self)
  define t where "t = s\<lparr>dpm_sleep_set_flag := dpm_sleep_set_flag s AND NOT (bit32 i)\<rparr>"
  have "dpm_wf t \<and> registered t = registered s \<and> asleep t = asleep s - {n}"
    by (rule clear_bit_entry[OF w i n]) (simp_all add: t_def)
  then show ?thesis using Some m r by (auto simp: clr_dpm_sleep_def b t_def[symmetric])
qed

section \<open>The interface of the registry\<close>

datatype dpm_op = Register string u32 | Unregister string | Ask string | Wake string

fun op_name :: "dpm_op \<Rightarrow> string" where
  "op_name (Register n p) = n"
| "op_name (Unregister n) = n"
| "op_name (Ask n) = n"
| "op_name (Wake n) = n"

definition valid_op :: "dpm_op \<Rightarrow> bool" where
  "valid_op c \<longleftrightarrow> op_name c \<noteq> [] \<and> length (op_name c) < REG_NAME_DPM_MAX_LEN"

text \<open>One call of a task; a call that blocks leaves the state as it is.\<close>

fun dpm_call :: "dpm_op \<Rightarrow> dpm \<Rightarrow> dpm" where
  "dpm_call (Register n p) s = (case reg_dpm_sleep True True n p s of Some (_, t) \<Rightarrow> t | None \<Rightarrow> s)"
| "dpm_call (Unregister n) s = unreg_dpm_sleep True n s"
| "dpm_call (Ask n) s = (case set_dpm_sleep n s of Returns (_, t) \<Rightarrow> t | Blocked \<Rightarrow> s)"
| "dpm_call (Wake n) s = (case clr_dpm_sleep n s of Returns (_, t) \<Rightarrow> t | Blocked \<Rightarrow> s)"

lemma call_effect:
  assumes "dpm_wf s" "valid_op c"
  defines "t \<equiv> dpm_call c s"
  shows "dpm_wf t \<and> (t = s \<or> (case c of
      Register n p \<Rightarrow> registered t \<in> {registered s, insert n (registered s)} \<and> asleep t = asleep s
    | Unregister n \<Rightarrow> registered t = registered s - {n} \<and> asleep t = asleep s - {n}
    | Ask n \<Rightarrow> registered t = registered s \<and> asleep t = insert n (asleep s)
    | Wake n \<Rightarrow> registered t = registered s \<and> asleep t = asleep s - {n}))"
proof (cases "chk_dpm_mode s")
  case False
  then show ?thesis using assms(1) unfolding t_def
    by (cases c) (simp_all add: reg_dpm_sleep_def unreg_dpm_sleep_def set_dpm_sleep_def clr_dpm_sleep_def)
next
  case mode: True
  note v = assms(2)[unfolded valid_op_def REG_NAME_DPM_MAX_LEN_def]
  show ?thesis
  proof (cases c)
    case (Register n p)
    have n: "n \<noteq> []" "length n < 20" using v Register by simp_all
    obtain r t' where t': "reg_dpm_sleep True True n p s = Some (r, t')" "dpm_wf t'"
      "t' = s \<or> registered t' = insert n (registered s) \<and> asleep t' = asleep s"
      using reg_spec[OF assms(1) mode n, of p] by metis
    then show ?thesis by (auto simp: t_def Register)
  next
    case (Unregister n)
    then show ?thesis using unreg_spec[OF assms(1) mode, of n] v unfolding t_def by auto
  next
    case (Ask n)
    show ?thesis
    proof (cases "dpm_pdown_state s = WAIT_DPM_SLEEP \<or> trx_module n")
      case True
      have n: "n \<noteq> []" using v Ask by simp
      obtain r t' where "set_dpm_sleep n s = Returns (r, t')" "dpm_wf t'"
        "t' = s \<or> registered t' = registered s \<and> asleep t' = insert n (asleep s)"
        using set_spec[OF assms(1) mode True n] by metis
      then show ?thesis by (auto simp: t_def Ask)
    next
      case False
      then show ?thesis using Ask mode assms(1) unfolding t_def by (simp add: set_dpm_sleep_def)
    qed
  next
    case (Wake n)
    show ?thesis
    proof (cases "dpm_pdown_state s = WAIT_DPM_SLEEP \<or> trx_module n")
      case True
      have n: "n \<noteq> []" using v Wake by simp
      obtain r t' where "clr_dpm_sleep n s = Returns (r, t')" "dpm_wf t'"
        "t' = s \<or> registered t' = registered s \<and> asleep t' = asleep s - {n}"
        using clr_spec[OF assms(1) mode True n] by metis
      then show ?thesis by (auto simp: t_def Wake)
    next
      case False
      then show ?thesis using Wake mode assms(1) unfolding t_def by (simp add: clr_dpm_sleep_def)
    qed
  qed
qed

text \<open>
  What a task relies on: only its own request counts for it, and the chip is ready to sleep exactly when
  all registered modules have asked.
\<close>

locale sleep_registry =
  fixes ok :: "'s \<Rightarrow> bool" and call :: "dpm_op \<Rightarrow> 's \<Rightarrow> 's"
    and regs asks :: "'s \<Rightarrow> string set" and ready :: "'s \<Rightarrow> bool"
  assumes call_ok: "ok s \<Longrightarrow> valid_op c \<Longrightarrow> ok (call c s)"
    and ready_all: "ok s \<Longrightarrow> ready s \<longleftrightarrow> asks s = regs s"
    and regs_kept: "ok s \<Longrightarrow> valid_op c \<Longrightarrow> c \<noteq> Unregister n \<Longrightarrow> n \<in> regs s \<Longrightarrow> n \<in> regs (call c s)"
    and asks_own: "ok s \<Longrightarrow> valid_op c \<Longrightarrow> c \<noteq> Ask n \<Longrightarrow> n \<notin> asks s \<Longrightarrow> n \<notin> asks (call c s)"
begin

lemma run_ok: "ok s \<Longrightarrow> \<forall>c \<in> set cs. valid_op c \<Longrightarrow> ok (fold call cs s)"
  by (induction cs arbitrary: s) (auto intro: call_ok)

lemma busy_kept:
  assumes "ok s" "\<forall>c \<in> set cs. valid_op c \<and> c \<noteq> Unregister n \<and> c \<noteq> Ask n" "n \<in> regs s" "n \<notin> asks s"
  shows "n \<in> regs (fold call cs s) \<and> n \<notin> asks (fold call cs s)"
  using assms
proof (induction cs arbitrary: s)
  case (Cons c cs)
  from Cons.prems have "ok (call c s)" "n \<in> regs (call c s)" "n \<notin> asks (call c s)"
    by (simp_all add: call_ok regs_kept asks_own)
  with Cons.IH[of "call c s"] Cons.prems(2) show ?case by simp
qed simp

lemma busy_blocks:
  assumes "ok s" "\<forall>c \<in> set cs. valid_op c \<and> c \<noteq> Unregister n \<and> c \<noteq> Ask n" "n \<in> regs s" "n \<notin> asks s"
  shows "\<not> ready (fold call cs s)"
  using busy_kept[OF assms] ready_all[OF run_ok[OF assms(1)], of cs] assms(2) by blast

end

interpretation dpm_impl: sleep_registry dpm_wf dpm_call registered asleep is_dpm_sleep_ready
proof
  fix s c assume w: "dpm_wf s" and v: "valid_op c"
  note eff = call_effect[OF w v]
  show "dpm_wf (dpm_call c s)" using eff by blast
  show "n \<in> registered (dpm_call c s)" if "c \<noteq> Unregister n" "n \<in> registered s" for n
    using eff that by (cases c) auto
  show "n \<notin> asleep (dpm_call c s)" if "c \<noteq> Ask n" "n \<notin> asleep s" for n
    using eff that by (cases c) auto
qed (rule ready_iff)

end
