(* ===== verification/Dpm_Daemon.thy ===== *)
theory Dpm_Daemon
  imports Dpm_Props
begin

text \<open>
  The daemon of the sleep manager among the tasks that call it: a step relation in which the daemon, the timer that triggers it
  and the calls of the tasks interleave; the states it reaches; when it powers the chip down and when it does not.
\<close>

section \<open>Steps\<close>

datatype dpm_label = Ran "dpm_action list" | Called dpm_op | Triggered | Held | Resumed | Cmd_hold bool | Rtc_running bool

inductive dpm_step :: "daemon \<times> dpm \<Rightarrow> dpm_label \<Rightarrow> daemon \<times> dpm \<Rightarrow> bool" where
  daemon_runs: "daemon_step e d s = (d', s', acts) \<Longrightarrow> dpm_step (d, s) (Ran acts) (d', s')"
| task_calls: "valid_op c \<Longrightarrow> dpm_step (d, s) (Called c) (d, dpm_call c s)"
| timer_ticks: "dpm_step (d, s) Triggered (d, dpm_trigger_timer_fn s)"
| task_holds: "dpm_step (d, s) Held (d, fst (hold_dpm_sleepd s))"
| task_resumes: "dpm_step (d, s) Resumed (d, resume_dpm_sleepd s)"
| command_holds: "dpm_step (d, s) (Cmd_hold b) (d, s\<lparr>dpm_daemon_cmd_hold_flag := b\<rparr>)"
| rtc_runs: "dpm_step (d, s) (Rtc_running b) (d, s\<lparr>dpm_rtc_to_chk_flag := b\<rparr>)"

inductive dpm_run :: "daemon \<times> dpm \<Rightarrow> dpm_label list \<Rightarrow> daemon \<times> dpm \<Rightarrow> bool" where
  run_nil: "dpm_run x [] x"
| run_cons: "dpm_step x l y \<Longrightarrow> dpm_run y ls z \<Longrightarrow> dpm_run x (l # ls) z"

inductive_cases dpm_run_consE: "dpm_run x (l # ls) z"

definition dpm_start :: "u8 \<Rightarrow> dpm" where
  "dpm_start m = init_dpm_sleep_daemon True True (dpm_boot m)"

section \<open>Invariant\<close>

text \<open>
  The table is well-formed, the counters are in their range, and a power-down that has begun is either in the hands of
  the Wi-Fi driver or marked as failed, so that the next tick of the timer ends it.
\<close>

definition dpm_inv :: "daemon \<Rightarrow> dpm \<Rightarrow> bool" where
  "dpm_inv d s \<longleftrightarrow> dpm_wf s \<and> chk_dpm_mode s \<and> dpm_daemon_start_flag s \<and> ev_group s \<noteq> None
     \<and> sleep_delay_cnt d \<le> 2 \<and> 0 \<le> dpm_sleep_try_chk_cnt d \<and> dpm_sleep_try_chk_cnt d \<le> 10
     \<and> (dpm_pdown_state s = RUN_DPM_SLEEP \<longrightarrow> dpm_mac_err_flag s \<or> pc d = D_powering) \<and> (dpm_pdown_state s = DONE_DPM_SLEEP \<longrightarrow> pc d = D_off)"

text \<open>Well-formedness and the sets depend on the table and the two flags only.\<close>

lemma table_cong:
  assumes "sleep_list t = sleep_list s" "reg_dpm_req_flag t = reg_dpm_req_flag s" "dpm_sleep_set_flag t = dpm_sleep_set_flag s"
  shows "dpm_wf t = dpm_wf s" "registered t = registered s" "asleep t = asleep s"
  using assms by (simp_all add: dpm_wf_def registered_def asleep_def name_at_def)

definition same_control :: "dpm \<Rightarrow> dpm \<Rightarrow> bool" where
  "same_control s t \<longleftrightarrow> rtm_exist t = rtm_exist s \<and> dpm_mode t = dpm_mode s \<and> dpm_pdown_state t = dpm_pdown_state s
     \<and> dpm_daemon_start_flag t = dpm_daemon_start_flag s \<and> dpm_mac_err_flag t = dpm_mac_err_flag s \<and> (ev_group t = None \<longleftrightarrow> ev_group s = None)
     \<and> dpm_daemon_hold_flag t = dpm_daemon_hold_flag s \<and> dpm_daemon_cmd_hold_flag t = dpm_daemon_cmd_hold_flag s
     \<and> dpm_rtc_to_chk_flag t = dpm_rtc_to_chk_flag s"

lemma call_control: "same_control s (dpm_call c s)"
  by (cases c) (simp_all add: same_control_def reg_dpm_sleep_def unreg_dpm_sleep_def set_dpm_sleep_def clr_dpm_sleep_def
      upd_entry_def set_event_def Let_def split: option.split call.split)

lemma clr_supplicant:
  assumes "dpm_wf s"
  defines "t \<equiv> (case clr_dpm_sleep REG_NAME_DPM_SUPPLICANT s of Returns (_, u) \<Rightarrow> u | Blocked \<Rightarrow> s)"
  shows "dpm_wf t" "same_control s t"
proof -
  have t: "t = dpm_call (Wake REG_NAME_DPM_SUPPLICANT) s" by (simp add: t_def)
  have "valid_op (Wake REG_NAME_DPM_SUPPLICANT)"
    by (simp add: valid_op_def REG_NAME_DPM_SUPPLICANT_def REG_NAME_DPM_MAX_LEN_def)
  then show "dpm_wf t" unfolding t by (rule dpm_impl.call_ok[OF assms(1)])
  show "same_control s t" unfolding t by (rule call_control)
qed

text \<open>Up to the commitment the daemon changes its own variables only.\<close>

definition before_commit :: "daemon \<Rightarrow> dpm \<Rightarrow> daemon \<times> dpm \<times> dpm_action list \<Rightarrow> bool" where
  "before_commit d s x \<longleftrightarrow> (case x of (d', s', acts) \<Rightarrow>
     s' = s \<and> Power_off \<notin> set acts \<and> dpm_sleep_try_chk_cnt d' = dpm_sleep_try_chk_cnt d
     \<and> (sleep_delay_cnt d \<le> 2 \<longrightarrow> sleep_delay_cnt d' \<le> 2) \<and> (pc d' = D_off \<longleftrightarrow> pc d = D_off) \<and> pc d' \<noteq> D_powering
     \<and> (pc d' = D_committed \<longrightarrow> pc d = D_waiting \<and> reg_dpm_req_flag s \<noteq> 0 \<and> is_dpm_sleep_ready s
          \<and> \<not> dpm_daemon_hold_flag s \<and> \<not> dpm_rtc_to_chk_flag s \<and> dpm_mode s \<noteq> 0))"

lemma daemon_top_before: "pc d = D_top \<Longrightarrow> before_commit d s (daemon_top e d s)"
  by (simp add: before_commit_def daemon_top_def)

lemma daemon_decide_before:
  "pc d = D_waiting \<Longrightarrow> \<not> dpm_daemon_hold_flag s \<Longrightarrow> \<not> dpm_rtc_to_chk_flag s \<Longrightarrow> before_commit d s (daemon_decide e d s)"
  by (simp add: before_commit_def daemon_decide_def Let_def is_dpm_sleep_ready_def DPM_DAEMON_SLEEP_DELAY_CNT_def) auto

lemma daemon_woken_before:
  assumes "pc d = D_waiting"
  shows "before_commit d s (daemon_woken e d s)"
proof -
  define ev where "ev = (case ev_group s of Some w \<Rightarrow> w | None \<Rightarrow> 0) AND (DPM_SLEEP_SET OR DPM_DAEMON_TRIGGER)"
  define d1 where "d1 = (if ev AND DPM_DAEMON_TRIGGER \<noteq> 0 then d else d\<lparr>sleep_delay_cnt := DPM_DAEMON_SLEEP_DELAY_CNT\<rparr>)"
  have d1: "pc d1 = D_waiting" "sleep_delay_cnt d \<le> 2 \<Longrightarrow> sleep_delay_cnt d1 \<le> 2" "dpm_sleep_try_chk_cnt d1 = dpm_sleep_try_chk_cnt d"
    using assms by (simp_all add: d1_def DPM_DAEMON_SLEEP_DELAY_CNT_def)
  obtain d2 s2 acts where dec: "daemon_decide e d1 s = (d2, s2, acts)" by (cases "daemon_decide e d1 s")
  consider "ev = 0" | "ev \<noteq> 0" "dpm_daemon_hold_flag s" | "ev \<noteq> 0" "\<not> dpm_daemon_hold_flag s" "dpm_rtc_to_chk_flag s"
    | "ev \<noteq> 0" "\<not> dpm_daemon_hold_flag s" "\<not> dpm_rtc_to_chk_flag s" by blast
  then show ?thesis
  proof cases
    case 4
    then have "daemon_woken e d s = (d2, s2, Wdog_notify_and_resume # acts)"
      unfolding daemon_woken_def Let_def ev_def[symmetric] d1_def[symmetric] by (simp add: dec)
    then show ?thesis using daemon_decide_before[OF d1(1) 4(2,3), of e] d1 assms unfolding dec by (simp add: before_commit_def)
  qed (use d1 assms in \<open>simp_all add: daemon_woken_def Let_def ev_def[symmetric] d1_def[symmetric] before_commit_def\<close>)
qed

lemma daemon_before_commit:
  assumes "daemon_step e d s = (d', s', acts)" "pc d \<noteq> D_committed" "pc d \<noteq> D_powering"
  shows "before_commit d s (d', s', acts)"
proof (cases "pc d")
  case D_top
  with daemon_top_before[OF this, of s e] assms(1) show ?thesis by (simp add: daemon_step_def)
next
  case D_waiting
  with daemon_woken_before[OF this, of s e] assms(1) show ?thesis by (simp add: daemon_step_def)
qed (use assms in \<open>auto simp: daemon_step_def before_commit_def\<close>)

lemma commit_powers_off: "daemon_commit e d s = (d', s', acts) \<Longrightarrow> Power_off \<in> set acts"
  by (auto simp: daemon_commit_def)

lemma daemon_commit_inv:
  assumes "dpm_inv d s" "daemon_commit e d s = (d', s', acts)"
  shows "dpm_inv d' s'"
  using assms table_cong(1)[of "s\<lparr>dpm_pdown_state := RUN_DPM_SLEEP\<rparr>" s]
  by (auto simp: dpm_inv_def daemon_commit_def chk_dpm_mode_def)

text \<open>What the result of the driver can change: one of five states, and the table only for a lost connection.\<close>

lemma daemon_result_cases:
  assumes "daemon_result e d s = (d', s', acts)"
  defines "w \<equiv> s\<lparr>dpm_pdown_state := WAIT_DPM_SLEEP\<rparr>"
  shows "s' = w \<or> s' = (case clr_dpm_sleep REG_NAME_DPM_SUPPLICANT w of Returns (_, u) \<Rightarrow> u | Blocked \<Rightarrow> w)
      \<or> s' = s\<lparr>dpm_pdown_state := DONE_DPM_SLEEP\<rparr> \<and> pc d' = D_off
      \<or> s' = s\<lparr>dpm_mac_err_flag := True, dpm_mac_err_max_try_reached_flag := True\<rparr>
      \<or> s' = s\<lparr>dpm_mac_err_flag := True\<rparr>"
    and "pc d' = D_top \<or> pc d' = D_off" "Power_off \<notin> set acts"
  using assms unfolding daemon_result_def Let_def by (auto split: if_splits)

lemma daemon_result_inv:
  assumes "dpm_inv d s" "daemon_result e d s = (d', s', acts)" "dpm_pdown_state s = DONE_DPM_SLEEP \<Longrightarrow> pc d' = D_off"
  shows "dpm_inv d' s'"
proof -
  have i: "dpm_wf s" "chk_dpm_mode s" "dpm_daemon_start_flag s" "ev_group s \<noteq> None" "sleep_delay_cnt d \<le> 2"
    "0 \<le> dpm_sleep_try_chk_cnt d" "dpm_sleep_try_chk_cnt d \<le> 10"
    using assms(1) by (simp_all add: dpm_inv_def)
  define w where "w = s\<lparr>dpm_pdown_state := WAIT_DPM_SLEEP\<rparr>"
  have w: "dpm_wf w" using i(1) table_cong(1)[of w s] by (simp add: w_def)
  have d': "sleep_delay_cnt d' \<le> 2" "0 \<le> dpm_sleep_try_chk_cnt d'" "dpm_sleep_try_chk_cnt d' \<le> 10"
    using assms(2) i unfolding daemon_result_def Let_def
    by (auto simp: DPM_DAEMON_SLEEP_DELAY_CNT_def MAX_CHECK_CNT_PS_CMD_FAIL_def split: if_splits)
  have "dpm_wf s' \<and> rtm_exist s' = rtm_exist s \<and> dpm_mode s' = dpm_mode s \<and> dpm_daemon_start_flag s' \<and> ev_group s' \<noteq> None
      \<and> (dpm_pdown_state s' = RUN_DPM_SLEEP \<longrightarrow> dpm_mac_err_flag s') \<and> (dpm_pdown_state s' = DONE_DPM_SLEEP \<longrightarrow> pc d' = D_off)"
    using daemon_result_cases(1)[OF assms(2)] unfolding w_def[symmetric]
  proof (elim disjE conjE)
    assume "s' = (case clr_dpm_sleep REG_NAME_DPM_SUPPLICANT w of Returns (_, u) \<Rightarrow> u | Blocked \<Rightarrow> w)"
    with clr_supplicant[OF w] i show ?thesis by (simp add: same_control_def w_def)
  qed (use i w assms(3) table_cong(1)[of s' s] in \<open>simp_all add: w_def\<close>)
  then show ?thesis using d' i(2) by (simp add: dpm_inv_def chk_dpm_mode_def)
qed

lemma dpm_step_inv:
  assumes "dpm_step x l y" "dpm_inv (fst x) (snd x)"
  shows "dpm_inv (fst y) (snd y)"
  using assms
proof (induction rule: dpm_step.induct)
  case (daemon_runs e d s d' s' acts)
  consider "pc d = D_committed" | "pc d = D_powering" | "pc d \<noteq> D_committed" "pc d \<noteq> D_powering" by blast
  then show ?case
  proof cases
    case 1
    then show ?thesis using daemon_commit_inv(1) daemon_runs by (simp add: daemon_step_def)
  next
    case 2
    then have "dpm_pdown_state s \<noteq> DONE_DPM_SLEEP" using daemon_runs(2) by (auto simp: dpm_inv_def)
    with 2 show ?thesis using daemon_result_inv[of d s e d' s' acts] daemon_runs by (simp add: daemon_step_def)
  next
    case 3
    from daemon_before_commit[OF daemon_runs(1) 3] show ?thesis using daemon_runs(2) 3 by (auto simp: dpm_inv_def before_commit_def)
  qed
next
  case (task_calls c d s)
  then show ?case using dpm_impl.call_ok[of s c] call_control[of s c] by (auto simp: dpm_inv_def same_control_def chk_dpm_mode_def)
next
  case (timer_ticks d s)
  have "dpm_wf (dpm_trigger_timer_fn s)" using timer_ticks table_cong(1)[of "dpm_trigger_timer_fn s" s]
    by (simp add: dpm_inv_def dpm_trigger_timer_fn_def)
  then show ?case using timer_ticks by (auto simp: dpm_inv_def dpm_trigger_timer_fn_def chk_dpm_mode_def set_event_def)
next
  case (task_holds d s)
  then show ?case using table_cong(1)[of "fst (hold_dpm_sleepd s)" s] by (simp add: dpm_inv_def hold_dpm_sleepd_def chk_dpm_mode_def)
next
  case (task_resumes d s)
  then show ?case using table_cong(1)[of "resume_dpm_sleepd s" s] by (simp add: dpm_inv_def resume_dpm_sleepd_def chk_dpm_mode_def)
next
  case (command_holds d s b)
  then show ?case using table_cong(1)[of "s\<lparr>dpm_daemon_cmd_hold_flag := b\<rparr>" s] by (simp add: dpm_inv_def chk_dpm_mode_def)
next
  case (rtc_runs d s b)
  then show ?case using table_cong(1)[of "s\<lparr>dpm_rtc_to_chk_flag := b\<rparr>" s] by (simp add: dpm_inv_def chk_dpm_mode_def)
qed

lemma dpm_run_inv: "dpm_run x ls y \<Longrightarrow> dpm_inv (fst x) (snd x) \<Longrightarrow> dpm_inv (fst y) (snd y)"
  by (induction rule: dpm_run.induct) (auto dest: dpm_step_inv)

lemma dpm_start_inv: "m \<noteq> 0 \<Longrightarrow> dpm_inv daemon_boot (dpm_start m)"
  by (auto simp: dpm_inv_def dpm_start_def init_dpm_sleep_daemon_def dpm_boot_def chk_dpm_mode_def daemon_boot_def
      DPM_DAEMON_SLEEP_DELAY_CNT_def dpm_wf_def name_at_def MAX_DPM_REQ_CNT_def empty_entry_def)

section \<open>Busy modules\<close>

lemma result_keeps_busy:
  assumes r: "s' = s\<lparr>dpm_pdown_state := WAIT_DPM_SLEEP\<rparr>
      \<or> s' = (case clr_dpm_sleep REG_NAME_DPM_SUPPLICANT (s\<lparr>dpm_pdown_state := WAIT_DPM_SLEEP\<rparr>) of
               Returns (_, u) \<Rightarrow> u | Blocked \<Rightarrow> s\<lparr>dpm_pdown_state := WAIT_DPM_SLEEP\<rparr>)
      \<or> s' = s\<lparr>dpm_pdown_state := DONE_DPM_SLEEP\<rparr> \<and> p
      \<or> s' = s\<lparr>dpm_mac_err_flag := True, dpm_mac_err_max_try_reached_flag := True\<rparr>
      \<or> s' = s\<lparr>dpm_mac_err_flag := True\<rparr>"
    and s: "dpm_wf s" "n \<in> registered s" "n \<notin> asleep s"
  shows "dpm_wf s' \<and> n \<in> registered s' \<and> n \<notin> asleep s'"
  using r
proof (elim disjE conjE)
  define w where "w = s\<lparr>dpm_pdown_state := WAIT_DPM_SLEEP\<rparr>"
  have w: "dpm_wf w" "n \<in> registered w" "n \<notin> asleep w" using s table_cong[of w s] by (simp_all add: w_def)
  assume "s' = (case clr_dpm_sleep REG_NAME_DPM_SUPPLICANT (s\<lparr>dpm_pdown_state := WAIT_DPM_SLEEP\<rparr>) of
               Returns (_, u) \<Rightarrow> u | Blocked \<Rightarrow> s\<lparr>dpm_pdown_state := WAIT_DPM_SLEEP\<rparr>)"
  then have s': "s' = dpm_call (Wake REG_NAME_DPM_SUPPLICANT) w" by (simp add: w_def)
  have "valid_op (Wake REG_NAME_DPM_SUPPLICANT)"
    by (simp add: valid_op_def REG_NAME_DPM_SUPPLICANT_def REG_NAME_DPM_MAX_LEN_def)
  then show ?thesis unfolding s' using dpm_impl.call_ok[OF w(1)] dpm_impl.regs_kept[OF w(1) _ _ w(2)] dpm_impl.asks_own[OF w(1) _ _ w(3)] by (simp del: dpm_call.simps)
qed (use s table_cong[of s' s] in simp_all)

lemma busy_step:
  assumes "dpm_step (d, s) l (d', s')" "dpm_wf s" "n \<in> registered s" "n \<notin> asleep s" "pc d \<noteq> D_committed"
    "l \<noteq> Called (Ask n)" "l \<noteq> Called (Unregister n)"
  shows "dpm_wf s' \<and> n \<in> registered s' \<and> n \<notin> asleep s' \<and> pc d' \<noteq> D_committed \<and> (\<forall>acts. l = Ran acts \<longrightarrow> Power_off \<notin> set acts)"
  using assms(1)
proof (cases rule: dpm_step.cases)
  case (daemon_runs e acts)
  then have st: "daemon_step e d s = (d', s', acts)" by simp
  show ?thesis
  proof (cases "pc d = D_powering")
    case True
    then have "daemon_result e d s = (d', s', acts)" using st by (simp add: daemon_step_def)
    note r = daemon_result_cases[OF this]
    from result_keeps_busy[OF r(1) assms(2-4)] show ?thesis using r(2,3) daemon_runs(1) by auto
  next
    case False
    note b = daemon_before_commit[OF st assms(5) False, unfolded before_commit_def]
    have "\<not> is_dpm_sleep_ready s" using ready_iff[OF assms(2)] assms(3,4) by auto
    with b daemon_runs(1) assms(2-4) show ?thesis by auto
  qed
next
  case (task_calls c)
  then show ?thesis using assms(2-7) dpm_impl.call_ok[of s c] dpm_impl.regs_kept[of s c n] dpm_impl.asks_own[of s c n] by auto
next
  case timer_ticks
  then show ?thesis using assms(2-5) table_cong[of "dpm_trigger_timer_fn s" s] by (simp add: dpm_trigger_timer_fn_def)
next
  case task_holds
  then show ?thesis using assms(2-5) table_cong[of "fst (hold_dpm_sleepd s)" s] by (simp add: hold_dpm_sleepd_def)
next
  case task_resumes
  then show ?thesis using assms(2-5) table_cong[of "resume_dpm_sleepd s" s] by (simp add: resume_dpm_sleepd_def)
next
  case (command_holds b)
  then show ?thesis using assms(2-5) table_cong[of s' s] by simp
next
  case (rtc_runs b)
  then show ?thesis using assms(2-5) table_cong[of s' s] by simp
qed

lemma busy_run:
  assumes "dpm_run x ls y" "dpm_wf (snd x)" "n \<in> registered (snd x)" "n \<notin> asleep (snd x)" "pc (fst x) \<noteq> D_committed"
    "Called (Ask n) \<notin> set ls" "Called (Unregister n) \<notin> set ls"
  shows "\<forall>acts. Ran acts \<in> set ls \<longrightarrow> Power_off \<notin> set acts"
  using assms
proof (induction rule: dpm_run.induct)
  case (run_cons x l y ls z)
  obtain d s d' s' where xy: "x = (d, s)" "y = (d', s')" by fastforce
  have "dpm_step (d, s) l (d', s')" using run_cons.hyps(1) xy by simp
  note b = busy_step[OF this, of n]
  show ?case using b run_cons xy by auto
qed simp

section \<open>From readiness to power-down\<close>

fun daemon_steps :: "nat \<Rightarrow> daemon_env \<Rightarrow> daemon \<Rightarrow> dpm \<Rightarrow> daemon \<times> dpm \<times> dpm_action list" where
  "daemon_steps 0 e d s = (d, s, [])"
| "daemon_steps (Suc k) e d s =
     (let (d1, s1, a1) = daemon_step e d s; (d2, s2, a2) = daemon_steps k e d1 s1 in (d2, s2, a1 @ a2))"

definition can_sleep :: "daemon_env \<Rightarrow> dpm \<Rightarrow> bool" where
  "can_sleep e s \<longleftrightarrow> dpm_daemon_start_flag s \<and> \<not> dpm_daemon_hold_flag s \<and> \<not> dpm_daemon_cmd_hold_flag s \<and> \<not> dpm_rtc_to_chk_flag s
     \<and> dpm_mode s \<noteq> 0 \<and> (\<exists>w. ev_group s = Some w \<and> bit w 0)
     \<and> reg_dpm_req_flag s \<noteq> 0 \<and> is_dpm_sleep_ready s \<and> sock_available e \<and> external_xtal e"

lemma round_of_daemon:
  assumes "can_sleep e s" "pc d = D_top"
  shows "\<exists>a. daemon_step e d s = (d\<lparr>pc := D_waiting\<rparr>, s, a)"
    and "\<exists>b. daemon_step e (d\<lparr>pc := D_waiting\<rparr>) s =
      (d\<lparr>pc := (if sleep_delay_cnt d \<le> 1 then D_committed else D_top), sleep_delay_cnt := sleep_delay_cnt d - 1\<rparr>, s, b)"
proof -
  show "\<exists>a. daemon_step e d s = (d\<lparr>pc := D_waiting\<rparr>, s, a)" using assms by (simp add: daemon_step_def daemon_top_def can_sleep_def)
  obtain w where w: "ev_group s = Some w" "bit w 0" using assms by (auto simp: can_sleep_def)
  have "bit ((w AND (DPM_SLEEP_SET OR DPM_DAEMON_TRIGGER)) AND DPM_DAEMON_TRIGGER) 0"
    using w(2) by (simp add: bit_and_iff bit_or_iff DPM_DAEMON_TRIGGER_def bit_bit32)
  then have ev: "(w AND (DPM_SLEEP_SET OR DPM_DAEMON_TRIGGER)) AND DPM_DAEMON_TRIGGER \<noteq> 0" by (metis bit_0_eq bot_apply bot_bool_def)
  then have "w AND (DPM_SLEEP_SET OR DPM_DAEMON_TRIGGER) \<noteq> 0" by auto
  moreover have "dpm_sleep_set_flag s \<noteq> 0" using assms(1) by (auto simp: can_sleep_def is_dpm_sleep_ready_def)
  ultimately show "\<exists>b. daemon_step e (d\<lparr>pc := D_waiting\<rparr>) s =
      (d\<lparr>pc := (if sleep_delay_cnt d \<le> 1 then D_committed else D_top), sleep_delay_cnt := sleep_delay_cnt d - 1\<rparr>, s, b)"
    using ev w(1) assms(1) by (simp add: daemon_step_def daemon_woken_def daemon_decide_def Let_def can_sleep_def is_dpm_sleep_ready_def)
qed

lemma committed_powers_off:
  "pc d = D_committed \<Longrightarrow> Power_off \<in> set (snd (snd (daemon_steps (Suc k) e d s)))"
  using commit_powers_off[of e d s] by (auto simp: daemon_step_def Let_def split: prod.splits)

lemma steps_Suc:
  assumes "daemon_step e d s = (d1, s1, a)"
  shows "snd (snd (daemon_steps (Suc k) e d s)) = a @ snd (snd (daemon_steps k e d1 s1))"
  using assms by (simp add: split_beta)

lemma ready_steps:
  assumes "can_sleep e s" "pc d = D_top" "sleep_delay_cnt d \<le> 2"
  shows "Power_off \<in> set (snd (snd (daemon_steps 5 e d s)))"
proof -
  have two: "set (snd (snd (daemon_steps k e (d'\<lparr>pc := (if sleep_delay_cnt d' \<le> 1 then D_committed else D_top), sleep_delay_cnt := sleep_delay_cnt d' - 1\<rparr>) s)))
      \<subseteq> set (snd (snd (daemon_steps (Suc (Suc k)) e d' s)))" if "pc d' = D_top" for k d'
  proof -
    from round_of_daemon[OF assms(1) that] obtain a b where
      "daemon_step e d' s = (d'\<lparr>pc := D_waiting\<rparr>, s, a)"
      "daemon_step e (d'\<lparr>pc := D_waiting\<rparr>) s = (d'\<lparr>pc := (if sleep_delay_cnt d' \<le> 1 then D_committed else D_top), sleep_delay_cnt := sleep_delay_cnt d' - 1\<rparr>, s, b)"
      by blast
    from steps_Suc[OF this(1), of "Suc k"] steps_Suc[OF this(2), of k] show ?thesis by auto
  qed
  show ?thesis
  proof (cases "sleep_delay_cnt d \<le> 1")
    case True
    have "Power_off \<in> set (snd (snd (daemon_steps 3 e (d\<lparr>pc := D_committed, sleep_delay_cnt := sleep_delay_cnt d - 1\<rparr>) s)))"
      using committed_powers_off[of "d\<lparr>pc := D_committed, sleep_delay_cnt := sleep_delay_cnt d - 1\<rparr>" 2 e s] by (simp add: eval_nat_numeral)
    with two[OF assms(2), of 3] True show ?thesis by (auto simp: eval_nat_numeral)
  next
    case False
    define d1 where "d1 = d\<lparr>pc := D_top, sleep_delay_cnt := sleep_delay_cnt d - 1\<rparr>"
    have d1: "pc d1 = D_top" "sleep_delay_cnt d1 \<le> 1" using assms(3) by (simp_all add: d1_def)
    have "Power_off \<in> set (snd (snd (daemon_steps 1 e (d1\<lparr>pc := D_committed, sleep_delay_cnt := sleep_delay_cnt d1 - 1\<rparr>) s)))"
      using committed_powers_off[of "d1\<lparr>pc := D_committed, sleep_delay_cnt := sleep_delay_cnt d1 - 1\<rparr>" 0 e s] by simp
    with two[OF d1(1), of 1] d1(2) have "Power_off \<in> set (snd (snd (daemon_steps 3 e d1 s)))" by (auto simp: eval_nat_numeral)
    with two[OF assms(2), of 3] False show ?thesis by (auto simp: eval_nat_numeral d1_def)
  qed
qed

end
