(* ===== verification/Dpm_Claims.thy ===== *)
theory Dpm_Claims
  imports Dpm_Daemon
begin

text \<open>
  The properties of the sleep manager and its daemon: the table implements two sets of modules; a module that is busy keeps the
  chip awake and modules that have all asked for sleep get it; a call never waits for ever while the chip is
  on. The last section holds what the code does where it differs from what it means.
\<close>

section \<open>Concrete states\<close>

text \<open>A chip that has started with one module, before and after the module has asked for sleep.\<close>

definition one_module :: dpm where
  "one_module = dpm_call (Register ''APP'' 0) (dpm_start 1)"

definition asked_module :: dpm where
  "asked_module = dpm_trigger_timer_fn (dpm_call (Ask ''APP'') one_module)"

definition calm_env :: "int \<Rightarrow> daemon_env" where
  "calm_env r = \<lparr>driver_can_rcv = False, sock_available = True, external_xtal = True, mng_save_rtm = False,
     has_sleep_cb = False, runtime_cal = False, ble_combo = False, pdown_result = r\<rparr>"

lemma valid_app: "valid_op (Register ''APP'' 0)" "valid_op (Ask ''APP'')" "valid_op (Wake ''APP'')"
  by (simp_all add: valid_op_def REG_NAME_DPM_MAX_LEN_def)

lemma start_wf: "dpm_wf (dpm_start 1)" "chk_dpm_mode (dpm_start 1)" "dpm_pdown_state (dpm_start 1) = WAIT_DPM_SLEEP"
  using dpm_start_inv[of 1] by (simp_all add: dpm_inv_def) (simp add: dpm_start_def init_dpm_sleep_daemon_def dpm_boot_def)

lemma start_registered: "registered (dpm_start 1) = {}"
  by (auto simp: registered_def name_at_def dpm_start_def init_dpm_sleep_daemon_def dpm_boot_def chk_dpm_mode_def empty_entry_def MAX_DPM_REQ_CNT_def)

lemma start_asleep: "asleep (dpm_start 1) = {}"
  using asleep_registered[OF start_wf(1)] start_registered by simp

lemma one_module_sets: "dpm_wf one_module" "registered one_module = {''APP''}" "asleep one_module = {}"
  "chk_dpm_mode one_module" "dpm_pdown_state one_module = WAIT_DPM_SLEEP"
proof -
  obtain r t where t: "reg_dpm_sleep True True ''APP'' 0 (dpm_start 1) = Some (r, t)" "dpm_wf t"
    "registered t = {''APP''}" "asleep t = {}"
    using reg_spec[OF start_wf(1,2), of "''APP''" 0] start_registered start_asleep by auto
  then have "one_module = t" by (simp add: one_module_def)
  with t show "dpm_wf one_module" "registered one_module = {''APP''}" "asleep one_module = {}" by simp_all
  show "chk_dpm_mode one_module" "dpm_pdown_state one_module = WAIT_DPM_SLEEP"
    using call_control[of "dpm_start 1" "Register ''APP'' 0"] start_wf(2,3)
    by (simp_all add: one_module_def same_control_def chk_dpm_mode_def del: dpm_call.simps)
qed

lemma tick_table:
  "dpm_wf (dpm_trigger_timer_fn s) = dpm_wf s" "registered (dpm_trigger_timer_fn s) = registered s" "asleep (dpm_trigger_timer_fn s) = asleep s"
  by (rule table_cong; simp add: dpm_trigger_timer_fn_def)+

lemma asked_module_sets: "dpm_wf asked_module" "registered asked_module = {''APP''}" "asleep asked_module = {''APP''}"
proof -
  define u where "u = dpm_call (Ask ''APP'') one_module"
  obtain r t where t: "set_dpm_sleep ''APP'' one_module = Returns (r, t)" "dpm_wf t" "registered t = {''APP''}" "asleep t = {''APP''}"
    using set_spec[OF one_module_sets(1,4), of "''APP''"] one_module_sets by auto
  then have "u = t" by (simp add: u_def)
  then have e: "asked_module = dpm_trigger_timer_fn t" by (simp add: asked_module_def u_def)
  show "dpm_wf asked_module" "registered asked_module = {''APP''}" "asleep asked_module = {''APP''}"
    unfolding e tick_table by (rule t)+
qed

lemma reach_one_module: "dpm_run (daemon_boot, dpm_start 1) [Called (Register ''APP'' 0)] (daemon_boot, one_module)"
  unfolding one_module_def by (intro run_cons[OF task_calls] run_nil valid_app)

lemma reach_asked_module:
  "dpm_run (daemon_boot, dpm_start 1) [Called (Register ''APP'' 0), Called (Ask ''APP''), Triggered] (daemon_boot, asked_module)"
  unfolding asked_module_def one_module_def by (intro run_cons[OF task_calls] run_cons[OF timer_ticks] run_nil valid_app)

section \<open>Properties\<close>

text \<open>C5.
  The table of 32 entries and its two words of flags implement a set of registered modules and a set of modules that ask for sleep, in
  every state the system reaches: registering adds a module and refuses a name that is taken and a full
  table; unregistering removes it from both sets; asking and waking add and remove it in the second set
  and refuse an unknown name; and the chip is ready exactly when the sets are the same.
\<close>

theorem dpm_registry_refines:
  assumes "m \<noteq> 0" "dpm_run (daemon_boot, dpm_start m) ls (d, s)" "n \<noteq> []" "length n < REG_NAME_DPM_MAX_LEN"
  shows "(\<exists>r t. reg_dpm_sleep True True n p s = Some (r, t) \<and>
      (if n \<in> registered s then r = DPM_REG_DUP_NAME \<and> t = s
       else if card (registered s) = MAX_DPM_REQ_CNT then r = DPM_REG_ERR \<and> t = s
       else r = DPM_REG_OK \<and> registered t = insert n (registered s) \<and> asleep t = asleep s))
    \<and> registered (unreg_dpm_sleep True n s) = registered s - {n} \<and> asleep (unreg_dpm_sleep True n s) = asleep s - {n}
    \<and> (dpm_pdown_state s = WAIT_DPM_SLEEP \<or> trx_module n \<longrightarrow> (\<exists>r t. set_dpm_sleep n s = Returns (r, t) \<and>
      (if n \<in> registered s then r = DPM_SET_OK \<and> registered t = registered s \<and> asleep t = insert n (asleep s)
       else r = DPM_NOT_REGISTERED \<and> t = s)))
    \<and> (dpm_pdown_state s = WAIT_DPM_SLEEP \<or> trx_module n \<longrightarrow> (\<exists>r t. clr_dpm_sleep n s = Returns (r, t) \<and>
      (if n \<in> registered s then r = DPM_SET_OK \<and> registered t = registered s \<and> asleep t = asleep s - {n}
       else r = DPM_SET_ERR \<and> t = s)))
    \<and> (is_dpm_sleep_ready s \<longleftrightarrow> asleep s = registered s)"
    (is "?reg \<and> ?unreg \<and> ?gone \<and> (?free \<longrightarrow> ?set) \<and> (?free \<longrightarrow> ?clr) \<and> ?ready")
proof (intro conjI impI)
  have inv: "dpm_wf s" "chk_dpm_mode s" using dpm_run_inv[OF assms(2)] dpm_start_inv[OF assms(1)] by (simp_all add: dpm_inv_def)
  have n: "length n < 20" using assms(4) by (simp add: REG_NAME_DPM_MAX_LEN_def)
  show ?reg using reg_spec[OF inv assms(3) n, of p] unfolding MAX_DPM_REQ_CNT_def by blast
  show ?unreg ?gone using unreg_spec[OF inv assms(3)] by blast+
  show ?set if ?free using set_spec[OF inv that assms(3)] by blast
  show ?clr if ?free using clr_spec[OF inv that assms(3)] by blast
  show ?ready by (rule ready_iff[OF inv(1)])
qed

text \<open>The application of a chip with one module: its name is refused, asking is recorded, and then the chip is ready.\<close>

theorem dpm_registry_refines_witness:
  "(\<exists>t. reg_dpm_sleep True True ''APP'' 7 one_module = Some (DPM_REG_DUP_NAME, t) \<and> t = one_module)
     \<and> registered (unreg_dpm_sleep True ''APP'' one_module) = {}
     \<and> (\<exists>t. set_dpm_sleep ''APP'' one_module = Returns (DPM_SET_OK, t) \<and> asleep t = {''APP''})
     \<and> (\<exists>t. clr_dpm_sleep ''APP'' one_module = Returns (DPM_SET_OK, t) \<and> asleep t = {})
     \<and> \<not> is_dpm_sleep_ready one_module"
proof -
  have n: "''APP'' \<noteq> ''''" "length ''APP'' < REG_NAME_DPM_MAX_LEN" by (simp_all add: REG_NAME_DPM_MAX_LEN_def)
  note r = dpm_registry_refines[OF one_neq_zero reach_one_module n, of 7]
  show ?thesis using r one_module_sets by auto
qed

text \<open>C4.
  A module that is registered and has not asked for sleep keeps the chip on: in every run of the daemon, the timer and the tasks that
  goes on from a state the system reaches, whatever the order, the daemon does not call the power-down, as long as that module neither asks nor
  unregisters and the daemon had not decided before.
\<close>

theorem busy_module_prevents_sleep:
  assumes "m \<noteq> 0" "dpm_run (daemon_boot, dpm_start m) ls (d, s)" "n \<in> registered s" "n \<notin> asleep s" "pc d \<noteq> D_committed"
    and "dpm_run (d, s) ls' y" "Called (Ask n) \<notin> set ls'" "Called (Unregister n) \<notin> set ls'"
  shows "\<forall>acts. Ran acts \<in> set ls' \<longrightarrow> Power_off \<notin> set acts"
proof -
  have "dpm_wf s" using dpm_run_inv[OF assms(2)] dpm_start_inv[OF assms(1)] by (simp add: dpm_inv_def)
  then show ?thesis using busy_run[OF assms(6), of n] assms by simp
qed

text \<open>One round of the daemon over a module that has not asked.\<close>

theorem busy_module_prevents_sleep_witness:
  "\<exists>acts y. dpm_run (daemon_boot, one_module) [Triggered, Ran acts] y \<and> acts \<noteq> [] \<and> Power_off \<notin> set acts"
proof -
  obtain d' s' acts where st: "daemon_step (calm_env 0) daemon_boot (dpm_trigger_timer_fn one_module) = (d', s', acts)"
    by (cases "daemon_step (calm_env 0) daemon_boot (dpm_trigger_timer_fn one_module)")
  then have ne: "acts \<noteq> []" by (auto simp: daemon_step_def daemon_boot_def daemon_top_def split: if_splits)
  have run: "dpm_run (daemon_boot, one_module) [Triggered, Ran acts] (d', s')"
    by (intro run_cons[OF timer_ticks] run_cons[OF daemon_runs[OF st]] run_nil)
  have "''APP'' \<in> registered one_module" "''APP'' \<notin> asleep one_module" "pc daemon_boot \<noteq> D_committed"
    by (simp_all add: one_module_sets daemon_boot_def)
  from busy_module_prevents_sleep[OF one_neq_zero reach_one_module this run] run ne show ?thesis by auto
qed

text \<open>C7.
  When all registered modules have asked for sleep, nothing holds the daemon, no timer callback is being processed, the
  sockets and the oscillator are ready and the timer has ticked once, the daemon gets to the power-down within five of its
  stretches, from every state the system reaches in which it is at the top of its loop.
\<close>

theorem sleep_when_ready:
  assumes "m \<noteq> 0" "dpm_run (daemon_boot, dpm_start m) ls (d, s)" "pc d = D_top"
    and "asleep s = registered s" "registered s \<noteq> {}"
    and "\<not> dpm_daemon_hold_flag s" "\<not> dpm_daemon_cmd_hold_flag s" "\<not> dpm_rtc_to_chk_flag s"
    and "sock_available e" "external_xtal e" "dpm_pdown_state s = WAIT_DPM_SLEEP" "\<not> dpm_mac_err_flag s"
  shows "Power_off \<in> set (snd (snd (daemon_steps 5 e d (dpm_trigger_timer_fn s))))"
proof (rule ready_steps)
  have inv: "dpm_wf s" "chk_dpm_mode s" "dpm_daemon_start_flag s" "ev_group s \<noteq> None" "sleep_delay_cnt d \<le> 2"
    using dpm_run_inv[OF assms(2)] dpm_start_inv[OF assms(1)] by (simp_all add: dpm_inv_def)
  obtain n i where i: "i < 32" "name_at s i = n" "n \<noteq> []" using assms(5) by (auto simp: registered_def)
  then have "bit (reg_dpm_req_flag s) i" using dpm_wfD(2)[OF inv(1) i(1)] by simp
  then have "reg_dpm_req_flag s \<noteq> 0" by auto
  moreover have "is_dpm_sleep_ready s" using ready_iff[OF inv(1)] assms(4) by simp
  ultimately show "can_sleep e (dpm_trigger_timer_fn s)" using inv assms(6-)
    by (auto simp: can_sleep_def dpm_trigger_timer_fn_def set_event_def is_dpm_sleep_ready_def chk_dpm_mode_def bit_or_iff
        DPM_DAEMON_TRIGGER_def bit_bit32)
  show "pc d = D_top" "sleep_delay_cnt d \<le> 2" by (fact assms(3)) (fact inv(5))
qed

lemma asked_module_flags:
  "\<not> dpm_daemon_hold_flag asked_module" "\<not> dpm_daemon_cmd_hold_flag asked_module" "\<not> dpm_rtc_to_chk_flag asked_module"
  "dpm_pdown_state asked_module = WAIT_DPM_SLEEP" "\<not> dpm_mac_err_flag asked_module"
proof -
  define u where "u = dpm_call (Ask ''APP'') one_module"
  have "same_control (dpm_start 1) one_module" unfolding one_module_def by (rule call_control)
  moreover have "same_control one_module u" unfolding u_def by (rule call_control)
  ultimately have "\<not> dpm_daemon_hold_flag u \<and> \<not> dpm_daemon_cmd_hold_flag u \<and> \<not> dpm_rtc_to_chk_flag u
      \<and> dpm_pdown_state u = WAIT_DPM_SLEEP \<and> \<not> dpm_mac_err_flag u"
    by (simp add: same_control_def dpm_start_def init_dpm_sleep_daemon_def dpm_boot_def chk_dpm_mode_def)
  then show "\<not> dpm_daemon_hold_flag asked_module" "\<not> dpm_daemon_cmd_hold_flag asked_module" "\<not> dpm_rtc_to_chk_flag asked_module"
    "dpm_pdown_state asked_module = WAIT_DPM_SLEEP" "\<not> dpm_mac_err_flag asked_module"
    by (simp_all add: asked_module_def u_def[symmetric] dpm_trigger_timer_fn_def set_event_def del: dpm_call.simps)
qed

text \<open>The chip with one module that has asked is powered down.\<close>

theorem sleep_when_ready_witness:
  "Power_off \<in> set (snd (snd (daemon_steps 5 (calm_env 0) daemon_boot (dpm_trigger_timer_fn asked_module))))"
proof -
  have "pc daemon_boot = D_top" "sock_available (calm_env 0)" "external_xtal (calm_env 0)"
    "asleep asked_module = registered asked_module" "registered asked_module \<noteq> {}"
    by (simp_all add: daemon_boot_def calm_env_def asked_module_sets)
  then show ?thesis using sleep_when_ready[OF one_neq_zero reach_asked_module] asked_module_flags by blast
qed

text \<open>C8.
  A call of \<open>set_dpm_sleep\<close> or \<open>clr_dpm_sleep\<close> waits while a power-down is under way, and the wait ends: in every state the
  system reaches, once the driver has answered and the timer has ticked, either the chip is off for good or no call
  waits any more, whatever the driver answered.
\<close>

theorem blocked_calls_end:
  assumes "m \<noteq> 0" "dpm_run (daemon_boot, dpm_start m) ls (d, s)"
    and "(d', s', acts) = (if pc d = D_powering then daemon_step e d s else (d, s, []))"
  shows "pc d' = D_off \<or> (\<forall>n. set_dpm_sleep n (dpm_trigger_timer_fn s') \<noteq> Blocked \<and> clr_dpm_sleep n (dpm_trigger_timer_fn s') \<noteq> Blocked)"
proof -
  have inv: "dpm_inv d s" using dpm_run_inv[OF assms(2)] dpm_start_inv[OF assms(1)] by simp
  have "dpm_inv d' s' \<and> pc d' \<noteq> D_powering"
  proof (cases "pc d = D_powering")
    case True
    then have st: "daemon_step e d s = (d', s', acts)" using assms(3) by simp
    then have "daemon_result e d s = (d', s', acts)" using True by (simp add: daemon_step_def)
    with daemon_result_cases(2)[OF this] dpm_step_inv[OF daemon_runs[OF st]] inv show ?thesis by auto
  qed (use inv assms(3) in simp)
  then have i: "dpm_daemon_start_flag s'" "dpm_pdown_state s' = RUN_DPM_SLEEP \<longrightarrow> dpm_mac_err_flag s'"
    "dpm_pdown_state s' = DONE_DPM_SLEEP \<longrightarrow> pc d' = D_off" by (auto simp: dpm_inv_def)
  have "pc d' = D_off \<or> dpm_pdown_state (dpm_trigger_timer_fn s') = WAIT_DPM_SLEEP"
    using i by (cases "dpm_pdown_state s'") (auto simp: dpm_trigger_timer_fn_def)
  moreover have "set_dpm_sleep n t \<noteq> Blocked \<and> clr_dpm_sleep n t \<noteq> Blocked" if "dpm_pdown_state t = WAIT_DPM_SLEEP" for n t
    using that by (simp add: set_dpm_sleep_def clr_dpm_sleep_def Let_def split: option.split)
  ultimately show ?thesis by blast
qed

lemma run_append: "dpm_run x ls y \<Longrightarrow> dpm_run y ls' z \<Longrightarrow> dpm_run x (ls @ ls') z"
  by (induction rule: dpm_run.induct) (auto intro: run_cons)

lemma steps_run: "\<exists>ls. dpm_run (d, s) ls (fst (daemon_steps k e d s), fst (snd (daemon_steps k e d s)))"
proof (induction k arbitrary: d s)
  case (Suc k)
  obtain d1 s1 a where st: "daemon_step e d s = (d1, s1, a)" by (cases "daemon_step e d s")
  from Suc.IH[of d1 s1] run_cons[OF daemon_runs[OF st]] show ?case by (fastforce simp: st split_beta)
qed (auto intro: run_nil)

text \<open>The daemon after the call of the driver, for a chip whose one module has asked.\<close>

definition powering :: "daemon \<times> dpm" where
  "powering = (let (d, s, _) = daemon_steps 5 (calm_env 5) daemon_boot asked_module in (d, s))"

lemma powering_state: "pc (fst powering) = D_powering" "set_dpm_sleep ''APP'' (snd powering) = Blocked"
  "pc (fst (daemon_step (calm_env 5) (fst powering) (snd powering))) = D_top"
  by code_simp+

lemma reach_powering: "\<exists>ls. dpm_run (daemon_boot, dpm_start 1) ls powering"
  using run_append[OF reach_asked_module] steps_run[of daemon_boot asked_module 5 "calm_env 5"] by (auto simp: powering_def split_beta)

text \<open>The driver fails; the call of the module that waited for it goes through after the next tick.\<close>

theorem blocked_calls_end_witness:
  "set_dpm_sleep ''APP'' (snd powering) = Blocked
     \<and> set_dpm_sleep ''APP'' (dpm_trigger_timer_fn (fst (snd (daemon_step (calm_env 5) (fst powering) (snd powering))))) \<noteq> Blocked"
proof -
  obtain ls where ls: "dpm_run (daemon_boot, dpm_start 1) ls (fst powering, snd powering)" using reach_powering by auto
  obtain d' s' acts where st: "daemon_step (calm_env 5) (fst powering) (snd powering) = (d', s', acts)"
    by (cases "daemon_step (calm_env 5) (fst powering) (snd powering)")
  then have "(d', s', acts) = (if pc (fst powering) = D_powering then daemon_step (calm_env 5) (fst powering) (snd powering) else (fst powering, snd powering, []))"
    by (simp add: powering_state)
  from blocked_calls_end[OF one_neq_zero ls this] powering_state(2,3) show ?thesis by (simp add: st)
qed

section \<open>What the code does beside its intent\<close>

text \<open>
  Between the comparison of the flags and the power-down other tasks run (the callback, the delays, the message to the BLE
  chip), and nothing is compared again: a module that wakes there is powered down all the same.
\<close>

lemma wake_after_commit_is_lost:
  assumes "pc d = D_committed" "dpm_wf s" "chk_dpm_mode s" "dpm_pdown_state s = WAIT_DPM_SLEEP" "n \<in> registered s" "n \<noteq> []"
  shows "\<exists>t. clr_dpm_sleep n s = Returns (DPM_SET_OK, t) \<and> n \<notin> asleep t \<and> Power_off \<in> set (snd (snd (daemon_step e d t)))"
  using clr_spec[OF assms(2,3), of n] assms(1,4-) by (auto simp: daemon_step_def daemon_commit_def)

text \<open>A request for sleep with the empty name is taken for the first free entry, and from then on the flags never agree.\<close>

lemma empty_name_is_found:
  assumes "chk_dpm_mode s" "dpm_pdown_state s = WAIT_DPM_SLEEP" "slot [] s = Some i" "dpm_wf s"
  shows "\<exists>t. set_dpm_sleep [] s = Returns (DPM_SET_OK, t) \<and> \<not> is_dpm_sleep_ready t \<and> \<not> dpm_wf t"
proof -
  have i: "i < 32" "name_at s i = []" using slot_Some[OF assms(3)] by simp_all
  have nb: "\<not> bit (dpm_sleep_set_flag s) i" "\<not> bit (reg_dpm_req_flag s) i"
    using dpm_wfD(2,3)[OF assms(4) i(1)] i(2) by auto
  then have "dpm_sleep_set_flag s AND bit32 i = 0" by (simp add: mask_simps)
  then obtain t where t: "set_dpm_sleep [] s = Returns (DPM_SET_OK, t)" "dpm_sleep_set_flag t = dpm_sleep_set_flag s OR bit32 i"
    "reg_dpm_req_flag t = reg_dpm_req_flag s" "sleep_list t = sleep_list (upd_entry i (\<lambda>x. x\<lparr>bit_index := of_nat i\<rparr>) s)"
    using assms(1-3) by (simp add: set_dpm_sleep_def Let_def)
  have bt: "bit (dpm_sleep_set_flag t) i" using t(2) i(1) by (simp add: bit_or_bit32)
  then have "\<not> is_dpm_sleep_ready t" using nb(2) t(3) unfolding is_dpm_sleep_ready_def by metis
  moreover have "name_at t i = []"
    using t(4) i dpm_wfD(1)[OF assms(4)] by (simp add: name_at_def upd_entry_def)
  then have "\<not> dpm_wf t" using dpm_wfD(3)[of t i] i(1) bt by blast
  ultimately show ?thesis using t(1) by blast
qed

text \<open>Marking an unknown module as ready or as initialised succeeds and does nothing.\<close>

lemma unknown_module_accepted:
  "slot n s = None \<Longrightarrow> set_dpm_rcv_ready n s = (DPM_SET_OK, s) \<and> set_dpm_init_done n s = (DPM_SET_OK, s)"
  by (simp add: set_dpm_rcv_ready_def set_dpm_init_done_def)

text \<open>
  A module that takes the entry of one that has left is at once marked as initialised: unregistering keeps the mark.
\<close>

lemma stale_init_done:
  "(let s1 = snd (set_dpm_init_done ''APP'' one_module); s2 = unreg_dpm_sleep True ''APP'' s1
    in chk_dpm_init_done ''NEW'' s2 = False \<and> chk_dpm_init_done ''NEW'' (dpm_call (Register ''NEW'' 0) s2))"
  by code_simp

text \<open>A request for sleep restarts the daemon's delay only before the first tick of the timer, since the events are never cleared.\<close>

lemma delay_not_restarted:
  assumes "ev_group s = Some w" "bit w 0" "\<not> dpm_daemon_hold_flag s" "\<not> dpm_rtc_to_chk_flag s"
  shows "\<exists>b. daemon_woken e d (set_event DPM_SLEEP_SET s) =
    (let (d2, s2, acts) = daemon_decide e d (set_event DPM_SLEEP_SET s) in (d2, s2, b # acts))"
proof -
  define v where "v = w OR DPM_SLEEP_SET"
  have "bit ((v AND (DPM_SLEEP_SET OR DPM_DAEMON_TRIGGER)) AND DPM_DAEMON_TRIGGER) 0"
    using assms(2) by (simp add: v_def bit_and_iff bit_or_iff DPM_DAEMON_TRIGGER_def bit_bit32)
  then have ev: "(v AND (DPM_SLEEP_SET OR DPM_DAEMON_TRIGGER)) AND DPM_DAEMON_TRIGGER \<noteq> 0" by (metis bit_0_eq bot_apply bot_bool_def)
  then have "v AND (DPM_SLEEP_SET OR DPM_DAEMON_TRIGGER) \<noteq> 0" by auto
  then show ?thesis using ev assms(1,3,4) unfolding daemon_woken_def set_event_def by (auto simp: Let_def v_def[symmetric])
qed

end
