(* ===== verification/Dpm_Timer.thy ===== *)
theory Dpm_Timer
  imports Dpm_Sleep Ret_Timer
begin

text \<open>
  The named timers of the sleep manager (\<^verbatim>\<open>src/core/system/src/dpm/da16x_dpm.c\<close>): a table in retention memory gives each
  timer of the real-time clock the task, the name, the callback and the period it was created with; a task of its own calls the
  callbacks of the timers that have expired. The entry of timer \<open>t\<close> is the element \<open>t - 2\<close> of the C array, so the
  first two elements of the list here are the memory in front of the table, which some functions read. A
  name is kept without padding; one that fills its field has no terminating zero. The results of the Wi-Fi driver's
  timer functions are arguments, and its calls and the callbacks are returned in order. \<open>None\<close> is an access outside the
  memory described.
\<close>

section \<open>State\<close>

record dpm_timer_info_t =
  timeout_callback :: "nat option"
  msec :: u32
  task_name :: string
  timer_name :: string

text \<open>What other tasks and callbacks can change, and what only the timer task has.\<close>

record dpm_timers =
  mgr :: dpm
  rtm_timers :: "dpm_timer_info_t list"
  dpm_rtc_timeout_tid :: u32

record timer_task =
  dpm_timer_queue :: "nat list"
  dpm_timer_abnormal_flag :: "u8 list"

datatype timer_event =
    Set_app_keepalivetime int u32 bool
  | Timeout_callback nat string

definition DPM_TIMER_NAME_MAX_LEN :: nat where "DPM_TIMER_NAME_MAX_LEN = 8"
definition TIMER_MAX_MSEC :: nat where "TIMER_MAX_MSEC = 4233600000"
definition RTC_ABNORMAL_MAX_CNT :: nat where "RTC_ABNORMAL_MAX_CNT = 3"
definition TIMER_DELETE_ERROR :: int where "TIMER_DELETE_ERROR = 0x11"
definition REG_NAME_DPM_TIMER_PROC :: string where "REG_NAME_DPM_TIMER_PROC = ''DPM_TIMER''"

definition no_timer :: dpm_timer_info_t where
  "no_timer = \<lparr>timeout_callback = None, msec = 0, task_name = [], timer_name = []\<rparr>"

definition timer_at :: "nat \<Rightarrow> dpm_timers \<Rightarrow> dpm_timer_info_t" where
  "timer_at tid s = rtm_timers s ! tid"

definition put_timer :: "nat \<Rightarrow> dpm_timer_info_t \<Rightarrow> dpm_timers \<Rightarrow> dpm_timers" where
  "put_timer tid x s = s\<lparr>rtm_timers := (rtm_timers s)[tid := x]\<rparr>"

section \<open>Timers by number\<close>

definition rtc_timeout_cb :: "nat \<Rightarrow> dpm_timers \<Rightarrow> dpm_timers" where
  "rtc_timeout_cb param s = s\<lparr>dpm_rtc_timeout_tid := dpm_rtc_timeout_tid s OR bit32 param\<rparr>"

definition clr_rtc_timeout_tid :: "nat \<Rightarrow> dpm_timers \<Rightarrow> dpm_timers" where
  "clr_rtc_timeout_tid tid s = s\<lparr>dpm_rtc_timeout_tid := dpm_rtc_timeout_tid s AND NOT (bit32 tid)\<rparr>"

definition rtc_cancel_timer :: "int \<Rightarrow> int \<Rightarrow> dpm_timers \<Rightarrow> int \<times> timer_event list" where
  "rtc_cancel_timer r timer_id s =
     (if \<not> chk_dpm_mode (mgr s) \<or> timer_id = 2 then (-1, [])
      else (r, [Set_app_keepalivetime timer_id 0 False]))"

text \<open>
  \<open>rid\<close> is the number the driver reports as free, \<open>r\<close> its answer to the registration. An index outside the memory
  described is \<open>None\<close>.
\<close>

definition rtc_register_timer ::
  "int \<Rightarrow> int \<Rightarrow> u32 \<Rightarrow> string \<Rightarrow> int \<Rightarrow> int \<Rightarrow> nat option \<Rightarrow> dpm_timers \<Rightarrow> (int \<times> dpm_timers \<times> timer_event list) option" where
  "rtc_register_timer rid r ms name timer_id peri cbf s =
     (if \<not> chk_dpm_mode (mgr s) \<or> timer_id = 1 then Some (-1, s, [])
      else if REG_NAME_DPM_MAX_LEN < length name then Some (-1, s, [])
      else if unat ms > TIMER_MAX_MSEC then Some (-1, s, [])
      else (let available_tid = (if timer_id \<ge> 2 then timer_id else rid) in
        if available_tid < 0 \<or> available_tid \<ge> int TIMER_ERR then None
        else (let s1 = put_timer (nat available_tid)
                \<lparr>timeout_callback = cbf, msec = (if peri > 0 then ms else 0), task_name = name, timer_name = []\<rparr> s;
                  ev = [Set_app_keepalivetime available_tid ms True]
              in Some (if r \<le> 0 \<or> r \<ge> int TIMER_ERR then -1 else r, s1, ev))))"

section \<open>Timers by name\<close>

text \<open>A comparison of a field with a name that is not longer than the field.\<close>

definition timer_named :: "string \<Rightarrow> string \<Rightarrow> dpm_timer_info_t \<Rightarrow> bool" where
  "timer_named task name x \<longleftrightarrow>
     take REG_NAME_DPM_MAX_LEN task = task_name x \<and> take DPM_TIMER_NAME_MAX_LEN name = timer_name x"

definition dpm_timer_find_timer_id :: "string \<Rightarrow> string \<Rightarrow> dpm_timers \<Rightarrow> int" where
  "dpm_timer_find_timer_id task name s =
     (if \<not> rtm_exist (mgr s) then -1
      else if task = [] \<or> name = [] then -1
      else if REG_NAME_DPM_MAX_LEN < length task \<or> DPM_TIMER_NAME_MAX_LEN < length name then -1
      else case find (\<lambda>i. timer_named task name (timer_at i s)) [0..<TIMER_ERR] of
        Some i \<Rightarrow> int i
      | None \<Rightarrow> -99)"

definition dpm_user_timer_create ::
  "int \<Rightarrow> string \<Rightarrow> string \<Rightarrow> nat option \<Rightarrow> u32 \<Rightarrow> u32 \<Rightarrow> dpm_timers \<Rightarrow> (int \<times> dpm_timers \<times> timer_event list) option" where
  "dpm_user_timer_create r task name cbf ms reschedule_msec s =
     (if \<not> chk_dpm_mode (mgr s) then Some (-1, s, [])
      else if unat ms > TIMER_MAX_MSEC then Some (-2, s, [])
      else (let exist_tid = dpm_timer_find_timer_id task name s in
        if exist_tid \<ge> 0 \<and> exist_tid < int TIMER_ERR then Some (-3, s, [])
        else if exist_tid = -1 then Some (-4, s, [])
        else if \<not> rtm_exist (mgr s) then Some (-6, s, [])
        else (let ev = [Set_app_keepalivetime 0 ms True] in
          if r = 0 \<or> r \<ge> int TIMER_ERR then Some (-7, s, ev)
          else if r < 0 then None
          else Some (r, put_timer (nat r)
            \<lparr>timeout_callback = cbf, msec = (if reschedule_msec > 0 then reschedule_msec else 0),
             task_name = take REG_NAME_DPM_MAX_LEN task, timer_name = take DPM_TIMER_NAME_MAX_LEN name\<rparr> s, ev))))"

text \<open>\<open>got\<close>: the mutex could be taken.\<close>

definition dpm_user_timer_delete :: "bool \<Rightarrow> int \<Rightarrow> string \<Rightarrow> string \<Rightarrow> dpm_timers \<Rightarrow> int \<times> dpm_timers \<times> timer_event list" where
  "dpm_user_timer_delete got r task name s =
     (if \<not> chk_dpm_mode (mgr s) then (-1, s, [])
      else (let exist_tid = dpm_timer_find_timer_id task name s in
        if exist_tid \<ge> 0 \<and> exist_tid < int TIMER_ERR
        then (let s1 = put_timer (nat exist_tid) no_timer s in
              if \<not> got then (-1, s1, [])
              else (if r \<noteq> exist_tid then -1 else r, s1, [Set_app_keepalivetime exist_tid 0 False]))
        else (-1, s, [])))"

definition dpm_user_timer_change :: "int \<Rightarrow> string \<Rightarrow> string \<Rightarrow> u32 \<Rightarrow> dpm_timers \<Rightarrow> int \<times> dpm_timers \<times> timer_event list" where
  "dpm_user_timer_change r task name ms s =
     (if \<not> chk_dpm_mode (mgr s) then (-1, s, [])
      else if unat ms > TIMER_MAX_MSEC then (-1, s, [])
      else (let exist_tid = dpm_timer_find_timer_id task name s in
        if exist_tid \<ge> 0 \<and> exist_tid < int TIMER_ERR
        then (r, put_timer (nat exist_tid) ((timer_at (nat exist_tid) s)\<lparr>msec := ms\<rparr>) s,
              [Set_app_keepalivetime exist_tid ms True])
        else (-1, s, [])))"

text \<open>The loop over timers 5 to 15 but 9 and 10; \<open>rtc\<close> gives the driver's answers.\<close>

definition delete_one :: "(nat \<Rightarrow> int) \<Rightarrow> u32 \<Rightarrow> nat \<Rightarrow> int \<times> dpm_timers \<times> timer_event list \<Rightarrow> int \<times> dpm_timers \<times> timer_event list" where
  "delete_one rtc level tid x = (case x of (ret, s, ev) \<Rightarrow>
     if tid = 9 \<or> tid = 10 then (ret, s, ev)
     else if level > 1
     then (let ev1 = ev @ [Set_app_keepalivetime (int tid) 0 False] in
           if rtc tid \<noteq> int tid then (TIMER_DELETE_ERROR, s, ev1)
           else (ret, put_timer tid no_timer s, ev1))
     else (ret, put_timer tid no_timer s, ev))"

text \<open>\<open>mutex_ok\<close>: the mutex exists or could be created.\<close>

definition dpm_user_timer_delete_all :: "bool \<Rightarrow> (nat \<Rightarrow> int) \<Rightarrow> u32 \<Rightarrow> dpm_timers \<Rightarrow> int \<times> dpm_timers \<times> timer_event list" where
  "dpm_user_timer_delete_all mutex_ok rtc level s =
     (if \<not> chk_dpm_mode (mgr s) \<or> \<not> mutex_ok then (0, s, [])
      else fold (delete_one rtc level) [5..<TIMER_ERR] (1, s, []))"

section \<open>Expired timers\<close>

text \<open>
  The wait until a task has said that it is initialised: 50 attempts with a delay between them, in which other tasks
  run; \<open>others k\<close> is what they do in the delay before attempt \<open>k\<close>.
\<close>

function confirm_loop :: "(nat \<Rightarrow> dpm_timers \<Rightarrow> dpm_timers) \<Rightarrow> string \<Rightarrow> nat \<Rightarrow> dpm_timers \<Rightarrow> bool \<times> dpm_timers" where
  "confirm_loop others name retryCount s =
     (if chk_dpm_init_done name (mgr s) then (True, s)
      else if retryCount + 1 < 50 then confirm_loop others name (retryCount + 1) (others (retryCount + 1) s)
      else (False, s))"
  by auto
termination by (relation "measure (\<lambda>(_, _, k, _). 50 - k)") auto

declare confirm_loop.simps [simp del]

definition confirm_dpm_init_done :: "(nat \<Rightarrow> dpm_timers \<Rightarrow> dpm_timers) \<Rightarrow> string \<Rightarrow> dpm_timers \<Rightarrow> bool \<times> dpm_timers" where
  "confirm_dpm_init_done others name s =
     (if \<not> chk_dpm_mode (mgr s) then (True, s)
      else if name = [] then (True, s)
      else confirm_loop others name 0 s)"

text \<open>
  The task's name as the string functions see it in the table: one that fills its field runs on into the timer's name, and if
  that fills its field too, out of the entry.
\<close>

definition task_string :: "dpm_timer_info_t \<Rightarrow> string option" where
  "task_string x =
     (if length (task_name x) < REG_NAME_DPM_MAX_LEN then Some (task_name x)
      else if length (timer_name x) < DPM_TIMER_NAME_MAX_LEN then Some (task_name x @ timer_name x)
      else None)"

text \<open>
  \<open>cb f name\<close> is what the callback \<open>f\<close> does with the name of the timer; calling one that another task has removed in the
  meantime is \<open>None\<close>. The result of the registration again is only printed.
\<close>

definition set_rtc_chk :: "bool \<Rightarrow> dpm_timers \<Rightarrow> dpm_timers" where
  "set_rtc_chk b s = s\<lparr>mgr := (mgr s)\<lparr>dpm_rtc_to_chk_flag := b\<rparr>\<rparr>"

definition call_timer :: "(nat \<Rightarrow> string \<Rightarrow> dpm_timers \<Rightarrow> dpm_timers) \<Rightarrow> nat \<Rightarrow> dpm_timers \<Rightarrow> (dpm_timers \<times> timer_event list) option" where
  "call_timer cb tid s =
     (case timeout_callback (timer_at tid s) of
        Some f \<Rightarrow> Some (cb f (timer_name (timer_at tid s)) s, [Timeout_callback f (timer_name (timer_at tid s))])
      | None \<Rightarrow> None)"

definition timer_not_ready :: "nat \<Rightarrow> timer_task \<Rightarrow> dpm_timers \<Rightarrow> timer_task \<times> dpm_timers" where
  "timer_not_ready tid p s =
     (let cnt = dpm_timer_abnormal_flag p ! tid + 1;
          p1 = p\<lparr>dpm_timer_abnormal_flag := (dpm_timer_abnormal_flag p)[tid := cnt]\<rparr>
      in if unat cnt > RTC_ABNORMAL_MAX_CNT
         then (p\<lparr>dpm_timer_abnormal_flag := (dpm_timer_abnormal_flag p)[tid := 0]\<rparr>, s)
         else (p1, rtc_timeout_cb tid s))"

definition timer_done :: "nat \<Rightarrow> dpm_timers \<Rightarrow> dpm_timers" where
  "timer_done tid s = set_rtc_chk False (if msec (timer_at tid s) = 0 then put_timer tid no_timer s else s)"

definition dpm_timer_process ::
  "(nat \<Rightarrow> string \<Rightarrow> dpm_timers \<Rightarrow> dpm_timers) \<Rightarrow> (nat \<Rightarrow> dpm_timers \<Rightarrow> dpm_timers) \<Rightarrow> nat
     \<Rightarrow> timer_task \<Rightarrow> dpm_timers \<Rightarrow> (timer_task \<times> dpm_timers \<times> timer_event list) option" where
  "dpm_timer_process cb others tid p s =
     (if tid \<ge> TIMER_ERR then Some (p, set_rtc_chk False s, [])
      else (let s0 = set_rtc_chk True s;
                x = timer_at tid s0;
                ev = (if msec x > 0 then [Set_app_keepalivetime (int tid) (msec x) True] else []);
                call = (\<lambda>s1. map_option (\<lambda>(s2, ev1). (p, timer_done tid s2, ev @ ev1)) (call_timer cb tid s1))
            in if timeout_callback x = None then Some (p, timer_done tid s0, ev)
               else if task_name x = [] then call s0
               else case task_string x of
                 None \<Rightarrow> None
               | Some task \<Rightarrow>
                   (let (ready, s1) = confirm_dpm_init_done others task s0 in
                    if ready then call s1
                    else (let (p1, s2) = timer_not_ready tid p s1 in Some (p1, timer_done tid s2, ev)))))"

section \<open>The timer task\<close>

text \<open>
  The start of the task. The counter of attempts starts at its limit, so that the loop that retries the registration is never entered
  a second time.
\<close>

definition timer_task_start :: "bool \<Rightarrow> bool \<Rightarrow> dpm \<Rightarrow> (bool \<times> dpm) call option" where
  "timer_task_start got gave s =
     (case reg_dpm_sleep got gave REG_NAME_DPM_TIMER_PROC 0 s of
        None \<Rightarrow> None
      | Some (r, s1) \<Rightarrow>
          Some (if r = DPM_REG_ERR then Returns (False, s1)
                else case clr_dpm_sleep REG_NAME_DPM_TIMER_PROC s1 of
                    Blocked \<Rightarrow> Blocked
                  | Returns (_, s2) \<Rightarrow> Returns (rtm_exist s2, s2)))"

text \<open>The expired timers are put into a queue of 32 elements, and their bits are cleared.\<close>

definition send_tid :: "u32 \<Rightarrow> nat \<Rightarrow> timer_task \<times> dpm_timers \<Rightarrow> timer_task \<times> dpm_timers" where
  "send_tid timeout_id tid x = (case x of (p, s) \<Rightarrow>
     if timeout_id AND bit32 tid \<noteq> 0 \<and> length (dpm_timer_queue p) < 32
     then (p\<lparr>dpm_timer_queue := dpm_timer_queue p @ [tid]\<rparr>, clr_rtc_timeout_tid tid s)
     else (p, s))"

text \<open>The loop at the label \<^verbatim>\<open>rcv_queue\<close>; a timer whose task is not ready ends it and empties the queue.\<close>

fun rcv_queue ::
  "(nat \<Rightarrow> string \<Rightarrow> dpm_timers \<Rightarrow> dpm_timers) \<Rightarrow> (nat \<Rightarrow> dpm_timers \<Rightarrow> dpm_timers) \<Rightarrow> nat list
     \<Rightarrow> timer_task \<Rightarrow> dpm_timers \<Rightarrow> (timer_task \<times> dpm_timers \<times> timer_event list) option" where
  "rcv_queue cb others [] p s = Some (p\<lparr>dpm_timer_queue := []\<rparr>, s, [])"
| "rcv_queue cb others (tid # q) p s =
     (case dpm_timer_process cb others tid p s of
        None \<Rightarrow> None
      | Some (p1, s1, ev) \<Rightarrow>
          if dpm_timer_abnormal_flag p1 ! tid \<noteq> 0 then Some (p1\<lparr>dpm_timer_queue := []\<rparr>, s1, ev)
          else map_option (\<lambda>(p2, s2, ev2). (p2, s2, ev @ ev2)) (rcv_queue cb others q p1 s1))"

text \<open>
  One round of the loop. When nothing has expired the task asks for sleep; during a power-down
  the call that asks for it waits.
\<close>

definition timer_round ::
  "(nat \<Rightarrow> string \<Rightarrow> dpm_timers \<Rightarrow> dpm_timers) \<Rightarrow> (nat \<Rightarrow> dpm_timers \<Rightarrow> dpm_timers)
     \<Rightarrow> timer_task \<Rightarrow> dpm_timers \<Rightarrow> (timer_task \<times> dpm_timers \<times> timer_event list) call option" where
  "timer_round cb others p s =
     (let ask = (\<lambda>f. case f REG_NAME_DPM_TIMER_PROC (mgr s) of Blocked \<Rightarrow> Blocked | Returns (_, m) \<Rightarrow> Returns (s\<lparr>mgr := m\<rparr>)) in
      if dpm_pdown_state (mgr s) \<noteq> WAIT_DPM_SLEEP \<or> dpm_rtc_timeout_tid s = 0
      then Some (case ask set_dpm_sleep of Blocked \<Rightarrow> Blocked | Returns s1 \<Rightarrow> Returns (p, s1, []))
      else case ask clr_dpm_sleep of
          Blocked \<Rightarrow> Some Blocked
        | Returns s1 \<Rightarrow>
            (let (p2, s2) = fold (send_tid (dpm_rtc_timeout_tid s)) [0..<16] (p, s1)
             in map_option Returns (rcv_queue cb others (dpm_timer_queue p2) p2 s2)))"

end
