(* ===== verification/Dpm_Timer_Props.thy ===== *)
theory Dpm_Timer_Props
  imports Dpm_Timer Dpm_Props
begin

text \<open>
  The table of named timers as a finite map from names to numbers, what creating and deleting do to it, and one round of the
  task that calls the callbacks.
\<close>

section \<open>The table\<close>

text \<open>Names fit into their fields, and no two timers have the same full name.\<close>

definition full_name :: "nat \<Rightarrow> dpm_timers \<Rightarrow> string \<times> string" where
  "full_name i s = (task_name (timer_at i s), timer_name (timer_at i s))"

definition proper :: "string \<times> string \<Rightarrow> bool" where
  "proper n \<longleftrightarrow> fst n \<noteq> [] \<and> snd n \<noteq> [] \<and> length (fst n) \<le> REG_NAME_DPM_MAX_LEN \<and> length (snd n) \<le> DPM_TIMER_NAME_MAX_LEN"

definition timers_ok :: "dpm_timers \<Rightarrow> bool" where
  "timers_ok s \<longleftrightarrow> length (rtm_timers s) = TIMER_ERR
     \<and> (\<forall>i < TIMER_ERR. length (task_name (timer_at i s)) \<le> REG_NAME_DPM_MAX_LEN \<and> length (timer_name (timer_at i s)) \<le> DPM_TIMER_NAME_MAX_LEN)
     \<and> (\<forall>i < TIMER_ERR. \<forall>j < TIMER_ERR. full_name i s = full_name j s \<longrightarrow> proper (full_name i s) \<longrightarrow> i = j)"

definition timer_map :: "dpm_timers \<Rightarrow> string \<times> string \<Rightarrow> nat option" where
  "timer_map s n = (if proper n then find (\<lambda>i. full_name i s = n) [0..<TIMER_ERR] else None)"

lemma timers_okD:
  assumes "timers_ok s"
  shows "length (rtm_timers s) = TIMER_ERR"
    "i < TIMER_ERR \<Longrightarrow> length (task_name (timer_at i s)) \<le> REG_NAME_DPM_MAX_LEN"
    "i < TIMER_ERR \<Longrightarrow> length (timer_name (timer_at i s)) \<le> DPM_TIMER_NAME_MAX_LEN"
    "i < TIMER_ERR \<Longrightarrow> j < TIMER_ERR \<Longrightarrow> full_name i s = full_name j s \<Longrightarrow> proper (full_name i s) \<Longrightarrow> i = j"
  using assms unfolding timers_ok_def by blast+

lemma timer_at_put: "length (rtm_timers s) = TIMER_ERR \<Longrightarrow> i < TIMER_ERR \<Longrightarrow> timer_at j (put_timer i x s) = (if j = i then x else timer_at j s)"
  by (auto simp: timer_at_def put_timer_def nth_list_update_if)

lemma full_name_put:
  "length (rtm_timers s) = TIMER_ERR \<Longrightarrow> i < TIMER_ERR \<Longrightarrow> full_name j (put_timer i x s) = (if j = i then (task_name x, timer_name x) else full_name j s)"
  by (simp add: full_name_def timer_at_put)

lemma put_timer_fields [simp]:
  "mgr (put_timer i x s) = mgr s" "dpm_rtc_timeout_tid (put_timer i x s) = dpm_rtc_timeout_tid s"
  "length (rtm_timers (put_timer i x s)) = length (rtm_timers s)"
  by (simp_all add: put_timer_def)

lemma timer_map_Some:
  assumes "timers_ok s"
  shows "timer_map s n = Some i \<longleftrightarrow> i < TIMER_ERR \<and> full_name i s = n \<and> proper n"
proof
  assume a: "timer_map s n = Some i"
  then have p: "proper n" and f: "find (\<lambda>i. full_name i s = n) [0..<TIMER_ERR] = Some i" by (auto simp: timer_map_def split: if_splits)
  from find_upt_Some[OF f] p show "i < TIMER_ERR \<and> full_name i s = n \<and> proper n" by blast
next
  assume a: "i < TIMER_ERR \<and> full_name i s = n \<and> proper n"
  then obtain j where j: "find (\<lambda>i. full_name i s = n) [0..<TIMER_ERR] = Some j" by (cases "find (\<lambda>i. full_name i s = n) [0..<TIMER_ERR]") (auto simp: find_None_iff)
  from find_upt_Some[OF j] a timers_okD(4)[OF assms, of j i] have "j = i" by simp
  with j a show "timer_map s n = Some i" by (simp add: timer_map_def)
qed

lemma timer_map_None: "timer_map s n = None \<longleftrightarrow> \<not> proper n \<or> (\<forall>i < TIMER_ERR. full_name i s \<noteq> n)"
  by (auto simp: timer_map_def find_None_iff)

lemma find_timer_map:
  assumes "rtm_exist (mgr s)"
  shows "dpm_timer_find_timer_id task name s =
    (if \<not> proper (task, name) then -1 else case timer_map s (task, name) of Some i \<Rightarrow> int i | None \<Rightarrow> -99)"
proof (cases "proper (task, name)")
  case True
  then have l: "task \<noteq> []" "name \<noteq> []" "length task \<le> REG_NAME_DPM_MAX_LEN" "length name \<le> DPM_TIMER_NAME_MAX_LEN"
    by (simp_all add: proper_def)
  then have "timer_named task name (timer_at i s) \<longleftrightarrow> full_name i s = (task, name)" for i
    by (auto simp: timer_named_def full_name_def)
  then show ?thesis using True l assms by (simp add: dpm_timer_find_timer_id_def timer_map_def)
qed (use assms in \<open>auto simp: dpm_timer_find_timer_id_def proper_def\<close>)

text \<open>An entry is written whose name, if it is a full one, is not in the table elsewhere.\<close>

lemma put_timer_ok:
  assumes ok: "timers_ok s" and i: "i < TIMER_ERR"
    and l: "length (task_name x) \<le> REG_NAME_DPM_MAX_LEN" "length (timer_name x) \<le> DPM_TIMER_NAME_MAX_LEN"
    and new: "\<And>j. j < TIMER_ERR \<Longrightarrow> full_name j s = (task_name x, timer_name x) \<Longrightarrow> proper (task_name x, timer_name x) \<Longrightarrow> j = i"
  shows "timers_ok (put_timer i x s)"
proof -
  note len = timers_okD(1)[OF ok]
  have "full_name j (put_timer i x s) = full_name k (put_timer i x s) \<Longrightarrow> proper (full_name j (put_timer i x s)) \<Longrightarrow> j = k"
    if "j < TIMER_ERR" "k < TIMER_ERR" for j k
    using that new[of j] new[of k] timers_okD(4)[OF ok that] unfolding full_name_put[OF len i] by (auto split: if_splits)
  then show ?thesis using timers_okD(1-3)[OF ok] l i unfolding timers_ok_def timer_at_put[OF len i] by simp
qed

lemma timer_map_put:
  assumes ok: "timers_ok s" "timers_ok (put_timer i x s)" and i: "i < TIMER_ERR"
  shows "timer_map (put_timer i x s) n =
    (if proper n \<and> n = (task_name x, timer_name x) then Some i else if timer_map s n = Some i then None else timer_map s n)"
proof -
  note fn = full_name_put[OF timers_okD(1)[OF ok(1)] i]
  show ?thesis
  proof (cases "proper n \<and> n = (task_name x, timer_name x)")
    case True
    then show ?thesis using timer_map_Some[OF ok(2), of n i] i fn[of i x] by auto
  next
    case False
    show ?thesis
    proof (cases "timer_map s n")
      case None
      then have "\<not> proper n \<or> (\<forall>j < TIMER_ERR. full_name j (put_timer i x s) \<noteq> n)" using False fn by (auto simp: timer_map_None)
      then have "timer_map (put_timer i x s) n = None" by (simp only: timer_map_None)
      then show ?thesis using None False by auto
    next
      case (Some j)
      then have j: "j < TIMER_ERR" "full_name j s = n" "proper n" using timer_map_Some[OF ok(1)] by auto
      show ?thesis
      proof (cases "j = i")
        case True
        have "full_name k (put_timer i x s) \<noteq> n" if "k < TIMER_ERR" for k
          using timers_okD(4)[OF ok(1), of k j] that j False True fn by auto
        then have "timer_map (put_timer i x s) n = None" by (simp add: timer_map_None)
        then show ?thesis using False Some True by simp
      next
        case neq: False
        then have "timer_map (put_timer i x s) n = Some j" using j fn timer_map_Some[OF ok(2), of n j] by simp
        then show ?thesis using False Some neq by simp
      qed
    qed
  qed
qed

lemma no_timer_ok: "timers_ok s \<Longrightarrow> i < TIMER_ERR \<Longrightarrow> timers_ok (put_timer i no_timer s)"
  by (rule put_timer_ok) (simp_all add: no_timer_def proper_def)

lemma timer_map_delete:
  "timers_ok s \<Longrightarrow> i < TIMER_ERR \<Longrightarrow> timer_map (put_timer i no_timer s) n = (if timer_map s n = Some i then None else timer_map s n)"
  by (simp add: timer_map_put no_timer_ok) (auto simp: no_timer_def proper_def)

section \<open>The operations on the map\<close>

lemma chk_mode_exist: "chk_dpm_mode m \<Longrightarrow> rtm_exist m" by (simp add: chk_dpm_mode_def)

lemma timer_map_id: "timers_ok s \<Longrightarrow> timer_map s n = Some i \<Longrightarrow> i < TIMER_ERR"
  by (simp add: timer_map_Some)

lemma create_spec:
  assumes ok: "timers_ok s" and m: "chk_dpm_mode (mgr s)" "unat ms \<le> TIMER_MAX_MSEC" and n: "proper (task, name)" and r: "0 \<le> r"
  shows "\<exists>k s' ev. dpm_user_timer_create r task name f ms ms2 s = Some (k, s', ev) \<and> timers_ok s' \<and> mgr s' = mgr s
    \<and> (if timer_map s (task, name) \<noteq> None then k = -3 \<and> s' = s \<and> ev = []
       else if r = 0 \<or> r \<ge> int TIMER_ERR then k = -7 \<and> s' = s
       else k = r \<and> ev = [Set_app_keepalivetime 0 ms True]
         \<and> (\<forall>n. timer_map s' n = (if n = (task, name) then Some (nat r) else if timer_map s n = Some (nat r) then None else timer_map s n))
         \<and> timer_at (nat r) s' = \<lparr>timeout_callback = f, msec = ms2, task_name = task, timer_name = name\<rparr>)"
proof (cases "timer_map s (task, name)")
  case (Some i)
  then have "dpm_user_timer_create r task name f ms ms2 s = Some (-3, s, [])"
    using n m timer_map_id[OF ok Some] by (simp add: dpm_user_timer_create_def find_timer_map chk_mode_exist)
  then show ?thesis using Some ok by auto
next
  case None
  then have find: "dpm_timer_find_timer_id task name s = -99" using n m by (simp add: find_timer_map chk_mode_exist)
  show ?thesis
  proof (cases "r = 0 \<or> r \<ge> int TIMER_ERR")
    case True
    then have "dpm_user_timer_create r task name f ms ms2 s = Some (-7, s, [Set_app_keepalivetime 0 ms True])"
      using m find by (simp add: dpm_user_timer_create_def chk_mode_exist)
    then show ?thesis using None True ok by auto
  next
    case False
    define x where "x = \<lparr>timeout_callback = f, msec = ms2, task_name = task, timer_name = name\<rparr>"
    have i: "nat r < TIMER_ERR" using False r by auto
    have t: "take REG_NAME_DPM_MAX_LEN task = task" "take DPM_TIMER_NAME_MAX_LEN name = name" "(if ms2 > 0 then ms2 else 0) = ms2"
      using n by (simp_all add: proper_def word_gt_0)
    then have c: "dpm_user_timer_create r task name f ms ms2 s = Some (r, put_timer (nat r) x s, [Set_app_keepalivetime 0 ms True])"
      using m find False r by (simp add: dpm_user_timer_create_def chk_mode_exist x_def)
    have okx: "timers_ok (put_timer (nat r) x s)"
      by (rule put_timer_ok[OF ok i]) (use n None in \<open>auto simp: x_def proper_def timer_map_None\<close>)
    have "timer_map (put_timer (nat r) x s) k = (if k = (task, name) then Some (nat r) else if timer_map s k = Some (nat r) then None else timer_map s k)" for k
      unfolding timer_map_put[OF ok okx i] using n by (auto simp: x_def)
    then show ?thesis using c okx None False timer_at_put[OF timers_okD(1)[OF ok] i, of "nat r" x] by (auto simp: x_def)
  qed
qed

lemma delete_spec:
  assumes ok: "timers_ok s" and m: "chk_dpm_mode (mgr s)" and f: "timer_map s (task, name) = Some i"
  shows "\<exists>s'. dpm_user_timer_delete True (int i) task name s = (int i, s', [Set_app_keepalivetime (int i) 0 False]) \<and> timers_ok s' \<and> mgr s' = mgr s
    \<and> timer_map s' = (timer_map s)((task, name) := None)"
proof -
  have p: "proper (task, name)" "i < TIMER_ERR" using f timer_map_Some[OF ok] by auto
  have d: "dpm_user_timer_delete True (int i) task name s = (int i, put_timer i no_timer s, [Set_app_keepalivetime (int i) 0 False])"
    using p f m by (simp add: dpm_user_timer_delete_def find_timer_map chk_mode_exist Let_def)
  have "timer_map s n = Some i \<longleftrightarrow> n = (task, name)" for n using f timer_map_Some[OF ok] by metis
  then have "timer_map (put_timer i no_timer s) = (timer_map s)((task, name) := None)"
    using timer_map_delete[OF ok p(2)] by auto
  then show ?thesis using d no_timer_ok[OF ok p(2)] by auto
qed

lemma change_spec:
  assumes ok: "timers_ok s" and m: "chk_dpm_mode (mgr s)" "unat ms \<le> TIMER_MAX_MSEC" and f: "timer_map s (task, name) = Some i"
  shows "\<exists>s'. dpm_user_timer_change r task name ms s = (r, s', [Set_app_keepalivetime (int i) ms True]) \<and> timers_ok s'
    \<and> timer_map s' = timer_map s \<and> timer_at i s' = (timer_at i s)\<lparr>msec := ms\<rparr>"
proof -
  define x where "x = (timer_at i s)\<lparr>msec := ms\<rparr>"
  have p: "proper (task, name)" "i < TIMER_ERR" "full_name i s = (task, name)" using f timer_map_Some[OF ok] by auto
  have nm: "(task_name x, timer_name x) = (task, name)" using p(3) by (simp add: x_def full_name_def)
  have c: "dpm_user_timer_change r task name ms s = (r, put_timer i x s, [Set_app_keepalivetime (int i) ms True])"
    using p f m by (simp add: dpm_user_timer_change_def find_timer_map chk_mode_exist x_def Let_def)
  have okx: "timers_ok (put_timer i x s)"
    by (rule put_timer_ok[OF ok p(2)]) (use nm p timers_okD(4)[OF ok _ p(2)] in \<open>auto simp: proper_def\<close>)
  have "timer_map (put_timer i x s) n = timer_map s n" for n
    unfolding timer_map_put[OF ok okx p(2)] using nm f p timer_map_Some[OF ok, of n i] by auto
  then show ?thesis using c okx timer_at_put[OF timers_okD(1)[OF ok] p(2), of i x] by (auto simp: x_def)
qed

section \<open>The invariant\<close>

lemma timers_ok_cong: "rtm_timers t = rtm_timers s \<Longrightarrow> timers_ok t = timers_ok s"
  by (simp add: timers_ok_def full_name_def timer_at_def)

lemma find_id_range:
  assumes "dpm_timer_find_timer_id task name s = k" "0 \<le> k" "timers_ok s"
  shows "nat k < TIMER_ERR" "timer_map s (task, name) = Some (nat k)"
proof -
  have e: "rtm_exist (mgr s)" using assms(1,2) by (auto simp: dpm_timer_find_timer_id_def split: if_splits)
  from assms(1,2) show "timer_map s (task, name) = Some (nat k)" unfolding find_timer_map[OF e] by (auto split: if_splits option.splits)
  then show "nat k < TIMER_ERR" by (rule timer_map_id[OF assms(3)])
qed

lemma create_ok:
  assumes c: "dpm_user_timer_create r task name f ms ms2 s = Some (k, s', ev)" and ok: "timers_ok s"
  shows "timers_ok s'"
proof (cases "s' = s")
  case False
  have m: "chk_dpm_mode (mgr s)" "unat ms \<le> TIMER_MAX_MSEC" using c False by (auto simp: dpm_user_timer_create_def split: if_splits)
  then have "proper (task, name)" "0 \<le> r"
    using c False by (auto simp: dpm_user_timer_create_def find_timer_map chk_mode_exist Let_def split: if_splits)
  from create_spec[OF ok m this, of f ms2] c show ?thesis by auto
qed (use ok in simp)

lemma register_ok:
  assumes "rtc_register_timer rid r ms name tid peri f s = Some (k, s', ev)" "timers_ok s"
  shows "timers_ok s'"
proof (cases "s' = s")
  case False
  define t where "t = (if tid \<ge> 2 then tid else rid)"
  define x where "x = \<lparr>timeout_callback = f, msec = (if peri > 0 then ms else 0), task_name = name, timer_name = []\<rparr>"
  have "s' = put_timer (nat t) x s" "0 \<le> t" "t < int TIMER_ERR" "length name \<le> REG_NAME_DPM_MAX_LEN"
    using assms(1) False by (auto simp: rtc_register_timer_def Let_def t_def x_def split: if_splits)
  moreover from this have "timers_ok (put_timer (nat t) x s)"
    by (intro put_timer_ok[OF assms(2)]) (auto simp: x_def proper_def)
  ultimately show ?thesis by simp
qed (use assms in simp)

lemma delete_ok: "dpm_user_timer_delete got r task name s = (k, s', ev) \<Longrightarrow> timers_ok s \<Longrightarrow> timers_ok s'"
  using find_id_range(1)[of task name s] by (auto simp: dpm_user_timer_delete_def Let_def no_timer_ok split: if_splits)

lemma change_ok:
  assumes "dpm_user_timer_change r task name ms s = (k, s', ev)" "timers_ok s"
  shows "timers_ok s'"
proof (cases "s' = s")
  case False
  have m: "chk_dpm_mode (mgr s)" "unat ms \<le> TIMER_MAX_MSEC" "0 \<le> dpm_timer_find_timer_id task name s"
    using assms(1) False by (auto simp: dpm_user_timer_change_def Let_def split: if_splits)
  from change_spec[OF assms(2) m(1,2) find_id_range(2)[OF refl m(3) assms(2)], of r] assms(1) show ?thesis by auto
qed (use assms in simp)

lemma delete_all_ok: "dpm_user_timer_delete_all mutex_ok rtc level s = (k, s', ev) \<Longrightarrow> timers_ok s \<Longrightarrow> timers_ok s'"
proof -
  have one: "timers_ok (fst (snd x)) \<Longrightarrow> tid < TIMER_ERR \<Longrightarrow> timers_ok (fst (snd (delete_one rtc level tid x)))" for tid x
    by (auto simp: delete_one_def Let_def no_timer_ok split: prod.splits)
  have "timers_ok (fst (snd x)) \<Longrightarrow> \<forall>t \<in> set ts. t < TIMER_ERR \<Longrightarrow> timers_ok (fst (snd (fold (delete_one rtc level) ts x)))" for ts x
  proof (induction ts arbitrary: x)
    case (Cons t ts)
    then have "timers_ok (fst (snd (delete_one rtc level t x)))" by (intro one) simp_all
    with Cons show ?case by simp
  qed simp
  from this[of "(1, s, [])" "[5..<TIMER_ERR]"]
  show "dpm_user_timer_delete_all mutex_ok rtc level s = (k, s', ev) \<Longrightarrow> timers_ok s \<Longrightarrow> timers_ok s'"
    by (auto simp: dpm_user_timer_delete_all_def split: if_splits)
qed

text \<open>Callbacks and other tasks that keep the invariant.\<close>

definition well_behaved :: "(nat \<Rightarrow> string \<Rightarrow> dpm_timers \<Rightarrow> dpm_timers) \<Rightarrow> (nat \<Rightarrow> dpm_timers \<Rightarrow> dpm_timers) \<Rightarrow> bool" where
  "well_behaved cb others \<longleftrightarrow> (\<forall>f n s. timers_ok s \<longrightarrow> timers_ok (cb f n s)) \<and> (\<forall>k s. timers_ok s \<longrightarrow> timers_ok (others k s))"

lemma confirm_loop_ok: "well_behaved cb others \<Longrightarrow> timers_ok s \<Longrightarrow> timers_ok (snd (confirm_loop others name k s))"
proof (induction others name k s rule: confirm_loop.induct)
  case (1 others name k s)
  then show ?case by (subst confirm_loop.simps) (auto simp: well_behaved_def)
qed

lemma confirm_ok: "well_behaved cb others \<Longrightarrow> timers_ok s \<Longrightarrow> timers_ok (snd (confirm_dpm_init_done others name s))"
  by (simp add: confirm_dpm_init_done_def confirm_loop_ok)

lemma set_rtc_chk_ok [simp]: "timers_ok (set_rtc_chk b s) = timers_ok s"
  by (rule timers_ok_cong) (simp add: set_rtc_chk_def)

lemma timer_done_ok: "timers_ok s \<Longrightarrow> tid < TIMER_ERR \<Longrightarrow> timers_ok (timer_done tid s)"
  by (simp add: timer_done_def no_timer_ok)

lemma call_timer_ok: "well_behaved cb others \<Longrightarrow> timers_ok s \<Longrightarrow> call_timer cb tid s = Some (s', ev) \<Longrightarrow> timers_ok s'"
  by (auto simp: call_timer_def well_behaved_def split: option.splits)

lemma not_ready_ok: "timers_ok s \<Longrightarrow> timers_ok (snd (timer_not_ready tid p s))"
  using timers_ok_cong[of "rtc_timeout_cb tid s" s] by (simp add: timer_not_ready_def Let_def rtc_timeout_cb_def)

lemma process_cases:
  assumes pr: "dpm_timer_process cb others tid p s = Some (p', s', ev)" and tid: "tid < TIMER_ERR"
  defines "s0 \<equiv> set_rtc_chk True s"
  obtains (idle) "p' = p" "s' = timer_done tid s0"
  | (call) s1 s2 ev1 where "s1 = s0 \<or> (\<exists>task. s1 = snd (confirm_dpm_init_done others task s0))"
      "call_timer cb tid s1 = Some (s2, ev1)" "p' = p" "s' = timer_done tid s2"
  | (not_ready) s1 s2 where "\<exists>task. s1 = snd (confirm_dpm_init_done others task s0)" "timer_not_ready tid p s1 = (p', s2)" "s' = timer_done tid s2"
proof -
  define x where "x = timer_at tid s0"
  define evs where "evs = (if msec x > 0 then [Set_app_keepalivetime (int tid) (msec x) True] else [])"
  define call where "call = (\<lambda>s1. map_option (\<lambda>(s2, ev1). (p, timer_done tid s2, evs @ ev1)) (call_timer cb tid s1))"
  have called: thesis if "call s1 = Some (p', s', ev)" "s1 = s0 \<or> (\<exists>task. s1 = snd (confirm_dpm_init_done others task s0))" for s1
  proof -
    from that(1) obtain s2 ev1 where "call_timer cb tid s1 = Some (s2, ev1)" "p' = p" "s' = timer_done tid s2"
      unfolding call_def by (auto simp: map_option_case split: option.splits)
    with that(2) show thesis by (intro call[of s1 s2 ev1])
  qed
  note pr' = pr[unfolded dpm_timer_process_def Let_def, folded s0_def, folded x_def, folded evs_def, folded call_def]
  consider "timeout_callback x = None" | "timeout_callback x \<noteq> None" "task_name x = []" | "timeout_callback x \<noteq> None" "task_name x \<noteq> []" by blast
  then show thesis
  proof cases
    case 1
    with pr' tid show thesis by (intro idle) auto
  next
    case 2
    with pr' tid have "call s0 = Some (p', s', ev)" by (simp add: call_def)
    then show thesis by (rule called) simp
  next
    case 3
    with pr' tid obtain task where t: "task_string x = Some task" by (auto split: option.splits)
    obtain ready s1 where c: "confirm_dpm_init_done others task s0 = (ready, s1)" by (cases "confirm_dpm_init_done others task s0")
    then have s1: "s1 = snd (confirm_dpm_init_done others task s0)" by simp
    obtain p2 s2 where n: "timer_not_ready tid p s1 = (p2, s2)" by (cases "timer_not_ready tid p s1")
    show thesis
    proof (cases ready)
      case True
      with pr' tid 3 t c have "call s1 = Some (p', s', ev)" by (simp add: call_def)
      then show thesis by (rule called) (use s1 in blast)
    next
      case False
      with pr' tid 3 t c n have "p' = p2" "s' = timer_done tid s2" by simp_all
      with n s1 show thesis by (intro not_ready[of s1 s2]) auto
    qed
  qed
qed

lemma process_ok:
  assumes pr: "dpm_timer_process cb others tid p s = Some (p', s', ev)" and r: "well_behaved cb others" and ok: "timers_ok s"
  shows "timers_ok s'"
proof (cases "tid \<ge> TIMER_ERR")
  case False
  then have tid: "tid < TIMER_ERR" by simp
  have s0: "timers_ok (set_rtc_chk True s)" using ok by simp
  from pr tid show ?thesis
  proof (cases rule: process_cases)
    case idle
    then show ?thesis using s0 tid timer_done_ok by simp
  next
    case (call s1 s2 ev1)
    then have "timers_ok s1" using s0 confirm_ok[OF r s0] by auto
    from call_timer_ok[OF r this call(2)] show ?thesis using call(4) timer_done_ok tid by simp
  next
    case (not_ready s1 s2)
    then have "timers_ok s1" using confirm_ok[OF r s0] by auto
    from not_ready_ok[OF this, of tid p] show ?thesis using not_ready timer_done_ok tid by simp
  qed
qed (use pr ok in \<open>auto simp: dpm_timer_process_def\<close>)

end
