(* ===== verification/Dpm_Timer_Claims.thy ===== *)
theory Dpm_Timer_Claims
  imports Dpm_Timer_Props
begin

text \<open>
  The properties of the named timers: the table is a finite map with unique names whatever order the calls come in,
  a round of the timer task calls the callback of every timer that has expired, and what
  happens to timers whose task is not ready.
\<close>

section \<open>A round keeps the table well-formed\<close>

lemma rcv_queue_ok:
  "rcv_queue cb others q p s = Some (p', s', ev) \<Longrightarrow> well_behaved cb others \<Longrightarrow> timers_ok s \<Longrightarrow> timers_ok s'"
proof (induction q arbitrary: p s p' s' ev)
  case (Cons tid q)
  from Cons.prems(1) obtain p1 s1 ev1 where pr: "dpm_timer_process cb others tid p s = Some (p1, s1, ev1)"
    by (auto split: option.splits)
  have ok: "timers_ok s1" by (rule process_ok[OF pr Cons.prems(2,3)])
  show ?case
  proof (cases "dpm_timer_abnormal_flag p1 ! tid \<noteq> 0")
    case True
    then show ?thesis using Cons.prems(1) pr ok by simp
  next
    case False
    then obtain ev2 where "rcv_queue cb others q p1 s1 = Some (p', s', ev2)" using Cons.prems(1) pr by auto
    from Cons.IH[OF this Cons.prems(2) ok] show ?thesis .
  qed
qed simp

lemma send_timers: "rtm_timers (snd (fold (send_tid w) ts x)) = rtm_timers (snd x)"
  by (induction ts arbitrary: x) (auto simp: send_tid_def clr_rtc_timeout_tid_def split: prod.splits)

lemma round_ok:
  assumes r: "timer_round cb others p s = Some (Returns (p', s', ev))" and w: "well_behaved cb others" and ok: "timers_ok s"
  shows "timers_ok s'"
proof (cases "dpm_pdown_state (mgr s) \<noteq> WAIT_DPM_SLEEP \<or> dpm_rtc_timeout_tid s = 0")
  case True
  then have "rtm_timers s' = rtm_timers s" using r by (auto simp: timer_round_def split: call.splits)
  then show ?thesis using ok timers_ok_cong by blast
next
  case False
  then obtain k m where m: "clr_dpm_sleep REG_NAME_DPM_TIMER_PROC (mgr s) = Returns (k, m)"
    using r by (auto simp: timer_round_def Let_def split: call.splits)
  define s1 where "s1 = s\<lparr>mgr := m\<rparr>"
  obtain p2 s2 where f: "fold (send_tid (dpm_rtc_timeout_tid s)) [0..<16] (p, s1) = (p2, s2)" by fastforce
  have q: "rcv_queue cb others (dpm_timer_queue p2) p2 s2 = Some (p', s', ev)"
    using r False m f by (auto simp: timer_round_def Let_def s1_def)
  have "rtm_timers s2 = rtm_timers s" using send_timers[of "dpm_rtc_timeout_tid s" "[0..<16]" "(p, s1)"] unfolding f by (simp add: s1_def)
  then have "timers_ok s2" using ok timers_ok_cong by blast
  then show ?thesis by (rule rcv_queue_ok[OF q w])
qed

section \<open>Sequences of calls\<close>

datatype timer_op =
    Tm_create int string string "nat option" u32 u32
  | Tm_delete bool int string string
  | Tm_change int string string u32
  | Tm_delete_all bool "nat \<Rightarrow> int" u32
  | Tm_register int int u32 string int int "nat option"
  | Tm_expire nat
  | Tm_round "nat \<Rightarrow> string \<Rightarrow> dpm_timers \<Rightarrow> dpm_timers" "nat \<Rightarrow> dpm_timers \<Rightarrow> dpm_timers"

inductive timer_step :: "timer_task \<times> dpm_timers \<Rightarrow> timer_op \<Rightarrow> timer_task \<times> dpm_timers \<Rightarrow> bool" where
  "dpm_user_timer_create r task name f ms ms2 s = Some (k, s', ev) \<Longrightarrow> timer_step (p, s) (Tm_create r task name f ms ms2) (p, s')"
| "dpm_user_timer_delete got r task name s = (k, s', ev) \<Longrightarrow> timer_step (p, s) (Tm_delete got r task name) (p, s')"
| "dpm_user_timer_change r task name ms s = (k, s', ev) \<Longrightarrow> timer_step (p, s) (Tm_change r task name ms) (p, s')"
| "dpm_user_timer_delete_all mutex_ok rtc level s = (k, s', ev) \<Longrightarrow> timer_step (p, s) (Tm_delete_all mutex_ok rtc level) (p, s')"
| "rtc_register_timer rid r ms name tid peri f s = Some (k, s', ev) \<Longrightarrow> timer_step (p, s) (Tm_register rid r ms name tid peri f) (p, s')"
| "timer_step (p, s) (Tm_expire tid) (p, rtc_timeout_cb tid s)"
| "timer_round cb others p s = Some (Returns (p', s', ev)) \<Longrightarrow> well_behaved cb others \<Longrightarrow> timer_step (p, s) (Tm_round cb others) (p', s')"

inductive timer_run :: "timer_task \<times> dpm_timers \<Rightarrow> timer_op list \<Rightarrow> timer_task \<times> dpm_timers \<Rightarrow> bool" where
  tm_nil: "timer_run x [] x"
| tm_cons: "timer_step x l y \<Longrightarrow> timer_run y ls z \<Longrightarrow> timer_run x (l # ls) z"

lemma timer_step_ok: "timer_step x l y \<Longrightarrow> timers_ok (snd x) \<Longrightarrow> timers_ok (snd y)"
proof (induction rule: timer_step.induct)
  case (6 p s tid)
  then show ?case using timers_ok_cong[of "rtc_timeout_cb tid s" s] by (simp add: rtc_timeout_cb_def)
qed (simp_all add: create_ok delete_ok change_ok delete_all_ok register_ok round_ok)

lemma timer_run_ok: "timer_run x ls y \<Longrightarrow> timers_ok (snd x) \<Longrightarrow> timers_ok (snd y)"
  by (induction rule: timer_run.induct) (auto dest: timer_step_ok)

text \<open>The table after a cold start, with what the memory in front of it holds.\<close>

definition timers_boot :: "dpm_timer_info_t list \<Rightarrow> dpm \<Rightarrow> dpm_timers" where
  "timers_boot front m = \<lparr>mgr = m, rtm_timers = front @ replicate 14 no_timer, dpm_rtc_timeout_tid = 0\<rparr>"

definition task_boot :: timer_task where
  "task_boot = \<lparr>dpm_timer_queue = [], dpm_timer_abnormal_flag = replicate 16 0\<rparr>"

lemma timers_boot_ok: "timers_ok (timers_boot [no_timer, no_timer] m)"
proof -
  have "rtm_timers (timers_boot [no_timer, no_timer] m) = replicate 16 no_timer"
    by (simp add: timers_boot_def eval_nat_numeral)
  then show ?thesis
    by (auto simp: timers_ok_def TIMER_ERR_def timer_at_def full_name_def no_timer_def proper_def REG_NAME_DPM_MAX_LEN_def DPM_TIMER_NAME_MAX_LEN_def)
qed

section \<open>A round that calls every callback\<close>

definition timer_events :: "nat \<Rightarrow> dpm_timers \<Rightarrow> timer_event list" where
  "timer_events tid s =
     (if msec (timer_at tid s) > 0 then [Set_app_keepalivetime (int tid) (msec (timer_at tid s)) True] else [])
     @ (case timeout_callback (timer_at tid s) of Some f \<Rightarrow> [Timeout_callback f (timer_name (timer_at tid s))] | None \<Rightarrow> [])"

definition timer_ready :: "nat \<Rightarrow> dpm_timers \<Rightarrow> bool" where
  "timer_ready tid s \<longleftrightarrow> timeout_callback (timer_at tid s) = None
     \<or> length (task_name (timer_at tid s)) < REG_NAME_DPM_MAX_LEN
       \<and> (\<not> chk_dpm_mode (mgr s) \<or> task_name (timer_at tid s) = [] \<or> chk_dpm_init_done (task_name (timer_at tid s)) (mgr s))"

text \<open>Callbacks that leave the timers, the mode and the marks of initialised tasks as they are.\<close>

definition same_timers :: "dpm_timers \<Rightarrow> dpm_timers \<Rightarrow> bool" where
  "same_timers s t \<longleftrightarrow> rtm_timers t = rtm_timers s \<and> dpm_rtc_timeout_tid t = dpm_rtc_timeout_tid s
     \<and> chk_dpm_mode (mgr t) = chk_dpm_mode (mgr s) \<and> (\<forall>n. chk_dpm_init_done n (mgr t) = chk_dpm_init_done n (mgr s))"

definition quiet :: "(nat \<Rightarrow> string \<Rightarrow> dpm_timers \<Rightarrow> dpm_timers) \<Rightarrow> bool" where
  "quiet cb \<longleftrightarrow> (\<forall>f n s. same_timers s (cb f n s))"

definition timer_after :: "nat \<Rightarrow> dpm_timers \<Rightarrow> dpm_timers" where
  "timer_after tid s = timer_done tid (set_rtc_chk True s)"

lemma set_rtc_chk_fields [simp]:
  "rtm_timers (set_rtc_chk b s) = rtm_timers s" "timer_at i (set_rtc_chk b s) = timer_at i s"
  "dpm_rtc_timeout_tid (set_rtc_chk b s) = dpm_rtc_timeout_tid s"
  "chk_dpm_mode (mgr (set_rtc_chk b s)) = chk_dpm_mode (mgr s)" "chk_dpm_init_done n (mgr (set_rtc_chk b s)) = chk_dpm_init_done n (mgr s)"
  by (simp_all add: set_rtc_chk_def timer_at_def chk_dpm_mode_def chk_dpm_init_done_def slot_def split: option.split)

lemma timer_after_fields:
  "length (rtm_timers (timer_after tid s)) = length (rtm_timers s)" "dpm_rtc_timeout_tid (timer_after tid s) = dpm_rtc_timeout_tid s"
  "chk_dpm_mode (mgr (timer_after tid s)) = chk_dpm_mode (mgr s)" "chk_dpm_init_done n (mgr (timer_after tid s)) = chk_dpm_init_done n (mgr s)"
  by (simp_all add: timer_after_def timer_done_def)

lemma timer_at_after:
  assumes "length (rtm_timers s) = TIMER_ERR" "tid < TIMER_ERR"
  shows "timer_at i (timer_after tid s) = (if i = tid \<and> msec (timer_at i s) = 0 then no_timer else timer_at i s)"
  using assms timer_at_put[of "set_rtc_chk True s" tid i no_timer] by (auto simp: timer_after_def timer_done_def)

lemma ready_after:
  assumes "length (rtm_timers s) = TIMER_ERR" "tid < TIMER_ERR" "i \<noteq> tid"
  shows "timer_ready i (timer_after tid s) = timer_ready i s" "timer_events i (timer_after tid s) = timer_events i s"
  using timer_at_after[OF assms(1,2), of i] assms(3) by (simp_all add: timer_ready_def timer_events_def timer_after_fields split: option.split)

lemma same_timers_at: "same_timers s t \<Longrightarrow> timer_at i t = timer_at i s"
  by (simp add: same_timers_def timer_at_def)

lemma same_timers_cong:
  assumes "same_timers s t"
  shows "timer_ready i t = timer_ready i s" "timer_events i t = timer_events i s"
  using assms same_timers_at[OF assms, of i] by (simp_all add: timer_ready_def timer_events_def same_timers_def split: option.split)

lemma same_timers_after: "same_timers s t \<Longrightarrow> same_timers (timer_after tid s) (timer_after tid t)"
  using same_timers_at[of s t tid] by (simp add: same_timers_def timer_after_fields) (simp add: timer_after_def timer_done_def put_timer_def)

lemma same_timers_fold: "same_timers s t \<Longrightarrow> same_timers (fold timer_after q s) (fold timer_after q t)"
  by (induction q arbitrary: s t) (auto intro: same_timers_after)

lemma same_timers_trans: "same_timers s t \<Longrightarrow> same_timers t u \<Longrightarrow> same_timers s u"
  by (simp add: same_timers_def)

lemma confirm_ready:
  "chk_dpm_init_done n (mgr s) \<or> \<not> chk_dpm_mode (mgr s) \<or> n = [] \<Longrightarrow> confirm_dpm_init_done others n s = (True, s)"
  using confirm_loop.simps[of others n 0 s] by (auto simp: confirm_dpm_init_done_def)

lemma process_ready:
  assumes "tid < TIMER_ERR" "timer_ready tid s" "quiet cb"
  shows "\<exists>s'. dpm_timer_process cb others tid p s = Some (p, s', timer_events tid s) \<and> same_timers (timer_after tid s) s'"
proof (cases "timeout_callback (timer_at tid s)")
  case None
  then have "dpm_timer_process cb others tid p s = Some (p, timer_after tid s, timer_events tid s)"
    using assms(1) by (simp add: dpm_timer_process_def Let_def timer_events_def timer_after_def)
  then show ?thesis by (simp add: same_timers_def)
next
  case (Some f)
  define s0 where "s0 = set_rtc_chk True s"
  define s1 where "s1 = cb f (timer_name (timer_at tid s)) s0"
  have l: "length (task_name (timer_at tid s)) < REG_NAME_DPM_MAX_LEN"
    and c: "confirm_dpm_init_done others (task_name (timer_at tid s)) s0 = (True, s0)"
    using assms(2) Some by (auto simp: timer_ready_def s0_def intro: confirm_ready)
  have q: "same_timers s0 s1" using assms(3) by (simp add: quiet_def s1_def)
  have "same_timers (timer_done tid s0) (timer_done tid s1)"
    using q same_timers_at[OF q, of tid] by (simp add: same_timers_def timer_done_def) (simp add: put_timer_def)
  moreover have "dpm_timer_process cb others tid p s = Some (p, timer_done tid s1, timer_events tid s)"
    using assms(1) Some l c unfolding dpm_timer_process_def Let_def s0_def[symmetric]
    by (simp add: s0_def[symmetric] task_string_def call_timer_def timer_events_def s1_def)
      (simp add: s0_def call_timer_def)
  ultimately show ?thesis by (auto simp: timer_after_def s0_def[symmetric])
qed

lemma rcv_queue_ready:
  assumes "distinct q" "set q \<subseteq> {..<TIMER_ERR}" "\<forall>t \<in> set q. timer_ready t s \<and> dpm_timer_abnormal_flag p ! t = 0"
    "quiet cb" "length (rtm_timers s) = TIMER_ERR"
  shows "\<exists>s'. rcv_queue cb others q p s = Some (p\<lparr>dpm_timer_queue := []\<rparr>, s', concat (map (\<lambda>t. timer_events t s) q))
    \<and> same_timers (fold timer_after q s) s'"
  using assms
proof (induction q arbitrary: s)
  case Nil
  then show ?case by (simp add: same_timers_def)
next
  case (Cons tid q)
  then have t: "tid < TIMER_ERR" "timer_ready tid s" "dpm_timer_abnormal_flag p ! tid = 0" by simp_all
  obtain s1 where s1: "dpm_timer_process cb others tid p s = Some (p, s1, timer_events tid s)" "same_timers (timer_after tid s) s1"
    using process_ready[OF t(1,2) Cons.prems(4)] by blast
  have rest: "timer_ready i s1" "timer_events i s1 = timer_events i s" if "i \<in> set q" for i
    using ready_after[OF Cons.prems(5) t(1), of i] same_timers_cong[OF s1(2), of i] that Cons.prems(1,3) by auto
  have len: "length (rtm_timers s1) = TIMER_ERR" using s1(2) Cons.prems(5) by (simp add: same_timers_def timer_after_fields)
  obtain s' where s': "rcv_queue cb others q p s1 = Some (p\<lparr>dpm_timer_queue := []\<rparr>, s', concat (map (\<lambda>t. timer_events t s1) q))"
    "same_timers (fold timer_after q s1) s'"
    using Cons.IH[of s1] Cons.prems len rest(1) by auto
  have e: "map (\<lambda>t. timer_events t s1) q = map (\<lambda>t. timer_events t s) q" using rest(2) by simp
  have "same_timers (fold timer_after q (timer_after tid s)) s'" by (rule same_timers_trans[OF same_timers_fold[OF s1(2)] s'(2)])
  then show ?case using s1(1) s'(1)[unfolded e] t(3) by simp
qed

lemma timer_at_fold_after:
  assumes "length (rtm_timers s) = TIMER_ERR" "set q \<subseteq> {..<TIMER_ERR}"
  shows "timer_at i (fold timer_after q s) = (if i \<in> set q \<and> msec (timer_at i s) = 0 then no_timer else timer_at i s)"
  using assms
proof (induction q arbitrary: s)
  case (Cons tid q)
  then have len: "length (rtm_timers (timer_after tid s)) = TIMER_ERR" and t: "tid < TIMER_ERR" by (simp_all add: timer_after_fields)
  show ?case using Cons.IH[OF len] Cons.prems(2) timer_at_after[OF Cons.prems(1) t, of i] by (auto simp: no_timer_def)
qed simp

lemma fold_after_fields: "dpm_rtc_timeout_tid (fold timer_after q s) = dpm_rtc_timeout_tid s"
  by (induction q arbitrary: s) (simp_all add: timer_after_fields)

text \<open>The loop that fills the queue; all sixteen timers fit into it.\<close>

lemma send_all:
  assumes "length (dpm_timer_queue p) + length ts \<le> 32" "\<forall>t \<in> set ts. t < 32"
  shows "\<exists>v. fold (send_tid w) ts (p, s) = (p\<lparr>dpm_timer_queue := dpm_timer_queue p @ filter (bit w) ts\<rparr>, s\<lparr>dpm_rtc_timeout_tid := v\<rparr>)
    \<and> (\<forall>j < 32. bit v j \<longleftrightarrow> bit (dpm_rtc_timeout_tid s) j \<and> \<not> (j \<in> set ts \<and> bit w j))"
  using assms
proof (induction ts arbitrary: p s)
  case Nil
  then show ?case by (auto intro!: exI[of _ "dpm_rtc_timeout_tid s"])
next
  case (Cons t ts)
  show ?case
  proof (cases "bit w t")
    case True
    define p1 where "p1 = p\<lparr>dpm_timer_queue := dpm_timer_queue p @ [t]\<rparr>"
    have st: "send_tid w t (p, s) = (p1, clr_rtc_timeout_tid t s)"
      using True Cons.prems by (simp add: send_tid_def p1_def and_bit32_eq_0)
    obtain v where v: "fold (send_tid w) ts (p1, clr_rtc_timeout_tid t s) =
        (p1\<lparr>dpm_timer_queue := dpm_timer_queue p1 @ filter (bit w) ts\<rparr>, (clr_rtc_timeout_tid t s)\<lparr>dpm_rtc_timeout_tid := v\<rparr>)"
      "\<forall>j < 32. bit v j \<longleftrightarrow> bit (dpm_rtc_timeout_tid (clr_rtc_timeout_tid t s)) j \<and> \<not> (j \<in> set ts \<and> bit w j)"
      using Cons.IH[of p1 "clr_rtc_timeout_tid t s"] Cons.prems by (auto simp: p1_def)
    then show ?thesis using True st by (intro exI[of _ v]) (auto simp: p1_def clr_rtc_timeout_tid_def bit_clear_bit32)
  next
    case False
    have st: "send_tid w t (p, s) = (p, s)" using False by (simp add: send_tid_def and_bit32_eq_0)
    obtain v where v: "fold (send_tid w) ts (p, s) = (p\<lparr>dpm_timer_queue := dpm_timer_queue p @ filter (bit w) ts\<rparr>, s\<lparr>dpm_rtc_timeout_tid := v\<rparr>)"
      "\<forall>j < 32. bit v j \<longleftrightarrow> bit (dpm_rtc_timeout_tid s) j \<and> \<not> (j \<in> set ts \<and> bit w j)"
      using Cons.IH[of p s] Cons.prems by auto
    then show ?thesis using False st by (intro exI[of _ v]) auto
  qed
qed

section \<open>Properties\<close>

text \<open>C16.
  The table of named timers is a finite map from pairs of a task and a name to timer numbers, in every state that calls of the timer
  functions, expiries and rounds of the timer task can reach: a name that is not in it is added under the number the driver gives and found there,
  and the name that had the number before is gone; a name that is in it is refused without any change,
  deleting it removes it and nothing else, and changing its period keeps the map.
\<close>

theorem named_timers_refine:
  assumes "timers_ok (timers_boot front m)" "timer_run (task_boot, timers_boot front m) ls (p, s)"
    and "chk_dpm_mode (mgr s)" "proper (task, name)" "unat ms \<le> TIMER_MAX_MSEC" "0 < r" "r < int TIMER_ERR"
  shows "(case timer_map s (task, name) of
      None \<Rightarrow> \<exists>s' ev. dpm_user_timer_create r task name f ms ms2 s = Some (r, s', ev)
        \<and> (\<forall>n. timer_map s' n = (if n = (task, name) then Some (nat r) else if timer_map s n = Some (nat r) then None else timer_map s n))
        \<and> dpm_timer_find_timer_id task name s' = r
    | Some i \<Rightarrow> dpm_user_timer_create r task name f ms ms2 s = Some (-3, s, [])
        \<and> (\<exists>s' ev. dpm_user_timer_delete True (int i) task name s = (int i, s', ev)
             \<and> timer_map s' = (timer_map s)((task, name) := None) \<and> dpm_timer_find_timer_id task name s' = -99)
        \<and> (\<exists>s' ev. dpm_user_timer_change (int i) task name ms s = (int i, s', ev)
             \<and> timer_map s' = timer_map s \<and> timer_at i s' = (timer_at i s)\<lparr>msec := ms\<rparr>))"
proof -
  have ok: "timers_ok s" using timer_run_ok[OF assms(2)] assms(1) by simp
  note ex = chk_mode_exist[OF assms(3)]
  show ?thesis
  proof (cases "timer_map s (task, name)")
    case None
    have nr: "\<not> (r = 0 \<or> r \<ge> int TIMER_ERR)" using assms(6,7) by simp
    from create_spec[OF ok assms(3,5,4), of r f ms2] None nr assms(6) obtain s' where s':
      "dpm_user_timer_create r task name f ms ms2 s = Some (r, s', [Set_app_keepalivetime 0 ms True])" "mgr s' = mgr s"
      "\<forall>n. timer_map s' n = (if n = (task, name) then Some (nat r) else if timer_map s n = Some (nat r) then None else timer_map s n)" by auto
    then have "dpm_timer_find_timer_id task name s' = r" using find_timer_map[of s'] ex assms(4,6) by simp
    with s' None show ?thesis by auto
  next
    case (Some i)
    from create_spec[OF ok assms(3,5,4), of r f ms2] Some assms(6)
    have c: "dpm_user_timer_create r task name f ms ms2 s = Some (-3, s, [])" by auto
    obtain s' where s': "dpm_user_timer_delete True (int i) task name s = (int i, s', [Set_app_keepalivetime (int i) 0 False])" "mgr s' = mgr s"
      "timer_map s' = (timer_map s)((task, name) := None)" using delete_spec[OF ok assms(3) Some] by blast
    then have "dpm_timer_find_timer_id task name s' = -99" using find_timer_map[of s'] ex assms(4) by simp
    with s' c Some change_spec[OF ok assms(3,5) Some, of "int i"] show ?thesis by auto
  qed
qed

text \<open>The first timer of an application, on a chip that has just started.\<close>

definition dpm_on :: dpm where
  "dpm_on = dpm_boot 1"

theorem named_timers_refine_witness:
  "\<exists>s' ev. dpm_user_timer_create 5 ''APP'' ''tick'' (Some 1) 1000 1000 (timers_boot [no_timer, no_timer] dpm_on) = Some (5, s', ev)
     \<and> dpm_timer_find_timer_id ''APP'' ''tick'' s' = 5"
proof -
  define s where "s = timers_boot [no_timer, no_timer] dpm_on"
  have m: "chk_dpm_mode (mgr s)" by (simp add: s_def timers_boot_def dpm_on_def dpm_boot_def chk_dpm_mode_def)
  have n: "proper (''APP'', ''tick'')" by (simp add: proper_def REG_NAME_DPM_MAX_LEN_def DPM_TIMER_NAME_MAX_LEN_def)
  have "full_name i s \<noteq> (''APP'', ''tick'')" if "i < TIMER_ERR" for i
    using that by (auto simp: s_def full_name_def timer_at_def timers_boot_def TIMER_ERR_def no_timer_def nth_Cons split: nat.splits)
  then have "timer_map s (''APP'', ''tick'') = None" by (simp add: timer_map_None)
  then show ?thesis
    using named_timers_refine[OF timers_boot_ok tm_nil m[unfolded s_def] n, of 1000 5 "Some 1" 1000]
    by (auto simp: s_def[symmetric] TIMER_MAX_MSEC_def TIMER_ERR_def)
qed

text \<open>C17.
  One round of the timer task deals with all timers that have expired, in the order of their numbers: each is set again if it has a period, its callback is
  called once with its name, an entry without a period is removed, all other entries stay, and the marks of
  the expired timers are cleared. This holds when at least one timer has expired, no power-down is under way, nothing is left in the queue of the task, the tasks of the
  expired timers have said that they are initialised, no earlier attempt for one of them has failed, and the callbacks, whatever else they do, leave the named timers,
  their marks, the mode and what the tasks have said alone; \<open>timer_created_in_callback_is_erased\<close> shows what can happen to a timer that a callback creates.
\<close>

theorem expired_timers_called:
  assumes "dpm_pdown_state (mgr s) = WAIT_DPM_SLEEP" "dpm_rtc_timeout_tid s \<noteq> 0" "length (rtm_timers s) = TIMER_ERR"
    and "dpm_timer_queue p = []" "quiet cb"
  defines "expired \<equiv> filter (bit (dpm_rtc_timeout_tid s)) [0..<16]"
  assumes "\<forall>t \<in> set expired. timer_ready t s \<and> dpm_timer_abnormal_flag p ! t = 0"
  shows "\<exists>s'. timer_round cb others p s = Some (Returns (p, s', concat (map (\<lambda>t. timer_events t s) expired)))
    \<and> (\<forall>i < 16. timer_at i s' = (if i \<in> set expired \<and> msec (timer_at i s) = 0 then no_timer else timer_at i s))
    \<and> (\<forall>i < 16. \<not> bit (dpm_rtc_timeout_tid s') i)"
proof -
  have nb: "clr_dpm_sleep REG_NAME_DPM_TIMER_PROC (mgr s) \<noteq> Blocked"
    using assms(1) by (simp add: clr_dpm_sleep_def split: option.split)
  then obtain k m where m: "clr_dpm_sleep REG_NAME_DPM_TIMER_PROC (mgr s) = Returns (k, m)"
    by (metis call.exhaust surj_pair)
  have keep: "sleep_list m = sleep_list (mgr s)" "chk_dpm_mode m = chk_dpm_mode (mgr s)"
    using m by (auto simp: clr_dpm_sleep_def chk_dpm_mode_def split: if_splits option.splits)
  define s1 where "s1 = s\<lparr>mgr := m\<rparr>"
  obtain v where v: "fold (send_tid (dpm_rtc_timeout_tid s)) [0..<16] (p, s1) =
      (p\<lparr>dpm_timer_queue := expired\<rparr>, s1\<lparr>dpm_rtc_timeout_tid := v\<rparr>)"
    "\<forall>j < 32. bit v j \<longleftrightarrow> bit (dpm_rtc_timeout_tid s1) j \<and> \<not> (j \<in> set [0..<16] \<and> bit (dpm_rtc_timeout_tid s) j)"
    using send_all[of p "[0..<16]" "dpm_rtc_timeout_tid s" s1] assms(4) by (auto simp: expired_def)
  define s2 where "s2 = s1\<lparr>dpm_rtc_timeout_tid := v\<rparr>"
  define p2 where "p2 = p\<lparr>dpm_timer_queue := expired\<rparr>"
  have at: "timer_at i s2 = timer_at i s" for i by (simp add: timer_at_def s2_def s1_def)
  have "chk_dpm_init_done n (mgr s2) = chk_dpm_init_done n (mgr s)" for n
    using keep(1) by (simp add: s2_def s1_def chk_dpm_init_done_def slot_def split: option.split)
  then have same: "timer_ready i s2 = timer_ready i s" "timer_events i s2 = timer_events i s" for i
    using keep(2) by (simp_all add: timer_ready_def timer_events_def at split: option.split) (simp_all add: s2_def s1_def)
  have sub: "set expired \<subseteq> {..<TIMER_ERR}" by (auto simp: expired_def TIMER_ERR_def)
  have dist: "distinct expired" by (simp add: expired_def)
  have rdy: "\<forall>t \<in> set expired. timer_ready t s2 \<and> dpm_timer_abnormal_flag p2 ! t = 0" using assms(7) by (simp add: same p2_def)
  have len: "length (rtm_timers s2) = TIMER_ERR" using assms(3) by (simp add: s2_def s1_def)
  obtain s' where q: "rcv_queue cb others expired p2 s2 = Some (p2\<lparr>dpm_timer_queue := []\<rparr>, s', concat (map (\<lambda>t. timer_events t s2) expired))"
    and s': "same_timers (fold timer_after expired s2) s'"
    using rcv_queue_ready[OF dist sub rdy assms(5) len] by blast
  have p2: "p2\<lparr>dpm_timer_queue := []\<rparr> = p" "dpm_timer_queue p2 = expired" using assms(4) by (simp_all add: p2_def)
  have "timer_round cb others p s = Some (Returns (p, s', concat (map (\<lambda>t. timer_events t s) expired)))"
    using assms(1,2) m q p2 v(1) by (simp add: timer_round_def Let_def s1_def[symmetric] p2_def[symmetric] s2_def[symmetric] same)
  moreover have "timer_at i s' = (if i \<in> set expired \<and> msec (timer_at i s) = 0 then no_timer else timer_at i s)" for i
    unfolding same_timers_at[OF s'] using timer_at_fold_after[of s2 expired i] assms(3) sub by (simp add: s2_def s1_def timer_at_def)
  moreover have "\<not> bit (dpm_rtc_timeout_tid s') i" if "i < 16" for i
    using v(2) that s' unfolding same_timers_def fold_after_fields by (simp add: s2_def s1_def)
  ultimately show ?thesis by blast
qed

text \<open>Two timers that have expired, one with a period, of tasks that are initialised.\<close>

definition two_expired :: dpm_timers where
  "two_expired = \<lparr>mgr = dpm_on\<lparr>sleep_list := (sleep_list dpm_on)[0 := empty_entry\<lparr>mod_name := ''APP'', init_done := 1\<rparr>]\<rparr>,
     rtm_timers = (replicate 16 no_timer)
       [5 := \<lparr>timeout_callback = Some 1, msec = 1000, task_name = ''APP'', timer_name = ''tick''\<rparr>,
        7 := \<lparr>timeout_callback = Some 2, msec = 0, task_name = '''', timer_name = ''once''\<rparr>],
     dpm_rtc_timeout_tid = 0xA0\<rparr>"

theorem expired_timers_called_witness:
  "\<exists>s'. timer_round (\<lambda>_ _ s. s) (\<lambda>_ s. s) task_boot two_expired
     = Some (Returns (task_boot, s', [Set_app_keepalivetime 5 1000 True, Timeout_callback 1 ''tick'', Timeout_callback 2 ''once'']))
     \<and> timer_at 7 s' = no_timer \<and> \<not> bit (dpm_rtc_timeout_tid s') 5"
proof -
  have e: "filter (bit (dpm_rtc_timeout_tid two_expired)) [0..<16] = [5, 7]" by code_simp
  have q: "quiet (\<lambda>_ _ s. s)" by (simp add: quiet_def same_timers_def)
  have c: "dpm_pdown_state (mgr two_expired) = WAIT_DPM_SLEEP" "dpm_rtc_timeout_tid two_expired \<noteq> 0" "length (rtm_timers two_expired) = TIMER_ERR"
    "dpm_timer_queue task_boot = []" by code_simp+
  have r: "timer_ready 5 two_expired \<and> dpm_timer_abnormal_flag task_boot ! 5 = 0" "timer_ready 7 two_expired \<and> dpm_timer_abnormal_flag task_boot ! 7 = 0"
    by code_simp+
  have ev: "timer_events 5 two_expired = [Set_app_keepalivetime 5 1000 True, Timeout_callback 1 ''tick'']"
    "timer_events 7 two_expired = [Timeout_callback 2 ''once'']" "msec (timer_at 7 two_expired) = 0" by code_simp+
  have "\<forall>t \<in> set (filter (bit (dpm_rtc_timeout_tid two_expired)) [0..<16]). timer_ready t two_expired \<and> dpm_timer_abnormal_flag task_boot ! t = 0"
    unfolding e using r by simp
  from expired_timers_called[OF c q this, of "\<lambda>_ s. s"] show ?thesis unfolding e by (auto simp: ev)
qed

section \<open>What the code does beside its intent\<close>

text \<open>
  A timer without a period whose task is not ready is marked to be tried again, but its entry is removed at the same time, so that the next
  attempt finds no callback.
\<close>

lemma one_shot_of_unready_task_is_lost:
  assumes "tid < TIMER_ERR" "length (rtm_timers s) = TIMER_ERR" "msec (timer_at tid s) = 0"
    and "confirm_dpm_init_done others task (set_rtc_chk True s) = (False, set_rtc_chk True s)"
    and "timeout_callback (timer_at tid s) \<noteq> None" "task_name (timer_at tid s) = task" "task \<noteq> []" "length task < REG_NAME_DPM_MAX_LEN"
    and "unat (dpm_timer_abnormal_flag p ! tid + 1) \<le> RTC_ABNORMAL_MAX_CNT"
  shows "\<exists>p' s'. dpm_timer_process cb others tid p s = Some (p', s', []) \<and> timer_at tid s' = no_timer
    \<and> bit (dpm_rtc_timeout_tid s') tid"
proof -
  define s0 where "s0 = set_rtc_chk True s"
  define s2 where "s2 = rtc_timeout_cb tid s0"
  have at: "timer_at tid s2 = timer_at tid s" by (simp add: s2_def s0_def rtc_timeout_cb_def timer_at_def)
  have len: "length (rtm_timers s2) = TIMER_ERR" using assms(2) by (simp add: s2_def s0_def rtc_timeout_cb_def)
  obtain p' where n: "timer_not_ready tid p s0 = (p', s2)" using assms(9) by (simp add: timer_not_ready_def Let_def s2_def)
  have "dpm_timer_process cb others tid p s = Some (p', timer_done tid s2, [])"
    using assms(1,3-8) n unfolding s0_def by (auto simp: dpm_timer_process_def Let_def task_string_def)
  moreover have "timer_at tid (timer_done tid s2) = no_timer" using at assms(1,3) len by (simp add: timer_done_def timer_at_put)
  moreover have "bit (dpm_rtc_timeout_tid (timer_done tid s2)) tid"
    using assms(1) by (simp add: timer_done_def s2_def rtc_timeout_cb_def bit_or_iff bit_bit32 TIMER_ERR_def)
  ultimately show ?thesis by blast
qed

text \<open>
  The count of failed attempts is not reset when the callback is called after all. From then on each expiry of this timer empties the
  queue, and timers that expired with it, whose marks are already cleared, are lost: here timer 7 is not called
  and not marked any more.
\<close>

lemma stale_count_drops_others:
  "(case timer_round (\<lambda>_ _ s. s) (\<lambda>_ s. s) (task_boot\<lparr>dpm_timer_abnormal_flag := (replicate 16 0)[5 := 1]\<rparr>) two_expired of
      Some (Returns (p, s, ev)) \<Rightarrow> ev = [Set_app_keepalivetime 5 1000 True, Timeout_callback 1 ''tick'']
        \<and> dpm_timer_queue p = [] \<and> dpm_rtc_timeout_tid s = 0 \<and> dpm_timer_abnormal_flag p ! 5 = 1
    | _ \<Rightarrow> False)"
  by code_simp

text \<open>
  A timer that a callback creates and that gets the number of the timer being processed is erased when the callback returns, if
  neither has a period.
\<close>

lemma timer_created_in_callback_is_erased:
  assumes "tid < TIMER_ERR" "length (rtm_timers s) = TIMER_ERR" "timeout_callback (timer_at tid s) = Some f" "task_name (timer_at tid s) = []"
    and "cb f (timer_name (timer_at tid s)) (set_rtc_chk True s) = put_timer tid x (set_rtc_chk True s)" "msec x = 0"
  shows "\<exists>s' ev. dpm_timer_process cb others tid p s = Some (p, s', ev) \<and> timer_at tid s' = no_timer"
  using assms timer_at_put[of "set_rtc_chk True s" tid tid x] timer_at_put[of "put_timer tid x (set_rtc_chk True s)" tid tid no_timer]
  by (auto simp: dpm_timer_process_def Let_def call_timer_def timer_done_def)

text \<open>A task's name of 20 characters is accepted, and then runs on into the timer's name where the code looks the task up.\<close>

lemma long_task_name:
  "length task = REG_NAME_DPM_MAX_LEN \<Longrightarrow> length name < DPM_TIMER_NAME_MAX_LEN \<Longrightarrow>
     task_string \<lparr>timeout_callback = f, msec = k, task_name = task, timer_name = name\<rparr> = Some (task @ name)"
  by (simp add: task_string_def)

text \<open>An unknown name is reported by -99, while deleting tests for -2; the result is the same.\<close>

lemma delete_unknown: "dpm_timer_find_timer_id task name s \<noteq> -2"
  by (auto simp: dpm_timer_find_timer_id_def split: option.split)

text \<open>The task does not try to register again.\<close>

lemma timer_task_gives_up: "chk_dpm_mode s \<Longrightarrow> timer_task_start False gave s = Some (Returns (False, s))"
  by (simp add: timer_task_start_def reg_dpm_sleep_def)

end
