(* ===== verification/Dpm_Remain.thy ===== *)
theory Dpm_Remain
  imports Dpm_Timer_Claims Timer_Ops
begin

text \<open>
  The time a timer has left, as the sleep manager (\<^verbatim>\<open>src/core/system/src/dpm/da16x_dpm.c\<close>) reads it from the list of the retention
  timers, and what the numbers mean against their agenda.
\<close>

section \<open>Reading the list\<close>

text \<open>The loop; index 16 is read as the memory behind the table before the loop ends there.\<close>

definition whole_units :: "nat \<Rightarrow> u32" where
  "whole_units t = of_nat (t div 1000000)"

function info_loop :: "nat \<Rightarrow> nat \<Rightarrow> nat \<Rightarrow> u32 \<Rightarrow> timers \<Rightarrow> u32" where
  "info_loop tid i cur before_msec g =
     (if i < TIMER_ERR
      then (let next_tid = nxt (gtimer g cur); next_msec = whole_units (time (gtimer g next_tid)) + before_msec in
            if next_tid = tid then next_msec
            else if next_tid \<ge> TIMER_ERR then 0
            else info_loop tid (i + 1) next_tid next_msec g)
      else 0)"
  by auto
termination by (relation "measure (\<lambda>(_, i, _). TIMER_ERR - i)") auto

declare info_loop.simps [simp del]

definition rtc_timer_info :: "nat \<Rightarrow> dpm \<Rightarrow> timers \<Rightarrow> int" where
  "rtc_timer_info tid m g =
     (if \<not> chk_dpm_mode m then -1
      else if gCurIdx g \<noteq> TIMER_ERR
      then (let first_msec = whole_units (time (gtimer g (gCurIdx g))) in
            sint (if gCurIdx g = tid then first_msec else info_loop tid 0 (gCurIdx g) first_msec g))
      else 0)"

definition dpm_user_timer_get_remaining_msec :: "string \<Rightarrow> string \<Rightarrow> dpm_timers \<Rightarrow> timers \<Rightarrow> int" where
  "dpm_user_timer_get_remaining_msec task name s g =
     (let timer_id = dpm_timer_find_timer_id task name s in
      if timer_id \<ge> 0 \<and> timer_id < int TIMER_ERR then rtc_timer_info (nat timer_id) (mgr s) g else -1)"

section \<open>Against the agenda\<close>

text \<open>The sum of the whole units along the list.\<close>

fun units_to :: "nat \<Rightarrow> (nat \<Rightarrow> DA16X_TIMER) \<Rightarrow> nat list \<Rightarrow> nat" where
  "units_to tid g [] = 0"
| "units_to tid g (j # L) = time (g j) div 1000000 + (if j = tid then 0 else units_to tid g L)"

lemma units_bounds:
  "(tid, t) \<in> set (agenda g acc L) \<Longrightarrow> distinct L \<Longrightarrow>
     acc + units_to tid g L * 1000000 \<le> t \<and> t < acc + (units_to tid g L + length L) * 1000000"
proof (induction L arbitrary: acc)
  case (Cons j L)
  define q where "q = time (g j) div 1000000"
  have j: "q * 1000000 \<le> time (g j)" "time (g j) < (q + 1) * 1000000"
    by (simp_all add: q_def)
  have mem: "x \<in> set L" if "(x, u) \<in> set (agenda g a L)" for x u a
    using that map_fst_agenda[of g a L] by (metis fst_conv image_eqI list.set_map)
  show ?case
  proof (cases "j = tid")
    case True
    then have "t = acc + time (g j)" using Cons.prems mem by auto
    then show ?thesis using j True by (auto simp: q_def[symmetric] algebra_simps)
  next
    case False
    then have "(tid, t) \<in> set (agenda g (acc + time (g j)) L)" using Cons.prems by auto
    from Cons.IH[OF this] Cons.prems(2) show ?thesis using j False by (auto simp: q_def[symmetric] algebra_simps)
  qed
qed simp

lemma info_loop_units:
  assumes "linked (gtimer g) (nxt (gtimer g cur)) L" "tid \<in> set L" "i + length L \<le> TIMER_ERR" "distinct L"
  shows "info_loop tid i cur b g = b + of_nat (units_to tid (gtimer g) L)"
  using assms
proof (induction L arbitrary: i cur b)
  case (Cons j L)
  have j: "nxt (gtimer g cur) = j" "j < TIMER_ERR" "linked (gtimer g) (nxt (gtimer g j)) L" "i < TIMER_ERR"
    using Cons.prems by (auto simp: usable_def)
  show ?case
  proof (cases "j = tid")
    case True
    then show ?thesis using j by (subst info_loop.simps) (simp add: whole_units_def Let_def)
  next
    case False
    then have "info_loop tid i cur b g = info_loop tid (i + 1) j (whole_units (time (gtimer g j)) + b) g"
      using j by (subst info_loop.simps) (simp add: Let_def)
    also have "\<dots> = whole_units (time (gtimer g j)) + b + of_nat (units_to tid (gtimer g) L)"
      using Cons.prems False by (intro Cons.IH[OF j(3)]) auto
    finally show ?thesis using False by (simp add: whole_units_def)
  qed
qed simp

lemma info_loop_absent:
  assumes "linked (gtimer g) (nxt (gtimer g cur)) L" "tid \<notin> set L" "tid < TIMER_ERR"
  shows "info_loop tid i cur b g = 0"
  using assms
proof (induction L arbitrary: i cur b)
  case Nil
  then show ?case by (subst info_loop.simps) (auto simp: Let_def)
next
  case (Cons j L)
  then show ?case by (subst info_loop.simps) (auto simp: Let_def)
qed

lemma timer_info_units:
  assumes "timers_wf g L" "chk_dpm_mode m" "tid < TIMER_ERR"
  shows "rtc_timer_info tid m g = sint (of_nat (if tid \<in> set L then units_to tid (gtimer g) L else 0) :: u32)"
proof (cases L)
  case Nil
  then show ?thesis using assms by (simp add: rtc_timer_info_def timers_wf_def)
next
  case (Cons h K)
  have h: "gCurIdx g = h" "h \<noteq> TIMER_ERR" "linked (gtimer g) (nxt (gtimer g h)) K" "distinct K" "h \<notin> set K"
    using assms(1) Cons by (auto simp: timers_wf_def usable_def)
  have "length L \<le> 14" using assms(1) linked_length unfolding timers_wf_def by blast
  then have len: "0 + length K \<le> TIMER_ERR" using Cons by (simp add: TIMER_ERR_def)
  consider "tid = h" | "tid \<noteq> h" "tid \<in> set K" | "tid \<noteq> h" "tid \<notin> set K" by blast
  then show ?thesis
  proof cases
    case 1
    then show ?thesis using h Cons assms(2) by (simp add: rtc_timer_info_def whole_units_def)
  next
    case 2
    from info_loop_units[OF h(3) 2(2) len h(4), of "whole_units (time (gtimer g h))"] show ?thesis
      using 2 h Cons assms(2) by (auto simp: rtc_timer_info_def Let_def whole_units_def)
  next
    case 3
    from info_loop_absent[OF h(3) 3(2) assms(3)] show ?thesis using 3 h Cons assms(2) by (auto simp: rtc_timer_info_def Let_def)
  qed
qed

section \<open>Properties\<close>

lemma sint_small: "k < 2 ^ 31 \<Longrightarrow> sint (of_nat k :: u32) = int k"
  by (simp add: sint_uint signed_take_bit_int_eq_self uint_nat unsigned_of_nat take_bit_nat_eq_self)

text \<open>C18.
  The remaining time of a named timer is read off the list of the retention timers: for a timer that is in the agenda, due in \<open>t\<close> microseconds, the result
  counts units of 1000000 microseconds, at most the true time and less than 14 units below it, since each link of the list is rounded down on its
  own; for a timer that is not running it is 0, and for an unknown name -1.
\<close>

theorem remaining_time_bounds:
  assumes "timers_wf g L" "timers_ok s" "chk_dpm_mode (mgr s)" "proper (task, name)"
  shows "case timer_map s (task, name) of
      None \<Rightarrow> dpm_user_timer_get_remaining_msec task name s g = -1
    | Some i \<Rightarrow> (\<forall>t. (i, t) \<in> set (agenda (gtimer g) 0 L) \<longrightarrow> t < 2 ^ 31 * 1000000 \<longrightarrow>
          dpm_user_timer_get_remaining_msec task name s g * 1000000 \<le> int t
          \<and> int t < (dpm_user_timer_get_remaining_msec task name s g + 14) * 1000000)
        \<and> (i \<notin> set L \<longrightarrow> dpm_user_timer_get_remaining_msec task name s g = 0)"
proof (cases "timer_map s (task, name)")
  case None
  then show ?thesis using find_timer_map[OF chk_mode_exist[OF assms(3)]] assms(4) by (simp add: dpm_user_timer_get_remaining_msec_def)
next
  case (Some i)
  have i: "i < TIMER_ERR" by (rule timer_map_id[OF assms(2) Some])
  have r: "dpm_user_timer_get_remaining_msec task name s g = rtc_timer_info i (mgr s) g"
    using find_timer_map[OF chk_mode_exist[OF assms(3)]] assms(4) Some i by (simp add: dpm_user_timer_get_remaining_msec_def Let_def)
  note u = timer_info_units[OF assms(1,3) i]
  have L: "distinct L" "length L \<le> 14" using assms(1) linked_length unfolding timers_wf_def by blast+
  have "rtc_timer_info i (mgr s) g * 1000000 \<le> int t \<and> int t < (rtc_timer_info i (mgr s) g + 14) * 1000000"
    if t: "(i, t) \<in> set (agenda (gtimer g) 0 L)" "t < 2 ^ 31 * 1000000" for t
  proof -
    define k where "k = units_to i (gtimer g) L"
    have b: "k * 1000000 \<le> t" "t < (k + length L) * 1000000" using units_bounds[OF t(1) L(1)] by (simp_all add: k_def)
    then have "k < 2 ^ 31" using t(2) by linarith
    moreover have "i \<in> set L" using t(1) map_fst_agenda[of "gtimer g" 0 L] by (metis fst_conv image_eqI list.set_map)
    ultimately have "rtc_timer_info i (mgr s) g = int k" using u sint_small[of k] by (simp add: k_def)
    moreover have "t < (k + 14) * 1000000" by (rule less_le_trans[OF b(2) mult_right_mono]) (use L(2) in simp_all)
    then have "int t < int ((k + 14) * 1000000)" by (simp only: of_nat_less_iff)
    moreover have "int (k * 1000000) \<le> int t" using b(1) by (simp only: of_nat_le_iff)
    ultimately have "rtc_timer_info i (mgr s) g * 1000000 \<le> int t" "int t < (rtc_timer_info i (mgr s) g + 14) * 1000000"
      by simp_all
    then show ?thesis ..
  qed
  moreover have "i \<notin> set L \<longrightarrow> rtc_timer_info i (mgr s) g = 0" using u by simp
  ultimately show ?thesis using Some by (simp add: r)
qed

text \<open>Timers 3 and 5, due in 2.7 and 4.5 seconds; the second is reported as 3.\<close>

definition two_running :: timers where
  "two_running =
     \<lparr>gtimer = (\<lambda>i. \<lparr>in_use = 0, nxt = TIMER_ERR, power_status = 0, cbfunc = 0, cbparam = 0, booting_offset = 0, time = 0\<rparr>)
        (3 := \<lparr>in_use = 1, nxt = 5, power_status = 0, cbfunc = 0, cbparam = 0, booting_offset = 0, time = 2700000\<rparr>,
         5 := \<lparr>in_use = 1, nxt = TIMER_ERR, power_status = 0, cbfunc = 0, cbparam = 0, booting_offset = 0, time = 1800000\<rparr>),
      time_slice = 200, BOOT_TIM = False, gCurIdx = 3, time_gap = 0, isr_block = False, isr_gap = 0,
      hTimer = True, rtc_exp_callback = Some 3, RTC_EXP_TH = 1655, rtcm_boot = 0, power_down = None, fired = []\<rparr>"

lemma two_expired_ok: "timers_ok two_expired"
proof -
  have at: "timer_at i two_expired = (if i = 5 then \<lparr>timeout_callback = Some 1, msec = 1000, task_name = ''APP'', timer_name = ''tick''\<rparr>
      else if i = 7 then \<lparr>timeout_callback = Some 2, msec = 0, task_name = '''', timer_name = ''once''\<rparr> else no_timer)" if "i < TIMER_ERR" for i
    using that unfolding timer_at_def two_expired_def TIMER_ERR_def by (simp add: nth_list_update)
  then have five: "i = 5" if "i < TIMER_ERR" "proper (full_name i two_expired)" for i
    using that by (auto simp: full_name_def proper_def no_timer_def split: if_splits)
  have "i = j" if "i < TIMER_ERR" "j < TIMER_ERR" "full_name i two_expired = full_name j two_expired" "proper (full_name i two_expired)" for i j
    using five[OF that(1)] five[OF that(2)] that(3,4) by simp
  moreover have "length (rtm_timers two_expired) = TIMER_ERR" by (simp add: two_expired_def TIMER_ERR_def)
  ultimately show ?thesis
    unfolding timers_ok_def using at by (auto simp: no_timer_def REG_NAME_DPM_MAX_LEN_def DPM_TIMER_NAME_MAX_LEN_def)
qed

theorem remaining_time_bounds_witness:
  "dpm_user_timer_get_remaining_msec ''APP'' ''tick'' two_expired two_running * 1000000 \<le> 4500000
     \<and> 4500000 < (dpm_user_timer_get_remaining_msec ''APP'' ''tick'' two_expired two_running + 14) * 1000000
     \<and> dpm_user_timer_get_remaining_msec ''APP'' ''tick'' two_expired two_running = 3"
proof -
  have wf: "timers_wf two_running [3, 5]" by (simp add: timers_wf_def two_running_def usable_def TIMER_ERR_def)
  have ag: "(5, 4500000) \<in> set (agenda (gtimer two_running) 0 [3, 5])" by (simp add: two_running_def)
  have n: "proper (''APP'', ''tick'')" by (simp add: proper_def REG_NAME_DPM_MAX_LEN_def DPM_TIMER_NAME_MAX_LEN_def)
  have m: "chk_dpm_mode (mgr two_expired)" "timer_map two_expired (''APP'', ''tick'') = Some 5" by code_simp+
  have id: "dpm_timer_find_timer_id ''APP'' ''tick'' two_expired = 5" by code_simp
  have "rtc_timer_info 5 (mgr two_expired) two_running = 3"
    using timer_info_units[OF wf m(1), of 5] by (simp add: two_running_def TIMER_ERR_def)
  then have v: "dpm_user_timer_get_remaining_msec ''APP'' ''tick'' two_expired two_running = 3"
    by (simp add: dpm_user_timer_get_remaining_msec_def id TIMER_ERR_def)
  from remaining_time_bounds[OF wf two_expired_ok m(1) n] m(2) ag show ?thesis unfolding v by simp
qed

text \<open>A timer that is running with less than one second left is reported like one that is not running.\<close>

lemma last_second_reads_as_stopped:
  assumes "timers_wf g (i # L)" "chk_dpm_mode m" "time (gtimer g i) < 1000000"
  shows "rtc_timer_info i m g = 0"
proof -
  have "i < TIMER_ERR" using assms(1) by (simp add: timers_wf_def usable_def)
  from timer_info_units[OF assms(1,2) this] assms(3) show ?thesis by simp
qed

end
