(* ===== verification/Sys_Time.thy ===== *)
theory Sys_Time
  imports Ret_Timer Util_Api
begin

text \<open>
  The system time, \<^verbatim>\<open>src/core/system/src/common/main/da16x_time.c\<close> as it is built with 64-bit times: the clock, which is the real-time counter plus an
  offset in retention memory, and the conversion between seconds and calendar dates. Times are 64-bit words; \<^verbatim>\<open>int\<close> and \<^verbatim>\<open>long\<close> are integers, reduced to
  32 bits where a value can leave that range. The counter has 36 bits and is an argument. The conversion of clocks to microseconds is the
  one of the retention timers.
\<close>

section \<open>The clock\<close>

record sys_clock =
  systime_offset :: u64
  rtc_oldtime :: u64
  clk_timezone :: int

definition RTC_OVERFLOW :: nat where "RTC_OVERFLOW = 0xFFFFFFFFF"

definition CLK2MS :: "nat \<Rightarrow> nat" where "CLK2MS clk = CLK2US clk div 1000"

text \<open>
  The common part of the two functions below. \<open>p\<close> is the time to set, in seconds; \<open>dpm\<close> the mode.
\<close>

definition adjust_offset :: "bool \<Rightarrow> nat \<Rightarrow> u64 option \<Rightarrow> sys_clock \<Rightarrow> sys_clock" where
  "adjust_offset dpm rtc p s =
     (let time_ms = of_nat (CLK2MS rtc);
          s1 = (case p of
                  Some t \<Rightarrow> s\<lparr>systime_offset := t * 1000 - time_ms\<rparr>
                | None \<Rightarrow>
                    if rtc_oldtime s \<noteq> 0 \<and> rtc_oldtime s > time_ms
                    then s\<lparr>systime_offset := of_nat (CLK2MS (RTC_OVERFLOW + 1)) + systime_offset s, rtc_oldtime := time_ms\<rparr>
                    else s)
      in if \<not> dpm then s1\<lparr>rtc_oldtime := time_ms\<rparr> else s1)"

definition da16x_time64_usec :: "bool \<Rightarrow> nat \<Rightarrow> u64 option \<Rightarrow> sys_clock \<Rightarrow> u64 \<times> sys_clock" where
  "da16x_time64_usec dpm rtc p s =
     (let s1 = adjust_offset dpm rtc p s in (of_nat (CLK2US rtc) + systime_offset s1 * 1000, s1))"

definition da16x_time64_msec :: "bool \<Rightarrow> nat \<Rightarrow> u64 option \<Rightarrow> sys_clock \<Rightarrow> u64 \<times> sys_clock" where
  "da16x_time64_msec dpm rtc p s =
     (let s1 = adjust_offset dpm rtc p s in (of_nat (CLK2MS rtc) + systime_offset s1, s1))"

text \<open>Division as in C, towards zero.\<close>

definition cdiv :: "int \<Rightarrow> int \<Rightarrow> int" where
  "cdiv a b = (if a \<ge> 0 then a div b else - ((- a) div b))"

definition cmod :: "int \<Rightarrow> int \<Rightarrow> int" where
  "cmod a b = a - cdiv a b * b"

definition da16x_time64_sec :: "bool \<Rightarrow> nat \<Rightarrow> u64 option \<Rightarrow> sys_clock \<Rightarrow> u64 \<times> sys_clock" where
  "da16x_time64_sec dpm rtc p s =
     (let (cur_msec, s1) = da16x_time64_msec dpm rtc p s
      in (if sint cur_msec < 0 then word_of_int (cdiv (sint cur_msec) 1000) else cur_msec div 1000, s1))"

definition da16x_time64 :: "bool \<Rightarrow> nat \<Rightarrow> u64 option \<Rightarrow> sys_clock \<Rightarrow> u64 \<times> sys_clock" where
  "da16x_time64 dpm rtc p s = da16x_time64_sec dpm rtc p s"

definition uptime :: "nat \<Rightarrow> u64" where
  "uptime rtc = of_nat (rtc div 2 ^ 15)"

text \<open>Without a time that was set the result is not written: \<open>None\<close>.\<close>

definition boottime :: "bool \<Rightarrow> nat \<Rightarrow> sys_clock \<Rightarrow> u64 option \<times> sys_clock" where
  "boottime dpm rtc s =
     (if systime_offset s = 0 then (None, s)
      else (let (t, s1) = da16x_time64 dpm rtc None s in (Some (t - uptime rtc), s1)))"

definition da16x_SetTzoff :: "int \<Rightarrow> sys_clock \<Rightarrow> sys_clock" where
  "da16x_SetTzoff off s = s\<lparr>clk_timezone := off\<rparr>"

definition da16x_Tzoff :: "sys_clock \<Rightarrow> int" where
  "da16x_Tzoff s = clk_timezone s"

section \<open>Dates\<close>

record tm_day = tm +
  tm_wday :: int
  tm_yday :: int
  tm_isdst :: int

definition lmos :: "int list" where "lmos = [0, 31, 60, 91, 121, 152, 182, 213, 244, 274, 305, 335]"
definition mos :: "int list" where "mos = [0, 31, 59, 90, 120, 151, 181, 212, 243, 273, 304, 334]"

definition MONTAB :: "int \<Rightarrow> int list" where
  "MONTAB year = (if year mod 4 \<noteq> 0 \<or> year = 0 then mos else lmos)"

definition TBIAS_DAYS :: int where "TBIAS_DAYS = 70 * 365 + 17"
definition TBIAS :: int where "TBIAS = TBIAS_DAYS * 86400"
definition WDAY :: int where "WDAY = 1"

definition isleap :: "int \<Rightarrow> bool" where
  "isleap y \<longleftrightarrow> cmod y 4 = 0 \<and> (cmod y 100 \<noteq> 0 \<or> cmod y 400 = 0)"

definition da16x_Daysto64 :: "int \<Rightarrow> nat \<Rightarrow> int" where
  "da16x_Daysto64 year mon =
     (let (y, ly) = (if year \<ge> 0 then (year - 1, year - 1 + 300) else (year, year - 100))
      in cdiv y 4 - cdiv y 100 + cdiv ly 400 + MONTAB year ! mon)"

text \<open>The search for the year from a first guess; it returns the year and the number of its first day.\<close>

partial_function (option) year_loop :: "int \<Rightarrow> int \<Rightarrow> (int \<times> int) option" where
  "year_loop days year =
     (let i = da16x_Daysto64 year 0 + 365 * year in
      if days < i then year_loop days (year - 1)
      else if days \<le> i + 365 then Some (year, i)
      else if days = i + 366 \<and> isleap (year + 1900) then Some (year, i)
      else year_loop days (year + 1))"

declare year_loop.simps [code]

text \<open>The search for the month from the end of the table; a negative day would read in front of the table.\<close>

fun month_loop :: "int list \<Rightarrow> int \<Rightarrow> nat \<Rightarrow> nat option" where
  "month_loop pm days 0 = None"
| "month_loop pm days (Suc mon) = (if days < pm ! mon then month_loop pm days mon else Some mon)"

definition da16x_Ttotm64 :: "u64 \<Rightarrow> int \<Rightarrow> tm_day option" where
  "da16x_Ttotm64 secsarg isdst =
     (let secs0 = sint (secsarg + word_of_int TBIAS);
          days0 = cdiv secs0 86400;
          secs1 = cmod secs0 86400;
          days = s32 (if secs1 < 0 then days0 - 1 else days0);
          secs = (if secs1 < 0 then secs1 + 86400 else secs1);
          wday0 = cmod (days + WDAY) 7;
          wday = (if wday0 < 0 then wday0 + 7 else wday0)
      in case year_loop days (cdiv days 365) of
           None \<Rightarrow> None
         | Some (year, i) \<Rightarrow>
             (let yday = days - i in
              case month_loop (MONTAB year) yday 12 of
                None \<Rightarrow> None
              | Some mon \<Rightarrow> Some
                  \<lparr>tm_sec = cmod (cmod secs 3600) 60, tm_min = cdiv (cmod secs 3600) 60, tm_hour = cdiv secs 3600,
                   tm_mday = yday - MONTAB year ! mon + 1, tm_mon = int mon, tm_year = year,
                   tm_wday = wday, tm_yday = yday, tm_isdst = isdst\<rparr>))"

text \<open>
  The date is normalised in place and returned with the time; the number of days is a 32-bit value. Only the test for the year
  returns early, with the time -1 and the date as it was.
\<close>

definition da16x_mktime64 :: "int \<Rightarrow> tm_day \<Rightarrow> (u64 \<times> tm_day) option" where
  "da16x_mktime64 tzoff t =
     (let ymon0 = cdiv (tm_mon t) 12;
          mon0 = tm_mon t - ymon0 * 12;
          mon = (if mon0 < 0 then mon0 + 12 else mon0);
          ymon = (if mon0 < 0 then ymon0 - 1 else ymon0)
      in if ymon < 0 \<and> tm_year t < - (2 ^ 31) - ymon \<or> 0 < ymon \<and> 2 ^ 31 - 1 - ymon < tm_year t then Some (-1, t)
         else (let year = tm_year t + ymon;
                   cdays = s32 (da16x_Daysto64 year (nat mon) - 1 + 365 * year + tm_mday t + cdiv (tm_hour t) 24
                     + cdiv (tm_min t) (24 * 60) + cdiv (tm_sec t) 86400 - TBIAS_DAYS);
                   csecs = 3600 * cmod (tm_hour t) 24 + 60 * cmod (tm_min t) (24 * 60) + cmod (tm_sec t) 86400;
                   secs = word_of_int (cdays * 86400 + csecs)
               in case da16x_Ttotm64 secs (tm_isdst t) of
                    None \<Rightarrow> None
                  | Some t' \<Rightarrow>
                      Some ((if 0 < tm_isdst t' then secs - 3600 else secs) - word_of_int tzoff, t')))"

definition da16x_gmtime64 :: "u64 \<Rightarrow> tm_day option" where
  "da16x_gmtime64 tod = da16x_Ttotm64 tod 0"

definition da16x_localtime64 :: "u64 \<Rightarrow> sys_clock \<Rightarrow> tm_day option" where
  "da16x_localtime64 tod s = da16x_Ttotm64 (tod + word_of_int (da16x_Tzoff s)) (-1)"

text \<open>Whether the time has been set: the clock is not before 1971.\<close>

definition tm_1971 :: tm_day where
  "tm_1971 = \<lparr>tm_sec = 0, tm_min = 0, tm_hour = 0, tm_mday = 1, tm_mon = 0, tm_year = 71, tm_wday = 0, tm_yday = 0, tm_isdst = -1\<rparr>"

definition chk_time_set_status :: "bool \<Rightarrow> nat \<Rightarrow> sys_clock \<Rightarrow> (bool \<times> sys_clock) option" where
  "chk_time_set_status dpm rtc s =
     (let (now, s1) = da16x_time64 dpm rtc None s in
      map_option (\<lambda>(diff, _). (\<not> now < diff, s1)) (da16x_mktime64 (da16x_Tzoff s1) tm_1971))"

end
