(* ===== verification/Time_Props.thy ===== *)
theory Time_Props
  imports Sys_Time
begin

text \<open>
  The properties of the system time: the clock counts on when the 36-bit counter wraps, the conversion to dates agrees with the
  Gregorian calendar up to February 2100, and the conversion back inverts it.
\<close>

section \<open>The clock over a wrap of the counter\<close>

definition RTC_WRAP :: nat where "RTC_WRAP = RTC_OVERFLOW + 1"

lemma RTC_WRAP_eq: "RTC_WRAP = 2 ^ 36" "0 < RTC_WRAP"
  by (simp_all add: RTC_WRAP_def RTC_OVERFLOW_def)

lemma CLK2MS_wrap: "CLK2MS (c + k * RTC_WRAP) = CLK2MS c + k * 2097152000"
proof -
  have "(c + k * RTC_WRAP) * 15625 = c * 15625 + (k * 2097152000000) * 512" by (simp add: RTC_WRAP_eq)
  then have "CLK2US (c + k * RTC_WRAP) = (c * 15625 + (k * 2097152000000) * 512) div 512" unfolding CLK2US_def by (rule arg_cong)
  also have "\<dots> = CLK2US c + (k * 2097152000) * 1000" by (simp add: CLK2US_def)
  finally have "CLK2US (c + k * RTC_WRAP) = CLK2US c + (k * 2097152000) * 1000" .
  then show ?thesis unfolding CLK2MS_def by simp
qed

lemma CLK2MS_mono: "c \<le> d \<Longrightarrow> CLK2MS c \<le> CLK2MS d"
  unfolding CLK2MS_def CLK2US_def by (intro div_le_mono mult_le_mono1)

lemma CLK2MS_less: "c + 33 \<le> d \<Longrightarrow> CLK2MS c < CLK2MS d"
proof -
  assume "c + 33 \<le> d"
  then have "c * 15625 + 1000 * 512 \<le> d * 15625" by simp
  then have "(c * 15625 + 1000 * 512) div 512 \<le> d * 15625 div 512" by (rule div_le_mono)
  then have "CLK2US c + 1000 \<le> CLK2US d" by (simp add: CLK2US_def)
  then have "(CLK2US c + 1000) div 1000 \<le> CLK2US d div 1000" by (rule div_le_mono)
  then show ?thesis by (simp add: CLK2MS_def)
qed

lemma CLK2MS_bound: "c < RTC_WRAP \<Longrightarrow> CLK2MS c < 2 ^ 31"
proof -
  assume "c < RTC_WRAP"
  then have "CLK2MS c \<le> CLK2MS (RTC_WRAP)" by (intro CLK2MS_mono) simp
  also have "\<dots> = 2097152000" using CLK2MS_wrap[of 0 1] by (simp add: CLK2MS_def CLK2US_def)
  finally show ?thesis by simp
qed

lemma CLK2MS_whole: "CLK2MS c = CLK2MS (c mod RTC_WRAP) + (c div RTC_WRAP) * 2097152000"
  using CLK2MS_wrap[of "c mod RTC_WRAP" "c div RTC_WRAP"] by simp

text \<open>
  The clock shows the milliseconds of an unbounded counter plus a constant, after a reading at the count \<open>c\<close>.
\<close>

definition clock_at :: "nat \<Rightarrow> u64 \<Rightarrow> sys_clock \<Rightarrow> bool" where
  "clock_at c k s \<longleftrightarrow> of_nat (CLK2MS (c mod RTC_WRAP)) + systime_offset s = of_nat (CLK2MS c) + k
     \<and> rtc_oldtime s = of_nat (CLK2MS (c mod RTC_WRAP))"

lemma less_word_small: "a < 2 ^ 31 \<Longrightarrow> b < 2 ^ 31 \<Longrightarrow> (of_nat a :: u64) < of_nat b \<longleftrightarrow> a < b"
  by (simp add: word_less_nat_alt unsigned_of_nat take_bit_nat_eq_self)

lemma small_word_eq_0: "a < 2 ^ 31 \<Longrightarrow> (of_nat a :: u64) = 0 \<longleftrightarrow> a = 0"
  by (simp add: word_unat_eq_iff unsigned_of_nat take_bit_nat_eq_self)

lemma shift_sum:
  fixes b x y k e z :: u64
  assumes "b + x = y + k" "e + y = b + z"
  shows "e + x = z + k"
proof -
  have "b + (e + x) = e + (b + x)" by (rule add.left_commute)
  also have "\<dots> = (e + y) + k" unfolding assms(1) by (rule add.assoc[symmetric])
  also have "\<dots> = b + (z + k)" unfolding assms(2) by (rule add.assoc)
  finally show ?thesis by simp
qed

lemma read_keeps:
  assumes sh: "clock_at c k s" and c: "c \<le> d" "d + 33 \<le> c + RTC_WRAP"
  shows "fst (da16x_time64_msec False (d mod RTC_WRAP) None s) = of_nat (CLK2MS d) + k"
    and "clock_at d k (snd (da16x_time64_msec False (d mod RTC_WRAP) None s))"
proof -
  define b where "b = CLK2MS (c mod RTC_WRAP)"
  define e where "e = CLK2MS (d mod RTC_WRAP)"
  have be: "b < 2 ^ 31" "e < 2 ^ 31" unfolding b_def e_def by (intro CLK2MS_bound mod_less_divisor RTC_WRAP_eq(2))+
  have old: "rtc_oldtime s = of_nat b" and off: "of_nat b + systime_offset s = of_nat (CLK2MS c) + k"
    using sh by (simp_all add: clock_at_def b_def)
  have ov: "CLK2MS (Suc RTC_OVERFLOW) = 2097152000"
    using CLK2MS_wrap[of 0 1] by (simp add: RTC_WRAP_def CLK2MS_def CLK2US_def)
  define u where "u = adjust_offset False (d mod RTC_WRAP) None s"
  have "of_nat e + systime_offset u = of_nat (CLK2MS d) + k \<and> rtc_oldtime u = of_nat e"
  proof (cases "d div RTC_WRAP = c div RTC_WRAP")
    case True
    then have "c mod RTC_WRAP \<le> d mod RTC_WRAP" using c(1) by (metis div_mult_mod_eq nat_add_left_cancel_le)
    then have "b \<le> e" by (simp add: b_def e_def CLK2MS_mono)
    then have "u = s\<lparr>rtc_oldtime := of_nat e\<rparr>"
      using be less_word_small[of e b] by (simp add: u_def adjust_offset_def old e_def[symmetric] Let_def)
    moreover have "(of_nat e :: u64) + of_nat (CLK2MS c) = of_nat b + of_nat (CLK2MS d)"
      unfolding CLK2MS_whole[of c] CLK2MS_whole[of d] True b_def[symmetric] e_def[symmetric] by simp
    ultimately show ?thesis using shift_sum[OF off] by simp
  next
    case False
    have "c div RTC_WRAP \<le> d div RTC_WRAP" using c(1) by (rule div_le_mono)
    moreover have "d div RTC_WRAP \<le> (c + RTC_WRAP) div RTC_WRAP" using c(2) by (intro div_le_mono) simp
    ultimately have q: "d div RTC_WRAP = c div RTC_WRAP + 1" using False div_add_self2[of RTC_WRAP c] RTC_WRAP_eq(2) by simp
    have "d mod RTC_WRAP + 33 \<le> c mod RTC_WRAP"
      using c(2) div_mult_mod_eq[of c RTC_WRAP] div_mult_mod_eq[of d RTC_WRAP, unfolded q add_mult_distrib] by linarith
    then have "e < b" by (simp add: b_def e_def CLK2MS_less)
    then have "u = s\<lparr>systime_offset := 2097152000 + systime_offset s, rtc_oldtime := of_nat e\<rparr>"
      using be less_word_small[of e b] small_word_eq_0[of b] by (simp add: u_def adjust_offset_def old e_def[symmetric] Let_def ov)
    moreover have "(2097152000 + of_nat e :: u64) + of_nat (CLK2MS c) = of_nat b + of_nat (CLK2MS d)"
      unfolding CLK2MS_whole[of c] CLK2MS_whole[of d] q b_def[symmetric] e_def[symmetric] by (simp add: algebra_simps)
    ultimately show ?thesis using shift_sum[OF off, of "2097152000 + of_nat e"] by (simp add: add.assoc add.left_commute)
  qed
  then show "fst (da16x_time64_msec False (d mod RTC_WRAP) None s) = of_nat (CLK2MS d) + k"
    "clock_at d k (snd (da16x_time64_msec False (d mod RTC_WRAP) None s))"
    by (simp_all add: da16x_time64_msec_def Let_def u_def[symmetric] e_def[symmetric] clock_at_def)
qed

text \<open>Readings of the clock at given counts of an unbounded counter, of which the hardware shows 36 bits.\<close>

fun readings :: "nat list \<Rightarrow> sys_clock \<Rightarrow> u64 list" where
  "readings [] s = []"
| "readings (c # cs) s = (let (t, s1) = da16x_time64_msec False (c mod RTC_WRAP) None s in t # readings cs s1)"

fun close :: "nat \<Rightarrow> nat list \<Rightarrow> bool" where
  "close c [] \<longleftrightarrow> True"
| "close c (d # ds) \<longleftrightarrow> c \<le> d \<and> d + 33 \<le> c + RTC_WRAP \<and> close d ds"

lemma readings_at: "clock_at c k s \<Longrightarrow> close c cs \<Longrightarrow> readings cs s = map (\<lambda>d. of_nat (CLK2MS d) + k) cs"
proof (induction cs arbitrary: c s)
  case (Cons d cs)
  then have d: "c \<le> d" "d + 33 \<le> c + RTC_WRAP" "close d cs" by simp_all
  note r = read_keeps[OF Cons.prems(1) d(1,2)]
  from Cons.IH[OF r(2) d(3)] r(1) show ?case by (simp add: split_beta)
qed simp

lemma set_clock_at:
  "clock_at c (t * 1000 - of_nat (CLK2MS c)) (snd (da16x_time64_msec False (c mod RTC_WRAP) (Some t) s))"
  by (simp add: clock_at_def da16x_time64_msec_def adjust_offset_def Let_def)

text \<open>C39.
  After the time has been set to \<open>t\<close> seconds at the count \<open>c\<close>, each reading gives \<open>t\<close> plus the milliseconds that an unbounded counter has
  counted since, however often the 36-bit counter has wrapped, provided that no two readings are a full turn of the counter (about 24 days)
  or less than one millisecond short of it apart, and that the sleep mode is off.
\<close>

theorem clock_counts_on:
  assumes "close c cs"
  shows "readings cs (snd (da16x_time64_msec False (c mod RTC_WRAP) (Some t) s)) =
    map (\<lambda>d. t * 1000 + (of_nat (CLK2MS d) - of_nat (CLK2MS c))) cs"
  unfolding readings_at[OF set_clock_at assms] by (simp add: algebra_simps)

text \<open>Three readings, the second after one and the third after two turns.\<close>

theorem clock_counts_on_witness:
  "readings [68719476736 + 16384, 137438953472 + 8192]
     (snd (da16x_time64_msec False 32768 (Some 1700000000) \<lparr>systime_offset = 0, rtc_oldtime = 0, clk_timezone = 0\<rparr>))
   = [1702097151500, 1704194303250]"
proof -
  have c: "close 32768 [68719476736 + 16384, 137438953472 + 8192]" by (simp add: RTC_WRAP_eq)
  have r: "32768 mod RTC_WRAP = 32768" by (simp add: RTC_WRAP_eq)
  show ?thesis using clock_counts_on[OF c, of 1700000000 "\<lparr>systime_offset = 0, rtc_oldtime = 0, clk_timezone = 0\<rparr>"]
    unfolding r by (simp add: CLK2MS_def CLK2US_def)
qed

text \<open>In the sleep mode a clock that has never been read outside it misses the turns of the counter: it goes back by 24 days.\<close>

lemma sleep_mode_misses_wrap:
  "rtc_oldtime s = 0 \<Longrightarrow> da16x_time64_msec True rtc None s = (of_nat (CLK2MS rtc) + systime_offset s, s)"
  by (simp add: da16x_time64_msec_def adjust_offset_def Let_def)

section \<open>Years\<close>

definition year_len :: "int \<Rightarrow> int" where
  "year_len y = (if gregorian_leap y then 366 else 365)"

text \<open>The number of days from 1 January 1900 to 1 January of the year \<open>n\<close> years later.\<close>

definition days_before_year :: "nat \<Rightarrow> int" where
  "days_before_year n = (\<Sum>k<n. year_len (1900 + int k))"

lemma div_step: "0 < (k::int) \<Longrightarrow> n div k = (n - 1) div k + of_bool (k dvd n)"
proof -
  assume k: "0 < k"
  show ?thesis
  proof (cases "k dvd n")
    case True
    then obtain q where q: "n = k * q" by blast
    have "(k * q - 1) div k = (k * (q - 1) + (k - 1)) div k" by (simp add: algebra_simps)
    also have "\<dots> = q - 1" using k by (simp add: div_mult_self4)
    finally show ?thesis using q k True by simp
  next
    case False
    define r where "r = n mod k"
    have "r \<noteq> 0" using False by (simp add: r_def dvd_eq_mod_eq_0)
    then have r: "0 < r" "r < k" using pos_mod_sign[OF k, of n] pos_mod_bound[OF k, of n] by (simp_all add: r_def)
    have n: "n = k * (n div k) + r" by (simp add: r_def)
    have "n - 1 = k * (n div k) + (r - 1)" using n by linarith
    then have "(n - 1) div k = (k * (n div k) + (r - 1)) div k" by (rule arg_cong)
    also have "\<dots> = n div k" using r by (simp add: div_mult_self4)
    finally show ?thesis using False by simp
  qed
qed

definition leap_days :: "int \<Rightarrow> int" where
  "leap_days y = y div 4 - y div 100 + (y + 300) div 400"

lemma leap_days_step: "leap_days y = leap_days (y - 1) + of_bool (gregorian_leap (1900 + y))"
proof -
  have d: "4 dvd 1900 + y \<longleftrightarrow> 4 dvd y" "100 dvd 1900 + y \<longleftrightarrow> 100 dvd y" "400 dvd 1900 + y \<longleftrightarrow> 400 dvd y + 300"
    "400 dvd y + 300 \<Longrightarrow> 100 dvd y" "100 dvd y \<Longrightarrow> 4 dvd y"
    using dvd_add_right_iff[of 4 1900 y] dvd_add_right_iff[of 100 1900 y] dvd_add_right_iff[of 400 1600 "y + 300"]
      dvd_trans[of 100 400 "y + 300"] dvd_add_left_iff[of 100 300 y] dvd_trans[of 4 100 y]
    by (simp_all add: algebra_simps)
  have "(y + 300) div 400 = (y - 1 + 300) div 400 + of_bool (400 dvd y + 300)" using div_step[of 400 "y + 300"] by (simp add: algebra_simps)
  moreover have "y div 4 = (y - 1) div 4 + of_bool (4 dvd y)" "y div 100 = (y - 1) div 100 + of_bool (100 dvd y)" by (rule div_step, simp)+
  ultimately have "leap_days y = leap_days (y - 1) + (of_bool (4 dvd y) - of_bool (100 dvd y) + of_bool (400 dvd y + 300))"
    unfolding leap_days_def by linarith
  moreover have "(of_bool (4 dvd y) - of_bool (100 dvd y) + of_bool (400 dvd y + 300) :: int) = of_bool (gregorian_leap (1900 + y))"
    using d(4,5) unfolding gregorian_leap_def d(1-3) by auto
  ultimately show ?thesis by simp
qed

lemma first_day: "da16x_Daysto64 (int n) 0 + 365 * int n = days_before_year n"
proof -
  have D: "da16x_Daysto64 (int n) 0 = (if n = 0 then 0 else leap_days (int n - 1))" for n
  proof (cases n)
    case (Suc m)
    have "MONTAB (int n) ! 0 = 0" by (simp add: MONTAB_def mos_def lmos_def)
    then show ?thesis using Suc by (simp add: da16x_Daysto64_def cdiv_def leap_days_def)
  qed (simp add: da16x_Daysto64_def cdiv_def MONTAB_def mos_def)
  have "(if n = 0 then 0 else leap_days (int n - 1)) + 365 * int n = days_before_year n"
  proof (induction n)
    case (Suc n)
    have "leap_days (int n) = (if n = 0 then 0 else leap_days (int n - 1)) + of_bool (gregorian_leap (1900 + int n))"
    proof (cases n)
      case 0
      then show ?thesis by (simp add: leap_days_def gregorian_leap_def)
    qed (use leap_days_step[of "int n"] in simp)
    then show ?case using Suc by (simp add: days_before_year_def year_len_def)
  qed (simp add: days_before_year_def)
  then show ?thesis by (simp add: D)
qed

lemma days_before_Suc: "days_before_year (Suc n) = days_before_year n + year_len (1900 + int n)"
  by (simp add: days_before_year_def)

lemma days_before_ge: "365 * int n \<le> days_before_year n"
  by (induction n) (simp_all add: days_before_year_def year_len_def)

lemma days_before_mono: "m \<le> n \<Longrightarrow> days_before_year m \<le> days_before_year n"
  unfolding days_before_year_def by (intro sum_mono2) (auto simp: year_len_def)

lemma year_of_day:
  assumes "0 \<le> days"
  shows "\<exists>y. days_before_year y \<le> days \<and> days < days_before_year (Suc y)"
proof -
  define y where "y = (LEAST n. days < days_before_year (Suc n))"
  have "days < days_before_year (Suc (nat days))" using days_before_ge[of "Suc (nat days)"] assms by simp
  then have l: "days < days_before_year (Suc y)" unfolding y_def by (rule LeastI)
  have "days_before_year y \<le> days"
  proof (cases y)
    case (Suc m)
    then have "\<not> days < days_before_year (Suc m)" using not_less_Least[of m "\<lambda>n. days < days_before_year (Suc n)"] by (simp add: y_def)
    then show ?thesis using Suc by simp
  qed (use assms in \<open>simp add: days_before_year_def\<close>)
  with l show ?thesis by blast
qed

lemma year_loop_down:
  assumes "days_before_year y \<le> days" "days < days_before_year (Suc y)"
  shows "year_loop days (int (y + k)) = Some (int y, days_before_year y)"
proof (induction k)
  case 0
  have "days \<le> days_before_year y + 365" using assms(2) by (simp add: days_before_Suc year_len_def split: if_splits)
  then show ?case using assms(1) by (subst year_loop.simps) (simp add: first_day Let_def)
next
  case (Suc k)
  have "days < days_before_year (y + Suc k)" using assms(2) days_before_mono[of "Suc y" "y + Suc k"] by simp
  then have "year_loop days (int (y + Suc k)) = year_loop days (int (y + Suc k) - 1)"
    by (subst year_loop.simps) (simp add: first_day[of "y + Suc k", simplified] Let_def)
  then show ?case using Suc by simp
qed

lemma year_loop_finds:
  assumes "days_before_year y \<le> days" "days < days_before_year (Suc y)"
  shows "year_loop days (cdiv days 365) = Some (int y, days_before_year y)"
proof -
  have p: "0 \<le> days" "365 * int y \<le> days" using assms(1) days_before_ge[of y] by linarith+
  then have "int y \<le> days div 365" by linarith
  then have "days div 365 = int (y + (nat (days div 365) - y))" by simp
  then show ?thesis using year_loop_down[OF assms, of "nat (days div 365) - y"] p(1) by (simp add: cdiv_def)
qed

section \<open>Months\<close>

definition days_before_month :: "nat \<Rightarrow> int \<Rightarrow> int" where
  "days_before_month m y = (\<Sum>k<m. gregorian_days (int k + 1) y)"

lemma days_before_month_vals:
  "days_before_month 0 y = 0" "days_before_month (Suc 0) y = 31"
  "days_before_month 2 y = 59 + of_bool (gregorian_leap y)" "days_before_month 3 y = 90 + of_bool (gregorian_leap y)"
  "days_before_month 4 y = 120 + of_bool (gregorian_leap y)" "days_before_month 5 y = 151 + of_bool (gregorian_leap y)"
  "days_before_month 6 y = 181 + of_bool (gregorian_leap y)" "days_before_month 7 y = 212 + of_bool (gregorian_leap y)"
  "days_before_month 8 y = 243 + of_bool (gregorian_leap y)" "days_before_month 9 y = 273 + of_bool (gregorian_leap y)"
  "days_before_month 10 y = 304 + of_bool (gregorian_leap y)" "days_before_month 11 y = 334 + of_bool (gregorian_leap y)"
  "days_before_month 12 y = 365 + of_bool (gregorian_leap y)"
  by (simp_all add: days_before_month_def gregorian_days_def eval_nat_numeral)

lemma less_12_cases: "m < 12 \<Longrightarrow> m \<in> {0, 1, 2, 3, 4, 5, 6, 7, 8, 9, 10, 11::nat}"
  by (simp add: eval_nat_numeral less_Suc_eq)

lemma MONTAB_leap: "0 \<le> y \<Longrightarrow> y < 200 \<Longrightarrow> MONTAB y = (if gregorian_leap (1900 + y) then lmos else mos)"
proof -
  assume y: "0 \<le> y" "y < 200"
  have 4: "4 dvd 1900 + y \<longleftrightarrow> y mod 4 = 0" using dvd_add_right_iff[of 4 1900 y] by (simp add: dvd_eq_mod_eq_0)
  have 100: "100 dvd 1900 + y \<longleftrightarrow> y = 0 \<or> y = 100"
  proof
    assume "100 dvd 1900 + y"
    then obtain q where "1900 + y = 100 * q" by blast
    with y have "q = 19 \<or> q = 20" by linarith
    with \<open>1900 + y = 100 * q\<close> show "y = 0 \<or> y = 100" by auto
  qed auto
  have 400: "400 dvd 1900 + y \<longleftrightarrow> y = 100"
  proof
    assume "400 dvd 1900 + y"
    then obtain q where "1900 + y = 400 * q" by blast
    with y have "q = 5" by linarith
    with \<open>1900 + y = 400 * q\<close> show "y = 100" by simp
  qed simp
  show ?thesis unfolding MONTAB_def gregorian_leap_def 4 100 400 by auto
qed

lemma MONTAB_nth: "0 \<le> y \<Longrightarrow> y < 200 \<Longrightarrow> m < 12 \<Longrightarrow> MONTAB y ! m = days_before_month m (1900 + y)"
proof -
  assume y: "0 \<le> y" "y < 200" and m: "m < 12"
  show ?thesis unfolding MONTAB_leap[OF y] using less_12_cases[OF m]
    by (elim insertE emptyE; hypsubst; simp add: lmos_def mos_def days_before_month_vals)
qed

lemma month_loop_finds:
  assumes "pm ! 0 \<le> days" "0 < k"
  shows "\<exists>m < k. month_loop pm days k = Some m \<and> pm ! m \<le> days \<and> (\<forall>j. m < j \<and> j < k \<longrightarrow> days < pm ! j)"
  using assms
proof (induction k)
  case (Suc k)
  show ?case
  proof (cases "days < pm ! k")
    case True
    then have "0 < k" using Suc.prems(1) by (cases k) auto
    with Suc True show ?thesis by (auto simp: less_Suc_eq)
  qed auto
qed simp

lemma month_of_day:
  assumes y: "0 \<le> y" "y < 200" and d: "0 \<le> d" "d < year_len (1900 + y)"
  shows "\<exists>m < 12. month_loop (MONTAB y) d 12 = Some m
    \<and> days_before_month m (1900 + y) \<le> d \<and> d < days_before_month m (1900 + y) + gregorian_days (int m + 1) (1900 + y)"
proof -
  have "MONTAB y ! 0 \<le> d" using MONTAB_nth[OF y, of 0] d(1) by (simp add: days_before_month_def)
  then obtain m where m: "m < 12" "month_loop (MONTAB y) d 12 = Some m" "MONTAB y ! m \<le> d" "\<forall>j. m < j \<and> j < 12 \<longrightarrow> d < MONTAB y ! j"
    using month_loop_finds[of "MONTAB y" d 12] by auto
  have "d < days_before_month (Suc m) (1900 + y)"
  proof (cases "Suc m = 12")
    case True
    then show ?thesis using d(2) by (simp add: days_before_month_vals(13) year_len_def split: if_splits)
  next
    case False
    then have "Suc m < 12" using m(1) by simp
    then show ?thesis using m(4)[rule_format, of "Suc m"] MONTAB_nth[OF y, of "Suc m"] by simp
  qed
  then show ?thesis using m MONTAB_nth[OF y m(1)] by (auto simp: days_before_month_def)
qed

section \<open>Dates\<close>

text \<open>The seconds from 1 January 1970 to a date of the Gregorian calendar.\<close>

definition calendar_days :: "tm_day \<Rightarrow> int" where
  "calendar_days t = days_before_year (nat (tm_year t)) - days_before_year 70
     + days_before_month (nat (tm_mon t)) (1900 + tm_year t) + tm_mday t - 1"

definition calendar_secs :: "tm_day \<Rightarrow> int" where
  "calendar_secs t = calendar_days t * 86400 + tm_hour t * 3600 + tm_min t * 60 + tm_sec t"

lemma epoch_day: "days_before_year 70 = 25567" "days_before_year 200 = 73049"
  using first_day[of 70] first_day[of 200] by (simp_all add: da16x_Daysto64_def cdiv_def MONTAB_def lmos_def mos_def)

text \<open>The time of day.\<close>

lemma day_split:
  fixes r :: int
  assumes "0 \<le> r" "r < 86400"
  defines "h \<equiv> r div 3600" and "m \<equiv> r mod 3600 div 60" and "s \<equiv> r mod 3600 mod 60"
  shows "h * 3600 + m * 60 + s = r" "0 \<le> h" "h \<le> 23" "0 \<le> m" "m \<le> 59" "0 \<le> s" "s \<le> 59"
proof -
  have a: "r = h * 3600 + r mod 3600" "r mod 3600 = m * 60 + s" by (simp_all add: h_def m_def s_def)
  then show "h * 3600 + m * 60 + s = r" by linarith
  show "0 \<le> h" "0 \<le> m" "0 \<le> s" using assms(1) by (simp_all add: h_def m_def s_def pos_imp_zdiv_nonneg_iff)
  show "s \<le> 59" by (simp add: s_def)
  have "r mod 3600 < 3600" "0 \<le> r mod 3600" by simp_all
  with a assms(2) \<open>0 \<le> s\<close> \<open>0 \<le> m\<close> show "h \<le> 23" "m \<le> 59" by linarith+
qed

lemma seconds_word:
  fixes tod :: u64
  assumes "uint tod < 4102444800"
  shows "sint (tod + word_of_int TBIAS) = uint tod + 2208988800"
proof -
  have e: "tod + word_of_int TBIAS = word_of_int (uint tod + 2208988800)" by (simp add: TBIAS_def TBIAS_DAYS_def)
  have s: "sint (word_of_int x :: u64) = x" if "0 \<le> x" "x < 2 ^ 63" for x
    using that by (simp add: signed_of_int signed_take_bit_int_eq_self)
  have "0 \<le> uint tod" by simp
  then show ?thesis unfolding e using assms by (intro s) simp_all
qed

lemma to_tm:
  fixes tod :: u64
  assumes "uint tod < 4102444800"
  shows "\<exists>t. da16x_Ttotm64 tod isdst = Some t \<and> gregorian_valid (tm.truncate t) \<and> tm_year t < 200 \<and> calendar_secs t = uint tod
    \<and> tm_isdst t = isdst \<and> tm_wday t = (calendar_days t + 4) mod 7
    \<and> tm_yday t = days_before_month (nat (tm_mon t)) (1900 + tm_year t) + tm_mday t - 1"
proof -
  define days where "days = uint tod div 86400 + 25567"
  define r where "r = uint tod mod 86400"
  have u: "0 \<le> uint tod" by simp
  have q: "uint tod div 86400 < 47482" using assms by linarith
  have r: "0 \<le> r" "r < 86400" by (simp_all add: r_def)
  have d: "25567 \<le> days" "days < 73049" using u q by (simp_all add: days_def pos_imp_zdiv_nonneg_iff)
  have split: "uint tod + 2208988800 = 86400 * days + r" by (simp add: days_def r_def)
  have dr: "(86400 * days + r) div 86400 = days" "(86400 * days + r) - days * 86400 = r" using r by simp_all
  obtain y where y: "days_before_year y \<le> days" "days < days_before_year (Suc y)" using year_of_day[of days] d(1) by auto
  have yb: "70 \<le> y" "y < 200"
    using y d epoch_day days_before_mono[of "Suc y" 70] days_before_mono[of 200 y] by (linarith | (rule ccontr, simp))+
  define e where "e = days - days_before_year y"
  have e: "0 \<le> e" "e < year_len (1900 + int y)" using y by (simp_all add: e_def days_before_Suc)
  obtain m where m: "m < 12" "month_loop (MONTAB (int y)) e 12 = Some m" "days_before_month m (1900 + int y) \<le> e"
    "e < days_before_month m (1900 + int y) + gregorian_days (int m + 1) (1900 + int y)"
    using month_of_day[of "int y" e] yb e by auto
  have tab: "MONTAB (int y) ! m = days_before_month m (1900 + int y)" using MONTAB_nth[of "int y" m] yb m(1) by simp
  define h where "h = r div 3600"
  define mi where "mi = r mod 3600 div 60"
  define sc where "sc = r mod 3600 mod 60"
  note ds = day_split[OF r, folded h_def mi_def sc_def]
  define t where "t = \<lparr>tm_sec = sc, tm_min = mi, tm_hour = h,
      tm_mday = e - days_before_month m (1900 + int y) + 1, tm_mon = int m, tm_year = int y,
      tm_wday = (days + 1) mod 7, tm_yday = e, tm_isdst = isdst\<rparr>"
  have secs: "sint (tod + word_of_int TBIAS) = 86400 * days + r" using seconds_word[OF assms] split by simp
  have cd: "cdiv (86400 * days + r) 86400 = days" "cmod (86400 * days + r) 86400 = r" using d r dr by (simp_all add: cdiv_def cmod_def)
  have small: "cdiv r 3600 = h" "cdiv (cmod r 3600) 60 = mi" "cmod (cmod r 3600) 60 = sc" "cmod (days + 1) 7 = (days + 1) mod 7"
    using r d by (simp_all add: cdiv_def cmod_def minus_div_mult_eq_mod h_def mi_def sc_def)
  have "da16x_Ttotm64 tod isdst = Some t"
    using r d year_loop_finds[OF y] m(2) s32_id[of days]
    unfolding da16x_Ttotm64_def secs Let_def by (simp add: cd small WDAY_def e_def[symmetric] tab t_def)
  moreover have "1900 + int y = int y + 1900" by simp
  note m' = m(3,4)[unfolded this]
  have "gregorian_valid (tm.truncate t)"
    using ds(2-7) yb m(1) m' unfolding gregorian_valid_def t_def tm.truncate_def \<open>1900 + int y = int y + 1900\<close> by simp
  moreover have cdays: "calendar_days t = days - 25567" by (simp add: calendar_days_def t_def epoch_day e_def)
  moreover have "calendar_secs t = uint tod" using cdays ds(1) split by (simp add: calendar_secs_def t_def)
  moreover have "(days + 1) mod 7 = (days - 25567 + 4) mod 7"
  proof -
    have "days + 1 = (days - 25567 + 4) + 7 * 3652" by simp
    then show ?thesis by (simp only: mod_mult_self2)
  qed
  ultimately show ?thesis using yb by (intro exI[of _ t]) (simp add: t_def)
qed

lemma month_end: "m < 12 \<Longrightarrow> days_before_month m y + gregorian_days (int m + 1) y \<le> year_len y"
proof -
  assume "m < 12"
  have "days_before_month (Suc m) y \<le> days_before_month 12 y"
    unfolding days_before_month_def using \<open>m < 12\<close> by (intro sum_mono2) (auto simp: gregorian_days_def)
  moreover have "days_before_month 12 y = year_len y" by (simp add: days_before_month_vals(13) year_len_def)
  ultimately show ?thesis by (simp add: days_before_month_def)
qed

lemma calendar_range:
  assumes "gregorian_valid (tm.truncate t)" "tm_year t < 200"
  shows "0 \<le> calendar_days t" "calendar_days t < 47482" "0 \<le> calendar_secs t" "calendar_secs t < 4102444800"
proof -
  have v: "70 \<le> tm_year t" "0 \<le> tm_mon t" "tm_mon t \<le> 11" "1 \<le> tm_mday t"
    "tm_mday t \<le> gregorian_days (tm_mon t + 1) (1900 + tm_year t)" "0 \<le> tm_hour t" "tm_hour t \<le> 23"
    "0 \<le> tm_min t" "tm_min t \<le> 59" "0 \<le> tm_sec t" "tm_sec t \<le> 59"
    using assms(1) by (simp_all add: gregorian_valid_def tm.truncate_def add.commute)
  define y where "y = nat (tm_year t)"
  define m where "m = nat (tm_mon t)"
  have ym: "tm_year t = int y" "70 \<le> y" "y < 200" "tm_mon t = int m" "m < 12" using v assms(2) by (auto simp: y_def m_def)
  have "days_before_year 70 \<le> days_before_year y" "days_before_year (Suc y) \<le> days_before_year 200"
    using ym by (simp_all add: days_before_mono)
  then have dy: "25567 \<le> days_before_year y" "days_before_year y + year_len (1900 + int y) \<le> 73049"
    by (simp_all add: epoch_day days_before_Suc)
  have "0 \<le> days_before_month m (1900 + int y)" unfolding days_before_month_def by (intro sum_nonneg) (simp add: gregorian_days_def)
  with dy v(4,5) month_end[OF ym(5), of "1900 + int y"] show c: "0 \<le> calendar_days t" "calendar_days t < 47482"
    unfolding calendar_days_def ym by (simp_all add: epoch_day)
  then show "0 \<le> calendar_secs t" "calendar_secs t < 4102444800" using v(6-) unfolding calendar_secs_def by linarith+
qed

lemma from_tm:
  assumes g: "gregorian_valid (tm.truncate t)" "tm_year t < 200" "tm_isdst t \<le> 0"
  shows "\<exists>t'. da16x_mktime64 tz t = Some (word_of_int (calendar_secs t) - word_of_int tz, t')
    \<and> da16x_Ttotm64 (word_of_int (calendar_secs t)) (tm_isdst t) = Some t'"
proof -
  note range = calendar_range[OF g(1,2)]
  have v: "0 \<le> tm_mon t" "tm_mon t \<le> 11" "0 \<le> tm_year t" "0 \<le> tm_hour t" "tm_hour t \<le> 23"
    "0 \<le> tm_min t" "tm_min t \<le> 59" "0 \<le> tm_sec t" "tm_sec t \<le> 59"
    using g(1) by (simp_all add: gregorian_valid_def tm.truncate_def)
  have z: "cdiv (tm_mon t) 12 = 0" "cdiv (tm_hour t) 24 = 0" "cdiv (tm_min t) 1440 = 0" "cdiv (tm_sec t) 86400 = 0"
    "cmod (tm_hour t) 24 = tm_hour t" "cmod (tm_min t) 1440 = tm_min t" "cmod (tm_sec t) 86400 = tm_sec t"
    using v by (simp_all add: cdiv_def cmod_def)
  define y where "y = nat (tm_year t)"
  define m where "m = nat (tm_mon t)"
  have ym: "tm_year t = int y" "y < 200" "m < 12" using v g(2) by (auto simp: y_def m_def)
  have "MONTAB (int y) ! 0 = 0" by (simp add: MONTAB_def mos_def lmos_def)
  then have "da16x_Daysto64 (int y) m = da16x_Daysto64 (int y) 0 + MONTAB (int y) ! m" by (simp add: da16x_Daysto64_def)
  also have "\<dots> = days_before_year y - 365 * int y + days_before_month m (1900 + int y)"
    using first_day[of y] MONTAB_nth[of "int y" m] ym by simp
  finally have "da16x_Daysto64 (tm_year t) m - 1 + 365 * tm_year t + tm_mday t - TBIAS_DAYS = calendar_days t"
    by (simp add: calendar_days_def ym(1) epoch_day m_def[symmetric] TBIAS_DAYS_def)
  then have cd: "s32 (da16x_Daysto64 (tm_year t) (nat (tm_mon t)) - 1 + 365 * tm_year t + tm_mday t - TBIAS_DAYS) = calendar_days t"
    using range(1,2) by (simp add: m_def s32_id)
  have cs: "calendar_days t * 86400 + (3600 * tm_hour t + 60 * tm_min t + tm_sec t) = calendar_secs t"
    by (simp add: calendar_secs_def)
  have "uint (word_of_int (calendar_secs t) :: u64) = calendar_secs t" using range by (simp add: unsigned_of_int take_bit_int_eq_self)
  then obtain t' where t': "da16x_Ttotm64 (word_of_int (calendar_secs t)) (tm_isdst t) = Some t'" "tm_isdst t' = tm_isdst t"
    using to_tm[of "word_of_int (calendar_secs t)" "tm_isdst t"] range(4) by auto
  have "da16x_mktime64 tz t = Some (word_of_int (calendar_secs t) - word_of_int tz, t')"
    using g(3) v(1) t' unfolding da16x_mktime64_def Let_def by (simp add: z cd cs)
  with t'(1) show ?thesis by blast
qed

text \<open>C40.
  The conversion of seconds since 1970 to a date follows the Gregorian calendar for every time before the year 2100: it returns, the date is valid, the days from 1 January
  1970 to it and its time of day add up to the seconds given, the day of the week and the day of the year belong to
  it, and converting it back, in UTC (with a time-zone offset of 0), gives the same seconds and leaves the date as it is.
\<close>

theorem gmtime_gregorian:
  assumes "uint tod < 4102444800"
  shows "\<exists>t. da16x_gmtime64 tod = Some t \<and> gregorian_valid (tm.truncate t) \<and> calendar_secs t = uint tod
    \<and> tm_wday t = (calendar_days t + 4) mod 7
    \<and> tm_yday t = days_before_month (nat (tm_mon t)) (1900 + tm_year t) + tm_mday t - 1
    \<and> da16x_mktime64 0 t = Some (tod, t)"
proof -
  obtain t where t: "da16x_Ttotm64 tod 0 = Some t" "gregorian_valid (tm.truncate t)" "tm_year t < 200" "calendar_secs t = uint tod"
    "tm_isdst t = 0" "tm_wday t = (calendar_days t + 4) mod 7"
    "tm_yday t = days_before_month (nat (tm_mon t)) (1900 + tm_year t) + tm_mday t - 1"
    using to_tm[OF assms, of 0] by blast
  moreover have "da16x_mktime64 0 t = Some (tod, t)" using from_tm[OF t(2,3), of 0] t(1,4,5) by simp
  ultimately show ?thesis unfolding da16x_gmtime64_def by blast
qed

text \<open>29 February 2024, 12:34:56.\<close>

theorem gmtime_gregorian_witness:
  "\<exists>t. da16x_gmtime64 1709210096 = Some t \<and> calendar_secs t = 1709210096 \<and> da16x_mktime64 0 t = Some (1709210096, t)"
  using gmtime_gregorian[of 1709210096] by auto

text \<open>The months of the year 2100, which is no leap year, are taken from the table of leap years: its 1 March is shown as 29 February.\<close>

lemma march_2100: "map_option (\<lambda>t. (tm_year t, tm_mon t, tm_mday t)) (da16x_gmtime64 4107542400) = Some (200, 1, 29)"
  by code_simp

text \<open>Without a time that was set, the boot time is not written at all.\<close>

lemma boottime_not_written: "systime_offset s = 0 \<Longrightarrow> boottime dpm rtc s = (None, s)"
  by (simp add: boottime_def)

end
