(* ===== verification/Mqtt_Table.thy ===== *)
theory Mqtt_Table
  imports User_Pool
begin

text \<open>
  The MQTT messages that outlive deep sleep, \<^verbatim>\<open>src/core/system/src/mqtt_client/client/mqtt_msg_tbl_presvd.c\<close>: a table of ten messages
  that are under way, kept in RAM and mirrored in an area of the pool of named user data. The calls that take the table's
  mutex are atomic. How the compiler lays the table out in bytes is a parameter. \<open>None\<close> is a call that writes or reads outside
  an array, or a loop of the pool that does not end.
\<close>

section \<open>Messages\<close>

datatype mosquitto_msg_direction = mosq_md_in | mosq_md_out

datatype mosquitto_msg_state = mosq_ms_invalid | mosq_ms_publish_qos0 | mosq_ms_publish_qos1 | mosq_ms_wait_for_puback
  | mosq_ms_publish_qos2 | mosq_ms_wait_for_pubrec | mosq_ms_resend_pubrel | mosq_ms_wait_for_pubrel
  | mosq_ms_resend_pubcomp | mosq_ms_wait_for_pubcomp | mosq_ms_send_pubrec | mosq_ms_queued

text \<open>Topic and payload are the bytes the pointers of the structure lead to, the topic without its terminating zero.\<close>

record mosquitto_message_all =
  m_timestamp :: u64
  m_state :: mosquitto_msg_state
  m_dup :: bool
  m_mid :: u16
  m_topic :: "u8 list"
  m_payload :: "u8 list"
  m_qos :: int
  m_retain :: bool

definition MOSQ_ERR_SUCCESS :: int where "MOSQ_ERR_SUCCESS = 0"
definition MOSQ_ERR_NOMEM :: int where "MOSQ_ERR_NOMEM = 1"
definition MOSQ_ERR_INVAL :: int where "MOSQ_ERR_INVAL = 3"
definition MOSQ_ERR_NOT_FOUND :: int where "MOSQ_ERR_NOT_FOUND = 6"
definition MOSQ_ERR_PAYLOAD_SIZE :: int where "MOSQ_ERR_PAYLOAD_SIZE = 9"
definition MOSQ_ERR_UNKNOWN :: int where "MOSQ_ERR_UNKNOWN = 13"

text \<open>The part of a client that concerns messages; the linked lists are lists, with their last elements at the end.\<close>

record mosquitto =
  last_mid :: u16
  clean_session :: bool
  message_retry :: u32
  last_retry_check :: u64
  in_messages :: "mosquitto_message_all list"
  out_messages :: "mosquitto_message_all list"
  in_queue_len :: int
  out_queue_len :: int
  inflight_messages :: int
  max_inflight_messages :: int
  q2_proc :: int

definition mosquitto_message_queue ::
    "mosquitto_message_all \<Rightarrow> mosquitto_msg_direction \<Rightarrow> mosquitto \<Rightarrow> int \<times> mosquitto" where
  "mosquitto_message_queue message dir mosq =
     (case dir of
        mosq_md_out \<Rightarrow>
          (let mosq1 = mosq\<lparr>out_queue_len := out_queue_len mosq + 1, out_messages := out_messages mosq @ [message]\<rparr> in
           if m_qos message > 0
           then if max_inflight_messages mosq1 = 0 \<or> inflight_messages mosq1 < max_inflight_messages mosq1
                then (0, mosq1\<lparr>inflight_messages := inflight_messages mosq1 + 1\<rparr>)
                else (1, mosq1)
           else (0, mosq1))
      | mosq_md_in \<Rightarrow> (0, mosq\<lparr>in_queue_len := in_queue_len mosq + 1, in_messages := in_messages mosq @ [message]\<rparr>))"

section \<open>The table\<close>

definition MQTT_INIT_MAGIC :: u32 where "MQTT_INIT_MAGIC = 0x7E7EBEAF"
definition MQTT_MSG_TBL_PRESVD_MAX_MSG_CNT :: nat where "MQTT_MSG_TBL_PRESVD_MAX_MSG_CNT = 10"
definition MQTT_MSG_TBL_PRESVD_MAX_PLAYLOAD_LEN :: nat where "MQTT_MSG_TBL_PRESVD_MAX_PLAYLOAD_LEN = 100"
definition MQTT_TOPIC_MAX_LEN :: nat where "MQTT_TOPIC_MAX_LEN = 64"

text \<open>The characters of \<open>MQ_MSG_TBL\<close>.\<close>

definition MQTT_MSG_TBL_PRESVD_NAME :: "u8 list" where
  "MQTT_MSG_TBL_PRESVD_NAME = [77, 81, 95, 77, 83, 71, 95, 84, 66, 76]"

record mq_msg_tbl_row_t =
  mid :: u16
  row_payload :: "u8 list"
  payload_len :: int
  topic :: "u8 list"
  topic_len :: int
  qos :: int
  row_state :: mosquitto_msg_state
  dir :: mosquitto_msg_direction
  timestamp :: u64
  dup :: bool
  retain :: bool
  is_valid :: u8

record mq_msg_tbl_presvd_t =
  magic_code :: u32
  total_rx_msg_cnt :: int
  total_tx_msg_cnt :: int
  last_retry_chk_time :: u64
  last_tx_mid_used :: u16
  tbl_row :: "mq_msg_tbl_row_t list"

record mq_layout =
  sizeof_tbl :: nat
  tbl_bytes :: "mq_msg_tbl_presvd_t \<Rightarrow> u8 list"
  tbl_of_bytes :: "u8 list \<Rightarrow> mq_msg_tbl_presvd_t"

text \<open>The static variables of the file and the pool; a pointer of 0 is null.\<close>

record mq_table =
  mqtt_msg_tbl_presvd :: mq_msg_tbl_presvd_t
  mqtt_msg_tbl_presvd_rtm :: nat
  mq_msg_tbl_presvd_enabled :: bool
  mq_msg_tbl_init_done :: bool
  tbl_pool :: user_pool

text \<open>Static memory after a start of the chip.\<close>

definition zero_row :: mq_msg_tbl_row_t where
  "zero_row = \<lparr>mid = 0, row_payload = replicate (MQTT_MSG_TBL_PRESVD_MAX_PLAYLOAD_LEN + 1) 0, payload_len = 0,
     topic = replicate (MQTT_TOPIC_MAX_LEN + 1) 0, topic_len = 0, qos = 0, row_state = mosq_ms_invalid, dir = mosq_md_in,
     timestamp = 0, dup = False, retain = False, is_valid = 0\<rparr>"

definition zero_table :: mq_msg_tbl_presvd_t where
  "zero_table = \<lparr>magic_code = 0, total_rx_msg_cnt = 0, total_tx_msg_cnt = 0, last_retry_chk_time = 0, last_tx_mid_used = 0,
     tbl_row = replicate MQTT_MSG_TBL_PRESVD_MAX_MSG_CNT zero_row\<rparr>"

definition boot_state :: "user_pool \<Rightarrow> mq_table" where
  "boot_state p = \<lparr>mqtt_msg_tbl_presvd = zero_table, mqtt_msg_tbl_presvd_rtm = 0, mq_msg_tbl_presvd_enabled = False,
     mq_msg_tbl_init_done = False, tbl_pool = p\<rparr>"

definition on_tbl :: "(mq_msg_tbl_presvd_t \<Rightarrow> mq_msg_tbl_presvd_t) \<Rightarrow> mq_table \<Rightarrow> mq_table" where
  "on_tbl f s = s\<lparr>mqtt_msg_tbl_presvd := f (mqtt_msg_tbl_presvd s)\<rparr>"

text \<open>The first row with a property: the loop of the searches.\<close>

fun scan_rows :: "(mq_msg_tbl_row_t \<Rightarrow> bool) \<Rightarrow> mq_msg_tbl_row_t list \<Rightarrow> nat option" where
  "scan_rows P [] = None"
| "scan_rows P (r # rs) = (if P r then Some 0 else map_option Suc (scan_rows P rs))"

definition mq_msg_tbl_presvd_find_empty_slot :: "mq_msg_tbl_presvd_t \<Rightarrow> nat option" where
  "mq_msg_tbl_presvd_find_empty_slot t = scan_rows (\<lambda>r. is_valid r = 0) (tbl_row t)"

definition mq_msg_tbl_presvd_find :: "mosquitto_msg_direction \<Rightarrow> u16 \<Rightarrow> mq_msg_tbl_presvd_t \<Rightarrow> nat option" where
  "mq_msg_tbl_presvd_find d m t = scan_rows (\<lambda>r. is_valid r \<noteq> 0 \<and> dir r = d \<and> mid r = m) (tbl_row t)"

definition strlen :: "u8 list \<Rightarrow> nat" where
  "strlen cs = length (takeWhile (\<lambda>c. c \<noteq> 0) cs)"

text \<open>\<open>mem k\<close> is whether the k-th allocation succeeds.\<close>

definition mq_msg_tbl_presvd_build_msg :: "(nat \<Rightarrow> bool) \<Rightarrow> mq_msg_tbl_row_t \<Rightarrow> (int + mosquitto_message_all) option" where
  "mq_msg_tbl_presvd_build_msg mem r =
     (if \<not> mem 0 then Some (Inl MOSQ_ERR_NOMEM)
      else if \<not> mem 1 then Some (Inl MOSQ_ERR_NOMEM)
      else if 0 \<notin> set (topic r) \<or> int (strlen (topic r)) > topic_len r then None
      else if \<not> mem 2 then Some (Inl MOSQ_ERR_NOMEM)
      else if payload_len r < 0 \<or> payload_len r > int (length (row_payload r)) then None
      else Some (Inr \<lparr>m_timestamp = timestamp r, m_state = row_state r, m_dup = dup r, m_mid = mid r,
             m_topic = takeWhile (\<lambda>c. c \<noteq> 0) (topic r), m_payload = take (nat (payload_len r)) (row_payload r),
             m_qos = qos r, m_retain = retain r\<rparr>))"

section \<open>The mirror in retention memory\<close>

definition write_bytes :: "nat \<Rightarrow> u8 list \<Rightarrow> user_pool \<Rightarrow> user_pool" where
  "write_bytes p bs s = s\<lparr>heap := (heap s)\<lparr>ram := (\<lambda>a. if p \<le> a \<and> a < p + length bs then bs ! (a - p) else ram (heap s) a)\<rparr>\<rparr>"

definition read_bytes :: "nat \<Rightarrow> nat \<Rightarrow> user_pool \<Rightarrow> u8 list" where
  "read_bytes p n s = map (ram (heap s)) [p..<p + n]"

definition table_to_rtm :: "mq_layout \<Rightarrow> mq_table \<Rightarrow> mq_table" where
  "table_to_rtm L s =
     s\<lparr>tbl_pool := write_bytes (mqtt_msg_tbl_presvd_rtm s) (tbl_bytes L (mqtt_msg_tbl_presvd s)) (tbl_pool s)\<rparr>"

definition rtm_table :: "mq_layout \<Rightarrow> mq_table \<Rightarrow> mq_msg_tbl_presvd_t" where
  "rtm_table L s = tbl_of_bytes L (read_bytes (mqtt_msg_tbl_presvd_rtm s) (sizeof_tbl L) (tbl_pool s))"

definition mq_msg_tbl_presvd_copy_to_rtm :: "mq_layout \<Rightarrow> mq_table \<Rightarrow> mq_table" where
  "mq_msg_tbl_presvd_copy_to_rtm L s = (if mqtt_msg_tbl_presvd_rtm s \<noteq> 0 then table_to_rtm L s else s)"

definition dpm_user_mem_alloc where "dpm_user_mem_alloc = dpm_user_rtm_allocate"
definition dpm_user_mem_free where "dpm_user_mem_free = dpm_user_rtm_release"
definition dpm_user_mem_get where "dpm_user_mem_get = dpm_user_rtm_get"

definition mq_msg_tbl_presvd_init_1 :: "mq_table \<Rightarrow> mq_table" where
  "mq_msg_tbl_presvd_init_1 = on_tbl (\<lambda>t. t\<lparr>magic_code := MQTT_INIT_MAGIC\<rparr>)"

definition free_if :: "bool \<Rightarrow> bool \<Rightarrow> mq_table \<Rightarrow> mq_table option" where
  "free_if dpm b s =
     (if b then map_option (\<lambda>(p, _). s\<lparr>tbl_pool := p\<rparr>) (dpm_user_mem_free dpm (Some MQTT_MSG_TBL_PRESVD_NAME) (tbl_pool s))
      else Some s)"

definition mq_msg_tbl_presvd_init_2 :: "mq_layout \<Rightarrow> bool \<Rightarrow> nat \<Rightarrow> mq_table \<Rightarrow> mq_table option" where
  "mq_msg_tbl_presvd_init_2 L dpm len s =
     (case free_if dpm (len \<noteq> 0) (mq_msg_tbl_presvd_init_1 s) of
        None \<Rightarrow> None
      | Some s1 \<Rightarrow>
          (case dpm_user_mem_alloc dpm (Some MQTT_MSG_TBL_PRESVD_NAME) (sizeof_tbl L) (tbl_pool s1) of
             None \<Rightarrow> None
           | Some (p, status, ptr) \<Rightarrow>
               (if status = 0 then Some (table_to_rtm L (s1\<lparr>tbl_pool := p, mqtt_msg_tbl_presvd_rtm := the ptr\<rparr>))
                else Some (s1\<lparr>tbl_pool := p\<rparr>))))"

definition mq_msg_tbl_presvd_init_3 :: "mq_layout \<Rightarrow> bool \<Rightarrow> mq_table \<Rightarrow> mq_table option" where
  "mq_msg_tbl_presvd_init_3 L dpm s =
     (if magic_code (rtm_table L s) = MQTT_INIT_MAGIC then Some (s\<lparr>mqtt_msg_tbl_presvd := rtm_table L s\<rparr>)
      else mq_msg_tbl_presvd_init_2 L dpm 1 s)"

definition mark_done :: "mq_table \<Rightarrow> mq_table" where
  "mark_done s = s\<lparr>mq_msg_tbl_init_done := True\<rparr>"

text \<open>\<open>dpm_user_mem_get\<close> sets the pointer when it finds the name.\<close>

definition get_rtm :: "bool \<Rightarrow> mq_table \<Rightarrow> (nat \<times> mq_table) option" where
  "get_rtm dpm s =
     map_option (\<lambda>(len, ptr). (len, case ptr of None \<Rightarrow> s | Some p \<Rightarrow> s\<lparr>mqtt_msg_tbl_presvd_rtm := p\<rparr>))
       (dpm_user_mem_get dpm (Some MQTT_MSG_TBL_PRESVD_NAME) (tbl_pool s))"

definition restore_table :: "mq_layout \<Rightarrow> bool \<Rightarrow> mq_table \<Rightarrow> mq_table option" where
  "restore_table L dpm s =
     (if dpm
      then (case get_rtm dpm s of
              None \<Rightarrow> None
            | Some (len, s1) \<Rightarrow>
                (if mq_msg_tbl_init_done s1 then Some s1
                 else map_option mark_done
                        (if len = sizeof_tbl L then mq_msg_tbl_presvd_init_3 L dpm s1 else mq_msg_tbl_presvd_init_2 L dpm len s1)))
      else if mq_msg_tbl_init_done s then Some s else Some (mark_done (mq_msg_tbl_presvd_init_1 s)))"

text \<open>The loop over the rows; \<open>mem i\<close> are the allocations for row \<open>i\<close>.\<close>

fun restore_rows :: "(nat \<Rightarrow> nat \<Rightarrow> bool) \<Rightarrow> nat \<Rightarrow> mq_msg_tbl_row_t list \<Rightarrow> mosquitto \<Rightarrow> mosquitto option" where
  "restore_rows mem i [] mosq = Some mosq"
| "restore_rows mem i (r # rs) mosq =
     (if is_valid r = 0 then restore_rows mem (Suc i) rs mosq
      else (case mq_msg_tbl_presvd_build_msg (mem i) r of
              None \<Rightarrow> None
            | Some (Inl e) \<Rightarrow> restore_rows mem (Suc i) rs mosq
            | Some (Inr message) \<Rightarrow>
                (let mosq1 = snd (mosquitto_message_queue message (dir r) mosq) in
                 restore_rows mem (Suc i) rs (if dir r = mosq_md_in \<and> qos r = 2 then mosq1\<lparr>q2_proc := 1\<rparr> else mosq1))))"

definition mq_msg_tbl_presvd_restore ::
    "mq_layout \<Rightarrow> (nat \<Rightarrow> nat \<Rightarrow> bool) \<Rightarrow> bool \<Rightarrow> mosquitto \<Rightarrow> mq_table \<Rightarrow> (mosquitto \<times> mq_table) option" where
  "mq_msg_tbl_presvd_restore L mem dpm mosq s =
     (case restore_table L dpm s of
        None \<Rightarrow> None
      | Some s1 \<Rightarrow>
          (let t = mqtt_msg_tbl_presvd s1 in
           (case (if total_rx_msg_cnt t + total_tx_msg_cnt t > 0 then restore_rows mem 0 (tbl_row t) mosq else Some mosq) of
              None \<Rightarrow> None
            | Some mosq1 \<Rightarrow>
                (let mosq2 = mosq1\<lparr>last_retry_check := last_retry_chk_time t\<rparr> in
                 Some (if \<not> dpm then mosq2\<lparr>last_mid := last_tx_mid_used t\<rparr> else mosq2, s1)))))"

definition mq_msg_tbl_presvd_disable :: "bool \<Rightarrow> mq_table \<Rightarrow> mq_table option" where
  "mq_msg_tbl_presvd_disable dpm s =
     (let s1 = s\<lparr>mqtt_msg_tbl_presvd := zero_table\<lparr>magic_code := MQTT_INIT_MAGIC\<rparr>\<rparr> in
      map_option (\<lambda>s2. s2\<lparr>mqtt_msg_tbl_presvd_rtm := 0\<rparr>)
        (if dpm then (case get_rtm dpm s1 of None \<Rightarrow> None | Some (len, s2) \<Rightarrow> free_if dpm (len \<noteq> 0) s2) else Some s1))"

definition mq_msg_tbl_presvd_sync_to_rtm :: "mq_layout \<Rightarrow> mq_table \<Rightarrow> mq_table" where
  "mq_msg_tbl_presvd_sync_to_rtm = mq_msg_tbl_presvd_copy_to_rtm"

section \<open>The calls\<close>

text \<open>\<open>cfg_qos\<close> is the quality of service of the configuration.\<close>

definition mq_msg_tbl_presvd_init ::
    "mq_layout \<Rightarrow> (nat \<Rightarrow> nat \<Rightarrow> bool) \<Rightarrow> bool \<Rightarrow> int \<Rightarrow> mosquitto \<Rightarrow> mq_table \<Rightarrow> (int \<times> mosquitto \<times> mq_table) option" where
  "mq_msg_tbl_presvd_init L mem dpm cfg_qos mosq s =
     (if \<not> clean_session mosq \<and> cfg_qos > 0
      then map_option (\<lambda>(mosq1, s1). (MOSQ_ERR_SUCCESS, mosq1, s1\<lparr>mq_msg_tbl_presvd_enabled := True\<rparr>))
             (mq_msg_tbl_presvd_restore L mem dpm mosq s)
      else map_option (\<lambda>s1. (MOSQ_ERR_SUCCESS, mosq, s1\<lparr>mq_msg_tbl_presvd_enabled := False\<rparr>))
             (mq_msg_tbl_presvd_disable dpm s))"

definition row_of :: "mosquitto_message_all \<Rightarrow> mosquitto_msg_direction \<Rightarrow> mq_msg_tbl_row_t" where
  "row_of msg d = \<lparr>mid = m_mid msg,
     row_payload = m_payload msg @ replicate (MQTT_MSG_TBL_PRESVD_MAX_PLAYLOAD_LEN + 1 - length (m_payload msg)) 0,
     payload_len = int (length (m_payload msg)),
     topic = m_topic msg @ replicate (MQTT_TOPIC_MAX_LEN + 1 - length (m_topic msg)) 0,
     topic_len = int (length (m_topic msg)), qos = m_qos msg, row_state = m_state msg, dir = d,
     timestamp = m_timestamp msg, dup = m_dup msg, retain = m_retain msg, is_valid = 1\<rparr>"

definition count_msg :: "mosquitto_msg_direction \<Rightarrow> int \<Rightarrow> mq_msg_tbl_presvd_t \<Rightarrow> mq_msg_tbl_presvd_t" where
  "count_msg d n t = (if d = mosq_md_in then t\<lparr>total_rx_msg_cnt := total_rx_msg_cnt t + n\<rparr>
                      else t\<lparr>total_tx_msg_cnt := total_tx_msg_cnt t + n\<rparr>)"

definition put_row :: "nat \<Rightarrow> mq_msg_tbl_row_t \<Rightarrow> mq_msg_tbl_presvd_t \<Rightarrow> mq_msg_tbl_presvd_t" where
  "put_row i r t = t\<lparr>tbl_row := (tbl_row t)[i := r]\<rparr>"

definition mq_msg_tbl_presvd_add ::
    "mq_layout \<Rightarrow> mosquitto_message_all \<Rightarrow> mosquitto_msg_direction \<Rightarrow> mq_table \<Rightarrow> (int \<times> mq_table) option" where
  "mq_msg_tbl_presvd_add L msg d s =
     (if \<not> mq_msg_tbl_presvd_enabled s then Some (MOSQ_ERR_UNKNOWN, s)
      else (case mq_msg_tbl_presvd_find_empty_slot (mqtt_msg_tbl_presvd s) of
              None \<Rightarrow> Some (MOSQ_ERR_NOMEM, s)
            | Some i \<Rightarrow>
                (if length (m_payload msg) > MQTT_MSG_TBL_PRESVD_MAX_PLAYLOAD_LEN then Some (MOSQ_ERR_PAYLOAD_SIZE, s)
                 else if length (m_topic msg) > MQTT_TOPIC_MAX_LEN then None
                 else Some (MOSQ_ERR_SUCCESS, mq_msg_tbl_presvd_sync_to_rtm L
                        (on_tbl (count_msg d 1 \<circ> put_row i (row_of msg d)) s)))))"

definition mq_msg_tbl_presvd_del ::
    "mq_layout \<Rightarrow> mosquitto_message_all \<Rightarrow> mosquitto_msg_direction \<Rightarrow> mq_table \<Rightarrow> int \<times> mq_table" where
  "mq_msg_tbl_presvd_del L msg d s =
     (if \<not> mq_msg_tbl_presvd_enabled s then (MOSQ_ERR_UNKNOWN, s)
      else (let t = mqtt_msg_tbl_presvd s in
            case mq_msg_tbl_presvd_find d (m_mid msg) t of
              None \<Rightarrow> (MOSQ_ERR_NOT_FOUND, s)
            | Some i \<Rightarrow> (MOSQ_ERR_SUCCESS, mq_msg_tbl_presvd_sync_to_rtm L
                        (on_tbl (count_msg d (-1) \<circ> put_row i ((tbl_row t ! i)\<lparr>is_valid := 0\<rparr>)) s))))"

definition mq_msg_tbl_presvd_update ::
    "mq_layout \<Rightarrow> mosquitto_msg_direction \<Rightarrow> u16 \<Rightarrow> mosquitto_msg_state \<Rightarrow> u64 \<Rightarrow> mq_table \<Rightarrow> int \<times> mq_table" where
  "mq_msg_tbl_presvd_update L d m st ts s =
     (if \<not> mq_msg_tbl_presvd_enabled s then (MOSQ_ERR_UNKNOWN, s)
      else (let t = mqtt_msg_tbl_presvd s in
            case mq_msg_tbl_presvd_find d m t of
              None \<Rightarrow> (MOSQ_ERR_NOT_FOUND, s)
            | Some i \<Rightarrow> (MOSQ_ERR_SUCCESS, mq_msg_tbl_presvd_sync_to_rtm L
                        (on_tbl (put_row i ((tbl_row t ! i)\<lparr>row_state := st, timestamp := ts\<rparr>)) s))))"

definition mq_msg_tbl_presvd_update_last_retry_chk :: "u64 \<Rightarrow> mq_table \<Rightarrow> int \<times> mq_table" where
  "mq_msg_tbl_presvd_update_last_retry_chk ts s =
     (if \<not> mq_msg_tbl_presvd_enabled s then (MOSQ_ERR_UNKNOWN, s)
      else (MOSQ_ERR_SUCCESS, on_tbl (\<lambda>t. t\<lparr>last_retry_chk_time := ts\<rparr>) s))"

definition mq_msg_tbl_presvd_update_last_mid :: "mq_layout \<Rightarrow> u16 \<Rightarrow> mq_table \<Rightarrow> int \<times> mq_table" where
  "mq_msg_tbl_presvd_update_last_mid L m s =
     (if \<not> mq_msg_tbl_presvd_enabled s then (MOSQ_ERR_UNKNOWN, s)
      else (MOSQ_ERR_SUCCESS, mq_msg_tbl_presvd_copy_to_rtm L (on_tbl (\<lambda>t. t\<lparr>last_tx_mid_used := m\<rparr>) s)))"

definition mq_msg_tbl_presvd_is_full :: "mq_table \<Rightarrow> bool" where
  "mq_msg_tbl_presvd_is_full s = (mq_msg_tbl_presvd_find_empty_slot (mqtt_msg_tbl_presvd s) = None)"

definition mq_msg_tbl_presvd_modify_row :: "mq_layout \<Rightarrow> int \<Rightarrow> mq_msg_tbl_row_t \<Rightarrow> mq_table \<Rightarrow> mq_table option" where
  "mq_msg_tbl_presvd_modify_row L i r s =
     (if i < 0 \<or> i \<ge> int MQTT_MSG_TBL_PRESVD_MAX_MSG_CNT then None
      else Some (mq_msg_tbl_presvd_sync_to_rtm L (on_tbl (put_row (nat i) r) s)))"

definition mq_msg_tbl_presvd_sync :: "mq_layout \<Rightarrow> mq_table \<Rightarrow> int \<times> mq_table" where
  "mq_msg_tbl_presvd_sync L s =
     (if \<not> mq_msg_tbl_presvd_enabled s then (MOSQ_ERR_UNKNOWN, s) else (1, mq_msg_tbl_presvd_copy_to_rtm L s))"

end
