(* ===== verification/Mqtt_Packet.thy ===== *)
theory Mqtt_Packet
  imports Mqtt_Table "HOL-Library.Monad_Syntax"
begin

text \<open>
  MQTT packets: allocating, writing and sending them (\<^verbatim>\<open>src/core/system/src/mqtt_client/lib/send_mosq.c\<close>, \<^verbatim>\<open>util_mosq.c\<close>), reading their
  fields and taking them off the network (\<^verbatim>\<open>net_mosq.c\<close>), and reading a PUBLISH packet (\<^verbatim>\<open>read_handle.c\<close>). Strings are the bytes
  before their terminating zero. Sums of 32-bit values are reduced where the code compares them. A write outside the packet is \<open>None\<close>. Bytes of
  new memory are arbitrary and an argument.
\<close>

section \<open>Packets\<close>

record mosq_packet =
  pk_command :: u8
  pk_payload :: "u8 list"
  pk_pos :: nat
  pk_remaining_length :: nat
  pk_remaining_count :: int
  pk_remaining_mult :: nat
  pk_packet_length :: nat
  pk_to_process :: nat
  pk_mid :: u16

definition MOSQ_ERR_PROTOCOL :: int where "MOSQ_ERR_PROTOCOL = 2"
definition MOSQ_ERR_CONN_LOST :: int where "MOSQ_ERR_CONN_LOST = 7"
definition MOSQ_ERR_ERRNO :: int where "MOSQ_ERR_ERRNO = 14"

definition CONNECT :: u8 where "CONNECT = 0x10"
definition PUBLISH :: u8 where "PUBLISH = 0x30"
definition PUBACK :: u8 where "PUBACK = 0x40"
definition PUBREC :: u8 where "PUBREC = 0x50"
definition PUBREL :: u8 where "PUBREL = 0x60"
definition PUBCOMP :: u8 where "PUBCOMP = 0x70"
definition SUBSCRIBE :: u8 where "SUBSCRIBE = 0x80"
definition UNSUBSCRIBE :: u8 where "UNSUBSCRIBE = 0xA0"
definition PINGREQ :: u8 where "PINGREQ = 0xC0"
definition PINGRESP :: u8 where "PINGRESP = 0xD0"
definition DISCONNECT :: u8 where "DISCONNECT = 0xE0"

definition MOSQ_MSB :: "u16 \<Rightarrow> u8" where "MOSQ_MSB a = ucast (drop_bit 8 (a AND 0xFF00))"
definition MOSQ_LSB :: "u16 \<Rightarrow> u8" where "MOSQ_LSB a = ucast (a AND 0x00FF)"

text \<open>A packet from \<^verbatim>\<open>_mosquitto_calloc\<close>.\<close>

definition new_packet :: "u8 \<Rightarrow> nat \<Rightarrow> mosq_packet" where
  "new_packet c n = \<lparr>pk_command = c, pk_payload = [], pk_pos = 0, pk_remaining_length = n mod 2 ^ 32, pk_remaining_count = 0,
     pk_remaining_mult = 0, pk_packet_length = 0, pk_to_process = 0, pk_mid = 0\<rparr>"

text \<open>The loop that encodes the remaining length, at most five bytes; \<open>i\<close> of them are written.\<close>

function remaining_bytes :: "nat \<Rightarrow> nat \<Rightarrow> u8 list" where
  "remaining_bytes i remaining_length =
     (let byte = of_nat (remaining_length mod 128); rest = remaining_length div 128;
          byte1 = (if rest > 0 then byte OR 0x80 else byte)
      in if rest > 0 \<and> i + 1 < 5 then byte1 # remaining_bytes (i + 1) rest else [byte1])"
  by auto
termination by (relation "measure (\<lambda>(i, n). 5 - i)") auto

declare remaining_bytes.simps [simp del]

definition mosquitto_packet_alloc :: "bool \<Rightarrow> (nat \<Rightarrow> u8) \<Rightarrow> mosq_packet \<Rightarrow> int + mosq_packet" where
  "mosquitto_packet_alloc mem junk packet =
     (let rb = remaining_bytes 0 (pk_remaining_length packet) in
      if length rb = 5 then Inl MOSQ_ERR_PAYLOAD_SIZE
      else (let n = (pk_remaining_length packet + 1 + length rb) mod 2 ^ 32 in
            if \<not> mem then Inl MOSQ_ERR_NOMEM
            else Inr (packet\<lparr>pk_remaining_count := int (length rb), pk_packet_length := n,
                   pk_payload := (pk_command packet # rb) @ map junk [1 + length rb..<n], pk_pos := 1 + length rb\<rparr>)))"

section \<open>Writing\<close>

definition mosquitto_write_byte :: "u8 \<Rightarrow> mosq_packet \<Rightarrow> mosq_packet option" where
  "mosquitto_write_byte b p =
     (if pk_pos p < length (pk_payload p)
      then Some (p\<lparr>pk_payload := (pk_payload p)[pk_pos p := b], pk_pos := pk_pos p + 1\<rparr>) else None)"

definition mosquitto_write_bytes :: "u8 list \<Rightarrow> mosq_packet \<Rightarrow> mosq_packet option" where
  "mosquitto_write_bytes bs p =
     (if pk_pos p + length bs \<le> length (pk_payload p)
      then Some (p\<lparr>pk_payload := take (pk_pos p) (pk_payload p) @ bs @ drop (pk_pos p + length bs) (pk_payload p),
                   pk_pos := pk_pos p + length bs\<rparr>) else None)"

definition mosquitto_write_uint16 :: "u16 \<Rightarrow> mosq_packet \<Rightarrow> mosq_packet option" where
  "mosquitto_write_uint16 w p = mosquitto_write_byte (MOSQ_MSB w) p \<bind> mosquitto_write_byte (MOSQ_LSB w)"

text \<open>The length is a 16-bit parameter; the bytes copied are as many. A string that is longer is cut.\<close>

definition mosquitto_write_string :: "u8 list \<Rightarrow> mosq_packet \<Rightarrow> mosq_packet option" where
  "mosquitto_write_string str p =
     (let len = length str mod 2 ^ 16 in
      mosquitto_write_uint16 (of_nat len) p \<bind> mosquitto_write_bytes (take len str))"

text \<open>Sending: an error code, or the packet that is queued for the network.\<close>

type_synonym sent = "(int + mosq_packet) option"

text \<open>The packet as it enters the queue of the network task.\<close>

definition queued :: "mosq_packet \<Rightarrow> mosq_packet" where "queued p = p\<lparr>pk_pos := 0, pk_to_process := pk_packet_length p\<rparr>"

definition alloc_then :: "bool \<Rightarrow> bool \<Rightarrow> (nat \<Rightarrow> u8) \<Rightarrow> mosq_packet \<Rightarrow> (mosq_packet \<Rightarrow> mosq_packet option) \<Rightarrow> sent" where
  "alloc_then m1 m2 junk packet write =
     (if \<not> m1 then Some (Inl MOSQ_ERR_NOMEM)
      else case mosquitto_packet_alloc m2 junk packet of
             Inl rc \<Rightarrow> Some (Inl rc)
           | Inr p \<Rightarrow> map_option (\<lambda>p. Inr (queued p)) (write p))"

definition mosquitto_send_command_with_mid ::
    "bool \<Rightarrow> bool \<Rightarrow> (nat \<Rightarrow> u8) \<Rightarrow> u8 \<Rightarrow> u16 \<Rightarrow> bool \<Rightarrow> sent" where
  "mosquitto_send_command_with_mid m1 m2 junk c m d =
     alloc_then m1 m2 junk (new_packet (if d then c OR 8 else c) 2)
       (\<lambda>p. if pk_pos p + 1 < length (pk_payload p)
             then Some (p\<lparr>pk_payload := (pk_payload p)[pk_pos p := MOSQ_MSB m, pk_pos p + 1 := MOSQ_LSB m]\<rparr>) else None)"

definition mosquitto_send_simple_command :: "bool \<Rightarrow> bool \<Rightarrow> (nat \<Rightarrow> u8) \<Rightarrow> u8 \<Rightarrow> sent" where
  "mosquitto_send_simple_command m1 m2 junk c = alloc_then m1 m2 junk (new_packet c 0) Some"

definition mosquitto_send_puback :: "bool \<Rightarrow> bool \<Rightarrow> (nat \<Rightarrow> u8) \<Rightarrow> u16 \<Rightarrow> sent" where
  "mosquitto_send_puback m1 m2 junk m = mosquitto_send_command_with_mid m1 m2 junk PUBACK m False"

definition mosquitto_send_pubcomp :: "bool \<Rightarrow> bool \<Rightarrow> (nat \<Rightarrow> u8) \<Rightarrow> u16 \<Rightarrow> sent" where
  "mosquitto_send_pubcomp m1 m2 junk m = mosquitto_send_command_with_mid m1 m2 junk PUBCOMP m False"

definition mosquitto_send_pubrec :: "bool \<Rightarrow> bool \<Rightarrow> (nat \<Rightarrow> u8) \<Rightarrow> u16 \<Rightarrow> sent" where
  "mosquitto_send_pubrec m1 m2 junk m = mosquitto_send_command_with_mid m1 m2 junk PUBREC m False"

definition mosquitto_send_pubrel :: "bool \<Rightarrow> bool \<Rightarrow> (nat \<Rightarrow> u8) \<Rightarrow> u16 \<Rightarrow> sent" where
  "mosquitto_send_pubrel m1 m2 junk m = mosquitto_send_command_with_mid m1 m2 junk (PUBREL OR 2) m False"

definition mosquitto_send_pingreq :: "bool \<Rightarrow> bool \<Rightarrow> (nat \<Rightarrow> u8) \<Rightarrow> sent" where
  "mosquitto_send_pingreq m1 m2 junk = mosquitto_send_simple_command m1 m2 junk PINGREQ"

definition mosquitto_send_pingresp :: "bool \<Rightarrow> bool \<Rightarrow> (nat \<Rightarrow> u8) \<Rightarrow> sent" where
  "mosquitto_send_pingresp m1 m2 junk = mosquitto_send_simple_command m1 m2 junk PINGRESP"

definition mosquitto_send_disconnect :: "bool \<Rightarrow> bool \<Rightarrow> (nat \<Rightarrow> u8) \<Rightarrow> sent" where
  "mosquitto_send_disconnect m1 m2 junk = mosquitto_send_simple_command m1 m2 junk DISCONNECT"

definition publish_command :: "bool \<Rightarrow> int \<Rightarrow> bool \<Rightarrow> u8" where
  "publish_command d q r = PUBLISH OR push_bit 3 (of_bool d) OR word_of_int (q * 2) OR of_bool r"

definition mosquitto_send_real_publish ::
    "bool \<Rightarrow> bool \<Rightarrow> (nat \<Rightarrow> u8) \<Rightarrow> u16 \<Rightarrow> u8 list \<Rightarrow> u8 list \<Rightarrow> int \<Rightarrow> bool \<Rightarrow> bool \<Rightarrow> sent" where
  "mosquitto_send_real_publish m1 m2 junk m tpc pay q r d =
     alloc_then m1 m2 junk
       ((new_packet (publish_command d q r) (2 + length tpc + length pay + (if q > 0 then 2 else 0)))\<lparr>pk_mid := m\<rparr>)
       (\<lambda>p. do {
          p \<leftarrow> mosquitto_write_string tpc p;
          p \<leftarrow> (if q > 0 then mosquitto_write_uint16 m p else Some p);
          if pay \<noteq> [] then mosquitto_write_bytes pay p else Some p })"

definition mosquitto_send_subscribe ::
    "bool \<Rightarrow> bool \<Rightarrow> (nat \<Rightarrow> u8) \<Rightarrow> u16 \<Rightarrow> u8 list \<Rightarrow> u8 \<Rightarrow> sent" where
  "mosquitto_send_subscribe m1 m2 junk local_mid tpc topic_qos =
     alloc_then m1 m2 junk (new_packet (SUBSCRIBE OR push_bit 1 1) (2 + 2 + length tpc + 1))
       (\<lambda>p. do { p \<leftarrow> mosquitto_write_uint16 local_mid p; p \<leftarrow> mosquitto_write_string tpc p; mosquitto_write_byte topic_qos p })"

definition mosquitto_send_unsubscribe :: "bool \<Rightarrow> bool \<Rightarrow> (nat \<Rightarrow> u8) \<Rightarrow> u16 \<Rightarrow> u8 list \<Rightarrow> sent" where
  "mosquitto_send_unsubscribe m1 m2 junk local_mid tpc =
     alloc_then m1 m2 junk (new_packet (UNSUBSCRIBE OR push_bit 1 1) (2 + 2 + length tpc))
       (\<lambda>p. do { p \<leftarrow> mosquitto_write_uint16 local_mid p; mosquitto_write_string tpc p })"

text \<open>The data of a CONNECT packet; a will has topic, payload, quality of service and the retain flag.\<close>

datatype mosq_protocol = mosq_p_invalid | mosq_p_mqtt31 | mosq_p_mqtt311 | mosq_p_mqtts

record connect_args =
  c_protocol :: mosq_protocol
  c_id :: "u8 list"
  c_will :: "(u8 list \<times> u8 list \<times> int \<times> bool) option"
  c_username :: "u8 list option"
  c_password :: "u8 list option"

definition PROTOCOL_NAME_v31 :: "u8 list" where "PROTOCOL_NAME_v31 = [77, 81, 73, 115, 100, 112]"
definition PROTOCOL_NAME_v311 :: "u8 list" where "PROTOCOL_NAME_v311 = [77, 81, 84, 84]"

definition connect_len :: "connect_args \<Rightarrow> nat" where
  "connect_len a = 2 + length (c_id a) +
     (case c_will a of None \<Rightarrow> 0 | Some (t, p, q, r) \<Rightarrow> 2 + length t + 2 + length p) +
     (case c_username a of None \<Rightarrow> 0
      | Some u \<Rightarrow> 2 + length u + (case c_password a of None \<Rightarrow> 0 | Some w \<Rightarrow> 2 + length w))"

definition connect_flags :: "bool \<Rightarrow> connect_args \<Rightarrow> u8" where
  "connect_flags clean a =
     push_bit 1 (of_bool clean) OR
     (case c_will a of None \<Rightarrow> 0
      | Some (t, p, q, r) \<Rightarrow> push_bit 5 (of_bool r) OR push_bit 3 (word_of_int q AND 3) OR push_bit 2 1) OR
     (case c_username a of None \<Rightarrow> 0
      | Some u \<Rightarrow> push_bit 7 1 OR (if c_password a \<noteq> None then push_bit 6 1 else 0))"

definition write_opt :: "u8 list option \<Rightarrow> mosq_packet \<Rightarrow> mosq_packet option" where
  "write_opt x p = (case x of None \<Rightarrow> Some p | Some s \<Rightarrow> mosquitto_write_string s p)"

definition write_connect :: "u16 \<Rightarrow> bool \<Rightarrow> connect_args \<Rightarrow> u8 \<Rightarrow> mosq_packet \<Rightarrow> mosq_packet option" where
  "write_connect keepalive clean a version p = do {
     p \<leftarrow> mosquitto_write_string (if version = 3 then PROTOCOL_NAME_v31 else PROTOCOL_NAME_v311) p;
     p \<leftarrow> mosquitto_write_byte version p;
     p \<leftarrow> mosquitto_write_byte (connect_flags clean a) p;
     p \<leftarrow> mosquitto_write_uint16 keepalive p;
     p \<leftarrow> mosquitto_write_string (c_id a) p;
     p \<leftarrow> write_opt (map_option fst (c_will a)) p;
     p \<leftarrow> write_opt (map_option (fst \<circ> snd) (c_will a)) p;
     p \<leftarrow> write_opt (c_username a) p;
     write_opt (if c_username a = None then None else c_password a) p }"

text \<open>After a wake-up with a connection that was kept nothing is sent.\<close>

definition mosquitto_send_connect ::
    "bool \<Rightarrow> bool \<Rightarrow> bool \<Rightarrow> (nat \<Rightarrow> u8) \<Rightarrow> u16 \<Rightarrow> bool \<Rightarrow> connect_args \<Rightarrow> sent option" where
  "mosquitto_send_connect kept m1 m2 junk keepalive clean a =
     (if kept then None
      else Some (case c_protocol a of
        mosq_p_mqtt31 \<Rightarrow> alloc_then m1 m2 junk (new_packet CONNECT (12 + connect_len a)) (write_connect keepalive clean a 3)
      | mosq_p_mqtt311 \<Rightarrow> alloc_then m1 m2 junk (new_packet CONNECT (10 + connect_len a)) (write_connect keepalive clean a 4)
      | _ \<Rightarrow> Some (Inl MOSQ_ERR_INVAL)))"

section \<open>Reading\<close>

definition mosquitto_read_byte :: "mosq_packet \<Rightarrow> int + (u8 \<times> mosq_packet)" where
  "mosquitto_read_byte p =
     (if (pk_pos p + 1) mod 2 ^ 32 > pk_remaining_length p then Inl MOSQ_ERR_PROTOCOL
      else Inr (pk_payload p ! pk_pos p, p\<lparr>pk_pos := pk_pos p + 1\<rparr>))"

definition mosquitto_read_bytes :: "nat \<Rightarrow> mosq_packet \<Rightarrow> int + (u8 list \<times> mosq_packet)" where
  "mosquitto_read_bytes n p =
     (if (pk_pos p + n) mod 2 ^ 32 > pk_remaining_length p then Inl MOSQ_ERR_PROTOCOL
      else Inr (take n (drop (pk_pos p) (pk_payload p)), p\<lparr>pk_pos := pk_pos p + n\<rparr>))"

definition mosquitto_read_uint16 :: "mosq_packet \<Rightarrow> int + (u16 \<times> mosq_packet)" where
  "mosquitto_read_uint16 p =
     (if (pk_pos p + 2) mod 2 ^ 32 > pk_remaining_length p then Inl MOSQ_ERR_PROTOCOL
      else Inr (of_nat (unat (pk_payload p ! pk_pos p) * 256 + unat (pk_payload p ! (pk_pos p + 1))),
                p\<lparr>pk_pos := pk_pos p + 2\<rparr>))"

definition mosquitto_read_string :: "bool \<Rightarrow> mosq_packet \<Rightarrow> int + (u8 list \<times> mosq_packet)" where
  "mosquitto_read_string mem p =
     (case mosquitto_read_uint16 p of
        Inl rc \<Rightarrow> Inl rc
      | Inr (len, p) \<Rightarrow>
          (if (pk_pos p + unat len) mod 2 ^ 32 > pk_remaining_length p then Inl MOSQ_ERR_PROTOCOL
           else if \<not> mem then Inl MOSQ_ERR_NOMEM
           else Inr (take (unat len) (drop (pk_pos p) (pk_payload p)), p\<lparr>pk_pos := pk_pos p + unat len\<rparr>)))"

definition MQTT_MSG_MAX_LEN :: "bool \<Rightarrow> int" where
  "MQTT_MSG_MAX_LEN support_atcmd = (if support_atcmd then 1024 * 2 else 1024 * 3)"

text \<open>
  The first part of the handler of PUBLISH packets, up to the switch over the quality of service: the message that was read.
  \<open>mem\<close> are the allocations of the message, its topic and its payload.
\<close>

definition read_publish :: "bool \<Rightarrow> (nat \<Rightarrow> bool) \<Rightarrow> u64 \<Rightarrow> mosq_packet \<Rightarrow> int + mosquitto_message_all" where
  "read_publish atcmd mem now packet =
     (if \<not> mem 0 then Inl MOSQ_ERR_NOMEM
      else (let header = pk_command packet;
                q = uint (drop_bit 1 (header AND 6)) in
        case mosquitto_read_string (mem 1) packet of
          Inl rc \<Rightarrow> Inl rc
        | Inr (tpc, p) \<Rightarrow>
            (if strlen tpc = 0 then Inl MOSQ_ERR_PROTOCOL
             else case (if q > 0 then mosquitto_read_uint16 p else Inr (0, p)) of
               Inl rc \<Rightarrow> Inl rc
             | Inr (m, p) \<Rightarrow>
                 (let payloadlen = int (pk_remaining_length p) - int (pk_pos p) in
                  if payloadlen \<le> MQTT_MSG_MAX_LEN atcmd
                  then (if \<not> mem 2 then Inl MOSQ_ERR_NOMEM
                        else case mosquitto_read_bytes (nat payloadlen) p of
                          Inl rc \<Rightarrow> Inl rc
                        | Inr (pay, p) \<Rightarrow>
                            Inr \<lparr>m_timestamp = now, m_state = mosq_ms_invalid, m_dup = (header AND 8 \<noteq> 0), m_mid = m,
                                 m_topic = takeWhile (\<lambda>c. c \<noteq> 0) tpc, m_payload = pay, m_qos = q, m_retain = (header AND 1 \<noteq> 0)\<rparr>)
                  else Inl MOSQ_ERR_PAYLOAD_SIZE))))"

section \<open>Taking packets off the network\<close>

text \<open>
  What the network has for the client, in order: bytes that arrived together, or a read that fails. The socket is
  closed at the end of the list.
\<close>

datatype net_event = Data "u8 list" | Again | Conn_reset | Net_error

fun net_read :: "nat \<Rightarrow> net_event list \<Rightarrow> (net_event + u8 list) \<times> net_event list" where
  "net_read n [] = (Inr [], [])"
| "net_read n (Data bs # es) = (Inr (take n bs), if n < length bs then Data (drop n bs) # es else es)"
| "net_read n (e # es) = (Inl e, es)"

definition mosquitto_packet_cleanup :: "mosq_packet \<Rightarrow> mosq_packet" where
  "mosquitto_packet_cleanup p = \<lparr>pk_command = 0, pk_payload = [], pk_pos = 0, pk_remaining_length = 0, pk_remaining_count = 0,
     pk_remaining_mult = 1, pk_packet_length = 0, pk_to_process = 0, pk_mid = pk_mid p\<rparr>"

definition header_error :: "net_event + u8 list \<Rightarrow> int" where
  "header_error r = (case r of Inr bs \<Rightarrow> MOSQ_ERR_CONN_LOST | Inl Conn_reset \<Rightarrow> MOSQ_ERR_CONN_LOST | Inl e \<Rightarrow> MOSQ_ERR_ERRNO)"

text \<open>The loop over the bytes of the remaining length; an error leaves the packet as it is.\<close>

function read_remaining :: "mosq_packet \<Rightarrow> net_event list \<Rightarrow> (int + mosq_packet) \<times> mosq_packet \<times> net_event list" where
  "read_remaining p es =
     (case net_read 1 es of
        (Inr [byte], es1) \<Rightarrow>
          (let p1 = p\<lparr>pk_remaining_count := pk_remaining_count p - 1\<rparr> in
           if pk_remaining_count p1 < -4 then (Inl MOSQ_ERR_PROTOCOL, p1, es1)
           else (let p2 = p1\<lparr>pk_remaining_length := (pk_remaining_length p1 + unat (byte AND 127) * pk_remaining_mult p1) mod 2 ^ 32,
                             pk_remaining_mult := pk_remaining_mult p1 * 128 mod 2 ^ 32\<rparr>
                 in if byte AND 128 \<noteq> 0 then read_remaining p2 es1 else (Inr p2, p2, es1)))
      | (r, es1) \<Rightarrow> (Inl (header_error r), p, es1))"
  by auto
termination
  by (relation "measure (\<lambda>(p, es). nat (pk_remaining_count p + 5))") (auto simp del: net_read.simps)

declare read_remaining.simps [simp del]

text \<open>
  The loop over the body; a read without bytes ends it, with the error it stands for or, after \<open>Again\<close>, to be resumed. At the end of the
  connection the error is the one that the last failed call has left, \<open>old\<close>.
\<close>

definition body_error :: "net_event \<Rightarrow> int" where
  "body_error e = (case e of Again \<Rightarrow> MOSQ_ERR_SUCCESS | Conn_reset \<Rightarrow> MOSQ_ERR_CONN_LOST | _ \<Rightarrow> MOSQ_ERR_ERRNO)"

function read_body :: "net_event \<Rightarrow> mosq_packet \<Rightarrow> net_event list \<Rightarrow> int option \<times> mosq_packet \<times> net_event list" where
  "read_body old p es =
     (if pk_to_process p = 0 then (None, p, es)
      else (case net_read (pk_to_process p) es of
        (Inr bs, es1) \<Rightarrow>
          (if bs \<noteq> []
           then read_body old (p\<lparr>pk_payload := take (pk_pos p) (pk_payload p) @ bs @ drop (pk_pos p + length bs) (pk_payload p),
                             pk_to_process := pk_to_process p - length bs, pk_pos := pk_pos p + length bs\<rparr>) es1
           else (Some (body_error old), p, es1))
      | (Inl e, es1) \<Rightarrow> (Some (body_error e), p, es1)))"
  by auto
termination
  by (relation "measure (\<lambda>(old, p, es). pk_to_process p)") (auto split: if_splits)

declare read_body.simps [simp del]

text \<open>
  One call: the packet being read is kept from call to call. The result is the packet to be handled, or the code returned without
  one. \<open>mem\<close> is the allocation of the body, \<open>junk\<close> its first contents.
\<close>

type_synonym read_result = "(int + mosq_packet) \<times> mosq_packet \<times> net_event list"

definition finish_body :: "net_event \<Rightarrow> mosq_packet \<Rightarrow> net_event list \<Rightarrow> read_result" where
  "finish_body old p es =
     (case read_body old p es of
        (Some rc, p1, es1) \<Rightarrow> (Inl rc, p1, es1)
      | (None, p1, es1) \<Rightarrow> (Inr (p1\<lparr>pk_pos := 0\<rparr>), mosquitto_packet_cleanup p1, es1))"

definition read_length :: "net_event \<Rightarrow> bool \<Rightarrow> (nat \<Rightarrow> u8) \<Rightarrow> mosq_packet \<Rightarrow> net_event list \<Rightarrow> read_result" where
  "read_length old mem junk p es =
     (if pk_remaining_count p \<le> 0
      then (case read_remaining p es of
              (Inl rc, p1, es1) \<Rightarrow> (Inl rc, p1, es1)
            | (Inr p0, _, es1) \<Rightarrow>
                (let p1 = p0\<lparr>pk_remaining_count := - pk_remaining_count p0\<rparr> in
                 if pk_remaining_length p1 > 0
                 then (if \<not> mem then (Inl MOSQ_ERR_NOMEM, p1, es1)
                       else finish_body old (p1\<lparr>pk_payload := map junk [0..<pk_remaining_length p1],
                                                 pk_to_process := pk_remaining_length p1\<rparr>) es1)
                 else finish_body old p1 es1))
      else finish_body old p es)"

definition mosquitto_packet_read :: "net_event \<Rightarrow> bool \<Rightarrow> (nat \<Rightarrow> u8) \<Rightarrow> mosq_packet \<Rightarrow> net_event list \<Rightarrow> read_result" where
  "mosquitto_packet_read old mem junk p es =
     (if pk_command p = 0
      then (case net_read 1 es of
              (Inr [byte], es1) \<Rightarrow> read_length old mem junk (p\<lparr>pk_command := byte\<rparr>) es1
            | (r, es1) \<Rightarrow> (Inl (header_error r), p, es1))
      else read_length old mem junk p es)"

end
