(* ===== verification/Mqtt_Session.thy ===== *)
theory Mqtt_Session
  imports Mqtt_Packet
begin

text \<open>
  The session of the MQTT client: identifiers, publishing, the window of messages under way and the handshakes
  (\<^verbatim>\<open>src/core/system/src/mqtt_client/lib/messages_mosq.c\<close>, \<^verbatim>\<open>mosquitto.c\<close>, \<^verbatim>\<open>read_handle.c\<close>, \<^verbatim>\<open>util_mosq.c\<close>), over the packets and the table of
  preserved messages. The mutexes make each operation atomic. Callbacks leave the session alone. Notifications of the AT
  interface, which go with the callbacks, and the test switches of \<open>__MQTT_EMUL_CMD__\<close> are left out.
\<close>

section \<open>State\<close>

text \<open>
  What the session does to the outside, in order: packets put into the queue of the network, callbacks, leave to sleep and its withdrawal, the
  timer of PINGREQ in milliseconds, and notifications of the other modules.
\<close>

datatype effect = Queued mosq_packet | On_message "u8 list" "u8 list" | On_publish u16 | On_connect | On_disconnect | On_subscribe | On_unsubscribe
  | Dpm_sleep | Dpm_clear | Ping_timer int | Broker_state bool | Unsub_status int

record session =
  client :: mosquitto
  table :: mq_table
  pub_msg_id :: int
  trace :: "effect list"
  tx_count :: nat

text \<open>
  The surroundings of a sent packet, by its number: whether the two allocations succeed, the contents of new memory, and the
  code that the network task returns when the packet is in its queue.
\<close>

record tx_env =
  tx_mem1 :: "nat \<Rightarrow> bool"
  tx_mem2 :: "nat \<Rightarrow> bool"
  tx_junk :: "nat \<Rightarrow> nat \<Rightarrow> u8"
  tx_rc :: "nat \<Rightarrow> int"

definition on_client :: "(mosquitto \<Rightarrow> mosquitto) \<Rightarrow> session \<Rightarrow> session" where
  "on_client f s = s\<lparr>client := f (client s)\<rparr>"

definition emit :: "effect \<Rightarrow> session \<Rightarrow> session" where
  "emit e s = s\<lparr>trace := trace s @ [e]\<rparr>"

definition transmit :: "tx_env \<Rightarrow> (bool \<Rightarrow> bool \<Rightarrow> (nat \<Rightarrow> u8) \<Rightarrow> sent) \<Rightarrow> session \<Rightarrow> (int \<times> session) option" where
  "transmit e send s =
     (let k = tx_count s; s1 = s\<lparr>tx_count := k + 1\<rparr> in
      case send (tx_mem1 e k) (tx_mem2 e k) (tx_junk e k) of
        None \<Rightarrow> None
      | Some (Inl rc) \<Rightarrow> Some (rc, s1)
      | Some (Inr p) \<Rightarrow> Some (tx_rc e k, emit (Queued p) s1))"

text \<open>The mark of a callback, which \<^verbatim>\<open>_mosquitto_send_publish\<close> clears, belongs to the network: it is cleared where the packet enters the queue (\<^verbatim>\<open>Mqtt_Link\<close>).\<close>

definition mosquitto_send_publish :: "tx_env \<Rightarrow> mosquitto_message_all \<Rightarrow> session \<Rightarrow> (int \<times> session) option" where
  "mosquitto_send_publish e msg =
     transmit e (\<lambda>m1 m2 junk. mosquitto_send_real_publish m1 m2 junk (m_mid msg) (m_topic msg) (m_payload msg) (m_qos msg)
       (m_retain msg) (m_dup msg))"

section \<open>Identifiers and topics\<close>

definition mosquitto_mid_generate :: "mq_layout \<Rightarrow> bool \<Rightarrow> session \<Rightarrow> u16 \<times> session" where
  "mosquitto_mid_generate L dpm s =
     (let (m, p) = (if dpm
                    then (let p = pub_msg_id s + 1; m = word_of_int p in if m = 0 then (1, 1) else (m, p))
                    else (let m = last_mid (client s) + 1 in (if m = 0 then 1 else m, pub_msg_id s)))
      in (m, (on_client (\<lambda>c. c\<lparr>last_mid := m\<rparr>) s)\<lparr>pub_msg_id := p, table := snd (mq_msg_tbl_presvd_update_last_mid L m (table s))\<rparr>))"

text \<open>Topics are strings, so they end at the first zero; \<open>+\<close>, \<open>#\<close> and \<open>/\<close> are 43, 35 and 47.\<close>

fun pub_topic_loop :: "nat \<Rightarrow> u8 list \<Rightarrow> nat option" where
  "pub_topic_loop len [] = Some len"
| "pub_topic_loop len (c # str) = (if c = 43 \<or> c = 35 then None else pub_topic_loop (len + 1) str)"

definition mosquitto_pub_topic_check :: "u8 list \<Rightarrow> int" where
  "mosquitto_pub_topic_check str =
     (case pub_topic_loop 0 str of
        None \<Rightarrow> MOSQ_ERR_INVAL
      | Some len \<Rightarrow> (if len > 65535 then MOSQ_ERR_INVAL else MOSQ_ERR_SUCCESS))"

text \<open>\<open>c\<close> is the previous character, zero at the start.\<close>

fun sub_topic_loop :: "u8 \<Rightarrow> nat \<Rightarrow> u8 list \<Rightarrow> nat option" where
  "sub_topic_loop c len [] = Some len"
| "sub_topic_loop c len (x # str) =
     (let nxt = (case str of [] \<Rightarrow> 0 | y # ys \<Rightarrow> y) in
      if x = 43 \<and> (c \<noteq> 0 \<and> c \<noteq> 47 \<or> nxt \<noteq> 0 \<and> nxt \<noteq> 47) then None
      else if x = 35 \<and> (c \<noteq> 0 \<and> c \<noteq> 47 \<or> nxt \<noteq> 0) then None
      else sub_topic_loop x (len + 1) str)"

definition mosquitto_sub_topic_check :: "u8 list \<Rightarrow> int" where
  "mosquitto_sub_topic_check str =
     (case sub_topic_loop 0 0 str of
        None \<Rightarrow> MOSQ_ERR_INVAL
      | Some len \<Rightarrow> (if len > 65535 then MOSQ_ERR_INVAL else MOSQ_ERR_SUCCESS))"

definition MQTT_MAX_PAYLOAD :: nat where "MQTT_MAX_PAYLOAD = 268435455"

section \<open>The queues of messages\<close>

text \<open>The search for an identifier: the message that is found and the queue without it.\<close>

fun take_mid :: "u16 \<Rightarrow> mosquitto_message_all list \<Rightarrow> (mosquitto_message_all \<times> mosquitto_message_all list) option" where
  "take_mid m [] = None"
| "take_mid m (x # xs) = (if m_mid x = m then Some (x, xs) else map_option (\<lambda>(y, ys). (y, x # ys)) (take_mid m xs))"

definition window_open :: "mosquitto \<Rightarrow> bool" where
  "window_open c \<longleftrightarrow> max_inflight_messages c = 0 \<or> inflight_messages c < max_inflight_messages c"

text \<open>The loop that sends waiting messages while there is room in the window: its result, the messages afterwards and the session.\<close>

fun promote :: "tx_env \<Rightarrow> mosquitto_message_all list \<Rightarrow> session \<Rightarrow> (int \<times> mosquitto_message_all list \<times> session) option" where
  "promote e [] s = Some (MOSQ_ERR_SUCCESS, [], s)"
| "promote e (cur # ms) s =
     (if window_open (client s)
      then if m_qos cur > 0 \<and> m_state cur = mosq_ms_invalid
           then (let cur1 = cur\<lparr>m_state := (if m_qos cur = 1 then mosq_ms_wait_for_puback
                                           else if m_qos cur = 2 then mosq_ms_wait_for_pubrec else m_state cur)\<rparr> in
                 case mosquitto_send_publish e cur1 (on_client (\<lambda>c. c\<lparr>inflight_messages := inflight_messages c + 1\<rparr>) s) of
                   None \<Rightarrow> None
                 | Some (rc, s1) \<Rightarrow>
                     (if rc \<noteq> 0 then Some (rc, cur1 # ms, s1)
                      else map_option (\<lambda>(rc, ms1, s2). (rc, cur1 # ms1, s2)) (promote e ms s1)))
           else map_option (\<lambda>(rc, ms1, s1). (rc, cur # ms1, s1)) (promote e ms s)
      else Some (MOSQ_ERR_SUCCESS, cur # ms, s))"

definition mosquitto_message_remove ::
    "tx_env \<Rightarrow> u16 \<Rightarrow> mosquitto_msg_direction \<Rightarrow> session \<Rightarrow> (int \<times> mosquitto_message_all option \<times> session) option" where
  "mosquitto_message_remove e m d s =
     (case d of
        mosq_md_out \<Rightarrow>
          (case take_mid m (out_messages (client s)) of
             None \<Rightarrow> Some (MOSQ_ERR_NOT_FOUND, None, s)
           | Some (cur, ms) \<Rightarrow>
               map_option (\<lambda>(rc, ms1, s1). (rc, Some cur, on_client (\<lambda>c. c\<lparr>out_messages := ms1\<rparr>) s1))
                 (promote e ms (on_client (\<lambda>c. c\<lparr>out_messages := ms, out_queue_len := out_queue_len c - 1,
                    inflight_messages := (if m_qos cur > 0 then inflight_messages c - 1 else inflight_messages c)\<rparr>) s)))
      | mosq_md_in \<Rightarrow>
          (case take_mid m (in_messages (client s)) of
             None \<Rightarrow> Some (MOSQ_ERR_NOT_FOUND, None, s)
           | Some (cur, ms) \<Rightarrow>
               Some (MOSQ_ERR_SUCCESS, Some cur, on_client (\<lambda>c. c\<lparr>in_messages := ms, in_queue_len := in_queue_len c - 1\<rparr>) s)))"

definition table_del :: "mq_layout \<Rightarrow> mosquitto_message_all \<Rightarrow> mosquitto_msg_direction \<Rightarrow> session \<Rightarrow> session" where
  "table_del L msg d s = s\<lparr>table := snd (mq_msg_tbl_presvd_del L msg d (table s))\<rparr>"

definition table_add :: "mq_layout \<Rightarrow> mosquitto_message_all \<Rightarrow> mosquitto_msg_direction \<Rightarrow> session \<Rightarrow> session option" where
  "table_add L msg d s = map_option (\<lambda>(rc, t). s\<lparr>table := t\<rparr>) (mq_msg_tbl_presvd_add L msg d (table s))"

definition mosquitto_message_delete :: "mq_layout \<Rightarrow> tx_env \<Rightarrow> u16 \<Rightarrow> mosquitto_msg_direction \<Rightarrow> session \<Rightarrow> (int \<times> session) option" where
  "mosquitto_message_delete L e m d s =
     (case mosquitto_message_remove e m d s of
        None \<Rightarrow> None
      | Some (rc, msg, s1) \<Rightarrow> Some (rc, if rc = MOSQ_ERR_SUCCESS then table_del L (the msg) d s1 else s1))"

definition mosquitto_message_search_mid_in_rx_queue :: "u16 \<Rightarrow> session \<Rightarrow> int" where
  "mosquitto_message_search_mid_in_rx_queue m s =
     (if \<exists>x \<in> set (in_messages (client s)). m_mid x = m then MOSQ_ERR_SUCCESS else MOSQ_ERR_NOT_FOUND)"

fun update_mid :: "u16 \<Rightarrow> mosquitto_msg_state \<Rightarrow> u64 \<Rightarrow> mosquitto_message_all list \<Rightarrow> mosquitto_message_all list option" where
  "update_mid m st now [] = None"
| "update_mid m st now (x # xs) =
     (if m_mid x = m then Some (x\<lparr>m_state := st, m_timestamp := now\<rparr> # xs) else map_option (Cons x) (update_mid m st now xs))"

definition mosquitto_message_out_update :: "mq_layout \<Rightarrow> u16 \<Rightarrow> mosquitto_msg_state \<Rightarrow> u64 \<Rightarrow> session \<Rightarrow> int \<times> session" where
  "mosquitto_message_out_update L m st now s =
     (case update_mid m st now (out_messages (client s)) of
        None \<Rightarrow> (MOSQ_ERR_NOT_FOUND, s)
      | Some ms \<Rightarrow> (MOSQ_ERR_SUCCESS, (on_client (\<lambda>c. c\<lparr>out_messages := ms\<rparr>) s)
          \<lparr>table := snd (mq_msg_tbl_presvd_update L mosq_md_out m st now (table s))\<rparr>))"

section \<open>After a new connection and after a time\<close>

text \<open>
  The loop over the received messages: those that are done are \<open>kept\<close>, \<open>n\<close> are counted. After the removal of the first message the
  next one is passed over; without a next one the null pointer is followed.
\<close>

fun reset_in :: "mosquitto_message_all list \<Rightarrow> mosquitto_message_all list \<Rightarrow> int \<Rightarrow> (mosquitto_message_all list \<times> int) option" where
  "reset_in kept [] n = Some (kept, n)"
| "reset_in kept (x # xs) n =
     (if m_qos x \<noteq> 2
      then if kept \<noteq> [] then reset_in kept xs (n + 1)
           else (case xs of [] \<Rightarrow> None | y # ys \<Rightarrow> reset_in [y] ys (n + 1))
      else reset_in (kept @ [x\<lparr>m_timestamp := 0\<rparr>]) xs (n + 1))"

fun reset_out :: "int \<Rightarrow> mosquitto_message_all list \<Rightarrow> int \<Rightarrow> mosquitto_message_all list \<times> int" where
  "reset_out mx [] n = ([], n)"
| "reset_out mx (x # xs) n =
     (let x0 = x\<lparr>m_timestamp := 0\<rparr>;
          (x1, n1) = (if mx = 0 \<or> n < mx
                      then (if m_qos x = 1 then x0\<lparr>m_state := mosq_ms_wait_for_puback\<rparr> else x0, if m_qos x > 0 then n + 1 else n)
                      else (x0\<lparr>m_state := mosq_ms_invalid\<rparr>, n));
          (xs1, n2) = reset_out mx xs n1
      in (x1 # xs1, n2))"

definition mosquitto_messages_reconnect_reset :: "session \<Rightarrow> session option" where
  "mosquitto_messages_reconnect_reset s =
     (let c = client s in
      case reset_in [] (in_messages c) 0 of
        None \<Rightarrow> None
      | Some (ins, n) \<Rightarrow>
          (let (outs, k) = reset_out (max_inflight_messages c) (out_messages c) 0 in
           Some (s\<lparr>client := c\<lparr>in_messages := ins, in_queue_len := n, out_messages := outs, inflight_messages := k,
                                out_queue_len := int (length outs)\<rparr>\<rparr>)))"

definition retry_send :: "tx_env \<Rightarrow> mosquitto_message_all \<Rightarrow> session \<Rightarrow> (int \<times> session) option" where
  "retry_send e x s =
     (if m_state x = mosq_ms_wait_for_puback \<or> m_state x = mosq_ms_wait_for_pubrec then mosquitto_send_publish e x s
      else if m_state x = mosq_ms_wait_for_pubrel then transmit e (\<lambda>m1 m2 junk. mosquitto_send_pubrec m1 m2 junk (m_mid x)) s
      else transmit e (\<lambda>m1 m2 junk. mosquitto_send_pubrel m1 m2 junk (m_mid x)) s)"

fun retry_check_actual :: "tx_env \<Rightarrow> u64 \<Rightarrow> u32 \<Rightarrow> mosquitto_message_all list \<Rightarrow> session \<Rightarrow> (mosquitto_message_all list \<times> session) option" where
  "retry_check_actual e now retry [] s = Some ([], s)"
| "retry_check_actual e now retry (x # xs) s =
     (if m_timestamp x + ucast retry < now \<and>
         m_state x \<in> {mosq_ms_wait_for_puback, mosq_ms_wait_for_pubrec, mosq_ms_wait_for_pubrel, mosq_ms_wait_for_pubcomp}
      then (let x1 = x\<lparr>m_timestamp := now, m_dup := True\<rparr> in
            case retry_send e x1 s of
              None \<Rightarrow> None
            | Some (rc, s1) \<Rightarrow> map_option (\<lambda>(ys, s2). (x1 # ys, s2)) (retry_check_actual e now retry xs s1))
      else map_option (\<lambda>(ys, s1). (x # ys, s1)) (retry_check_actual e now retry xs s))"

definition mosquitto_message_retry_check :: "tx_env \<Rightarrow> u64 \<Rightarrow> session \<Rightarrow> session option" where
  "mosquitto_message_retry_check e now s =
     (case retry_check_actual e now (message_retry (client s)) (out_messages (client s)) s of
        None \<Rightarrow> None
      | Some (outs, s1) \<Rightarrow>
          (let s2 = on_client (\<lambda>c. c\<lparr>out_messages := outs\<rparr>) s1 in
           map_option (\<lambda>(ins, s3). on_client (\<lambda>c. c\<lparr>in_messages := ins\<rparr>) s3)
             (retry_check_actual e now (message_retry (client s2)) (in_messages (client s2)) s2)))"

text \<open>The part of \<^verbatim>\<open>mosquitto_loop_misc\<close> that sends again.\<close>

definition loop_misc_retry :: "tx_env \<Rightarrow> u64 \<Rightarrow> session \<Rightarrow> session option" where
  "loop_misc_retry e now s =
     (if last_retry_check (client s) + 1 < now
      then map_option (\<lambda>s1. (on_client (\<lambda>c. c\<lparr>last_retry_check := now\<rparr>) s1)
                          \<lparr>table := snd (mq_msg_tbl_presvd_update_last_retry_chk now (table s1))\<rparr>)
             (mosquitto_message_retry_check e now s)
      else Some s)"

section \<open>Publishing and the handlers\<close>

text \<open>
  A message with its identifier, not sent yet: it is sent at once, or queued and sent when there is room. \<open>mem\<close> are the allocations of the
  message, its topic and its payload.
\<close>

definition publish_message ::
    "mq_layout \<Rightarrow> tx_env \<Rightarrow> (nat \<Rightarrow> bool) \<Rightarrow> mosquitto_message_all \<Rightarrow> session \<Rightarrow> (int \<times> session) option" where
  "publish_message L e mem msg s =
     (if m_qos msg = 0 then mosquitto_send_publish e msg s
      else if \<not> mem 0 then Some (MOSQ_ERR_NOMEM, s)
      else if \<not> mem 1 then Some (MOSQ_ERR_NOMEM, s)
      else if m_payload msg \<noteq> [] \<and> \<not> mem 2 then Some (MOSQ_ERR_NOMEM, s)
      else (let msg1 = msg\<lparr>m_state := (if m_qos msg = 1 then mosq_ms_wait_for_puback else mosq_ms_wait_for_pubrec)\<rparr> in
            if fst (mosquitto_message_queue msg mosq_md_out (client s)) = 0
            then (case table_add L msg1 mosq_md_out (on_client (\<lambda>c. snd (mosquitto_message_queue msg1 mosq_md_out c)) s) of
                    None \<Rightarrow> None
                  | Some s1 \<Rightarrow> mosquitto_send_publish e msg1 s1)
            else Some (MOSQ_ERR_SUCCESS, on_client (\<lambda>c. snd (mosquitto_message_queue msg mosq_md_out c)) s)))"

text \<open>The result has the code and the identifier.\<close>

definition mosquitto_publish ::
    "mq_layout \<Rightarrow> tx_env \<Rightarrow> bool \<Rightarrow> (nat \<Rightarrow> bool) \<Rightarrow> u64 \<Rightarrow> u8 list option \<Rightarrow> u8 list \<Rightarrow> int \<Rightarrow> bool \<Rightarrow> session \<Rightarrow>
       (int \<times> u16 option \<times> session) option" where
  "mosquitto_publish L e dpm mem now tpc pay q r s =
     (case tpc of None \<Rightarrow> Some (MOSQ_ERR_INVAL, None, s) | Some t \<Rightarrow>
      if q < 0 \<or> q > 2 then Some (MOSQ_ERR_INVAL, None, s)
      else if t = [] then Some (MOSQ_ERR_INVAL, None, s)
      else if length pay > MQTT_MAX_PAYLOAD then Some (MOSQ_ERR_PAYLOAD_SIZE, None, s)
      else if mosquitto_pub_topic_check t \<noteq> MOSQ_ERR_SUCCESS then Some (MOSQ_ERR_INVAL, None, s)
      else (let (m, s1) = mosquitto_mid_generate L dpm s in
            map_option (\<lambda>(rc, s2). (rc, Some m, s2))
              (publish_message L e mem
                 \<lparr>m_timestamp = now, m_state = mosq_ms_invalid, m_dup = False, m_mid = m, m_topic = t, m_payload = pay,
                  m_qos = q, m_retain = r\<rparr> s1)))"

definition mosquitto_handle_pubackcomp :: "mq_layout \<Rightarrow> tx_env \<Rightarrow> mosq_packet \<Rightarrow> session \<Rightarrow> (int \<times> session) option" where
  "mosquitto_handle_pubackcomp L e packet s =
     (case mosquitto_read_uint16 packet of
        Inl rc \<Rightarrow> Some (rc, s)
      | Inr (m, _) \<Rightarrow>
          map_option (\<lambda>(rc, s1).
              let s2 = (if rc = 0 then emit (On_publish m) s1 else s1) in
              (MOSQ_ERR_SUCCESS, if q2_proc (client s2) \<noteq> 1 then emit Dpm_sleep s2 else s2))
            (mosquitto_message_delete L e m mosq_md_out s))"

definition mosquitto_handle_pubrec :: "mq_layout \<Rightarrow> tx_env \<Rightarrow> u64 \<Rightarrow> mosq_packet \<Rightarrow> session \<Rightarrow> (int \<times> session) option" where
  "mosquitto_handle_pubrec L e now packet s =
     (case mosquitto_read_uint16 packet of
        Inl rc \<Rightarrow> Some (rc, s)
      | Inr (m, _) \<Rightarrow>
          (let (rc, s1) = mosquitto_message_out_update L m mosq_ms_wait_for_pubcomp now s in
           if rc \<noteq> MOSQ_ERR_NOT_FOUND \<and> rc \<noteq> MOSQ_ERR_SUCCESS then Some (rc, s1)
           else transmit e (\<lambda>m1 m2 junk. mosquitto_send_pubrel m1 m2 junk m) s1))"

definition mosquitto_handle_pubrel :: "mq_layout \<Rightarrow> tx_env \<Rightarrow> mosq_protocol \<Rightarrow> mosq_packet \<Rightarrow> session \<Rightarrow> (int \<times> session) option" where
  "mosquitto_handle_pubrel L e protocol packet s =
     (if protocol = mosq_p_mqtt311 \<and> pk_command packet AND 0x0F \<noteq> 0x02 then Some (MOSQ_ERR_PROTOCOL, s)
      else case mosquitto_read_uint16 packet of
        Inl rc \<Rightarrow> Some (rc, s)
      | Inr (m, _) \<Rightarrow>
          (case transmit e (\<lambda>m1 m2 junk. mosquitto_send_pubcomp m1 m2 junk m) s of
             None \<Rightarrow> None
           | Some (rc, s1) \<Rightarrow>
               map_option (\<lambda>(rc2, msg, s2).
                   let s3 = (if rc2 = 0 then table_del L (the msg) mosq_md_in
                               (emit (On_message (m_payload (the msg)) (m_topic (the msg))) s2) else s2) in
                   (rc, on_client (\<lambda>c. c\<lparr>q2_proc := 0\<rparr>) (emit Dpm_sleep s3)))
                 (mosquitto_message_remove e m mosq_md_in s1)))"

text \<open>A received message with the quality of service 2: an older one with its identifier is replaced.\<close>

definition queue_received :: "mq_layout \<Rightarrow> tx_env \<Rightarrow> mosquitto_message_all \<Rightarrow> session \<Rightarrow> session option" where
  "queue_received L e msg s =
     (let s1 = on_client (\<lambda>c. c\<lparr>q2_proc := 1\<rparr>) s in
      case (if mosquitto_message_search_mid_in_rx_queue (m_mid msg) s1 = MOSQ_ERR_SUCCESS
            then map_option (\<lambda>(rc, old, s2). table_del L msg mosq_md_in s2) (mosquitto_message_remove e (m_mid msg) mosq_md_in s1)
            else Some s1) of
        None \<Rightarrow> None
      | Some s2 \<Rightarrow> table_add L msg mosq_md_in (on_client (\<lambda>c. snd (mosquitto_message_queue msg mosq_md_in c)) s2))"

definition mosquitto_handle_publish ::
    "mq_layout \<Rightarrow> tx_env \<Rightarrow> bool \<Rightarrow> (nat \<Rightarrow> bool) \<Rightarrow> u64 \<Rightarrow> mosq_packet \<Rightarrow> session \<Rightarrow> (int \<times> session) option" where
  "mosquitto_handle_publish L e atcmd mem now packet s =
     (case read_publish atcmd mem now packet of
        Inl rc \<Rightarrow> Some (rc, s)
      | Inr msg \<Rightarrow>
          (if m_qos msg = 0
           then Some (MOSQ_ERR_SUCCESS, emit Dpm_sleep (emit (On_message (m_payload msg) (m_topic msg)) s))
           else if m_qos msg = 1
           then map_option (\<lambda>(rc, s1). (rc, emit Dpm_sleep (emit (On_message (m_payload msg) (m_topic msg)) s1)))
                  (transmit e (\<lambda>m1 m2 junk. mosquitto_send_puback m1 m2 junk (m_mid msg)) s)
           else if m_qos msg = 2
           then (case transmit e (\<lambda>m1 m2 junk. mosquitto_send_pubrec m1 m2 junk (m_mid msg)) s of
                   None \<Rightarrow> None
                 | Some (rc, s1) \<Rightarrow>
                     map_option (\<lambda>s2. (rc, s2)) (queue_received L e (msg\<lparr>m_state := mosq_ms_wait_for_pubrel\<rparr>) s1))
           else Some (MOSQ_ERR_PROTOCOL, s)))"

definition mosquitto_handle_pingreq :: "tx_env \<Rightarrow> session \<Rightarrow> (int \<times> session) option" where
  "mosquitto_handle_pingreq e = transmit e mosquitto_send_pingresp"

end
