(* ===== verification/Mqtt_Packet_Props.thy ===== *)
theory Mqtt_Packet_Props
  imports Mqtt_Packet
begin

text \<open>
  The properties of MQTT packets: every packet that is sent is written completely and nothing is written outside it; a packet that is sent is
  read back, however the network cuts it into pieces.
\<close>

section \<open>Numbers in packets\<close>

lemma unat_MSB_LSB: "unat (MOSQ_MSB w) = unat w div 256" "unat (MOSQ_LSB w) = unat w mod 256"
proof -
  have w: "unat w < 65536" using unsigned_less[of w, where ?'a = nat] by simp
  have "drop_bit 8 (w AND 0xFF00) = drop_bit 8 w AND mask 8" by (simp add: drop_bit_and mask_eq_exp_minus_1)
  then have "drop_bit 8 (w AND 0xFF00) = take_bit 8 (drop_bit 8 w)" by (simp only: take_bit_eq_mask)
  then show "unat (MOSQ_MSB w) = unat w div 256"
    using w unfolding MOSQ_MSB_def by (simp add: unsigned_ucast_eq unsigned_take_bit_eq unsigned_drop_bit_eq take_bit_drop_bit
        take_bit_nat_eq_self) (simp add: drop_bit_eq_div)
  have "w AND 0xFF = take_bit 8 w" by (simp add: take_bit_eq_mask mask_eq_exp_minus_1)
  then show "unat (MOSQ_LSB w) = unat w mod 256"
    by (simp add: MOSQ_LSB_def unsigned_ucast_eq unsigned_take_bit_eq) (simp add: take_bit_eq_mod)
qed

lemma MSB_LSB: "of_nat (unat (MOSQ_MSB w) * 256 + unat (MOSQ_LSB w)) = w"
  unfolding unat_MSB_LSB using div_mult_mod_eq[of "unat w" 256] by simp

lemma len_byte:
  assumes "k < 128"
  shows "(of_nat k OR 0x80 :: u8) AND 127 = of_nat k" "(of_nat k OR 0x80 :: u8) AND 128 \<noteq> 0"
    "(of_nat k :: u8) AND 127 = of_nat k" "(of_nat k :: u8) AND 128 = 0" "unat (of_nat k :: u8) = k"
proof -
  show u: "unat (of_nat k :: u8) = k" using assms by (simp add: unsigned_of_nat take_bit_nat_eq_self)
  have m: "(127 :: u8) = mask 7" "(128 :: u8) = push_bit 7 1" by (simp_all add: mask_eq_exp_minus_1)
  have t: "take_bit 7 (of_nat k :: u8) = of_nat k"
    using assms u by (intro word_unat_eq_iff[THEN iffD2]) (simp add: unsigned_take_bit_eq take_bit_nat_eq_self)
  show a: "(of_nat k :: u8) AND 127 = of_nat k" unfolding m take_bit_eq_mask[symmetric] by (rule t)
  show b: "(of_nat k :: u8) AND 128 = 0"
    using arg_cong[OF a, of "\<lambda>x. x AND 128"] by (simp add: and.assoc)
  show "(of_nat k OR 0x80 :: u8) AND 127 = of_nat k" by (simp add: bit.conj_disj_distrib2 a)
  show "(of_nat k OR 0x80 :: u8) AND 128 \<noteq> 0" by (simp add: bit.conj_disj_distrib2 b)
qed

section \<open>Writing\<close>

text \<open>A packet whose bytes \<open>w\<close> are written and whose bytes \<open>r\<close> are not.\<close>

definition filled :: "u8 list \<Rightarrow> u8 list \<Rightarrow> mosq_packet \<Rightarrow> mosq_packet" where
  "filled w r p = p\<lparr>pk_payload := w @ r, pk_pos := length w\<rparr>"

named_theorems write_simps "writing into a packet"

lemma write_byte_filled [write_simps]:
  "0 < length r \<Longrightarrow> mosquitto_write_byte b (filled w r p) = Some (filled (w @ [b]) (drop 1 r) p)"
  by (cases r) (simp_all add: mosquitto_write_byte_def filled_def)

lemma write_bytes_filled [write_simps]:
  "length bs \<le> length r \<Longrightarrow> mosquitto_write_bytes bs (filled w r p) = Some (filled (w @ bs) (drop (length bs) r) p)"
  by (simp add: mosquitto_write_bytes_def filled_def)

definition be16 :: "u16 \<Rightarrow> u8 list" where "be16 w = [MOSQ_MSB w, MOSQ_LSB w]"

definition str16 :: "u8 list \<Rightarrow> u8 list" where "str16 s = be16 (of_nat (length s)) @ s"

lemma length_be16 [simp]: "length (be16 w) = 2" "length (str16 s) = 2 + length s"
  by (simp_all add: be16_def str16_def)

lemma write_uint16_filled [write_simps]:
  "2 \<le> length r \<Longrightarrow> mosquitto_write_uint16 m (filled w r p) = Some (filled (w @ be16 m) (drop 2 r) p)"
  by (cases r; cases "tl r") (simp_all add: mosquitto_write_uint16_def write_simps be16_def)

lemma write_string_filled [write_simps]:
  "2 + length s \<le> length r \<Longrightarrow> length s < 65536 \<Longrightarrow>
     mosquitto_write_string s (filled w r p) = Some (filled (w @ str16 s) (drop (2 + length s) r) p)"
  by (simp add: mosquitto_write_string_def write_simps str16_def add.commute Let_def)

lemma remaining_bytes_small:
  "i < 4 \<Longrightarrow> n < 128 ^ (4 - i) \<Longrightarrow> length (remaining_bytes i n) \<le> 4 - i"
proof (induction i n rule: remaining_bytes.induct)
  case (1 i n)
  show ?case
  proof (cases "n div 128 > 0 \<and> i + 1 < 5")
    case True
    then have i: "i < 3" using 1(2,3) by (cases "i = 3") auto
    have e: "(4 :: nat) - i = Suc (4 - (i + 1))" using i by simp
    have "n div 128 < 128 ^ (4 - (i + 1))" using 1(3) unfolding e by (simp add: less_mult_imp_div_less mult.commute)
    then have "length (remaining_bytes (i + 1) (n div 128)) \<le> 4 - (i + 1)" using 1(1)[OF refl refl refl True] i by simp
    then show ?thesis using True i by (subst remaining_bytes.simps) (simp add: Let_def)
  next
    case False
    then show ?thesis using 1(2) by (subst remaining_bytes.simps) (auto simp: Let_def)
  qed
qed

abbreviation MAX_REMAINING :: nat where "MAX_REMAINING \<equiv> 268435456"

definition packet_head :: "u8 \<Rightarrow> nat \<Rightarrow> u8 list" where "packet_head c n = c # remaining_bytes 0 n"

text \<open>The packet with the body \<open>b\<close>; \<open>k\<close> is the identifier that is reported when it has been written.\<close>

definition packet_for :: "u16 \<Rightarrow> u8 \<Rightarrow> u8 list \<Rightarrow> mosq_packet" where
  "packet_for k c b = (let h = packet_head c (length b) in
     \<lparr>pk_command = c, pk_payload = h @ b, pk_pos = 0, pk_remaining_length = length b,
      pk_remaining_count = int (length h) - 1, pk_remaining_mult = 0, pk_packet_length = length h + length b, pk_to_process = length h + length b,
      pk_mid = k\<rparr>)"

lemma remaining_bytes_large:
  "i \<le> 4 \<Longrightarrow> 128 ^ (4 - i) \<le> n \<Longrightarrow> length (remaining_bytes i n) = 5 - i"
proof (induction i n rule: remaining_bytes.induct)
  case (1 i n)
  show ?case
  proof (cases "i = 4")
    case True
    then show ?thesis by (subst remaining_bytes.simps) (simp add: Let_def)
  next
    case False
    then have i: "i < 4" using 1(2) by simp
    have e: "(4 :: nat) - i = Suc (4 - (i + 1))" using i by simp
    have k: "128 ^ (4 - (i + 1)) \<le> n div 128" using 1(3) unfolding e by (simp add: less_eq_div_iff_mult_less_eq mult.commute)
    moreover have "(1 :: nat) \<le> 128 ^ (4 - (i + 1))" by (rule one_le_power) simp
    ultimately have c: "n div 128 > 0 \<and> i + 1 < 5" using i by linarith
    have "length (remaining_bytes (i + 1) (n div 128)) = 5 - (i + 1)" using 1(1)[OF refl refl refl c _ k] i by simp
    then show ?thesis using c i by (subst remaining_bytes.simps) (simp add: Let_def)
  qed
qed

text \<open>What a call that sends a packet returns: the code of a failed allocation, of a body that no length can be written for, or the packet.\<close>

definition sending :: "u16 \<Rightarrow> bool \<Rightarrow> bool \<Rightarrow> u8 \<Rightarrow> u8 list \<Rightarrow> sent" where
  "sending k m1 m2 c b = Some
     (if \<not> m1 then Inl MOSQ_ERR_NOMEM
      else if length b \<ge> MAX_REMAINING then Inl MOSQ_ERR_PAYLOAD_SIZE
      else if \<not> m2 then Inl MOSQ_ERR_NOMEM else Inr (packet_for k c b))"

lemma new_packet_mid: "(new_packet c n)\<lparr>pk_mid := 0\<rparr> = new_packet c n" by (simp add: new_packet_def)

lemma alloc_then_mid:
  assumes b: "length b = n" and n: "n < 2 ^ 32"
    and w: "\<And>r p. length r = n \<Longrightarrow>
      map_option queued (write (filled (packet_head c n) r p)) = Some (queued (filled (packet_head c n @ b) [] p))"
  shows "alloc_then m1 m2 junk ((new_packet c n)\<lparr>pk_mid := k\<rparr>) write = sending k m1 m2 c b"
proof -
  let ?rb = "remaining_bytes 0 n"
  have h: "length (packet_head c n) = 1 + length ?rb" by (simp add: packet_head_def)
  have rl: "pk_remaining_length ((new_packet c n)\<lparr>pk_mid := k\<rparr>) = n" using n by (simp add: new_packet_def)
  show ?thesis
  proof (cases "n < MAX_REMAINING")
    case False
    then have "length ?rb = 5" using remaining_bytes_large[of 0 n] by simp
    then have "mosquitto_packet_alloc m2 junk ((new_packet c n)\<lparr>pk_mid := k\<rparr>) = Inl MOSQ_ERR_PAYLOAD_SIZE"
      by (simp add: mosquitto_packet_alloc_def rl)
    then show ?thesis using False b by (simp add: alloc_then_def sending_def)
  next
    case True
    have l: "length ?rb \<le> 4" using remaining_bytes_small[of 0 n] True by simp
    let ?p = "(new_packet c n)\<lparr>pk_mid := k, pk_remaining_count := int (length ?rb), pk_packet_length := n + 1 + length ?rb\<rparr>"
    have "mosquitto_packet_alloc m2 junk ((new_packet c n)\<lparr>pk_mid := k\<rparr>) =
        (if \<not> m2 then Inl MOSQ_ERR_NOMEM
         else Inr (filled (packet_head c n) (map junk [1 + length ?rb..<n + 1 + length ?rb]) ?p))"
      using l True by (simp add: mosquitto_packet_alloc_def new_packet_def filled_def packet_head_def Let_def)
    moreover have "queued (filled (packet_head c n @ b) [] ?p) = packet_for k c b"
      using True b by (simp add: queued_def filled_def packet_for_def new_packet_def h Let_def)
    ultimately show ?thesis using True b w[of "map junk [1 + length ?rb..<n + 1 + length ?rb]" ?p]
      by (auto simp: alloc_then_def sending_def)
  qed
qed

lemmas alloc_then_spec = alloc_then_mid[where k = 0, unfolded new_packet_mid]

section \<open>The packets that are sent\<close>

lemma send_simple: "mosquitto_send_simple_command m1 m2 junk c = sending 0 m1 m2 c []"
  unfolding mosquitto_send_simple_command_def by (rule alloc_then_spec) simp_all

lemma send_with_mid:
  "mosquitto_send_command_with_mid m1 m2 junk c m d = sending 0 m1 m2 (if d then c OR 8 else c) (be16 m)"
  unfolding mosquitto_send_command_with_mid_def
proof (rule alloc_then_spec)
  fix r :: "u8 list" and p and c'
  assume "length r = 2"
  then obtain x y where "r = [x, y]" using length_2_conv[of r] by auto
  then show "map_option queued (if pk_pos (filled (packet_head c' 2) r p) + 1 < length (pk_payload (filled (packet_head c' 2) r p))
      then Some ((filled (packet_head c' 2) r p)\<lparr>pk_payload := (pk_payload (filled (packet_head c' 2) r p))
        [pk_pos (filled (packet_head c' 2) r p) := MOSQ_MSB m, pk_pos (filled (packet_head c' 2) r p) + 1 := MOSQ_LSB m]\<rparr>)
      else None) = Some (queued (filled (packet_head c' 2 @ be16 m) [] p))"
    by (simp add: filled_def be16_def queued_def list_update_append)
qed simp_all

definition publish_body :: "u16 \<Rightarrow> u8 list \<Rightarrow> u8 list \<Rightarrow> int \<Rightarrow> u8 list" where
  "publish_body m tpc pay q = str16 tpc @ (if q > 0 then be16 m else []) @ pay"

lemma length_publish_body [simp]:
  "length (publish_body m tpc pay q) = 2 + length tpc + length pay + (if q > 0 then 2 else 0)"
  by (simp add: publish_body_def)

lemma send_publish:
  assumes "length tpc < 65536" "2 + length tpc + length pay + (if q > 0 then 2 else 0) < 2 ^ 32"
  shows "mosquitto_send_real_publish m1 m2 junk m tpc pay q r d = sending m m1 m2 (publish_command d q r) (publish_body m tpc pay q)"
  unfolding mosquitto_send_real_publish_def
  by (rule alloc_then_mid[OF _ assms(2)]) (use assms(1) in \<open>auto simp: write_simps publish_body_def\<close>)

lemma send_subscribe:
  assumes "length tpc < 65536"
  shows "mosquitto_send_subscribe m1 m2 junk m tpc q = sending 0 m1 m2 0x82 (be16 m @ str16 tpc @ [q])"
proof -
  have "(SUBSCRIBE OR push_bit 1 1) = 0x82" by (simp add: SUBSCRIBE_def)
  then show ?thesis unfolding mosquitto_send_subscribe_def
    by simp (rule alloc_then_spec; use assms in \<open>simp add: write_simps\<close>)
qed

lemma send_unsubscribe:
  assumes "length tpc < 65536"
  shows "mosquitto_send_unsubscribe m1 m2 junk m tpc = sending 0 m1 m2 0xA2 (be16 m @ str16 tpc)"
proof -
  have "(UNSUBSCRIBE OR push_bit 1 1) = 0xA2" by (simp add: UNSUBSCRIBE_def)
  then show ?thesis unfolding mosquitto_send_unsubscribe_def
    by simp (rule alloc_then_spec; use assms in \<open>simp add: write_simps\<close>)
qed

definition opt_str :: "u8 list option \<Rightarrow> u8 list" where
  "opt_str x = (case x of None \<Rightarrow> [] | Some s \<Rightarrow> str16 s)"

definition connect_body :: "u16 \<Rightarrow> bool \<Rightarrow> connect_args \<Rightarrow> u8 \<Rightarrow> u8 list" where
  "connect_body keepalive clean a version =
     str16 (if version = 3 then PROTOCOL_NAME_v31 else PROTOCOL_NAME_v311) @ [version, connect_flags clean a] @ be16 keepalive @
     str16 (c_id a) @ opt_str (map_option fst (c_will a)) @ opt_str (map_option (fst \<circ> snd) (c_will a)) @
     opt_str (c_username a) @ opt_str (if c_username a = None then None else c_password a)"

lemma write_opt_filled [write_simps]:
  "length (opt_str x) \<le> length r \<Longrightarrow> (\<forall>s. x = Some s \<longrightarrow> length s < 65536) \<Longrightarrow>
     write_opt x (filled w r p) = Some (filled (w @ opt_str x) (drop (length (opt_str x)) r) p)"
  by (cases x) (simp_all add: write_opt_def opt_str_def write_simps)

definition args_ok :: "connect_args \<Rightarrow> bool" where
  "args_ok a \<longleftrightarrow> length (c_id a) < 65536 \<and> (\<forall>t p q r. c_will a = Some (t, p, q, r) \<longrightarrow> length t < 65536 \<and> length p < 65536) \<and>
     (\<forall>s. c_username a = Some s \<longrightarrow> length s < 65536) \<and> (\<forall>s. c_password a = Some s \<longrightarrow> length s < 65536)"

lemma connect_body_length:
  "length (connect_body k clean a v) = (if v = 3 then 12 else 10) + connect_len a"
  by (auto simp: connect_body_def connect_len_def opt_str_def PROTOCOL_NAME_v31_def PROTOCOL_NAME_v311_def split: option.splits)

lemma write_connect_filled:
  assumes a: "args_ok a" and r: "length r = length (connect_body k clean a v)"
  shows "write_connect k clean a v (filled w r p) = Some (filled (w @ connect_body k clean a v) [] p)"
proof -
  have n: "length (if v = 3 then PROTOCOL_NAME_v31 else PROTOCOL_NAME_v311) < 65536"
    by (simp add: PROTOCOL_NAME_v31_def PROTOCOL_NAME_v311_def)
  have o: "\<forall>s. map_option fst (c_will a) = Some s \<longrightarrow> length s < 65536"
    "\<forall>s. map_option (fst \<circ> snd) (c_will a) = Some s \<longrightarrow> length s < 65536" "\<forall>s. c_username a = Some s \<longrightarrow> length s < 65536"
    "\<forall>s. (if c_username a = None then None else c_password a) = Some s \<longrightarrow> length s < 65536" "length (c_id a) < 65536"
    using a by (auto simp: args_ok_def)
  show ?thesis using r n o by (simp add: write_connect_def connect_body_def write_simps del: if_split)
qed

lemma send_connect:
  assumes "args_ok a" "c_protocol a \<in> {mosq_p_mqtt31, mosq_p_mqtt311}"
  defines "v \<equiv> (if c_protocol a = mosq_p_mqtt31 then 3 else 4)"
  shows "mosquitto_send_connect False m1 m2 junk k clean a = Some (sending 0 m1 m2 CONNECT (connect_body k clean a v))"
proof -
  have len: "connect_len a < 400000" using assms(1) by (auto simp: connect_len_def args_ok_def split: option.splits)
  have "alloc_then m1 m2 junk (new_packet CONNECT (length (connect_body k clean a v))) (write_connect k clean a v) =
      sending 0 m1 m2 CONNECT (connect_body k clean a v)"
    using len by (intro alloc_then_spec refl) (simp_all add: connect_body_length write_connect_filled[OF assms(1)])
  then show ?thesis using assms(2) by (cases "c_protocol a") (simp_all add: mosquitto_send_connect_def v_def connect_body_length)
qed

section \<open>Reading from the network\<close>

definition all_data :: "net_event list \<Rightarrow> bool" where
  "all_data es \<longleftrightarrow> (\<forall>e \<in> set es. \<exists>bs. e = Data bs \<and> bs \<noteq> [])"

definition stream :: "net_event list \<Rightarrow> u8 list" where
  "stream es = concat (map (\<lambda>e. case e of Data bs \<Rightarrow> bs | _ \<Rightarrow> []) es)"

text \<open>A read takes some of the bytes, at least one.\<close>

lemma net_read_data:
  assumes "all_data es" "stream es \<noteq> []" "0 < n"
  shows "\<exists>bs es'. net_read n es = (Inr bs, es') \<and> bs \<noteq> [] \<and> length bs \<le> n \<and> stream es = bs @ stream es' \<and> all_data es'"
proof -
  obtain cs fs where es: "es = Data cs # fs" "cs \<noteq> []" using assms(1,2) by (cases es) (auto simp: all_data_def stream_def)
  show ?thesis using assms(1,3) es by (auto simp: all_data_def stream_def)
qed

lemma net_read_one:
  assumes "all_data es" "stream es = b # cs"
  shows "\<exists>es'. net_read 1 es = (Inr [b], es') \<and> stream es' = cs \<and> all_data es'"
proof -
  obtain bs es' where r: "net_read 1 es = (Inr bs, es')" "bs \<noteq> []" "length bs \<le> 1" "stream es = bs @ stream es'" "all_data es'"
    using net_read_data[OF assms(1), of 1] assms(2) by auto
  then have "bs = [b]" using assms(2) by (cases bs) auto
  then show ?thesis using r assms(2) by simp
qed

lemma read_remaining_one:
  assumes "net_read 1 es = (Inr [byte], es1)" "pk_remaining_count p > -4"
  shows "read_remaining p es =
    (let p2 = p\<lparr>pk_remaining_count := pk_remaining_count p - 1,
                pk_remaining_length := (pk_remaining_length p + unat (byte AND 127) * pk_remaining_mult p) mod 2 ^ 32,
                pk_remaining_mult := pk_remaining_mult p * 128 mod 2 ^ 32\<rparr>
     in if byte AND 128 \<noteq> 0 then read_remaining p2 es1 else (Inr p2, p2, es1))"
  using assms by (subst read_remaining.simps) (simp add: Let_def del: net_read.simps)

lemma read_remaining_spec:
  assumes "i < 4" "n < 128 ^ (4 - i)" "acc < 128 ^ i" "all_data es" "stream es = remaining_bytes i n @ cs"
    "pk_remaining_count p = - int i" "pk_remaining_length p = acc" "pk_remaining_mult p = 128 ^ i"
  shows "\<exists>p' es' c m. read_remaining p es = (Inr p', p', es') \<and> stream es' = cs \<and> all_data es' \<and>
    p' = p\<lparr>pk_remaining_count := - int c, pk_remaining_length := acc + n * 128 ^ i, pk_remaining_mult := m\<rparr> \<and> 0 < c"
  using assms
proof (induction i n arbitrary: p es acc rule: remaining_bytes.induct)
  case (1 i n)
  note pr = 1(2-9)
  have bnd: "acc + n * 128 ^ i < 128 ^ 4"
  proof -
    have "n * 128 ^ i + 128 ^ i \<le> 128 ^ (4 - i) * 128 ^ i" using pr(2) by (metis Suc_leI mult_Suc mult_le_mono1 add.commute)
    also have "\<dots> = 128 ^ 4" using pr(1) by (simp flip: power_add)
    finally show ?thesis using pr(3) by linarith
  qed
  let ?b = "of_nat (n mod 128) :: u8"
  have k: "n mod 128 < 128" by simp
  note lb = len_byte[OF k]
  have mult: "128 ^ i * 128 mod 2 ^ 32 = (128 :: nat) ^ (i + 1)"
  proof -
    have "(128 :: nat) ^ (i + 1) \<le> 128 ^ 4" using pr(1) by (intro power_increasing) auto
    then show ?thesis by simp
  qed
  have dm: "acc + n mod 128 * 128 ^ i + n div 128 * 128 ^ (i + 1) = acc + n * 128 ^ i"
  proof -
    have "n mod 128 * 128 ^ i + n div 128 * 128 ^ (i + 1) = (n div 128 * 128 + n mod 128) * 128 ^ i"
      by (simp only: algebra_simps power_add power_one_right)
    then show ?thesis by (simp only: div_mult_mod_eq add.assoc)
  qed
  then have add: "(acc + n mod 128 * 128 ^ i) mod 2 ^ 32 = acc + n mod 128 * 128 ^ i" using bnd by simp
  show ?case
  proof (cases "n div 128 > 0")
    case True
    have i3: "i < 3" using True pr(1,2) by (cases "i = 3") auto
    have rb: "remaining_bytes i n = (?b OR 0x80) # remaining_bytes (i + 1) (n div 128)"
      using True i3 by (subst remaining_bytes.simps) (simp add: Let_def)
    obtain es1 where es1: "net_read 1 es = (Inr [?b OR 0x80], es1)" "stream es1 = remaining_bytes (i + 1) (n div 128) @ cs" "all_data es1"
      using net_read_one[OF pr(4)] pr(5) rb by auto
    let ?p2 = "p\<lparr>pk_remaining_count := - int i - 1, pk_remaining_length := acc + n mod 128 * 128 ^ i, pk_remaining_mult := 128 ^ (i + 1)\<rparr>"
    have r: "read_remaining p es = read_remaining ?p2 es1"
      using read_remaining_one[OF es1(1)] pr(1,6-8) lb mult add by (simp add: Let_def del: net_read.simps)
    have e: "4 - i = Suc (4 - (i + 1))" using i3 by simp
    have n1: "n div 128 < 128 ^ (4 - (i + 1))" using pr(2) unfolding e by (simp add: less_mult_imp_div_less mult.commute)
    have "n mod 128 * 128 ^ i \<le> 127 * 128 ^ i" using k by (intro mult_le_mono1) linarith
    moreover have "(128 :: nat) ^ (i + 1) = 127 * 128 ^ i + 128 ^ i" by simp
    ultimately have a1: "acc + n mod 128 * 128 ^ i < 128 ^ (i + 1)" using pr(3) by linarith
    have c: "n div 128 > 0 \<and> i + 1 < 5" using True i3 by simp
    obtain p' es' c m where f: "read_remaining ?p2 es1 = (Inr p', p', es')" "stream es' = cs" "all_data es'" "0 < c"
      "p' = ?p2\<lparr>pk_remaining_count := - int c, pk_remaining_length := acc + n mod 128 * 128 ^ i + n div 128 * 128 ^ (i + 1),
         pk_remaining_mult := m\<rparr>"
      using 1(1)[OF refl refl refl c _ n1 a1 es1(3,2), of ?p2] i3 by auto
    show ?thesis using f(2-4) f(1)[folded r] f(5)[unfolded dm] by (intro exI[of _ p'] exI[of _ es'] exI[of _ c] exI[of _ m]) simp
  next
    case False
    have rb: "remaining_bytes i n = [?b]" using False by (subst remaining_bytes.simps) (simp add: Let_def)
    obtain es1 where es1: "net_read 1 es = (Inr [?b], es1)" "stream es1 = cs" "all_data es1"
      using net_read_one[OF pr(4)] pr(5) rb by auto
    have n: "n mod 128 = n" using False by simp
    let ?p2 = "p\<lparr>pk_remaining_count := - int i - 1, pk_remaining_length := acc + n * 128 ^ i, pk_remaining_mult := 128 ^ (i + 1)\<rparr>"
    have "read_remaining p es = (Inr ?p2, ?p2, es1)"
      using read_remaining_one[OF es1(1)] pr(1,6-8) lb mult add n by (simp add: Let_def del: net_read.simps)
    then show ?thesis using es1(2,3) by (intro exI[of _ ?p2] exI[of _ es1] exI[of _ "i + 1"] exI[of _ "128 ^ (i + 1)"]) simp
  qed
qed

lemma read_body_spec:
  assumes "all_data es" "stream es = bs @ cs" "length bs = pk_to_process p" "length (pk_payload p) = pk_pos p + length bs"
  shows "\<exists>es'. read_body old p es = (None, p\<lparr>pk_payload := take (pk_pos p) (pk_payload p) @ bs, pk_to_process := 0,
      pk_pos := pk_pos p + length bs\<rparr>, es') \<and> stream es' = cs \<and> all_data es'"
  using assms
proof (induction "pk_to_process p" arbitrary: p es bs rule: less_induct)
  case less
  show ?case
  proof (cases "bs = []")
    case True
    then have "p\<lparr>pk_payload := take (pk_pos p) (pk_payload p) @ bs, pk_to_process := 0, pk_pos := pk_pos p + length bs\<rparr> = p"
      using less.prems(3,4) by (cases p) simp
    then show ?thesis using True less.prems by (subst read_body.simps) simp
  next
    case False
    then have t: "0 < pk_to_process p" using less.prems(3) by (cases bs) auto
    obtain ds es1 where r: "net_read (pk_to_process p) es = (Inr ds, es1)" "ds \<noteq> []" "length ds \<le> pk_to_process p"
      "stream es = ds @ stream es1" "all_data es1"
      using net_read_data[OF less.prems(1) _ t] less.prems(2) False by auto
    obtain fs where fs: "bs = ds @ fs" "stream es1 = fs @ cs"
      using less.prems(2,3) r(3,4) by (auto simp: append_eq_append_conv2)
    let ?p = "p\<lparr>pk_payload := take (pk_pos p) (pk_payload p) @ ds @ drop (pk_pos p + length ds) (pk_payload p),
                 pk_to_process := pk_to_process p - length ds, pk_pos := pk_pos p + length ds\<rparr>"
    have step: "read_body old p es = read_body old ?p es1" using r(1,2) t by (subst read_body.simps) simp
    have "pk_to_process ?p < pk_to_process p" using r(2) t by (cases ds) auto
    moreover have "length fs = pk_to_process ?p" "length (pk_payload ?p) = pk_pos ?p + length fs"
      using less.prems(3,4) fs(1) by simp_all
    ultimately obtain es' where "read_body old ?p es1 = (None, ?p\<lparr>pk_payload := take (pk_pos ?p) (pk_payload ?p) @ fs, pk_to_process := 0,
        pk_pos := pk_pos ?p + length fs\<rparr>, es')" "stream es' = cs" "all_data es'"
      using less.hyps[of ?p es1 fs] r(5) fs(2) by blast
    then show ?thesis using step fs(1) less.prems(4) by simp
  qed
qed

text \<open>A packet that arrives in any pieces is handed on with its command and its body, and the next one can be read.\<close>

definition received :: "u8 \<Rightarrow> u8 list \<Rightarrow> mosq_packet \<Rightarrow> bool" where
  "received c b p \<longleftrightarrow> pk_command p = c \<and> pk_payload p = b \<and> pk_remaining_length p = length b \<and> pk_pos p = 0"

lemma packet_read_spec:
  assumes "all_data es" "stream es = packet_head c (length b) @ b @ cs" "length b < MAX_REMAINING" "c \<noteq> 0"
  shows "\<exists>p' es' q. mosquitto_packet_read old True junk (mosquitto_packet_cleanup q0) es = (Inr p', mosquitto_packet_cleanup q, es') \<and>
    received c b p' \<and> stream es' = cs \<and> all_data es'"
proof -
  let ?p0 = "(mosquitto_packet_cleanup q0)\<lparr>pk_command := c\<rparr>" and ?n = "length b"
  obtain es1 where es1: "net_read 1 es = (Inr [c], es1)" "stream es1 = remaining_bytes 0 ?n @ b @ cs" "all_data es1"
    using net_read_one[OF assms(1)] assms(2) by (auto simp: packet_head_def)
  have f0: "pk_remaining_count ?p0 = 0" "pk_remaining_length ?p0 = 0" "pk_remaining_mult ?p0 = 1"
    by (simp_all add: mosquitto_packet_cleanup_def)
  obtain p1 es2 k m where r: "read_remaining ?p0 es1 = (Inr p1, p1, es2)" "stream es2 = b @ cs" "all_data es2" "0 < k"
    "p1 = ?p0\<lparr>pk_remaining_count := - int k, pk_remaining_length := ?n, pk_remaining_mult := m\<rparr>"
    using read_remaining_spec[of 0 ?n 0 es1 "b @ cs" ?p0] assms(3) es1 f0 by auto
  define p2 where "p2 = p1\<lparr>pk_remaining_count := - pk_remaining_count p1\<rparr>"
  define p3 where "p3 = (if ?n > 0 then p2\<lparr>pk_payload := map junk [0..<?n], pk_to_process := ?n\<rparr> else p2)"
  have p3: "length b = pk_to_process p3" "pk_pos p3 = 0" "length (pk_payload p3) = pk_pos p3 + length b" "pk_command p3 = c"
    "pk_remaining_length p3 = ?n"
    by (auto simp: p3_def p2_def r(5) mosquitto_packet_cleanup_def)
  obtain es3 where b: "read_body old p3 es2 = (None, p3\<lparr>pk_payload := b, pk_to_process := 0, pk_pos := length b\<rparr>, es3)"
    "stream es3 = cs" "all_data es3"
    using read_body_spec[OF r(3,2) p3(1,3), of old] p3(2) by auto
  have l: "pk_remaining_length p2 = ?n" by (simp add: p2_def r(5))
  have "mosquitto_packet_read old True junk (mosquitto_packet_cleanup q0) es =
      (Inr (p3\<lparr>pk_payload := b, pk_to_process := 0, pk_pos := 0\<rparr>),
       mosquitto_packet_cleanup (p3\<lparr>pk_payload := b, pk_to_process := 0, pk_pos := length b\<rparr>), es3)"
  proof -
    have c0: "pk_command (mosquitto_packet_cleanup q0) = 0" by (simp add: mosquitto_packet_cleanup_def)
    have "read_length old True junk ?p0 es1 = finish_body old p3 es2"
      using r(1) f0(1) l by (simp add: read_length_def p2_def[symmetric] p3_def)
    also have "\<dots> = (Inr (p3\<lparr>pk_payload := b, pk_to_process := 0, pk_pos := 0\<rparr>),
        mosquitto_packet_cleanup (p3\<lparr>pk_payload := b, pk_to_process := 0, pk_pos := length b\<rparr>), es3)"
      by (simp add: finish_body_def b(1))
    finally show ?thesis unfolding mosquitto_packet_read_def es1(1) c0 by simp
  qed
  moreover have "received c b (p3\<lparr>pk_payload := b, pk_to_process := 0, pk_pos := 0\<rparr>)" using p3(4,5) by (simp add: received_def)
  ultimately show ?thesis using b(2,3) by blast
qed

section \<open>Reading a PUBLISH packet\<close>

lemma read_uint16_at:
  assumes "drop (pk_pos p) (pk_payload p) = be16 w @ cs" "pk_remaining_length p = length (pk_payload p)" "length (pk_payload p) < 2 ^ 32"
  shows "mosquitto_read_uint16 p = Inr (w, p\<lparr>pk_pos := pk_pos p + 2\<rparr>)"
proof -
  have l: "pk_pos p + 2 \<le> length (pk_payload p)" using arg_cong[OF assms(1), of length] by simp
  have "pk_payload p ! pk_pos p = MOSQ_MSB w" "pk_payload p ! (pk_pos p + 1) = MOSQ_LSB w"
    using arg_cong[OF assms(1), of "\<lambda>l. l ! 0"] arg_cong[OF assms(1), of "\<lambda>l. l ! 1"] l by (simp_all add: be16_def)
  moreover have "ucast (MOSQ_MSB w) * 256 + ucast (MOSQ_LSB w) = w" using MSB_LSB[of w] by simp
  ultimately show ?thesis using l assms(2,3) by (simp add: mosquitto_read_uint16_def del: One_nat_def)
qed

lemma read_string_at:
  assumes "drop (pk_pos p) (pk_payload p) = str16 s @ cs" "pk_remaining_length p = length (pk_payload p)" "length (pk_payload p) < 2 ^ 32"
    "length s < 65536"
  shows "mosquitto_read_string True p = Inr (s, p\<lparr>pk_pos := pk_pos p + 2 + length s\<rparr>)"
proof -
  have l: "pk_pos p + 2 + length s \<le> length (pk_payload p)" using arg_cong[OF assms(1), of length] by simp
  have u: "unat (of_nat (length s) :: u16) = length s" using assms(4) by (simp add: unsigned_of_nat take_bit_nat_eq_self)
  have d: "drop (Suc (Suc (pk_pos p))) (pk_payload p) = s @ cs"
    using arg_cong[OF assms(1), of "drop 2"] by (simp add: str16_def be16_def)
  show ?thesis using read_uint16_at[of p "of_nat (length s)" "s @ cs"] assms(1-3) l u d by (simp add: mosquitto_read_string_def str16_def)
qed

lemma read_bytes_rest:
  assumes "drop (pk_pos p) (pk_payload p) = bs" "pk_remaining_length p = length (pk_payload p)" "length (pk_payload p) < 2 ^ 32"
    "pk_pos p \<le> length (pk_payload p)"
  shows "mosquitto_read_bytes (length bs) p = Inr (bs, p\<lparr>pk_pos := pk_pos p + length bs\<rparr>)"
proof -
  have "pk_pos p + length bs = length (pk_payload p)" using arg_cong[OF assms(1), of length] assms(4) by simp
  then show ?thesis using assms by (simp add: mosquitto_read_bytes_def)
qed

lemma publish_command_fields:
  assumes "q \<in> {0, 1, 2}"
  shows "uint (drop_bit 1 (publish_command d q r AND 6)) = q" "publish_command d q r AND 8 \<noteq> 0 \<longleftrightarrow> d"
    "publish_command d q r AND 1 \<noteq> 0 \<longleftrightarrow> r" "publish_command d q r \<noteq> 0"
  using assms by (cases d; cases r; auto simp: publish_command_def PUBLISH_def)+

lemma no_zero:
  assumes "(0 :: u8) \<notin> set s"
  shows "takeWhile (\<lambda>c. c \<noteq> 0) s = s" "strlen s = length s"
proof -
  show t: "takeWhile (\<lambda>c. c \<noteq> 0) s = s" using assms by (auto simp: takeWhile_eq_all_conv)
  show "strlen s = length s" unfolding strlen_def t ..
qed

end
