(* ===== verification/Mqtt_Props.thy ===== *)
theory Mqtt_Props
  imports Mqtt_Table Pool_Claims
begin

text \<open>
  The table of preserved messages as a finite map from direction and message number to messages; what the calls do to it; and the mirror in
  retention memory, which every call but one keeps equal to the table.
\<close>

section \<open>Writing into an area of the pool\<close>

lemma write_bytes_ram:
  "ram (heap (write_bytes p bs s)) a = (if p \<le> a \<and> a < p + length bs then bs ! (a - p) else ram (heap s) a)"
  by (simp add: write_bytes_def)

lemma write_bytes_fields [simp]:
  "first_user_addr (write_bytes p bs s) = first_user_addr s" "free_ptr (write_bytes p bs s) = free_ptr s"
  "init_done (write_bytes p bs s) = init_done s" "lfree (heap (write_bytes p bs s)) = lfree (heap s)"
  "rtm (heap (write_bytes p bs s)) = rtm (heap s)" "rtm_size (heap (write_bytes p bs s)) = rtm_size (heap s)"
  by (simp_all add: write_bytes_def)

lemma read_write: "read_bytes p (length bs) (write_bytes p bs s) = bs"
  by (rule nth_equalityI) (simp_all add: read_bytes_def write_bytes_ram)

lemma write_bytes_rel:
  assumes rel: "pool_rel s es" and e: "e \<in> set es" "length bs \<le> esize e"
  shows "pool_rel (write_bytes (addr e + 32) bs s) es"
    and "\<And>f. f \<in> set es \<Longrightarrow> f \<noteq> e \<Longrightarrow> data_kept s (write_bytes (addr e + 32) bs s) f"
proof -
  note r = pool_relD[OF rel]
  let ?t = "write_bytes (addr e + 32) bs s"
  have same: "ram (heap ?t) a = ram (heap s) a" if "a \<notin> {addr e + 32..<addr e + 32 + esize e}" for a
    using that e(2) by (auto simp: write_bytes_ram)
  have own: "owned (heap s) e" using r(4) e(1) by blast
  then obtain k where k: "(addr e, k) \<in> allocated (heap s)" "area e \<subseteq> {addr e..<addr e + k}" using owned_area by blast
  have h: "heap ?t = (heap s)\<lparr>ram := ram (heap ?t)\<rparr>" by (simp add: write_bytes_def)
  have "\<exists>(p, k) \<in> allocated (heap s). a \<in> {p..<p + k}" if "ram (heap ?t) a \<noteq> ram (heap s) a" for a
    using same[of a] that k node_area(2)[of e] by blast
  note hd = heap_data[OF r(1), of "ram (heap ?t)", OF this, folded h]
  have other: "ram (heap ?t) b = ram (heap s) b" if "f \<in> set es" "f \<noteq> e" "b \<in> area f" for f b
  proof -
    have "addr e \<noteq> addr f" using r(6) e(1) that(1,2) by (metis distinct_map inj_onD)
    then have "area e \<inter> area f = {}" using owned_separate[OF r(1) own] r(4) that(1) by blast
    then show ?thesis using same[of b] that(3) node_area(2)[of e] by blast
  qed
  have "ram (heap s) b = ram (heap ?t) b" if nb: "b \<in> node_bytes es" for b
  proof -
    obtain f where f: "f \<in> set es" "b \<in> {addr f..<addr f + 32}" using nb unfolding node_bytes_def by blast
    show ?thesis
    proof (cases "f = e")
      case True then show ?thesis using f(2) same[of b] by auto
    next
      case False then show ?thesis using other[OF f(1)] f(2) node_area(1)[of f] by force
    qed
  qed
  then have "lseg (ram (heap ?t)) (first_user_addr s) es 0" using r(2,3) lseg_agree[of es "ram (heap s)" "ram (heap ?t)"] by blast
  then show "pool_rel ?t es" using hd r(3-7) by (simp add: pool_rel_def owned_def)
  show "data_kept s ?t f" if "f \<in> set es" "f \<noteq> e" for f
    using other[OF that] node_area(2)[of f] by (auto simp: data_kept_def)
qed

section \<open>Rows as messages\<close>

lemma scan_rows_None: "scan_rows P rs = None \<longleftrightarrow> (\<forall>r \<in> set rs. \<not> P r)"
  by (induction rs) auto

lemma scan_rows_Some: "scan_rows P rs = Some i \<Longrightarrow> i < length rs \<and> P (rs ! i)"
  by (induction rs arbitrary: i) (auto split: if_splits)

definition row_ok :: "mq_msg_tbl_row_t \<Rightarrow> bool" where
  "row_ok r \<longleftrightarrow> length (row_payload r) = 101 \<and> 0 \<le> payload_len r \<and> payload_len r \<le> 100 \<and>
     length (topic r) = 65 \<and> 0 \<in> set (topic r) \<and> topic_len r = int (strlen (topic r)) \<and> 0 \<le> qos r \<and> qos r < 2 ^ 31"

definition msg_of :: "mq_msg_tbl_row_t \<Rightarrow> mosquitto_message_all" where
  "msg_of r = \<lparr>m_timestamp = timestamp r, m_state = row_state r, m_dup = dup r, m_mid = mid r,
     m_topic = takeWhile (\<lambda>c. c \<noteq> 0) (topic r), m_payload = take (nat (payload_len r)) (row_payload r),
     m_qos = qos r, m_retain = retain r\<rparr>"

text \<open>The messages the table has room for.\<close>

definition msg_fits :: "mosquitto_message_all \<Rightarrow> bool" where
  "msg_fits msg \<longleftrightarrow> length (m_topic msg) \<le> 64 \<and> 0 \<notin> set (m_topic msg) \<and> 0 \<le> m_qos msg \<and> m_qos msg < 2 ^ 31"

lemma build_ok: "row_ok r \<Longrightarrow> mq_msg_tbl_presvd_build_msg (\<lambda>k. True) r = Some (Inr (msg_of r))"
  by (simp add: row_ok_def mq_msg_tbl_presvd_build_msg_def msg_of_def)

lemma takeWhile_padded: "0 \<notin> set cs \<Longrightarrow> 0 < n \<Longrightarrow> takeWhile (\<lambda>c. c \<noteq> 0) (cs @ replicate n (0 :: u8)) = cs"
  by (induction cs) (auto simp: gr0_conv_Suc)

lemma msg_of_row_of:
  assumes "msg_fits msg" "length (m_payload msg) \<le> 100"
  shows "msg_of (row_of msg d) = msg" "row_ok (row_of msg d)"
  using assms takeWhile_padded[of "m_topic msg" "65 - length (m_topic msg)"]
  by (simp_all add: msg_fits_def msg_of_def row_of_def row_ok_def strlen_def MQTT_TOPIC_MAX_LEN_def
      MQTT_MSG_TBL_PRESVD_MAX_PLAYLOAD_LEN_def)

abbreviation key :: "mq_msg_tbl_row_t \<Rightarrow> mosquitto_msg_direction \<times> u16" where
  "key r \<equiv> (dir r, mid r)"

definition valid_rows :: "mq_msg_tbl_row_t list \<Rightarrow> mq_msg_tbl_row_t list" where
  "valid_rows rs = filter (\<lambda>r. is_valid r \<noteq> 0) rs"

definition msgs :: "mq_msg_tbl_presvd_t \<Rightarrow> (mosquitto_msg_direction \<times> u16) \<rightharpoonup> mosquitto_message_all" where
  "msgs t = map_of (map (\<lambda>r. (key r, msg_of r)) (valid_rows (tbl_row t)))"

definition in_dir :: "mosquitto_msg_direction \<Rightarrow> mq_msg_tbl_row_t list \<Rightarrow> mq_msg_tbl_row_t list" where
  "in_dir d rs = filter (\<lambda>r. dir r = d) (valid_rows rs)"

definition tbl_inv :: "mq_msg_tbl_presvd_t \<Rightarrow> bool" where
  "tbl_inv t \<longleftrightarrow> length (tbl_row t) = 10 \<and> (\<forall>r \<in> set (tbl_row t). row_ok r) \<and> distinct (map key (valid_rows (tbl_row t))) \<and>
     total_rx_msg_cnt t = int (length (in_dir mosq_md_in (tbl_row t))) \<and>
     total_tx_msg_cnt t = int (length (in_dir mosq_md_out (tbl_row t))) \<and> magic_code t = MQTT_INIT_MAGIC"

lemma tbl_invD:
  assumes "tbl_inv t"
  shows "length (tbl_row t) = 10" "\<forall>r \<in> set (tbl_row t). row_ok r" "distinct (map key (valid_rows (tbl_row t)))"
    "total_rx_msg_cnt t = int (length (in_dir mosq_md_in (tbl_row t)))"
    "total_tx_msg_cnt t = int (length (in_dir mosq_md_out (tbl_row t)))" "magic_code t = MQTT_INIT_MAGIC"
  using assms by (simp_all add: tbl_inv_def)

lemma valid_split:
  assumes "i < length rs"
  shows "rs = take i rs @ rs ! i # drop (Suc i) rs" "rs[i := r] = take i rs @ r # drop (Suc i) rs"
  by (rule id_take_nth_drop[OF assms], rule upd_conv_take_nth_drop[OF assms])

lemma valid_rows_upd:
  assumes "i < length rs"
  shows "valid_rows (rs[i := r]) =
    valid_rows (take i rs) @ (if is_valid r \<noteq> 0 then [r] else []) @ valid_rows (drop (Suc i) rs)"
  unfolding valid_split(2)[OF assms] by (simp add: valid_rows_def)

lemma valid_rows_at:
  assumes "i < length rs"
  shows "valid_rows rs =
    valid_rows (take i rs) @ (if is_valid (rs ! i) \<noteq> 0 then [rs ! i] else []) @ valid_rows (drop (Suc i) rs)"
  using valid_rows_upd[OF assms, of "rs ! i"] by simp

lemma in_dir_upd:
  assumes "i < length rs"
  shows "length (in_dir d (rs[i := r])) + (if is_valid (rs ! i) \<noteq> 0 \<and> dir (rs ! i) = d then 1 else 0) =
    length (in_dir d rs) + (if is_valid r \<noteq> 0 \<and> dir r = d then 1 else 0)"
  unfolding in_dir_def valid_rows_upd[OF assms] by (subst valid_rows_at[OF assms]) simp

lemma map_of_insert: "k \<notin> fst ` set xs \<Longrightarrow> map_of (xs @ (k, v) # ys) = (map_of (xs @ ys))(k \<mapsto> v)"
  by (induction xs) auto

lemma dom_msgs: "dom (msgs t) = key ` set (valid_rows (tbl_row t))"
  by (simp add: msgs_def dom_map_of_conv_image_fst image_image)

lemma card_msgs: "tbl_inv t \<Longrightarrow> card (dom (msgs t)) = length (valid_rows (tbl_row t))"
  unfolding dom_msgs set_map[symmetric] using distinct_card[OF tbl_invD(3)] by simp

lemma filter_all: "length (filter P xs) = length xs \<longleftrightarrow> (\<forall>x \<in> set xs. P x)"
  by (metis filter_True length_filter_less less_irrefl)

lemma full_iff: "tbl_inv t \<Longrightarrow> mq_msg_tbl_presvd_find_empty_slot t = None \<longleftrightarrow> card (dom (msgs t)) = 10"
  using tbl_invD(1)[of t] filter_all[of "\<lambda>r. is_valid r \<noteq> 0" "tbl_row t"]
  by (simp add: card_msgs mq_msg_tbl_presvd_find_empty_slot_def scan_rows_None valid_rows_def)

section \<open>What the calls do to the map\<close>

lemma count_msg_fields [simp]:
  "tbl_row (count_msg d n t) = tbl_row t" "magic_code (count_msg d n t) = magic_code t"
  "total_rx_msg_cnt (count_msg d n t) = total_rx_msg_cnt t + (if d = mosq_md_in then n else 0)"
  "total_tx_msg_cnt (count_msg d n t) = total_tx_msg_cnt t + (if d = mosq_md_out then n else 0)"
  by (cases d; simp add: count_msg_def)+

lemma put_row_fields [simp]:
  "tbl_row (put_row i r t) = (tbl_row t)[i := r]" "magic_code (put_row i r t) = magic_code t"
  "total_rx_msg_cnt (put_row i r t) = total_rx_msg_cnt t" "total_tx_msg_cnt (put_row i r t) = total_tx_msg_cnt t"
  by (simp_all add: put_row_def)

lemma msgs_count [simp]: "msgs (count_msg d n t) = msgs t"
  by (simp add: msgs_def)

lemma find_iff:
  assumes "tbl_inv t"
  shows "mq_msg_tbl_presvd_find d m t = None \<longleftrightarrow> (d, m) \<notin> dom (msgs t)"
  unfolding mq_msg_tbl_presvd_find_def scan_rows_None dom_msgs valid_rows_def by auto

lemma rows_upd_ok:
  assumes "tbl_inv t" "i < 10" "row_ok r"
  shows "\<forall>x \<in> set ((tbl_row t)[i := r]). row_ok x"
  using tbl_invD(2)[OF assms(1)] assms(3) set_update_subset_insert[of "tbl_row t" i r] by blast

lemma table_add:
  assumes t: "tbl_inv t" and i: "mq_msg_tbl_presvd_find_empty_slot t = Some i"
    and m: "msg_fits msg" "length (m_payload msg) \<le> 100" and new: "(d, m_mid msg) \<notin> dom (msgs t)"
  defines "u \<equiv> count_msg d 1 (put_row i (row_of msg d) t)"
  shows "tbl_inv u" "msgs u = (msgs t)((d, m_mid msg) \<mapsto> msg)"
proof -
  note inv = tbl_invD[OF t]
  have il: "i < length (tbl_row t)" "is_valid (tbl_row t ! i) = 0"
    using scan_rows_Some[OF i[unfolded mq_msg_tbl_presvd_find_empty_slot_def]] by simp_all
  let ?r = "row_of msg d"
  have r: "is_valid ?r = 1" "dir ?r = d" "mid ?r = m_mid msg" by (simp_all add: row_of_def)
  note ro = msg_of_row_of[OF m, of d]
  let ?A = "valid_rows (take i (tbl_row t))" and ?B = "valid_rows (drop (Suc i) (tbl_row t))"
  have old: "valid_rows (tbl_row t) = ?A @ ?B" using valid_rows_at[OF il(1)] il(2) by simp
  have upd: "valid_rows ((tbl_row t)[i := ?r]) = ?A @ ?r # ?B" using valid_rows_upd[OF il(1), of ?r] r by simp
  have nk: "(d, m_mid msg) \<notin> key ` set ?A" "(d, m_mid msg) \<notin> key ` set ?B" using new unfolding dom_msgs old by auto
  have "length (in_dir e ((tbl_row t)[i := ?r])) = length (in_dir e (tbl_row t)) + (if e = d then 1 else 0)" for e
    using in_dir_upd[OF il(1), of e ?r] il(2) r by auto
  note cnt = this[of mosq_md_in] this[of mosq_md_out]
  have "distinct (map key (valid_rows ((tbl_row t)[i := ?r])))" using inv(3) nk r unfolding old upd by simp
  then show "tbl_inv u" using inv cnt rows_upd_ok[OF t _ ro(2), of i] il(1)
    unfolding tbl_inv_def u_def by (cases d) simp_all
  have "map_of (map (\<lambda>r. (key r, msg_of r)) (?A @ ?r # ?B)) =
      (map_of (map (\<lambda>r. (key r, msg_of r)) ?A @ map (\<lambda>r. (key r, msg_of r)) ?B))((d, m_mid msg) \<mapsto> msg)"
    using map_of_insert[of "(d, m_mid msg)" "map (\<lambda>r. (key r, msg_of r)) ?A" msg "map (\<lambda>r. (key r, msg_of r)) ?B"] nk(1) r ro(1)
    by (auto simp: image_image)
  then show "msgs u = (msgs t)((d, m_mid msg) \<mapsto> msg)" unfolding u_def msgs_def by (simp add: upd old)
qed

lemma found_row:
  assumes "tbl_inv t" "mq_msg_tbl_presvd_find d m t = Some i"
  shows "i < length (tbl_row t)" "is_valid (tbl_row t ! i) \<noteq> 0" "dir (tbl_row t ! i) = d" "mid (tbl_row t ! i) = m"
    "row_ok (tbl_row t ! i)"
  using scan_rows_Some[OF assms(2)[unfolded mq_msg_tbl_presvd_find_def]] tbl_invD(2)[OF assms(1)] by simp_all

lemma found_split:
  assumes t: "tbl_inv t" and i: "mq_msg_tbl_presvd_find d m t = Some i"
  obtains A B where "valid_rows (tbl_row t) = A @ tbl_row t ! i # B" "(d, m) \<notin> key ` set A" "(d, m) \<notin> key ` set B"
    "\<And>r. valid_rows ((tbl_row t)[i := r]) = A @ (if is_valid r \<noteq> 0 then [r] else []) @ B"
proof
  note f = found_row[OF t i]
  let ?A = "valid_rows (take i (tbl_row t))" and ?B = "valid_rows (drop (Suc i) (tbl_row t))"
  show old: "valid_rows (tbl_row t) = ?A @ tbl_row t ! i # ?B" using valid_rows_at[OF f(1)] f(2) by simp
  show "(d, m) \<notin> key ` set ?A" "(d, m) \<notin> key ` set ?B" using tbl_invD(3)[OF t] f(3,4) unfolding old by auto
  show "valid_rows ((tbl_row t)[i := r]) = ?A @ (if is_valid r \<noteq> 0 then [r] else []) @ ?B" for r by (rule valid_rows_upd[OF f(1)])
qed

lemma msgs_found:
  assumes "valid_rows (tbl_row t) = A @ r # B" "key r = k" "k \<notin> key ` set A"
  shows "msgs t = (map_of (map (\<lambda>r. (key r, msg_of r)) (A @ B)))(k \<mapsto> msg_of r)"
  using map_of_insert[of k "map (\<lambda>r. (key r, msg_of r)) A" "msg_of r" "map (\<lambda>r. (key r, msg_of r)) B"] assms
  by (auto simp: msgs_def image_image)

lemma table_del:
  assumes t: "tbl_inv t" and i: "mq_msg_tbl_presvd_find d m t = Some i"
  defines "u \<equiv> count_msg d (-1) (put_row i ((tbl_row t ! i)\<lparr>is_valid := 0\<rparr>) t)"
  shows "tbl_inv u" "msgs u = (msgs t)((d, m) := None)"
proof -
  note inv = tbl_invD[OF t] and f = found_row[OF t i]
  obtain A B where s: "valid_rows (tbl_row t) = A @ tbl_row t ! i # B" "(d, m) \<notin> key ` set A" "(d, m) \<notin> key ` set B"
    "\<And>r. valid_rows ((tbl_row t)[i := r]) = A @ (if is_valid r \<noteq> 0 then [r] else []) @ B"
    using found_split[OF t i] by blast
  let ?r = "(tbl_row t ! i)\<lparr>is_valid := 0\<rparr>"
  have "length (in_dir e ((tbl_row t)[i := ?r])) + (if e = d then 1 else 0) = length (in_dir e (tbl_row t))" for e
    using in_dir_upd[OF f(1), of e ?r] f(2,3) by auto
  note cnt = this[of mosq_md_in] this[of mosq_md_out]
  have ok: "row_ok ?r" using f(5) by (simp add: row_ok_def)
  show "tbl_inv u" using inv rows_upd_ok[OF t _ ok, of i] f(1) cnt s(1)
    unfolding tbl_inv_def u_def by (cases d) (simp_all add: s(4))
  have "(d, m) \<notin> dom (map_of (map (\<lambda>r. (key r, msg_of r)) (A @ B)))"
    using s(2,3) by (simp add: dom_map_of_conv_image_fst image_image image_Un)
  then show "msgs u = (msgs t)((d, m) := None)"
    unfolding msgs_found[OF s(1) _ s(2), simplified f, OF refl] unfolding u_def msgs_count msgs_def
    by (simp add: s(4) domIff fun_upd_idem)
qed

lemma table_update:
  fixes st :: mosquitto_msg_state and ts :: u64
  assumes t: "tbl_inv t" and i: "mq_msg_tbl_presvd_find d m t = Some i"
  defines "u \<equiv> put_row i ((tbl_row t ! i)\<lparr>row_state := st, timestamp := ts\<rparr>) t"
  shows "tbl_inv u"
    "msgs u = (msgs t)((d, m) := map_option (\<lambda>x. x\<lparr>m_state := st, m_timestamp := ts\<rparr>) (msgs t (d, m)))"
proof -
  note inv = tbl_invD[OF t] and f = found_row[OF t i]
  obtain A B where s: "valid_rows (tbl_row t) = A @ tbl_row t ! i # B" "(d, m) \<notin> key ` set A" "(d, m) \<notin> key ` set B"
    "\<And>r. valid_rows ((tbl_row t)[i := r]) = A @ (if is_valid r \<noteq> 0 then [r] else []) @ B"
    using found_split[OF t i] by blast
  let ?r = "(tbl_row t ! i)\<lparr>row_state := st, timestamp := ts\<rparr>"
  have "length (in_dir e ((tbl_row t)[i := ?r])) = length (in_dir e (tbl_row t))" for e
    using in_dir_upd[OF f(1), of e ?r] f(2,3) by auto
  note cnt = this[of mosq_md_in] this[of mosq_md_out]
  have ok: "row_ok ?r" using f(5) by (simp add: row_ok_def)
  have upd: "valid_rows ((tbl_row t)[i := ?r]) = A @ ?r # B" using f(2) by (simp add: s(4))
  show "tbl_inv u" using inv rows_upd_ok[OF t _ ok, of i] f(1) cnt s(1)
    unfolding tbl_inv_def u_def by (simp add: upd)
  have "msg_of ?r = (msg_of (tbl_row t ! i))\<lparr>m_state := st, m_timestamp := ts\<rparr>" by (simp add: msg_of_def)
  then show "msgs u = (msgs t)((d, m) := map_option (\<lambda>x. x\<lparr>m_state := st, m_timestamp := ts\<rparr>) (msgs t (d, m)))"
    unfolding u_def using msgs_found[of t A "tbl_row t ! i" B "(d, m)"] msgs_found[of "put_row i ?r t" A ?r B "(d, m)"] s upd f(3,4)
    by simp
qed

end
