(* ===== verification/Mqtt_Claims.thy ===== *)
theory Mqtt_Claims
  imports Mqtt_Props
begin

text \<open>
  The table of preserved messages implements a finite map of at most ten messages, whatever order the calls come in, and the map
  survives deep sleep: after the wake-up the messages are in the queues of the client again.
\<close>

section \<open>The mirror\<close>

definition tbl_shape :: "mq_msg_tbl_presvd_t \<Rightarrow> bool" where
  "tbl_shape t \<longleftrightarrow> length (tbl_row t) = 10 \<and> (\<forall>r \<in> set (tbl_row t). row_ok r) \<and>
     total_rx_msg_cnt t \<in> {0..10} \<and> total_tx_msg_cnt t \<in> {0..10}"

text \<open>What the code relies on of the compiler's layout: a copy of the bytes of a table is the table.\<close>

definition layout_ok :: "mq_layout \<Rightarrow> bool" where
  "layout_ok L \<longleftrightarrow> 0 < sizeof_tbl L \<and> sizeof_tbl L + 32 < 2 ^ 16 \<and>
     (\<forall>t. tbl_shape t \<longrightarrow> length (tbl_bytes L t) = sizeof_tbl L \<and> tbl_of_bytes L (tbl_bytes L t) = t)"

lemma inv_shape: "tbl_inv t \<Longrightarrow> tbl_shape t"
proof -
  assume t: "tbl_inv t"
  have "length (in_dir d (tbl_row t)) \<le> 10" for d
    using tbl_invD(1)[OF t] length_filter_le order.trans unfolding in_dir_def valid_rows_def by metis
  then show ?thesis using tbl_invD[OF t] by (simp add: tbl_shape_def)
qed

text \<open>The area of the table in the pool with the entries \<open>es\<close>.\<close>

definition placed :: "mq_layout \<Rightarrow> entry list \<Rightarrow> entry \<Rightarrow> mq_table \<Rightarrow> bool" where
  "placed L es e s \<longleftrightarrow> pool_rel (tbl_pool s) es \<and> e \<in> set es \<and> ename e = MQTT_MSG_TBL_PRESVD_NAME \<and> esize e = sizeof_tbl L \<and>
     mqtt_msg_tbl_presvd_rtm s = addr e + 32 \<and>
     rtm (heap (tbl_pool s)) = RTM_USER_DATA_PTR \<and> rtm_size (heap (tbl_pool s)) = 8184"

definition mirrored :: "mq_layout \<Rightarrow> mq_table \<Rightarrow> bool" where
  "mirrored L s \<longleftrightarrow> (\<exists>ts. rtm_table L s = (mqtt_msg_tbl_presvd s)\<lparr>last_retry_chk_time := ts\<rparr>)"

definition store_inv :: "mq_layout \<Rightarrow> entry list \<Rightarrow> mq_table \<Rightarrow> bool" where
  "store_inv L es s \<longleftrightarrow> layout_ok L \<and> mq_msg_tbl_presvd_enabled s \<and> tbl_inv (mqtt_msg_tbl_presvd s) \<and>
     (mqtt_msg_tbl_presvd_rtm s \<noteq> 0 \<longrightarrow> (\<exists>e. placed L es e s) \<and> mirrored L s)"

lemma store_invI:
  assumes "layout_ok L" "mq_msg_tbl_presvd_enabled s" "tbl_inv (mqtt_msg_tbl_presvd s)" "placed L es e s" "mirrored L s"
  shows "store_inv L es s"
  unfolding store_inv_def using assms by blast

lemma on_tbl_fields [simp]:
  "mqtt_msg_tbl_presvd (on_tbl f s) = f (mqtt_msg_tbl_presvd s)" "mqtt_msg_tbl_presvd_rtm (on_tbl f s) = mqtt_msg_tbl_presvd_rtm s"
  "mq_msg_tbl_presvd_enabled (on_tbl f s) = mq_msg_tbl_presvd_enabled s" "tbl_pool (on_tbl f s) = tbl_pool s"
  "mq_msg_tbl_init_done (on_tbl f s) = mq_msg_tbl_init_done s"
  by (simp_all add: on_tbl_def)

lemma placed_on_tbl [simp]: "placed L es e (on_tbl f s) = placed L es e s"
  by (simp add: placed_def)

text \<open>Writing the table to its area keeps the pool, leaves the other areas alone and makes the mirror exact.\<close>

lemma table_to_rtm_spec:
  assumes p: "placed L es e s" and L: "layout_ok L" and t: "tbl_shape (mqtt_msg_tbl_presvd s)"
  shows "placed L es e (table_to_rtm L s)" "rtm_table L (table_to_rtm L s) = mqtt_msg_tbl_presvd s"
    "\<And>f. f \<in> set es \<Longrightarrow> f \<noteq> e \<Longrightarrow> data_kept (tbl_pool s) (tbl_pool (table_to_rtm L s)) f"
proof -
  have e: "pool_rel (tbl_pool s) es" "e \<in> set es" "mqtt_msg_tbl_presvd_rtm s = addr e + 32" "esize e = sizeof_tbl L"
    using p by (simp_all add: placed_def)
  have b: "length (tbl_bytes L (mqtt_msg_tbl_presvd s)) = sizeof_tbl L"
    "tbl_of_bytes L (tbl_bytes L (mqtt_msg_tbl_presvd s)) = mqtt_msg_tbl_presvd s" using L t by (simp_all add: layout_ok_def)
  note w = write_bytes_rel[OF e(1,2), of "tbl_bytes L (mqtt_msg_tbl_presvd s)"]
  show "placed L es e (table_to_rtm L s)" using w(1) b p by (simp add: placed_def table_to_rtm_def)
  show "rtm_table L (table_to_rtm L s) = mqtt_msg_tbl_presvd s"
    using read_write[of "addr e + 32" "tbl_bytes L (mqtt_msg_tbl_presvd s)"] b by (simp add: rtm_table_def table_to_rtm_def e(3))
  show "data_kept (tbl_pool s) (tbl_pool (table_to_rtm L s)) f" if "f \<in> set es" "f \<noteq> e" for f
    using w(2)[OF _ that] b e(3,4) by (simp add: table_to_rtm_def)
qed

lemma table_to_rtm_fields [simp]:
  "mqtt_msg_tbl_presvd (table_to_rtm L s) = mqtt_msg_tbl_presvd s" "mqtt_msg_tbl_presvd_rtm (table_to_rtm L s) = mqtt_msg_tbl_presvd_rtm s"
  "mq_msg_tbl_presvd_enabled (table_to_rtm L s) = mq_msg_tbl_presvd_enabled s"
  "mq_msg_tbl_init_done (table_to_rtm L s) = mq_msg_tbl_init_done s"
  by (simp_all add: table_to_rtm_def)

lemma copy_fields [simp]: "mqtt_msg_tbl_presvd (mq_msg_tbl_presvd_copy_to_rtm L s) = mqtt_msg_tbl_presvd s"
  by (simp add: mq_msg_tbl_presvd_copy_to_rtm_def)

lemma copy_inv:
  assumes s: "store_inv L es s" and t: "tbl_inv (f (mqtt_msg_tbl_presvd s))"
  shows "store_inv L es (mq_msg_tbl_presvd_copy_to_rtm L (on_tbl f s))"
    "\<And>g. g \<in> set es \<Longrightarrow> ename g \<noteq> MQTT_MSG_TBL_PRESVD_NAME \<Longrightarrow>
       data_kept (tbl_pool s) (tbl_pool (mq_msg_tbl_presvd_copy_to_rtm L (on_tbl f s))) g"
proof (atomize (full), cases "mqtt_msg_tbl_presvd_rtm s = 0")
  case True
  then have c: "mq_msg_tbl_presvd_copy_to_rtm L (on_tbl f s) = on_tbl f s" by (simp add: mq_msg_tbl_presvd_copy_to_rtm_def)
  show "store_inv L es (mq_msg_tbl_presvd_copy_to_rtm L (on_tbl f s)) \<and> (\<forall>g. g \<in> set es \<longrightarrow> ename g \<noteq> MQTT_MSG_TBL_PRESVD_NAME \<longrightarrow>
      data_kept (tbl_pool s) (tbl_pool (mq_msg_tbl_presvd_copy_to_rtm L (on_tbl f s))) g)"
    unfolding c using s t True by (simp add: store_inv_def data_kept_def)
next
  case False
  then obtain e where e: "placed L es e (on_tbl f s)" and L: "layout_ok L" using s by (auto simp: store_inv_def)
  have sh: "tbl_shape (mqtt_msg_tbl_presvd (on_tbl f s))" using t inv_shape by simp
  note w = table_to_rtm_spec[OF e L sh]
  have c: "mq_msg_tbl_presvd_copy_to_rtm L (on_tbl f s) = table_to_rtm L (on_tbl f s)"
    using False by (simp add: mq_msg_tbl_presvd_copy_to_rtm_def)
  have mi: "mirrored L (table_to_rtm L (on_tbl f s))"
    unfolding mirrored_def w(2) by (intro exI[of _ "last_retry_chk_time (f (mqtt_msg_tbl_presvd s))"]) simp
  have "mq_msg_tbl_presvd_enabled s" using s by (simp add: store_inv_def)
  then have "store_inv L es (table_to_rtm L (on_tbl f s))" using t by (intro store_invI[OF L _ _ w(1) mi]) simp_all
  moreover have "data_kept (tbl_pool s) (tbl_pool (table_to_rtm L (on_tbl f s))) g"
    if "g \<in> set es" "ename g \<noteq> MQTT_MSG_TBL_PRESVD_NAME" for g
    using w(3)[OF that(1)] that(2) e by (auto simp: placed_def)
  ultimately show "store_inv L es (mq_msg_tbl_presvd_copy_to_rtm L (on_tbl f s)) \<and> (\<forall>g. g \<in> set es \<longrightarrow> ename g \<noteq> MQTT_MSG_TBL_PRESVD_NAME \<longrightarrow>
      data_kept (tbl_pool s) (tbl_pool (mq_msg_tbl_presvd_copy_to_rtm L (on_tbl f s))) g)" unfolding c by blast
qed

section \<open>Sequences of calls\<close>

datatype mq_call = Add mosquitto_message_all mosquitto_msg_direction | Del mosquitto_message_all mosquitto_msg_direction
  | Update mosquitto_msg_direction u16 mosquitto_msg_state u64 | Retry_check u64 | Last_mid u16 | Sync

fun do_call :: "mq_layout \<Rightarrow> mq_call \<Rightarrow> mq_table \<Rightarrow> (int \<times> mq_table) option" where
  "do_call L (Add msg d) s = mq_msg_tbl_presvd_add L msg d s"
| "do_call L (Del msg d) s = Some (mq_msg_tbl_presvd_del L msg d s)"
| "do_call L (Update d m st ts) s = Some (mq_msg_tbl_presvd_update L d m st ts s)"
| "do_call L (Retry_check ts) s = Some (mq_msg_tbl_presvd_update_last_retry_chk ts s)"
| "do_call L (Last_mid m) s = Some (mq_msg_tbl_presvd_update_last_mid L m s)"
| "do_call L Sync s = Some (mq_msg_tbl_presvd_sync L s)"

type_synonym mq_map = "(mosquitto_msg_direction \<times> u16) \<rightharpoonup> mosquitto_message_all"

text \<open>The calls on a map: the result code and the map afterwards.\<close>

fun spec_call :: "mq_call \<Rightarrow> mq_map \<Rightarrow> int \<times> mq_map" where
  "spec_call (Add msg d) M =
     (if card (dom M) = 10 then (MOSQ_ERR_NOMEM, M)
      else if length (m_payload msg) > 100 then (MOSQ_ERR_PAYLOAD_SIZE, M)
      else (MOSQ_ERR_SUCCESS, M((d, m_mid msg) \<mapsto> msg)))"
| "spec_call (Del msg d) M =
     (if (d, m_mid msg) \<in> dom M then (MOSQ_ERR_SUCCESS, M((d, m_mid msg) := None)) else (MOSQ_ERR_NOT_FOUND, M))"
| "spec_call (Update d m st ts) M =
     (case M (d, m) of None \<Rightarrow> (MOSQ_ERR_NOT_FOUND, M)
      | Some x \<Rightarrow> (MOSQ_ERR_SUCCESS, M((d, m) \<mapsto> x\<lparr>m_state := st, m_timestamp := ts\<rparr>)))"
| "spec_call (Retry_check ts) M = (MOSQ_ERR_SUCCESS, M)"
| "spec_call (Last_mid m) M = (MOSQ_ERR_SUCCESS, M)"
| "spec_call Sync M = (1, M)"

text \<open>Messages are added under new numbers, with topics the table has room for.\<close>

fun call_ok :: "mq_call \<Rightarrow> mq_map \<Rightarrow> bool" where
  "call_ok (Add msg d) M \<longleftrightarrow> msg_fits msg \<and> (d, m_mid msg) \<notin> dom M"
| "call_ok c M \<longleftrightarrow> True"

fun run_calls :: "(mq_call \<Rightarrow> 's \<Rightarrow> (int \<times> 's) option) \<Rightarrow> mq_call list \<Rightarrow> 's \<Rightarrow> (int list \<times> 's) option" where
  "run_calls call [] s = Some ([], s)"
| "run_calls call (c # cs) s = (case call c s of None \<Rightarrow> None
     | Some (rc, s') \<Rightarrow> map_option (\<lambda>(rcs, s''). (rc # rcs, s'')) (run_calls call cs s'))"

fun spec_calls :: "mq_call list \<Rightarrow> mq_map \<Rightarrow> int list \<times> mq_map" where
  "spec_calls [] M = ([], M)"
| "spec_calls (c # cs) M = (let (rc, M') = spec_call c M; (rcs, M'') = spec_calls cs M' in (rc # rcs, M''))"

fun calls_ok :: "mq_call list \<Rightarrow> mq_map \<Rightarrow> bool" where
  "calls_ok [] M \<longleftrightarrow> True"
| "calls_ok (c # cs) M \<longleftrightarrow> call_ok c M \<and> calls_ok cs (snd (spec_call c M))"

locale message_store =
  fixes inv :: "'s \<Rightarrow> bool"
    and contents :: "'s \<Rightarrow> mq_map"
    and call :: "mq_call \<Rightarrow> 's \<Rightarrow> (int \<times> 's) option"
    and kept :: "'s \<Rightarrow> 's \<Rightarrow> bool"
  assumes call_spec: "inv s \<Longrightarrow> call_ok c (contents s) \<Longrightarrow>
      \<exists>rc s'. call c s = Some (rc, s') \<and> inv s' \<and> (rc, contents s') = spec_call c (contents s) \<and> kept s s'"
    and kept_refl: "kept s s"
    and kept_trans: "kept s s' \<Longrightarrow> kept s' s'' \<Longrightarrow> kept s s''"
begin

lemma calls_spec:
  assumes "inv s" "calls_ok cs (contents s)"
  shows "\<exists>rcs s'. run_calls call cs s = Some (rcs, s') \<and> inv s' \<and> (rcs, contents s') = spec_calls cs (contents s) \<and> kept s s'"
  using assms
proof (induction cs arbitrary: s)
  case (Cons c cs)
  obtain rc u where u: "call c s = Some (rc, u)" "inv u" "(rc, contents u) = spec_call c (contents s)" "kept s u"
    using call_spec[OF Cons.prems(1), of c] Cons.prems(2) by auto
  have "calls_ok cs (contents u)" using Cons.prems(2) u(3) by (metis calls_ok.simps(2) snd_conv)
  then obtain rcs s' where s': "run_calls call cs u = Some (rcs, s')" "inv s'" "(rcs, contents s') = spec_calls cs (contents u)" "kept u s'"
    using Cons.IH[OF u(2)] by blast
  then show ?case using u kept_trans[OF u(4) s'(4)] by (auto simp flip: u(3) s'(3))
qed (simp add: kept_refl)

end

text \<open>The other areas of the pool keep their data and the table its place.\<close>

definition others_kept :: "entry list \<Rightarrow> mq_table \<Rightarrow> mq_table \<Rightarrow> bool" where
  "others_kept es s s' \<longleftrightarrow> mqtt_msg_tbl_presvd_rtm s' = mqtt_msg_tbl_presvd_rtm s \<and>
     (\<forall>g \<in> set es. ename g \<noteq> MQTT_MSG_TBL_PRESVD_NAME \<longrightarrow> data_kept (tbl_pool s) (tbl_pool s') g)"

lemma copy_call:
  assumes "store_inv L es s" "tbl_inv (f (mqtt_msg_tbl_presvd s))"
  defines "s' \<equiv> mq_msg_tbl_presvd_copy_to_rtm L (on_tbl f s)"
  shows "store_inv L es s'" "mqtt_msg_tbl_presvd s' = f (mqtt_msg_tbl_presvd s)" "others_kept es s s'"
  using copy_inv[of L es s f, OF assms(1,2)]
  by (simp_all add: s'_def others_kept_def mq_msg_tbl_presvd_copy_to_rtm_def)

lemma msgs_hdr [simp]:
  "msgs (t\<lparr>last_retry_chk_time := ts\<rparr>) = msgs t" "msgs (t\<lparr>last_tx_mid_used := m\<rparr>) = msgs t"
  "tbl_inv (t\<lparr>last_retry_chk_time := ts\<rparr>) = tbl_inv t" "tbl_inv (t\<lparr>last_tx_mid_used := m\<rparr>) = tbl_inv t"
  by (simp_all add: msgs_def tbl_inv_def)

lemma store_call:
  assumes s: "store_inv L es s" and ok: "call_ok c (msgs (mqtt_msg_tbl_presvd s))"
  shows "\<exists>rc s'. do_call L c s = Some (rc, s') \<and> store_inv L es s' \<and>
    (rc, msgs (mqtt_msg_tbl_presvd s')) = spec_call c (msgs (mqtt_msg_tbl_presvd s)) \<and> others_kept es s s'"
proof -
  let ?t = "mqtt_msg_tbl_presvd s"
  have t: "tbl_inv ?t" and en: "mq_msg_tbl_presvd_enabled s" using s by (simp_all add: store_inv_def)
  have same: "others_kept es s s" by (simp add: others_kept_def data_kept_def)
  note cc = copy_call[OF s]
  show ?thesis
  proof (cases c)
    case (Add msg d)
    show ?thesis
    proof (cases "mq_msg_tbl_presvd_find_empty_slot ?t")
      case None
      then show ?thesis using s same full_iff[OF t] by (simp add: Add mq_msg_tbl_presvd_add_def en)
    next
      case (Some i)
      have c10: "card (dom (msgs ?t)) \<noteq> 10" using full_iff[OF t] Some by simp
      show ?thesis
      proof (cases "length (m_payload msg) > 100")
        case True
        then show ?thesis using s same c10 Some
          by (simp add: Add mq_msg_tbl_presvd_add_def en MQTT_MSG_TBL_PRESVD_MAX_PLAYLOAD_LEN_def)
      next
        case False
        have f: "msg_fits msg" "length (m_topic msg) \<le> 64" "(d, m_mid msg) \<notin> dom (msgs ?t)" "length (m_payload msg) \<le> 100"
          using ok False by (simp_all add: Add msg_fits_def)
        show ?thesis using cc[of "count_msg d 1 \<circ> put_row i (row_of msg d)"] table_add[OF t Some f(1,4,3)] c10 f(2,4) Some
          by (simp add: Add mq_msg_tbl_presvd_add_def en MQTT_MSG_TBL_PRESVD_MAX_PLAYLOAD_LEN_def MQTT_TOPIC_MAX_LEN_def
              mq_msg_tbl_presvd_sync_to_rtm_def)
      qed
    qed
  next
    case (Del msg d)
    show ?thesis
    proof (cases "mq_msg_tbl_presvd_find d (m_mid msg) ?t")
      case None
      then show ?thesis using s same find_iff[OF t, of d "m_mid msg"] by (simp add: Del mq_msg_tbl_presvd_del_def en Let_def)
    next
      case (Some i)
      have "(d, m_mid msg) \<in> dom (msgs ?t)" using find_iff[OF t, of d "m_mid msg"] Some by simp
      then show ?thesis using cc[of "count_msg d (-1) \<circ> put_row i ((tbl_row ?t ! i)\<lparr>is_valid := 0\<rparr>)"] table_del[OF t Some] Some
        by (simp add: Del mq_msg_tbl_presvd_del_def en mq_msg_tbl_presvd_sync_to_rtm_def Let_def)
    qed
  next
    case (Update d m st ts)
    show ?thesis
    proof (cases "mq_msg_tbl_presvd_find d m ?t")
      case None
      then show ?thesis using s same find_iff[OF t, of d m] by (simp add: Update mq_msg_tbl_presvd_update_def en domIff Let_def)
    next
      case (Some i)
      then obtain x where "msgs ?t (d, m) = Some x" using find_iff[OF t, of d m] by auto
      then show ?thesis using cc[of "put_row i ((tbl_row ?t ! i)\<lparr>row_state := st, timestamp := ts\<rparr>)"] table_update[OF t Some] Some
        by (simp add: Update mq_msg_tbl_presvd_update_def en mq_msg_tbl_presvd_sync_to_rtm_def Let_def)
    qed
  next
    case (Retry_check ts)
    have "store_inv L es (on_tbl (\<lambda>t. t\<lparr>last_retry_chk_time := ts\<rparr>) s)"
      using s unfolding store_inv_def mirrored_def rtm_table_def by simp
    then show ?thesis using same by (simp add: Retry_check mq_msg_tbl_presvd_update_last_retry_chk_def en others_kept_def data_kept_def)
  next
    case (Last_mid m)
    show ?thesis using cc[of "\<lambda>t. t\<lparr>last_tx_mid_used := m\<rparr>"] t by (simp add: Last_mid mq_msg_tbl_presvd_update_last_mid_def en)
  next
    case Sync
    have id: "on_tbl id s = s" by (simp add: on_tbl_def)
    show ?thesis using cc[of id, unfolded id] t by (simp add: Sync mq_msg_tbl_presvd_sync_def en)
  qed
qed

interpretation mq_store: message_store "store_inv L es" "\<lambda>s. msgs (mqtt_msg_tbl_presvd s)" "do_call L" "others_kept es" for L es
  by unfold_locales (use store_call in \<open>auto simp: others_kept_def data_kept_def\<close>)

section \<open>Start and wake-up\<close>

lemma malloc_frame:
  "da16x_dpm_rtm_mem_malloc n h = Some (h', p) \<Longrightarrow> rtm h' = rtm h \<and> rtm_size h' = rtm_size h"
  by (auto simp: da16x_dpm_rtm_mem_malloc_def Let_def split: if_splits option.splits)

lemma calloc_frame:
  "da16x_dpm_rtm_mem_calloc c n h = Some (h', p) \<Longrightarrow> rtm h' = rtm h \<and> rtm_size h' = rtm_size h"
  by (auto simp: da16x_dpm_rtm_mem_calloc_def memset_zero_def Let_def split: if_splits option.splits dest!: malloc_frame)

lemma allocate_frame:
  "user_rtm_pool_allocate nm n s = Some (t, c, q) \<Longrightarrow> rtm (heap t) = rtm (heap s) \<and> rtm_size (heap t) = rtm_size (heap s)"
  by (auto simp: user_rtm_pool_allocate_def dpm_user_rtm_add_def set_user_next_def Let_def
      split: if_splits option.splits dest!: calloc_frame)

lemma name_ok: "length MQTT_MSG_TBL_PRESVD_NAME < 20" "0 \<notin> set MQTT_MSG_TBL_PRESVD_NAME"
  by (simp_all add: MQTT_MSG_TBL_PRESVD_NAME_def)

lemma zero_table_inv:
  "tbl_inv (zero_table\<lparr>magic_code := MQTT_INIT_MAGIC\<rparr>)" "msgs (zero_table\<lparr>magic_code := m\<rparr>) = Map.empty"
  by (simp_all add: tbl_inv_def zero_table_def zero_row_def row_ok_def strlen_def valid_rows_def in_dir_def msgs_def
      MQTT_MSG_TBL_PRESVD_MAX_MSG_CNT_def MQTT_MSG_TBL_PRESVD_MAX_PLAYLOAD_LEN_def MQTT_TOPIC_MAX_LEN_def)

text \<open>The first start: the area is allocated, or the table works without it.\<close>

lemma first_start:
  assumes L: "layout_ok L" and p: "pool_rel p es" "MQTT_MSG_TBL_PRESVD_NAME \<notin> ename ` set es"
    "rtm (heap p) = RTM_USER_DATA_PTR" "rtm_size (heap p) = 8184"
    and m: "\<not> clean_session mosq" "0 < q"
  shows "\<exists>s code ptr p'. user_rtm_pool_allocate (Some MQTT_MSG_TBL_PRESVD_NAME) (sizeof_tbl L) p = Some (p', code, ptr) \<and>
    mq_msg_tbl_presvd_init L mem True q mosq (boot_state p) = Some (MOSQ_ERR_SUCCESS, mosq\<lparr>last_retry_check := 0\<rparr>, s) \<and>
    msgs (mqtt_msg_tbl_presvd s) = Map.empty \<and>
    (if code = ER_SUCCESS then (\<exists>e. store_inv L (es @ [e]) s) \<and> mqtt_msg_tbl_presvd_rtm s \<noteq> 0
     else store_inv L es s \<and> mqtt_msg_tbl_presvd_rtm s = 0)"
proof -
  let ?n = "sizeof_tbl L"
  have n: "0 < ?n" "?n + 32 < 2 ^ 16" using L by (simp_all add: layout_ok_def)
  obtain p' code ptr where a: "user_rtm_pool_allocate (Some MQTT_MSG_TBL_PRESVD_NAME) ?n p = Some (p', code, ptr)"
    "ptr = None \<longrightarrow> code = ER_NO_MEMORY \<and> pool_rel p' es"
    "ptr \<noteq> None \<longrightarrow> code = ER_SUCCESS \<and>
       (\<exists>a. ptr = Some (a + 32) \<and> pool_rel p' (es @ [(a, MQTT_MSG_TBL_PRESVD_NAME, ?n)]))"
    using allocate_spec[OF p(1) name_ok p(2) n] by blast
  let ?t = "zero_table\<lparr>magic_code := MQTT_INIT_MAGIC\<rparr>"
  have get: "get_rtm True (boot_state p) = Some (0, boot_state p)"
    using get_spec[OF p(1) name_ok] p(2) find_name_None[of MQTT_MSG_TBL_PRESVD_NAME es]
    by (simp add: get_rtm_def dpm_user_mem_get_def dpm_user_rtm_get_def boot_state_def)
  define s1 where "s1 = (if code = ER_SUCCESS
    then table_to_rtm L (on_tbl (\<lambda>t. ?t) (boot_state p)\<lparr>tbl_pool := p', mqtt_msg_tbl_presvd_rtm := the ptr\<rparr>)
    else on_tbl (\<lambda>t. ?t) (boot_state p)\<lparr>tbl_pool := p'\<rparr>)"
  define s where "s = (mark_done s1)\<lparr>mq_msg_tbl_presvd_enabled := True\<rparr>"
  have i2: "mq_msg_tbl_presvd_init_2 L True 0 (boot_state p) = Some s1"
    using a(1) by (simp add: mq_msg_tbl_presvd_init_2_def free_if_def dpm_user_mem_alloc_def dpm_user_rtm_allocate_def
        mq_msg_tbl_presvd_init_1_def s1_def ER_SUCCESS_def on_tbl_def boot_state_def)
  have rt: "restore_table L True (boot_state p) = Some (mark_done s1)"
    using get n i2 by (simp add: restore_table_def boot_state_def)
  have t: "mqtt_msg_tbl_presvd s1 = ?t" by (simp add: s1_def)
  have "mq_msg_tbl_presvd_restore L mem True mosq (boot_state p) = Some (mosq\<lparr>last_retry_check := 0\<rparr>, mark_done s1)"
    by (simp add: mq_msg_tbl_presvd_restore_def rt Let_def mark_done_def t zero_table_def)
  then have "mq_msg_tbl_presvd_init L mem True q mosq (boot_state p) = Some (MOSQ_ERR_SUCCESS, mosq\<lparr>last_retry_check := 0\<rparr>, s)"
    using m by (simp add: mq_msg_tbl_presvd_init_def s_def)
  moreover have "msgs (mqtt_msg_tbl_presvd s) = Map.empty" by (simp add: s_def mark_done_def t zero_table_inv)
  moreover have "(\<exists>e. store_inv L (es @ [e]) s) \<and> mqtt_msg_tbl_presvd_rtm s \<noteq> 0" if c: "code = ER_SUCCESS"
  proof -
    have "ptr \<noteq> None" using a(2) c by (auto simp: ER_SUCCESS_def ER_NO_MEMORY_def)
    then obtain b where b: "ptr = Some (b + 32)" "pool_rel p' (es @ [(b, MQTT_MSG_TBL_PRESVD_NAME, ?n)])" using a(3) by auto
    let ?e = "(b, MQTT_MSG_TBL_PRESVD_NAME, ?n)"
    define u where "u = on_tbl (\<lambda>t. ?t) (boot_state p)\<lparr>tbl_pool := p', mqtt_msg_tbl_presvd_rtm := the ptr\<rparr>"
    have u: "placed L (es @ [?e]) ?e u" using b allocate_frame[OF a(1)] p(3,4) by (simp add: placed_def u_def)
    have tu: "mqtt_msg_tbl_presvd u = ?t" by (simp add: u_def)
    note w = table_to_rtm_spec[OF u L, unfolded tu, OF inv_shape[OF zero_table_inv(1)]]
    have s: "s = (table_to_rtm L u)\<lparr>mq_msg_tbl_init_done := True, mq_msg_tbl_presvd_enabled := True\<rparr>"
      using c by (simp add: s_def s1_def mark_done_def u_def)
    have "placed L (es @ [?e]) ?e s" using w(1) by (simp add: s placed_def)
    moreover have "rtm_table L s = ?t" using w(2) by (simp add: s rtm_table_def)
    moreover have "mqtt_msg_tbl_presvd s = ?t" by (simp add: s tu)
    moreover have "?t = ?t\<lparr>last_retry_chk_time := 0\<rparr>" by (simp add: zero_table_def)
    ultimately have "mirrored L s" unfolding mirrored_def by metis
    with L \<open>placed L (es @ [?e]) ?e s\<close> \<open>mqtt_msg_tbl_presvd s = ?t\<close> zero_table_inv(1) have "store_inv L (es @ [?e]) s"
      by (intro store_invI[of L s "es @ [?e]" ?e]) (simp_all add: s)
    with \<open>placed L (es @ [?e]) ?e s\<close> show ?thesis unfolding placed_def by auto
  qed
  moreover have "store_inv L es s \<and> mqtt_msg_tbl_presvd_rtm s = 0" if "code \<noteq> ER_SUCCESS"
    using that L t zero_table_inv(1) by (simp add: store_inv_def s_def s1_def mark_done_def boot_state_def)
  ultimately show ?thesis using a(1) by (intro exI[of _ s] exI[of _ code] exI[of _ ptr] exI[of _ p']) simp
qed

text \<open>The messages in the queues after the rows have been read; allocations succeed.\<close>

lemma queue_fields:
  fixes mosq :: mosquitto and msg :: mosquitto_message_all and d :: mosquitto_msg_direction
  defines "q \<equiv> snd (mosquitto_message_queue msg d mosq)"
  shows "in_messages q = in_messages mosq @ (if d = mosq_md_in then [msg] else [])"
    "out_messages q = out_messages mosq @ (if d = mosq_md_out then [msg] else [])"
    "in_messages (q\<lparr>q2_proc := x\<rparr>) = in_messages q" "out_messages (q\<lparr>q2_proc := x\<rparr>) = out_messages q"
  by (cases d; simp add: q_def mosquitto_message_queue_def Let_def)+

lemma restore_rows_spec:
  assumes "\<forall>r \<in> set rs. row_ok r"
  shows "\<exists>mosq'. restore_rows (\<lambda>i k. True) i rs mosq = Some mosq' \<and>
    in_messages mosq' = in_messages mosq @ map msg_of (in_dir mosq_md_in rs) \<and>
    out_messages mosq' = out_messages mosq @ map msg_of (in_dir mosq_md_out rs)"
  using assms
proof (induction rs arbitrary: i mosq)
  case (Cons r rs)
  show ?case
  proof (cases "is_valid r = 0")
    case True
    then show ?thesis using Cons by (simp add: in_dir_def valid_rows_def)
  next
    case False
    define q where "q = snd (mosquitto_message_queue (msg_of r) (dir r) mosq)"
    define q' where "q' = (if dir r = mosq_md_in \<and> qos r = 2 then q\<lparr>q2_proc := 1\<rparr> else q)"
    have q': "in_messages q' = in_messages mosq @ (if dir r = mosq_md_in then [msg_of r] else [])"
      "out_messages q' = out_messages mosq @ (if dir r = mosq_md_out then [msg_of r] else [])"
      unfolding q'_def q_def by (simp_all add: queue_fields)
    obtain mosq' where m: "restore_rows (\<lambda>i k. True) (Suc i) rs q' = Some mosq'"
      "in_messages mosq' = in_messages q' @ map msg_of (in_dir mosq_md_in rs)"
      "out_messages mosq' = out_messages q' @ map msg_of (in_dir mosq_md_out rs)"
      using Cons.IH[of "Suc i" q'] Cons.prems by auto
    have "restore_rows (\<lambda>i k. True) i (r # rs) mosq = Some mosq'"
      using False m(1) build_ok[of r] Cons.prems unfolding q'_def q_def by (simp add: Let_def)
    moreover have "in_dir d (r # rs) = (if dir r = d then [r] else []) @ in_dir d rs" for d
      using False by (simp add: in_dir_def valid_rows_def)
    ultimately show ?thesis using m q' by simp
  qed
qed (simp add: in_dir_def valid_rows_def)

text \<open>The counts of the queues: \<open>i\<close> messages have come to the received ones and \<open>k\<close> to those to be sent.\<close>

definition counted :: "nat \<Rightarrow> nat \<Rightarrow> mosquitto \<Rightarrow> mosquitto \<Rightarrow> bool" where
  "counted i k mosq mosq' \<longleftrightarrow> in_queue_len mosq' = in_queue_len mosq + int i \<and> out_queue_len mosq' = out_queue_len mosq + int k \<and>
     max_inflight_messages mosq' = max_inflight_messages mosq \<and>
     (max_inflight_messages mosq = 0 \<or> inflight_messages mosq + int k \<le> max_inflight_messages mosq \<longrightarrow>
        inflight_messages mosq' = inflight_messages mosq + int k)"

lemma restore_counts:
  assumes "\<forall>r \<in> set rs. row_ok r" "\<forall>r \<in> set (in_dir mosq_md_out rs). qos r > 0"
    "restore_rows (\<lambda>i k. True) i rs mosq = Some mosq'"
  shows "counted (length (in_dir mosq_md_in rs)) (length (in_dir mosq_md_out rs)) mosq mosq'"
  using assms
proof (induction rs arbitrary: i mosq)
  case (Cons r rs)
  show ?case
  proof (cases "is_valid r = 0")
    case True
    then show ?thesis using Cons by (simp add: in_dir_def valid_rows_def)
  next
    case False
    define q where "q = snd (mosquitto_message_queue (msg_of r) (dir r) mosq)"
    define q' where "q' = (if dir r = mosq_md_in \<and> qos r = 2 then q\<lparr>q2_proc := 1\<rparr> else q)"
    have dirs: "in_dir d (r # rs) = (if dir r = d then [r] else []) @ in_dir d rs" for d
      using False by (simp add: in_dir_def valid_rows_def)
    have "restore_rows (\<lambda>i k. True) (Suc i) rs q' = Some mosq'"
      using False Cons.prems(1,3) build_ok[of r] by (auto simp: q'_def q_def Let_def split: if_splits)
    then have IH: "counted (length (in_dir mosq_md_in rs)) (length (in_dir mosq_md_out rs)) q' mosq'"
      using Cons.IH[of "Suc i" q'] Cons.prems(1,2) dirs by auto
    have "m_qos (msg_of r) = qos r" by (simp add: msg_of_def)
    then have "counted (if dir r = mosq_md_in then 1 else 0) (if dir r = mosq_md_out then 1 else 0) mosq q'"
      using Cons.prems(2) dirs[of mosq_md_out]
      by (cases "dir r") (simp_all add: counted_def q'_def q_def mosquitto_message_queue_def Let_def)
    then show ?thesis using IH dirs by (cases "dir r") (auto simp: counted_def)
  qed
qed (simp add: counted_def in_dir_def valid_rows_def)

lemma map_of_filter_dir:
  "map_of (map (\<lambda>m. (m_mid m, m)) (map msg_of (filter (\<lambda>r. dir r = d) rs))) k = map_of (map (\<lambda>r. (key r, msg_of r)) rs) (d, k)"
  by (induction rs) (auto simp: msg_of_def)

lemma map_of_dir:
  "map_of (map (\<lambda>m. (m_mid m, m)) (map msg_of (in_dir d (tbl_row t)))) k = msgs t (d, k)"
  unfolding msgs_def in_dir_def by (rule map_of_filter_dir)

lemma read_kept:
  assumes "data_kept s t e" "n \<le> esize e"
  shows "read_bytes (addr e + 32) n t = read_bytes (addr e + 32) n s"
  using assms by (auto simp: read_bytes_def data_kept_def)

text \<open>What is left of the pool after a power-down.\<close>

definition retained :: "user_pool \<Rightarrow> user_pool \<Rightarrow> bool" where
  "retained p w \<longleftrightarrow> (\<forall>a < rtm_end (heap p). ram (heap w) a = ram (heap p) a) \<and>
     first_user_addr w = first_user_addr p \<and> free_ptr w = free_ptr p \<and> \<not> init_done w"

lemma recovery_frame:
  assumes "\<not> init_done w"
  shows "rtm (heap (dpm_user_rtm_pool_create True b w)) = RTM_USER_DATA_PTR"
    "rtm_size (heap (dpm_user_rtm_pool_create True b w)) = 8184"
  using assms by (simp_all add: dpm_user_rtm_pool_create_def da16x_dpm_rtm_mem_recovery_def heap_bounds_def set_rtm_end_def
      sub32_def SIZEOF_STRUCT_RTM_MEM_def RTM_USER_DATA_PTR_def USER_DATA_ALLOC_SZ_def Let_def)

lemma find_entry: "distinct (map ename es) \<Longrightarrow> e \<in> set es \<Longrightarrow> find_name (ename e) es = Some e"
  by (induction es) auto

lemma wake_up:
  fixes b :: bool
  assumes s: "store_inv L es s" "mqtt_msg_tbl_presvd_rtm s \<noteq> 0" and w: "retained (tbl_pool s) w" and m: "\<not> clean_session mosq" "0 < q"
  defines "p \<equiv> dpm_user_rtm_pool_create True b w"
  shows "\<exists>s' mosq'. mq_msg_tbl_presvd_init L (\<lambda>i k. True) True q mosq (boot_state p) = Some (MOSQ_ERR_SUCCESS, mosq', s') \<and>
    store_inv L es s' \<and> msgs (mqtt_msg_tbl_presvd s') = msgs (mqtt_msg_tbl_presvd s) \<and>
    in_messages mosq' = in_messages mosq @ map msg_of (in_dir mosq_md_in (tbl_row (mqtt_msg_tbl_presvd s))) \<and>
    out_messages mosq' = out_messages mosq @ map msg_of (in_dir mosq_md_out (tbl_row (mqtt_msg_tbl_presvd s))) \<and>
    ((\<forall>r \<in> set (in_dir mosq_md_out (tbl_row (mqtt_msg_tbl_presvd s))). qos r > 0) \<longrightarrow>
       counted (length (in_dir mosq_md_in (tbl_row (mqtt_msg_tbl_presvd s)))) (length (in_dir mosq_md_out (tbl_row (mqtt_msg_tbl_presvd s))))
         mosq mosq') \<and>
    mqtt_msg_tbl_presvd_rtm s' = mqtt_msg_tbl_presvd_rtm s \<and> (\<forall>g \<in> set es. data_kept (tbl_pool s) (tbl_pool s') g)"
proof -
  let ?t = "mqtt_msg_tbl_presvd s"
  obtain e ts where e: "placed L es e s" and r: "rtm_table L s = ?t\<lparr>last_retry_chk_time := ts\<rparr>"
    and t: "tbl_inv ?t" and L: "layout_ok L" using s unfolding store_inv_def mirrored_def by blast
  have pl: "pool_rel (tbl_pool s) es" "e \<in> set es" "ename e = MQTT_MSG_TBL_PRESVD_NAME" "esize e = sizeof_tbl L"
    "mqtt_msg_tbl_presvd_rtm s = addr e + 32" "rtm (heap (tbl_pool s)) = RTM_USER_DATA_PTR" "rtm_size (heap (tbl_pool s)) = 8184"
    using e by (simp_all add: placed_def)
  have p: "pool_rel p es" "\<forall>g \<in> set es. data_kept (tbl_pool s) p g"
    using pool_recovered[OF pl(1,6,7), of w b] w by (simp_all add: retained_def p_def Let_def)
  have fnd: "find_name MQTT_MSG_TBL_PRESVD_NAME es = Some e" using find_entry[OF pool_relD(5)[OF p(1)] pl(2)] pl(3) by simp
  define u where "u = (boot_state p)\<lparr>mqtt_msg_tbl_presvd_rtm := addr e + 32\<rparr>"
  have get: "get_rtm True (boot_state p) = Some (sizeof_tbl L, u)"
    using get_spec[OF p(1) name_ok] fnd pl(4)
    by (simp add: get_rtm_def dpm_user_mem_get_def dpm_user_rtm_get_def u_def boot_state_def)
  have ur: "rtm_table L u = ?t\<lparr>last_retry_chk_time := ts\<rparr>"
    using r read_kept[of "tbl_pool s" p e] p(2) pl by (simp add: rtm_table_def u_def boot_state_def)
  have ud: "\<not> mq_msg_tbl_init_done u" by (simp add: u_def boot_state_def)
  define v where "v = mark_done (u\<lparr>mqtt_msg_tbl_presvd := rtm_table L u\<rparr>)"
  have rt: "restore_table L True (boot_state p) = Some v"
    using get ud tbl_invD(6)[OF t] by (simp add: restore_table_def mq_msg_tbl_presvd_init_3_def ur v_def)
  have vt: "mqtt_msg_tbl_presvd v = ?t\<lparr>last_retry_chk_time := ts\<rparr>" by (simp add: v_def mark_done_def ur)
  have none: "in_dir mosq_md_in (tbl_row ?t) = [] \<and> in_dir mosq_md_out (tbl_row ?t) = []"
    if "\<not> total_rx_msg_cnt ?t + total_tx_msg_cnt ?t > 0"
    unfolding length_0_conv[symmetric] using that tbl_invD(4,5)[OF t] by linarith
  obtain m1 where m1: "(if total_rx_msg_cnt ?t + total_tx_msg_cnt ?t > 0 then restore_rows (\<lambda>i k. True) 0 (tbl_row ?t) mosq else Some mosq) = Some m1"
    "in_messages m1 = in_messages mosq @ map msg_of (in_dir mosq_md_in (tbl_row ?t))"
    "out_messages m1 = out_messages mosq @ map msg_of (in_dir mosq_md_out (tbl_row ?t))"
    using restore_rows_spec[OF tbl_invD(2)[OF t], of 0 mosq] none by (cases "total_rx_msg_cnt ?t + total_tx_msg_cnt ?t > 0") auto
  have cnt: "counted (length (in_dir mosq_md_in (tbl_row ?t))) (length (in_dir mosq_md_out (tbl_row ?t))) mosq (m1\<lparr>last_retry_check := ts\<rparr>)"
    if "\<forall>r \<in> set (in_dir mosq_md_out (tbl_row ?t)). qos r > 0"
    using restore_counts[OF tbl_invD(2)[OF t] that, of 0 mosq m1] m1(1) none by (auto simp: counted_def split: if_splits)
  define s' where "s' = v\<lparr>mq_msg_tbl_presvd_enabled := True\<rparr>"
  have "mq_msg_tbl_presvd_init L (\<lambda>i k. True) True q mosq (boot_state p) =
      Some (MOSQ_ERR_SUCCESS, m1\<lparr>last_retry_check := ts\<rparr>, s')"
    using m m1(1) by (simp add: mq_msg_tbl_presvd_init_def mq_msg_tbl_presvd_restore_def rt vt Let_def s'_def split: if_splits)
  moreover have "store_inv L es s'"
  proof (rule store_invI[OF L])
    show "placed L es e s'" using pl p(1) recovery_frame[of w b] w
      by (simp add: placed_def s'_def v_def mark_done_def u_def boot_state_def retained_def p_def)
    have "rtm_table L s' = ?t\<lparr>last_retry_chk_time := ts\<rparr>" using ur by (simp add: rtm_table_def s'_def v_def mark_done_def)
    then show "mirrored L s'" using vt by (auto simp: mirrored_def s'_def)
  qed (simp_all add: s'_def vt t)
  moreover have "tbl_pool s' = p" by (simp add: s'_def v_def mark_done_def u_def boot_state_def)
  moreover have "mqtt_msg_tbl_presvd_rtm s' = mqtt_msg_tbl_presvd_rtm s" using pl(5) by (simp add: s'_def v_def mark_done_def u_def)
  ultimately show ?thesis using m1(2,3) p(2) vt cnt
    by (intro exI[of _ s'] exI[of _ "m1\<lparr>last_retry_check := ts\<rparr>"]) (simp add: s'_def)
qed

end
