(* ===== verification/Mqtt_Window.thy ===== *)
theory Mqtt_Window
  imports Mqtt_Session Mqtt_Packet_Props Mqtt_Claims
begin

text \<open>
  The window of messages under way: at the front of the queue of outgoing messages are those that have been sent, as many as are
  counted and at most as many as allowed, behind them those that wait, and nothing waits while there is room. Every operation of the
  session keeps this.
\<close>

section \<open>Sending\<close>

text \<open>The packets that a session has queued, the messages it has handed on and the identifiers it has reported.\<close>

definition queued_in :: "effect list \<Rightarrow> mosq_packet list" where
  "queued_in t = concat (map (\<lambda>x. case x of Queued p \<Rightarrow> [p] | _ \<Rightarrow> []) t)"

definition messages_in :: "effect list \<Rightarrow> (u8 list \<times> u8 list) list" where
  "messages_in t = concat (map (\<lambda>x. case x of On_message pay tpc \<Rightarrow> [(pay, tpc)] | _ \<Rightarrow> []) t)"

definition published_in :: "effect list \<Rightarrow> u16 list" where
  "published_in t = concat (map (\<lambda>x. case x of On_publish m \<Rightarrow> [m] | _ \<Rightarrow> []) t)"

lemmas trace_readers = queued_in_def messages_in_def published_in_def

lemma in_append [simp]:
  "queued_in (t @ u) = queued_in t @ queued_in u" "messages_in (t @ u) = messages_in t @ messages_in u"
  "published_in (t @ u) = published_in t @ published_in u"
  by (simp_all add: trace_readers)

lemma in_Nil [simp]: "queued_in [] = []" "messages_in [] = []" "published_in [] = []"
  by (simp_all add: trace_readers)

lemma in_one [simp]:
  "queued_in (x # t) = (case x of Queued p \<Rightarrow> [p] | _ \<Rightarrow> []) @ queued_in t"
  "messages_in (x # t) = (case x of On_message pay tpc \<Rightarrow> [(pay, tpc)] | _ \<Rightarrow> []) @ messages_in t"
  "published_in (x # t) = (case x of On_publish m \<Rightarrow> [m] | _ \<Rightarrow> []) @ published_in t"
  by (simp_all add: trace_readers)

lemma on_client_fields [simp]:
  "client (on_client f s) = f (client s)" "table (on_client f s) = table s" "pub_msg_id (on_client f s) = pub_msg_id s"
  "trace (on_client f s) = trace s" "tx_count (on_client f s) = tx_count s"
  by (simp_all add: on_client_def)

lemma emit_fields [simp]:
  "client (emit x s) = client s" "table (emit x s) = table s" "pub_msg_id (emit x s) = pub_msg_id s"
  "trace (emit x s) = trace s @ [x]" "tx_count (emit x s) = tx_count s"
  by (simp_all add: emit_def)

text \<open>The allocations and the network do not fail.\<close>

definition tx_ok :: "tx_env \<Rightarrow> bool" where
  "tx_ok e \<longleftrightarrow> (\<forall>k. tx_mem1 e k \<and> tx_mem2 e k \<and> tx_rc e k = 0)"

text \<open>A step that only sends.\<close>

definition quiet :: "session \<Rightarrow> session \<Rightarrow> bool" where
  "quiet s s' \<longleftrightarrow> client s' = client s \<and> table s' = table s \<and> pub_msg_id s' = pub_msg_id s \<and> (\<exists>ps. trace s' = trace s @ map Queued ps)"

lemma quietD:
  "quiet s s' \<Longrightarrow> client s' = client s" "quiet s s' \<Longrightarrow> table s' = table s" "quiet s s' \<Longrightarrow> pub_msg_id s' = pub_msg_id s"
  by (simp_all add: quiet_def)

lemma in_map_Queued [simp]: "messages_in (map Queued ps) = []" "published_in (map Queued ps) = []" "queued_in (map Queued ps) = ps"
  by (induction ps) simp_all

lemma quiet_trace:
  assumes "quiet s s'"
  shows "messages_in (trace s') = messages_in (trace s)" "published_in (trace s') = published_in (trace s)"
  using assms by (auto simp: quiet_def)

lemma quiet_refl [simp]: "quiet s s" by (auto simp: quiet_def intro: exI[of _ "[]"])

lemma quiet_trans: "quiet s s' \<Longrightarrow> quiet s' s'' \<Longrightarrow> quiet s s''"
  by (auto simp: quiet_def) (metis map_append)

lemma transmit_spec:
  assumes "\<And>m1 m2 junk. send m1 m2 junk = sending k m1 m2 c b"
  shows "\<exists>rc s'. transmit e send s = Some (rc, s') \<and> quiet s s' \<and>
    (tx_ok e \<and> length b < MAX_REMAINING \<longrightarrow> rc = 0 \<and> trace s' = trace s @ [Queued (packet_for k c b)])"
proof -
  have "\<exists>ps. trace s @ [Queued p] = trace s @ map Queued ps" for p by (intro exI[of _ "[p]"]) simp
  then show ?thesis by (auto simp: transmit_def assms sending_def tx_ok_def quiet_def emit_def Let_def)
qed

definition sendable :: "mosquitto_message_all \<Rightarrow> bool" where
  "sendable x \<longleftrightarrow> length (m_topic x) < 65536 \<and> length (m_payload x) \<le> 268435455 \<and> m_qos x \<in> {0, 1, 2}"

definition publish_packet :: "mosquitto_message_all \<Rightarrow> mosq_packet" where
  "publish_packet x = packet_for (m_mid x) (publish_command (m_dup x) (m_qos x) (m_retain x))
     (publish_body (m_mid x) (m_topic x) (m_payload x) (m_qos x))"

lemma send_publish_message:
  assumes "sendable x"
  shows "\<exists>rc s'. mosquitto_send_publish e x s = Some (rc, s') \<and> quiet s s' \<and>
    (tx_ok e \<and> length (m_topic x) + length (m_payload x) + 4 < MAX_REMAINING \<longrightarrow>
       rc = 0 \<and> trace s' = trace s @ [Queued (publish_packet x)])"
proof -
  let ?b = "publish_body (m_mid x) (m_topic x) (m_payload x) (m_qos x)"
  have l: "length (m_topic x) < 65536" "length ?b < 2 ^ 32"
    "length ?b \<le> length (m_topic x) + length (m_payload x) + 4" using assms by (auto simp: sendable_def)
  have "mosquitto_send_real_publish m1 m2 junk (m_mid x) (m_topic x) (m_payload x) (m_qos x) (m_retain x) (m_dup x) =
      sending (m_mid x) m1 m2 (publish_command (m_dup x) (m_qos x) (m_retain x)) ?b" for m1 m2 junk
    by (rule send_publish[OF l(1)]) (use l(2) in simp)
  then obtain rc s' where "mosquitto_send_publish e x s = Some (rc, s')" "quiet s s'"
    "tx_ok e \<and> length ?b < MAX_REMAINING \<longrightarrow> rc = 0 \<and> trace s' = trace s @ [Queued (publish_packet x)]"
    unfolding mosquitto_send_publish_def publish_packet_def
    using transmit_spec[of "\<lambda>m1 m2 junk. mosquitto_send_real_publish m1 m2 junk (m_mid x) (m_topic x) (m_payload x) (m_qos x)
        (m_retain x) (m_dup x)" "m_mid x" _ ?b e s] by blast
  then show ?thesis using l(3) by (intro exI[of _ rc] exI[of _ s']) linarith
qed

lemma transmit_mid:
  "\<exists>rc s'. transmit e (\<lambda>m1 m2 junk. mosquitto_send_puback m1 m2 junk m) s = Some (rc, s') \<and> quiet s s'"
  "\<exists>rc s'. transmit e (\<lambda>m1 m2 junk. mosquitto_send_pubrec m1 m2 junk m) s = Some (rc, s') \<and> quiet s s'"
  "\<exists>rc s'. transmit e (\<lambda>m1 m2 junk. mosquitto_send_pubrel m1 m2 junk m) s = Some (rc, s') \<and> quiet s s'"
  "\<exists>rc s'. transmit e (\<lambda>m1 m2 junk. mosquitto_send_pubcomp m1 m2 junk m) s = Some (rc, s') \<and> quiet s s'"
  "\<exists>rc s'. transmit e mosquitto_send_pingresp s = Some (rc, s') \<and> quiet s s'"
  using transmit_spec[of "\<lambda>m1 m2 junk. mosquitto_send_puback m1 m2 junk m" 0 PUBACK "be16 m" e s]
    transmit_spec[of "\<lambda>m1 m2 junk. mosquitto_send_pubrec m1 m2 junk m" 0 PUBREC "be16 m" e s]
    transmit_spec[of "\<lambda>m1 m2 junk. mosquitto_send_pubrel m1 m2 junk m" 0 "PUBREL OR 2" "be16 m" e s]
    transmit_spec[of "\<lambda>m1 m2 junk. mosquitto_send_pubcomp m1 m2 junk m" 0 PUBCOMP "be16 m" e s]
    transmit_spec[of mosquitto_send_pingresp 0 PINGRESP "[]" e s]
  by (auto simp: mosquitto_send_puback_def mosquitto_send_pubrec_def mosquitto_send_pubrel_def mosquitto_send_pubcomp_def
      mosquitto_send_pingresp_def send_with_mid send_simple)

section \<open>The window\<close>

abbreviation on_way :: "mosquitto_message_all \<Rightarrow> bool" where "on_way x \<equiv> m_state x \<noteq> mosq_ms_invalid"

definition flying :: "mosquitto \<Rightarrow> mosquitto_message_all list" where "flying c = takeWhile on_way (out_messages c)"

definition waiting :: "mosquitto \<Rightarrow> mosquitto_message_all list" where "waiting c = dropWhile on_way (out_messages c)"

definition out_ok :: "int \<Rightarrow> mosquitto_message_all list \<Rightarrow> mosquitto_message_all list \<Rightarrow> bool" where
  "out_ok mx fl wt \<longleftrightarrow> (\<forall>x \<in> set fl. on_way x) \<and> (\<forall>x \<in> set wt. \<not> on_way x) \<and> (\<forall>x \<in> set (fl @ wt). sendable x \<and> m_qos x \<noteq> 0) \<and>
     0 \<le> mx \<and> (mx > 0 \<longrightarrow> int (length fl) \<le> mx) \<and> (wt \<noteq> [] \<longrightarrow> mx > 0 \<and> int (length fl) = mx)"

definition window_ok :: "mosquitto \<Rightarrow> bool" where
  "window_ok c \<longleftrightarrow> out_ok (max_inflight_messages c) (flying c) (waiting c) \<and>
     inflight_messages c = int (length (flying c)) \<and> out_queue_len c = int (length (out_messages c))"

lemma split_out:
  assumes "\<forall>x \<in> set fl. on_way x" "\<forall>x \<in> set wt. \<not> on_way x" "out_messages c = fl @ wt"
  shows "flying c = fl" "waiting c = wt"
proof -
  have "takeWhile on_way wt = [] \<and> dropWhile on_way wt = wt" using assms(2) by (cases wt) auto
  then show "flying c = fl" "waiting c = wt" using assms(1,3) by (simp_all add: flying_def waiting_def)
qed

lemma window_okI:
  assumes "out_ok (max_inflight_messages c) fl wt" "out_messages c = fl @ wt" "inflight_messages c = int (length fl)"
    "out_queue_len c = int (length (fl @ wt))"
  shows "window_ok c"
proof -
  have s: "\<forall>x \<in> set fl. on_way x" "\<forall>x \<in> set wt. \<not> on_way x" using assms(1) unfolding out_ok_def by blast+
  show ?thesis using assms split_out[OF s assms(2)] by (simp add: window_ok_def)
qed

lemma window_okE:
  assumes "window_ok c"
  shows "out_ok (max_inflight_messages c) (flying c) (waiting c)" "out_messages c = flying c @ waiting c"
    "inflight_messages c = int (length (flying c))" "out_queue_len c = int (length (flying c @ waiting c))"
  using assms by (simp_all add: window_ok_def flying_def waiting_def flip: length_append)

lemma window_other:
  "out_messages c' = out_messages c \<Longrightarrow> max_inflight_messages c' = max_inflight_messages c \<Longrightarrow>
   inflight_messages c' = inflight_messages c \<Longrightarrow> out_queue_len c' = out_queue_len c \<Longrightarrow> window_ok c' = window_ok c"
  by (simp add: window_ok_def flying_def waiting_def)

lemma take_mid_Some:
  "take_mid m xs = Some (x, ys) \<Longrightarrow> \<exists>as bs. xs = as @ x # bs \<and> ys = as @ bs \<and> m_mid x = m \<and> m \<notin> m_mid ` set as"
proof (induction xs arbitrary: ys)
  case (Cons a xs)
  show ?case
  proof (cases "m_mid a = m")
    case True
    then show ?thesis using Cons.prems by (intro exI[of _ "[]"] exI[of _ xs]) auto
  next
    case False
    then obtain zs where z: "take_mid m xs = Some (x, zs)" "ys = a # zs" using Cons.prems by auto
    obtain as bs where "xs = as @ x # bs \<and> zs = as @ bs \<and> m_mid x = m \<and> m \<notin> m_mid ` set as" using Cons.IH[OF z(1)] by blast
    then show ?thesis using z(2) False by (intro exI[of _ "a # as"] exI[of _ bs]) auto
  qed
qed simp

lemma take_mid_append:
  "take_mid m (xs @ ys) = (case take_mid m xs of Some (x, zs) \<Rightarrow> Some (x, zs @ ys)
     | None \<Rightarrow> map_option (\<lambda>(x, zs). (x, xs @ zs)) (take_mid m ys))"
  by (induction xs) (auto simp: option.map_comp comp_def case_prod_unfold option.map_ident split: option.splits)

lemma take_mid_None: "take_mid m xs = None \<longleftrightarrow> m \<notin> m_mid ` set xs"
  by (induction xs) auto

section \<open>Removing a message\<close>

lemma promote_flying:
  "\<forall>x \<in> set fl. on_way x \<Longrightarrow> promote e (fl @ ms) s = map_option (\<lambda>(rc, ms1, s1). (rc, fl @ ms1, s1)) (promote e ms s)"
proof (induction fl)
  case Nil
  then show ?case by (simp add: case_prod_beta option.map_ident_strong)
next
  case (Cons x fl)
  show ?case
  proof (cases "window_open (client s)")
    case True
    have nx: "m_state x \<noteq> mosq_ms_invalid" using Cons.prems by simp
    have IH: "promote e (fl @ ms) s = map_option (\<lambda>(rc, ms1, s1). (rc, fl @ ms1, s1)) (promote e ms s)" using Cons by simp
    show ?thesis using True nx by (simp add: IH option.map_comp comp_def case_prod_beta)
  next
    case False
    then show ?thesis by (cases ms) simp_all
  qed
qed

lemma promote_closed: "\<not> window_open (client s) \<Longrightarrow> promote e ms s = Some (MOSQ_ERR_SUCCESS, ms, s)"
  by (cases ms) simp_all

text \<open>The message that leaves the waiting part, as it is sent.\<close>

definition started :: "mosquitto_message_all \<Rightarrow> mosquitto_message_all" where
  "started x = x\<lparr>m_state := (if m_qos x = 1 then mosq_ms_wait_for_puback else mosq_ms_wait_for_pubrec)\<rparr>"

lemma started_fields [simp]:
  "m_mid (started x) = m_mid x" "m_topic (started x) = m_topic x" "m_payload (started x) = m_payload x" "m_qos (started x) = m_qos x"
  "m_dup (started x) = m_dup x" "m_retain (started x) = m_retain x" "on_way (started x)" "sendable (started x) = sendable x"
  by (simp_all add: started_def sendable_def)

definition count_inflight :: "int \<Rightarrow> session \<Rightarrow> session" where
  "count_inflight n = on_client (\<lambda>c. c\<lparr>inflight_messages := inflight_messages c + n\<rparr>)"

text \<open>With one free place one waiting message is sent.\<close>

lemma promote_one:
  assumes "\<not> on_way w" "sendable w" "m_qos w \<noteq> 0" "0 < max_inflight_messages (client s)"
    "inflight_messages (client s) = max_inflight_messages (client s) - 1"
  shows "\<exists>rc s'. promote e (w # ws) s = Some (rc, started w # ws, s') \<and> quiet (count_inflight 1 s) s' \<and>
    mosquitto_send_publish e (started w) (count_inflight 1 s) = Some (rc, s') \<and>
    (tx_ok e \<and> length (m_topic w) + length (m_payload w) + 4 < MAX_REMAINING \<longrightarrow>
       rc = 0 \<and> trace s' = trace s @ [Queued (publish_packet (started w))])"
proof -
  have q: "m_qos w > 0" "m_qos w = 1 \<or> m_qos w = 2" using assms(2,3) by (auto simp: sendable_def)
  let ?s0 = "count_inflight 1 s"
  obtain rc s' where s: "mosquitto_send_publish e (started w) ?s0 = Some (rc, s')" "quiet ?s0 s'"
    "tx_ok e \<and> length (m_topic w) + length (m_payload w) + 4 < MAX_REMAINING \<longrightarrow>
       rc = 0 \<and> trace s' = trace ?s0 @ [Queued (publish_packet (started w))]"
    using send_publish_message[of "started w" e ?s0] assms(2) by auto
  have st: "w\<lparr>m_state := if m_qos w = 1 then mosq_ms_wait_for_puback else if m_qos w = 2 then mosq_ms_wait_for_pubrec else m_state w\<rparr> = started w"
    using q(2) by (auto simp: started_def)
  have "\<not> window_open (client s')" using quietD(1)[OF s(2)] assms(4,5) by (simp add: window_open_def count_inflight_def)
  then have "promote e ws s' = Some (MOSQ_ERR_SUCCESS, ws, s')" by (rule promote_closed)
  then have "promote e (w # ws) s = Some (rc, started w # ws, s')"
    using assms(1,4,5) q(1) s(1) by (simp add: st window_open_def MOSQ_ERR_SUCCESS_def Let_def flip: count_inflight_def)
  then show ?thesis using s by (auto simp: count_inflight_def)
qed

lemma out_ok_refill:
  assumes "out_ok mx (as @ x # bs) wt"
  shows "out_ok mx (as @ bs @ map started (take 1 wt)) (drop 1 wt)"
proof (cases wt)
  case Nil
  then show ?thesis using assms by (auto simp: out_ok_def)
next
  case (Cons w ws)
  then show ?thesis using assms by (auto simp: out_ok_def)
qed

text \<open>What a removal leaves of the session apart from its queue of outgoing messages.\<close>

definition same_rest :: "session \<Rightarrow> session \<Rightarrow> bool" where
  "same_rest s s' \<longleftrightarrow> table s' = table s \<and> pub_msg_id s' = pub_msg_id s \<and>
     (client s')\<lparr>out_messages := [], inflight_messages := 0, out_queue_len := 0\<rparr> =
     (client s)\<lparr>out_messages := [], inflight_messages := 0, out_queue_len := 0\<rparr>"

lemma remove_out:
  assumes w: "window_ok (client s)" and t: "take_mid m (out_messages (client s)) = Some (x, ms)" and x: "on_way x"
  shows "\<exists>rc s' as bs. mosquitto_message_remove e m mosq_md_out s = Some (rc, Some x, s') \<and> window_ok (client s') \<and> same_rest s s' \<and>
    flying (client s) = as @ x # bs \<and> m \<notin> m_mid ` set as \<and> m_mid x = m \<and>
    flying (client s') = as @ bs @ map started (take 1 (waiting (client s))) \<and> waiting (client s') = drop 1 (waiting (client s)) \<and>
    (\<exists>ps. trace s' = trace s @ map Queued ps) \<and>
    (tx_ok e \<and> (\<forall>y \<in> set (waiting (client s)). length (m_topic y) + length (m_payload y) + 4 < MAX_REMAINING) \<longrightarrow>
       rc = 0 \<and> trace s' = trace s @ map (Queued \<circ> publish_packet \<circ> started) (take 1 (waiting (client s))))"
proof -
  let ?c = "client s"
  let ?mx = "max_inflight_messages ?c" and ?wt = "waiting ?c"
  note W = window_okE[OF w]
  obtain zs where z: "take_mid m (flying ?c) = Some (x, zs)" "ms = zs @ ?wt"
  proof (cases "take_mid m (flying ?c)")
    case None
    then obtain zs where "take_mid m ?wt = Some (x, zs)" using t unfolding W(2) take_mid_append by auto
    then have "x \<in> set ?wt" using take_mid_Some by fastforce
    then show thesis using W(1) x by (auto simp: out_ok_def)
  next
    case (Some a)
    then show thesis using t that unfolding W(2) take_mid_append by (cases a) auto
  qed
  obtain as bs where ab: "flying ?c = as @ x # bs" "zs = as @ bs" "m_mid x = m" "m \<notin> m_mid ` set as"
    using take_mid_Some[OF z(1)] by blast
  have qx: "m_qos x > 0" using W(1) ab(1) by (auto simp: out_ok_def sendable_def)
  have fl: "\<forall>y \<in> set zs. on_way y" using W(1) ab(1,2) by (auto simp: out_ok_def)
  define s1 where "s1 = on_client (\<lambda>c. c\<lparr>out_messages := ms, out_queue_len := out_queue_len c - 1,
      inflight_messages := inflight_messages c - 1\<rparr>) s"
  have rm: "mosquitto_message_remove e m mosq_md_out s =
      map_option (\<lambda>(rc, ms1, s1). (rc, Some x, on_client (\<lambda>c. c\<lparr>out_messages := ms1\<rparr>) s1)) (promote e ms s1)"
    using t qx by (simp add: mosquitto_message_remove_def s1_def)
  have ok: "out_ok ?mx (as @ bs @ map started (take 1 ?wt)) (drop 1 ?wt)" using out_ok_refill W(1) ab(1) by simp
  have pr: "\<exists>rc s2. promote e ?wt s1 = Some (rc, map started (take 1 ?wt) @ drop 1 ?wt, s2) \<and>
      quiet (count_inflight (int (length (take 1 ?wt))) s1) s2 \<and>
      (tx_ok e \<and> (\<forall>y \<in> set ?wt. length (m_topic y) + length (m_payload y) + 4 < MAX_REMAINING) \<longrightarrow>
         rc = 0 \<and> trace s2 = trace s @ map (Queued \<circ> publish_packet \<circ> started) (take 1 ?wt))"
  proof (cases ?wt)
    case Nil
    then show ?thesis by (simp add: MOSQ_ERR_SUCCESS_def count_inflight_def s1_def on_client_def)
  next
    case (Cons v vs)
    have v: "\<not> on_way v" "sendable v" "m_qos v \<noteq> 0" "0 < ?mx" "int (length (flying ?c)) = ?mx"
      using W(1) unfolding out_ok_def Cons by simp_all
    have "0 < max_inflight_messages (client s1)" "inflight_messages (client s1) = max_inflight_messages (client s1) - 1"
      using v(4,5) W(3) by (simp_all add: s1_def)
    from promote_one[OF v(1-3) this, of e vs] show ?thesis by (auto simp: Cons s1_def)
  qed
  then obtain rc s2 where p: "promote e ?wt s1 = Some (rc, map started (take 1 ?wt) @ drop 1 ?wt, s2)"
    "quiet (count_inflight (int (length (take 1 ?wt))) s1) s2"
    "tx_ok e \<and> (\<forall>y \<in> set ?wt. length (m_topic y) + length (m_payload y) + 4 < MAX_REMAINING) \<longrightarrow>
       rc = 0 \<and> trace s2 = trace s @ map (Queued \<circ> publish_packet \<circ> started) (take 1 ?wt)" by blast
  define s' where "s' = on_client (\<lambda>c. c\<lparr>out_messages := as @ bs @ map started (take 1 ?wt) @ drop 1 ?wt\<rparr>) s2"
  have r: "mosquitto_message_remove e m mosq_md_out s = Some (rc, Some x, s')"
    unfolding rm z(2) promote_flying[OF fl] p(1) by (simp add: s'_def ab(2))
  have c': "client s' = ?c\<lparr>out_messages := as @ bs @ map started (take 1 ?wt) @ drop 1 ?wt, out_queue_len := out_queue_len ?c - 1,
      inflight_messages := inflight_messages ?c - 1 + int (length (take 1 ?wt))\<rparr>"
    using quietD(1)[OF p(2)] by (simp add: s'_def count_inflight_def s1_def)
  have len: "length (take 1 ?wt) + length (drop 1 ?wt) = length ?wt" by simp
  have w': "window_ok (client s')"
    by (rule window_okI[of _ "as @ bs @ map started (take 1 ?wt)" "drop 1 ?wt"]) (use ok W(3,4) ab(1) len in \<open>simp_all add: c'\<close>)
  have fw: "flying (client s') = as @ bs @ map started (take 1 ?wt)" "waiting (client s') = drop 1 ?wt"
    using ok by (intro split_out; auto simp: out_ok_def c' dest: in_set_dropD)+
  have sr: "same_rest s s'" unfolding same_rest_def c' using quietD(2,3)[OF p(2)] by (auto simp: s'_def count_inflight_def s1_def)
  have tr: "\<exists>ps. trace s' = trace s @ map Queued ps" using p(2) by (simp add: quiet_def s'_def count_inflight_def s1_def)
  show ?thesis using r w' fw sr tr p(3) ab by (intro exI[of _ rc] exI[of _ s'] exI[of _ as] exI[of _ bs]) (simp add: s'_def)
qed

section \<open>What the operations do\<close>

lemma same_rest_refl [simp]: "same_rest s s" by (simp add: same_rest_def)

lemma same_rest_fields:
  assumes "same_rest s s'"
  shows "table s' = table s" "pub_msg_id s' = pub_msg_id s" "in_messages (client s') = in_messages (client s)"
    "in_queue_len (client s') = in_queue_len (client s)" "max_inflight_messages (client s') = max_inflight_messages (client s)"
    "message_retry (client s') = message_retry (client s)" "q2_proc (client s') = q2_proc (client s)"
proof -
  note c = assms[unfolded same_rest_def, THEN conjunct2, THEN conjunct2]
  show "table s' = table s" "pub_msg_id s' = pub_msg_id s" using assms by (simp_all add: same_rest_def)
  show "in_messages (client s') = in_messages (client s)" "in_queue_len (client s') = in_queue_len (client s)"
    "max_inflight_messages (client s') = max_inflight_messages (client s)" "message_retry (client s') = message_retry (client s)"
    "q2_proc (client s') = q2_proc (client s)"
    using arg_cong[OF c, of in_messages] arg_cong[OF c, of in_queue_len] arg_cong[OF c, of max_inflight_messages]
      arg_cong[OF c, of message_retry] arg_cong[OF c, of q2_proc] by simp_all
qed

lemma table_enabled [simp]:
  "mq_msg_tbl_presvd_enabled (mq_msg_tbl_presvd_copy_to_rtm L t) = mq_msg_tbl_presvd_enabled t"
  "mq_msg_tbl_presvd_enabled (mq_msg_tbl_presvd_sync_to_rtm L t) = mq_msg_tbl_presvd_enabled t"
  "mq_msg_tbl_presvd_enabled (on_tbl f t) = mq_msg_tbl_presvd_enabled t"
  "mq_msg_tbl_presvd_enabled (snd (mq_msg_tbl_presvd_del L msg d t)) = mq_msg_tbl_presvd_enabled t"
  "mq_msg_tbl_presvd_enabled (snd (mq_msg_tbl_presvd_update L d m st ts t)) = mq_msg_tbl_presvd_enabled t"
  "mq_msg_tbl_presvd_enabled (snd (mq_msg_tbl_presvd_update_last_mid L m t)) = mq_msg_tbl_presvd_enabled t"
  "mq_msg_tbl_presvd_enabled (snd (mq_msg_tbl_presvd_update_last_retry_chk ts t)) = mq_msg_tbl_presvd_enabled t"
  by (simp_all add: mq_msg_tbl_presvd_copy_to_rtm_def mq_msg_tbl_presvd_sync_to_rtm_def table_to_rtm_def on_tbl_def
      mq_msg_tbl_presvd_del_def mq_msg_tbl_presvd_update_def mq_msg_tbl_presvd_update_last_mid_def
      mq_msg_tbl_presvd_update_last_retry_chk_def Let_def split: option.splits)

text \<open>Topics the table has room for, when it is in use.\<close>

definition fits_table :: "session \<Rightarrow> u8 list \<Rightarrow> bool" where
  "fits_table s t \<longleftrightarrow> (mq_msg_tbl_presvd_enabled (table s) \<longrightarrow> length t \<le> 64)"

lemma table_add_spec:
  assumes "fits_table s (m_topic msg)"
  shows "\<exists>t. table_add L msg d s = Some (s\<lparr>table := t\<rparr>) \<and> mq_msg_tbl_presvd_enabled t = mq_msg_tbl_presvd_enabled (table s) \<and>
    (\<exists>rc. mq_msg_tbl_presvd_add L msg d (table s) = Some (rc, t))"
  using assms by (auto simp: table_add_def mq_msg_tbl_presvd_add_def fits_table_def MQTT_TOPIC_MAX_LEN_def split: option.splits)

lemma table_del_fields [simp]:
  "client (table_del L msg d s) = client s" "trace (table_del L msg d s) = trace s" "pub_msg_id (table_del L msg d s) = pub_msg_id s"
  "table (table_del L msg d s) = snd (mq_msg_tbl_presvd_del L msg d (table s))"
  by (simp_all add: table_del_def)

lemma mid_generate_fields:
  assumes "mosquitto_mid_generate L dpm s = (m, s')"
  shows "client s' = (client s)\<lparr>last_mid := m\<rparr>" "trace s' = trace s"
    "table s' = snd (mq_msg_tbl_presvd_update_last_mid L m (table s))"
  using assms by (auto simp: mosquitto_mid_generate_def Let_def split: prod.splits)

definition in_ok :: "mosquitto \<Rightarrow> bool" where
  "in_ok c \<longleftrightarrow> in_queue_len c = int (length (in_messages c)) \<and> distinct (map m_mid (in_messages c)) \<and>
     (\<forall>x \<in> set (in_messages c). m_qos x = 2 \<and> m_state x = mosq_ms_wait_for_pubrel)"

definition sess_ok :: "session \<Rightarrow> bool" where "sess_ok s \<longleftrightarrow> window_ok (client s) \<and> in_ok (client s)"

lemma in_other:
  "in_messages c' = in_messages c \<Longrightarrow> in_queue_len c' = in_queue_len c \<Longrightarrow> in_ok c' = in_ok c"
  by (simp add: in_ok_def)

lemma queue_window:
  assumes "window_ok c" "sendable msg" "m_qos msg \<noteq> 0" "on_way msg = (fst (mosquitto_message_queue msg mosq_md_out c) = 0)"
  shows "window_ok (snd (mosquitto_message_queue msg mosq_md_out c))"
proof -
  note W = window_okE[OF assms(1)]
  have q: "m_qos msg > 0" using assms(2,3) by (auto simp: sendable_def)
  let ?mx = "max_inflight_messages c"
  show ?thesis
  proof (cases "?mx = 0 \<or> inflight_messages c < ?mx")
    case True
    then have wt: "waiting c = []" using W(1,3) by (auto simp: out_ok_def)
    have "on_way msg" using True q assms(4) by (simp add: mosquitto_message_queue_def Let_def)
    then have "out_ok ?mx (flying c @ [msg]) []" using W(1,3) True assms(2,3) by (auto simp: out_ok_def wt)
    then show ?thesis using True q W(2-4) wt
      by (intro window_okI[of _ "flying c @ [msg]" "[]"]) (simp_all add: mosquitto_message_queue_def Let_def)
  next
    case False
    then have f: "?mx > 0" "int (length (flying c)) = ?mx" using W(1,3) by (auto simp: out_ok_def)
    have "\<not> on_way msg" using False q assms(4) by (simp add: mosquitto_message_queue_def Let_def)
    then have "out_ok ?mx (flying c) (waiting c @ [msg])" using W(1,3) f assms(2,3) by (auto simp: out_ok_def)
    then show ?thesis using False q W(2-4)
      by (intro window_okI[of _ "flying c" "waiting c @ [msg]"]) (simp_all add: mosquitto_message_queue_def Let_def)
  qed
qed

lemma pub_topic_loop_Some: "pub_topic_loop n str = Some k \<Longrightarrow> k = n + length str"
  by (induction n str rule: pub_topic_loop.induct) (auto split: if_splits)

lemma pub_topic_ok: "mosquitto_pub_topic_check t = MOSQ_ERR_SUCCESS \<Longrightarrow> length t < 65536"
  using pub_topic_loop_Some[of 0 t]
  by (auto simp: mosquitto_pub_topic_check_def MOSQ_ERR_INVAL_def MOSQ_ERR_SUCCESS_def split: option.splits if_splits)

text \<open>The calls on the table by which one session comes from another.\<close>

definition table_by :: "mq_layout \<Rightarrow> mq_call list \<Rightarrow> session \<Rightarrow> session \<Rightarrow> bool" where
  "table_by L cs s s' \<longleftrightarrow> (\<exists>rcs. run_calls (do_call L) cs (table s) = Some (rcs, table s'))"

lemma table_by_Nil: "table s' = table s \<Longrightarrow> table_by L [] s s'"
  by (simp add: table_by_def)

lemma table_by_Cons: "do_call L x (table s) = Some (rc, table s') \<Longrightarrow> table_by L xs s' s'' \<Longrightarrow> table_by L (x # xs) s s''"
  by (auto simp: table_by_def)

lemmas table_by_one = table_by_Cons[OF _ table_by_Nil[OF refl]]

lemma table_by_del: "table s' = snd (mq_msg_tbl_presvd_del L x d (table s)) \<Longrightarrow> table_by L [Del x d] s s'"
  by (rule table_by_one[of _ _ _ "fst (mq_msg_tbl_presvd_del L x d (table s))"]) simp

definition in_kept :: "mq_layout \<Rightarrow> mq_call list \<Rightarrow> session \<Rightarrow> session \<Rightarrow> bool" where
  "in_kept L cs s s' \<longleftrightarrow> in_messages (client s') = in_messages (client s) \<and> messages_in (trace s') = messages_in (trace s) \<and>
     table_by L cs s s'"

lemma in_keptI:
  "in_messages (client s') = in_messages (client s) \<Longrightarrow> messages_in (trace s') = messages_in (trace s) \<Longrightarrow> table_by L cs s s' \<Longrightarrow>
   in_kept L cs s s'"
  by (simp add: in_kept_def)

lemma quiet_keeps:
  assumes "quiet s s'" "sess_ok s"
  shows "sess_ok s'" "in_kept L [] s s'"
  using assms quietD(1,2)[OF assms(1)] quiet_trace(1)[OF assms(1)] by (simp_all add: sess_ok_def in_kept_def table_by_Nil)

lemma kept_quiet: "in_kept L cs s s' \<Longrightarrow> quiet s' s'' \<Longrightarrow> in_kept L cs s s''"
  using quietD(1,2)[of s' s''] quiet_trace(1)[of s' s''] by (simp add: in_kept_def table_by_def)

text \<open>What a message of the application adds to the table.\<close>

definition added :: "mosquitto_message_all \<Rightarrow> mosquitto_message_all \<Rightarrow> bool" where
  "added msg x \<longleftrightarrow> on_way x \<and> sendable x \<and> m_qos x \<noteq> 0 \<and> m_mid x = m_mid msg \<and> m_topic x = m_topic msg"

lemma publish_message_spec:
  assumes s: "sess_ok s" and m: "sendable msg" "\<not> on_way msg" "fits_table s (m_topic msg)"
  shows "\<exists>rc s' cs. publish_message L e mem msg s = Some (rc, s') \<and> sess_ok s' \<and> in_kept L cs s s' \<and>
    (cs = [] \<or> (\<exists>x. cs = [Add x mosq_md_out] \<and> added msg x))"
proof -
  define msg1 where "msg1 = msg\<lparr>m_state := (if m_qos msg = 1 then mosq_ms_wait_for_puback else mosq_ms_wait_for_pubrec)\<rparr>"
  have m1: "sendable msg1" "on_way msg1" "m_qos msg1 = m_qos msg" "m_topic msg1 = m_topic msg" "m_mid msg1 = m_mid msg"
    using m(1) by (simp_all add: sendable_def msg1_def)
  let ?q = "\<lambda>x. on_client (\<lambda>c. snd (mosquitto_message_queue x mosq_md_out c)) s"
  have inq: "in_messages (client (?q x)) = in_messages (client s)" "in_queue_len (client (?q x)) = in_queue_len (client s)" for x
    by (simp_all add: mosquitto_message_queue_def Let_def)
  have qok: "sess_ok (?q x)" if "sendable x" "m_qos x \<noteq> 0" "on_way x = (fst (mosquitto_message_queue x mosq_md_out (client s)) = 0)" for x
    using queue_window[OF _ that] s in_other[of "client (?q x)" "client s"] inq by (simp add: sess_ok_def)
  have same: "fst (mosquitto_message_queue msg1 mosq_md_out (client s)) = fst (mosquitto_message_queue msg mosq_md_out (client s))"
    by (simp add: mosquitto_message_queue_def Let_def m1(3))
  consider "m_qos msg = 0" | "m_qos msg \<noteq> 0" "\<not> mem 0 \<or> \<not> mem 1 \<or> m_payload msg \<noteq> [] \<and> \<not> mem 2" |
    "m_qos msg \<noteq> 0" "mem 0" "mem 1" "m_payload msg = [] \<or> mem 2" "fst (mosquitto_message_queue msg mosq_md_out (client s)) = 0" |
    "m_qos msg \<noteq> 0" "mem 0" "mem 1" "m_payload msg = [] \<or> mem 2" "fst (mosquitto_message_queue msg mosq_md_out (client s)) \<noteq> 0" by blast
  then show ?thesis
  proof cases
    case 1
    obtain rc s' where r: "mosquitto_send_publish e msg s = Some (rc, s')" "quiet s s'" using send_publish_message[OF m(1)] by blast
    show ?thesis using 1 r(1) quiet_keeps[OF r(2) s]
      by (intro exI[of _ rc] exI[of _ s'] exI[of _ "[]"]) (simp add: publish_message_def)
  next
    case 2
    then have "\<exists>rc. publish_message L e mem msg s = Some (rc, s)" by (auto simp: publish_message_def)
    then show ?thesis using s quiet_keeps(2)[OF quiet_refl s] by blast
  next
    case 3
    have su: "sess_ok (?q msg1)" using qok[OF m1(1)] 3(1,5) m1(2,3) same by simp
    have fit: "fits_table (?q msg1) (m_topic msg1)" using m(3) m1(4) by (simp add: fits_table_def)
    obtain tb rt where tb: "table_add L msg1 mosq_md_out (?q msg1) = Some ((?q msg1)\<lparr>table := tb\<rparr>)"
      "mq_msg_tbl_presvd_add L msg1 mosq_md_out (table s) = Some (rt, tb)" using table_add_spec[OF fit, of L mosq_md_out] by auto
    let ?u = "(?q msg1)\<lparr>table := tb\<rparr>"
    obtain rc s' where s': "mosquitto_send_publish e msg1 ?u = Some (rc, s')" "quiet ?u s'" using send_publish_message[OF m1(1)] by blast
    have pm: "publish_message L e mem msg s = Some (rc, s')" using 3 tb(1) s'(1) by (auto simp: publish_message_def simp flip: msg1_def)
    have u: "sess_ok ?u" using su by (simp add: sess_ok_def)
    have "in_kept L [Add msg1 mosq_md_out] s ?u"
      using inq tb(2) by (intro in_keptI table_by_one[of _ _ _ rt]) simp_all
    moreover have "added msg msg1" using 3(1) m1 by (simp add: added_def)
    ultimately show ?thesis using pm quiet_keeps(1)[OF s'(2) u] kept_quiet[OF _ s'(2)]
      by (intro exI[of _ rc] exI[of _ s'] exI[of _ "[Add msg1 mosq_md_out]"]) simp
  next
    case 4
    have q: "sess_ok (?q msg)" using qok[OF m(1)] 4(1,5) m(2) by simp
    have pm: "publish_message L e mem msg s = Some (MOSQ_ERR_SUCCESS, ?q msg)" using 4 by (auto simp: publish_message_def Let_def)
    have "in_kept L [] s (?q msg)" using inq by (intro in_keptI table_by_Nil) simp_all
    then show ?thesis using pm q by blast
  qed
qed

text \<open>An identifier is generated only for a message that is accepted.\<close>

definition new_mid :: "mq_layout \<Rightarrow> bool \<Rightarrow> session \<Rightarrow> u16" where "new_mid L dpm s = fst (mosquitto_mid_generate L dpm s)"

lemma publish_spec:
  assumes s: "sess_ok s" and t: "\<forall>t. tpc = Some t \<longrightarrow> fits_table s t"
  shows "\<exists>rc m s' cs. mosquitto_publish L e dpm mem now tpc pay q r s = Some (rc, m, s') \<and> sess_ok s' \<and> in_kept L cs s s' \<and>
    (cs = [] \<or> cs = [Last_mid (new_mid L dpm s)] \<or> (\<exists>x. cs = [Last_mid (new_mid L dpm s), Add x mosq_md_out] \<and>
       on_way x \<and> sendable x \<and> m_qos x \<noteq> 0 \<and> m_mid x = new_mid L dpm s \<and> tpc = Some (m_topic x)))"
proof (cases "tpc = None \<or> q < 0 \<or> q > 2 \<or> tpc = Some [] \<or> length pay > MQTT_MAX_PAYLOAD \<or>
    mosquitto_pub_topic_check (the tpc) \<noteq> MOSQ_ERR_SUCCESS")
  case True
  then have "\<exists>rc. mosquitto_publish L e dpm mem now tpc pay q r s = Some (rc, None, s)"
    by (auto simp: mosquitto_publish_def split: option.splits)
  then show ?thesis using s quiet_keeps(2)[OF quiet_refl s] by blast
next
  case False
  then obtain tp where tp: "tpc = Some tp" "tp \<noteq> []" "mosquitto_pub_topic_check tp = MOSQ_ERR_SUCCESS" "length pay \<le> 268435455"
    "0 \<le> q" "q \<le> 2" by (cases tpc) (auto simp: MQTT_MAX_PAYLOAD_def)
  obtain m s1 where g: "mosquitto_mid_generate L dpm s = (m, s1)" by fastforce
  have m: "m = new_mid L dpm s" by (simp add: new_mid_def g)
  note G = mid_generate_fields[OF g]
  let ?msg = "\<lparr>m_timestamp = now, m_state = mosq_ms_invalid, m_dup = False, m_mid = m, m_topic = tp, m_payload = pay,
      m_qos = q, m_retain = r\<rparr>"
  have snd: "sendable ?msg" using tp pub_topic_ok[OF tp(3)] by (auto simp: sendable_def)
  have s1: "sess_ok s1" using s window_other[of "client s1" "client s"] in_other[of "client s1" "client s"] by (simp add: sess_ok_def G(1))
  have "fits_table s1 tp" using t tp(1) by (simp add: fits_table_def G(3))
  then obtain rc s' cs where r: "publish_message L e mem ?msg s1 = Some (rc, s')" "sess_ok s'" "in_kept L cs s1 s'"
    "cs = [] \<or> (\<exists>x. cs = [Add x mosq_md_out] \<and> added ?msg x)"
    using publish_message_spec[OF s1 snd, of L e mem] by auto
  have "mosquitto_publish L e dpm mem now tpc pay q r s = Some (rc, Some m, s')"
    using tp r(1) by (simp add: mosquitto_publish_def g MQTT_MAX_PAYLOAD_def)
  moreover have "in_kept L (Last_mid m # cs) s s'"
    using r(3) G table_by_Cons[of L "Last_mid m" s "fst (mq_msg_tbl_presvd_update_last_mid L m (table s))" s1 cs s'] by (simp add: in_kept_def)
  ultimately show ?thesis using r(2,4) tp(1) unfolding m[symmetric]
    by (intro exI[of _ rc] exI[of _ "Some m"] exI[of _ s'] exI[of _ "Last_mid m # cs"]) (auto simp: added_def)
qed

section \<open>The handlers\<close>

lemma ack_spec:
  assumes s: "sess_ok s" and a: "\<forall>m q. mosquitto_read_uint16 p = Inr (m, q) \<longrightarrow>
    (case take_mid m (out_messages (client s)) of None \<Rightarrow> True | Some (x, ms) \<Rightarrow> on_way x)"
  shows "\<exists>rc s' cs. mosquitto_handle_pubackcomp L e p s = Some (rc, s') \<and> sess_ok s' \<and> in_kept L cs s s' \<and>
    (cs = [] \<or> (\<exists>x. cs = [Del x mosq_md_out]))"
proof (cases "mosquitto_read_uint16 p")
  case (Inl rc)
  then show ?thesis using s quiet_keeps(2)[OF quiet_refl s] by (simp add: mosquitto_handle_pubackcomp_def) blast
next
  case (Inr mq)
  obtain m q where mq: "mosquitto_read_uint16 p = Inr (m, q)" using Inr by (cases mq) simp
  have del: "\<exists>rc s1 cs. mosquitto_message_delete L e m mosq_md_out s = Some (rc, s1) \<and> sess_ok s1 \<and> in_kept L cs s s1 \<and>
      (cs = [] \<or> (\<exists>x. cs = [Del x mosq_md_out]))"
  proof (cases "take_mid m (out_messages (client s))")
    case None
    then have "mosquitto_message_delete L e m mosq_md_out s = Some (MOSQ_ERR_NOT_FOUND, s)"
      by (simp add: mosquitto_message_delete_def mosquitto_message_remove_def MOSQ_ERR_NOT_FOUND_def MOSQ_ERR_SUCCESS_def)
    then show ?thesis using s quiet_keeps(2)[OF quiet_refl s] by blast
  next
    case (Some a)
    then obtain x ms where t: "take_mid m (out_messages (client s)) = Some (x, ms)" by (cases a) simp
    then have x: "on_way x" using assms(2) mq by auto
    have w: "window_ok (client s)" using s by (simp add: sess_ok_def)
    obtain rc s1 where r: "mosquitto_message_remove e m mosq_md_out s = Some (rc, Some x, s1)" "window_ok (client s1)" "same_rest s s1"
      "\<exists>ps. trace s1 = trace s @ map Queued ps"
      using remove_out[OF w t x, of e] by blast
    note F = same_rest_fields[OF r(3)]
    have ok: "sess_ok s1" using r(2) s F in_other[of "client s1" "client s"] by (simp add: sess_ok_def)
    let ?s2 = "if rc = MOSQ_ERR_SUCCESS then table_del L x mosq_md_out s1 else s1"
    have d: "mosquitto_message_delete L e m mosq_md_out s = Some (rc, ?s2)" using r(1) by (simp add: mosquitto_message_delete_def)
    have k: "in_kept L (if rc = MOSQ_ERR_SUCCESS then [Del x mosq_md_out] else []) s ?s2"
      using r(4) F table_by_one[of L "Del x mosq_md_out" s "fst (mq_msg_tbl_presvd_del L x mosq_md_out (table s))" "table_del L x mosq_md_out s1"]
      by (auto simp: in_kept_def table_by_Nil)
    have "sess_ok ?s2" using ok by (simp add: sess_ok_def)
    then show ?thesis using d k by (intro exI[of _ rc] exI[of _ ?s2] exI[of _ "if rc = MOSQ_ERR_SUCCESS then [Del x mosq_md_out] else []"]) simp
  qed
  then obtain rc s1 cs where d: "mosquitto_message_delete L e m mosq_md_out s = Some (rc, s1)" "sess_ok s1" "in_kept L cs s s1"
    "cs = [] \<or> (\<exists>x. cs = [Del x mosq_md_out])" by blast
  define s2 where "s2 = (if rc = 0 then emit (On_publish m) s1 else s1)"
  define s3 where "s3 = (if q2_proc (client s2) \<noteq> 1 then emit Dpm_sleep s2 else s2)"
  have "mosquitto_handle_pubackcomp L e p s = Some (MOSQ_ERR_SUCCESS, s3)"
    using mq d(1) by (simp add: mosquitto_handle_pubackcomp_def Let_def s2_def s3_def)
  moreover have "sess_ok s3" "in_kept L cs s s3" using d(2,3) by (simp_all add: s2_def s3_def sess_ok_def in_kept_def table_by_def)
  ultimately show ?thesis using d(4) by blast
qed

lemma update_mid_spec:
  "update_mid m st now xs = None \<longleftrightarrow> take_mid m xs = None"
  "take_mid m xs = Some (x, ys) \<Longrightarrow> \<exists>as bs. xs = as @ x # bs \<and> m_mid x = m \<and>
     update_mid m st now xs = Some (as @ x\<lparr>m_state := st, m_timestamp := now\<rparr> # bs)"
proof -
  show "update_mid m st now xs = None \<longleftrightarrow> take_mid m xs = None" by (induction xs) auto
  have u: "m \<notin> m_mid ` set as \<Longrightarrow> m_mid x = m \<Longrightarrow>
      update_mid m st now (as @ x # bs) = Some (as @ x\<lparr>m_state := st, m_timestamp := now\<rparr> # bs)" for as bs
    by (induction as) auto
  assume "take_mid m xs = Some (x, ys)"
  then obtain as bs where "xs = as @ x # bs" "m_mid x = m" "m \<notin> m_mid ` set as" using take_mid_Some by blast
  then show "\<exists>as bs. xs = as @ x # bs \<and> m_mid x = m \<and>
      update_mid m st now xs = Some (as @ x\<lparr>m_state := st, m_timestamp := now\<rparr> # bs)" using u by blast
qed

text \<open>A change to messages that keeps what the window is about.\<close>

definition alike :: "mosquitto_message_all \<Rightarrow> mosquitto_message_all \<Rightarrow> bool" where
  "alike x y \<longleftrightarrow> on_way y = on_way x \<and> m_mid y = m_mid x \<and> m_topic y = m_topic x \<and> m_payload y = m_payload x \<and> m_qos y = m_qos x"

lemma alike_refl [simp]: "alike x x" by (simp add: alike_def)

lemma window_alike:
  assumes w: "window_ok c" and a: "list_all2 alike (out_messages c) xs"
  shows "window_ok (c\<lparr>out_messages := xs\<rparr>)"
proof -
  note W = window_okE[OF w]
  obtain fl wt where x: "xs = fl @ wt" "list_all2 alike (flying c) fl" "list_all2 alike (waiting c) wt"
    using a unfolding W(2) list_all2_append1 by blast
  have l: "length fl = length (flying c)" "length wt = length (waiting c)" "wt = [] \<longleftrightarrow> waiting c = []"
    using x(2,3) by (auto dest: list_all2_lengthD)
  have "\<forall>y \<in> set fl. on_way y \<and> sendable y \<and> m_qos y \<noteq> 0"
    using x(2) W(1) by (fastforce simp: list_all2_conv_all_nth in_set_conv_nth out_ok_def alike_def sendable_def)
  moreover have "\<forall>y \<in> set wt. \<not> on_way y \<and> sendable y \<and> m_qos y \<noteq> 0"
    using x(3) W(1) by (fastforce simp: list_all2_conv_all_nth in_set_conv_nth out_ok_def alike_def sendable_def)
  ultimately have "out_ok (max_inflight_messages c) fl wt" using W(1) l by (auto simp: out_ok_def)
  then show ?thesis using W(3,4) l by (intro window_okI[of _ fl wt]) (simp_all add: x(1))
qed

lemma list_alike_refl [simp]: "list_all2 alike xs xs" by (simp add: list.rel_refl)

lemma pubrec_spec:
  assumes s: "sess_ok s" and a: "\<forall>m q. mosquitto_read_uint16 p = Inr (m, q) \<longrightarrow>
    (case take_mid m (out_messages (client s)) of None \<Rightarrow> True | Some (x, ms) \<Rightarrow> on_way x)"
  shows "\<exists>rc s' cs. mosquitto_handle_pubrec L e now p s = Some (rc, s') \<and> sess_ok s' \<and> in_kept L cs s s' \<and>
    (cs = [] \<or> (\<exists>m. cs = [Update mosq_md_out m mosq_ms_wait_for_pubcomp now]))"
proof (cases "mosquitto_read_uint16 p")
  case (Inl rc)
  then show ?thesis using s quiet_keeps(2)[OF quiet_refl s] by (simp add: mosquitto_handle_pubrec_def) blast
next
  case (Inr mq)
  obtain m q where mq: "mosquitto_read_uint16 p = Inr (m, q)" using Inr by (cases mq) simp
  let ?u = "Update mosq_md_out m mosq_ms_wait_for_pubcomp now"
  have "\<exists>rc s1 cs. mosquitto_message_out_update L m mosq_ms_wait_for_pubcomp now s = (rc, s1) \<and> (rc = MOSQ_ERR_NOT_FOUND \<or> rc = MOSQ_ERR_SUCCESS) \<and>
      sess_ok s1 \<and> in_kept L cs s s1 \<and> (cs = [] \<or> cs = [?u])"
  proof (cases "take_mid m (out_messages (client s))")
    case None
    then have "update_mid m mosq_ms_wait_for_pubcomp now (out_messages (client s)) = None" using update_mid_spec(1) by blast
    then have "mosquitto_message_out_update L m mosq_ms_wait_for_pubcomp now s = (MOSQ_ERR_NOT_FOUND, s)"
      by (simp add: mosquitto_message_out_update_def)
    then show ?thesis using s quiet_keeps(2)[OF quiet_refl s] by blast
  next
    case (Some a)
    then obtain x ms where t: "take_mid m (out_messages (client s)) = Some (x, ms)" by (cases a) simp
    then have x: "on_way x" using assms(2) mq by auto
    obtain as bs where ab: "out_messages (client s) = as @ x # bs"
      "update_mid m mosq_ms_wait_for_pubcomp now (out_messages (client s)) =
         Some (as @ x\<lparr>m_state := mosq_ms_wait_for_pubcomp, m_timestamp := now\<rparr> # bs)"
      using update_mid_spec(2)[OF t] by blast
    let ?xs = "as @ x\<lparr>m_state := mosq_ms_wait_for_pubcomp, m_timestamp := now\<rparr> # bs"
    let ?s1 = "(on_client (\<lambda>c. c\<lparr>out_messages := ?xs\<rparr>) s)
        \<lparr>table := snd (mq_msg_tbl_presvd_update L mosq_md_out m mosq_ms_wait_for_pubcomp now (table s))\<rparr>"
    have "list_all2 alike (out_messages (client s)) ?xs" using x by (simp add: ab(1) alike_def list_all2_appendI)
    then have "window_ok ((client s)\<lparr>out_messages := ?xs\<rparr>)" using window_alike s by (simp add: sess_ok_def)
    then have ok: "sess_ok ?s1" using s by (simp add: sess_ok_def in_ok_def)
    have "in_kept L [?u] s ?s1"
      by (intro in_keptI table_by_one[of _ _ _ "fst (mq_msg_tbl_presvd_update L mosq_md_out m mosq_ms_wait_for_pubcomp now (table s))"]) simp_all
    moreover have "mosquitto_message_out_update L m mosq_ms_wait_for_pubcomp now s = (MOSQ_ERR_SUCCESS, ?s1)"
      using ab(2) by (simp add: mosquitto_message_out_update_def)
    ultimately show ?thesis using ok by (intro exI[of _ MOSQ_ERR_SUCCESS] exI[of _ ?s1] exI[of _ "[?u]"]) simp
  qed
  then obtain rc s1 cs where u: "mosquitto_message_out_update L m mosq_ms_wait_for_pubcomp now s = (rc, s1)"
    "rc = MOSQ_ERR_NOT_FOUND \<or> rc = MOSQ_ERR_SUCCESS" "sess_ok s1" "in_kept L cs s s1" "cs = [] \<or> cs = [?u]" by blast
  obtain rc2 s2 where t: "transmit e (\<lambda>m1 m2 junk. mosquitto_send_pubrel m1 m2 junk m) s1 = Some (rc2, s2)" "quiet s1 s2"
    using transmit_mid(3) by blast
  have "mosquitto_handle_pubrec L e now p s = Some (rc2, s2)" using mq u(1,2) t(1) by (auto simp: mosquitto_handle_pubrec_def)
  then show ?thesis using quiet_keeps(1)[OF t(2) u(3)] kept_quiet[OF u(4) t(2)] u(5) by blast
qed

lemma retry_send_spec:
  assumes "m_state x \<in> {mosq_ms_wait_for_puback, mosq_ms_wait_for_pubrec} \<Longrightarrow> sendable x"
  shows "\<exists>rc s'. retry_send e x s = Some (rc, s') \<and> quiet s s'"
proof (cases "m_state x \<in> {mosq_ms_wait_for_puback, mosq_ms_wait_for_pubrec}")
  case True
  then show ?thesis using send_publish_message[OF assms[OF True], of e s] by (auto simp: retry_send_def)
next
  case False
  then show ?thesis using transmit_mid(2,3)[of e "m_mid x" s] by (auto simp: retry_send_def)
qed

lemma retry_loop:
  assumes "\<forall>x \<in> set xs. m_state x \<in> {mosq_ms_wait_for_puback, mosq_ms_wait_for_pubrec} \<longrightarrow> sendable x"
  shows "\<exists>ys s'. retry_check_actual e now retry xs s = Some (ys, s') \<and> quiet s s' \<and>
    list_all2 (\<lambda>x y. alike x y \<and> m_state y = m_state x) xs ys"
  using assms
proof (induction xs arbitrary: s)
  case (Cons x xs)
  let ?c = "m_timestamp x + ucast retry < now \<and>
    m_state x \<in> {mosq_ms_wait_for_puback, mosq_ms_wait_for_pubrec, mosq_ms_wait_for_pubrel, mosq_ms_wait_for_pubcomp}"
  let ?x = "x\<lparr>m_timestamp := now, m_dup := True\<rparr>"
  have "sendable x \<Longrightarrow> sendable ?x" by (simp add: sendable_def)
  then have sd: "m_state x \<in> {mosq_ms_wait_for_puback, mosq_ms_wait_for_pubrec} \<Longrightarrow> sendable ?x" using Cons.prems by simp
  obtain rc s1 where r: "retry_send e ?x s = Some (rc, s1)" "quiet s s1"
    using retry_send_spec[of ?x e s] sd by auto
  have a: "alike x ?x" by (simp add: alike_def)
  obtain ys s' where i: "retry_check_actual e now retry xs s = Some (ys, s')" "quiet s s'"
    "list_all2 (\<lambda>x y. alike x y \<and> m_state y = m_state x) xs ys"
    using Cons.IH[of s] Cons.prems by auto
  obtain zs s2 where j: "retry_check_actual e now retry xs s1 = Some (zs, s2)" "quiet s1 s2"
    "list_all2 (\<lambda>x y. alike x y \<and> m_state y = m_state x) xs zs"
    using Cons.IH[of s1] Cons.prems by auto
  show ?case
  proof (cases ?c)
    case True
    then show ?thesis using r(1) j(1,3) a quiet_trans[OF r(2) j(2)] by (simp add: Let_def)
  next
    case False
    then show ?thesis using i by auto
  qed
qed simp

end
