(* ===== verification/Mqtt_Events.thy ===== *)
theory Mqtt_Events
  imports Mqtt_Window
begin

text \<open>
  The session as a system of events: publishing, the packets of the broker, the check for messages to be sent again and a new
  connection, in any order. The window holds whatever happens, and the acknowledgements of the broker empty the queue.
\<close>

section \<open>Sending again, and a new connection\<close>

lemma in_alike:
  assumes "in_ok c" "list_all2 (\<lambda>x y. alike x y \<and> m_state y = m_state x) (in_messages c) ys"
  shows "in_ok (c\<lparr>in_messages := ys\<rparr>)"
proof -
  have "map m_mid ys = map m_mid (in_messages c)" using assms(2) by (induction rule: list_all2_induct) (simp_all add: alike_def)
  moreover have "\<forall>y \<in> set ys. m_qos y = 2 \<and> m_state y = mosq_ms_wait_for_pubrel"
    using assms unfolding in_ok_def alike_def by (fastforce simp: list_all2_conv_all_nth in_set_conv_nth)
  ultimately show ?thesis using assms(1) list_all2_lengthD[OF assms(2)] by (simp add: in_ok_def)
qed

text \<open>What the received messages are for: their identifiers, payloads and topics.\<close>

definition pending :: "session \<Rightarrow> (u16 \<times> u8 list \<times> u8 list) list" where
  "pending s = map (\<lambda>x. (m_mid x, m_payload x, m_topic x)) (in_messages (client s))"

lemma pending_alike:
  "list_all2 alike (in_messages (client s)) (in_messages (client s')) \<Longrightarrow> pending s' = pending s"
  unfolding pending_def by (induction rule: list_all2_induct) (simp_all add: alike_def)

lemma quiet_extends: "quiet s s' \<Longrightarrow> \<exists>ps. trace s' = trace s @ map Queued ps" by (simp add: quiet_def)

lemma retry_spec:
  assumes s: "sess_ok s"
  shows "\<exists>s'. mosquitto_message_retry_check e now s = Some s' \<and> sess_ok s' \<and> pending s' = pending s \<and> table s' = table s \<and>
    messages_in (trace s') = messages_in (trace s) \<and> (\<exists>ps. trace s' = trace s @ map Queued ps)"
proof -
  let ?c = "client s"
  note W = window_okE[of ?c]
  have w: "window_ok ?c" and i: "in_ok ?c" using s by (simp_all add: sess_ok_def)
  have "\<forall>x \<in> set (out_messages ?c). sendable x" unfolding W(2)[OF w] using W(1)[OF w] by (simp add: out_ok_def)
  then obtain ys s1 where o1: "retry_check_actual e now (message_retry ?c) (out_messages ?c) s = Some (ys, s1)" "quiet s s1"
    "list_all2 (\<lambda>x y. alike x y \<and> m_state y = m_state x) (out_messages ?c) ys"
    using retry_loop[of "out_messages ?c" e now "message_retry ?c" s] by blast
  define s2 where "s2 = on_client (\<lambda>c. c\<lparr>out_messages := ys\<rparr>) s1"
  have c2: "client s2 = ?c\<lparr>out_messages := ys\<rparr>" using quietD(1)[OF o1(2)] by (simp add: s2_def)
  have a: "list_all2 alike (out_messages ?c) ys" using o1(3) by (rule list_all2_mono) simp
  have "\<forall>x \<in> set (in_messages ?c). m_state x \<in> {mosq_ms_wait_for_puback, mosq_ms_wait_for_pubrec} \<longrightarrow> sendable x"
    using i by (auto simp: in_ok_def)
  then obtain zs s3 where o2: "retry_check_actual e now (message_retry ?c) (in_messages ?c) s2 = Some (zs, s3)" "quiet s2 s3"
    "list_all2 (\<lambda>x y. alike x y \<and> m_state y = m_state x) (in_messages ?c) zs"
    using retry_loop[of "in_messages ?c" e now "message_retry ?c" s2] by blast
  define s' where "s' = on_client (\<lambda>c. c\<lparr>in_messages := zs\<rparr>) s3"
  have c': "client s' = ?c\<lparr>out_messages := ys, in_messages := zs\<rparr>" using quietD(1)[OF o2(2)] c2 by (simp add: s'_def)
  have r: "mosquitto_message_retry_check e now s = Some s'"
    unfolding mosquitto_message_retry_check_def o1(1) option.case prod.case Let_def s2_def[symmetric] c2
    using o2(1) by (simp add: s'_def)
  have "window_ok (client s')" unfolding c' using window_alike[OF w a] window_other[of "?c\<lparr>out_messages := ys, in_messages := zs\<rparr>" "?c\<lparr>out_messages := ys\<rparr>"] by simp
  moreover have "in_ok (client s')" unfolding c' using in_alike[OF i o2(3)] in_other[of "?c\<lparr>out_messages := ys, in_messages := zs\<rparr>" "?c\<lparr>in_messages := zs\<rparr>"] by simp
  moreover have "list_all2 alike (in_messages (client s)) (in_messages (client s'))"
    unfolding c' using o2(3) by (auto intro: list_all2_mono)
  moreover have "table s' = table s" using quietD(2)[OF o1(2)] quietD(2)[OF o2(2)] by (simp add: s'_def s2_def)
  moreover have "messages_in (trace s') = messages_in (trace s)"
    using quiet_trace(1)[OF o1(2)] quiet_trace(1)[OF o2(2)] by (simp add: s'_def s2_def)
  moreover have "\<exists>ps. trace s' = trace s @ map Queued ps"
    using quiet_extends[OF o1(2)] quiet_extends[OF o2(2)] by (auto simp: s'_def s2_def simp flip: map_append)
  ultimately show ?thesis using r pending_alike by (intro exI[of _ s']) (simp add: sess_ok_def)
qed

lemma misc_spec:
  assumes "sess_ok s"
  shows "\<exists>s'. loop_misc_retry e now s = Some s' \<and> sess_ok s' \<and> pending s' = pending s \<and> messages_in (trace s') = messages_in (trace s) \<and>
    (table s' = table s \<or> table s' = snd (mq_msg_tbl_presvd_update_last_retry_chk now (table s))) \<and> (\<exists>ps. trace s' = trace s @ map Queued ps)"
proof -
  obtain s1 where s1: "mosquitto_message_retry_check e now s = Some s1" "sess_ok s1" "pending s1 = pending s" "table s1 = table s"
    "messages_in (trace s1) = messages_in (trace s)" "\<exists>ps. trace s1 = trace s @ map Queued ps" using retry_spec[OF assms] by blast
  let ?s = "(on_client (\<lambda>c. c\<lparr>last_retry_check := now\<rparr>) s1)\<lparr>table := snd (mq_msg_tbl_presvd_update_last_retry_chk now (table s1))\<rparr>"
  have "sess_ok ?s" using s1(2) window_other[of "client ?s" "client s1"] in_other[of "client ?s" "client s1"] by (simp add: sess_ok_def)
  moreover have "\<exists>ps. trace s = trace s @ map Queued ps" by (intro exI[of _ "[]"]) simp
  ultimately show ?thesis using s1 assms by (simp add: loop_misc_retry_def pending_def)
qed

lemma reset_in_q2:
  "\<forall>x \<in> set xs. m_qos x = 2 \<Longrightarrow> reset_in kept xs n = Some (kept @ map (\<lambda>x. x\<lparr>m_timestamp := 0\<rparr>) xs, n + int (length xs))"
  by (induction xs arbitrary: kept n) simp_all

definition resent :: "mosquitto_message_all \<Rightarrow> mosquitto_message_all" where
  "resent x = (if m_qos x = 1 then x\<lparr>m_timestamp := 0, m_state := mosq_ms_wait_for_puback\<rparr> else x\<lparr>m_timestamp := 0\<rparr>)"

lemma reset_out_flying:
  "\<forall>x \<in> set fl. m_qos x > 0 \<Longrightarrow> mx = 0 \<or> n + int (length fl) \<le> mx \<Longrightarrow>
   reset_out mx (fl @ ws) n = (let (ys, k) = reset_out mx ws (n + int (length fl)) in (map resent fl @ ys, k))"
proof (induction fl arbitrary: n)
  case (Cons x fl)
  have "mx = 0 \<or> n + 1 + int (length fl) \<le> mx" using Cons.prems(2) by auto
  then have "reset_out mx (fl @ ws) (n + 1) = (let (ys, k) = reset_out mx ws (n + 1 + int (length fl)) in (map resent fl @ ys, k))"
    using Cons.IH[of "n + 1"] Cons.prems(1) by simp
  then show ?case using Cons.prems by (auto simp: Let_def resent_def case_prod_beta algebra_simps)
qed (simp add: case_prod_beta)

lemma reset_out_waiting:
  "mx > 0 \<Longrightarrow> n \<ge> mx \<Longrightarrow> reset_out mx ws n = (map (\<lambda>x. x\<lparr>m_timestamp := 0, m_state := mosq_ms_invalid\<rparr>) ws, n)"
  by (induction ws) (simp_all add: Let_def)

lemma reconnect_spec:
  assumes s: "sess_ok s"
  shows "\<exists>s'. mosquitto_messages_reconnect_reset s = Some s' \<and> sess_ok s' \<and> pending s' = pending s \<and> table s' = table s \<and> trace s' = trace s"
proof -
  let ?c = "client s"
  let ?mx = "max_inflight_messages ?c"
  have w: "window_ok ?c" and i: "in_ok ?c" using s by (simp_all add: sess_ok_def)
  note W = window_okE[OF w]
  let ?ins = "map (\<lambda>x. x\<lparr>m_timestamp := 0\<rparr>) (in_messages ?c)"
  let ?fl = "map resent (flying ?c)" and ?wt = "map (\<lambda>x. x\<lparr>m_timestamp := 0, m_state := mosq_ms_invalid\<rparr>) (waiting ?c)"
  have ri: "reset_in [] (in_messages ?c) 0 = Some (?ins, int (length (in_messages ?c)))"
    using reset_in_q2[of "in_messages ?c" "[]" 0] i by (simp add: in_ok_def)
  have q: "\<forall>x \<in> set (flying ?c). m_qos x > 0"
  proof
    fix x assume "x \<in> set (flying ?c)"
    then have "sendable x" "m_qos x \<noteq> 0" using W(1) by (auto simp: out_ok_def)
    then show "m_qos x > 0" by (auto simp: sendable_def)
  qed
  have b: "?mx = 0 \<or> 0 + int (length (flying ?c)) \<le> ?mx" using W(1) by (auto simp: out_ok_def)
  have "reset_out ?mx (waiting ?c) (int (length (flying ?c))) = (?wt, int (length (flying ?c)))"
    using reset_out_waiting[of ?mx "int (length (flying ?c))" "waiting ?c"] W(1) by (cases "waiting ?c") (auto simp: out_ok_def)
  then have ro: "reset_out ?mx (out_messages ?c) 0 = (?fl @ ?wt, int (length (flying ?c)))"
    using reset_out_flying[OF q b, of "waiting ?c"] W(2) by simp
  let ?c' = "?c\<lparr>in_messages := ?ins, in_queue_len := int (length (in_messages ?c)), out_messages := ?fl @ ?wt,
      inflight_messages := int (length (flying ?c)), out_queue_len := int (length (?fl @ ?wt))\<rparr>"
  have r: "mosquitto_messages_reconnect_reset s = Some (s\<lparr>client := ?c'\<rparr>)"
    by (simp add: mosquitto_messages_reconnect_reset_def ri ro Let_def)
  have fw: "\<forall>x \<in> set (flying ?c). alike x (resent x)"
    "\<forall>x \<in> set (waiting ?c). alike x (x\<lparr>m_timestamp := 0, m_state := mosq_ms_invalid\<rparr>)"
    using W(1) by (auto simp: out_ok_def alike_def resent_def)
  have "list_all2 alike (out_messages ?c) (?fl @ ?wt)"
    unfolding W(2) by (intro list_all2_appendI) (use fw in \<open>auto simp: list.rel_map intro!: list.rel_refl_strong\<close>)
  then have "window_ok (?c\<lparr>out_messages := ?fl @ ?wt\<rparr>)" by (rule window_alike[OF w])
  moreover have "length (?fl @ ?wt) = length (out_messages ?c)" unfolding W(2) by simp
  ultimately have "window_ok ?c'" using window_other[of ?c' "?c\<lparr>out_messages := ?fl @ ?wt\<rparr>"] W(3) w by (simp add: window_ok_def)
  moreover have "in_ok ?c'" using i by (auto simp: in_ok_def comp_def)
  moreover have "pending (s\<lparr>client := ?c'\<rparr>) = pending s" by (simp add: pending_def comp_def)
  ultimately show ?thesis using r by (intro exI[of _ "s\<lparr>client := ?c'\<rparr>"]) (simp add: sess_ok_def)
qed

section \<open>Messages of the broker\<close>

lemma in_ok_take:
  assumes "in_ok c" "take_mid m (in_messages c) = Some (x, ms)"
  shows "in_ok (c\<lparr>in_messages := ms, in_queue_len := in_queue_len c - 1\<rparr>)" "m \<notin> m_mid ` set ms" "m_mid x = m"
proof -
  obtain as bs where "in_messages c = as @ x # bs" "ms = as @ bs" "m_mid x = m" "m \<notin> m_mid ` set as"
    using take_mid_Some[OF assms(2)] by blast
  then show "in_ok (c\<lparr>in_messages := ms, in_queue_len := in_queue_len c - 1\<rparr>)" "m \<notin> m_mid ` set ms" "m_mid x = m"
    using assms(1) by (auto simp: in_ok_def)
qed

text \<open>The message with an identifier, and the others.\<close>

definition found :: "u16 \<Rightarrow> session \<Rightarrow> mosquitto_message_all option" where
  "found m s = map_option fst (take_mid m (in_messages (client s)))"

definition others :: "u16 \<Rightarrow> session \<Rightarrow> mosquitto_message_all list" where
  "others m s = filter (\<lambda>x. m_mid x \<noteq> m) (in_messages (client s))"

lemma not_in_mids: "m \<notin> m_mid ` set xs \<longleftrightarrow> (\<forall>x \<in> set xs. m_mid x \<noteq> m)"
  by (metis imageE image_eqI)

lemma take_mid_filter:
  "distinct (map m_mid xs) \<Longrightarrow> take_mid m xs = Some (x, ms) \<Longrightarrow> ms = filter (\<lambda>x. m_mid x \<noteq> m) xs"
proof (induction xs arbitrary: ms)
  case (Cons a xs)
  show ?case
  proof (cases "m_mid a = m")
    case True
    then have "\<forall>y \<in> set xs. m_mid y \<noteq> m" using Cons.prems(1) not_in_mids[of m xs] by simp
    then show ?thesis using Cons.prems(2) True by simp
  next
    case False
    then show ?thesis using Cons by auto
  qed
qed simp

lemma remove_in:
  assumes "in_ok (client s)"
  shows "found m s = None \<Longrightarrow> mosquitto_message_remove e m mosq_md_in s = Some (MOSQ_ERR_NOT_FOUND, None, s)"
    "found m s = Some x \<Longrightarrow> mosquitto_message_remove e m mosq_md_in s =
       Some (MOSQ_ERR_SUCCESS, Some x, on_client (\<lambda>c. c\<lparr>in_messages := others m s, in_queue_len := in_queue_len c - 1\<rparr>) s)"
proof -
  show "found m s = None \<Longrightarrow> mosquitto_message_remove e m mosq_md_in s = Some (MOSQ_ERR_NOT_FOUND, None, s)"
    by (simp add: found_def mosquitto_message_remove_def)
  assume "found m s = Some x"
  then obtain ms where t: "take_mid m (in_messages (client s)) = Some (x, ms)" by (auto simp: found_def)
  then show "mosquitto_message_remove e m mosq_md_in s =
       Some (MOSQ_ERR_SUCCESS, Some x, on_client (\<lambda>c. c\<lparr>in_messages := others m s, in_queue_len := in_queue_len c - 1\<rparr>) s)"
    using take_mid_filter[OF _ t] assms by (simp add: mosquitto_message_remove_def others_def in_ok_def)
qed

lemma found_pending: "map_of (pending s) m = map_option (\<lambda>x. (m_payload x, m_topic x)) (found m s)"
proof -
  have "map_of (map (\<lambda>x. (m_mid x, m_payload x, m_topic x)) xs) m = map_option (\<lambda>(x, ys). (m_payload x, m_topic x)) (take_mid m xs)" for xs
    by (induction xs) (auto simp: option.map_comp comp_def case_prod_beta)
  from this[of "in_messages (client s)"] show ?thesis by (simp add: pending_def found_def option.map_comp comp_def case_prod_unfold)
qed

lemma others_none: "found m s = None \<Longrightarrow> others m s = in_messages (client s)"
  by (auto simp: found_def others_def take_mid_None intro: filter_True)

lemma others_map:
  "map_of (map (\<lambda>x. (m_mid x, m_payload x, m_topic x)) (others m s)) = (map_of (pending s))(m := None)"
proof
  fix k
  have "map_of (map (\<lambda>x. (m_mid x, m_payload x, m_topic x)) (filter (\<lambda>x. m_mid x \<noteq> m) xs)) k =
      ((map_of (map (\<lambda>x. (m_mid x, m_payload x, m_topic x)) xs))(m := None)) k" for xs
    by (induction xs) auto
  from this[of "in_messages (client s)"]
  show "map_of (map (\<lambda>x. (m_mid x, m_payload x, m_topic x)) (others m s)) k = ((map_of (pending s))(m := None)) k"
    by (simp add: others_def pending_def)
qed

text \<open>A PUBREL packet hands on the message that it releases, if there is one.\<close>

lemma pubrel_spec:
  assumes s: "sess_ok s" and p: "\<not> (v = mosq_p_mqtt311 \<and> pk_command p AND 0x0F \<noteq> 0x02)" "mosquitto_read_uint16 p = Inr (m, q)"
  shows "\<exists>rc s'. mosquitto_handle_pubrel L e v p s = Some (rc, s') \<and> sess_ok s' \<and> in_messages (client s') = others m s \<and>
    (case found m s of
       None \<Rightarrow> table s' = table s \<and> messages_in (trace s') = messages_in (trace s)
     | Some x \<Rightarrow> m_mid x = m \<and> table s' = snd (mq_msg_tbl_presvd_del L x mosq_md_in (table s)) \<and>
         messages_in (trace s') = messages_in (trace s) @ [(m_payload x, m_topic x)])"
proof -
  obtain rc s1 where t: "transmit e (\<lambda>m1 m2 junk. mosquitto_send_pubcomp m1 m2 junk m) s = Some (rc, s1)" "quiet s s1"
    using transmit_mid(4) by blast
  have c: "client s1 = client s" "table s1 = table s" "found m s1 = found m s" "others m s1 = others m s"
    using quietD(1,2)[OF t(2)] by (simp_all add: found_def others_def)
  have i: "in_ok (client s1)" using s c(1) by (simp add: sess_ok_def)
  show ?thesis
  proof (cases "found m s")
    case None
    let ?s = "on_client (\<lambda>c. c\<lparr>q2_proc := 0\<rparr>) (emit Dpm_sleep s1)"
    have h: "mosquitto_handle_pubrel L e v p s = Some (rc, ?s)"
      using p t(1) remove_in(1)[OF i, of m e] None by (auto simp: mosquitto_handle_pubrel_def c MOSQ_ERR_NOT_FOUND_def)
    have "sess_ok ?s" using s c(1) window_other[of "client ?s" "client s"] in_other[of "client ?s" "client s"] by (simp add: sess_ok_def)
    then show ?thesis using h None others_none[OF None] c quiet_trace(1)[OF t(2)] by simp
  next
    case (Some x)
    let ?s1 = "on_client (\<lambda>c. c\<lparr>in_messages := others m s, in_queue_len := in_queue_len c - 1\<rparr>) s1"
    let ?s = "on_client (\<lambda>c. c\<lparr>q2_proc := 0\<rparr>) (emit Dpm_sleep (table_del L x mosq_md_in (emit (On_message (m_payload x) (m_topic x)) ?s1)))"
    have h: "mosquitto_handle_pubrel L e v p s = Some (rc, ?s)"
      using p t(1) remove_in(2)[OF i, of m x e] Some by (auto simp: mosquitto_handle_pubrel_def c MOSQ_ERR_SUCCESS_def Let_def)
    obtain ms where tk: "take_mid m (in_messages (client s)) = Some (x, ms)" using Some by (auto simp: found_def)
    have "ms = others m s" using take_mid_filter[OF _ tk] i c(1) by (simp add: others_def in_ok_def)
    then have "in_ok ((client s)\<lparr>in_messages := others m s, in_queue_len := in_queue_len (client s) - 1\<rparr>)" "m_mid x = m"
      using in_ok_take[OF _ tk] i c(1) by auto
    moreover have "window_ok (client ?s)" using s c(1) window_other[of "client ?s" "client s"] by (simp add: sess_ok_def)
    ultimately show ?thesis using h Some c quiet_trace(1)[OF t(2)]
        in_other[of "client ?s" "(client s)\<lparr>in_messages := others m s, in_queue_len := in_queue_len (client s) - 1\<rparr>"]
      by (simp add: sess_ok_def)
  qed
qed

text \<open>A received message with the quality of service 2 takes the place of an older one with its identifier.\<close>

lemma queue_received_spec:
  assumes s: "sess_ok s" and m: "m_qos msg = 2" "m_state msg = mosq_ms_wait_for_pubrel" "fits_table s (m_topic msg)"
  shows "\<exists>s'. queue_received L e msg s = Some s' \<and> sess_ok s' \<and> in_messages (client s') = others (m_mid msg) s @ [msg] \<and>
    trace s' = trace s \<and> mq_msg_tbl_presvd_enabled (table s') = mq_msg_tbl_presvd_enabled (table s) \<and>
    (\<exists>rc. mq_msg_tbl_presvd_add L msg mosq_md_in
       (if found (m_mid msg) s = None then table s else snd (mq_msg_tbl_presvd_del L msg mosq_md_in (table s))) = Some (rc, table s'))"
proof -
  let ?m = "m_mid msg"
  define s1 where "s1 = on_client (\<lambda>c. c\<lparr>q2_proc := 1\<rparr>) s"
  have c: "found ?m s1 = found ?m s" "others ?m s1 = others ?m s" by (simp_all add: s1_def found_def others_def)
  have i: "in_ok (client s1)" using s in_other[of "client s1" "client s"] by (simp add: sess_ok_def s1_def)
  have srch: "mosquitto_message_search_mid_in_rx_queue ?m s1 = MOSQ_ERR_SUCCESS \<longleftrightarrow> found ?m s \<noteq> None"
    using take_mid_None[of ?m "in_messages (client s)"] not_in_mids[of ?m "in_messages (client s)"]
    by (simp add: mosquitto_message_search_mid_in_rx_queue_def s1_def found_def MOSQ_ERR_SUCCESS_def MOSQ_ERR_NOT_FOUND_def)
  define s2 where "s2 = (if found ?m s = None then s1
      else table_del L msg mosq_md_in (on_client (\<lambda>c. c\<lparr>in_messages := others ?m s, in_queue_len := in_queue_len c - 1\<rparr>) s1))"
  have step: "(if mosquitto_message_search_mid_in_rx_queue ?m s1 = MOSQ_ERR_SUCCESS
      then map_option (\<lambda>(rc, old, s2). table_del L msg mosq_md_in s2) (mosquitto_message_remove e ?m mosq_md_in s1) else Some s1) = Some s2"
    using remove_in(2)[OF i, of ?m _ e] c by (cases "found ?m s") (auto simp: srch s2_def)
  have in2: "in_messages (client s2) = others ?m s" using others_none[of ?m s] by (auto simp: s2_def s1_def)
  have i2: "in_ok (client s2)"
  proof (cases "found ?m s")
    case None
    then show ?thesis using i by (simp add: s2_def)
  next
    case (Some x)
    obtain ms where tk: "take_mid ?m (in_messages (client s1)) = Some (x, ms)" using Some c(1) by (auto simp: found_def)
    have "ms = others ?m s" using take_mid_filter[OF _ tk] i c(2) by (simp add: others_def in_ok_def)
    then show ?thesis using in_ok_take(1)[OF i tk] Some by (simp add: s2_def)
  qed
  have w2: "window_ok (client s2)" using s window_other[of "client s2" "client s"] by (auto simp: sess_ok_def s2_def s1_def)
  have t2: "table s2 = (if found ?m s = None then table s else snd (mq_msg_tbl_presvd_del L msg mosq_md_in (table s)))"
    by (simp add: s2_def s1_def)
  let ?s3 = "on_client (\<lambda>c. snd (mosquitto_message_queue msg mosq_md_in c)) s2"
  have c3: "client ?s3 = (client s2)\<lparr>in_queue_len := in_queue_len (client s2) + 1, in_messages := others ?m s @ [msg]\<rparr>"
    by (simp add: mosquitto_message_queue_def in2)
  have fit: "fits_table ?s3 (m_topic msg)" using m(3) by (simp add: fits_table_def t2)
  obtain tb rc where tb: "table_add L msg mosq_md_in ?s3 = Some (?s3\<lparr>table := tb\<rparr>)"
    "mq_msg_tbl_presvd_enabled tb = mq_msg_tbl_presvd_enabled (table s2)" "mq_msg_tbl_presvd_add L msg mosq_md_in (table s2) = Some (rc, tb)"
    using table_add_spec[OF fit, of L mosq_md_in] by auto
  have "?m \<notin> m_mid ` set (others ?m s)" by (auto simp: others_def)
  then have "in_ok (client ?s3)" using i2 in2 m(1,2) unfolding c3 by (simp add: in_ok_def)
  moreover have "window_ok (client ?s3)" using w2 window_other[of "client ?s3" "client s2"] unfolding c3 by simp
  ultimately have "sess_ok (?s3\<lparr>table := tb\<rparr>)" by (simp add: sess_ok_def)
  moreover have "queue_received L e msg s = Some (?s3\<lparr>table := tb\<rparr>)"
    unfolding queue_received_def Let_def s1_def[symmetric] step option.case by (rule tb(1))
  moreover have "trace s2 = trace s" by (simp add: s2_def s1_def)
  moreover have "mq_msg_tbl_presvd_enabled (table s2) = mq_msg_tbl_presvd_enabled (table s)" by (simp add: t2)
  ultimately show ?thesis using tb(2,3) c3 unfolding t2 by (intro exI[of _ "?s3\<lparr>table := tb\<rparr>"]) simp
qed

section \<open>Events\<close>

record client_cfg =
  cfg_layout :: mq_layout
  cfg_env :: tx_env
  cfg_dpm :: bool
  cfg_atcmd :: bool
  cfg_protocol :: mosq_protocol

datatype client_event = Publish "nat \<Rightarrow> bool" u64 "u8 list option" "u8 list" int bool
  | Rx_publish "nat \<Rightarrow> bool" u64 mosq_packet | Rx_ack mosq_packet | Rx_pubrec u64 mosq_packet | Rx_pubrel mosq_packet
  | Rx_pingreq | Retry u64 | Reconnect

fun handle_event :: "client_cfg \<Rightarrow> client_event \<Rightarrow> session \<Rightarrow> (int \<times> session) option" where
  "handle_event c (Publish mem now tpc pay q r) s =
     map_option (\<lambda>(rc, m, s'). (rc, s')) (mosquitto_publish (cfg_layout c) (cfg_env c) (cfg_dpm c) mem now tpc pay q r s)"
| "handle_event c (Rx_publish mem now p) s = mosquitto_handle_publish (cfg_layout c) (cfg_env c) (cfg_atcmd c) mem now p s"
| "handle_event c (Rx_ack p) s = mosquitto_handle_pubackcomp (cfg_layout c) (cfg_env c) p s"
| "handle_event c (Rx_pubrec now p) s = mosquitto_handle_pubrec (cfg_layout c) (cfg_env c) now p s"
| "handle_event c (Rx_pubrel p) s = mosquitto_handle_pubrel (cfg_layout c) (cfg_env c) (cfg_protocol c) p s"
| "handle_event c Rx_pingreq s = mosquitto_handle_pingreq (cfg_env c) s"
| "handle_event c (Retry now) s = map_option (Pair 0) (loop_misc_retry (cfg_env c) now s)"
| "handle_event c Reconnect s = map_option (Pair 0) (mosquitto_messages_reconnect_reset s)"

text \<open>
  What the events may be: topics fit the table where a message is preserved, and the broker does not acknowledge a message that has
  not been sent.
\<close>

definition ack_ok :: "mosq_packet \<Rightarrow> session \<Rightarrow> bool" where
  "ack_ok p s = (case mosquitto_read_uint16 p of
      Inl rc \<Rightarrow> True
    | Inr (m, _) \<Rightarrow> (case take_mid m (out_messages (client s)) of None \<Rightarrow> True | Some (x, _) \<Rightarrow> on_way x))"

fun event_ok :: "client_cfg \<Rightarrow> client_event \<Rightarrow> session \<Rightarrow> bool" where
  "event_ok c (Publish mem now tpc pay q r) s = (case tpc of None \<Rightarrow> True | Some t \<Rightarrow> fits_table s t)"
| "event_ok c (Rx_publish mem now p) s = (case read_publish (cfg_atcmd c) mem now p of
      Inl rc \<Rightarrow> True
    | Inr msg \<Rightarrow> m_qos msg \<noteq> 2 \<or> fits_table s (m_topic msg))"
| "event_ok c (Rx_ack p) s = ack_ok p s"
| "event_ok c (Rx_pubrec now p) s = ack_ok p s"
| "event_ok c ev s = True"

text \<open>
  What the broker's messages are to the application: the messages that are held, by their identifiers, and those that are handed on.
  A message of quality of service 2 is held until it is released.
\<close>

type_synonym held = "u16 \<rightharpoonup> u8 list \<times> u8 list"

definition released :: "client_cfg \<Rightarrow> mosq_packet \<Rightarrow> u16 option" where
  "released c p = (if cfg_protocol c = mosq_p_mqtt311 \<and> pk_command p AND 0x0F \<noteq> 0x02 then None
     else case mosquitto_read_uint16 p of Inl rc \<Rightarrow> None | Inr (m, _) \<Rightarrow> Some m)"

fun held_after :: "client_cfg \<Rightarrow> client_event \<Rightarrow> held \<Rightarrow> held" where
  "held_after c (Rx_publish mem now p) M = (case read_publish (cfg_atcmd c) mem now p of
      Inl rc \<Rightarrow> M
    | Inr msg \<Rightarrow> (if m_qos msg = 2 then M(m_mid msg \<mapsto> (m_payload msg, m_topic msg)) else M))"
| "held_after c (Rx_pubrel p) M = (case released c p of None \<Rightarrow> M | Some m \<Rightarrow> M(m := None))"
| "held_after c ev M = M"

fun handed_on :: "client_cfg \<Rightarrow> client_event \<Rightarrow> held \<Rightarrow> (u8 list \<times> u8 list) list" where
  "handed_on c (Rx_publish mem now p) M = (case read_publish (cfg_atcmd c) mem now p of
      Inl rc \<Rightarrow> []
    | Inr msg \<Rightarrow> (if m_qos msg = 0 \<or> m_qos msg = 1 then [(m_payload msg, m_topic msg)] else []))"
| "handed_on c (Rx_pubrel p) M = (case released c p of
      None \<Rightarrow> []
    | Some m \<Rightarrow> (case M m of None \<Rightarrow> [] | Some x \<Rightarrow> [x]))"
| "handed_on c ev M = []"

section \<open>Systems of events\<close>

fun run_all :: "('e \<Rightarrow> 's \<Rightarrow> (int \<times> 's) option) \<Rightarrow> 'e list \<Rightarrow> 's \<Rightarrow> 's option" where
  "run_all handle [] s = Some s"
| "run_all handle (x # xs) s = (case handle x s of None \<Rightarrow> None | Some (rc, s') \<Rightarrow> run_all handle xs s')"

fun all_ok :: "('e \<Rightarrow> 's \<Rightarrow> (int \<times> 's) option) \<Rightarrow> ('e \<Rightarrow> 's \<Rightarrow> bool) \<Rightarrow> 'e list \<Rightarrow> 's \<Rightarrow> bool" where
  "all_ok handle ok [] s = True"
| "all_ok handle ok (x # xs) s = (ok x s \<and> (case handle x s of None \<Rightarrow> True | Some (rc, s') \<Rightarrow> all_ok handle ok xs s'))"

fun outputs :: "('e \<Rightarrow> 'v \<Rightarrow> 'v) \<Rightarrow> ('e \<Rightarrow> 'v \<Rightarrow> 'o list) \<Rightarrow> 'e list \<Rightarrow> 'v \<Rightarrow> 'o list" where
  "outputs nxt out [] v = []"
| "outputs nxt out (x # xs) v = out x v @ outputs nxt out xs (nxt x v)"

text \<open>
  A system that handles events, keeps an invariant and implements an abstract machine: its state has a view on which the events work and
  a log to which they add.
\<close>

locale event_system =
  fixes handle :: "'e \<Rightarrow> 's \<Rightarrow> (int \<times> 's) option"
    and ok :: "'e \<Rightarrow> 's \<Rightarrow> bool"
    and inv :: "'s \<Rightarrow> bool"
    and view :: "'s \<Rightarrow> 'v"
    and log :: "'s \<Rightarrow> 'o list"
    and nxt :: "'e \<Rightarrow> 'v \<Rightarrow> 'v"
    and out :: "'e \<Rightarrow> 'v \<Rightarrow> 'o list"
  assumes step: "inv s \<Longrightarrow> ok x s \<Longrightarrow>
      \<exists>rc s'. handle x s = Some (rc, s') \<and> inv s' \<and> view s' = nxt x (view s) \<and> log s' = log s @ out x (view s)"
begin

lemma runs:
  assumes "inv s" "all_ok handle ok xs s"
  shows "\<exists>s'. run_all handle xs s = Some s' \<and> inv s' \<and> view s' = fold nxt xs (view s) \<and> log s' = log s @ outputs nxt out xs (view s)"
  using assms
proof (induction xs arbitrary: s)
  case (Cons x xs)
  obtain rc u where u: "handle x s = Some (rc, u)" "inv u" "view u = nxt x (view s)" "log u = log s @ out x (view s)"
    using step[OF Cons.prems(1), of x] Cons.prems(2) by auto
  then show ?case using Cons.IH[OF u(2)] Cons.prems(2) by simp
qed simp

end

text \<open>The calls on the table that go with a message of the broker.\<close>

fun rx_calls :: "client_cfg \<Rightarrow> client_event \<Rightarrow> session \<Rightarrow> mq_call list" where
  "rx_calls c (Rx_publish mem now p) s = (case read_publish (cfg_atcmd c) mem now p of
      Inl rc \<Rightarrow> []
    | Inr msg \<Rightarrow> (let x = msg\<lparr>m_state := mosq_ms_wait_for_pubrel\<rparr> in
        if m_qos msg = 2 then (if found (m_mid msg) s = None then [] else [Del x mosq_md_in]) @ [Add x mosq_md_in] else []))"
| "rx_calls c (Rx_pubrel p) s = (case released c p of
      None \<Rightarrow> []
    | Some m \<Rightarrow> (case found m s of None \<Rightarrow> [] | Some x \<Rightarrow> [Del x mosq_md_in]))"
| "rx_calls c ev s = []"

lemma publish_handler_spec:
  assumes s: "sess_ok s" and ok: "event_ok c (Rx_publish mem now p) s"
  shows "\<exists>rc s'. handle_event c (Rx_publish mem now p) s = Some (rc, s') \<and> sess_ok s' \<and>
    map_of (pending s') = held_after c (Rx_publish mem now p) (map_of (pending s)) \<and>
    messages_in (trace s') = messages_in (trace s) @ handed_on c (Rx_publish mem now p) (map_of (pending s)) \<and>
    table_by (cfg_layout c) (rx_calls c (Rx_publish mem now p) s) s s'"
proof (cases "read_publish (cfg_atcmd c) mem now p")
  case (Inl rc)
  then show ?thesis using s by (simp add: mosquitto_handle_publish_def table_by_Nil)
next
  case (Inr msg)
  consider "m_qos msg = 0" | "m_qos msg = 1" | "m_qos msg = 2" | "m_qos msg \<notin> {0, 1, 2}" by auto
  then show ?thesis
  proof cases
    case 1
    then show ?thesis using s Inr by (simp add: mosquitto_handle_publish_def sess_ok_def pending_def table_by_Nil)
  next
    case 2
    obtain rc s1 where t: "transmit (cfg_env c) (\<lambda>m1 m2 junk. mosquitto_send_puback m1 m2 junk (m_mid msg)) s = Some (rc, s1)" "quiet s s1"
      using transmit_mid(1) by blast
    show ?thesis using s Inr 2 t(1) quietD(1,2)[OF t(2)] quiet_trace(1)[OF t(2)]
      by (simp add: mosquitto_handle_publish_def sess_ok_def pending_def table_by_Nil)
  next
    case 3
    obtain rc s1 where t: "transmit (cfg_env c) (\<lambda>m1 m2 junk. mosquitto_send_pubrec m1 m2 junk (m_mid msg)) s = Some (rc, s1)" "quiet s s1"
      using transmit_mid(2) by blast
    let ?msg = "msg\<lparr>m_state := mosq_ms_wait_for_pubrel\<rparr>"
    have s1: "sess_ok s1" by (rule quiet_keeps(1)[OF t(2) s])
    have fit: "fits_table s1 (m_topic ?msg)" using ok Inr 3 quietD(2)[OF t(2)] by (simp add: fits_table_def)
    obtain s' ra where r: "queue_received (cfg_layout c) (cfg_env c) ?msg s1 = Some s'" "sess_ok s'"
      "in_messages (client s') = others (m_mid msg) s1 @ [?msg]" "trace s' = trace s1"
      "mq_msg_tbl_presvd_add (cfg_layout c) ?msg mosq_md_in
         (if found (m_mid msg) s1 = None then table s1 else snd (mq_msg_tbl_presvd_del (cfg_layout c) ?msg mosq_md_in (table s1))) = Some (ra, table s')"
      using queue_received_spec[OF s1 _ _ fit, of "cfg_layout c" "cfg_env c"] 3 by auto
    have f1: "found (m_mid msg) s1 = found (m_mid msg) s" "table s1 = table s" using quietD(1,2)[OF t(2)] by (simp_all add: found_def)
    have tb: "table_by (cfg_layout c) (rx_calls c (Rx_publish mem now p) s) s s'"
    proof (cases "found (m_mid msg) s")
      case None
      then show ?thesis using r(5) f1 Inr 3 by (auto simp: Let_def intro!: table_by_one)
    next
      case (Some x)
      let ?s = "table_del (cfg_layout c) ?msg mosq_md_in s"
      have "table_by (cfg_layout c) [Add ?msg mosq_md_in] ?s s'" using r(5) f1 Some by (intro table_by_one[of _ _ _ ra]) simp
      then show ?thesis using Inr 3 Some
          table_by_Cons[of "cfg_layout c" "Del ?msg mosq_md_in" s "fst (mq_msg_tbl_presvd_del (cfg_layout c) ?msg mosq_md_in (table s))" ?s]
        by (simp add: Let_def)
    qed
    have p1: "pending s1 = pending s" using quietD(1)[OF t(2)] by (simp add: pending_def)
    have "map_of (pending s') = (map_of (pending s))(m_mid msg \<mapsto> (m_payload msg, m_topic msg))"
    proof
      fix k
      show "map_of (pending s') k = ((map_of (pending s))(m_mid msg \<mapsto> (m_payload msg, m_topic msg))) k"
        using fun_cong[OF others_map[of "m_mid msg" s1], of k]
        by (simp add: pending_def[of s'] r(3) p1 map_add_def split: option.splits)
    qed
    then show ?thesis using Inr 3 t(1) r(1,2,4) tb quiet_trace(1)[OF t(2)] by (simp add: mosquitto_handle_publish_def del: rx_calls.simps)
  next
    case 4
    then show ?thesis using s Inr by (simp add: mosquitto_handle_publish_def table_by_Nil)
  qed
qed

lemma pubrel_handler_spec:
  assumes s: "sess_ok s"
  shows "\<exists>rc s'. handle_event c (Rx_pubrel p) s = Some (rc, s') \<and> sess_ok s' \<and>
    map_of (pending s') = held_after c (Rx_pubrel p) (map_of (pending s)) \<and>
    messages_in (trace s') = messages_in (trace s) @ handed_on c (Rx_pubrel p) (map_of (pending s)) \<and>
    table_by (cfg_layout c) (rx_calls c (Rx_pubrel p) s) s s'"
proof (cases "released c p")
  case None
  then have "\<exists>rc. mosquitto_handle_pubrel (cfg_layout c) (cfg_env c) (cfg_protocol c) p s = Some (rc, s)"
    by (auto simp: released_def mosquitto_handle_pubrel_def split: if_splits sum.splits)
  then show ?thesis using s None by (auto intro: table_by_Nil)
next
  case (Some m)
  then obtain q where m: "\<not> (cfg_protocol c = mosq_p_mqtt311 \<and> pk_command p AND 0x0F \<noteq> 0x02)" "mosquitto_read_uint16 p = Inr (m, q)"
    by (auto simp: released_def split: if_splits sum.splits)
  obtain rc s' where r: "mosquitto_handle_pubrel (cfg_layout c) (cfg_env c) (cfg_protocol c) p s = Some (rc, s')" "sess_ok s'"
    "in_messages (client s') = others m s"
    "case found m s of None \<Rightarrow> table s' = table s \<and> messages_in (trace s') = messages_in (trace s)
     | Some x \<Rightarrow> m_mid x = m \<and> table s' = snd (mq_msg_tbl_presvd_del (cfg_layout c) x mosq_md_in (table s)) \<and>
         messages_in (trace s') = messages_in (trace s) @ [(m_payload x, m_topic x)]"
    using pubrel_spec[OF s m, of "cfg_layout c" "cfg_env c"] by blast
  have "map_of (pending s') = (map_of (pending s))(m := None)" using others_map[of m s] by (simp add: pending_def r(3))
  moreover have "table_by (cfg_layout c) (rx_calls c (Rx_pubrel p) s) s s'"
    using r(4) Some by (cases "found m s") (auto intro!: table_by_Nil table_by_del)
  ultimately show ?thesis using r(1,2,4) Some found_pending[of s m] by (auto simp del: rx_calls.simps split: option.splits)
qed

lemma in_kept_pending: "in_kept L cs s s' \<Longrightarrow> pending s' = pending s \<and> messages_in (trace s') = messages_in (trace s)"
  by (simp add: in_kept_def pending_def)

lemma ack_okD: "ack_ok p s \<Longrightarrow> \<forall>m q. mosquitto_read_uint16 p = Inr (m, q) \<longrightarrow>
    (case take_mid m (out_messages (client s)) of None \<Rightarrow> True | Some (x, ms) \<Rightarrow> on_way x)"
  by (auto simp: ack_ok_def)

lemma event_step:
  assumes s: "sess_ok s" and ok: "event_ok c x s"
  shows "\<exists>rc s'. handle_event c x s = Some (rc, s') \<and> sess_ok s' \<and> map_of (pending s') = held_after c x (map_of (pending s)) \<and>
    messages_in (trace s') = messages_in (trace s) @ handed_on c x (map_of (pending s))"
proof (cases x)
  case (Publish mem now tpc pay q r)
  then have "\<forall>t. tpc = Some t \<longrightarrow> fits_table s t" using ok by (simp split: option.splits)
  from publish_spec[OF s this, of "cfg_layout c" "cfg_env c" "cfg_dpm c" mem now pay q r]
  show ?thesis using in_kept_pending by (fastforce simp: Publish)
next
  case (Rx_publish mem now p)
  then show ?thesis using publish_handler_spec[OF s] ok by blast
next
  case (Rx_ack p)
  then show ?thesis using ack_spec[OF s ack_okD, of p "cfg_layout c" "cfg_env c"] ok in_kept_pending by fastforce
next
  case (Rx_pubrec now p)
  then show ?thesis using pubrec_spec[OF s ack_okD, of p "cfg_layout c" "cfg_env c" now] ok in_kept_pending by fastforce
next
  case (Rx_pubrel p)
  then show ?thesis using pubrel_handler_spec[OF s] by blast
next
  case Rx_pingreq
  obtain rc s' where t: "transmit (cfg_env c) mosquitto_send_pingresp s = Some (rc, s')" "quiet s s'" using transmit_mid(5) by blast
  then show ?thesis using quiet_keeps(1)[OF t(2) s] in_kept_pending[OF quiet_keeps(2)[OF t(2) s]]
    by (simp add: Rx_pingreq mosquitto_handle_pingreq_def)
next
  case (Retry now)
  then show ?thesis using misc_spec[OF s, of "cfg_env c" now] by auto
next
  case Reconnect
  then show ?thesis using reconnect_spec[OF s] by auto
qed

interpretation mq_client: event_system "handle_event c" "event_ok c" sess_ok "\<lambda>s. map_of (pending s)" "\<lambda>s. messages_in (trace s)"
  "held_after c" "handed_on c" for c
  by unfold_locales (rule event_step)

end
