(* ===== verification/Mqtt_Wire.thy ===== *)
theory Mqtt_Wire
  imports Mqtt_Session Mqtt_Packet_Props
begin

text \<open>
  The queue of packets in front of the network: \<^verbatim>\<open>_mosquitto_packet_queue\<close>, \<^verbatim>\<open>_mosquitto_packet_write\<close> (\<^verbatim>\<open>src/core/system/src/mqtt_client/lib/net_mosq.c\<close>) and
  the part of \<^verbatim>\<open>_mosquitto_reconnect\<close> that empties it (\<^verbatim>\<open>mosquitto.c\<close>). What a call of the network accepts is an argument; it is never more than
  what it was given. So are the packets that the application's callbacks send: a callback runs inside the write and may enter it again. The bytes accepted on a
  connection, the packets queued on it, the callbacks and the packets freed are recorded. \<open>None\<close> is a write that does not return or touches a packet that has been freed.
\<close>

section \<open>The code\<close>

datatype mosquitto_client_state = mosq_cs_new | mosq_cs_connected | mosq_cs_disconnecting | mosq_cs_connect_async | mosq_cs_connect_pending
  | mosq_cs_connect_srv | mosq_cs_disconnect_cb | mosq_cs_disconnected | mosq_cs_socks5_new | mosq_cs_socks5_start | mosq_cs_socks5_request
  | mosq_cs_socks5_reply | mosq_cs_socks5_auth_ok | mosq_cs_socks5_userpass_reply | mosq_cs_socks5_send_userpass | mosq_cs_expiring
  | mosq_cs_connected_in_dpm

datatype mosquitto_threaded_state = mosq_ts_none | mosq_ts_self | mosq_ts_external

text \<open>\<open>sub_client\<close>: the client is the subscriber and registered as such, as it always is; \<open>n_writes\<close> numbers the calls of the network.\<close>

record mosq_net =
  cs :: mosquitto_client_state
  keepalive :: u16
  next_msg_out :: int
  current_out_packet :: "mosq_packet option"
  out_packet :: "mosq_packet list"
  in_callback :: bool
  threaded :: mosquitto_threaded_state
  sub_client :: bool
  wire :: "u8 list"
  calls :: "effect list"
  n_writes :: nat
  entered :: "mosq_packet list"
  freed :: nat

text \<open>
  The network, by the number of the call: the result of a write and the time afterwards. The application, by the number of the callback: the packets that it
  sends in it.
\<close>

record wire_env =
  w_rc :: "nat \<Rightarrow> int"
  w_now :: "nat \<Rightarrow> int"
  w_cb :: "nat \<Rightarrow> mosq_packet list"

definition MOSQ_ERR_NO_CONN :: int where "MOSQ_ERR_NO_CONN = 4"

definition mosquitto_net_write :: "wire_env \<Rightarrow> u8 list \<Rightarrow> mosq_net \<Rightarrow> int \<times> mosq_net" where
  "mosquitto_net_write e bs n =
     (let r = min (w_rc e (n_writes n)) (int (length bs)) in (r, n\<lparr>n_writes := n_writes n + 1, wire := wire n @ take (nat r) bs\<rparr>))"

function write_packet :: "wire_env \<Rightarrow> mosq_packet \<Rightarrow> mosq_net \<Rightarrow> int option \<times> mosq_packet \<times> mosq_net" where
  "write_packet e p n =
     (if pk_to_process p > 0
      then (let (write_length, n1) = mosquitto_net_write e (take (pk_to_process p) (drop (pk_pos p) (pk_payload p))) n in
            if write_length > 0
            then write_packet e (p\<lparr>pk_to_process := pk_to_process p - nat write_length, pk_pos := pk_pos p + nat write_length\<rparr>) n1
            else if write_length = -1 then (Some MOSQ_ERR_NO_CONN, p, n1)
            else (Some MOSQ_ERR_SUCCESS, p, n1))
      else (None, p, n))"
  by auto
termination by (relation "measure (\<lambda>(e, p, n). pk_to_process p)") (auto simp: mosquitto_net_write_def Let_def)

definition next_packet :: "mosq_net \<Rightarrow> mosq_net" where
  "next_packet n = n\<lparr>current_out_packet := (case out_packet n of [] \<Rightarrow> None | p # ps \<Rightarrow> Some p), out_packet := tl (out_packet n)\<rparr>"

definition free_packet :: "mosq_net \<Rightarrow> mosq_net" where "free_packet n = n\<lparr>freed := freed n + 1\<rparr>"

definition set_next_msg_out :: "wire_env \<Rightarrow> mosq_net \<Rightarrow> mosq_net" where
  "set_next_msg_out e n = n\<lparr>next_msg_out := w_now e (n_writes n) + uint (keepalive n)\<rparr>"

definition begin_write :: "mosq_net \<Rightarrow> mosq_net" where
  "begin_write n = (if out_packet n \<noteq> [] \<and> current_out_packet n = None then next_packet n else n)"

definition enter_packet :: "mosq_packet \<Rightarrow> mosq_net \<Rightarrow> mosq_net" where
  "enter_packet p n = n\<lparr>out_packet := out_packet n @ [queued p], entered := entered n @ [queued p]\<rparr>"

text \<open>\<^verbatim>\<open>_mosquitto_send_publish\<close> and \<^verbatim>\<open>_mosquitto_send_subscribe\<close> clear the mark of a callback, the other functions that send do not.\<close>

definition leaves_callback :: "mosq_packet \<Rightarrow> bool" where
  "leaves_callback p \<longleftrightarrow> pk_command p AND 0xF0 = PUBLISH \<or> pk_command p AND 0xF0 = SUBSCRIBE"

definition clear_callback :: "mosq_packet \<Rightarrow> mosq_net \<Rightarrow> mosq_net" where
  "clear_callback p n = (if leaves_callback p then n\<lparr>in_callback := False\<rparr> else n)"

text \<open>What the application sends in a callback, one packet after the other; \<open>write\<close> is the write of the queue.\<close>

fun callback_sends :: "(mosq_net \<Rightarrow> mosq_net option) \<Rightarrow> mosq_packet list \<Rightarrow> mosq_net \<Rightarrow> mosq_net option" where
  "callback_sends write [] n = Some n"
| "callback_sends write (p # ps) n =
     (let n1 = enter_packet p (clear_callback p n) in
      Option.bind (if \<not> in_callback n1 \<and> threaded n1 = mosq_ts_none then write n1 else Some n1) (callback_sends write ps))"

definition callback :: "(mosq_net \<Rightarrow> mosq_net option) \<Rightarrow> wire_env \<Rightarrow> effect \<Rightarrow> mosq_net \<Rightarrow> mosq_net option" where
  "callback write e x n =
     Option.bind (callback_sends write (w_cb e (length (calls n))) (n\<lparr>calls := calls n @ [x], in_callback := True\<rparr>))
       (\<lambda>n1. Some (n1\<lparr>in_callback := False\<rparr>))"

lemma callback_sends_mono:
  assumes "\<And>m. monotone (fun_ord option_ord) option_ord (\<lambda>f. w f m)"
  shows "monotone (fun_ord option_ord) option_ord (\<lambda>f. callback_sends (w f) ps n)"
proof (induction ps arbitrary: n)
  case Nil
  then show ?case by (simp add: option.const_mono)
next
  case (Cons p ps)
  let ?n1 = "enter_packet p (clear_callback p n)"
  have "monotone (fun_ord option_ord) option_ord (\<lambda>f. if \<not> in_callback ?n1 \<and> threaded ?n1 = mosq_ts_none then w f ?n1 else Some ?n1)"
    by (intro if_mono assms option.const_mono)
  then show ?case unfolding callback_sends.simps Let_def by (intro bind_mono Cons.IH)
qed

lemma callback_mono [partial_function_mono]:
  assumes "\<And>m. monotone (fun_ord option_ord) option_ord (\<lambda>f. w f m)"
  shows "monotone (fun_ord option_ord) option_ord (\<lambda>f. callback (w f) e x n)"
  unfolding callback_def by (intro bind_mono callback_sends_mono assms option.const_mono)

text \<open>The write that a callback enters: it begins and tests the state like the first one.\<close>

definition write_again :: "(mosq_net \<Rightarrow> (int \<times> mosq_net) option) \<Rightarrow> mosq_net \<Rightarrow> mosq_net option" where
  "write_again loop n =
     (if cs (begin_write n) = mosq_cs_connect_pending then Some (begin_write n)
      else Option.bind (loop (begin_write n)) (\<lambda>(rc, n1). Some n1))"

lemma write_again_mono [partial_function_mono]:
  assumes "\<And>m. monotone (fun_ord option_ord) option_ord (\<lambda>f. w f m)"
  shows "monotone (fun_ord option_ord) option_ord (\<lambda>f. write_again (w f) n)"
  unfolding write_again_def by (intro if_mono bind_mono assms option.const_mono)

text \<open>
  One turn of the loop over the packets; \<open>loop\<close> is the rest of it, and what a callback enters. A packet that was freed during its callback must not be freed again.
\<close>

definition write_turn :: "(mosq_net \<Rightarrow> (int \<times> mosq_net) option) \<Rightarrow> wire_env \<Rightarrow> mosq_net \<Rightarrow> (int \<times> mosq_net) option" where
  "write_turn loop e n =
     (case current_out_packet n of
        None \<Rightarrow> Some (MOSQ_ERR_SUCCESS, n)
      | Some packet \<Rightarrow>
          (case write_packet e packet n of
             (r, p, n1) \<Rightarrow>
               (let n2 = n1\<lparr>current_out_packet := Some p\<rparr> in
                case r of
                  Some rc \<Rightarrow> Some (rc, n2)
                | None \<Rightarrow>
                    if pk_command packet AND 0xF6 \<noteq> PUBLISH \<and> pk_command packet AND 0xF0 = DISCONNECT
                    then Option.bind
                      (callback (write_again loop) e On_disconnect (set_next_msg_out e (free_packet (next_packet n2))))
                      (\<lambda>n3. Some (MOSQ_ERR_SUCCESS, n3))
                    else Option.bind
                      (if pk_command packet AND 0xF6 = PUBLISH
                       then callback (write_again loop) e (On_publish (pk_mid packet)) n2
                       else Some n2)
                      (\<lambda>n3. if sub_client n3
                            then (if freed n3 \<noteq> freed n2 then None
                                  else loop (set_next_msg_out e (free_packet (next_packet n3))))
                            else Some (MOSQ_ERR_NOMEM, next_packet n3)))))"

lemma write_turn_mono [partial_function_mono]:
  assumes "\<And>m. monotone (fun_ord option_ord) option_ord (\<lambda>f. w f m)"
  shows "monotone (fun_ord option_ord) option_ord (\<lambda>f. write_turn (w f) e n)"
proof (cases "current_out_packet n")
  case None
  then show ?thesis by (simp add: write_turn_def option.const_mono)
next
  case (Some packet)
  obtain r p n1 where "write_packet e packet n = (r, p, n1)" by (metis prod_cases3)
  then show ?thesis using Some
    by (cases r) (simp_all only: write_turn_def Let_def option.case prod.case, auto intro!: if_mono bind_mono callback_mono write_again_mono assms option.const_mono)
qed

partial_function (option) write_packets :: "wire_env \<Rightarrow> mosq_net \<Rightarrow> (int \<times> mosq_net) option" where
  "write_packets e n = write_turn (write_packets e) e n"

definition mosquitto_packet_write :: "wire_env \<Rightarrow> mosq_net \<Rightarrow> (int \<times> mosq_net) option" where
  "mosquitto_packet_write e n =
     (let n1 = begin_write n in
      if cs n1 = mosq_cs_connect_pending then Some (MOSQ_ERR_SUCCESS, n1) else write_packets e n1)"

definition mosquitto_packet_queue :: "wire_env \<Rightarrow> mosq_packet \<Rightarrow> mosq_net \<Rightarrow> (int \<times> mosq_net) option" where
  "mosquitto_packet_queue e packet n =
     (let n1 = enter_packet packet n in
      if \<not> in_callback n1 \<and> threaded n1 = mosq_ts_none then mosquitto_packet_write e n1 else Some (MOSQ_ERR_SUCCESS, n1))"

function drop_packets :: "mosq_net \<Rightarrow> mosq_net" where
  "drop_packets n = (case current_out_packet n of None \<Rightarrow> n | Some packet \<Rightarrow> drop_packets (next_packet n))"
  by auto
termination
  by (relation "measure (\<lambda>n. length (out_packet n) + (if current_out_packet n = None then 0 else 1))")
    (auto simp: next_packet_def split: list.splits)

declare drop_packets.simps [simp del]

text \<open>The queue at a new connection, on which nothing has been written.\<close>

definition reconnect_packets :: "mosq_net \<Rightarrow> mosq_net" where
  "reconnect_packets n = drop_packets (if out_packet n \<noteq> [] \<and> current_out_packet n = None then next_packet n else n)"

text \<open>A call leaves the queue alone while it writes a packet.\<close>

lemma net_write_other: "mosquitto_net_write e bs n = (r, n') \<Longrightarrow> \<exists>w k. n' = n\<lparr>n_writes := k, wire := w\<rparr>"
  by (auto simp: mosquitto_net_write_def Let_def)

lemma write_packet_other: "write_packet e p n = (r, p', n') \<Longrightarrow> \<exists>w k. n' = n\<lparr>n_writes := k, wire := w\<rparr>"
proof (induction e p n rule: write_packet.induct)
  case (1 e p n)
  obtain w n1 where w: "mosquitto_net_write e (take (pk_to_process p) (drop (pk_pos p) (pk_payload p))) n = (w, n1)" by fastforce
  obtain ws k where n1: "n1 = n\<lparr>n_writes := k, wire := ws\<rparr>" using net_write_other[OF w] by blast
  show ?case
  proof (cases "pk_to_process p > 0")
    case True
    note step = 1(2)[unfolded write_packet.simps[of e p n] w Let_def prod.case if_P[OF True]]
    show ?thesis
    proof (cases "w > 0")
      case w0: True
      show ?thesis using 1(1)[OF True w[symmetric] refl w0] step n1 w0 by (auto simp: if_P)
    next
      case False
      then show ?thesis using step n1 by (auto split: if_splits)
    qed
  next
    case False
    then show ?thesis using 1(2) by (simp add: write_packet.simps[of e p n]) (metis mosq_net.surjective mosq_net.update_convs(9,11))
  qed
qed

declare write_packet.simps [simp del]

section \<open>What is on the wire\<close>

text \<open>Packets that still have to be written, the first maybe in part.\<close>

definition unsent :: "mosq_net \<Rightarrow> mosq_packet list" where
  "unsent n = (case current_out_packet n of None \<Rightarrow> [] | Some p \<Rightarrow> [p]) @ out_packet n"

text \<open>What the application is told about a packet that has been written.\<close>

definition reported :: "mosq_packet \<Rightarrow> effect list" where
  "reported p = (if pk_command p AND 0xF6 = PUBLISH then [On_publish (pk_mid p)]
     else if pk_command p AND 0xF0 = DISCONNECT then [On_disconnect] else [])"

abbreviation whole :: "mosq_packet list \<Rightarrow> u8 list" where "whole ps \<equiv> concat (map pk_payload ps)"
abbreviation reports :: "mosq_packet list \<Rightarrow> effect list" where "reports ps \<equiv> concat (map reported ps)"

text \<open>A packet with all its bytes, as it enters the queue.\<close>

definition complete :: "mosq_packet \<Rightarrow> bool" where "complete p \<longleftrightarrow> pk_pos p = 0 \<and> pk_to_process p = length (pk_payload p)"

text \<open>\<open>p\<close> is the packet \<open>q\<close>, of which \<open>pk_pos p\<close> bytes have been written.\<close>

definition in_part :: "mosq_packet \<Rightarrow> mosq_packet \<Rightarrow> bool" where
  "in_part q p \<longleftrightarrow> complete q \<and> p = q\<lparr>pk_pos := pk_pos p, pk_to_process := length (pk_payload q) - pk_pos p\<rparr> \<and> pk_pos p \<le> length (pk_payload q)"

text \<open>
  The packets queued since the connection was made are those that have been written, one that may have been written in part, and those that wait; the
  wire has the former and the part.
\<close>

definition wire_inv :: "mosq_net \<Rightarrow> bool" where
  "wire_inv n \<longleftrightarrow> (\<exists>ds. list_all complete (entered n) \<and> calls n = reports ds \<and>
     (case current_out_packet n of
        None \<Rightarrow> entered n = ds @ out_packet n \<and> wire n = whole ds
      | Some p \<Rightarrow> (\<exists>q. in_part q p \<and> entered n = ds @ q # out_packet n \<and> wire n = whole ds @ take (pk_pos p) (pk_payload q))))"

lemma write_packet_spec:
  assumes "write_packet e p n = (r, p', n')" "in_part q p" "wire n = w @ take (pk_pos p) (pk_payload q)"
  shows "in_part q p' \<and> wire n' = w @ take (pk_pos p') (pk_payload q) \<and> (r = None \<longrightarrow> pk_pos p' = length (pk_payload q))"
  using assms
proof (induction e p n rule: write_packet.induct)
  case (1 e p n)
  let ?bs = "take (pk_to_process p) (drop (pk_pos p) (pk_payload p))"
  obtain l n1 where l: "mosquitto_net_write e ?bs n = (l, n1)" by fastforce
  have q: "pk_payload p = pk_payload q" "pk_to_process p = length (pk_payload q) - pk_pos p" "pk_pos p \<le> length (pk_payload q)"
    using 1(3) by (auto simp: in_part_def dest: arg_cong[where f = pk_payload] arg_cong[where f = pk_to_process])
  then have bs: "?bs = drop (pk_pos p) (pk_payload q)" by simp
  have l': "l \<le> int (length (pk_payload q) - pk_pos p)" "wire n1 = w @ take (pk_pos p + nat l) (pk_payload q)"
    using l 1(4) unfolding bs by (auto simp: mosquitto_net_write_def Let_def take_add)
  note step = 1(2)[unfolded write_packet.simps[of e p n] l Let_def prod.case]
  show ?case
  proof (cases "pk_to_process p > 0 \<and> l > 0")
    case True
    let ?p = "p\<lparr>pk_to_process := pk_to_process p - nat l, pk_pos := pk_pos p + nat l\<rparr>"
    have "in_part q ?p" using 1(3) q l' True by (cases p; cases q) (auto simp: in_part_def)
    moreover have "write_packet e ?p n1 = (r, p', n')" using step True by simp
    ultimately show ?thesis using 1(1)[OF _ l[symmetric] refl] True l'(2) by simp
  next
    case False
    then show ?thesis using step 1(3,4) q l' by (auto split: if_splits)
  qed
qed

lemma wire_inv_next:
  assumes "list_all complete (entered n)" "entered n = ds @ q # out_packet n" "calls n = reports (ds @ [q])" "wire n = whole (ds @ [q])"
  shows "wire_inv (next_packet n)"
proof (cases "out_packet n")
  case Nil
  then show ?thesis using assms by (auto simp: wire_inv_def next_packet_def intro!: exI[of _ "ds @ [q]"])
next
  case (Cons p ps)
  then have "in_part p p" using assms(1,2) by (auto simp: in_part_def complete_def)
  moreover have "pk_pos p = 0" using Cons assms(1,2) by (simp add: complete_def)
  ultimately show ?thesis using assms Cons
    by (auto simp: wire_inv_def next_packet_def intro!: exI[of _ "ds @ [q]"] exI[of _ p])
qed

lemma wire_inv_other:
  assumes "current_out_packet m = current_out_packet n" "out_packet m = out_packet n" "wire m = wire n" "calls m = calls n" "entered m = entered n"
  shows "wire_inv m \<longleftrightarrow> wire_inv n"
  unfolding wire_inv_def assms ..

lemma wire_inv_rest [simp]:
  "wire_inv (n\<lparr>in_callback := b\<rparr>) = wire_inv n" "wire_inv (set_next_msg_out e n) = wire_inv n" "wire_inv (free_packet n) = wire_inv n"
  "wire_inv (clear_callback p n) = wire_inv n"
  by (rule wire_inv_other; simp add: set_next_msg_out_def free_packet_def clear_callback_def)+

lemma begin_inv: "wire_inv n \<Longrightarrow> wire_inv (begin_write n)"
proof (cases "out_packet n \<noteq> [] \<and> current_out_packet n = None")
  case True
  assume inv: "wire_inv n"
  obtain p qs where p: "out_packet n = p # qs" using True by (cases "out_packet n") auto
  then have "in_part p p" "pk_pos p = 0" using inv True by (auto simp: wire_inv_def in_part_def complete_def)
  then show ?thesis using inv True p by (auto simp: wire_inv_def begin_write_def next_packet_def)
qed (auto simp: begin_write_def)

lemma enter_inv: "wire_inv n \<Longrightarrow> complete (queued p) \<Longrightarrow> wire_inv (enter_packet p n)"
  by (auto simp: wire_inv_def enter_packet_def split: option.splits)

text \<open>After a DISCONNECT packet nothing more is written in the same call.\<close>

definition ends_write :: "mosq_packet \<Rightarrow> bool" where
  "ends_write p \<longleftrightarrow> pk_command p AND 0xF6 \<noteq> PUBLISH \<and> pk_command p AND 0xF0 = DISCONNECT"

text \<open>The loop for one packet: it is cut, it ends the write, or the next one follows.\<close>

lemma write_packets_cases:
  assumes "current_out_packet n = Some packet" "write_packet e packet n = (r, p, n1)"
  shows "write_packets e n =
    (let n2 = n1\<lparr>current_out_packet := Some p\<rparr> in
     case r of
       Some rc \<Rightarrow> Some (rc, n2)
     | None \<Rightarrow>
         if ends_write packet
         then Option.bind (callback (write_again (write_packets e)) e On_disconnect (set_next_msg_out e (free_packet (next_packet n2))))
           (\<lambda>n3. Some (MOSQ_ERR_SUCCESS, n3))
         else Option.bind (if pk_command packet AND 0xF6 = PUBLISH then callback (write_again (write_packets e)) e (On_publish (pk_mid packet)) n2 else Some n2)
           (\<lambda>n3. if sub_client n3
                 then (if freed n3 \<noteq> freed n2 then None else write_packets e (set_next_msg_out e (free_packet (next_packet n3))))
                 else Some (MOSQ_ERR_NOMEM, next_packet n3)))"
  by (subst write_packets.simps) (simp add: write_turn_def assms Let_def ends_write_def cong: if_cong option.case_cong)

section \<open>Writes inside a write\<close>

text \<open>What every write keeps; packets are only ever freed.\<close>

definition same_net :: "mosq_net \<Rightarrow> mosq_net \<Rightarrow> bool" where
  "same_net n n' \<longleftrightarrow> cs n' = cs n \<and> keepalive n' = keepalive n \<and> sub_client n' = sub_client n \<and> threaded n' = threaded n \<and> freed n \<le> freed n'"

lemma same_net_trans [trans]: "same_net a b \<Longrightarrow> same_net b c \<Longrightarrow> same_net a c" by (auto simp: same_net_def)

lemma same_net_steps [simp]:
  "same_net n n" "same_net n (next_packet n)" "same_net n (free_packet n)" "same_net n (set_next_msg_out e n)" "same_net n (begin_write n)" "same_net n (enter_packet p n)"
  "same_net n (clear_callback p n)" "same_net n (n\<lparr>in_callback := b\<rparr>)" "same_net n (n\<lparr>calls := xs\<rparr>)" "same_net n (n\<lparr>calls := xs, in_callback := b\<rparr>)" "same_net n (n\<lparr>current_out_packet := cp\<rparr>)"
  by (auto simp: same_net_def next_packet_def free_packet_def set_next_msg_out_def begin_write_def enter_packet_def clear_callback_def)

text \<open>The current packet has been written, but not yet taken off.\<close>

definition written :: "mosq_net \<Rightarrow> bool" where "written n \<longleftrightarrow> (\<exists>p. current_out_packet n = Some p \<and> pk_to_process p = 0)"

text \<open>The application sends packets with all their bytes.\<close>

definition sends_whole :: "wire_env \<Rightarrow> bool" where "sends_whole e \<longleftrightarrow> (\<forall>k. \<forall>p \<in> set (w_cb e k). complete (queued p))"

text \<open>
  A write that returns keeps the queue in order, and one that finds a packet that has been written frees it.
\<close>

definition write_ok :: "wire_env \<Rightarrow> (mosq_net \<Rightarrow> mosq_net option) \<Rightarrow> bool" where
  "write_ok e w \<longleftrightarrow> (\<forall>n n'. w n = Some n' \<longrightarrow> same_net n n' \<and> (sub_client n \<and> written n \<longrightarrow> n' = n \<or> freed n < freed n') \<and>
     (sub_client n \<and> sends_whole e \<and> wire_inv n \<longrightarrow> wire_inv n'))"

definition turn_ok :: "wire_env \<Rightarrow> mosq_net \<Rightarrow> mosq_net \<Rightarrow> bool" where
  "turn_ok e n n' \<longleftrightarrow> same_net n n' \<and> (sub_client n \<and> written n \<longrightarrow> freed n < freed n') \<and> (sub_client n \<and> sends_whole e \<and> wire_inv n \<longrightarrow> wire_inv n')"

definition loop_ok :: "wire_env \<Rightarrow> (mosq_net \<Rightarrow> (int \<times> mosq_net) option) \<Rightarrow> bool" where
  "loop_ok e f \<longleftrightarrow> (\<forall>n rc n'. f n = Some (rc, n') \<longrightarrow> turn_ok e n n')"

lemma write_again_ok:
  assumes "loop_ok e f"
  shows "write_ok e (write_again f)"
  unfolding write_ok_def
proof (intro allI impI)
  fix n n' assume w: "write_again f n = Some n'"
  have b: "written n \<Longrightarrow> begin_write n = n" by (auto simp: written_def begin_write_def)
  show "same_net n n' \<and> (sub_client n \<and> written n \<longrightarrow> n' = n \<or> freed n < freed n') \<and> (sub_client n \<and> sends_whole e \<and> wire_inv n \<longrightarrow> wire_inv n')"
  proof (cases "cs (begin_write n) = mosq_cs_connect_pending")
    case True
    then show ?thesis using w b begin_inv by (auto simp: write_again_def)
  next
    case False
    then obtain rc where f: "f (begin_write n) = Some (rc, n')" using w by (auto simp: write_again_def bind_eq_Some_conv)
    have s: "sub_client (begin_write n) = sub_client n" by (simp add: begin_write_def next_packet_def)
    show ?thesis using assms[unfolded loop_ok_def turn_ok_def, rule_format, OF f] same_net_trans[OF same_net_steps(5)] b begin_inv[of n] s by auto
  qed
qed

lemma callback_sends_same: "write_ok e w \<Longrightarrow> callback_sends w ps n = Some n' \<Longrightarrow> same_net n n'"
proof (induction ps arbitrary: n)
  case (Cons p ps)
  let ?n1 = "enter_packet p (clear_callback p n)"
  have n1: "same_net n ?n1" using same_net_trans[OF same_net_steps(7) same_net_steps(6)] .
  obtain n2 where n2: "(if \<not> in_callback ?n1 \<and> threaded ?n1 = mosq_ts_none then w ?n1 else Some ?n1) = Some n2" "callback_sends w ps n2 = Some n'"
    using Cons.prems(2) by (auto simp: Let_def bind_eq_Some_conv)
  then have "same_net ?n1 n2" using Cons.prems(1) by (auto simp: write_ok_def split: if_splits)
  then show ?case using Cons.IH[OF Cons.prems(1) n2(2)] n1 same_net_trans by blast
qed simp

lemma callback_sends_inv:
  "write_ok e w \<Longrightarrow> callback_sends w ps n = Some n' \<Longrightarrow> sends_whole e \<Longrightarrow> \<forall>p \<in> set ps. complete (queued p) \<Longrightarrow> sub_client n \<Longrightarrow> wire_inv n \<Longrightarrow> wire_inv n'"
proof (induction ps arbitrary: n)
  case (Cons p ps)
  let ?n1 = "enter_packet p (clear_callback p n)"
  obtain n2 where n2: "(if \<not> in_callback ?n1 \<and> threaded ?n1 = mosq_ts_none then w ?n1 else Some ?n1) = Some n2" "callback_sends w ps n2 = Some n'"
    using Cons.prems(2) by (auto simp: Let_def bind_eq_Some_conv)
  have n1: "wire_inv ?n1" "sub_client ?n1"
    using Cons.prems(4,5,6) enter_inv[of "clear_callback p n" p] by (auto simp: enter_packet_def clear_callback_def)
  then have "wire_inv n2 \<and> same_net ?n1 n2" using n2(1) Cons.prems(1,3) by (auto simp: write_ok_def split: if_splits)
  then show ?case using Cons.IH[OF Cons.prems(1) n2(2) Cons.prems(3)] Cons.prems(4) n1(2) by (auto simp: same_net_def)
qed simp

text \<open>While a packet that has been written is still the current one, a callback that returns with it has only queued packets.\<close>

lemma callback_sends_written:
  "write_ok e w \<Longrightarrow> callback_sends w ps n = Some n' \<Longrightarrow> freed n' = freed n \<Longrightarrow> sub_client n \<Longrightarrow> written n \<Longrightarrow>
   \<exists>b. n' = n\<lparr>out_packet := out_packet n @ map queued ps, entered := entered n @ map queued ps, in_callback := b\<rparr>"
proof (induction ps arbitrary: n)
  case Nil
  then show ?case by (auto intro!: exI[of _ "in_callback n"])
next
  case (Cons p ps)
  let ?n1 = "enter_packet p (clear_callback p n)"
  obtain n2 where n2: "(if \<not> in_callback ?n1 \<and> threaded ?n1 = mosq_ts_none then w ?n1 else Some ?n1) = Some n2" "callback_sends w ps n2 = Some n'"
    using Cons.prems(2) by (auto simp: Let_def bind_eq_Some_conv)
  have n1: "sub_client ?n1" "written ?n1" "freed ?n1 = freed n"
    using Cons.prems(4,5) by (auto simp: enter_packet_def clear_callback_def written_def)
  have "n2 = ?n1 \<or> freed ?n1 < freed n2" using n2(1) n1(1,2) Cons.prems(1)[unfolded write_ok_def, rule_format, of ?n1 n2] by (simp split: if_splits)
  moreover have "freed n2 \<le> freed n'" using callback_sends_same[OF Cons.prems(1) n2(2)] by (simp add: same_net_def)
  ultimately have "n2 = ?n1" using Cons.prems(3) n1(3) by auto
  then show ?case using Cons.IH[OF Cons.prems(1), of ?n1] n2(2) n1 Cons.prems(3) by (auto simp: enter_packet_def clear_callback_def)
qed

lemma callback_same: "write_ok e w \<Longrightarrow> callback w e x n = Some n' \<Longrightarrow> same_net n n'"
  using same_net_trans[OF same_net_steps(10)] callback_sends_same by (fastforce simp: callback_def bind_eq_Some_conv same_net_def)

lemma callback_inv:
  assumes "write_ok e w" "callback w e x n = Some n'" "sends_whole e" "sub_client n" "wire_inv (n\<lparr>calls := calls n @ [x]\<rparr>)"
  shows "wire_inv n'"
proof -
  obtain n1 where n1: "callback_sends w (w_cb e (length (calls n))) (n\<lparr>calls := calls n @ [x], in_callback := True\<rparr>) = Some n1" "n' = n1\<lparr>in_callback := False\<rparr>"
    using assms(2) by (auto simp: callback_def bind_eq_Some_conv)
  have "wire_inv (n\<lparr>calls := calls n @ [x], in_callback := True\<rparr>)" using assms(5) by (subst wire_inv_other) auto
  then show ?thesis using callback_sends_inv[OF assms(1) n1(1) assms(3)] assms(3,4) n1(2) by (auto simp: sends_whole_def)
qed

lemma callback_written:
  assumes "write_ok e w" "callback w e x n = Some n'" "freed n' = freed n" "sub_client n" "written n"
  shows "n' = n\<lparr>out_packet := out_packet n @ map queued (w_cb e (length (calls n))), entered := entered n @ map queued (w_cb e (length (calls n))),
    calls := calls n @ [x], in_callback := False\<rparr>"
proof -
  obtain n1 where n1: "callback_sends w (w_cb e (length (calls n))) (n\<lparr>calls := calls n @ [x], in_callback := True\<rparr>) = Some n1" "n' = n1\<lparr>in_callback := False\<rparr>"
    using assms(2) by (auto simp: callback_def bind_eq_Some_conv)
  then show ?thesis using callback_sends_written[OF assms(1) n1(1)] assms(3-5) by (auto simp: written_def)
qed

text \<open>One turn of the loop, with writes inside it that are in order.\<close>

lemma packet_cut:
  assumes "wire_inv n" "current_out_packet n = Some packet" "write_packet e packet n = (r, p, n1)"
  shows "wire_inv (n1\<lparr>current_out_packet := Some p\<rparr>)"
proof -
  obtain ds q where d: "list_all complete (entered n)" "calls n = reports ds" "in_part q packet" "entered n = ds @ q # out_packet n"
    "wire n = whole ds @ take (pk_pos packet) (pk_payload q)"
    using assms(1,2) by (auto simp: wire_inv_def)
  obtain ws k where "n1 = n\<lparr>n_writes := k, wire := ws\<rparr>" using write_packet_other[OF assms(3)] by blast
  then show ?thesis using write_packet_spec[OF assms(3) d(3,5)] d by (auto simp: wire_inv_def)
qed

lemma in_part_same: "in_part q p \<Longrightarrow> pk_command p = pk_command q \<and> pk_mid p = pk_mid q"
  by (cases p; cases q) (simp add: in_part_def)

text \<open>A packet that has been written is taken off once the application has been told; \<open>ps\<close> has been queued meanwhile.\<close>

lemma packet_done:
  assumes "wire_inv n" "current_out_packet n = Some packet" "write_packet e packet n = (None, p, n1)" "list_all complete ps"
    "m = n1\<lparr>current_out_packet := Some p, calls := calls n @ reported packet, out_packet := out_packet n @ ps, entered := entered n @ ps, in_callback := b\<rparr>"
  shows "wire_inv (next_packet m)"
proof -
  obtain ds q where d: "list_all complete (entered n)" "calls n = reports ds" "in_part q packet" "entered n = ds @ q # out_packet n"
    "wire n = whole ds @ take (pk_pos packet) (pk_payload q)"
    using assms(1,2) by (auto simp: wire_inv_def)
  have "reported packet = reported q" using in_part_same[OF d(3)] by (simp add: reported_def)
  moreover obtain ws k where "n1 = n\<lparr>n_writes := k, wire := ws\<rparr>" using write_packet_other[OF assms(3)] by blast
  ultimately show ?thesis
    using write_packet_spec[OF assms(3) d(3,5)] d assms(4,5) by (intro wire_inv_next[of m ds q]) simp_all
qed

lemma written_next:
  assumes "write_packet e packet n = (None, p, n1)"
  shows "pk_to_process p = 0"
  using assms
proof (induction e packet n rule: write_packet.induct)
  case (1 e p n)
  obtain l n1 where l: "mosquitto_net_write e (take (pk_to_process p) (drop (pk_pos p) (pk_payload p))) n = (l, n1)" by fastforce
  note step = 1(2)[unfolded write_packet.simps[of e p n] l Let_def prod.case]
  show ?case
  proof (cases "pk_to_process p > 0 \<and> l > 0")
    case True
    then show ?thesis using 1(1)[OF _ l[symmetric] refl] step by simp
  next
    case False
    then show ?thesis using step by (auto split: if_splits)
  qed
qed

lemma packet_reported:
  assumes "current_out_packet n = Some packet" "write_packet e packet n = (None, p, n1)" "wire_inv n"
  shows "wire_inv (next_packet (n1\<lparr>current_out_packet := Some p, calls := calls n @ reported packet\<rparr>))"
proof -
  obtain ws k where "n1 = n\<lparr>n_writes := k, wire := ws\<rparr>" using write_packet_other[OF assms(2)] by blast
  then show ?thesis
    using packet_done[OF assms(3,1,2), of "[]" "n1\<lparr>current_out_packet := Some p, calls := calls n @ reported packet\<rparr>" "in_callback n"] by simp
qed

lemma turn:
  assumes ok: "loop_ok e f" and r: "write_turn f e n = Some (rc, n')"
  shows "turn_ok e n n'"
proof (cases "current_out_packet n")
  case None
  then show ?thesis using r by (auto simp: written_def turn_ok_def write_turn_def)
next
  case (Some packet)
  obtain s p n1 where w: "write_packet e packet n = (s, p, n1)" by (metis prod_cases3)
  let ?n2 = "n1\<lparr>current_out_packet := Some p\<rparr>"
  obtain ws k where n1: "n1 = n\<lparr>n_writes := k, wire := ws\<rparr>" using write_packet_other[OF w] by blast
  then have k2: "same_net n ?n2" "freed ?n2 = freed n" "sub_client ?n2 = sub_client n" by (auto simp: same_net_def)
  have wa: "write_ok e (write_again f)" by (rule write_again_ok[OF ok])
  note step = r[unfolded write_turn_def Some w option.case prod.case Let_def]
  show ?thesis
  proof (cases s)
    case s: (Some c)
    have "\<not> written n"
    proof
      assume "written n"
      then have "write_packet e packet n = (None, packet, n)" using Some by (subst write_packet.simps) (simp add: written_def)
      then show False using s w by simp
    qed
    then show ?thesis using step s k2 packet_cut[OF _ Some w] by (auto simp: turn_ok_def)
  next
    case s: None
    note w = w[unfolded s]
    have wr: "written ?n2" using written_next[OF w] by (auto simp: written_def)
    show ?thesis
    proof (cases "ends_write packet")
      case True
      let ?n3 = "set_next_msg_out e (free_packet (next_packet ?n2))"
      have c: "callback (write_again f) e On_disconnect ?n3 = Some n'"
        using step s True by (auto simp: ends_write_def bind_eq_Some_conv)
      have "reported packet = [On_disconnect]" using True by (auto simp: ends_write_def reported_def)
      moreover have "wire_inv (?n3\<lparr>calls := calls ?n3 @ reported packet\<rparr>)" if "wire_inv n"
        using packet_reported[OF Some w that] n1
        by (subst wire_inv_other[of _ "next_packet (n1\<lparr>current_out_packet := Some p, calls := calls n @ reported packet\<rparr>)"])
          (auto simp: next_packet_def free_packet_def set_next_msg_out_def)
      moreover have "same_net ?n2 ?n3" "freed ?n3 = freed n + 1" "sub_client ?n3 = sub_client n"
        using n1 by (auto simp: same_net_def set_next_msg_out_def free_packet_def next_packet_def)
      ultimately show ?thesis using callback_same[OF wa c] callback_inv[OF wa c] k2 by (auto simp: turn_ok_def same_net_def)
    next
      case False
      obtain n3 where n3: "(if pk_command packet AND 0xF6 = PUBLISH then callback (write_again f) e (On_publish (pk_mid packet)) ?n2 else Some ?n2) = Some n3"
        "(if sub_client n3 then (if freed n3 \<noteq> freed ?n2 then None else f (set_next_msg_out e (free_packet (next_packet n3))))
          else Some (MOSQ_ERR_NOMEM, next_packet n3)) = Some (rc, n')"
        using step s False by (auto simp: ends_write_def bind_eq_Some_conv)
      have k3: "same_net ?n2 n3" using n3(1) callback_same[OF wa] by (auto split: if_splits)
      show ?thesis
      proof (cases "sub_client n")
        case sub: True
        let ?n4 = "set_next_msg_out e (free_packet (next_packet n3))"
        have n4: "freed n3 = freed ?n2" "f ?n4 = Some (rc, n')" using n3(2) k3 sub k2(3) by (auto simp: same_net_def split: if_splits)
        have k4: "same_net n3 ?n4" "freed ?n4 = freed n + 1" "sub_client ?n4"
          using sub k3 k2 n4(1) by (auto simp: same_net_def set_next_msg_out_def free_packet_def next_packet_def)
        have "wire_inv ?n4" if i: "wire_inv n" "sends_whole e"
        proof (cases "pk_command packet AND 0xF6 = PUBLISH")
          case True
          have c: "callback (write_again f) e (On_publish (pk_mid packet)) ?n2 = Some n3" using n3(1) True by simp
          have "reported packet = [On_publish (pk_mid packet)]" using True by (simp add: reported_def)
          then have "wire_inv (next_packet n3)"
            using i(2) n1 sub callback_written[OF wa c n4(1) _ wr]
            by (intro packet_done[OF i(1) Some w, where ps = "map queued (w_cb e (length (calls n)))" and b = False])
              (auto simp: sends_whole_def list_all_iff)
          then show ?thesis by simp
        next
          case p: False
          then have "n3 = ?n2" "reported packet = []" using n3(1) False by (auto simp: reported_def ends_write_def)
          then show ?thesis using packet_reported[OF Some w i(1)] n1 by simp
        qed
        then show ?thesis using ok[unfolded loop_ok_def turn_ok_def, rule_format, OF n4(2)] k2 k3 k4 sub by (auto simp: turn_ok_def same_net_def)
      next
        case sub: False
        then have "n' = next_packet n3" using n3(2) k3 k2(3) by (auto simp: same_net_def)
        then show ?thesis using sub k2 k3 by (auto simp: turn_ok_def same_net_def next_packet_def)
      qed
    qed
  qed
qed

lemma write_packets_ok: "loop_ok e (write_packets e)"
proof -
  have "turn_ok e n (snd r)" if "write_packets e n = Some r" for n r
  proof (rule write_packets.raw_induct[of "\<lambda>e n r. turn_ok e n (snd r)", OF _ that])
    fix f and e :: wire_env and n and r :: "int \<times> mosq_net"
    assume f: "\<And>e n r. f e n = Some r \<Longrightarrow> turn_ok e n (snd r)" "write_turn (f e) e n = Some r"
    have "loop_ok e (f e)" using f(1) by (fastforce simp: loop_ok_def)
    then show "turn_ok e n (snd r)" using turn[of e "f e" n "fst r" "snd r"] f(2) by simp
  qed
  then show ?thesis by (fastforce simp: loop_ok_def)
qed

lemma packet_write_same: "mosquitto_packet_write e n = Some (rc, n') \<Longrightarrow> same_net n n'"
  using write_packets_ok[of e, unfolded loop_ok_def turn_ok_def, rule_format, of "begin_write n" rc n'] same_net_trans[OF same_net_steps(5)[of n]]
  by (auto simp: mosquitto_packet_write_def Let_def split: if_splits)

lemma packet_write_inv:
  assumes "mosquitto_packet_write e n = Some (rc, n')" "sub_client n" "sends_whole e" "wire_inv n"
  shows "wire_inv n'"
proof -
  have "wire_inv (begin_write n)" "sub_client (begin_write n)" using assms(2,4) begin_inv by (auto simp: begin_write_def next_packet_def)
  then show ?thesis
    using assms(1,3) write_packets_ok[of e, unfolded loop_ok_def turn_ok_def, rule_format, of "begin_write n" rc n']
    by (auto simp: mosquitto_packet_write_def Let_def split: if_splits)
qed

lemma packet_queue_same: "mosquitto_packet_queue e p n = Some (rc, n') \<Longrightarrow> same_net n n'"
  using packet_write_same[of e "enter_packet p n" rc n'] same_net_trans[OF same_net_steps(6)[of n p]]
  by (auto simp: mosquitto_packet_queue_def Let_def split: if_splits)

lemma packet_queue_inv:
  assumes "mosquitto_packet_queue e p n = Some (rc, n')" "complete (queued p)" "sub_client n" "sends_whole e" "wire_inv n"
  shows "wire_inv n'"
  using packet_write_inv[of e "enter_packet p n" rc n'] enter_inv[OF assms(5,2)] assms(1,3,4)
  by (auto simp: mosquitto_packet_queue_def Let_def enter_packet_def split: if_splits)

text \<open>A PUBLISH or SUBSCRIBE packet that is sent in the callback of a PUBLISH packet enters the write again, which frees the packet under the first write.\<close>

lemma publish_in_callback:
  assumes "current_out_packet n = Some packet" "write_packet e packet n = (None, p, n1)" "pk_command packet AND 0xF6 = PUBLISH" "sub_client n"
    "w_cb e (length (calls n)) = q # qs" "leaves_callback q" "threaded n = mosq_ts_none" "cs n \<noteq> mosq_cs_connect_pending"
  shows "write_packets e n = None"
proof (rule ccontr)
  let ?w = "write_again (write_packets e)" and ?n2 = "n1\<lparr>current_out_packet := Some p\<rparr>"
  let ?m = "enter_packet q (clear_callback q (?n2\<lparr>calls := calls ?n2 @ [On_publish (pk_mid packet)], in_callback := True\<rparr>))"
  assume "write_packets e n \<noteq> None"
  obtain ws k where n1: "n1 = n\<lparr>n_writes := k, wire := ws\<rparr>" using write_packet_other[OF assms(2)] by blast
  have "\<not> ends_write packet" using assms(3) by (simp add: ends_write_def)
  with \<open>write_packets e n \<noteq> None\<close> obtain n3 where n3: "callback ?w e (On_publish (pk_mid packet)) ?n2 = Some n3" "sub_client n3 \<longrightarrow> freed n3 = freed ?n2"
    unfolding write_packets_cases[OF assms(1,2)] Let_def option.case by (auto simp: assms(3) bind_eq_Some_conv split: if_splits)
  have wa: "write_ok e ?w" by (rule write_again_ok[OF write_packets_ok])
  have m: "written ?m" "sub_client ?m" "freed ?m = freed n" "cs ?m \<noteq> mosq_cs_connect_pending" "\<not> in_callback ?m" "threaded ?m = mosq_ts_none"
    "current_out_packet ?m = Some p"
    using n1 assms(4,6-8) written_next[OF assms(2)] by (auto simp: written_def enter_packet_def clear_callback_def)
  obtain n4 n5 where n4: "?w ?m = Some n4" "callback_sends ?w qs n4 = Some n5" "freed n5 = freed n3"
    using n3(1) m(5,6) n1 assms(5) by (auto simp: callback_def bind_eq_Some_conv Let_def)
  have b: "begin_write ?m = ?m" using m(7) by (simp add: begin_write_def)
  have "Option.bind (write_packets e ?m) (\<lambda>(rc, n1). Some n1) = Some n4" using n4(1) m(4) unfolding write_again_def b by (simp only: if_False)
  then obtain rc where f: "write_packets e ?m = Some (rc, n4)" unfolding bind_eq_Some_conv by auto
  have "freed ?m < freed n4" using write_packets_ok[of e, unfolded loop_ok_def turn_ok_def, rule_format, OF f] m(1,2) by simp
  moreover have "freed n4 \<le> freed n5" using callback_sends_same[OF wa n4(2)] by (simp add: same_net_def)
  moreover have "sub_client n3" using callback_same[OF wa n3(1)] n1 assms(4) by (simp add: same_net_def)
  then have "freed n3 = freed n" using n3(2) n1 by simp
  ultimately show False using m(3) n4(3) by simp
qed

section \<open>Callbacks that do not publish\<close>

definition calm :: "wire_env \<Rightarrow> bool" where "calm e \<longleftrightarrow> (\<forall>k. \<forall>p \<in> set (w_cb e k). \<not> leaves_callback p)"

lemma callback_sends_calm:
  "in_callback n \<Longrightarrow> \<forall>p \<in> set ps. \<not> leaves_callback p \<Longrightarrow>
   callback_sends w ps n = Some (n\<lparr>out_packet := out_packet n @ map queued ps, entered := entered n @ map queued ps\<rparr>)"
  by (induction ps arbitrary: n) (auto simp: enter_packet_def clear_callback_def Let_def)

lemma callback_calm:
  "calm e \<Longrightarrow> callback w e x n = Some (n\<lparr>calls := calls n @ [x], out_packet := out_packet n @ map queued (w_cb e (length (calls n))),
     entered := entered n @ map queued (w_cb e (length (calls n))), in_callback := False\<rparr>)"
  by (simp add: callback_def callback_sends_calm calm_def)

text \<open>The number of PUBLISH packets that are still to be reported.\<close>

definition publishes :: "mosq_packet list \<Rightarrow> nat" where "publishes ps = length [p \<leftarrow> ps. pk_command p AND 0xF6 = PUBLISH]"

lemma calm_publishes: "\<forall>p \<in> set ps. \<not> leaves_callback p \<Longrightarrow> publishes (map queued ps) = 0"
proof -
  have "c AND 0xF0 = PUBLISH" if "c AND 0xF6 = PUBLISH" for c :: u8
  proof -
    have "(c AND 0xF6) AND 0xF0 = PUBLISH AND 0xF0" using that by simp
    then show ?thesis by (simp add: PUBLISH_def and.assoc)
  qed
  then show "\<forall>p \<in> set ps. \<not> leaves_callback p \<Longrightarrow> publishes (map queued ps) = 0"
    by (auto simp: publishes_def filter_empty_conv leaves_callback_def queued_def)
qed

text \<open>A network that accepts something at each call.\<close>

definition accepts :: "wire_env \<Rightarrow> bool" where "accepts e \<longleftrightarrow> (\<forall>k. w_rc e k > 0)"

lemma write_packet_all:
  assumes "write_packet e p n = (r, p', n')" "\<forall>k. w_rc e k > 0" "in_part q p"
  shows "r = None"
  using assms
proof (induction e p n rule: write_packet.induct)
  case (1 e p n)
  let ?bs = "take (pk_to_process p) (drop (pk_pos p) (pk_payload p))"
  obtain l n1 where l: "mosquitto_net_write e ?bs n = (l, n1)" by fastforce
  have q: "pk_payload p = pk_payload q" "pk_to_process p = length (pk_payload q) - pk_pos p" "pk_pos p \<le> length (pk_payload q)"
    using 1(4) by (auto simp: in_part_def dest: arg_cong[where f = pk_payload] arg_cong[where f = pk_to_process])
  note step = 1(2)[unfolded write_packet.simps[of e p n] l Let_def prod.case]
  show ?case
  proof (cases "pk_to_process p > 0")
    case True
    let ?p = "p\<lparr>pk_to_process := pk_to_process p - nat l, pk_pos := pk_pos p + nat l\<rparr>"
    have l': "l > 0" "l \<le> int (length (pk_payload q) - pk_pos p)"
      using l 1(3) True q by (auto simp: mosquitto_net_write_def Let_def)
    then have "in_part q ?p" using 1(4) q by (cases p; cases q) (auto simp: in_part_def)
    then show ?thesis using 1(1)[OF True l[symmetric] refl l'(1) _ 1(3)] step True l'(1) by simp
  next
    case False
    then show ?thesis using step by simp
  qed
qed

lemma write_packet_accepts: "write_packet e p n = (r, p', n') \<Longrightarrow> accepts e \<Longrightarrow> r = None \<or> r = Some MOSQ_ERR_SUCCESS"
proof (induction e p n rule: write_packet.induct)
  case (1 e p n)
  let ?bs = "take (pk_to_process p) (drop (pk_pos p) (pk_payload p))"
  obtain l n1 where l: "mosquitto_net_write e ?bs n = (l, n1)" by fastforce
  have l0: "l \<ge> 0" using l 1(3) by (auto simp: mosquitto_net_write_def Let_def accepts_def min_def split: if_splits intro: less_imp_le)
  note step = 1(2)[unfolded write_packet.simps[of e p n] l Let_def prod.case]
  show ?case
  proof (cases "pk_to_process p > 0 \<and> l > 0")
    case True
    then show ?thesis using 1(1)[OF _ l[symmetric] refl _ _ 1(3)] step by simp
  next
    case False
    then show ?thesis using step l0 by (auto split: if_splits)
  qed
qed

text \<open>With such callbacks the loop ends. When the network accepts something at each call it does not fail, and without DISCONNECT packets it writes everything.\<close>

definition quiet_end :: "mosq_packet list \<Rightarrow> wire_env \<Rightarrow> bool" where
  "quiet_end ps e \<longleftrightarrow> (\<forall>p \<in> set ps. \<not> ends_write p) \<and> (\<forall>k. \<forall>p \<in> set (w_cb e k). \<not> ends_write p)"

lemma publishes_simps:
  "publishes [] = 0" "publishes (p # ps) = (if pk_command p AND 0xF6 = PUBLISH then 1 else 0) + publishes ps" "publishes (ps @ qs) = publishes ps + publishes qs"
  by (simp_all add: publishes_def)

lemma ends_write_queued: "ends_write (queued p) = ends_write p" by (simp add: ends_write_def queued_def)

lemma calm_step:
  assumes "calm e" "current_out_packet n = Some packet" "write_packet e packet n = (None, p, n1)" "\<not> ends_write packet" "sub_client n"
  obtains m ps where "write_packets e n = write_packets e m" "sub_client m" "unsent m = out_packet n @ ps" "current_out_packet m = None \<longrightarrow> out_packet m = []"
    "ps = [] \<and> pk_command packet AND 0xF6 \<noteq> PUBLISH \<or> pk_command packet AND 0xF6 = PUBLISH \<and> (\<exists>k. ps = map queued (w_cb e k))"
    "wire_inv n \<and> sends_whole e \<longrightarrow> wire_inv m"
proof -
  let ?pub = "pk_command packet AND 0xF6 = PUBLISH"
  define ps where "ps = (if ?pub then map queued (w_cb e (length (calls n))) else [])"
  define n3 where "n3 = n1\<lparr>current_out_packet := Some p, calls := calls n @ reported packet, out_packet := out_packet n @ ps, entered := entered n @ ps,
     in_callback := (if ?pub then False else in_callback n)\<rparr>"
  define m where "m = set_next_msg_out e (free_packet (next_packet n3))"
  obtain ws k where n1: "n1 = n\<lparr>n_writes := k, wire := ws\<rparr>" using write_packet_other[OF assms(3)] by blast
  have "(if ?pub then callback (write_again (write_packets e)) e (On_publish (pk_mid packet)) (n1\<lparr>current_out_packet := Some p\<rparr>)
      else Some (n1\<lparr>current_out_packet := Some p\<rparr>)) = Some n3"
    using assms(4) by (auto simp: callback_calm[OF assms(1)] n1 n3_def ps_def reported_def ends_write_def)
  then have s: "write_packets e n = write_packets e m"
    unfolding write_packets_cases[OF assms(2,3)] Let_def option.case using assms(4,5) n1 by (simp add: n3_def m_def)
  have "sends_whole e \<Longrightarrow> list_all complete ps" by (auto simp: ps_def sends_whole_def list_all_iff)
  then have "wire_inv n \<and> sends_whole e \<longrightarrow> wire_inv m"
    using packet_done[OF _ assms(2,3) _ n3_def] by (simp add: m_def)
  then show ?thesis
    using s assms(5) n1 by (intro that[of m ps])
      (auto simp: m_def n3_def ps_def unsent_def set_next_msg_out_def free_packet_def next_packet_def split: list.splits)
qed

lemma calm_end:
  assumes "calm e" "current_out_packet n = Some packet" "write_packet e packet n = (r, p, n1)" "r \<noteq> None \<or> ends_write packet \<or> \<not> sub_client n"
  shows "\<exists>n'. write_packets e n = Some ((case r of Some rc \<Rightarrow> rc | None \<Rightarrow> if ends_write packet then MOSQ_ERR_SUCCESS else MOSQ_ERR_NOMEM), n')"
proof -
  obtain ws k where n1: "n1 = n\<lparr>n_writes := k, wire := ws\<rparr>" using write_packet_other[OF assms(3)] by blast
  show ?thesis
    unfolding write_packets_cases[OF assms(2,3)] Let_def using assms(4) n1 by (auto simp: callback_calm[OF assms(1)] split: option.splits)
qed

lemma write_packets_calm:
  assumes "calm e"
  shows "\<exists>rc n'. write_packets e n = Some (rc, n') \<and> (accepts e \<and> sub_client n \<longrightarrow> rc = MOSQ_ERR_SUCCESS \<and>
    (wire_inv n \<and> sends_whole e \<and> quiet_end (unsent n) e \<and> (current_out_packet n = None \<longrightarrow> out_packet n = []) \<longrightarrow> unsent n' = []))"
proof (induction n rule: wf_induct_rule[OF wf_measures[of "[\<lambda>n. publishes (unsent n), \<lambda>n. length (unsent n)]"]])
  case (1 n)
  show ?case
  proof (cases "current_out_packet n")
    case None
    then show ?thesis by (subst (1) write_packets.simps) (simp add: write_turn_def unsent_def)
  next
    case (Some packet)
    obtain r p n1 where w: "write_packet e packet n = (r, p, n1)" by (metis prod_cases3)
    have acc: "accepts e \<Longrightarrow> r = None \<or> r = Some MOSQ_ERR_SUCCESS" using write_packet_accepts[OF w] .
    have full: "accepts e \<Longrightarrow> wire_inv n \<Longrightarrow> r = None"
      using write_packet_all[OF w] Some by (auto simp: wire_inv_def accepts_def)
    show ?thesis
    proof (cases "r \<noteq> None \<or> ends_write packet \<or> \<not> sub_client n")
      case True
      obtain n' where "write_packets e n = Some ((case r of Some rc \<Rightarrow> rc | None \<Rightarrow> if ends_write packet then MOSQ_ERR_SUCCESS else MOSQ_ERR_NOMEM), n')"
        using calm_end[OF assms Some w True] by blast
      moreover have "\<not> (accepts e \<and> sub_client n \<and> wire_inv n \<and> quiet_end (unsent n) e)"
        using True full Some by (auto simp: quiet_end_def unsent_def)
      ultimately show ?thesis using True acc by (auto split: option.splits)
    next
      case False
      then have w: "write_packet e packet n = (None, p, n1)" and nd: "\<not> ends_write packet" and sub: "sub_client n" using w by auto
      obtain m ps where m: "write_packets e n = write_packets e m" "sub_client m" "unsent m = out_packet n @ ps"
        "current_out_packet m = None \<longrightarrow> out_packet m = []"
        "ps = [] \<and> pk_command packet AND 0xF6 \<noteq> PUBLISH \<or> pk_command packet AND 0xF6 = PUBLISH \<and> (\<exists>k. ps = map queued (w_cb e k))"
        "wire_inv n \<and> sends_whole e \<longrightarrow> wire_inv m"
        using calm_step[OF assms Some w nd sub] by metis
      have un: "unsent n = packet # out_packet n" by (simp add: unsent_def Some)
      have "publishes ps = 0" using m(5) calm_publishes assms by (auto simp: calm_def publishes_simps)
      then have smaller: "(m, n) \<in> measures [\<lambda>n. publishes (unsent n), \<lambda>n. length (unsent n)]"
        using m(3,5) un by (auto simp: publishes_simps)
      have "quiet_end (unsent n) e \<Longrightarrow> quiet_end (unsent m) e"
        unfolding un m(3) quiet_end_def using m(5) ends_write_queued by auto
      then show ?thesis using 1[OF smaller] m(1,2,4,6) sub by auto
    qed
  qed
qed

lemma begin_steps: "sub_client (begin_write n) = sub_client n" "cs (begin_write n) = cs n" "unsent (begin_write n) = unsent n" "entered (begin_write n) = entered n"
    "current_out_packet (begin_write n) = None \<longrightarrow> out_packet (begin_write n) = []"
  by (auto simp: begin_write_def next_packet_def unsent_def split: list.splits)

lemma packet_write_calm:
  assumes "calm e"
  shows "\<exists>rc n'. mosquitto_packet_write e n = Some (rc, n') \<and> (accepts e \<and> sub_client n \<longrightarrow> rc = MOSQ_ERR_SUCCESS \<and>
    (wire_inv n \<and> sends_whole e \<and> quiet_end (unsent n) e \<and> cs n \<noteq> mosq_cs_connect_pending \<longrightarrow> unsent n' = []))"
  using write_packets_calm[OF assms, of "begin_write n"] begin_steps[of n] begin_inv[of n] by (auto simp: mosquitto_packet_write_def Let_def)

lemma packet_queue_calm:
  assumes "calm e"
  shows "\<exists>rc n'. mosquitto_packet_queue e p n = Some (rc, n') \<and> (accepts e \<and> sub_client n \<longrightarrow> rc = MOSQ_ERR_SUCCESS)"
  using packet_write_calm[OF assms, of "enter_packet p n"] by (auto simp: mosquitto_packet_queue_def Let_def enter_packet_def)

lemma drop_packets_empty: "out_packet n = [] \<or> current_out_packet n \<noteq> None \<Longrightarrow>
    drop_packets n = n\<lparr>current_out_packet := None, out_packet := []\<rparr>"
proof (induction n rule: drop_packets.induct)
  case (1 n)
  show ?case
  proof (cases "current_out_packet n")
    case (Some p)
    have "drop_packets (next_packet n) = n\<lparr>current_out_packet := None, out_packet := []\<rparr>"
      using 1(1)[OF Some] by (cases "out_packet n") (auto simp: next_packet_def)
    then show ?thesis using Some by (simp add: drop_packets.simps[of n])
  next
    case None
    then show ?thesis using 1(2) by (simp add: drop_packets.simps[of n])
  qed
qed

lemma reconnect_packets_empty: "reconnect_packets n = n\<lparr>current_out_packet := None, out_packet := []\<rparr>"
  unfolding reconnect_packets_def by (cases "out_packet n") (auto simp: drop_packets_empty next_packet_def)

section \<open>Runs\<close>

text \<open>
  The states that the calls reach, in any order, whatever the network does and whatever the application sends in its callbacks, as long as the calls return. The state
  of the client changes as it likes.
\<close>

inductive wire_run :: "mosq_net \<Rightarrow> bool" where
  fresh: "current_out_packet n = None \<Longrightarrow> out_packet n = [] \<Longrightarrow> wire n = [] \<Longrightarrow> calls n = [] \<Longrightarrow> entered n = [] \<Longrightarrow> sub_client n \<Longrightarrow> wire_run n"
| queue_packet: "wire_run n \<Longrightarrow> complete (queued p) \<Longrightarrow> sends_whole e \<Longrightarrow> mosquitto_packet_queue e p n = Some (rc, n') \<Longrightarrow> wire_run n'"
| write_queue: "wire_run n \<Longrightarrow> sends_whole e \<Longrightarrow> mosquitto_packet_write e n = Some (rc, n') \<Longrightarrow> wire_run n'"
| outside: "wire_run n \<Longrightarrow> wire_run (n\<lparr>cs := st, keepalive := k, next_msg_out := t, in_callback := b, threaded := th\<rparr>)"
| new_connection: "wire_run n \<Longrightarrow> wire_run ((reconnect_packets n)\<lparr>wire := [], calls := [], entered := []\<rparr>)"

lemma wire_run_inv: "wire_run n \<Longrightarrow> wire_inv n \<and> sub_client n"
proof (induction rule: wire_run.induct)
  case (fresh n)
  then show ?case by (simp add: wire_inv_def)
next
  case (queue_packet n p e rc n')
  then show ?case using packet_queue_inv packet_queue_same by (fastforce simp: same_net_def)
next
  case (write_queue n e rc n')
  then show ?case using packet_write_inv packet_write_same by (fastforce simp: same_net_def)
next
  case (outside n st k t b th)
  then show ?case by (subst wire_inv_other[of _ n]) simp_all
next
  case (new_connection n)
  then show ?case by (simp add: wire_inv_def reconnect_packets_empty)
qed

lemma wire_inv_wire:
  assumes "wire_inv n"
  shows "\<exists>ds rest part. entered n = ds @ rest \<and> wire n = whole ds @ part \<and> calls n = reports ds \<and>
    (part = [] \<or> (\<exists>q qs. rest = q # qs \<and> (\<exists>cut. pk_payload q = part @ cut)))"
proof -
  obtain ds where d: "calls n = reports ds" "case current_out_packet n of
        None \<Rightarrow> entered n = ds @ out_packet n \<and> wire n = whole ds
      | Some p \<Rightarrow> (\<exists>q. in_part q p \<and> entered n = ds @ q # out_packet n \<and> wire n = whole ds @ take (pk_pos p) (pk_payload q))"
    using assms unfolding wire_inv_def by blast
  show ?thesis
  proof (cases "current_out_packet n")
    case None
    then show ?thesis using d by (intro exI[of _ ds] exI[of _ "out_packet n"] exI[of _ "[]"]) simp
  next
    case (Some p)
    then obtain q where q: "entered n = ds @ q # out_packet n" "wire n = whole ds @ take (pk_pos p) (pk_payload q)" using d(2) by auto
    have "pk_payload q = take (pk_pos p) (pk_payload q) @ drop (pk_pos p) (pk_payload q)" by simp
    then show ?thesis using d(1) q by blast
  qed
qed

lemma wire_inv_unsent: "wire_inv n \<Longrightarrow> set (unsent n) \<subseteq> {p. \<exists>q \<in> set (entered n). ends_write p = ends_write q}"
proof -
  assume "wire_inv n"
  then obtain ds where d: "case current_out_packet n of None \<Rightarrow> entered n = ds @ out_packet n | Some p \<Rightarrow> \<exists>q. in_part q p \<and> entered n = ds @ q # out_packet n"
    unfolding wire_inv_def by (auto split: option.splits)
  show ?thesis
  proof (cases "current_out_packet n")
    case None
    then show ?thesis using d by (auto simp: unsent_def)
  next
    case (Some p)
    then obtain q where q: "in_part q p" "entered n = ds @ q # out_packet n" using d by auto
    have "ends_write p = ends_write q" using in_part_same[OF q(1)] by (simp add: ends_write_def)
    then show ?thesis using Some q(2) by (auto simp: unsent_def)
  qed
qed

lemma packet_write_all:
  assumes "wire_run n" "calm e" "sends_whole e" "accepts e" "cs n \<noteq> mosq_cs_connect_pending" "quiet_end (entered n) e"
  shows "\<exists>n'. mosquitto_packet_write e n = Some (MOSQ_ERR_SUCCESS, n') \<and> wire n' = whole (entered n') \<and> calls n' = reports (entered n')"
proof -
  have inv: "wire_inv n" "sub_client n" using wire_run_inv[OF assms(1)] by auto
  have "quiet_end (unsent n) e" using assms(6) wire_inv_unsent[OF inv(1)] by (force simp: quiet_end_def)
  then obtain n' where n': "mosquitto_packet_write e n = Some (MOSQ_ERR_SUCCESS, n')" "unsent n' = []"
    using packet_write_calm[OF assms(2), of n] inv assms(3-5) by auto
  have "wire_inv n'" using packet_write_inv[OF n'(1) inv(2) assms(3) inv(1)] .
  moreover have "current_out_packet n' = None" "out_packet n' = []" using n'(2) by (auto simp: unsent_def split: option.splits)
  ultimately show ?thesis using n'(1) by (auto simp: wire_inv_def)
qed

text \<open>C23. What the broker gets on a connection are the packets, each given with all its bytes, that have entered the queue since the connection was made, in their order: however the calls
  that queue and write packets, changes of the client's state and new connections are interleaved, however the network cuts or refuses what it is given, and
  whatever packets the callbacks send from inside a write, the wire has a sequence of whole packets and at most a part of the next one, and the application is told
  exactly of those that are whole. This is about calls that return: a call returns when the callbacks inside it send neither PUBLISH nor SUBSCRIBE packets. When, in
  addition, the network accepts something at each call, the connection is not a pending one and no DISCONNECT packet has been queued or is sent by a callback,
  one call writes all that is left, with what its callbacks have sent.\<close>

theorem mqtt_wire_in_order:
  assumes "wire_run n"
  shows "(\<exists>ds rest part. entered n = ds @ rest \<and> wire n = whole ds @ part \<and> calls n = reports ds \<and>
      (part = [] \<or> (\<exists>q qs. rest = q # qs \<and> (\<exists>cut. pk_payload q = part @ cut)))) \<and>
    (calm e \<longrightarrow> (\<exists>r. mosquitto_packet_write e n = Some r) \<and> (\<forall>p. \<exists>r. mosquitto_packet_queue e p n = Some r)) \<and>
    (calm e \<and> sends_whole e \<and> accepts e \<and> cs n \<noteq> mosq_cs_connect_pending \<and> quiet_end (entered n) e \<longrightarrow>
      (\<exists>n'. mosquitto_packet_write e n = Some (MOSQ_ERR_SUCCESS, n') \<and> wire n' = whole (entered n') \<and> calls n' = reports (entered n')))"
  using wire_inv_wire packet_write_all[OF assms] wire_run_inv[OF assms] packet_write_calm[of e n] packet_queue_calm[of e] by blast

text \<open>Two packets, of which the network takes one byte and then refuses; the next connection begins with nothing.\<close>

definition demo_net :: mosq_net where
  "demo_net = \<lparr>cs = mosq_cs_connected, keepalive = 60, next_msg_out = 60, current_out_packet = None, out_packet = [], in_callback = False,
     threaded = mosq_ts_none, sub_client = True, wire = [], calls = [], n_writes = 0, entered = [], freed = 0\<rparr>"

definition slow_net :: wire_env where "slow_net = \<lparr>w_rc = (\<lambda>k. if k = 1 then -1 else 1), w_now = (\<lambda>k. 7), w_cb = (\<lambda>k. [])\<rparr>"
definition good_net :: wire_env where "good_net = \<lparr>w_rc = (\<lambda>k. 100), w_now = (\<lambda>k. 8), w_cb = (\<lambda>k. [])\<rparr>"

lemma good_net_calm: "calm good_net" "sends_whole good_net" "accepts good_net" "sends_whole slow_net"
  by (simp_all add: good_net_def slow_net_def calm_def sends_whole_def accepts_def)

lemma mqtt_wire_in_order_witness:
  "\<exists>n. mosquitto_packet_queue slow_net (packet_for 0 0xC0 []) demo_net = Some (MOSQ_ERR_NO_CONN, n) \<and> wire n = [0xC0] \<and>
    (\<exists>n'. mosquitto_packet_write good_net n = Some (MOSQ_ERR_SUCCESS, n') \<and> wire n' = whole (entered n'))"
proof -
  let ?p = "packet_for 0 0xC0 []"
  let ?n = "demo_net\<lparr>n_writes := 2, wire := [0xC0], current_out_packet := Some (?p\<lparr>pk_to_process := 1, pk_pos := 1\<rparr>), entered := [?p]\<rparr>"
  have q: "queued ?p = ?p" "complete ?p" "pk_payload ?p = [0xC0, 0]" "pk_command ?p = 0xC0" "pk_to_process ?p = 2" "pk_pos ?p = 0"
    by (simp_all add: queued_def packet_for_def packet_head_def remaining_bytes.simps complete_def)
  have s: "mosquitto_packet_queue slow_net ?p demo_net = Some (MOSQ_ERR_NO_CONN, ?n)"
    unfolding mosquitto_packet_queue_def enter_packet_def q
    by (simp add: demo_net_def slow_net_def mosquitto_packet_write_def begin_write_def next_packet_def write_packets.simps write_turn_def write_packet.simps
        mosquitto_net_write_def q)
  have "wire_run demo_net" by (rule wire_run.fresh) (simp_all add: demo_net_def)
  then have r: "wire_run ?n" using wire_run.queue_packet[OF _ _ good_net_calm(4) s] q by simp
  have "quiet_end (entered ?n) good_net" by (simp add: quiet_end_def ends_write_def q DISCONNECT_def good_net_def)
  then have "\<exists>n'. mosquitto_packet_write good_net ?n = Some (MOSQ_ERR_SUCCESS, n') \<and> wire n' = whole (entered n')"
    using mqtt_wire_in_order[OF r, of good_net] good_net_calm by (auto simp: demo_net_def)
  then show ?thesis using s by (simp add: demo_net_def)
qed

end
