(* ===== verification/Mqtt_Link.thy ===== *)
theory Mqtt_Link
  imports Mqtt_Events Mqtt_Wire
begin

text \<open>
  The client on its connection: a session and the queue in front of the network, put together. Packets of every kind are handled
  (\<^verbatim>\<open>src/core/system/src/mqtt_client/lib/read_handle.c\<close>), the connection is kept alive and lost (\<^verbatim>\<open>util_mosq.c\<close>, \<^verbatim>\<open>mosquitto.c\<close>), topics are subscribed
  and messages of the application published (\<^verbatim>\<open>client/sub_client.c\<close>). The time does not advance during a call. A callback of a write may send packets; the callbacks
  of the session leave the state alone.
\<close>

section \<open>State and sending\<close>

datatype ping_status = PING_STS_NONE | PING_STS_SENT | PING_STS_RECEIVED

record mosq_link =
  sess :: session
  net :: mosq_net
  last_msg_in :: int
  ping_t :: int
  sock_open :: bool
  unsub_topic :: int
  sub_connect_retry_count :: int
  subRetryCount :: int
  subPingStatus :: ping_status
  connect_ind_sent :: bool
  mpub_message_buf :: "u8 list option"
  mpub_topic :: "u8 list option"
  n_pub :: nat

text \<open>
  \<open>l_topic\<close> and \<open>l_pub_qos\<close> are those that the application publishes with; \<open>l_mem\<close> are the allocations for the message with the given number: the message, its
  topic, its payload and the next copy of \<open>l_topic\<close>.
\<close>

record link_cfg =
  l_cfg :: client_cfg
  l_wire :: wire_env
  l_topics :: "u8 list list"
  l_qos :: u8
  l_connect :: connect_args
  l_topic :: "u8 list"
  l_pub_qos :: int
  l_mem :: "nat \<Rightarrow> nat \<Rightarrow> bool"

definition CONNACK :: u8 where "CONNACK = 0x20"
definition SUBACK :: u8 where "SUBACK = 0x90"
definition UNSUBACK :: u8 where "UNSUBACK = 0xB0"
definition MOSQ_ERR_CONN_REFUSED :: int where "MOSQ_ERR_CONN_REFUSED = 5"
definition MOSQ_ERR_DISCONNECT :: int where "MOSQ_ERR_DISCONNECT = 23"

definition notify :: "effect \<Rightarrow> mosq_link \<Rightarrow> mosq_link" where "notify x l = l\<lparr>sess := emit x (sess l)\<rparr>"

text \<open>
  An operation of the session; the packets that it has queued enter the queue in front of the network, PUBLISH packets after the mark of a callback has been
  cleared. That mark matters in a callback only, where a packet that could not be allocated leaves it as it is.
\<close>

fun hand_over :: "wire_env \<Rightarrow> effect list \<Rightarrow> mosq_net \<Rightarrow> mosq_net option" where
  "hand_over e [] n = Some n"
| "hand_over e (x # xs) n =
     Option.bind (case x of Queued p \<Rightarrow> map_option snd (mosquitto_packet_queue e p (clear_callback p n)) | _ \<Rightarrow> Some n) (hand_over e xs)"

definition on_session :: "link_cfg \<Rightarrow> (session \<Rightarrow> (int \<times> session) option) \<Rightarrow> mosq_link \<Rightarrow> (int \<times> mosq_link) option" where
  "on_session c f l =
     (case f (sess l) of
        None \<Rightarrow> None
      | Some (rc, s) \<Rightarrow> map_option (\<lambda>n. (rc, l\<lparr>sess := s, net := n\<rparr>)) (hand_over (l_wire c) (drop (length (trace (sess l))) (trace s)) (net l)))"

text \<open>A packet that is sent directly; \<open>g\<close> is what happens between its allocation and the queue.\<close>

definition link_send ::
    "link_cfg \<Rightarrow> (bool \<Rightarrow> bool \<Rightarrow> (nat \<Rightarrow> u8) \<Rightarrow> sent) \<Rightarrow> (mosq_link \<Rightarrow> mosq_link) \<Rightarrow> mosq_link \<Rightarrow> (int \<times> mosq_link) option" where
  "link_send c send g l =
     (let e = cfg_env (l_cfg c); k = tx_count (sess l); l1 = l\<lparr>sess := (sess l)\<lparr>tx_count := k + 1\<rparr>\<rparr> in
      case send (tx_mem1 e k) (tx_mem2 e k) (tx_junk e k) of
        None \<Rightarrow> None
      | Some (Inl rc) \<Rightarrow> Some (rc, l1)
      | Some (Inr p) \<Rightarrow>
          (let l2 = g l1 in
           map_option (\<lambda>(rc, n). (rc, l2\<lparr>sess := emit (Queued p) (sess l2), net := n\<rparr>)) (mosquitto_packet_queue (l_wire c) p (net l2))))"

definition send_pingreq :: "link_cfg \<Rightarrow> int \<Rightarrow> mosq_link \<Rightarrow> (int \<times> mosq_link) option" where
  "send_pingreq c now l =
     map_option (\<lambda>(rc, l1). (rc, if rc = MOSQ_ERR_SUCCESS then l1\<lparr>ping_t := now\<rparr> else l1)) (link_send c mosquitto_send_pingreq id l)"

text \<open>The next identifier, and the session that has generated it.\<close>

definition link_mid :: "link_cfg \<Rightarrow> mosq_link \<Rightarrow> u16 \<times> mosq_link" where
  "link_mid c l = (let (m, s) = mosquitto_mid_generate (cfg_layout (l_cfg c)) (cfg_dpm (l_cfg c)) (sess l) in (m, l\<lparr>sess := s\<rparr>))"

definition send_subscribe :: "link_cfg \<Rightarrow> u8 list \<Rightarrow> u8 \<Rightarrow> mosq_link \<Rightarrow> (int \<times> mosq_link) option" where
  "send_subscribe c tpc q l =
     link_send c (\<lambda>m1 m2 junk. mosquitto_send_subscribe m1 m2 junk (fst (link_mid c l)) tpc q)
       (\<lambda>l1. let l2 = snd (link_mid c l1) in l2\<lparr>net := (net l2)\<lparr>in_callback := False\<rparr>\<rparr>) l"

definition send_unsubscribe :: "link_cfg \<Rightarrow> u8 list \<Rightarrow> mosq_link \<Rightarrow> (int \<times> mosq_link) option" where
  "send_unsubscribe c tpc l =
     link_send c (\<lambda>m1 m2 junk. mosquitto_send_unsubscribe m1 m2 junk (fst (link_mid c l)) tpc) (\<lambda>l1. snd (link_mid c l1)) l"

definition mosquitto_subscribe :: "link_cfg \<Rightarrow> u8 list \<Rightarrow> u8 \<Rightarrow> mosq_link \<Rightarrow> (int \<times> mosq_link) option" where
  "mosquitto_subscribe c sub q l =
     (if mosquitto_sub_topic_check sub \<noteq> MOSQ_ERR_SUCCESS then Some (MOSQ_ERR_INVAL, l) else send_subscribe c sub q l)"

definition mosquitto_unsubscribe :: "link_cfg \<Rightarrow> u8 list \<Rightarrow> mosq_link \<Rightarrow> (int \<times> mosq_link) option" where
  "mosquitto_unsubscribe c sub l =
     (if mosquitto_sub_topic_check sub \<noteq> MOSQ_ERR_SUCCESS then Some (MOSQ_ERR_INVAL, l) else send_unsubscribe c sub l)"

definition mosquitto_disconnect :: "link_cfg \<Rightarrow> mosq_link \<Rightarrow> (int \<times> mosq_link) option" where
  "mosquitto_disconnect c l =
     (let prev_state = cs (net l); l1 = l\<lparr>net := (net l)\<lparr>cs := mosq_cs_disconnecting\<rparr>\<rparr> in
      if \<not> sock_open l1 then Some (MOSQ_ERR_NO_CONN, l1)
      else if prev_state \<noteq> mosq_cs_connected then Some (MOSQ_ERR_NO_CONN, l1)
      else link_send c mosquitto_send_disconnect id l1)"

section \<open>The handlers\<close>

fun sub_topics :: "link_cfg \<Rightarrow> u8 list list \<Rightarrow> mosq_link \<Rightarrow> mosq_link option" where
  "sub_topics c [] l = Some l"
| "sub_topics c (t # ts) l = (case mosquitto_subscribe c t (l_qos c) l of None \<Rightarrow> None | Some (rc, l1) \<Rightarrow> sub_topics c ts l1)"

definition mqtt_sub_on_connect :: "link_cfg \<Rightarrow> u8 \<Rightarrow> mosq_link \<Rightarrow> mosq_link option" where
  "mqtt_sub_on_connect c result l = (if result = 0 then sub_topics c (l_topics c) l else Some l)"

definition mosquitto_pingreq_timer_register :: "mosq_link \<Rightarrow> mosq_link" where
  "mosquitto_pingreq_timer_register l =
     (if uint (keepalive (net l)) \<le> 0 then l
      else if sub_client (net l) then notify (Ping_timer (uint (keepalive (net l)) * 1000)) l else l)"

text \<open>Connected, with all topics subscribed; the event for the AT console and the port filter of the MAC are left out.\<close>

definition connection_done :: "bool \<Rightarrow> mosq_link \<Rightarrow> mosq_link" where
  "connection_done dpm l =
     (let l1 = notify (Broker_state True) (l\<lparr>sub_connect_retry_count := 0\<rparr>) in
      if dpm then mosquitto_pingreq_timer_register l1 else l1)"

definition messages_left :: "mosq_link \<Rightarrow> bool" where
  "messages_left l \<longleftrightarrow> mq_msg_tbl_presvd_enabled (table (sess l)) \<and>
     (inflight_messages (client (sess l)) > 0 \<or> in_messages (client (sess l)) \<noteq> [])"

definition mosquitto_handle_connack :: "link_cfg \<Rightarrow> mosq_packet \<Rightarrow> mosq_link \<Rightarrow> (int \<times> mosq_link) option" where
  "mosquitto_handle_connack c packet l =
     (case mosquitto_read_byte packet of
        Inl rc \<Rightarrow> Some (rc, l)
      | Inr (_, packet1) \<Rightarrow>
          (case mosquitto_read_byte packet1 of
             Inl rc \<Rightarrow> Some (rc, l)
           | Inr (result, _) \<Rightarrow>
               map_option (\<lambda>l1.
                   let l2 = notify On_connect l1;
                       l3 = (if result = 0 \<and> sub_client (net l2)
                             then if unsub_topic l2 = 0 then notify Dpm_sleep (connection_done (cfg_dpm (l_cfg c)) l2)
                                  else if messages_left l2 then l2\<lparr>connect_ind_sent := True\<rparr> else l2
                             else l2)
                   in if result = 0
                      then (MOSQ_ERR_SUCCESS, if cs (net l3) \<noteq> mosq_cs_disconnecting then l3\<lparr>net := (net l3)\<lparr>cs := mosq_cs_connected\<rparr>\<rparr> else l3)
                      else if result \<le> 5 then (MOSQ_ERR_CONN_REFUSED, l3)
                      else (MOSQ_ERR_PROTOCOL, l3))
                 (if sub_client (net l) then mqtt_sub_on_connect c result l else Some l)))"

definition mosquitto_handle_pingresp :: "link_cfg \<Rightarrow> mosq_link \<Rightarrow> int \<times> mosq_link" where
  "mosquitto_handle_pingresp c l =
     (let l1 = l\<lparr>ping_t := 0\<rparr> in
      (MOSQ_ERR_SUCCESS, if cfg_dpm (l_cfg c) then notify Dpm_sleep (l1\<lparr>subPingStatus := PING_STS_RECEIVED\<rparr>) else l1))"

text \<open>The loop over the granted qualities of service; its result is an error code.\<close>

function read_granted :: "mosq_packet \<Rightarrow> int" where
  "read_granted packet =
     (if pk_pos packet < pk_remaining_length packet
      then (case mosquitto_read_byte packet of Inl rc \<Rightarrow> rc | Inr (q, packet1) \<Rightarrow> read_granted packet1)
      else MOSQ_ERR_SUCCESS)"
  by auto
termination
  by (relation "measure (\<lambda>p. pk_remaining_length p - pk_pos p)") (auto simp: mosquitto_read_byte_def split: if_splits)

definition mosquitto_handle_suback :: "link_cfg \<Rightarrow> bool \<Rightarrow> mosq_packet \<Rightarrow> mosq_link \<Rightarrow> int \<times> mosq_link" where
  "mosquitto_handle_suback c mem packet l =
     (case mosquitto_read_uint16 packet of
        Inl rc \<Rightarrow> (rc, l)
      | Inr (_, packet1) \<Rightarrow>
          if \<not> mem then (MOSQ_ERR_NOMEM, l)
          else if read_granted packet1 \<noteq> MOSQ_ERR_SUCCESS then (read_granted packet1, l)
          else (let l1 = notify On_subscribe l; l2 = l1\<lparr>unsub_topic := unsub_topic l1 - 1\<rparr> in
                (MOSQ_ERR_SUCCESS,
                 if unsub_topic l2 = 0
                 then (let l3 = connection_done (cfg_dpm (l_cfg c)) (l2\<lparr>subRetryCount := 0\<rparr>) in if messages_left l3 then l3 else notify Dpm_sleep l3)
                 else l2)))"

definition mosquitto_handle_unsuback :: "mosq_packet \<Rightarrow> mosq_link \<Rightarrow> int \<times> mosq_link" where
  "mosquitto_handle_unsuback packet l =
     (case mosquitto_read_uint16 packet of
        Inl rc \<Rightarrow> (rc, notify (Unsub_status (-1)) l)
      | Inr (_, _) \<Rightarrow> (MOSQ_ERR_SUCCESS, notify (Unsub_status 0) (notify On_unsubscribe l)))"

text \<open>A packet, by its command; \<open>mem\<close> and \<open>mem1\<close> are allocations of the handlers of PUBLISH and SUBACK.\<close>

definition mosquitto_packet_handle ::
    "link_cfg \<Rightarrow> (nat \<Rightarrow> bool) \<Rightarrow> bool \<Rightarrow> u64 \<Rightarrow> mosq_packet \<Rightarrow> mosq_link \<Rightarrow> (int \<times> mosq_link) option" where
  "mosquitto_packet_handle c mem mem1 now p l =
     (let k = l_cfg c; command = pk_command p AND 0xF0 in
      if command = PINGREQ then on_session c (mosquitto_handle_pingreq (cfg_env k)) l
      else if command = PINGRESP then Some (mosquitto_handle_pingresp c l)
      else if command = PUBACK \<or> command = PUBCOMP then on_session c (mosquitto_handle_pubackcomp (cfg_layout k) (cfg_env k) p) l
      else if command = PUBLISH then on_session c (mosquitto_handle_publish (cfg_layout k) (cfg_env k) (cfg_atcmd k) mem now p) l
      else if command = PUBREC then on_session c (mosquitto_handle_pubrec (cfg_layout k) (cfg_env k) now p) l
      else if command = PUBREL then on_session c (mosquitto_handle_pubrel (cfg_layout k) (cfg_env k) (cfg_protocol k) p) l
      else if command = CONNACK then mosquitto_handle_connack c p l
      else if command = SUBACK then Some (mosquitto_handle_suback c mem1 p l)
      else if command = UNSUBACK then Some (mosquitto_handle_unsuback p l)
      else Some (MOSQ_ERR_PROTOCOL, l))"

section \<open>Messages of the application\<close>

text \<open>The message that waits, if there is one, is published; the events for the AT console are left out.\<close>

definition my_publish :: "link_cfg \<Rightarrow> u64 \<Rightarrow> mosq_link \<Rightarrow> (int \<times> mosq_link) option" where
  "my_publish c now l =
     (case mpub_message_buf l of
        None \<Rightarrow> Some (MOSQ_ERR_INVAL, l)
      | Some msg \<Rightarrow>
          map_option (\<lambda>(rc, l1).
              let l2 = (if rc = MOSQ_ERR_NOMEM \<or> rc = MOSQ_ERR_NO_CONN \<or> rc = MOSQ_ERR_PROTOCOL
                        then l1\<lparr>net := (net l1)\<lparr>cs := mosq_cs_disconnect_cb\<rparr>\<rparr> else l1)
              in (rc, l2\<lparr>mpub_message_buf := None, mpub_topic := (if l_mem c (n_pub l) 3 then Some (l_topic c) else None), n_pub := n_pub l + 1\<rparr>))
            (on_session c (\<lambda>s. map_option (\<lambda>(rc, m, s1). (rc, s1))
               (mosquitto_publish (cfg_layout (l_cfg c)) (cfg_env (l_cfg c)) (cfg_dpm (l_cfg c)) (l_mem c (n_pub l)) now (mpub_topic l) msg (l_pub_qos c) False s)) l))"

text \<open>A message is handed to the client; \<open>mem_t\<close> and \<open>mem_m\<close> are the allocations of the copies of the topic and the message. Without DPM the loop publishes it.\<close>

definition mqtt_client_send_message :: "link_cfg \<Rightarrow> bool \<Rightarrow> bool \<Rightarrow> u64 \<Rightarrow> u8 list option \<Rightarrow> u8 list \<Rightarrow> mosq_link \<Rightarrow> (int \<times> mosq_link) option" where
  "mqtt_client_send_message c mem_t mem_m now topc publish l =
     (if cs (net l) \<noteq> mosq_cs_connected then Some (-1, l)
      else if mq_msg_tbl_presvd_enabled (table (sess l)) \<and> length publish > MQTT_MSG_TBL_PRESVD_MAX_PLAYLOAD_LEN then Some (MOSQ_ERR_PAYLOAD_SIZE, l)
      else if inflight_messages (client (sess l)) > 0 then Some (-2, l)
      else if topc = None \<and> l_topic c = [] then Some (-3, l)
      else (let l1 = (case topc of None \<Rightarrow> l | Some t \<Rightarrow> l\<lparr>mpub_topic := (if mem_t then Some t else None)\<rparr>);
                l2 = (notify Dpm_clear l1)\<lparr>mpub_message_buf := (if mem_m then Some publish else None)\<rparr> in
            map_option (\<lambda>(rc, l3). (rc, if l_pub_qos c = 0 then notify Dpm_sleep l3 else l3))
              (if cfg_dpm (l_cfg c) then my_publish c now l2 else Some (MOSQ_ERR_SUCCESS, l2))))"

section \<open>Keeping the connection\<close>

definition mosquitto_socket_close :: "mosq_link \<Rightarrow> mosq_link" where "mosquitto_socket_close l = l\<lparr>sock_open := False\<rparr>"

definition mosquitto_check_keepalive :: "link_cfg \<Rightarrow> int \<Rightarrow> mosq_link \<Rightarrow> mosq_link option" where
  "mosquitto_check_keepalive c now l =
     (let k = uint (keepalive (net l)) in
      if k \<noteq> 0 \<and> (now \<ge> next_msg_out (net l) \<or> now - last_msg_in l \<ge> k)
      then if cs (net l) = mosq_cs_connected \<and> ping_t l = 0
           then map_option (\<lambda>(rc, l1). l1\<lparr>last_msg_in := now, net := (net l1)\<lparr>next_msg_out := now + k\<rparr>\<rparr>) (send_pingreq c now l)
           else Some (notify On_disconnect (mosquitto_socket_close l))
      else Some l)"

definition mosquitto_loop_misc :: "link_cfg \<Rightarrow> int \<Rightarrow> mosq_link \<Rightarrow> (int \<times> mosq_link) option" where
  "mosquitto_loop_misc c now l =
     (case mosquitto_check_keepalive c now l of
        None \<Rightarrow> None
      | Some l1 \<Rightarrow>
          map_option (\<lambda>(_, l2).
              if ping_t l2 \<noteq> 0 \<and> now - ping_t l2 \<ge> uint (keepalive (net l2))
              then (MOSQ_ERR_CONN_LOST, notify On_disconnect (mosquitto_socket_close l2))
              else (MOSQ_ERR_SUCCESS, l2))
            (on_session c (\<lambda>s. map_option (Pair 0) (loop_misc_retry (cfg_env (l_cfg c)) (word_of_int now) s)) l1))"

text \<open>One round of the loop in which nothing arrives: \<open>linked\<close> is the state of the Wi-Fi link.\<close>

definition mosquitto_loop :: "link_cfg \<Rightarrow> bool \<Rightarrow> int \<Rightarrow> mosq_link \<Rightarrow> (int \<times> mosq_link) option" where
  "mosquitto_loop c linked now l =
     (let awake = (\<lambda>l. if cfg_dpm (l_cfg c) then notify Dpm_clear l else l) in
      if cs (net l) = mosq_cs_disconnecting \<or> \<not> linked then Some (MOSQ_ERR_CONN_LOST, awake l)
      else if cs (net l) = mosq_cs_disconnect_cb then Some (MOSQ_ERR_DISCONNECT, awake l)
      else Option.bind (mosquitto_loop_misc c now l)
        (\<lambda>(rc, l1). map_option (\<lambda>(rc, l2). (if sock_open l2 then MOSQ_ERR_SUCCESS else MOSQ_ERR_NO_CONN, l2))
           (if \<not> cfg_dpm (l_cfg c) \<and> cs (net l1) = mosq_cs_connected then my_publish c (word_of_int now) l1 else Some (MOSQ_ERR_SUCCESS, l1))))"

text \<open>Rounds at the times \<open>ts\<close>, until one of them fails, of a client that is not stopped.\<close>

fun mosquitto_loop_forever :: "link_cfg \<Rightarrow> int list \<Rightarrow> mosq_link \<Rightarrow> (int \<times> mosq_link) option" where
  "mosquitto_loop_forever c [] l = Some (MOSQ_ERR_SUCCESS, l)"
| "mosquitto_loop_forever c (now # ts) l =
     (case mosquitto_loop c True now l of
        None \<Rightarrow> None
      | Some (rc, l1) \<Rightarrow> if rc = MOSQ_ERR_SUCCESS then mosquitto_loop_forever c ts l1 else Some (rc, l1))"

text \<open>A new connection: \<open>conn\<close> is the result of connecting the socket, \<open>kept\<close> says that the connection is still the one from before deep sleep.\<close>

definition mosquitto_reconnect :: "link_cfg \<Rightarrow> int \<Rightarrow> int \<Rightarrow> bool \<Rightarrow> mosq_link \<Rightarrow> (int \<times> mosq_link) option" where
  "mosquitto_reconnect c now conn kept l =
     (let n = (net l)\<lparr>cs := mosq_cs_new, next_msg_out := now + uint (keepalive (net l))\<rparr>;
          l1 = l\<lparr>net := (reconnect_packets n)\<lparr>wire := [], calls := [], entered := []\<rparr>, last_msg_in := now, ping_t := 0\<rparr> in
      case on_session c (\<lambda>s. map_option (Pair 0) (mosquitto_messages_reconnect_reset s)) l1 of
        None \<Rightarrow> None
      | Some (_, l2) \<Rightarrow>
          if conn > 0 then Some (conn, l2)
          else (let l3 = l2\<lparr>sock_open := True\<rparr> in
                if kept then Some (MOSQ_ERR_SUCCESS, l3\<lparr>net := (net l3)\<lparr>cs := mosq_cs_connected\<rparr>, unsub_topic := 0\<rparr>)
                else link_send c (\<lambda>m1 m2 junk.
                       the (mosquitto_send_connect False m1 m2 junk (keepalive (net l3)) (clean_session (client (sess l3))) (l_connect c))) id l3))"

definition mosquitto_pingreq_timer_func :: "link_cfg \<Rightarrow> int \<Rightarrow> mosq_link \<Rightarrow> mosq_link option" where
  "mosquitto_pingreq_timer_func c now l =
     (if cs (net l) = mosq_cs_connected
      then map_option snd (send_pingreq c now (notify Dpm_clear (if sub_client (net l) then l\<lparr>subPingStatus := PING_STS_SENT\<rparr> else l)))
      else Some l)"

section \<open>What sending leaves alone\<close>

lemma packet_queue_link:
  assumes "calm e"
  shows "\<exists>rc n'. mosquitto_packet_queue e p n = Some (rc, n') \<and> same_net n n' \<and> (accepts e \<and> sub_client n \<longrightarrow> rc = MOSQ_ERR_SUCCESS)"
  using packet_queue_calm[OF assms, of p n] packet_queue_same by blast

lemma hand_over_same:
  assumes "calm e"
  shows "\<exists>n'. hand_over e xs n = Some n' \<and> same_net n n'"
proof (induction xs arbitrary: n)
  case (Cons x xs)
  have "\<exists>n1. (case x of Queued p \<Rightarrow> map_option snd (mosquitto_packet_queue e p (clear_callback p n)) | _ \<Rightarrow> Some n) = Some n1 \<and> same_net n n1"
  proof (cases x)
    case (Queued p)
    obtain rc n1 where "mosquitto_packet_queue e p (clear_callback p n) = Some (rc, n1)" "same_net (clear_callback p n) n1"
      using packet_queue_link[OF assms] by blast
    then show ?thesis using Queued same_net_trans[OF same_net_steps(7)] by auto
  qed auto
  then show ?case using Cons.IH same_net_trans by fastforce
qed simp

text \<open>An operation of the session on the connection.\<close>

lemma on_session_done:
  assumes "calm (l_wire c)" "f (sess l) = Some (rc, s)"
  shows "\<exists>n. on_session c f l = Some (rc, l\<lparr>sess := s, net := n\<rparr>) \<and> same_net (net l) n"
  using hand_over_same[OF assms(1), of "drop (length (trace (sess l))) (trace s)" "net l"] assms(2) by (auto simp: on_session_def)

section \<open>What publishing does\<close>

lemma transmit_trace: "transmit e send s = Some (rc, s') \<Longrightarrow> \<exists>ps. trace s' = trace s @ map Queued ps"
  by (auto simp: transmit_def Let_def emit_def split: option.splits sum.splits intro: exI[of _ "[]"] exI[of _ "[p]" for p])

lemma send_publish_granted:
  assumes "mosquitto_send_publish e x s = Some (rc, s')" "sendable x" "tx_ok e"
  shows "rc = MOSQ_ERR_SUCCESS \<or> rc = MOSQ_ERR_PAYLOAD_SIZE"
proof -
  let ?b = "publish_body (m_mid x) (m_topic x) (m_payload x) (m_qos x)"
  have l: "length (m_topic x) < 65536" "2 + length (m_topic x) + length (m_payload x) + (if m_qos x > 0 then 2 else 0) < 2 ^ 32"
    using assms(2) by (auto simp: sendable_def)
  show ?thesis
    using assms(1,3) by (auto simp: mosquitto_send_publish_def send_publish[OF l] transmit_def sending_def tx_ok_def Let_def MOSQ_ERR_SUCCESS_def split: if_splits)
qed

lemma publish_message_sends:
  assumes "publish_message L e mem msg s = Some (rc, s')" "sendable msg"
  shows "(\<exists>ps. trace s' = trace s @ map Queued ps) \<and> (tx_ok e \<and> (\<forall>i. mem i) \<longrightarrow> rc = MOSQ_ERR_SUCCESS \<or> rc = MOSQ_ERR_PAYLOAD_SIZE)"
proof -
  define msg1 where "msg1 = msg\<lparr>m_state := (if m_qos msg = 1 then mosq_ms_wait_for_puback else mosq_ms_wait_for_pubrec)\<rparr>"
  let ?q = "\<lambda>x. on_client (\<lambda>c. snd (mosquitto_message_queue x mosq_md_out c)) s"
  have snd: "sendable msg1" using assms(2) by (simp add: sendable_def msg1_def)
  consider "\<exists>x s1. sendable x \<and> trace s1 = trace s \<and> mosquitto_send_publish e x s1 = Some (rc, s')"
    | "rc = MOSQ_ERR_NOMEM" "s' = s" "\<not> (\<forall>i. mem i)" | "rc = MOSQ_ERR_SUCCESS" "s' = ?q msg"
    using assms snd unfolding publish_message_def msg1_def[symmetric] Let_def
    by (fastforce simp: table_add_def split: if_splits option.splits)
  then show ?thesis
  proof cases
    case 1
    then obtain x s1 where x: "sendable x" "trace s1 = trace s" "mosquitto_send_publish e x s1 = Some (rc, s')" by blast
    have "\<exists>ps. trace s' = trace s1 @ map Queued ps" using x(3) unfolding mosquitto_send_publish_def by (rule transmit_trace)
    then show ?thesis using x send_publish_granted by auto
  qed (auto intro: exI[of _ "[]"])
qed

lemma publish_sends:
  assumes "mosquitto_publish L e dpm mem now tpc pay q r s = Some (rc, m, s')"
  shows "(\<exists>ps. trace s' = trace s @ map Queued ps) \<and>
    (tx_ok e \<and> (\<forall>i. mem i) \<longrightarrow> rc = MOSQ_ERR_SUCCESS \<or> rc = MOSQ_ERR_PAYLOAD_SIZE \<or> rc = MOSQ_ERR_INVAL)"
proof (cases "tpc = None \<or> q < 0 \<or> q > 2 \<or> tpc = Some [] \<or> length pay > MQTT_MAX_PAYLOAD \<or> mosquitto_pub_topic_check (the tpc) \<noteq> MOSQ_ERR_SUCCESS")
  case True
  then have "s' = s \<and> (rc = MOSQ_ERR_PAYLOAD_SIZE \<or> rc = MOSQ_ERR_INVAL)"
    using assms by (auto simp: mosquitto_publish_def split: option.splits if_splits)
  then show ?thesis by (auto intro: exI[of _ "[]"])
next
  case False
  then obtain tp where tp: "tpc = Some tp" "tp \<noteq> []" "mosquitto_pub_topic_check tp = MOSQ_ERR_SUCCESS" "length pay \<le> 268435455"
    "0 \<le> q" "q \<le> 2" by (cases tpc) (auto simp: MQTT_MAX_PAYLOAD_def)
  obtain k s1 where g: "mosquitto_mid_generate L dpm s = (k, s1)" by fastforce
  let ?msg = "\<lparr>m_timestamp = now, m_state = mosq_ms_invalid, m_dup = False, m_mid = k, m_topic = tp, m_payload = pay, m_qos = q, m_retain = r\<rparr>"
  have "trace s1 = trace s" using g by (auto simp: mosquitto_mid_generate_def Let_def on_client_def split: prod.splits)
  moreover have "sendable ?msg" using tp pub_topic_ok[OF tp(3)] by (auto simp: sendable_def)
  moreover have "publish_message L e mem ?msg s1 = Some (rc, s')" using assms tp by (auto simp: mosquitto_publish_def g MQTT_MAX_PAYLOAD_def)
  ultimately show ?thesis using publish_message_sends by metis
qed

text \<open>The topic of the message that waits has room in the table.\<close>

definition topic_fits :: "mosq_link \<Rightarrow> bool" where
  "topic_fits l \<longleftrightarrow> mpub_message_buf l \<noteq> None \<longrightarrow> (\<forall>t. mpub_topic l = Some t \<longrightarrow> length t \<le> 64)"

lemma my_publish_spec:
  assumes s: "sess_ok (sess l)" and c: "calm (l_wire c)" and t: "topic_fits l"
  shows "\<exists>rc l' st. my_publish c now l = Some (rc, l') \<and> sess_ok (sess l') \<and> pending (sess l') = pending (sess l) \<and>
    messages_in (trace (sess l')) = messages_in (trace (sess l)) \<and> (\<exists>ps. trace (sess l') = trace (sess l) @ map Queued ps) \<and> topic_fits l' \<and>
    same_net ((net l)\<lparr>cs := st\<rparr>) (net l') \<and> l' = l\<lparr>sess := sess l', net := net l', mpub_message_buf := None, mpub_topic := mpub_topic l', n_pub := n_pub l'\<rparr> \<and>
    (tx_ok (cfg_env (l_cfg c)) \<and> (\<forall>k i. l_mem c k i) \<longrightarrow> st = cs (net l))"
proof (cases "mpub_message_buf l")
  case None
  then show ?thesis using s
    by (intro exI[of _ MOSQ_ERR_INVAL] exI[of _ l] exI[of _ "cs (net l)"]) (auto simp: my_publish_def topic_fits_def same_net_def intro: exI[of _ "[]"])
next
  case (Some msg)
  let ?k = "l_cfg c" and ?mem = "l_mem c (n_pub l)"
  let ?pub = "mosquitto_publish (cfg_layout ?k) (cfg_env ?k) (cfg_dpm ?k) ?mem now (mpub_topic l) msg (l_pub_qos c) False"
  have "\<forall>t. mpub_topic l = Some t \<longrightarrow> fits_table (sess l) t" using t Some by (simp add: topic_fits_def fits_table_def)
  from publish_spec[OF s this, of "cfg_layout ?k" "cfg_env ?k" "cfg_dpm ?k" ?mem now msg "l_pub_qos c" False]
  obtain rc m s' ks where p: "?pub (sess l) = Some (rc, m, s')" "sess_ok s'" "in_kept (cfg_layout ?k) ks (sess l) s'" by blast
  obtain n where n: "on_session c (\<lambda>s. map_option (\<lambda>(rc, m, s1). (rc, s1)) (?pub s)) l = Some (rc, l\<lparr>sess := s', net := n\<rparr>)" "same_net (net l) n"
    using on_session_done[OF c, of "\<lambda>s. map_option (\<lambda>(rc, m, s1). (rc, s1)) (?pub s)" l rc s'] p(1) by auto
  define bad where "bad \<longleftrightarrow> rc = MOSQ_ERR_NOMEM \<or> rc = MOSQ_ERR_NO_CONN \<or> rc = MOSQ_ERR_PROTOCOL"
  define l' where "l' = (if bad then l\<lparr>sess := s', net := n\<lparr>cs := mosq_cs_disconnect_cb\<rparr>\<rparr> else l\<lparr>sess := s', net := n\<rparr>)
      \<lparr>mpub_message_buf := None, mpub_topic := (if ?mem 3 then Some (l_topic c) else None), n_pub := n_pub l + 1\<rparr>"
  define st where "st = (if bad then mosq_cs_disconnect_cb else cs (net l))"
  have r: "my_publish c now l = Some (rc, l')" by (simp add: my_publish_def Some n(1) l'_def bad_def Let_def)
  have S: "sess l' = s'" "same_net ((net l)\<lparr>cs := st\<rparr>) (net l')" "mpub_message_buf l' = None"
    "l' = l\<lparr>sess := sess l', net := net l', mpub_message_buf := None, mpub_topic := mpub_topic l', n_pub := n_pub l'\<rparr>"
    using n(2) by (auto simp: l'_def st_def same_net_def)
  have "tx_ok (cfg_env ?k) \<and> (\<forall>k i. l_mem c k i) \<longrightarrow> st = cs (net l)"
    using publish_sends[OF p(1)] by (auto simp: st_def bad_def MOSQ_ERR_NOMEM_def MOSQ_ERR_NO_CONN_def MOSQ_ERR_PROTOCOL_def MOSQ_ERR_SUCCESS_def
        MOSQ_ERR_PAYLOAD_SIZE_def MOSQ_ERR_INVAL_def)
  moreover have "sess_ok (sess l')" "pending (sess l') = pending (sess l)" "messages_in (trace (sess l')) = messages_in (trace (sess l))"
    "\<exists>ps. trace (sess l') = trace (sess l) @ map Queued ps" "topic_fits l'"
    using p(2,3) publish_sends[OF p(1)] S(3) by (auto simp: S(1) in_kept_def pending_def topic_fits_def)
  ultimately show ?thesis using r S(2,4) by blast
qed

section \<open>A broker that is silent\<close>

text \<open>A connection that is up, with its last sign of life at \<open>t\<close>; \<open>p\<close> is the time of a PINGREQ without an answer, or 0.\<close>

definition up :: "int \<Rightarrow> int \<Rightarrow> mosq_link \<Rightarrow> bool" where
  "up t p l \<longleftrightarrow> cs (net l) = mosq_cs_connected \<and> keepalive (net l) \<noteq> 0 \<and> sub_client (net l) \<and> sess_ok (sess l) \<and>
     last_msg_in l = t \<and> ping_t l = p \<and> topic_fits l"

definition alive :: "int \<Rightarrow> int \<Rightarrow> mosq_link \<Rightarrow> bool" where "alive t p l \<longleftrightarrow> up t p l \<and> sock_open l"

definition sends :: "link_cfg \<Rightarrow> bool" where
  "sends c \<longleftrightarrow> tx_ok (cfg_env (l_cfg c)) \<and> (\<forall>k i. l_mem c k i) \<and> accepts (l_wire c) \<and> calm (l_wire c)"

abbreviation period :: "mosq_link \<Rightarrow> int" where "period l \<equiv> uint (keepalive (net l))"

lemma alive_period: "alive t p l \<Longrightarrow> 0 < period l"
proof -
  assume "alive t p l"
  then have "keepalive (net l) \<noteq> 0" by (simp add: alive_def up_def)
  then have "period l \<noteq> 0" by (simp add: uint_0_iff)
  then show "0 < period l" using uint_ge_0[of "keepalive (net l)"] by linarith
qed

lemma retry_link:
  assumes "sess_ok (sess l)" "calm (l_wire c)"
  shows "\<exists>l'. on_session c (\<lambda>s. map_option (Pair 0) (loop_misc_retry (cfg_env (l_cfg c)) (word_of_int now) s)) l = Some (0, l') \<and>
    sess_ok (sess l') \<and> same_net (net l) (net l') \<and> (\<exists>ps. trace (sess l') = trace (sess l) @ map Queued ps) \<and>
    l' = l\<lparr>sess := sess l', net := net l'\<rparr>"
proof -
  obtain s' where s': "loop_misc_retry (cfg_env (l_cfg c)) (word_of_int now) (sess l) = Some s'" "sess_ok s'"
    "\<exists>ps. trace s' = trace (sess l) @ map Queued ps"
    using misc_spec[OF assms(1), of "cfg_env (l_cfg c)" "word_of_int now"] by blast
  show ?thesis
    using on_session_done[OF assms(2), of "\<lambda>s. map_option (Pair 0) (loop_misc_retry (cfg_env (l_cfg c)) (word_of_int now) s)" l 0 s'] s' by auto
qed

lemma ping_sent:
  assumes "alive t 0 l" "sends c"
  shows "\<exists>l1. send_pingreq c now l = Some (MOSQ_ERR_SUCCESS, l1) \<and> ping_t l1 = now \<and> sock_open l1 \<and> same_net (net l) (net l1) \<and> sess_ok (sess l1) \<and>
    topic_fits l1 \<and> trace (sess l1) = trace (sess l) @ [Queued (packet_for 0 0xC0 [])]"
proof -
  have s: "mosquitto_send_pingreq True True junk = Some (Inr (packet_for 0 0xC0 []))" for junk
    by (simp add: mosquitto_send_pingreq_def send_simple sending_def PINGREQ_def)
  obtain rc n where q: "mosquitto_packet_queue (l_wire c) (packet_for 0 0xC0 []) (net l) = Some (rc, n)" "same_net (net l) n" "rc = MOSQ_ERR_SUCCESS"
    using packet_queue_link[of "l_wire c" "packet_for 0 0xC0 []" "net l"] assms by (auto simp: alive_def up_def sends_def)
  then show ?thesis
    using assms by (simp add: send_pingreq_def link_send_def sends_def tx_ok_def alive_def up_def s Let_def sess_ok_def topic_fits_def)
qed

text \<open>What publishing does to a client that is connected; its socket may be closed already.\<close>

lemma publish_up:
  assumes "up t p l" "sends c"
  shows "\<exists>rc l'. (if \<not> cfg_dpm (l_cfg c) \<and> cs (net l) = mosq_cs_connected then my_publish c now l else Some (MOSQ_ERR_SUCCESS, l)) = Some (rc, l') \<and>
    up t p l' \<and> sock_open l' = sock_open l \<and> keepalive (net l') = keepalive (net l) \<and> (\<exists>ps. trace (sess l') = trace (sess l) @ map Queued ps)"
proof (cases "cfg_dpm (l_cfg c)")
  case False
  have a: "sess_ok (sess l)" "topic_fits l" "cs (net l) = mosq_cs_connected" using assms(1) by (auto simp: up_def)
  have c: "calm (l_wire c)" "tx_ok (cfg_env (l_cfg c)) \<and> (\<forall>k i. l_mem c k i)" using assms(2) by (auto simp: sends_def)
  obtain rc l' st where l': "my_publish c now l = Some (rc, l')" "sess_ok (sess l')" "\<exists>ps. trace (sess l') = trace (sess l) @ map Queued ps" "topic_fits l'"
    "same_net ((net l)\<lparr>cs := st\<rparr>) (net l')" "l' = l\<lparr>sess := sess l', net := net l', mpub_message_buf := None, mpub_topic := mpub_topic l', n_pub := n_pub l'\<rparr>"
    "st = cs (net l)"
    using my_publish_spec[OF a(1) c(1) a(2), of now] c(2) by blast
  have "sock_open l' = sock_open l" "last_msg_in l' = last_msg_in l" "ping_t l' = ping_t l" by (subst l'(6), simp)+
  then have "up t p l'" "keepalive (net l') = keepalive (net l)" "sock_open l' = sock_open l" using assms(1) l'(2,4,5,7) by (auto simp: up_def same_net_def)
  then show ?thesis using False a(3) l'(1,3) by auto
qed (use assms in \<open>auto intro: exI[of _ "[]"]\<close>)

text \<open>The rest of a round, after the check of the period.\<close>

lemma round_end:
  assumes "up t p l1" "sends c" "mosquitto_check_keepalive c now l = Some l1" "cs (net l) = mosq_cs_connected"
  shows "\<exists>l'. mosquitto_loop c True now l = Some (if sock_open l' then MOSQ_ERR_SUCCESS else MOSQ_ERR_NO_CONN, l') \<and> up t p l' \<and>
    keepalive (net l') = keepalive (net l1) \<and> sock_open l' = (sock_open l1 \<and> \<not> (p \<noteq> 0 \<and> now - p \<ge> period l1)) \<and>
    (\<exists>ps qs. trace (sess l') = trace (sess l1) @ map Queued ps @ (if p \<noteq> 0 \<and> now - p \<ge> period l1 then [On_disconnect] else []) @ map Queued qs)"
proof -
  have c: "calm (l_wire c)" using assms(2) by (simp add: sends_def)
  obtain l2 where l2: "on_session c (\<lambda>s. map_option (Pair 0) (loop_misc_retry (cfg_env (l_cfg c)) (word_of_int now) s)) l1 = Some (0, l2)"
    "sess_ok (sess l2)" "same_net (net l1) (net l2)" "l2 = l1\<lparr>sess := sess l2, net := net l2\<rparr>" "\<exists>ps. trace (sess l2) = trace (sess l1) @ map Queued ps"
    using retry_link[OF _ c, of l1 now] assms(1) by (auto simp: up_def)
  have f: "last_msg_in l2 = last_msg_in l1" "ping_t l2 = ping_t l1" "sock_open l2 = sock_open l1" "topic_fits l2 = topic_fits l1"
    by (subst l2(4), simp add: topic_fits_def)+
  have u2: "up t p l2" "keepalive (net l2) = keepalive (net l1)" using assms(1) l2(2,3) f by (auto simp: up_def same_net_def)
  let ?late = "p \<noteq> 0 \<and> now - p \<ge> period l1"
  define l3 where "l3 = (if ?late then notify On_disconnect (mosquitto_socket_close l2) else l2)"
  have "mosquitto_loop_misc c now l = Some (if ?late then MOSQ_ERR_CONN_LOST else MOSQ_ERR_SUCCESS, l3)"
    using assms(3) l2(1) u2 by (simp add: mosquitto_loop_misc_def l3_def up_def)
  then obtain rc0 where m: "mosquitto_loop_misc c now l = Some (rc0, l3)" by blast
  have l3: "up t p l3" "keepalive (net l3) = keepalive (net l1)" "sock_open l3 = (sock_open l1 \<and> \<not> ?late)"
    "trace (sess l3) = trace (sess l2) @ (if ?late then [On_disconnect] else [])"
    using u2 f(3) by (auto simp: l3_def up_def notify_def mosquitto_socket_close_def emit_def sess_ok_def topic_fits_def)
  obtain rc l' where r: "(if \<not> cfg_dpm (l_cfg c) \<and> cs (net l3) = mosq_cs_connected then my_publish c (word_of_int now) l3 else Some (MOSQ_ERR_SUCCESS, l3)) = Some (rc, l')"
    "up t p l'" "sock_open l' = sock_open l3" "keepalive (net l') = keepalive (net l3)" "\<exists>ps. trace (sess l') = trace (sess l3) @ map Queued ps"
    using publish_up[OF l3(1) assms(2)] by metis
  have "cs (net l3) = mosq_cs_connected" using l3(1) by (simp add: up_def)
  then have "mosquitto_loop c True now l = Some (if sock_open l' then MOSQ_ERR_SUCCESS else MOSQ_ERR_NO_CONN, l')"
    using r(1) m assms(4) by (cases "cfg_dpm (l_cfg c)") (simp_all add: mosquitto_loop_def)
  moreover obtain ps qs where "trace (sess l2) = trace (sess l1) @ map Queued ps" "trace (sess l') = trace (sess l3) @ map Queued qs"
    using l2(5) r(5) by blast
  then have "trace (sess l') = trace (sess l1) @ map Queued ps @ (if ?late then [On_disconnect] else []) @ map Queued qs" by (simp only: l3(4) append_assoc)
  ultimately show ?thesis using r(2-4) l3(2,3) by (intro exI[of _ l'] conjI exI[of _ ps] exI[of _ qs]) simp_all
qed

text \<open>A round without an open question: nothing is due, or a PINGREQ packet is sent.\<close>

lemma quiet_round:
  assumes a: "alive t 0 l" and c: "sends c" and now: "now > 0" "now \<ge> t"
  shows "\<exists>l'. mosquitto_loop c True now l = Some (MOSQ_ERR_SUCCESS, l') \<and> keepalive (net l') = keepalive (net l) \<and>
    (alive t 0 l' \<and> now < t + period l \<or> alive now now l' \<and> Queued (packet_for 0 0xC0 []) \<in> set (trace (sess l')))"
proof (cases "now \<ge> next_msg_out (net l) \<or> now - t \<ge> period l")
  case False
  have "mosquitto_check_keepalive c now l = Some l" using False a by (simp add: mosquitto_check_keepalive_def alive_def up_def Let_def)
  then show ?thesis using round_end[of t 0 l c now l] a c False by (auto simp: alive_def up_def)
next
  case True
  obtain l1 where l1: "send_pingreq c now l = Some (MOSQ_ERR_SUCCESS, l1)" "ping_t l1 = now" "sock_open l1" "same_net (net l) (net l1)"
    "sess_ok (sess l1)" "topic_fits l1" "trace (sess l1) = trace (sess l) @ [Queued (packet_for 0 0xC0 [])]" using ping_sent[OF a c] by blast
  let ?l = "l1\<lparr>last_msg_in := now, net := (net l1)\<lparr>next_msg_out := now + period l\<rparr>\<rparr>"
  have k: "mosquitto_check_keepalive c now l = Some ?l"
    using True a l1(1) alive_period[OF a] by (auto simp: mosquitto_check_keepalive_def alive_def up_def Let_def)
  have u: "up now now ?l" "keepalive (net ?l) = keepalive (net l)" "sock_open ?l" "Queued (packet_for 0 0xC0 []) \<in> set (trace (sess ?l))"
    using a l1(2-7) by (auto simp: alive_def up_def same_net_def topic_fits_def)
  have "\<not> now - now \<ge> period ?l" using alive_period[OF a] u(2) by simp
  then show ?thesis using round_end[OF u(1) c k] a u(2-4) by (auto simp: alive_def up_def)
qed

text \<open>A round with an open question: after a period the connection is closed.\<close>

lemma waiting_check:
  assumes "alive t p l" "p \<noteq> 0"
  shows "\<exists>l1. mosquitto_check_keepalive c now l = Some l1 \<and> up t p l1 \<and> keepalive (net l1) = keepalive (net l) \<and>
    (if now \<ge> next_msg_out (net l) \<or> now - t \<ge> period l then \<not> sock_open l1 \<and> trace (sess l1) = trace (sess l) @ [On_disconnect] else l1 = l)"
  using assms alive_period[OF assms(1)]
  by (auto simp: mosquitto_check_keepalive_def alive_def up_def Let_def notify_def mosquitto_socket_close_def emit_def sess_ok_def topic_fits_def)

lemma waiting_round:
  assumes a: "alive t p l" and p: "p \<noteq> 0" and c: "sends c"
  shows "\<exists>rc l'. mosquitto_loop c True now l = Some (rc, l') \<and>
    (rc = MOSQ_ERR_SUCCESS \<and> alive t p l' \<and> keepalive (net l') = keepalive (net l) \<and> now < p + period l \<and>
       set (trace (sess l)) \<subseteq> set (trace (sess l')) \<or>
     rc = MOSQ_ERR_NO_CONN \<and> \<not> sock_open l' \<and> On_disconnect \<in> set (trace (sess l')) \<and> set (trace (sess l)) \<subseteq> set (trace (sess l')))"
proof -
  let ?due = "now \<ge> next_msg_out (net l) \<or> now - t \<ge> period l"
  obtain l1 where l1: "mosquitto_check_keepalive c now l = Some l1" "up t p l1" "keepalive (net l1) = keepalive (net l)"
    "if ?due then \<not> sock_open l1 \<and> trace (sess l1) = trace (sess l) @ [On_disconnect] else l1 = l"
    using waiting_check[OF a p] by blast
  have up: "cs (net l) = mosq_cs_connected" "sock_open l" using a by (auto simp: alive_def up_def)
  obtain l' ps qs where l': "mosquitto_loop c True now l = Some (if sock_open l' then MOSQ_ERR_SUCCESS else MOSQ_ERR_NO_CONN, l')" "up t p l'"
    "keepalive (net l') = keepalive (net l1)" "sock_open l' = (sock_open l1 \<and> \<not> (p \<noteq> 0 \<and> now - p \<ge> period l1))"
    "trace (sess l') = trace (sess l1) @ map Queued ps @ (if p \<noteq> 0 \<and> now - p \<ge> period l1 then [On_disconnect] else []) @ map Queued qs"
    using round_end[OF l1(2) c l1(1) up(1)] by blast
  have tr: "set (trace (sess l)) \<subseteq> set (trace (sess l'))" using l'(5) l1(4) by (auto split: if_splits)
  show ?thesis
  proof (cases "sock_open l'")
    case True
    then have "alive t p l'" "now < p + period l" using l'(2,4) p l1(3) by (auto simp: alive_def)
    then show ?thesis using l'(1,3) l1(3) True tr by auto
  next
    case False
    have "On_disconnect \<in> set (trace (sess l'))" using False l'(4,5) l1(4) up(2) by (auto split: if_splits)
    then show ?thesis using False l'(1) tr by auto
  qed
qed

lemma waiting_rounds:
  assumes "alive t p l" "p \<noteq> 0" "sends c" "ts \<noteq> []" "last ts \<ge> p + period l"
  shows "\<exists>l'. mosquitto_loop_forever c ts l = Some (MOSQ_ERR_NO_CONN, l') \<and> \<not> sock_open l' \<and> On_disconnect \<in> set (trace (sess l')) \<and>
    set (trace (sess l)) \<subseteq> set (trace (sess l'))"
  using assms
proof (induction ts arbitrary: l)
  case (Cons now ts)
  obtain rc l1 where r: "mosquitto_loop c True now l = Some (rc, l1)"
    "rc = MOSQ_ERR_SUCCESS \<and> alive t p l1 \<and> keepalive (net l1) = keepalive (net l) \<and> now < p + period l \<and>
       set (trace (sess l)) \<subseteq> set (trace (sess l1)) \<or>
     rc = MOSQ_ERR_NO_CONN \<and> \<not> sock_open l1 \<and> On_disconnect \<in> set (trace (sess l1)) \<and> set (trace (sess l)) \<subseteq> set (trace (sess l1))"
    using waiting_round[OF Cons.prems(1,2,3)] by blast
  show ?case
  proof (cases "rc = MOSQ_ERR_SUCCESS")
    case True
    then have "alive t p l1" "keepalive (net l1) = keepalive (net l)" "now < p + period l" "set (trace (sess l)) \<subseteq> set (trace (sess l1))"
      using r(2) by (auto simp: MOSQ_ERR_SUCCESS_def MOSQ_ERR_NO_CONN_def)
    then show ?thesis using Cons.IH[of l1] Cons.prems(2,3,5) r(1) True by (cases "ts = []") auto
  next
    case False
    then show ?thesis using r by auto
  qed
qed simp

text \<open>Times of rounds that are never more than \<open>g\<close> apart.\<close>

fun steady :: "int \<Rightarrow> int \<Rightarrow> int list \<Rightarrow> bool" where
  "steady g t [] \<longleftrightarrow> True"
| "steady g t (u # us) \<longleftrightarrow> 0 < u \<and> t \<le> u \<and> u \<le> t + g \<and> steady g u us"

lemma quiet_rounds:
  assumes "alive t 0 l" "sends c" "steady g u ts" "t \<le> u" "u < t + period l" "ts \<noteq> []" "last ts \<ge> t + 2 * period l + g"
  shows "\<exists>l'. mosquitto_loop_forever c ts l = Some (MOSQ_ERR_NO_CONN, l') \<and> \<not> sock_open l' \<and>
    Queued (packet_for 0 0xC0 []) \<in> set (trace (sess l')) \<and> On_disconnect \<in> set (trace (sess l'))"
  using assms
proof (induction ts arbitrary: l u)
  case (Cons now ts)
  have n: "now > 0" "now \<ge> t" "now \<le> u + g" "steady g now ts" using Cons.prems(3,4) by auto
  obtain l1 where r: "mosquitto_loop c True now l = Some (MOSQ_ERR_SUCCESS, l1)" "keepalive (net l1) = keepalive (net l)"
    "alive t 0 l1 \<and> now < t + period l \<or> alive now now l1 \<and> Queued (packet_for 0 0xC0 []) \<in> set (trace (sess l1))"
    using quiet_round[OF Cons.prems(1,2) n(1,2)] by blast
  have g: "g \<ge> 0" using Cons.prems(3) by auto
  have ne: "ts \<noteq> []" using Cons.prems(5,7) n(3) alive_period[OF Cons.prems(1)] by auto
  show ?case
  proof (cases "alive t 0 l1 \<and> now < t + period l")
    case True
    then show ?thesis using Cons.IH[of l1 now] Cons.prems(2,7) n r(1,2) ne by auto
  next
    case False
    then have "alive now now l1" "Queued (packet_for 0 0xC0 []) \<in> set (trace (sess l1))" using r(3) by auto
    then show ?thesis using waiting_rounds[of now now l1 c ts] Cons.prems(2,5,7) n(1,3) r(1,2) ne by auto
  qed
qed simp

end
