(* ===== verification/Mqtt_Topic.thy ===== *)
theory Mqtt_Topic
  imports Mqtt_Session
begin

text \<open>
  Topics and topic filters of MQTT (\<^verbatim>\<open>src/core/system/src/mqtt_client/lib/util_mosq.c\<close>, \<^verbatim>\<open>mosquitto.c\<close>): the match of a tpc against a filter and the
  split into levels, read as operations on the lists of levels. Strings are lists of bytes without zero, read by position; \<open>/\<close> is 47, \<open>+\<close> is 43, \<open>#\<close> is 35, \<open>$\<close>
  is 36.
\<close>

section \<open>The code\<close>

text \<open>The character at a position; the terminating zero stands behind the string.\<close>

definition char_at :: "u8 list \<Rightarrow> nat \<Rightarrow> u8" where
  "char_at s i = (if i < length s then s ! i else 0)"

function skip_level :: "u8 list \<Rightarrow> nat \<Rightarrow> nat" where
  "skip_level tpc tpos = (if tpos < length tpc \<and> char_at tpc tpos \<noteq> 47 then skip_level tpc (tpos + 1) else tpos)"
  by auto
termination by (relation "measure (\<lambda>(tpc, tpos). length tpc - tpos)") auto

text \<open>The result has the code and what is written to \<^verbatim>\<open>result\<close>, if anything is.\<close>

function matches_loop :: "u8 list \<Rightarrow> u8 list \<Rightarrow> nat \<Rightarrow> nat \<Rightarrow> int \<times> bool option" where
  "matches_loop sub tpc spos tpos =
     (if spos < length sub \<and> tpos \<le> length tpc
      then if char_at sub spos = char_at tpc tpos
        then if tpos + 1 = length tpc \<and> spos + 3 = length sub \<and> char_at sub (spos + 1) = 47 \<and> char_at sub (spos + 2) = 35
             then (MOSQ_ERR_SUCCESS, Some True)
             else if spos + 1 = length sub \<and> tpos + 1 = length tpc then (MOSQ_ERR_SUCCESS, Some True)
             else if tpos + 1 = length tpc \<and> spos + 2 = length sub \<and> char_at sub (spos + 1) = 43
             then (if char_at sub spos \<noteq> 47 then (MOSQ_ERR_INVAL, Some False) else (MOSQ_ERR_SUCCESS, Some True))
             else matches_loop sub tpc (spos + 1) (tpos + 1)
        else if char_at sub spos = 43
        then if spos > 0 \<and> char_at sub (spos - 1) \<noteq> 47 then (MOSQ_ERR_INVAL, Some False)
             else if spos + 1 < length sub \<and> char_at sub (spos + 1) \<noteq> 47 then (MOSQ_ERR_INVAL, Some False)
             else (let tpos1 = skip_level tpc tpos in
                   if tpos1 = length tpc \<and> spos + 1 = length sub then (MOSQ_ERR_SUCCESS, Some True)
                   else matches_loop sub tpc (spos + 1) tpos1)
        else if char_at sub spos = 35
        then if spos > 0 \<and> char_at sub (spos - 1) \<noteq> 47 then (MOSQ_ERR_INVAL, Some False)
             else if spos + 1 \<noteq> length sub then (MOSQ_ERR_INVAL, Some False)
             else (MOSQ_ERR_SUCCESS, Some True)
        else (MOSQ_ERR_SUCCESS, Some False)
      else (MOSQ_ERR_SUCCESS, if tpos < length tpc \<or> spos < length sub then Some False else None))"
  by auto
termination by (relation "measure (\<lambda>(sub, tpc, spos, tpos). length sub - spos)") auto

definition mosquitto_topic_matches_sub :: "u8 list \<Rightarrow> u8 list \<Rightarrow> int \<times> bool option" where
  "mosquitto_topic_matches_sub sub tpc =
     (if sub = [] \<or> tpc = [] then (MOSQ_ERR_INVAL, Some False)
      else if char_at sub 0 = 36 \<and> char_at tpc 0 \<noteq> 36 \<or> char_at tpc 0 = 36 \<and> char_at sub 0 \<noteq> 36 then (MOSQ_ERR_SUCCESS, Some False)
      else matches_loop sub tpc 0 0)"

text \<open>
  The split: \<open>mem0\<close> and \<open>mem\<close> are the allocations of the array and of its entries, which are null pointers until they are
  set. The end of the string counts as a separator.
\<close>

function hier_loop :: "u8 list \<Rightarrow> nat \<Rightarrow> nat \<Rightarrow> nat" where
  "hier_loop s i n =
     (if i < length s then hier_loop s (i + 1) (if char_at s i = 47 then if i > length s - 1 then n else n + 1 else n) else n)"
  by auto
termination by (relation "measure (\<lambda>(s, i, n). length s - i)") auto

function token_loop :: "(nat \<Rightarrow> bool) \<Rightarrow> u8 list \<Rightarrow> nat \<Rightarrow> nat \<Rightarrow> nat \<Rightarrow> u8 list option list \<Rightarrow> u8 list option list option" where
  "token_loop mem s start hier i topics =
     (if i < length s + 1
      then if char_at s i = 47 \<or> char_at s i = 0
        then if start \<noteq> i
          then (if mem hier then token_loop mem s (i + 1) (hier + 1) (i + 1) (topics[hier := Some (map (char_at s) [start..<i])]) else None)
          else token_loop mem s (i + 1) (hier + 1) (i + 1) topics
        else token_loop mem s start hier (i + 1) topics
      else Some topics)"
  by auto
termination by (relation "measure (\<lambda>(mem, s, start, hier, i, topics). length s + 1 - i)") auto

definition mosquitto_sub_topic_tokenise :: "bool \<Rightarrow> (nat \<Rightarrow> bool) \<Rightarrow> u8 list \<Rightarrow> int + u8 list option list" where
  "mosquitto_sub_topic_tokenise mem0 mem subtopic =
     (let hier_count = hier_loop subtopic 0 1 in
      if \<not> mem0 then Inl MOSQ_ERR_NOMEM
      else (case token_loop mem subtopic 0 0 0 (replicate hier_count None) of
              None \<Rightarrow> Inl MOSQ_ERR_NOMEM
            | Some topics \<Rightarrow> Inr topics))"

declare skip_level.simps [simp del] matches_loop.simps [simp del] hier_loop.simps [simp del] token_loop.simps [simp del]

section \<open>Levels\<close>

text \<open>The levels of a topic or a filter, and the match of MQTT 3.1.1 (section 4.7): \<open>+\<close> stands for one level, \<open>#\<close> for the rest and the level before it.\<close>

fun levels :: "u8 list \<Rightarrow> u8 list list" where
  "levels [] = [[]]"
| "levels (c # s) = (if c = 47 then [] # levels s else (c # hd (levels s)) # tl (levels s))"

fun level_match :: "u8 list list \<Rightarrow> u8 list list \<Rightarrow> bool" where
  "level_match [] ts \<longleftrightarrow> ts = []"
| "level_match (f # fs) ts \<longleftrightarrow>
     f = [35] \<and> fs = [] \<or> (case ts of [] \<Rightarrow> False | t # ts1 \<Rightarrow> (f = [43] \<or> f = t) \<and> level_match fs ts1)"

text \<open>Filters that begin with a wildcard do not match topics that begin with \<open>$\<close>.\<close>

definition topic_match :: "u8 list \<Rightarrow> u8 list \<Rightarrow> bool" where
  "topic_match sub tpc \<longleftrightarrow>
     level_match (levels sub) (levels tpc) \<and> \<not> (char_at tpc 0 = 36 \<and> (char_at sub 0 = 43 \<or> char_at sub 0 = 35))"

text \<open>Well-formed filters.\<close>

definition plain :: "u8 list \<Rightarrow> bool" where "plain l \<longleftrightarrow> 43 \<notin> set l \<and> 35 \<notin> set l"

fun filter_ok :: "u8 list list \<Rightarrow> bool" where
  "filter_ok [] \<longleftrightarrow> True"
| "filter_ok (f # fs) \<longleftrightarrow> (f = [43] \<or> plain f \<or> f = [35] \<and> fs = []) \<and> filter_ok fs"

text \<open>The case in which the code differs: a last level \<open>#\<close> behind \<open>+\<close>, for a tpc that ends with the level of \<open>+\<close>.\<close>

definition parent_missed :: "u8 list list \<Rightarrow> u8 list list \<Rightarrow> bool" where
  "parent_missed fs ts \<longleftrightarrow> length fs = length ts + 1 \<and> drop (length fs - 2) fs = [[43], [35]]"

section \<open>The loops as recursion over lists\<close>

lemma char_at_drop: "i < length s \<Longrightarrow> drop i s = char_at s i # drop (i + 1) s"
  by (simp add: char_at_def Cons_nth_drop_Suc)

lemma char_at_0: "char_at (c # s) 0 = c" "char_at [] 0 = 0" by (simp_all add: char_at_def)

lemma char_at_end: "length s \<le> i \<Longrightarrow> char_at s i = 0" by (simp add: char_at_def)

lemma char_at_nonzero: "0 \<notin> set s \<Longrightarrow> char_at s i = 0 \<longleftrightarrow> length s \<le> i"
  by (auto simp: char_at_def) (metis nth_mem)

lemma char_at_in: "char_at s i = c \<Longrightarrow> c \<noteq> 0 \<Longrightarrow> c \<in> set s" by (auto simp: char_at_def split: if_splits)

lemma skip_level_drop:
  "tpos \<le> length t \<Longrightarrow> drop (skip_level t tpos) t = dropWhile (\<lambda>c. c \<noteq> 47) (drop tpos t) \<and> skip_level t tpos \<le> length t"
proof (induction t tpos rule: skip_level.induct)
  case (1 t tpos)
  show ?case
  proof (cases "tpos < length t")
    case True
    then show ?thesis using 1 by (subst (1 2) skip_level.simps) (simp add: char_at_drop)
  next
    case False
    then show ?thesis using 1 by (subst (1 2) skip_level.simps) simp
  qed
qed

text \<open>The match over the rest of the filter and the rest of the topic; \<open>b\<close> says that the last step compared two equal characters.\<close>

fun rest_match :: "bool \<Rightarrow> u8 list \<Rightarrow> u8 list \<Rightarrow> bool" where
  "rest_match b [] t \<longleftrightarrow> t = []"
| "rest_match b (x # s) [] \<longleftrightarrow> x = 35 \<or> x = 43 \<and> s = [] \<or> b \<and> x = 47 \<and> s = [35]"
| "rest_match b (x # s) (y # t) \<longleftrightarrow>
     (if x = y then rest_match True s t
      else if x = 43 then rest_match False s (dropWhile (\<lambda>c. c \<noteq> 47) (y # t))
      else x = 35)"

text \<open>A filter that the check accepts, from a position on, behind the character \<open>c\<close>.\<close>

abbreviation "good c s \<equiv> sub_topic_loop c 0 s \<noteq> None"

lemma sub_topic_loop_len: "sub_topic_loop c n s = None \<longleftrightarrow> sub_topic_loop c 0 s = None"
proof (induction s arbitrary: c n)
  case (Cons x s)
  show ?case using Cons[of x "n + 1"] Cons[of x 1] by (auto simp: Let_def)
qed simp

lemma good_Cons: "good c (x # s) \<longleftrightarrow> good x s \<and>
    (x = 43 \<longrightarrow> (c = 0 \<or> c = 47) \<and> (char_at s 0 = 0 \<or> char_at s 0 = 47)) \<and> (x = 35 \<longrightarrow> (c = 0 \<or> c = 47) \<and> char_at s 0 = 0)"
proof -
  have nxt: "(case s of [] \<Rightarrow> 0 | y # ys \<Rightarrow> y) = char_at s 0" by (cases s) (simp_all add: char_at_def)
  show ?thesis using sub_topic_loop_len[of x 1 s] unfolding sub_topic_loop.simps Let_def nxt
    by (cases "x = 43"; cases "x = 35") auto
qed

declare sub_topic_loop.simps [simp del]

lemma rest_match_flag: "\<not> (s = [47, 35] \<and> t = []) \<Longrightarrow> rest_match b s t = rest_match False s t"
  by (cases s; cases t) auto

lemma char_at_add: "char_at s (i + k) = char_at (drop i s) k"
  by (auto simp: char_at_def add.commute)

lemma short_lists: "r = [a, b] \<longleftrightarrow> length r = 2 \<and> char_at r 0 = a \<and> char_at r 1 = b" "r = [a] \<longleftrightarrow> length r = 1 \<and> char_at r 0 = a"
  by (auto simp: char_at_def length_Suc_conv numeral_2_eq_2)

text \<open>The tests of the loop on the rest of the filter.\<close>

lemma ahead:
  assumes "drop i s = x # r" "0 \<notin> set s"
  shows "i < length s" "char_at s i = x" "drop (i + 1) s = r" "i + 1 = length s \<longleftrightarrow> r = []" "i + 1 < length s \<longleftrightarrow> r \<noteq> []" "char_at s (i + 1) = char_at r 0"
    "i + 3 = length s \<and> char_at s (i + 1) = 47 \<and> char_at s (i + 2) = 35 \<longleftrightarrow> r = [47, 35]"
    "i + 2 = length s \<and> char_at s (i + 1) = 43 \<longleftrightarrow> r = [43]" "x \<noteq> 0" "char_at r 0 = 0 \<longleftrightarrow> r = []"
proof -
  show i: "i < length s" using assms(1) by (metis drop_all linorder_not_less list.distinct(1))
  then show x: "char_at s i = x" "drop (i + 1) s = r" using assms(1) by (simp_all add: char_at_drop)
  have len: "length r = length s - (i + 1)" unfolding x(2)[symmetric] by simp
  have at: "char_at s (i + 1) = char_at r 0" "char_at s (i + 2) = char_at r 1"
    unfolding x(2)[symmetric] char_at_add[symmetric] by simp_all
  show "i + 1 = length s \<longleftrightarrow> r = []" "i + 1 < length s \<longleftrightarrow> r \<noteq> []" "char_at s (i + 1) = char_at r 0"
    unfolding length_0_conv[symmetric] len using i at by auto
  show "i + 3 = length s \<and> char_at s (i + 1) = 47 \<and> char_at s (i + 2) = 35 \<longleftrightarrow> r = [47, 35]"
    "i + 2 = length s \<and> char_at s (i + 1) = 43 \<longleftrightarrow> r = [43]"
    unfolding at short_lists len using i by auto
  show "x \<noteq> 0" using x(1) i assms(2) by (auto simp: char_at_nonzero)
  have "0 \<notin> set r" using assms(2) x(2) by (auto dest: in_set_dropD)
  then show "char_at r 0 = 0 \<longleftrightarrow> r = []" by (simp add: char_at_nonzero)
qed

lemma matches_loop_rest:
  assumes "0 \<notin> set sub" "0 \<notin> set tpc" "43 \<notin> set tpc" "35 \<notin> set tpc" "tpos \<le> length tpc"
    "drop spos sub \<noteq> [] \<or> drop tpos tpc \<noteq> []" "good (if spos = 0 then 0 else char_at sub (spos - 1)) (drop spos sub)"
  shows "matches_loop sub tpc spos tpos = (MOSQ_ERR_SUCCESS, Some (rest_match False (drop spos sub) (drop tpos tpc)))"
  using assms(5-)
proof (induction "drop spos sub" arbitrary: spos tpos)
  case Nil
  then show ?case by (subst matches_loop.simps) auto
next
  case (Cons x r)
  note xr = Cons(2)[symmetric]
  note A = ahead[OF xr assms(1)]
  let ?c = "if spos = 0 then 0 else char_at sub (spos - 1)"
  have g: "good x r" "x = 43 \<or> x = 35 \<Longrightarrow> ?c = 0 \<or> ?c = 47" "x = 43 \<Longrightarrow> r = [] \<or> char_at r 0 = 47" "x = 35 \<Longrightarrow> r = []"
    using Cons(5) A(10) unfolding Cons(2)[symmetric] good_Cons by auto
  have c: "x = 43 \<or> x = 35 \<Longrightarrow> \<not> (spos > 0 \<and> char_at sub (spos - 1) \<noteq> 47)"
    using g(2) A(1) assms(1) by (auto simp: char_at_nonzero split: if_splits)
  have IH: "matches_loop sub tpc (spos + 1) k = (MOSQ_ERR_SUCCESS, Some (rest_match False r (drop k tpc)))"
    if "k \<le> length tpc" "r \<noteq> [] \<or> drop k tpc \<noteq> []" for k
    using Cons(1)[OF A(3)[symmetric], of k] g(1) that unfolding A(3) by (simp add: A(2))
  have skip: "drop (skip_level tpc tpos) tpc = dropWhile (\<lambda>c. c \<noteq> 47) (drop tpos tpc)" "skip_level tpc tpos \<le> length tpc"
    using skip_level_drop[OF Cons(3)] by simp_all
  have skipped: "skip_level tpc tpos = length tpc \<longleftrightarrow> dropWhile (\<lambda>c. c \<noteq> 47) (drop tpos tpc) = []"
    unfolding skip(1)[symmetric] using skip(2) by auto
  have step: "matches_loop sub tpc spos tpos =
     (if x = char_at tpc tpos
      then if tpos + 1 = length tpc \<and> r = [47, 35] then (MOSQ_ERR_SUCCESS, Some True)
           else if r = [] \<and> tpos + 1 = length tpc then (MOSQ_ERR_SUCCESS, Some True)
           else if tpos + 1 = length tpc \<and> r = [43] then (if x \<noteq> 47 then (MOSQ_ERR_INVAL, Some False) else (MOSQ_ERR_SUCCESS, Some True))
           else matches_loop sub tpc (spos + 1) (tpos + 1)
      else if x = 43
      then if skip_level tpc tpos = length tpc \<and> r = [] then (MOSQ_ERR_SUCCESS, Some True)
           else matches_loop sub tpc (spos + 1) (skip_level tpc tpos)
      else if x = 35 then (MOSQ_ERR_SUCCESS, Some True) else (MOSQ_ERR_SUCCESS, Some False))"
    apply (subst matches_loop.simps)
    apply (simp only: A(1,2,4,5,7,8) Cons(3) simp_thms if_True)
    using c g(3,4) A(6) by (auto simp: Let_def)
  show ?case
  proof (cases "drop tpos tpc")
    case Nil
    then have t: "x \<noteq> char_at tpc tpos" "skip_level tpc tpos = length tpc" using skipped A(9) by (simp_all add: char_at_end)
    show ?thesis
    proof (cases "x = 43 \<and> r \<noteq> []")
      case True
      then obtain s where s: "r = 47 # s" using g(3) by (cases r) (auto simp: char_at_def)
      show ?thesis unfolding xr Nil step using t True s IH[of "length tpc"] by simp
    next
      case False
      then show ?thesis unfolding xr Nil step using t by auto
    qed
  next
    case (Cons y t)
    note B = ahead[OF Cons assms(2)]
    have y: "y \<noteq> 43" "y \<noteq> 35" using B(1,2) assms(3,4) char_at_in[of tpc tpos] by auto
    show ?thesis
    proof (cases "x = y")
      case True
      have "r = [43] \<Longrightarrow> x = 47" using g(1) A(9) good_Cons[of x 43 "[]"] by auto
      then show ?thesis
        unfolding xr Cons step B(2,4)
        using True IH[of "tpos + 1"] B(1,3) y rest_match_flag[of r t True] by auto
    next
      case False
      then show ?thesis
        unfolding xr Cons step B(2,4) skipped
        using IH[OF skip(2)] unfolding skip(1) Cons by auto
    qed
  qed
qed

section \<open>Levels\<close>

lemma levels_nonempty [simp]: "levels s \<noteq> []" by (cases s) auto

lemma levels_one [simp]: "47 \<notin> set l \<Longrightarrow> levels l = [l]" by (induction l) auto

lemma levels_more [simp]: "47 \<notin> set l \<Longrightarrow> levels (l @ 47 # s) = l # levels s" by (induction l) auto

text \<open>A string is one level, or a level in front of a string.\<close>

lemma levels_induct [case_names one more]:
  assumes "\<And>l. 47 \<notin> set l \<Longrightarrow> P l" "\<And>l s. 47 \<notin> set l \<Longrightarrow> P s \<Longrightarrow> P (l @ 47 # s)"
  shows "P s"
proof (induction "length s" arbitrary: s rule: less_induct)
  case less
  show ?case
  proof (cases "47 \<in> set s")
    case True
    then obtain l r where s: "s = l @ 47 # r" "47 \<notin> set l" by (meson split_list_first)
    then have "P r" using less by simp
    then show ?thesis using assms(2) s by simp
  qed (rule assms(1))
qed

lemma levels_cases [case_names one more]:
  obtains l where "s = l" "47 \<notin> set l" "levels s = [l]"
    | l r where "s = l @ 47 # r" "47 \<notin> set l" "levels s = l # levels r"
  by (induction s rule: levels_induct) auto

lemma levels_hash: "levels s = [[35]] \<longleftrightarrow> s = [35]"
proof
  assume "levels s = [[35]]"
  then show "s = [35]" by (cases s rule: levels_cases) auto
qed simp

lemma first_level:
  obtains k v where "t = k @ v" "47 \<notin> set k" "v = [] \<or> hd v = 47" "levels t = k # (if v = [] then [] else levels (tl v))"
proof (cases t rule: levels_cases)
  case (one l)
  then show ?thesis using that[of l "[]"] by simp
next
  case (more l r)
  then show ?thesis using that[of l "47 # r"] by simp
qed

text \<open>The check of a filter looks at its levels.\<close>

lemma good_levels:
  "0 \<notin> set s \<Longrightarrow> good c s \<longleftrightarrow> (if c = 0 \<or> c = 47 then filter_ok (levels s) else plain (hd (levels s)) \<and> filter_ok (tl (levels s)))"
proof (induction s arbitrary: c)
  case (Cons x r)
  then have IH: "good x r \<longleftrightarrow> (if x = 47 then filter_ok (levels r) else plain (hd (levels r)) \<and> filter_ok (tl (levels r)))" by auto
  have h: "char_at r 0 = 0 \<longleftrightarrow> r = []" using Cons by (simp add: char_at_nonzero)
  consider "r = []" | r1 where "r = 47 # r1" | y r1 where "r = y # r1" "y \<noteq> 47" by (cases r) auto
  then show ?case unfolding good_Cons IH h by cases (auto simp: plain_def char_at_def)
qed (simp add: sub_topic_loop.simps plain_def)

lemma sub_topic_loop_counts: "sub_topic_loop c n s = Some k \<Longrightarrow> k = n + length s"
proof (induction s arbitrary: c n)
  case (Cons x s)
  then have "sub_topic_loop x (n + 1) s = Some k" by (simp add: sub_topic_loop.simps Let_def split: if_splits)
  then show ?case using Cons(1) by force
qed (simp add: sub_topic_loop.simps)

theorem mosquitto_sub_topic_check_levels:
  assumes "0 \<notin> set s"
  shows "mosquitto_sub_topic_check s = MOSQ_ERR_SUCCESS \<longleftrightarrow> filter_ok (levels s) \<and> length s \<le> 65535"
  using good_levels[OF assms, of 0] sub_topic_loop_counts[of 0 0 s]
  by (auto simp: mosquitto_sub_topic_check_def MOSQ_ERR_SUCCESS_def MOSQ_ERR_INVAL_def split: option.splits)

lemma pub_topic_check_plain: "mosquitto_pub_topic_check s = MOSQ_ERR_SUCCESS \<Longrightarrow> plain s"
proof -
  have "pub_topic_loop n s \<noteq> None \<Longrightarrow> plain s" for n by (induction s arbitrary: n) (auto simp: plain_def split: if_splits)
  then show "mosquitto_pub_topic_check s = MOSQ_ERR_SUCCESS \<Longrightarrow> plain s"
    by (force simp: mosquitto_pub_topic_check_def MOSQ_ERR_SUCCESS_def MOSQ_ERR_INVAL_def split: option.splits)
qed

section \<open>The match\<close>

lemma rest_match_plain:
  assumes "plain l" "47 \<notin> set l" "47 \<notin> set k" "plain k" "u = [] \<or> hd u = 47" "v = [] \<or> hd v = 47" "35 \<notin> set v" "43 \<notin> set v"
  shows "rest_match True (l @ u) (k @ v) \<longleftrightarrow> l = k \<and> rest_match True u v"
  using assms(1-4)
proof (induction l k rule: list_induct2')
  case (4 x l y k)
  then show ?case by (auto simp: plain_def)
next
  case (3 y k)
  then show ?case using assms(5) by (cases u) (auto simp: plain_def)
next
  case (2 x l)
  then show ?case using assms(6) by (cases v) (auto simp: plain_def)
qed simp

lemma rest_match_any:
  assumes "47 \<notin> set k" "plain k" "u = [] \<or> hd u = 47" "v = [] \<or> hd v = 47"
  shows "rest_match b (43 # u) (k @ v) \<longleftrightarrow> rest_match False u v"
proof -
  have d: "dropWhile (\<lambda>c. c \<noteq> 47) (k @ v) = v" using assms(1,4) by (induction k) (cases v; auto)+
  show ?thesis
  proof (cases "k @ v")
    case Nil
    then show ?thesis using assms(3) by (cases u) auto
  next
    case (Cons y w)
    then have "y \<noteq> 43" using assms(2,4) by (cases k) (auto simp: plain_def)
    then show ?thesis using d unfolding Cons by simp
  qed
qed

text \<open>What the code decides, over levels; \<open>p\<close> says that the level before was \<open>+\<close>.\<close>

fun code_match :: "bool \<Rightarrow> u8 list list \<Rightarrow> u8 list list \<Rightarrow> bool" where
  "code_match p [] ts \<longleftrightarrow> ts = []"
| "code_match p (f # fs) ts \<longleftrightarrow>
     (case ts of [] \<Rightarrow> \<not> p \<and> f = [35] \<and> fs = []
      | t # ts1 \<Rightarrow> f = [35] \<and> fs = [] \<or> (f = [43] \<or> f = t) \<and> code_match (f = [43]) fs ts1)"

lemma code_match_flag: "ts \<noteq> [] \<Longrightarrow> code_match p fs ts = code_match q fs ts" by (cases fs) (auto split: list.splits)

lemma code_match_end: "code_match p fs [] \<longleftrightarrow> fs = [] \<or> \<not> p \<and> fs = [[35]]" by (cases fs) auto

lemma rest_match_levels:
  "filter_ok (levels s) \<Longrightarrow> plain t \<Longrightarrow> rest_match True s t \<longleftrightarrow> code_match False (levels s) (levels t)"
proof (induction s arbitrary: t rule: levels_induct)
  case (one l)
  obtain k v where t: "t = k @ v" "47 \<notin> set k" "v = [] \<or> hd v = 47" "levels t = k # (if v = [] then [] else levels (tl v))"
    by (rule first_level)
  then have pl: "plain k" "35 \<notin> set v" "43 \<notin> set v" using one(3) by (auto simp: plain_def)
  consider "l = [43]" | "plain l" | "l = [35]" using one(1,2) by auto
  then show ?case
  proof cases
    case 1
    show ?thesis using rest_match_any[OF t(2) pl(1) _ t(3), of "[]" True] 1 t by simp
  next
    case 2
    then show ?thesis using rest_match_plain[OF 2 one(1) t(2) pl(1) _ t(3) pl(2,3), of "[]"] one(1) t by (auto simp: plain_def)
  next
    case 3
    have "rest_match True [35] t" using one(3) by (cases t) (auto simp: plain_def)
    then show ?thesis using 3 t(4) by simp
  qed
next
  case (more l s)
  obtain k v where t: "t = k @ v" "47 \<notin> set k" "v = [] \<or> hd v = 47" "levels t = k # (if v = [] then [] else levels (tl v))"
    by (rule first_level)
  then have pl: "plain k" "35 \<notin> set v" "43 \<notin> set v" using more(4) by (auto simp: plain_def)
  have IH: "rest_match True s (tl v) \<longleftrightarrow> code_match False (levels s) (levels (tl v))" if "v \<noteq> []"
    using more(2)[of "tl v"] more(1,3) pl by (cases v) (auto simp: plain_def)
  consider "l = [43]" | "plain l" using more(1,3) by auto
  then show ?case
  proof cases
    case 1
    show ?thesis using rest_match_any[OF t(2) pl(1) _ t(3), of "47 # s" True] 1 t IH more(1) code_match_flag[of "levels (tl v)" True "levels s" False]
      by (cases v) (auto simp: code_match_end)
  next
    case 2
    then show ?thesis using rest_match_plain[OF 2 more(1) t(2) pl(1) _ t(3) pl(2,3), of "47 # s"] more(1) t IH code_match_flag[of "levels (tl v)" "l = [43]" "levels s" False]
      by (cases v) (auto simp: plain_def levels_hash code_match_end)
  qed
qed

lemma code_match_spec:
  assumes "filter_ok fs" "fs \<noteq> []"
  shows "code_match (q = [43]) fs ts \<longleftrightarrow> level_match fs ts \<and> \<not> parent_missed (q # fs) (x # ts)"
  using assms
proof (induction fs arbitrary: q x ts)
  case (Cons f fs)
  show ?case
  proof (cases "fs = []")
    case True
    then show ?thesis by (cases ts) (auto simp: parent_missed_def)
  next
    case False
    then have "parent_missed (q # f # fs) (x # ts) \<longleftrightarrow> ts \<noteq> [] \<and> parent_missed (f # fs) ts"
      by (cases fs) (auto simp: parent_missed_def)
    then show ?thesis using Cons False by (cases ts) auto
  qed
qed simp

lemma parent_missed_first: "ts \<noteq> [] \<Longrightarrow> parent_missed (f # fs) (t # ts) \<longleftrightarrow> parent_missed fs ts"
  by (cases fs; cases "tl fs") (auto simp: parent_missed_def)

text \<open>A filter without a wildcard at the start has the first character of the topic.\<close>

lemma level_match_first:
  assumes "sub \<noteq> []" "tpc \<noteq> []" "level_match (levels sub) (levels tpc)"
  shows "char_at sub 0 = 43 \<or> char_at sub 0 = 35 \<or> char_at sub 0 = char_at tpc 0"
  using assms by (cases sub; cases tpc) (auto simp: char_at_0 split: if_splits list.splits)

text \<open>C29. The match of a topic against a filter, which walks over both strings by position, is the match of MQTT on their levels, for all
  filters and topics that the checks of the code accept: \<open>+\<close> stands for one level, \<open>#\<close> for the rest and the level in front of it, and a filter that begins
  with a wildcard does not match a topic that begins with \<open>$\<close>. The one difference is a filter that ends with \<open>+\<close> and \<open>#\<close> and a topic that ends
  with the level of \<open>+\<close>, which does not match.\<close>

theorem topic_matching:
  assumes "sub \<noteq> []" "tpc \<noteq> []" "0 \<notin> set sub" "0 \<notin> set tpc"
    "mosquitto_sub_topic_check sub = MOSQ_ERR_SUCCESS" "mosquitto_pub_topic_check tpc = MOSQ_ERR_SUCCESS"
  shows "mosquitto_topic_matches_sub sub tpc =
    (MOSQ_ERR_SUCCESS, Some (topic_match sub tpc \<and> \<not> parent_missed (levels sub) (levels tpc)))"
proof -
  have ok: "filter_ok (levels sub)" using assms(5) unfolding mosquitto_sub_topic_check_levels[OF assms(3)] by simp
  have pl: "plain tpc" using assms(6) by (rule pub_topic_check_plain)
  have "rest_match True sub tpc \<longleftrightarrow> level_match (levels sub) (levels tpc) \<and> \<not> parent_missed (levels sub) (levels tpc)"
    unfolding rest_match_levels[OF ok pl] using code_match_spec[OF ok, of "[]" "levels tpc" "[]"]
    by (simp add: parent_missed_first)
  then have "matches_loop sub tpc 0 0 = (MOSQ_ERR_SUCCESS, Some (level_match (levels sub) (levels tpc) \<and> \<not> parent_missed (levels sub) (levels tpc)))"
    using matches_loop_rest[OF assms(3,4), of 0 0] pl assms(1,2) ok good_levels[OF assms(3), of 0] rest_match_flag[of sub tpc True]
    by (auto simp: plain_def)
  then show ?thesis
    using level_match_first[OF assms(1,2)] assms(1,2) by (auto simp: mosquitto_topic_matches_sub_def topic_match_def)
qed

lemma topic_matching_witness:
  "mosquitto_topic_matches_sub [97, 47, 43, 47, 35] [97, 47, 98, 47, 99] = (MOSQ_ERR_SUCCESS, Some True) \<and>
   mosquitto_topic_matches_sub [97, 47, 35] [97] = (MOSQ_ERR_SUCCESS, Some True)"
proof -
  have ok: "mosquitto_sub_topic_check [97, 47, 43, 47, 35] = MOSQ_ERR_SUCCESS" "mosquitto_pub_topic_check [97, 47, 98, 47, 99] = MOSQ_ERR_SUCCESS"
    "mosquitto_sub_topic_check [97, 47, 35] = MOSQ_ERR_SUCCESS" "mosquitto_pub_topic_check [97] = MOSQ_ERR_SUCCESS"
    by (simp_all add: mosquitto_sub_topic_check_def mosquitto_pub_topic_check_def sub_topic_loop.simps)
  show ?thesis
    using topic_matching[OF _ _ _ _ ok(1,2)] topic_matching[OF _ _ _ _ ok(3,4)]
    by (simp add: topic_match_def char_at_def parent_missed_def)
qed

text \<open>The filter \<open>+/#\<close> includes the level of \<open>+\<close> itself, but the code does not match \<open>a\<close> with it.\<close>

lemma parent_not_matched:
  "mosquitto_topic_matches_sub [43, 47, 35] [97] = (MOSQ_ERR_SUCCESS, Some False)" "topic_match [43, 47, 35] [97]"
  by (simp_all add: mosquitto_topic_matches_sub_def char_at_def matches_loop.simps skip_level.simps topic_match_def)

section \<open>The split into levels\<close>

definition entry :: "u8 list \<Rightarrow> u8 list option" where
  "entry l = (if l = [] then None else Some l)"

lemma hier_loop_levels: "hier_loop s i n = n + length (levels (drop i s)) - 1"
proof (induction s i n rule: hier_loop.induct)
  case (1 s i n)
  show ?case
  proof (cases "i < length s")
    case True
    have "levels (drop (i + 1) s) \<noteq> []" by simp
    then show ?thesis using 1[OF True] True by (subst hier_loop.simps) (auto simp: char_at_drop neq_Nil_conv)
  next
    case False
    then show ?thesis by (subst hier_loop.simps) simp
  qed
qed

lemma token_loop_skip:
  assumes "drop i s = l @ r" "47 \<notin> set l" "0 \<notin> set s"
  shows "token_loop mem s start hier i topics = token_loop mem s start hier (i + length l) topics"
  using assms(1,2)
proof (induction l arbitrary: i)
  case (Cons c l)
  then have d: "drop i s = c # (l @ r)" by simp
  note A = ahead[OF d assms(3)]
  have "token_loop mem s start hier i topics = token_loop mem s start hier (i + 1) topics"
    using A(1,2,9) Cons(3) by (subst token_loop.simps) simp
  then show ?case using Cons(1)[of "i + 1"] Cons(3) A(3) by simp
qed simp

lemma token_loop_level:
  assumes "drop start s = l @ u" "47 \<notin> set l" "u = [] \<or> hd u = 47" "0 \<notin> set s" "mem hier" "hier < length topics" "topics ! hier = None"
    "start \<le> length s"
  shows "token_loop mem s start hier start topics =
    token_loop mem s (start + length l + 1) (hier + 1) (start + length l + 1) (topics[hier := entry l])"
proof -
  let ?i = "start + length l"
  have u: "drop ?i s = u" using assms(1) by (metis append_eq_conv_conj drop_drop add.commute)
  have n: "length s = ?i + length u" using assms(1,8) by (metis length_append length_drop le_add_diff_inverse add.assoc)
  have c: "char_at s ?i = 47 \<or> char_at s ?i = 0"
  proof (cases u)
    case (Cons c r)
    then show ?thesis using u n assms(3) char_at_add[of s ?i 0] by (simp add: char_at_def)
  qed (simp add: char_at_end n)
  have "l = map (char_at s) [start..<?i]"
  proof (rule nth_equalityI)
    fix k assume "k < length l"
    then have "l ! k = drop start s ! k" using assms(1) by (simp add: nth_append)
    then show "l ! k = map (char_at s) [start..<?i] ! k" using \<open>k < length l\<close> n by (simp add: char_at_def)
  qed simp
  moreover have "topics[hier := None] = topics" using assms(7) list_update_id[of topics hier] by simp
  ultimately show ?thesis
    unfolding token_loop_skip[OF assms(1,2,4)] using c n assms(5)
    by (subst token_loop.simps) (auto simp: entry_def)
qed

lemma token_loop_levels:
  assumes "0 \<notin> set s"
  shows "drop start s = x \<Longrightarrow> start \<le> length s \<Longrightarrow>
    token_loop (\<lambda>k. True) s start (length ds) start (ds @ replicate (length (levels x)) None) = Some (ds @ map entry (levels x))"
proof (induction x arbitrary: start ds rule: levels_induct)
  case (one l)
  have "length s = start + length l" using one(2,3) by auto
  then have "token_loop (\<lambda>k. True) s (start + length l + 1) (length ds + 1) (start + length l + 1) (ds @ [entry l]) = Some (ds @ [entry l])"
    by (subst token_loop.simps) simp
  then show ?case
    using token_loop_level[of start s l "[]" "\<lambda>k. True" "length ds" "ds @ [None]"] one assms by simp
next
  case (more l r)
  have r: "drop (start + length l + 1) s = r" "start + length l + 1 \<le> length s"
    using more(3) by (metis append_eq_conv_conj drop_drop add.commute drop_Suc_Cons drop0 Suc_eq_plus1)
      (use more(3,4) in \<open>auto dest!: arg_cong[where f = length]\<close>)
  then show ?case
    using token_loop_level[of start s l "47 # r" "\<lambda>k. True" "length ds" "ds @ None # replicate (length (levels r)) None"]
      more(2)[OF r, of "ds @ [entry l]"] more(1,3,4) assms by simp
qed

theorem tokenise_levels:
  assumes "0 \<notin> set s"
  shows "mosquitto_sub_topic_tokenise True (\<lambda>k. True) s = Inr (map entry (levels s))"
  using token_loop_levels[OF assms, of 0 s "[]"] by (simp add: mosquitto_sub_topic_tokenise_def hier_loop_levels)

end
