(* ===== verification/Mqtt_Link_Props.thy ===== *)
theory Mqtt_Link_Props
  imports Mqtt_Link Mqtt_Topic
begin

text \<open>
  The client on its connection as a system of events: whatever arrives, is called or runs out, it does to its session what the events of the session
  do. A silent broker is noticed.
\<close>

section \<open>Events\<close>

datatype link_event = Incoming "nat \<Rightarrow> bool" bool u64 mosq_packet | Send_publish "nat \<Rightarrow> bool" u64 "u8 list option" "u8 list" int bool
  | Round bool int | New_connection int int bool | Subscribe_to "u8 list" u8 | Unsubscribe_from "u8 list" | Send_disconnect | Ping_due int
  | Send_message bool bool u64 "u8 list option" "u8 list"

fun handle_link :: "link_cfg \<Rightarrow> link_event \<Rightarrow> mosq_link \<Rightarrow> (int \<times> mosq_link) option" where
  "handle_link c (Incoming mem mem1 now p) l = mosquitto_packet_handle c mem mem1 now p l"
| "handle_link c (Send_publish mem now tpc pay q r) l = on_session c (handle_event (l_cfg c) (Publish mem now tpc pay q r)) l"
| "handle_link c (Round linked now) l = mosquitto_loop c linked now l"
| "handle_link c (New_connection now conn kept) l = mosquitto_reconnect c now conn kept l"
| "handle_link c (Subscribe_to tpc q) l = mosquitto_subscribe c tpc q l"
| "handle_link c (Unsubscribe_from tpc) l = mosquitto_unsubscribe c tpc l"
| "handle_link c Send_disconnect l = mosquitto_disconnect c l"
| "handle_link c (Send_message mem_t mem_m now topc msg) l = mqtt_client_send_message c mem_t mem_m now topc msg l"
| "handle_link c (Ping_due now) l = map_option (Pair 0) (mosquitto_pingreq_timer_func c now l)"

text \<open>The event of the session in it, if there is one that matters to the messages.\<close>

definition packet_event :: "(nat \<Rightarrow> bool) \<Rightarrow> u64 \<Rightarrow> mosq_packet \<Rightarrow> client_event option" where
  "packet_event mem now p = (let command = pk_command p AND 0xF0 in
     if command = PUBACK \<or> command = PUBCOMP then Some (Rx_ack p)
     else if command = PUBLISH then Some (Rx_publish mem now p)
     else if command = PUBREC then Some (Rx_pubrec now p)
     else if command = PUBREL then Some (Rx_pubrel p) else None)"

fun session_event :: "link_event \<Rightarrow> client_event option" where
  "session_event (Incoming mem mem1 now p) = packet_event mem now p"
| "session_event (Send_publish mem now tpc pay q r) = Some (Publish mem now tpc pay q r)"
| "session_event x = None"

text \<open>The topic that the application publishes with has at most 64 characters.\<close>

fun topics_ok :: "link_event \<Rightarrow> mosq_link \<Rightarrow> bool" where
  "topics_ok (Round linked now) l = topic_fits l"
| "topics_ok (Send_message mem_t mem_m now topc msg) l = (\<forall>t. topc = Some t \<or> topc = None \<and> mpub_topic l = Some t \<longrightarrow> length t \<le> 64)"
| "topics_ok x l = True"

text \<open>
  The broker is as in the session, the callbacks of a write do not publish or subscribe, and the data of the CONNECT packet have lengths that the packet
  can express.
\<close>

definition link_ok :: "link_cfg \<Rightarrow> link_event \<Rightarrow> mosq_link \<Rightarrow> bool" where
  "link_ok c x l \<longleftrightarrow> (case session_event x of None \<Rightarrow> True | Some e \<Rightarrow> event_ok (l_cfg c) e (sess l)) \<and> topics_ok x l \<and> calm (l_wire c) \<and>
     args_ok (l_connect c) \<and> c_protocol (l_connect c) \<in> {mosq_p_mqtt31, mosq_p_mqtt311}"

definition link_held :: "link_cfg \<Rightarrow> link_event \<Rightarrow> held \<Rightarrow> held" where
  "link_held c x M = (case session_event x of None \<Rightarrow> M | Some e \<Rightarrow> held_after (l_cfg c) e M)"

definition link_handed :: "link_cfg \<Rightarrow> link_event \<Rightarrow> held \<Rightarrow> (u8 list \<times> u8 list) list" where
  "link_handed c x M = (case session_event x of None \<Rightarrow> [] | Some e \<Rightarrow> handed_on (l_cfg c) e M)"

section \<open>Steps that do not touch the messages\<close>

definition link_keeps :: "mosq_link \<Rightarrow> mosq_link \<Rightarrow> bool" where
  "link_keeps l l' \<longleftrightarrow> (sess_ok (sess l) \<longrightarrow> sess_ok (sess l')) \<and> pending (sess l') = pending (sess l) \<and>
     messages_in (trace (sess l')) = messages_in (trace (sess l))"

lemma keeps_trans: "link_keeps l l' \<Longrightarrow> link_keeps l' l'' \<Longrightarrow> link_keeps l l''" by (simp add: link_keeps_def)

lemma keeps_sess: "sess l' = sess l \<Longrightarrow> link_keeps l l'" by (simp add: link_keeps_def)

lemma keeps_notify: "(\<And>a b. x \<noteq> On_message a b) \<Longrightarrow> link_keeps l (notify x l)"
  by (auto simp: link_keeps_def notify_def sess_ok_def pending_def split: effect.split)

lemma keeps_mid: "link_keeps l (snd (link_mid c l))"
proof -
  obtain m s where m: "mosquitto_mid_generate (cfg_layout (l_cfg c)) (cfg_dpm (l_cfg c)) (sess l) = (m, s)" by fastforce
  then have "client s = (client (sess l))\<lparr>last_mid := m\<rparr>" "trace s = trace (sess l)"
    by (auto simp: mosquitto_mid_generate_def Let_def split: prod.splits)
  then show ?thesis
    using window_other[of "client s" "client (sess l)"] in_other[of "client s" "client (sess l)"]
    by (simp add: link_mid_def m link_keeps_def sess_ok_def pending_def)
qed

lemma link_send_keeps:
  assumes "calm (l_wire c)" "\<And>m1 m2 junk. send m1 m2 junk \<noteq> None" "\<And>l. link_keeps l (g l)"
  shows "\<exists>rc l'. link_send c send g l = Some (rc, l') \<and> link_keeps l l'"
proof -
  let ?e = "cfg_env (l_cfg c)" and ?k = "tx_count (sess l)"
  let ?l = "l\<lparr>sess := (sess l)\<lparr>tx_count := ?k + 1\<rparr>\<rparr>"
  have k: "link_keeps l ?l" by (simp add: link_keeps_def sess_ok_def pending_def)
  obtain r where r: "send (tx_mem1 ?e ?k) (tx_mem2 ?e ?k) (tx_junk ?e ?k) = Some r" using assms(2) by blast
  show ?thesis
  proof (cases r)
    case (Inl rc)
    then show ?thesis using r k by (simp add: link_send_def Let_def)
  next
    case (Inr p)
    obtain rc n where q: "mosquitto_packet_queue (l_wire c) p (net (g ?l)) = Some (rc, n)" using packet_queue_link[OF assms(1)] by blast
    have "link_keeps (g ?l) ((g ?l)\<lparr>sess := emit (Queued p) (sess (g ?l)), net := n\<rparr>)" by (simp add: link_keeps_def sess_ok_def pending_def)
    then show ?thesis using r Inr q keeps_trans[OF k keeps_trans[OF assms(3)]] by (simp add: link_send_def Let_def)
  qed
qed

lemma sub_topic_check_length: "mosquitto_sub_topic_check s = MOSQ_ERR_SUCCESS \<Longrightarrow> length s < 65536"
  using sub_topic_loop_counts[of 0 0 s]
  by (auto simp: mosquitto_sub_topic_check_def MOSQ_ERR_SUCCESS_def MOSQ_ERR_INVAL_def split: option.splits if_splits)

lemma subscribe_keeps:
  assumes cm: "calm (l_wire c)"
  shows "\<exists>rc l'. mosquitto_subscribe c tpc q l = Some (rc, l') \<and> link_keeps l l'"
proof (cases "mosquitto_sub_topic_check tpc = MOSQ_ERR_SUCCESS")
  case True
  have "length tpc < 65536" using sub_topic_check_length[OF True] by simp
  then have "mosquitto_send_subscribe m1 m2 junk m tpc q \<noteq> None" for m1 m2 junk m by (simp add: send_subscribe sending_def)
  moreover have "link_keeps l ((snd (link_mid c l))\<lparr>net := n\<rparr>)" for l n
    using keeps_trans[OF keeps_mid keeps_sess, of "(snd (link_mid c l))\<lparr>net := n\<rparr>" c l] by simp
  ultimately show ?thesis using True unfolding mosquitto_subscribe_def send_subscribe_def by (auto simp: Let_def intro!: link_send_keeps[OF cm])
next
  case False
  then show ?thesis by (simp add: mosquitto_subscribe_def keeps_sess)
qed

lemma unsubscribe_keeps:
  assumes cm: "calm (l_wire c)"
  shows "\<exists>rc l'. mosquitto_unsubscribe c tpc l = Some (rc, l') \<and> link_keeps l l'"
proof (cases "mosquitto_sub_topic_check tpc = MOSQ_ERR_SUCCESS")
  case True
  have "length tpc < 65536" using sub_topic_check_length[OF True] by simp
  then have "mosquitto_send_unsubscribe m1 m2 junk m tpc \<noteq> None" for m1 m2 junk m by (simp add: send_unsubscribe sending_def)
  then show ?thesis using True unfolding mosquitto_unsubscribe_def send_unsubscribe_def by (auto intro!: link_send_keeps[OF cm] keeps_mid)
next
  case False
  then show ?thesis by (simp add: mosquitto_unsubscribe_def keeps_sess)
qed

lemma keeps_refl [simp]: "link_keeps l l" by (simp add: link_keeps_def)

lemma simple_keeps:
  assumes cm: "calm (l_wire c)"
  shows "\<exists>rc l'. link_send c mosquitto_send_pingreq id l = Some (rc, l') \<and> link_keeps l l'"
  "\<exists>rc l'. link_send c mosquitto_send_disconnect id l = Some (rc, l') \<and> link_keeps l l'"
  by (intro link_send_keeps[OF cm]; simp add: mosquitto_send_pingreq_def mosquitto_send_disconnect_def send_simple sending_def)+

lemma pingreq_keeps:
  assumes cm: "calm (l_wire c)"
  shows "\<exists>rc l'. send_pingreq c now l = Some (rc, l') \<and> link_keeps l l'"
proof -
  obtain rc l1 where l1: "link_send c mosquitto_send_pingreq id l = Some (rc, l1)" "link_keeps l l1" using simple_keeps(1)[OF cm] by blast
  have "link_keeps l (if rc = MOSQ_ERR_SUCCESS then l1\<lparr>ping_t := now\<rparr> else l1)" using l1(2) by (simp add: link_keeps_def)
  then show ?thesis by (simp add: send_pingreq_def l1(1))
qed

lemma sub_topics_keeps:
  assumes cm: "calm (l_wire c)"
  shows "\<exists>l'. sub_topics c ts l = Some l' \<and> link_keeps l l'"
proof (induction ts arbitrary: l)
  case (Cons t ts)
  obtain rc l1 where "mosquitto_subscribe c t (l_qos c) l = Some (rc, l1)" "link_keeps l l1" using subscribe_keeps[OF cm] by blast
  then show ?case using Cons[of l1] keeps_trans by fastforce
qed simp

lemma connection_done_keeps: "link_keeps l (connection_done dpm l)"
  unfolding connection_done_def mosquitto_pingreq_timer_register_def Let_def
  by (auto simp: link_keeps_def notify_def sess_ok_def pending_def)

lemma keeps_fields [simp]:
  "link_keeps l (l'\<lparr>net := n\<rparr>) = link_keeps l l'" "link_keeps l (l'\<lparr>connect_ind_sent := b\<rparr>) = link_keeps l l'" "link_keeps l (l'\<lparr>ping_t := t\<rparr>) = link_keeps l l'"
  "link_keeps l (l'\<lparr>last_msg_in := t\<rparr>) = link_keeps l l'" "link_keeps l (l'\<lparr>sock_open := b\<rparr>) = link_keeps l l'" "link_keeps l (l'\<lparr>unsub_topic := k\<rparr>) = link_keeps l l'"
  "link_keeps l (l'\<lparr>subPingStatus := s\<rparr>) = link_keeps l l'"
  by (simp_all add: link_keeps_def)

lemma notify_keeps [simp]: "(\<forall>a b. x \<noteq> On_message a b) \<Longrightarrow> link_keeps l (notify x l') = link_keeps l l'"
  by (auto simp: link_keeps_def notify_def sess_ok_def pending_def split: effect.split)

text \<open>A step that returns and keeps the messages.\<close>

definition fine :: "mosq_link \<Rightarrow> (int \<times> mosq_link) option \<Rightarrow> bool" where
  "fine l r \<longleftrightarrow> (case r of None \<Rightarrow> False | Some (rc, l') \<Rightarrow> link_keeps l l')"

lemma fineI: "\<exists>rc l'. r = Some (rc, l') \<and> link_keeps l l' \<Longrightarrow> fine l r" by (auto simp: fine_def)
lemma fineD: "fine l r \<Longrightarrow> \<exists>rc l'. r = Some (rc, l') \<and> link_keeps l l'" by (auto simp: fine_def split: option.splits)

lemma done_keeps: "link_keeps l l' \<Longrightarrow> link_keeps l (connection_done d l')" using keeps_trans connection_done_keeps by blast

lemma connack_keeps:
  assumes cm: "calm (l_wire c)"
  shows "fine l (mosquitto_handle_connack c p l)"
proof -
  have "\<exists>l1. (if sub_client (net l) then mqtt_sub_on_connect c r l else Some l) = Some l1 \<and> link_keeps l l1" for r
    using sub_topics_keeps[OF cm] by (auto simp: mqtt_sub_on_connect_def)
  then obtain f where f: "(if sub_client (net l) then mqtt_sub_on_connect c r l else Some l) = Some (f r)" "link_keeps l (f r)" for r by metis
  show ?thesis
    unfolding mosquitto_handle_connack_def f(1) using f(2) by (auto simp: fine_def Let_def done_keeps split: sum.split)
qed

lemma pingresp_keeps: "link_keeps l (snd (mosquitto_handle_pingresp c l))"
  by (simp add: mosquitto_handle_pingresp_def link_keeps_def notify_def sess_ok_def pending_def Let_def)

lemma suback_keeps: "link_keeps l (snd (mosquitto_handle_suback c mem p l))"
proof -
  have "link_keeps l (notify Dpm_sleep (connection_done d (l1\<lparr>subRetryCount := 0\<rparr>))) \<and> link_keeps l (connection_done d (l1\<lparr>subRetryCount := 0\<rparr>))"
    if "link_keeps l l1" for d l1
    using that connection_done_keeps[of "l1\<lparr>subRetryCount := 0\<rparr>" d] by (simp add: link_keeps_def notify_def sess_ok_def pending_def)
  moreover have "link_keeps l ((notify On_subscribe l)\<lparr>unsub_topic := k\<rparr>)" for k by (simp add: link_keeps_def notify_def sess_ok_def pending_def)
  ultimately show ?thesis by (simp add: mosquitto_handle_suback_def Let_def split: sum.split)
qed

lemma unsuback_keeps: "link_keeps l (snd (mosquitto_handle_unsuback p l))"
  by (auto simp: mosquitto_handle_unsuback_def link_keeps_def notify_def sess_ok_def pending_def split: sum.split)

lemma on_session_keeps:
  assumes cm: "calm (l_wire c)" and f: "f (sess l) = Some (rc, s)" "sess_ok (sess l) \<longrightarrow> sess_ok s" "pending s = pending (sess l)"
    "messages_in (trace s) = messages_in (trace (sess l))"
  shows "\<exists>l'. on_session c f l = Some (rc, l') \<and> link_keeps l l'"
  using on_session_done[OF cm, of f l rc s] f by (auto simp: link_keeps_def)

lemma retry_keeps:
  assumes "sess_ok (sess l)" "calm (l_wire c)"
  shows "\<exists>l'. on_session c (\<lambda>s. map_option (Pair 0) (loop_misc_retry (cfg_env (l_cfg c)) (word_of_int now) s)) l = Some (0, l') \<and>
    link_keeps l l' \<and> (topic_fits l' = topic_fits l)"
proof -
  obtain s' where "loop_misc_retry (cfg_env (l_cfg c)) (word_of_int now) (sess l) = Some s'" "sess_ok s'" "pending s' = pending (sess l)"
    "messages_in (trace s') = messages_in (trace (sess l))"
    using misc_spec[OF assms(1), of "cfg_env (l_cfg c)" "word_of_int now"] by blast
  then show ?thesis
    using on_session_done[OF assms(2), of "\<lambda>s. map_option (Pair 0) (loop_misc_retry (cfg_env (l_cfg c)) (word_of_int now) s)" l 0 s']
    by (auto simp: link_keeps_def topic_fits_def)
qed

lemma topic_fits_fields [simp]:
  "topic_fits (notify x l) = topic_fits l" "topic_fits (l\<lparr>sock_open := b\<rparr>) = topic_fits l" "topic_fits (l\<lparr>last_msg_in := t, net := n\<rparr>) = topic_fits l"
  by (simp_all add: topic_fits_def notify_def)

lemma check_keeps:
  assumes "calm (l_wire c)" "topic_fits l"
  shows "\<exists>l1. mosquitto_check_keepalive c now l = Some l1 \<and> link_keeps l l1 \<and> topic_fits l1"
proof -
  obtain rc lp where lp: "send_pingreq c now l = Some (rc, lp)" "link_keeps l lp" using pingreq_keeps[OF assms(1)] by blast
  moreover have "mpub_message_buf lp = mpub_message_buf l" "mpub_topic lp = mpub_topic l"
    using lp(1) by (auto simp: send_pingreq_def link_send_def Let_def split: option.splits sum.splits)
  ultimately have "topic_fits lp" using assms(2) by (simp add: topic_fits_def)
  then show ?thesis using lp assms(2) by (auto simp: mosquitto_check_keepalive_def Let_def mosquitto_socket_close_def)
qed

lemma my_publish_keeps:
  assumes "sess_ok (sess l)" "calm (l_wire c)" "topic_fits l"
  shows "\<exists>rc l'. my_publish c now l = Some (rc, l') \<and> link_keeps l l'"
  using my_publish_spec[OF assms, of now] unfolding link_keeps_def by blast

lemma send_message_keeps:
  assumes "sess_ok (sess l)" "calm (l_wire c)" "topics_ok (Send_message mem_t mem_m now topc msg) l"
  shows "fine l (mqtt_client_send_message c mem_t mem_m now topc msg l)"
proof -
  define l2 where "l2 = (notify Dpm_clear (case topc of None \<Rightarrow> l | Some t \<Rightarrow> l\<lparr>mpub_topic := (if mem_t then Some t else None)\<rparr>))
    \<lparr>mpub_message_buf := (if mem_m then Some msg else None)\<rparr>"
  have l2: "link_keeps l l2" "sess_ok (sess l2)" "topic_fits l2"
    using assms(1,3) by (auto simp: l2_def link_keeps_def notify_def sess_ok_def pending_def topic_fits_def emit_def split: option.splits)
  obtain rc l3 where l3: "(if cfg_dpm (l_cfg c) then my_publish c now l2 else Some (MOSQ_ERR_SUCCESS, l2)) = Some (rc, l3)" "link_keeps l l3"
    using my_publish_keeps[OF l2(2) assms(2) l2(3), of now] keeps_trans[OF l2(1)] l2(1) by (cases "cfg_dpm (l_cfg c)") auto
  show ?thesis unfolding mqtt_client_send_message_def Let_def l2_def[symmetric] l3(1) using l3(2) by (auto simp: fine_def)
qed

lemma loop_keeps:
  assumes "sess_ok (sess l)" "calm (l_wire c)" "topic_fits l"
  shows "fine l (mosquitto_loop c linked now l)"
proof -
  obtain l1 where l1: "mosquitto_check_keepalive c now l = Some l1" "link_keeps l l1" "topic_fits l1"
    using check_keeps[OF assms(2,3)] by blast
  have "sess_ok (sess l1)" using l1(2) assms(1) by (simp add: link_keeps_def)
  then obtain l2 where l2: "on_session c (\<lambda>s. map_option (Pair 0) (loop_misc_retry (cfg_env (l_cfg c)) (word_of_int now) s)) l1 = Some (0, l2)"
    "link_keeps l1 l2" "topic_fits l2" using retry_keeps assms(2) l1(3) by blast
  have k2: "link_keeps l l2" by (rule keeps_trans[OF l1(2) l2(2)])
  let ?lost = "ping_t l2 \<noteq> 0 \<and> now - ping_t l2 \<ge> uint (keepalive (net l2))"
  define l3 where "l3 = (if ?lost then notify On_disconnect (mosquitto_socket_close l2) else l2)"
  have "mosquitto_loop_misc c now l = Some (if ?lost then MOSQ_ERR_CONN_LOST else MOSQ_ERR_SUCCESS, l3)"
    by (simp add: mosquitto_loop_misc_def l1(1) l2(1) l3_def)
  moreover have "link_keeps l l3" "topic_fits l3" using k2 l2(3) by (auto simp: l3_def mosquitto_socket_close_def)
  ultimately obtain rc where l3: "mosquitto_loop_misc c now l = Some (rc, l3)" "link_keeps l l3" "topic_fits l3" by blast
  then obtain rc' l4 where "my_publish c (word_of_int now) l3 = Some (rc', l4)" "link_keeps l l4"
    using my_publish_keeps[OF _ assms(2)] assms(1) keeps_trans by (metis link_keeps_def)
  then show ?thesis using l3 by (auto simp: mosquitto_loop_def Let_def fine_def)
qed

lemma reconnect_keeps:
  assumes "sess_ok (sess l)" "args_ok (l_connect c)" "c_protocol (l_connect c) \<in> {mosq_p_mqtt31, mosq_p_mqtt311}" and cm: "calm (l_wire c)"
  shows "fine l (mosquitto_reconnect c now conn kept l)"
proof -
  define l1 where "l1 = l\<lparr>net := (reconnect_packets ((net l)\<lparr>cs := mosq_cs_new, next_msg_out := now + uint (keepalive (net l))\<rparr>))\<lparr>wire := [], calls := [], entered := []\<rparr>,
      last_msg_in := now, ping_t := 0\<rparr>"
  obtain s' where s': "mosquitto_messages_reconnect_reset (sess l) = Some s'" "sess_ok s'" "pending s' = pending (sess l)" "trace s' = trace (sess l)"
    using reconnect_spec[OF assms(1)] by blast
  let ?r = "on_session c (\<lambda>s. map_option (Pair 0) (mosquitto_messages_reconnect_reset s)) l1"
  obtain l2 where l2: "?r = Some (0, l2)" "link_keeps l l2"
    using on_session_done[OF cm, of "\<lambda>s. map_option (Pair 0) (mosquitto_messages_reconnect_reset s)" l1 0 s'] s' by (auto simp: l1_def link_keeps_def)
  have send: "the (mosquitto_send_connect False m1 m2 junk k clean (l_connect c)) \<noteq> None" for m1 m2 junk k clean
    unfolding send_connect[OF assms(2,3)] by (simp add: sending_def)
  let ?l3 = "l2\<lparr>sock_open := True\<rparr>"
  have "\<exists>rc l4. link_send c (\<lambda>m1 m2 junk. the (mosquitto_send_connect False m1 m2 junk (keepalive (net ?l3))
      (clean_session (client (sess ?l3))) (l_connect c))) id ?l3 = Some (rc, l4) \<and> link_keeps ?l3 l4"
    by (rule link_send_keeps[OF cm], rule send, simp)
  then obtain rc l4 where l4: "link_send c (\<lambda>m1 m2 junk. the (mosquitto_send_connect False m1 m2 junk (keepalive (net ?l3))
      (clean_session (client (sess ?l3))) (l_connect c))) id ?l3 = Some (rc, l4)" "link_keeps ?l3 l4" by blast
  have "link_keeps l l4" using keeps_trans[of l ?l3 l4] l2(2) l4(2) by simp
  then show ?thesis
    unfolding mosquitto_reconnect_def Let_def l1_def[symmetric] l2(1) option.case prod.case l4(1) using l2(2) by (simp add: fine_def)
qed

section \<open>The system\<close>

lemma on_session_step:
  assumes "sess_ok (sess l)" "event_ok (l_cfg c) e (sess l)" and cm: "calm (l_wire c)"
  shows "\<exists>rc l'. on_session c (handle_event (l_cfg c) e) l = Some (rc, l') \<and> sess_ok (sess l') \<and>
    map_of (pending (sess l')) = held_after (l_cfg c) e (map_of (pending (sess l))) \<and>
    messages_in (trace (sess l')) = messages_in (trace (sess l)) @ handed_on (l_cfg c) e (map_of (pending (sess l)))"
  using event_step[OF assms(1,2)] on_session_done[OF cm, of "handle_event (l_cfg c) e" l] by fastforce

lemmas command_codes = PINGREQ_def PINGRESP_def PUBACK_def PUBCOMP_def PUBLISH_def PUBREC_def PUBREL_def CONNACK_def SUBACK_def UNSUBACK_def

lemma pingreq_packet_keeps:
  assumes cm: "calm (l_wire c)"
  shows "\<exists>rc l'. on_session c (mosquitto_handle_pingreq e) l = Some (rc, l') \<and> link_keeps l l'"
proof -
  obtain rc s' where t: "transmit e mosquitto_send_pingresp (sess l) = Some (rc, s')" "quiet (sess l) s'" using transmit_mid(5) by blast
  then show ?thesis using quietD(1)[OF t(2)] quiet_trace(1)[OF t(2)] on_session_keeps[OF cm, of "mosquitto_handle_pingreq e" l rc s']
    by (auto simp: mosquitto_handle_pingreq_def sess_ok_def pending_def)
qed

lemma packet_step:
  assumes s: "sess_ok (sess l)" and ok: "link_ok c (Incoming mem mem1 now p) l"
  shows "\<exists>rc l'. mosquitto_packet_handle c mem mem1 now p l = Some (rc, l') \<and> sess_ok (sess l') \<and>
    map_of (pending (sess l')) = link_held c (Incoming mem mem1 now p) (map_of (pending (sess l))) \<and>
    messages_in (trace (sess l')) = messages_in (trace (sess l)) @ link_handed c (Incoming mem mem1 now p) (map_of (pending (sess l)))"
proof (cases "packet_event mem now p")
  case (Some e)
  have h: "mosquitto_packet_handle c mem mem1 now p l = on_session c (handle_event (l_cfg c) e) l"
    using Some by (auto simp: packet_event_def mosquitto_packet_handle_def Let_def handle_event.simps[abs_def] command_codes split: if_splits)
  have "event_ok (l_cfg c) e (sess l)" "calm (l_wire c)" using ok Some by (simp_all add: link_ok_def)
  then show ?thesis using on_session_step[OF s] Some by (simp add: h link_held_def link_handed_def)
next
  case None
  have other: "\<not> (pk_command p AND 0xF0 = PUBACK \<or> pk_command p AND 0xF0 = PUBCOMP)" "pk_command p AND 0xF0 \<noteq> PUBLISH"
    "pk_command p AND 0xF0 \<noteq> PUBREC" "pk_command p AND 0xF0 \<noteq> PUBREL"
    using None by (auto simp: packet_event_def Let_def split: if_splits)
  have cm: "calm (l_wire c)" using ok by (simp add: link_ok_def)
  have f: "fine l (on_session c (mosquitto_handle_pingreq e) l)" "fine l (Some (mosquitto_handle_pingresp c l))"
    "fine l (Some (mosquitto_handle_suback c mem1 p l))" "fine l (Some (mosquitto_handle_unsuback p l))" "fine l (Some (rc, l))" for e rc
    using fineI[OF pingreq_packet_keeps[OF cm]] pingresp_keeps suback_keeps unsuback_keeps by (simp_all add: fine_def case_prod_beta)
  have "fine l (mosquitto_packet_handle c mem mem1 now p l)"
    unfolding mosquitto_packet_handle_def Let_def if_not_P[OF other(1)] if_not_P[OF other(2)] if_not_P[OF other(3)] if_not_P[OF other(4)]
    using f connack_keeps[OF cm] by simp
  then show ?thesis using s None by (auto simp: fine_def link_keeps_def link_held_def link_handed_def split: option.splits)
qed

lemma link_step:
  assumes s: "sess_ok (sess l)" and ok: "link_ok c x l"
  shows "\<exists>rc l'. handle_link c x l = Some (rc, l') \<and> sess_ok (sess l') \<and>
    map_of (pending (sess l')) = link_held c x (map_of (pending (sess l))) \<and>
    messages_in (trace (sess l')) = messages_in (trace (sess l)) @ link_handed c x (map_of (pending (sess l)))"
proof -
  have still: ?thesis if "session_event x = None" "fine l (handle_link c x l)"
    using s that by (auto simp: fine_def link_keeps_def link_held_def link_handed_def split: option.splits)
  have cm: "calm (l_wire c)" using ok by (simp add: link_ok_def)
  show ?thesis
  proof (cases x)
    case (Incoming mem mem1 now p)
    then show ?thesis using packet_step[OF s] ok by simp
  next
    case (Send_publish mem now tpc pay q r)
    then show ?thesis using on_session_step[OF s _ cm, of "Publish mem now tpc pay q r"] ok by (simp add: link_ok_def link_held_def link_handed_def)
  next
    case (Round linked now)
    then show ?thesis using loop_keeps[OF s cm] ok by (intro still) (simp_all add: link_ok_def)
  next
    case (New_connection now conn kept)
    then show ?thesis using reconnect_keeps[OF s _ _ cm] ok by (intro still) (simp_all add: link_ok_def)
  next
    case (Subscribe_to tpc q)
    then show ?thesis using subscribe_keeps[OF cm] by (intro still fineI) simp_all
  next
    case (Unsubscribe_from tpc)
    then show ?thesis using unsubscribe_keeps[OF cm] by (intro still fineI) simp_all
  next
    case Send_disconnect
    let ?l = "l\<lparr>net := (net l)\<lparr>cs := mosq_cs_disconnecting\<rparr>\<rparr>"
    obtain rc l' where "link_send c mosquitto_send_disconnect id ?l = Some (rc, l')" "link_keeps ?l l'" using simple_keeps(2)[OF cm] by blast
    moreover from this have "link_keeps l l'" using keeps_trans[of l ?l l'] by simp
    ultimately show ?thesis using Send_disconnect by (intro still) (simp_all add: mosquitto_disconnect_def Let_def fine_def)
  next
    case (Send_message mem_t mem_m now topc msg)
    then show ?thesis using send_message_keeps[OF s cm] ok by (intro still) (simp_all add: link_ok_def)
  next
    case (Ping_due now)
    let ?l = "notify Dpm_clear (if sub_client (net l) then l\<lparr>subPingStatus := PING_STS_SENT\<rparr> else l)"
    obtain rc l' where "send_pingreq c now ?l = Some (rc, l')" "link_keeps ?l l'" using pingreq_keeps[OF cm] by blast
    moreover from this have "link_keeps l l'" using keeps_trans[of l ?l l'] by simp
    ultimately show ?thesis using Ping_due by (intro still) (simp_all add: mosquitto_pingreq_timer_func_def fine_def)
  qed
qed

interpretation mq_link: event_system "handle_link c" "link_ok c" "\<lambda>l. sess_ok (sess l)" "\<lambda>l. map_of (pending (sess l))"
  "\<lambda>l. messages_in (trace (sess l))" "link_held c" "link_handed c" for c
  by unfold_locales (rule link_step)

end
