(* ===== verification/Mqtt_Sleep.thy ===== *)
theory Mqtt_Sleep
  imports Mqtt_Claims
begin

text \<open>
  The properties of the table of preserved messages, a packed layout of the table that they can be run with, and what the code does where
  it differs from what it means.
\<close>

section \<open>A packed layout\<close>

primrec le :: "nat \<Rightarrow> int \<Rightarrow> u8 list" where
  "le 0 x = []"
| "le (Suc n) x = word_of_int x # le n (x div 256)"

fun un_le :: "u8 list \<Rightarrow> int" where
  "un_le [] = 0"
| "un_le (b # bs) = uint b + 256 * un_le bs"

lemma length_le [simp]: "length (le n x) = n"
  by (induction n arbitrary: x) simp_all

lemma un_le_le: "un_le (le n x) = x mod 256 ^ n"
proof (induction n arbitrary: x)
  case (Suc n)
  have "un_le (le (Suc n) x) = x mod 256 + 256 * (x div 256 mod 256 ^ n)"
    by (simp add: Suc unsigned_of_int take_bit_eq_mod)
  also have "\<dots> = x mod 256 ^ Suc n" using mod_mult2_eq'[of x 256 "256 ^ n"] by simp
  finally show ?case .
qed simp

lemma un_le_small: "0 \<le> x \<Longrightarrow> x < 256 ^ n \<Longrightarrow> un_le (le n x) = x"
  by (simp add: un_le_le)

definition states :: "mosquitto_msg_state list" where
  "states = [mosq_ms_invalid, mosq_ms_publish_qos0, mosq_ms_publish_qos1, mosq_ms_wait_for_puback, mosq_ms_publish_qos2,
     mosq_ms_wait_for_pubrec, mosq_ms_resend_pubrel, mosq_ms_wait_for_pubrel, mosq_ms_resend_pubcomp, mosq_ms_wait_for_pubcomp,
     mosq_ms_send_pubrec, mosq_ms_queued]"

definition state_code :: "mosquitto_msg_state \<Rightarrow> nat" where
  "state_code st = length (takeWhile (\<lambda>x. x \<noteq> st) states)"

lemma state_code: "state_code st < 12" "states ! state_code st = st"
  by (cases st; simp add: state_code_def states_def)+

definition row_bytes :: "mq_msg_tbl_row_t \<Rightarrow> u8 list" where
  "row_bytes r = le 2 (uint (mid r)) @ row_payload r @ le 4 (payload_len r) @ topic r @ le 4 (topic_len r) @ le 4 (qos r) @
     [of_nat (state_code (row_state r)), if dir r = mosq_md_in then 0 else 1] @ le 8 (uint (timestamp r)) @
     [if dup r then 1 else 0, if retain r then 1 else 0, is_valid r]"

definition row_of_bytes :: "u8 list \<Rightarrow> mq_msg_tbl_row_t" where
  "row_of_bytes bs = \<lparr>mid = word_of_int (un_le (take 2 bs)), row_payload = take 101 (drop 2 bs),
     payload_len = un_le (take 4 (drop 103 bs)), topic = take 65 (drop 107 bs), topic_len = un_le (take 4 (drop 172 bs)),
     qos = un_le (take 4 (drop 176 bs)), row_state = states ! unat (bs ! 180),
     dir = (if bs ! 181 = 0 then mosq_md_in else mosq_md_out),
     timestamp = word_of_int (un_le (take 8 (drop 182 bs))), dup = (bs ! 190 = 1), retain = (bs ! 191 = 1), is_valid = bs ! 192\<rparr>"

lemma row_roundtrip:
  assumes "row_ok r"
  shows "length (row_bytes r) = 193" "row_of_bytes (row_bytes r @ bs) = r"
proof -
  have l: "length (row_payload r) = 101" "length (topic r) = 65" using assms by (simp_all add: row_ok_def)
  then show "length (row_bytes r) = 193" by (simp add: row_bytes_def)
  have st: "strlen (topic r) \<le> 65" using l(2) length_takeWhile_le[of "\<lambda>c. c \<noteq> 0" "topic r"] by (simp add: strlen_def)
  have b: "un_le (le 4 (payload_len r)) = payload_len r" "un_le (le 4 (topic_len r)) = topic_len r" "un_le (le 4 (qos r)) = qos r"
    using assms st by (auto intro!: un_le_small simp: row_ok_def)
  have w: "un_le (le 2 (uint (mid r))) = uint (mid r)" "un_le (le 8 (uint (timestamp r))) = uint (timestamp r)"
    using uint_bounded[of "mid r"] uint_bounded[of "timestamp r"] by (auto intro!: un_le_small)
  have s: "unat (of_nat (state_code (row_state r)) :: u8) = state_code (row_state r)"
    using state_code(1)[of "row_state r"] by (simp add: unsigned_of_nat take_bit_nat_eq_self)
  have d: "(if (if dir r = mosq_md_in then 0 else 1) = (0 :: u8) then mosq_md_in else mosq_md_out) = dir r" by (cases "dir r") simp_all
  show "row_of_bytes (row_bytes r @ bs) = r"
    using l unfolding row_of_bytes_def row_bytes_def by (simp add: b w s d state_code(2) nth_append)
qed

definition packed_bytes :: "mq_msg_tbl_presvd_t \<Rightarrow> u8 list" where
  "packed_bytes t = le 4 (uint (magic_code t)) @ le 4 (total_rx_msg_cnt t) @ le 4 (total_tx_msg_cnt t) @
     le 8 (uint (last_retry_chk_time t)) @ le 2 (uint (last_tx_mid_used t)) @ concat (map row_bytes (tbl_row t))"

fun rows_of_bytes :: "nat \<Rightarrow> u8 list \<Rightarrow> mq_msg_tbl_row_t list" where
  "rows_of_bytes 0 bs = []"
| "rows_of_bytes (Suc n) bs = row_of_bytes bs # rows_of_bytes n (drop 193 bs)"

definition table_of_packed :: "u8 list \<Rightarrow> mq_msg_tbl_presvd_t" where
  "table_of_packed bs = \<lparr>magic_code = word_of_int (un_le (take 4 bs)), total_rx_msg_cnt = un_le (take 4 (drop 4 bs)),
     total_tx_msg_cnt = un_le (take 4 (drop 8 bs)), last_retry_chk_time = word_of_int (un_le (take 8 (drop 12 bs))),
     last_tx_mid_used = word_of_int (un_le (take 2 (drop 20 bs))), tbl_row = rows_of_bytes 10 (drop 22 bs)\<rparr>"

definition packed :: mq_layout where
  "packed = \<lparr>sizeof_tbl = 1952, tbl_bytes = packed_bytes, tbl_of_bytes = table_of_packed\<rparr>"

lemma rows_roundtrip:
  assumes "\<forall>r \<in> set rs. row_ok r"
  shows "length (concat (map row_bytes rs)) = 193 * length rs" "rows_of_bytes (length rs) (concat (map row_bytes rs)) = rs"
  using assms by (induction rs) (simp_all add: row_roundtrip)

lemma packed_ok: "layout_ok packed"
proof -
  have "length (packed_bytes t) = 1952 \<and> table_of_packed (packed_bytes t) = t" if t: "tbl_shape t" for t
  proof -
    have s: "length (tbl_row t) = 10" "\<forall>r \<in> set (tbl_row t). row_ok r" using t by (simp_all add: tbl_shape_def)
    note r = rows_roundtrip[OF s(2), unfolded s(1)]
    have c: "un_le (le 4 (total_rx_msg_cnt t)) = total_rx_msg_cnt t" "un_le (le 4 (total_tx_msg_cnt t)) = total_tx_msg_cnt t"
      using t by (auto intro!: un_le_small simp: tbl_shape_def)
    have w: "un_le (le 4 (uint (magic_code t))) = uint (magic_code t)"
      "un_le (le 8 (uint (last_retry_chk_time t))) = uint (last_retry_chk_time t)"
      "un_le (le 2 (uint (last_tx_mid_used t))) = uint (last_tx_mid_used t)"
      using uint_bounded[of "magic_code t"] uint_bounded[of "last_retry_chk_time t"] uint_bounded[of "last_tx_mid_used t"]
      by (auto intro!: un_le_small)
    show ?thesis using r by (simp add: packed_bytes_def table_of_packed_def c w)
  qed
  then show ?thesis by (simp add: layout_ok_def packed_def)
qed

text \<open>In a pool with room the allocation succeeds.\<close>

lemma allocate_succeeds:
  assumes p: "pool_rel p es" "length nm < 20" "0 \<notin> set nm" "nm \<notin> ename ` set es" "0 < n" "n + 32 \<le> 65532"
    and room: "\<exists>k \<in> free_sizes (heap p). n + 48 \<le> k"
    and a: "user_rtm_pool_allocate (Some nm) n p = Some (t, code, ptr)"
  shows "code = ER_SUCCESS"
proof -
  note r = pool_relD[OF p(1)]
  obtain h q where m: "da16x_dpm_rtm_mem_malloc (n + 32) (heap p) = Some (h, q)"
    "q = 0 \<longrightarrow> (\<forall>k \<in> free_sizes (heap p). k < block_size (n + 32))"
    using malloc_spec[OF r(1), of "n + 32"] p(6) by auto
  have "block_size (n + 32) < n + 48" using block_size_props(3)[OF block_size_ge, of "n + 32"] p(6) by simp
  then have q: "q \<noteq> 0" using m(2) room by fastforce
  have c: "da16x_dpm_rtm_mem_calloc (n + 32) 1 (heap p) = Some (memset_zero q (n + 32) h, q)"
    using m(1) p(6) q by (simp add: da16x_dpm_rtm_mem_calloc_def Let_def)
  have "dpm_user_rtm_search nm p = Some 0" using pool_search[OF p(1,3)] find_name_None[of nm es] p(4) by simp
  then show ?thesis using a c q p(2,5,6)
    by (simp add: user_rtm_pool_allocate_def bad_name_def REG_NAME_DPM_MAX_LEN_def SIZEOF_dpm_user_rtm_def Let_def
        split: option.splits)
qed

section \<open>The properties\<close>

definition queue_of :: "mosquitto_msg_direction \<Rightarrow> mosquitto \<Rightarrow> mosquitto_message_all list" where
  "queue_of d mosq = (case d of mosq_md_in \<Rightarrow> in_messages mosq | mosq_md_out \<Rightarrow> out_messages mosq)"

lemma dir_count:
  assumes "tbl_inv t"
  shows "length (in_dir d (tbl_row t)) = card {k \<in> dom (msgs t). fst k = d}"
proof -
  have "{k \<in> dom (msgs t). fst k = d} = key ` set (in_dir d (tbl_row t))" unfolding dom_msgs by (auto simp: in_dir_def)
  moreover have "inj_on key (set (in_dir d (tbl_row t)))"
    using tbl_invD(3)[OF assms] by (auto simp: in_dir_def distinct_map inj_on_def)
  moreover have "distinct (in_dir d (tbl_row t))" using tbl_invD(3)[OF assms] by (simp add: in_dir_def distinct_map)
  ultimately show ?thesis by (simp add: card_image distinct_card)
qed

lemma distinct_mids: "tbl_inv t \<Longrightarrow> distinct (map m_mid (map msg_of (in_dir d (tbl_row t))))"
  using tbl_invD(3)[of t] by (auto simp: in_dir_def distinct_map inj_on_def msg_of_def)

text \<open>A topic of more than 64 characters, which no check before keeps out, is copied over the end of its field.\<close>

lemma long_topic_overruns:
  assumes "store_inv L es s" "card (dom (msgs (mqtt_msg_tbl_presvd s))) < 10" "length (m_payload msg) \<le> 100" "64 < length (m_topic msg)"
  shows "mq_msg_tbl_presvd_add L msg d s = None"
proof -
  have "mq_msg_tbl_presvd_find_empty_slot (mqtt_msg_tbl_presvd s) \<noteq> None"
    using full_iff[of "mqtt_msg_tbl_presvd s"] assms(1,2) by (auto simp: store_inv_def)
  then show ?thesis using assms by (auto simp: mq_msg_tbl_presvd_add_def store_inv_def
        MQTT_MSG_TBL_PRESVD_MAX_PLAYLOAD_LEN_def MQTT_TOPIC_MAX_LEN_def)
qed

text \<open>C26.
  The enabled table of preserved messages is a finite map of at most ten messages, from direction and number to message: any
  sequence of calls whose additions have well-formed topics of at most 64 characters and numbers that the table does not hold yet returns, with the codes and the
  contents that the calls on the map give, counts the messages of each direction
  correctly, and leaves the data of all other names in the pool untouched. The limit is needed: a further message that is small enough and for which there is
  room, but with a longer topic, would be written over the end of its field, so that its addition has no result.
\<close>

theorem mqtt_table_refines:
  assumes "store_inv L es s" "calls_ok cs (msgs (mqtt_msg_tbl_presvd s))"
  shows "\<exists>rcs s'. run_calls (do_call L) cs s = Some (rcs, s') \<and>
    (rcs, msgs (mqtt_msg_tbl_presvd s')) = spec_calls cs (msgs (mqtt_msg_tbl_presvd s)) \<and> store_inv L es s' \<and>
    (let t = mqtt_msg_tbl_presvd s' in card (dom (msgs t)) \<le> 10 \<and>
       total_rx_msg_cnt t = int (card {k \<in> dom (msgs t). fst k = mosq_md_in}) \<and>
       total_tx_msg_cnt t = int (card {k \<in> dom (msgs t). fst k = mosq_md_out}) \<and>
       (\<forall>msg d. 64 < length (m_topic msg) \<and> length (m_payload msg) \<le> 100 \<and> card (dom (msgs t)) < 10 \<longrightarrow> do_call L (Add msg d) s' = None)) \<and>
    others_kept es s s'"
proof -
  obtain rcs s' where r: "run_calls (do_call L) cs s = Some (rcs, s')" "store_inv L es s'" "others_kept es s s'"
    "(rcs, msgs (mqtt_msg_tbl_presvd s')) = spec_calls cs (msgs (mqtt_msg_tbl_presvd s))"
    using mq_store.calls_spec[OF assms] by blast
  have t: "tbl_inv (mqtt_msg_tbl_presvd s')" using r(2) by (simp add: store_inv_def)
  have "card (dom (msgs (mqtt_msg_tbl_presvd s'))) \<le> 10"
    using card_msgs[OF t] tbl_invD(1)[OF t] length_filter_le[of _ "tbl_row (mqtt_msg_tbl_presvd s')"] by (simp add: valid_rows_def)
  with r tbl_invD(4,5)[OF t] long_topic_overruns[OF r(2)] show ?thesis by (simp add: dir_count[OF t] Let_def)
qed

text \<open>C25.
  Preserved messages survive deep sleep: after any sequence of calls on an enabled table that has its area in the pool, whose additions have well-formed topics of at
  most 64 characters and numbers that the table does not hold yet, when only the retention memory is left of the state, the start of
  a client that keeps its session, whose queues are empty and whose allocations are granted recovers the pool, finds the table and puts into each queue exactly
  the messages of that direction that were added and not deleted, in their last state; and the table works on as before.
\<close>

theorem mqtt_messages_survive:
  assumes "store_inv L es s" "mqtt_msg_tbl_presvd_rtm s \<noteq> 0" "calls_ok cs (msgs (mqtt_msg_tbl_presvd s))"
    "\<not> clean_session mosq" "0 < q" "in_messages mosq = []" "out_messages mosq = []"
  shows "\<exists>rcs s'. run_calls (do_call L) cs s = Some (rcs, s') \<and>
    (\<forall>w b. retained (tbl_pool s') w \<longrightarrow>
       (\<exists>mosq' s2. mq_msg_tbl_presvd_init L (\<lambda>i k. True) True q mosq (boot_state (dpm_user_rtm_pool_create True b w)) =
            Some (MOSQ_ERR_SUCCESS, mosq', s2) \<and> store_inv L es s2 \<and>
          (\<forall>d. distinct (map m_mid (queue_of d mosq')) \<and>
             (\<forall>k. map_of (map (\<lambda>m. (m_mid m, m)) (queue_of d mosq')) k =
                snd (spec_calls cs (msgs (mqtt_msg_tbl_presvd s))) (d, k)))))"
proof -
  let ?M = "msgs (mqtt_msg_tbl_presvd s)"
  obtain rcs s' where r: "run_calls (do_call L) cs s = Some (rcs, s')" "store_inv L es s'" "others_kept es s s'"
    "(rcs, msgs (mqtt_msg_tbl_presvd s')) = spec_calls cs ?M"
    using mq_store.calls_spec[OF assms(1,3)] by blast
  have p: "mqtt_msg_tbl_presvd_rtm s' \<noteq> 0" using r(3) assms(2) by (simp add: others_kept_def)
  have t: "tbl_inv (mqtt_msg_tbl_presvd s')" using r(2) by (simp add: store_inv_def)
  have M: "snd (spec_calls cs ?M) = msgs (mqtt_msg_tbl_presvd s')" by (simp flip: r(4))
  have "\<exists>mosq' s2. mq_msg_tbl_presvd_init L (\<lambda>i k. True) True q mosq (boot_state (dpm_user_rtm_pool_create True b w)) =
      Some (MOSQ_ERR_SUCCESS, mosq', s2) \<and> store_inv L es s2 \<and>
      (\<forall>d. distinct (map m_mid (queue_of d mosq')) \<and>
         (\<forall>k. map_of (map (\<lambda>m. (m_mid m, m)) (queue_of d mosq')) k = msgs (mqtt_msg_tbl_presvd s') (d, k)))"
    if w: "retained (tbl_pool s') w" for w b
  proof -
    obtain s2 mosq' where u: "mq_msg_tbl_presvd_init L (\<lambda>i k. True) True q mosq (boot_state (dpm_user_rtm_pool_create True b w)) =
        Some (MOSQ_ERR_SUCCESS, mosq', s2)" "store_inv L es s2"
      "in_messages mosq' = map msg_of (in_dir mosq_md_in (tbl_row (mqtt_msg_tbl_presvd s')))"
      "out_messages mosq' = map msg_of (in_dir mosq_md_out (tbl_row (mqtt_msg_tbl_presvd s')))"
      using wake_up[OF r(2) p w assms(4,5), of b] assms(6,7) by auto
    have qd: "queue_of d mosq' = map msg_of (in_dir d (tbl_row (mqtt_msg_tbl_presvd s')))" for d
      using u(3,4) by (cases d) (simp_all add: queue_of_def)
    have "\<forall>d. distinct (map m_mid (queue_of d mosq')) \<and>
        (\<forall>k. map_of (map (\<lambda>m. (m_mid m, m)) (queue_of d mosq')) k = msgs (mqtt_msg_tbl_presvd s') (d, k))"
      unfolding qd using map_of_dir distinct_mids[OF t] by blast
    then show ?thesis using u(1,2) by blast
  qed
  then show ?thesis using r(1) unfolding M by blast
qed

text \<open>A session to run the properties on: the table is started in an empty pool.\<close>

definition demo_mosq :: mosquitto where
  "demo_mosq = \<lparr>last_mid = 0, clean_session = False, message_retry = 20, last_retry_check = 0, in_messages = [], out_messages = [],
     in_queue_len = 0, out_queue_len = 0, inflight_messages = 0, max_inflight_messages = 20, q2_proc = 0\<rparr>"

definition demo_msg :: mosquitto_message_all where
  "demo_msg = \<lparr>m_timestamp = 7, m_state = mosq_ms_wait_for_pubrec, m_dup = False, m_mid = 5, m_topic = [97, 47, 98],
     m_payload = [1, 0, 2], m_qos = 2, m_retain = False\<rparr>"

definition demo_calls :: "mq_call list" where
  "demo_calls = [Add demo_msg mosq_md_out, Update mosq_md_out 5 mosq_ms_wait_for_pubcomp 9, Add demo_msg mosq_md_in, Del demo_msg mosq_md_in]"

lemma demo_start:
  "\<exists>s e. mq_msg_tbl_presvd_init packed (\<lambda>i k. True) True 1 demo_mosq (boot_state demo_pool) = Some (MOSQ_ERR_SUCCESS, demo_mosq, s) \<and>
     store_inv packed [e] s \<and> mqtt_msg_tbl_presvd_rtm s \<noteq> 0 \<and> msgs (mqtt_msg_tbl_presvd s) = Map.empty"
proof -
  have m: "\<not> clean_session demo_mosq" "demo_mosq\<lparr>last_retry_check := 0\<rparr> = demo_mosq" by (simp_all add: demo_mosq_def)
  have n: "MQTT_MSG_TBL_PRESVD_NAME \<notin> ename ` set []" by simp
  obtain s code ptr p' where f: "user_rtm_pool_allocate (Some MQTT_MSG_TBL_PRESVD_NAME) (sizeof_tbl packed) demo_pool = Some (p', code, ptr)"
    "mq_msg_tbl_presvd_init packed (\<lambda>i k. True) True 1 demo_mosq (boot_state demo_pool) = Some (MOSQ_ERR_SUCCESS, demo_mosq, s)"
    "msgs (mqtt_msg_tbl_presvd s) = Map.empty"
    "if code = ER_SUCCESS then (\<exists>e. store_inv packed ([] @ [e]) s) \<and> mqtt_msg_tbl_presvd_rtm s \<noteq> 0
     else store_inv packed [] s \<and> mqtt_msg_tbl_presvd_rtm s = 0"
    using first_start[OF packed_ok demo_pool_rel(1) n demo_pool_rel(2,3) m(1) zero_less_one, of "\<lambda>i k. True"] unfolding m(2) by blast
  have "code = ER_SUCCESS"
    using free_sizes_eq[OF demo_pool_rel(4)] by (intro allocate_succeeds[OF demo_pool_rel(1) name_ok _ _ _ _ f(1)]) (simp_all add: packed_def)
  then show ?thesis using f(2-4) by auto
qed

lemma demo_calls_spec:
  "calls_ok demo_calls Map.empty" "fst (spec_calls demo_calls Map.empty) = [0, 0, 0, 0]"
  "snd (spec_calls demo_calls Map.empty) =
     [(mosq_md_out, 5) \<mapsto> demo_msg\<lparr>m_state := mosq_ms_wait_for_pubcomp, m_timestamp := 9\<rparr>]"
  by (simp_all add: demo_calls_def demo_msg_def msg_fits_def MOSQ_ERR_SUCCESS_def fun_upd_twist)

theorem mqtt_table_refines_witness:
  "\<exists>e s rcs s'. store_inv packed [e] s \<and> run_calls (do_call packed) demo_calls s = Some (rcs, s') \<and> rcs = [0, 0, 0, 0] \<and>
     dom (msgs (mqtt_msg_tbl_presvd s')) = {(mosq_md_out, 5)} \<and> total_tx_msg_cnt (mqtt_msg_tbl_presvd s') = 1"
proof -
  obtain s e where s: "store_inv packed [e] s" "msgs (mqtt_msg_tbl_presvd s) = Map.empty" using demo_start by blast
  obtain rcs s' where r: "run_calls (do_call packed) demo_calls s = Some (rcs, s')"
    "(rcs, msgs (mqtt_msg_tbl_presvd s')) = spec_calls demo_calls Map.empty"
    "total_tx_msg_cnt (mqtt_msg_tbl_presvd s') = int (card {k \<in> dom (msgs (mqtt_msg_tbl_presvd s')). fst k = mosq_md_out})"
    using mqtt_table_refines[OF s(1), of demo_calls] s(2) demo_calls_spec(1) by (auto simp: Let_def)
  have M: "rcs = [0, 0, 0, 0]" "dom (msgs (mqtt_msg_tbl_presvd s')) = {(mosq_md_out, 5)}"
    using demo_calls_spec(2,3) by (simp_all flip: r(2))
  have "{k \<in> {(mosq_md_out, 5 :: u16)}. fst k = mosq_md_out} = {(mosq_md_out, 5)}" by auto
  then show ?thesis using s(1) r(1,3) M by (intro exI[of _ e] exI[of _ s] exI[of _ rcs] exI[of _ s']) simp
qed

theorem mqtt_messages_survive_witness:
  "\<exists>e s rcs s' mosq' s2. store_inv packed [e] s \<and> run_calls (do_call packed) demo_calls s = Some (rcs, s') \<and>
     mq_msg_tbl_presvd_init packed (\<lambda>i k. True) True 1 demo_mosq
       (boot_state (dpm_user_rtm_pool_create True False ((tbl_pool s')\<lparr>init_done := False\<rparr>))) = Some (0, mosq', s2) \<and>
     map_of (map (\<lambda>m. (m_mid m, m)) (out_messages mosq')) 5 =
       Some (demo_msg\<lparr>m_state := mosq_ms_wait_for_pubcomp, m_timestamp := 9\<rparr>)"
proof -
  obtain s e where s: "store_inv packed [e] s" "mqtt_msg_tbl_presvd_rtm s \<noteq> 0" "msgs (mqtt_msg_tbl_presvd s) = Map.empty"
    using demo_start by blast
  have m: "\<not> clean_session demo_mosq" "in_messages demo_mosq = []" "out_messages demo_mosq = []" by (simp_all add: demo_mosq_def)
  have ok: "calls_ok demo_calls (msgs (mqtt_msg_tbl_presvd s))" using demo_calls_spec(1) s(3) by simp
  obtain rcs s' where r: "run_calls (do_call packed) demo_calls s = Some (rcs, s')"
    and w: "\<forall>w b. retained (tbl_pool s') w \<longrightarrow>
       (\<exists>mosq' s2. mq_msg_tbl_presvd_init packed (\<lambda>i k. True) True 1 demo_mosq (boot_state (dpm_user_rtm_pool_create True b w)) =
            Some (MOSQ_ERR_SUCCESS, mosq', s2) \<and> store_inv packed [e] s2 \<and>
          (\<forall>d. distinct (map m_mid (queue_of d mosq')) \<and>
             (\<forall>k. map_of (map (\<lambda>m. (m_mid m, m)) (queue_of d mosq')) k = snd (spec_calls demo_calls (msgs (mqtt_msg_tbl_presvd s))) (d, k))))"
    using mqtt_messages_survive[OF s(1,2) ok m(1) zero_less_one m(2,3)] by blast
  have "retained (tbl_pool s') ((tbl_pool s')\<lparr>init_done := False\<rparr>)" by (simp add: retained_def)
  from w[rule_format, OF this, of False] obtain mosq' s2 where u: "mq_msg_tbl_presvd_init packed (\<lambda>i k. True) True 1 demo_mosq
      (boot_state (dpm_user_rtm_pool_create True False ((tbl_pool s')\<lparr>init_done := False\<rparr>))) = Some (MOSQ_ERR_SUCCESS, mosq', s2)"
    and q: "\<forall>d. distinct (map m_mid (queue_of d mosq')) \<and>
      (\<forall>k. map_of (map (\<lambda>m. (m_mid m, m)) (queue_of d mosq')) k = snd (spec_calls demo_calls (msgs (mqtt_msg_tbl_presvd s))) (d, k))"
    by blast
  have "map_of (map (\<lambda>m. (m_mid m, m)) (out_messages mosq')) 5 = Some (demo_msg\<lparr>m_state := mosq_ms_wait_for_pubcomp, m_timestamp := 9\<rparr>)"
    using q[rule_format, of mosq_md_out, THEN conjunct2, rule_format, of 5] by (simp add: queue_of_def s(3) demo_calls_spec(3))
  then show ?thesis using s(1) r u unfolding MOSQ_ERR_SUCCESS_def by blast
qed

section \<open>Where the code departs from what it means\<close>

text \<open>
  When a clean session has disabled the table and a later one enables it again, the table counts as initialised and no area is allocated:
  the pointer stays null and messages are not preserved.
\<close>

lemma not_allocated_again:
  assumes "pool_rel (tbl_pool s) es" "MQTT_MSG_TBL_PRESVD_NAME \<notin> ename ` set es" "mq_msg_tbl_init_done s" "mqtt_msg_tbl_presvd_rtm s = 0"
  shows "restore_table L True s = Some s"
  using get_spec[OF assms(1) name_ok] find_name_None[of MQTT_MSG_TBL_PRESVD_NAME es] assms(2,3)
  by (simp add: restore_table_def get_rtm_def dpm_user_mem_get_def dpm_user_rtm_get_def)

end
