(* ===== verification/Mqtt_Packet_Claims.thy ===== *)
theory Mqtt_Packet_Claims
  imports Mqtt_Packet_Props
begin

text \<open>
  The properties of MQTT packets that the manifest lists: what is sent is complete and inside its allocation, and a message that is published
  is read back as it was.
\<close>

lemma read_publish_body:
  assumes "received (publish_command d q r) (publish_body m tpc pay q) p" "q \<in> {0, 1, 2}" "0 \<notin> set tpc" "tpc \<noteq> []"
    "length tpc < 65536" "int (length pay) \<le> MQTT_MSG_MAX_LEN atcmd"
  shows "read_publish atcmd (\<lambda>_. True) now p =
    Inr \<lparr>m_timestamp = now, m_state = mosq_ms_invalid, m_dup = d, m_mid = (if q > 0 then m else 0), m_topic = tpc,
         m_payload = pay, m_qos = q, m_retain = r\<rparr>"
proof -
  let ?b = "publish_body m tpc pay q"
  have p: "pk_command p = publish_command d q r" "pk_payload p = ?b" "pk_remaining_length p = length ?b" "pk_pos p = 0"
    using assms(1) by (simp_all add: received_def)
  have len: "length ?b < 2 ^ 32" using assms(5,6) by (simp add: MQTT_MSG_MAX_LEN_def split: if_splits)
  let ?p1 = "p\<lparr>pk_pos := 2 + length tpc\<rparr>"
  let ?p2 = "p\<lparr>pk_pos := 2 + length tpc + (if q > 0 then 2 else 0)\<rparr>"
  have s: "mosquitto_read_string True p = Inr (tpc, ?p1)"
    using read_string_at[of p tpc "(if q > 0 then be16 m else []) @ pay"] p len assms(5) by (simp add: publish_body_def)
  have dr: "drop (2 + length tpc) ?b = (if q > 0 then be16 m else []) @ pay" by (simp add: publish_body_def str16_def be16_def)
  have i: "(if q > 0 then mosquitto_read_uint16 ?p1 else Inr (0, ?p1)) = Inr (if q > 0 then m else 0, ?p2)"
    using read_uint16_at[of ?p1 m pay] dr p len by simp
  have dr2: "drop (pk_pos ?p2) (pk_payload ?p2) = pay"
    using arg_cong[OF dr, of "drop 2"] dr by (cases "q > 0") (simp_all add: p be16_def)
  have b: "mosquitto_read_bytes (length pay) ?p2 = Inr (pay, ?p2\<lparr>pk_pos := pk_pos ?p2 + length pay\<rparr>)"
    by (rule read_bytes_rest[OF dr2]) (use p len in simp_all)
  have n: "int (pk_remaining_length ?p2) - int (pk_pos ?p2) = int (length pay)" using p by simp
  have h: "uint (drop_bit 1 (pk_command p AND 6)) = q" "pk_command p AND 8 \<noteq> 0 \<longleftrightarrow> d" "pk_command p AND 1 \<noteq> 0 \<longleftrightarrow> r"
    using publish_command_fields[OF assms(2), of d r] p(1) by simp_all
  show ?thesis
    unfolding read_publish_def Let_def h s if_True not_True_eq_False if_False sum.case prod.case i n nat_int b no_zero[OF assms(3)]
    using assms(4,6) by simp
qed

text \<open>C27. A message that is published is received as it was: the packet that \<^verbatim>\<open>_mosquitto_send_real_publish\<close> queues, cut by the network
  into any pieces and followed by anything, is taken off the network by \<^verbatim>\<open>_mosquitto_packet_read\<close>, which leaves what follows, and the
  PUBLISH handler reads from it the same topic, payload, quality of service, retain and duplicate flags and, unless the quality
  of service is 0, the same message identifier.\<close>

theorem mqtt_publish_roundtrip:
  assumes "0 \<notin> set tpc" "tpc \<noteq> []" "length tpc < 65536" "int (length pay) \<le> MQTT_MSG_MAX_LEN atcmd" "q \<in> {0, 1, 2}"
  shows "\<exists>pk. mosquitto_send_real_publish True True j1 m tpc pay q r d = Some (Inr pk) \<and>
    (\<forall>es rest. all_data es \<and> stream es = pk_payload pk @ rest \<longrightarrow>
      (\<exists>p' q' es'. mosquitto_packet_read old True j2 (mosquitto_packet_cleanup q0) es = (Inr p', mosquitto_packet_cleanup q', es') \<and>
         all_data es' \<and> stream es' = rest \<and>
         read_publish atcmd (\<lambda>_. True) now p' =
           Inr \<lparr>m_timestamp = now, m_state = mosq_ms_invalid, m_dup = d, m_mid = (if q > 0 then m else 0), m_topic = tpc,
                m_payload = pay, m_qos = q, m_retain = r\<rparr>))"
proof -
  let ?c = "publish_command d q r" and ?b = "publish_body m tpc pay q"
  have n: "2 + length tpc + length pay + (if q > 0 then 2 else 0) < MAX_REMAINING"
    using assms(3,4) by (simp add: MQTT_MSG_MAX_LEN_def split: if_splits)
  have sp: "mosquitto_send_real_publish True True j1 m tpc pay q r d = Some (Inr (packet_for m ?c ?b))"
    using send_publish[OF assms(3), of pay q] n by (simp add: sending_def)
  have pp: "pk_payload (packet_for m ?c ?b) = packet_head ?c (length ?b) @ ?b" by (simp add: packet_for_def Let_def)
  have "\<exists>p' q' es'. mosquitto_packet_read old True j2 (mosquitto_packet_cleanup q0) es = (Inr p', mosquitto_packet_cleanup q', es') \<and>
       all_data es' \<and> stream es' = rest \<and>
       read_publish atcmd (\<lambda>_. True) now p' =
         Inr \<lparr>m_timestamp = now, m_state = mosq_ms_invalid, m_dup = d, m_mid = (if q > 0 then m else 0), m_topic = tpc,
              m_payload = pay, m_qos = q, m_retain = r\<rparr>"
    if es: "all_data es" "stream es = pk_payload (packet_for m ?c ?b) @ rest" for es rest
  proof -
    have s: "stream es = packet_head ?c (length ?b) @ ?b @ rest" using es(2) pp by simp
    show ?thesis using packet_read_spec[OF es(1) s, of old j2 q0] n publish_command_fields(4)[OF assms(5)]
        read_publish_body[OF _ assms(5,1,2,3,4), of d r m] by fastforce
  qed
  then show ?thesis using sp by blast
qed

lemma mqtt_publish_roundtrip_witness:
  "\<exists>pk. mosquitto_send_real_publish True True (\<lambda>_. 9) 5 [97, 47, 98] [0, 1, 255] 2 True False = Some (Inr pk) \<and>
    (\<forall>es rest. all_data es \<and> stream es = pk_payload pk @ rest \<longrightarrow>
      (\<exists>p' q' es'. mosquitto_packet_read Again True (\<lambda>_. 7) (mosquitto_packet_cleanup (new_packet 0 0)) es =
           (Inr p', mosquitto_packet_cleanup q', es') \<and>
         all_data es' \<and> stream es' = rest \<and>
         read_publish False (\<lambda>_. True) 100 p' =
           Inr \<lparr>m_timestamp = 100, m_state = mosq_ms_invalid, m_dup = False, m_mid = 5, m_topic = [97, 47, 98],
                m_payload = [0, 1, 255], m_qos = 2, m_retain = True\<rparr>))"
  using mqtt_publish_roundtrip[of "[97, 47, 98]" "[0, 1, 255]" False 2 "\<lambda>_. 9" 5 True False Again "\<lambda>_. 7" "new_packet 0 0" 100]
  by (simp add: MQTT_MSG_MAX_LEN_def)

text \<open>C28. Every packet that is sent is complete and inside its allocation: for every message, quality of service and flags a call returns
  the code of a failed allocation, the size error for a body that no length can be written for, or a packet that is its
  command, the length of its body and exactly its body, the bytes that the protocol lays down; no byte is written outside the packet
  and none is left as the allocation gave it.\<close>

theorem mqtt_packets_complete:
  assumes "length tpc < 65536" "2 + length tpc + length pay + (if q > 0 then 2 else 0) < 2 ^ 32" "args_ok a" "c_protocol a \<in> {mosq_p_mqtt31, mosq_p_mqtt311}"
  shows "mosquitto_send_puback m1 m2 junk m = sending 0 m1 m2 0x40 (be16 m) \<and>
    mosquitto_send_pubrec m1 m2 junk m = sending 0 m1 m2 0x50 (be16 m) \<and>
    mosquitto_send_pubrel m1 m2 junk m = sending 0 m1 m2 0x62 (be16 m) \<and>
    mosquitto_send_pubcomp m1 m2 junk m = sending 0 m1 m2 0x70 (be16 m) \<and>
    mosquitto_send_pingreq m1 m2 junk = sending 0 m1 m2 0xC0 [] \<and>
    mosquitto_send_pingresp m1 m2 junk = sending 0 m1 m2 0xD0 [] \<and>
    mosquitto_send_disconnect m1 m2 junk = sending 0 m1 m2 0xE0 [] \<and>
    mosquitto_send_real_publish m1 m2 junk m tpc pay q r d =
      sending m m1 m2 (publish_command d q r) (str16 tpc @ (if q > 0 then be16 m else []) @ pay) \<and>
    mosquitto_send_subscribe m1 m2 junk m tpc tq = sending 0 m1 m2 0x82 (be16 m @ str16 tpc @ [tq]) \<and>
    mosquitto_send_unsubscribe m1 m2 junk m tpc = sending 0 m1 m2 0xA2 (be16 m @ str16 tpc) \<and>
    mosquitto_send_connect False m1 m2 junk k clean a =
      Some (sending 0 m1 m2 0x10 (connect_body k clean a (if c_protocol a = mosq_p_mqtt31 then 3 else 4)))"
proof -
  note simple = mosquitto_send_pingreq_def PINGREQ_def mosquitto_send_pingresp_def PINGRESP_def mosquitto_send_disconnect_def DISCONNECT_def
    send_simple
  note with_mid = mosquitto_send_puback_def PUBACK_def mosquitto_send_pubrec_def PUBREC_def mosquitto_send_pubrel_def PUBREL_def
    mosquitto_send_pubcomp_def PUBCOMP_def send_with_mid
  show ?thesis
    using send_publish[OF assms(1,2), of m1 m2 junk m r d] send_subscribe[OF assms(1), of m1 m2 junk m tq]
      send_unsubscribe[OF assms(1), of m1 m2 junk m] send_connect[OF assms(3,4), of m1 m2 junk k clean]
    by (simp add: simple with_mid publish_body_def CONNECT_def)
qed

lemma mqtt_packets_complete_witness:
  "mosquitto_send_real_publish True True (\<lambda>_. 9) 258 [97] [7] 1 True False =
     Some (Inr (packet_for 0x102 0x33 [0, 1, 97, 1, 2, 7])) \<and>
   mosquitto_send_connect False True True (\<lambda>_. 9) 60 True
       \<lparr>c_protocol = mosq_p_mqtt311, c_id = [99], c_will = None, c_username = Some [117], c_password = None\<rparr> =
     Some (Some (Inr (packet_for 0 0x10 [0, 4, 77, 81, 84, 84, 4, 0x82, 0, 60, 0, 1, 99, 0, 1, 117])))"
proof -
  let ?a = "\<lparr>c_protocol = mosq_p_mqtt311, c_id = [99], c_will = None, c_username = Some [117], c_password = None\<rparr>"
  have b: "be16 258 = [1, 2]" "be16 1 = [0, 1]" "be16 4 = [0, 4]" "be16 60 = [0, 60]" "str16 [117] = [0, 1, 117]"
    by (simp_all add: be16_def str16_def MOSQ_MSB_def MOSQ_LSB_def)
  have c: "publish_command False 1 True = 0x33" by (simp add: publish_command_def PUBLISH_def)
  have a: "args_ok ?a" by (simp add: args_ok_def)
  show ?thesis
    using mqtt_packets_complete[of "[97]" "[7]" 1 ?a True True "\<lambda>_. 9" 258 True False 0 60 True, OF _ _ a] b c
    by (simp add: sending_def str16_def connect_body_def PROTOCOL_NAME_v311_def connect_flags_def opt_str_def)
qed

end
