(* ===== verification/Mqtt_Once.thy ===== *)
theory Mqtt_Once
  imports Mqtt_Events Mqtt_Sleep Mqtt_Packet_Claims
begin

text \<open>
  Messages of quality of service 2 are handed on exactly once, also when the chip goes to deep sleep in the middle of a handshake: the
  messages that are held are those that the table preserves.
\<close>

section \<open>The queues and the table\<close>

definition tmap :: "session \<Rightarrow> mq_map" where "tmap s = msgs (mqtt_msg_tbl_presvd (table s))"

text \<open>The preserved messages are such that they can go back into the queues.\<close>

definition map_ok :: "mq_map \<Rightarrow> bool" where
  "map_ok M \<longleftrightarrow> (\<forall>d m x. M (d, m) = Some x \<longrightarrow> m_mid x = m \<and>
     (d = mosq_md_in \<longrightarrow> m_qos x = 2 \<and> m_state x = mosq_ms_wait_for_pubrel) \<and>
     (d = mosq_md_out \<longrightarrow> on_way x \<and> sendable x \<and> m_qos x \<noteq> 0))"

definition held_of :: "mq_map \<Rightarrow> held" where
  "held_of M = (\<lambda>m. map_option (\<lambda>x. (m_payload x, m_topic x)) (M (mosq_md_in, m)))"

definition once_inv :: "mq_layout \<Rightarrow> entry list \<Rightarrow> session \<Rightarrow> bool" where
  "once_inv L es s \<longleftrightarrow> sess_ok s \<and> store_inv L es (table s) \<and> mqtt_msg_tbl_presvd_rtm (table s) \<noteq> 0 \<and> map_ok (tmap s) \<and>
     map_of (pending s) = held_of (tmap s)"

lemma once_invD:
  assumes "once_inv L es s"
  shows "sess_ok s" "store_inv L es (table s)" "mqtt_msg_tbl_presvd_rtm (table s) \<noteq> 0" "map_ok (tmap s)"
    "map_of (pending s) = held_of (tmap s)" "mq_msg_tbl_presvd_enabled (table s)"
  using assms by (simp_all add: once_inv_def store_inv_def)

lemma store_by:
  assumes "store_inv L es (table s)" "table_by L cs s s'" "calls_ok cs (tmap s)"
  shows "store_inv L es (table s')" "tmap s' = snd (spec_calls cs (tmap s))"
    "mqtt_msg_tbl_presvd_rtm (table s') = mqtt_msg_tbl_presvd_rtm (table s)"
proof -
  obtain rcs t where t: "run_calls (do_call L) cs (table s) = Some (rcs, t)" "store_inv L es t"
    "(rcs, msgs (mqtt_msg_tbl_presvd t)) = spec_calls cs (tmap s)" "others_kept es (table s) t"
    using mq_store.calls_spec[OF assms(1), of cs] assms(3) unfolding tmap_def by blast
  have "table s' = t" using assms(2) t(1) by (simp add: table_by_def)
  moreover have "msgs (mqtt_msg_tbl_presvd t) = snd (spec_calls cs (tmap s))" using t(3) by (metis snd_conv)
  ultimately show "store_inv L es (table s')" "tmap s' = snd (spec_calls cs (tmap s))"
    "mqtt_msg_tbl_presvd_rtm (table s') = mqtt_msg_tbl_presvd_rtm (table s)"
    using t(2,4) by (simp_all add: tmap_def others_kept_def)
qed

text \<open>Steps that leave the received messages alone.\<close>

lemma once_kept:
  assumes o: "once_inv L es s" and k: "sess_ok s'" "pending s' = pending s" "table_by L cs s s'" "calls_ok cs (tmap s)"
    and m: "map_ok (snd (spec_calls cs (tmap s)))" "held_of (snd (spec_calls cs (tmap s))) = held_of (tmap s)"
  shows "once_inv L es s'"
  using once_invD[OF o] k m store_by[OF once_invD(2)[OF o] k(3,4)] by (simp add: once_inv_def)

lemma held_of_out: "held_of (M((mosq_md_out, m) := v)) = held_of M"
  by (auto simp: held_of_def)

lemma spec_out:
  "snd (spec_call (Last_mid m) M) = M" "snd (spec_call (Retry_check ts) M) = M"
  "held_of (snd (spec_call (Add x mosq_md_out) M)) = held_of M"
  "held_of (snd (spec_call (Del x mosq_md_out) M)) = held_of M"
  "held_of (snd (spec_call (Update mosq_md_out m st ts) M)) = held_of M"
  by (auto simp: held_of_out split: option.splits)

lemma map_ok_upd:
  "map_ok M \<Longrightarrow> map_ok (M(k := None))"
  "map_ok M \<Longrightarrow> on_way x \<Longrightarrow> sendable x \<Longrightarrow> m_qos x \<noteq> 0 \<Longrightarrow> m_mid x = m \<Longrightarrow> map_ok (M((mosq_md_out, m) \<mapsto> x))"
  "map_ok M \<Longrightarrow> m_qos x = 2 \<Longrightarrow> m_state x = mosq_ms_wait_for_pubrel \<Longrightarrow> m_mid x = m \<Longrightarrow> map_ok (M((mosq_md_in, m) \<mapsto> x))"
  by (auto simp: map_ok_def)

lemma map_ok_update:
  assumes "map_ok M"
  shows "map_ok (snd (spec_call (Update mosq_md_out m mosq_ms_wait_for_pubcomp ts) M))"
proof (cases "M (mosq_md_out, m)")
  case (Some x)
  then have "m_mid x = m" "sendable x" "m_qos x \<noteq> 0" using assms by (auto simp: map_ok_def)
  then show ?thesis using Some map_ok_upd(2)[OF assms] by (simp add: sendable_def)
qed (use assms in simp)

section \<open>Deep sleep\<close>

text \<open>The client after \<^verbatim>\<open>mosquitto_reinitialise\<close>, with the session to be continued.\<close>

definition mosquitto_reinitialise :: "bool \<Rightarrow> mosquitto" where
  "mosquitto_reinitialise clean = \<lparr>last_mid = 0, clean_session = clean, message_retry = 20, last_retry_check = 0, in_messages = [],
     out_messages = [], in_queue_len = 0, out_queue_len = 0, inflight_messages = 0, max_inflight_messages = 20, q2_proc = 0\<rparr>"

text \<open>
  Power-down and wake-up: \<open>w\<close> is what is left of the pool, the rest of the state is built anew; \<open>pm\<close> is the identifier that the
  parameters of the client keep. The trace is what has happened outside.
\<close>

definition power_cycle :: "mq_layout \<Rightarrow> int \<Rightarrow> user_pool \<Rightarrow> bool \<Rightarrow> int \<Rightarrow> session \<Rightarrow> (int \<times> session) option" where
  "power_cycle L q w b pm s =
     map_option (\<lambda>(rc, mosq, t). (rc, \<lparr>client = mosq, table = t, pub_msg_id = pm, trace = trace s, tx_count = tx_count s\<rparr>))
       (mq_msg_tbl_presvd_init L (\<lambda>i k. True) True q (mosquitto_reinitialise False) (boot_state (dpm_user_rtm_pool_create True b w)))"

datatype life_event = Awake client_event | Sleep user_pool bool int

fun handle_life :: "client_cfg \<Rightarrow> int \<Rightarrow> life_event \<Rightarrow> session \<Rightarrow> (int \<times> session) option" where
  "handle_life c q (Awake x) s = handle_event c x s"
| "handle_life c q (Sleep w b pm) s = power_cycle (cfg_layout c) q w b pm s"

text \<open>The table has room for a message.\<close>

definition has_room :: "session \<Rightarrow> bool" where "has_room s \<longleftrightarrow> card (dom (tmap s)) < 10"

text \<open>
  Topics of the application are strings; an identifier that is used again is not preserved any more; a received message of quality of service 2 fits the
  table. Retention memory keeps its contents.
\<close>

fun life_ok :: "client_cfg \<Rightarrow> life_event \<Rightarrow> session \<Rightarrow> bool" where
  "life_ok c (Awake x) s = (event_ok c x s \<and>
     (case x of
        Publish mem now tpc pay q r \<Rightarrow> (case tpc of None \<Rightarrow> True | Some t \<Rightarrow> 0 \<notin> set t) \<and>
          tmap s (mosq_md_out, new_mid (cfg_layout c) (cfg_dpm c) s) = None
      | Rx_publish mem now p \<Rightarrow> (case read_publish (cfg_atcmd c) mem now p of
            Inl rc \<Rightarrow> True
          | Inr msg \<Rightarrow> m_qos msg \<noteq> 2 \<or> length (m_payload msg) \<le> 100 \<and> (tmap s (mosq_md_in, m_mid msg) \<noteq> None \<or> has_room s))
      | _ \<Rightarrow> True))"
| "life_ok c (Sleep w b pm) s = retained (tbl_pool (table s)) w"

fun held_life :: "client_cfg \<Rightarrow> life_event \<Rightarrow> held \<Rightarrow> held" where
  "held_life c (Awake x) M = held_after c x M"
| "held_life c (Sleep w b pm) M = M"

fun handed_life :: "client_cfg \<Rightarrow> life_event \<Rightarrow> held \<Rightarrow> (u8 list \<times> u8 list) list" where
  "handed_life c (Awake x) M = handed_on c x M"
| "handed_life c (Sleep w b pm) M = []"

section \<open>Every event keeps the two together\<close>

lemma room_card:
  assumes "once_inv L es s"
  shows "card (dom (tmap s)) \<le> 10" "finite (dom (tmap s))"
proof -
  have t: "tbl_inv (mqtt_msg_tbl_presvd (table s))" using once_invD(2)[OF assms] by (simp add: store_inv_def)
  show "card (dom (tmap s)) \<le> 10" using card_msgs[OF t] tbl_invD(1)[OF t] length_filter_le[of _ "tbl_row (mqtt_msg_tbl_presvd (table s))"]
    by (simp add: valid_rows_def tmap_def)
  show "finite (dom (tmap s))" unfolding tmap_def dom_msgs by simp
qed

lemma once_publish:
  assumes o: "once_inv (cfg_layout c) es s" and ok: "life_ok c (Awake (Publish mem now tpc pay q r)) s"
  shows "\<exists>rc s'. handle_event c (Publish mem now tpc pay q r) s = Some (rc, s') \<and> once_inv (cfg_layout c) es s' \<and>
    pending s' = pending s \<and> messages_in (trace s') = messages_in (trace s)"
proof -
  let ?L = "cfg_layout c"
  let ?m = "new_mid ?L (cfg_dpm c) s"
  note O = once_invD[OF o]
  have t: "\<forall>t. tpc = Some t \<longrightarrow> fits_table s t" "\<forall>t. tpc = Some t \<longrightarrow> length t \<le> 64 \<and> 0 \<notin> set t"
    "tmap s (mosq_md_out, ?m) = None"
    using ok O(6) by (auto simp: fits_table_def split: option.splits)
  obtain rc m s' cs where p: "mosquitto_publish ?L (cfg_env c) (cfg_dpm c) mem now tpc pay q r s = Some (rc, m, s')" "sess_ok s'"
    "in_kept ?L cs s s'" "cs = [] \<or> cs = [Last_mid ?m] \<or> (\<exists>x. cs = [Last_mid ?m, Add x mosq_md_out] \<and>
       on_way x \<and> sendable x \<and> m_qos x \<noteq> 0 \<and> m_mid x = ?m \<and> tpc = Some (m_topic x))"
    using publish_spec[OF O(1) t(1), of ?L "cfg_env c" "cfg_dpm c" mem now pay q r] by blast
  have cs: "calls_ok cs (tmap s) \<and> map_ok (snd (spec_calls cs (tmap s))) \<and> held_of (snd (spec_calls cs (tmap s))) = held_of (tmap s)"
    using p(4)
  proof (elim disjE exE conjE)
    fix x assume x: "cs = [Last_mid ?m, Add x mosq_md_out]" "on_way x" "sendable x" "m_qos x \<noteq> 0" "m_mid x = ?m" "tpc = Some (m_topic x)"
    have "msg_fits x" using t(2) x(3,6) by (auto simp: msg_fits_def sendable_def)
    then show ?thesis using x(1-5) t(3) O(4) map_ok_upd(2)[OF O(4) x(2-5)] by (simp add: domIff held_of_out)
  qed (use O(4) in simp_all)
  have k: "pending s' = pending s" "messages_in (trace s') = messages_in (trace s)" "table_by ?L cs s s'"
    using in_kept_pending[OF p(3)] p(3) by (simp_all add: in_kept_def)
  show ?thesis using p(1) once_kept[OF o p(2) k(1,3)] cs k by simp
qed

lemma once_ack:
  assumes o: "once_inv (cfg_layout c) es s" and ok: "event_ok c x s" and x: "\<exists>p. x = Rx_ack p \<or> (\<exists>now. x = Rx_pubrec now p)"
  shows "\<exists>rc s'. handle_event c x s = Some (rc, s') \<and> once_inv (cfg_layout c) es s' \<and>
    pending s' = pending s \<and> messages_in (trace s') = messages_in (trace s)"
proof -
  let ?L = "cfg_layout c"
  note O = once_invD[OF o]
  have "\<exists>rc s' cs. handle_event c x s = Some (rc, s') \<and> sess_ok s' \<and> in_kept ?L cs s s' \<and>
      (cs = [] \<or> (\<exists>y. cs = [Del y mosq_md_out]) \<or> (\<exists>m now. cs = [Update mosq_md_out m mosq_ms_wait_for_pubcomp now]))"
    using x
  proof (elim exE disjE)
    fix p assume "x = Rx_ack p"
    then show ?thesis using ack_spec[OF O(1) ack_okD, of p ?L "cfg_env c"] ok by fastforce
  next
    fix p now assume "x = Rx_pubrec now p"
    then show ?thesis using pubrec_spec[OF O(1) ack_okD, of p ?L "cfg_env c" now] ok by fastforce
  qed
  then obtain rc s' cs where h: "handle_event c x s = Some (rc, s')" "sess_ok s'" "in_kept ?L cs s s'"
    "cs = [] \<or> (\<exists>y. cs = [Del y mosq_md_out]) \<or> (\<exists>m now. cs = [Update mosq_md_out m mosq_ms_wait_for_pubcomp now])" by blast
  have cs: "calls_ok cs (tmap s) \<and> map_ok (snd (spec_calls cs (tmap s))) \<and> held_of (snd (spec_calls cs (tmap s))) = held_of (tmap s)"
    using h(4)
  proof (elim disjE exE)
    fix y assume "cs = [Del y mosq_md_out]"
    then show ?thesis using map_ok_upd(1)[OF O(4)] O(4) by (simp add: held_of_out)
  next
    fix m now assume "cs = [Update mosq_md_out m mosq_ms_wait_for_pubcomp now]"
    then show ?thesis using map_ok_update[OF O(4), of m now] spec_out(5)[of m mosq_ms_wait_for_pubcomp now "tmap s"]
      by (simp add: case_prod_beta del: spec_call.simps)
  qed (use O(4) in simp)
  have k: "pending s' = pending s" "messages_in (trace s') = messages_in (trace s)" "table_by ?L cs s s'"
    using in_kept_pending[OF h(3)] h(3) by (simp_all add: in_kept_def)
  show ?thesis using h(1) once_kept[OF o h(2) k(1,3)] cs k by simp
qed

text \<open>A message of the broker changes the held messages and the preserved ones alike.\<close>

lemma once_received:
  assumes o: "once_inv (cfg_layout c) es s" and ok: "life_ok c (Awake x) s" and x: "\<exists>p. x = Rx_pubrel p \<or> (\<exists>mem now. x = Rx_publish mem now p)"
    and h: "sess_ok s'" "map_of (pending s') = held_after c x (map_of (pending s))" "table_by (cfg_layout c) (rx_calls c x s) s s'"
  shows "once_inv (cfg_layout c) es s'"
proof -
  note O = once_invD[OF o]
  let ?M = "tmap s" and ?cs = "rx_calls c x s"
  have fd: "?M (mosq_md_in, m) = None \<longleftrightarrow> found m s = None" for m
    using fun_cong[OF O(5), of m] found_pending[of s m] by (auto simp: held_of_def)
  have "calls_ok ?cs ?M \<and> map_ok (snd (spec_calls ?cs ?M)) \<and> held_of (snd (spec_calls ?cs ?M)) = held_after c x (held_of ?M)"
    using x
  proof (elim exE disjE)
    fix p assume xp: "x = Rx_pubrel p"
    show ?thesis
    proof (cases "released c p")
      case None
      then show ?thesis using O(4) by (simp add: xp)
    next
      case (Some m)
      show ?thesis
      proof (cases "found m s")
        case None
        then have "?M (mosq_md_in, m) = None" using fd by simp
        then have "(held_of ?M)(m := None) = held_of ?M" by (auto simp: held_of_def)
        then show ?thesis using Some None O(4) by (simp add: xp)
      next
        case (Some y)
        then obtain ms where "take_mid m (in_messages (client s)) = Some (y, ms)" by (auto simp: found_def)
        then have y: "m_mid y = m" using take_mid_Some by blast
        have dm: "(mosq_md_in, m) \<in> dom ?M" using fd[of m] Some by auto
        have "held_of (?M((mosq_md_in, m) := None)) = (held_of ?M)(m := None)" by (auto simp: held_of_def)
        then show ?thesis using \<open>released c p = Some m\<close> Some y dm map_ok_upd(1)[OF O(4)] by (simp add: xp)
      qed
    qed
  next
    fix p mem now assume xp: "x = Rx_publish mem now p"
    show ?thesis
    proof (cases "read_publish (cfg_atcmd c) mem now p")
      case (Inl rc)
      then show ?thesis using O(4) by (simp add: xp)
    next
      case (Inr msg)
      show ?thesis
      proof (cases "m_qos msg = 2")
        case False
        then show ?thesis using O(4) Inr by (simp add: xp)
      next
        case True
        let ?x = "msg\<lparr>m_state := mosq_ms_wait_for_pubrel\<rparr>" and ?k = "(mosq_md_in, m_mid msg)"
        have g: "length (m_topic msg) \<le> 64" "length (m_payload msg) \<le> 100" "?M ?k \<noteq> None \<or> card (dom ?M) < 10"
          using ok O(6) Inr True by (auto simp: xp fits_table_def has_room_def)
        have z: "0 \<notin> set (m_topic msg)"
          using Inr by (auto simp: read_publish_def Let_def split: if_splits sum.splits dest!: set_takeWhileD)
        have fit: "msg_fits ?x" using g(1) z True by (simp add: msg_fits_def)
        have hd: "held_of (?M(?k \<mapsto> ?x)) = (held_of ?M)(m_mid msg \<mapsto> (m_payload msg, m_topic msg))" by (auto simp: held_of_def)
        have mo: "map_ok (?M(?k \<mapsto> ?x))" using map_ok_upd(3)[OF O(4), of ?x "m_mid msg"] True by simp
        show ?thesis
        proof (cases "found (m_mid msg) s")
          case None
          then have n: "?M ?k = None" using fd by simp
          have a: "spec_call (Add ?x mosq_md_in) ?M = (MOSQ_ERR_SUCCESS, ?M(?k \<mapsto> ?x))" using g n by simp
          have cok: "call_ok (Add ?x mosq_md_in) ?M" using fit n by (simp add: domIff)
          have cs: "?cs = [Add ?x mosq_md_in]" using Inr True None by (simp add: xp Let_def)
          show ?thesis unfolding cs spec_calls.simps calls_ok.simps a using cok hd mo Inr True by (simp add: xp del: spec_call.simps)
        next
          case (Some y)
          then have n: "?k \<in> dom ?M" using fd[of "m_mid msg"] by auto
          let ?N = "?M(?k := None)"
          have d: "spec_call (Del ?x mosq_md_in) ?M = (MOSQ_ERR_SUCCESS, ?N)" using n by simp
          have "card (dom ?N) < 10" using room_card[OF o] n card_Diff1_less[of "dom ?M" ?k] by simp
          then have a: "spec_call (Add ?x mosq_md_in) ?N = (MOSQ_ERR_SUCCESS, ?M(?k \<mapsto> ?x))" using g by simp
          have cok: "call_ok (Add ?x mosq_md_in) ?N" using fit by simp
          have cs: "?cs = [Del ?x mosq_md_in, Add ?x mosq_md_in]" using Inr True Some by (simp add: xp Let_def)
          show ?thesis unfolding cs spec_calls.simps calls_ok.simps d snd_conv prod.case Let_def a
            using cok hd mo Inr True by (simp add: xp del: spec_call.simps)
        qed
      qed
    qed
  qed
  then show ?thesis using O store_by[OF O(2) h(3)] h(1,2) by (simp add: once_inv_def)
qed

text \<open>After the wake-up the queues are filled from the table.\<close>

lemma once_sleep:
  assumes o: "once_inv L es s" and w: "retained (tbl_pool (table s)) w" and q: "0 < q"
  shows "\<exists>rc s'. power_cycle L q w b pm s = Some (rc, s') \<and> once_inv L es s' \<and> map_of (pending s') = map_of (pending s) \<and>
    trace s' = trace s"
proof -
  note O = once_invD[OF o]
  let ?t = "mqtt_msg_tbl_presvd (table s)" and ?m0 = "mosquitto_reinitialise False"
  let ?rows = "\<lambda>d. map msg_of (in_dir d (tbl_row ?t))"
  have m0: "\<not> clean_session ?m0" by (simp add: mosquitto_reinitialise_def)
  have t: "tbl_inv ?t" using O(2) by (simp add: store_inv_def)
  have mem: "tmap s (d, m_mid x) = Some x" if "x \<in> set (?rows d)" for d x
    unfolding tmap_def map_of_dir[symmetric] using distinct_mids[OF t, of d] that
    by (intro map_of_is_SomeI) (auto simp: comp_def)
  have row: "d = mosq_md_in \<Longrightarrow> m_qos x = 2 \<and> m_state x = mosq_ms_wait_for_pubrel"
    "d = mosq_md_out \<Longrightarrow> on_way x \<and> sendable x \<and> m_qos x \<noteq> 0" if "x \<in> set (?rows d)" for d x
    using mem[OF that] O(4) unfolding map_ok_def by blast+
  have qo: "\<forall>r \<in> set (in_dir mosq_md_out (tbl_row ?t)). qos r > 0"
  proof
    fix r assume "r \<in> set (in_dir mosq_md_out (tbl_row ?t))"
    then have "sendable (msg_of r) \<and> m_qos (msg_of r) \<noteq> 0" using row(2)[of "msg_of r" mosq_md_out] by auto
    then show "qos r > 0" by (auto simp: sendable_def msg_of_def)
  qed
  obtain tb mosq where u: "mq_msg_tbl_presvd_init L (\<lambda>i k. True) True q ?m0 (boot_state (dpm_user_rtm_pool_create True b w)) =
      Some (MOSQ_ERR_SUCCESS, mosq, tb)" "store_inv L es tb" "msgs (mqtt_msg_tbl_presvd tb) = msgs ?t"
    "in_messages mosq = ?rows mosq_md_in" "out_messages mosq = ?rows mosq_md_out"
    "counted (length (?rows mosq_md_in)) (length (?rows mosq_md_out)) ?m0 mosq" "mqtt_msg_tbl_presvd_rtm tb = mqtt_msg_tbl_presvd_rtm (table s)"
    using wake_up[OF O(2,3) w m0 q, of b] qo by (auto simp: mosquitto_reinitialise_def)
  let ?s = "\<lparr>client = mosq, table = tb, pub_msg_id = pm, trace = trace s, tx_count = tx_count s\<rparr>"
  have p: "power_cycle L q w b pm s = Some (MOSQ_ERR_SUCCESS, ?s)" by (simp add: power_cycle_def u(1))
  have len: "length (?rows mosq_md_out) \<le> 10"
    using tbl_invD(1)[OF t] length_filter_le order.trans unfolding in_dir_def valid_rows_def length_map by metis
  have win: "window_ok mosq"
  proof (rule window_okI[of _ "?rows mosq_md_out" "[]"])
    show "out_ok (max_inflight_messages mosq) (?rows mosq_md_out) []"
      using row(2)[where d = mosq_md_out] len u(6) by (auto simp: out_ok_def counted_def mosquitto_reinitialise_def)
  qed (use u(5,6) len in \<open>simp_all add: counted_def mosquitto_reinitialise_def\<close>)
  have "in_ok mosq" using row(1)[where d = mosq_md_in] u(4,6) distinct_mids[OF t, of mosq_md_in]
    by (auto simp: in_ok_def counted_def mosquitto_reinitialise_def)
  then have ok: "sess_ok ?s" using win by (simp add: sess_ok_def)
  have gen: "map_of (map (\<lambda>x. (m_mid x, m_payload x, m_topic x)) xs) k =
      map_option (\<lambda>x. (m_payload x, m_topic x)) (map_of (map (\<lambda>m. (m_mid m, m)) xs) k)" for xs k
    by (induction xs) auto
  have "map_of (map (\<lambda>x. (m_mid x, m_payload x, m_topic x)) (?rows mosq_md_in)) k = held_of (tmap s) k" for k
    unfolding held_of_def tmap_def map_of_dir[symmetric] by (rule gen)
  then have pd: "map_of (pending ?s) = held_of (tmap s)" by (intro ext) (simp only: pending_def u(4) session.simps)
  have "tmap ?s = tmap s" by (simp add: tmap_def u(3))
  then have "once_inv L es ?s" using O ok u(2,7) pd by (simp add: once_inv_def)
  then show ?thesis using p pd O(5) by simp
qed

lemma life_step:
  assumes o: "once_inv (cfg_layout c) es s" and ok: "life_ok c y s" and q: "0 < q"
  shows "\<exists>rc s'. handle_life c q y s = Some (rc, s') \<and> once_inv (cfg_layout c) es s' \<and>
    map_of (pending s') = held_life c y (map_of (pending s)) \<and>
    messages_in (trace s') = messages_in (trace s) @ handed_life c y (map_of (pending s))"
proof (cases y)
  case (Sleep w b pm)
  then show ?thesis using once_sleep[OF o _ q, of w b pm] ok by auto
next
  case (Awake x)
  note O = once_invD[OF o]
  have ev: "event_ok c x s" using ok by (simp add: Awake)
  note kept = in_kept_pending
  show ?thesis
  proof (cases x)
    case (Publish mem now tpc pay q' r)
    then show ?thesis using once_publish[OF o ok[unfolded Awake Publish]] by (auto simp: Awake)
  next
    case (Rx_publish mem now p)
    obtain rc s' where h: "handle_event c x s = Some (rc, s')" "sess_ok s'" "map_of (pending s') = held_after c x (map_of (pending s))"
      "messages_in (trace s') = messages_in (trace s) @ handed_on c x (map_of (pending s))" "table_by (cfg_layout c) (rx_calls c x s) s s'"
      using publish_handler_spec[OF O(1) ev[unfolded Rx_publish]] unfolding Rx_publish by blast
    then show ?thesis using once_received[OF o ok[unfolded Awake] _ h(2,3,5)] Rx_publish by (simp add: Awake del: handle_event.simps held_after.simps handed_on.simps)
  next
    case (Rx_pubrel p)
    obtain rc s' where h: "handle_event c x s = Some (rc, s')" "sess_ok s'" "map_of (pending s') = held_after c x (map_of (pending s))"
      "messages_in (trace s') = messages_in (trace s) @ handed_on c x (map_of (pending s))" "table_by (cfg_layout c) (rx_calls c x s) s s'"
      using pubrel_handler_spec[OF O(1)] unfolding Rx_pubrel by blast
    then show ?thesis using once_received[OF o ok[unfolded Awake] _ h(2,3,5)] Rx_pubrel by (simp add: Awake del: handle_event.simps held_after.simps handed_on.simps)
  next
    case (Rx_ack p)
    then show ?thesis using once_ack[OF o ev] by (auto simp: Awake)
  next
    case (Rx_pubrec now p)
    then show ?thesis using once_ack[OF o ev] by (auto simp: Awake)
  next
    case Rx_pingreq
    obtain rc s' where t: "transmit (cfg_env c) mosquitto_send_pingresp s = Some (rc, s')" "quiet s s'" using transmit_mid(5) by blast
    have k: "pending s' = pending s" "messages_in (trace s') = messages_in (trace s)" "table_by (cfg_layout c) [] s s'"
      using in_kept_pending[OF quiet_keeps(2)[OF t(2) O(1)]] quietD(2)[OF t(2)] by (simp_all add: table_by_Nil)
    have "once_inv (cfg_layout c) es s'" using once_kept[OF o quiet_keeps(1)[OF t(2) O(1)] k(1,3)] O(4) by simp
    then show ?thesis using t(1) k by (simp add: Awake Rx_pingreq mosquitto_handle_pingreq_def)
  next
    case (Retry now)
    obtain s' where r: "loop_misc_retry (cfg_env c) now s = Some s'" "sess_ok s'" "pending s' = pending s"
      "messages_in (trace s') = messages_in (trace s)"
      "table s' = table s \<or> table s' = snd (mq_msg_tbl_presvd_update_last_retry_chk now (table s))" using misc_spec[OF O(1)] by blast
    have "table_by (cfg_layout c) [] s s' \<or> table_by (cfg_layout c) [Retry_check now] s s'"
      using r(5) table_by_one[of "cfg_layout c" "Retry_check now" s "fst (mq_msg_tbl_presvd_update_last_retry_chk now (table s))" s']
      by (auto simp: table_by_Nil)
    then have "once_inv (cfg_layout c) es s'"
    proof
      assume k: "table_by (cfg_layout c) [] s s'"
      show ?thesis by (rule once_kept[OF o r(2,3) k]) (use O(4) in simp_all)
    next
      assume k: "table_by (cfg_layout c) [Retry_check now] s s'"
      show ?thesis by (rule once_kept[OF o r(2,3) k]) (use O(4) in simp_all)
    qed
    then show ?thesis using r by (simp add: Awake Retry)
  next
    case Reconnect
    obtain s' where r: "mosquitto_messages_reconnect_reset s = Some s'" "sess_ok s'" "pending s' = pending s" "table s' = table s" "trace s' = trace s"
      using reconnect_spec[OF O(1)] by blast
    have "once_inv (cfg_layout c) es s'" by (rule once_kept[OF o r(2,3) table_by_Nil[OF r(4)]]) (use O(4) in simp_all)
    then show ?thesis using r by (simp add: Awake Reconnect)
  qed
qed

interpretation mq_life: event_system "handle_life c (int n + 1)" "life_ok c" "once_inv (cfg_layout c) es" "\<lambda>s. map_of (pending s)"
  "\<lambda>s. messages_in (trace s)" "held_life c" "handed_life c" for c n es
  by unfold_locales (rule life_step; simp)

section \<open>Exactly once\<close>

text \<open>What an event means for the messages of the broker: a message that it brings, an identifier that it releases, a message of a lower quality of service.\<close>

definition brings :: "client_cfg \<Rightarrow> life_event \<Rightarrow> (u16 \<times> u8 list \<times> u8 list) option" where
  "brings c y = (case y of
      Awake (Rx_publish mem now p) \<Rightarrow> (case read_publish (cfg_atcmd c) mem now p of
          Inl rc \<Rightarrow> None
        | Inr msg \<Rightarrow> (if m_qos msg = 2 then Some (m_mid msg, m_payload msg, m_topic msg) else None))
    | _ \<Rightarrow> None)"

definition frees :: "client_cfg \<Rightarrow> life_event \<Rightarrow> u16 option" where
  "frees c y = (case y of Awake (Rx_pubrel p) \<Rightarrow> released c p | _ \<Rightarrow> None)"

definition direct :: "client_cfg \<Rightarrow> life_event \<Rightarrow> (u8 list \<times> u8 list) list" where
  "direct c y = (case y of
      Awake (Rx_publish mem now p) \<Rightarrow> (case read_publish (cfg_atcmd c) mem now p of
          Inl rc \<Rightarrow> []
        | Inr msg \<Rightarrow> (if m_qos msg = 0 \<or> m_qos msg = 1 then [(m_payload msg, m_topic msg)] else []))
    | _ \<Rightarrow> [])"

text \<open>
  The message that stands for an identifier after a history, the latest event first: the last one brought with it, unless it has been released
  since.
\<close>

fun standing :: "client_cfg \<Rightarrow> u16 \<Rightarrow> life_event list \<Rightarrow> (u8 list \<times> u8 list) option" where
  "standing c m [] = None"
| "standing c m (y # h) =
     (case brings c y of
        Some (k, x) \<Rightarrow> (if k = m then Some x else standing c m h)
      | None \<Rightarrow> (if frees c y = Some m then None else standing c m h))"

fun deliveries :: "client_cfg \<Rightarrow> life_event list \<Rightarrow> life_event list \<Rightarrow> (u8 list \<times> u8 list) list" where
  "deliveries c h [] = []"
| "deliveries c h (y # ys) =
     direct c y @ (case frees c y of None \<Rightarrow> [] | Some m \<Rightarrow> (case standing c m h of None \<Rightarrow> [] | Some x \<Rightarrow> [x])) @ deliveries c (y # h) ys"

lemma held_life_alt:
  "held_life c y M = (case brings c y of Some (m, x) \<Rightarrow> M(m \<mapsto> x)
     | None \<Rightarrow> (case frees c y of None \<Rightarrow> M | Some m \<Rightarrow> M(m := None)))"
proof (cases y)
  case (Awake x)
  then show ?thesis by (cases x) (auto simp: brings_def frees_def split: sum.splits option.splits)
qed (simp add: brings_def frees_def)

lemma handed_life_alt:
  "handed_life c y M = direct c y @ (case frees c y of None \<Rightarrow> [] | Some m \<Rightarrow> (case M m of None \<Rightarrow> [] | Some x \<Rightarrow> [x]))"
proof (cases y)
  case (Awake x)
  then show ?thesis by (cases x) (auto simp: direct_def frees_def split: sum.splits option.splits)
qed (simp add: direct_def frees_def)

lemma deliveries_outputs:
  "(\<And>m. M m = standing c m h) \<Longrightarrow> outputs (held_life c) (handed_life c) evs M = deliveries c h evs"
proof (induction evs arbitrary: M h)
  case (Cons y ys)
  have "held_life c y M m = standing c m (y # h)" for m
    unfolding held_life_alt using Cons.prems by (auto split: option.splits)
  then have IH: "outputs (held_life c) (handed_life c) ys (held_life c y M) = deliveries c (y # h) ys" by (rule Cons.IH)
  have M: "M = (\<lambda>m. standing c m h)" using Cons.prems by (intro ext)
  show ?case unfolding outputs.simps deliveries.simps IH unfolding handed_life_alt M append_assoc ..
qed simp


text \<open>A session to run the properties on, over the table in an empty pool.\<close>

definition demo_env :: tx_env where
  "demo_env = \<lparr>tx_mem1 = \<lambda>k. True, tx_mem2 = \<lambda>k. True, tx_junk = \<lambda>k i. 0, tx_rc = \<lambda>k. 0\<rparr>"

definition demo_cfg :: client_cfg where
  "demo_cfg = \<lparr>cfg_layout = packed, cfg_env = demo_env, cfg_dpm = True, cfg_atcmd = False, cfg_protocol = mosq_p_mqtt311\<rparr>"

definition packet_of :: "u8 \<Rightarrow> u8 list \<Rightarrow> mosq_packet" where
  "packet_of c b = \<lparr>pk_command = c, pk_payload = b, pk_pos = 0, pk_remaining_length = length b, pk_remaining_count = 1,
     pk_remaining_mult = 128, pk_packet_length = 0, pk_to_process = 0, pk_mid = 0\<rparr>"

definition demo_publish :: mosq_packet where "demo_publish = packet_of 0x34 [0, 3, 97, 47, 98, 0, 5, 1, 0, 2]"

definition demo_release :: mosq_packet where "demo_release = packet_of 0x62 [0, 5]"

definition demo_session :: "mq_table \<Rightarrow> session" where
  "demo_session t = \<lparr>client = demo_mosq, table = t, pub_msg_id = 0, trace = [], tx_count = 0\<rparr>"

lemma demo_packets:
  "read_publish (cfg_atcmd demo_cfg) (\<lambda>_. True) 9 demo_publish =
     Inr \<lparr>m_timestamp = 9, m_state = mosq_ms_invalid, m_dup = False, m_mid = 5, m_topic = [97, 47, 98], m_payload = [1, 0, 2],
          m_qos = 2, m_retain = False\<rparr>"
  "released demo_cfg demo_release = Some 5"
  by (simp_all add: read_publish_def demo_publish_def demo_cfg_def packet_of_def mosquitto_read_string_def mosquitto_read_uint16_def
      mosquitto_read_bytes_def strlen_def MQTT_MSG_MAX_LEN_def Let_def released_def demo_release_def)

lemma demo_once:
  "\<exists>e t. once_inv packed [e] (demo_session t) \<and> tmap (demo_session t) = Map.empty"
proof -
  obtain t e where t: "store_inv packed [e] t" "mqtt_msg_tbl_presvd_rtm t \<noteq> 0" "msgs (mqtt_msg_tbl_presvd t) = Map.empty"
    using demo_start by blast
  have "window_ok demo_mosq" by (rule window_okI[of _ "[]" "[]"]) (simp_all add: out_ok_def demo_mosq_def)
  moreover have "in_ok demo_mosq" by (simp add: in_ok_def demo_mosq_def)
  moreover have "pending (demo_session t) = []" by (simp add: pending_def demo_session_def demo_mosq_def)
  moreover have "tmap (demo_session t) = Map.empty" by (simp add: tmap_def demo_session_def t(3))
  moreover have "map_ok Map.empty" "held_of Map.empty = Map.empty" by (simp_all add: map_ok_def held_of_def fun_eq_iff)
  ultimately have "once_inv packed [e] (demo_session t)" using t(1,2) by (simp add: once_inv_def sess_ok_def demo_session_def)
  then show ?thesis using \<open>tmap (demo_session t) = Map.empty\<close> by blast
qed


end
