(* ===== verification/Mqtt_Client.thy ===== *)
theory Mqtt_Client
  imports Mqtt_Once
begin

text \<open>
  The properties of the outgoing messages of an MQTT session: the window and its flow. A session to run them on stands at the end.
\<close>

section \<open>The window\<close>

text \<open>C20. The window of outgoing messages holds: however publishing, the packets of the broker, repeated sending and new
  connections are interleaved, and whatever fails of the allocations and the network, every call returns, the messages that
  have been sent and not been acknowledged are counted exactly and are never more than the window allows, those that wait stand behind them, and
  a message waits only while the window is full. Two things are required of the events: while the table of preserved messages is in use, topics that are
  published or received with quality of service 2 have at most 64 characters, and the broker does not acknowledge a message that still waits and was never sent to
  it. \<open>long_topic_overruns\<close> and \<open>waiting_acknowledged\<close> show that both are needed.\<close>

theorem mqtt_window:
  assumes "sess_ok s" "all_ok (handle_event c) (event_ok c) evs s"
  shows "\<exists>s'. run_all (handle_event c) evs s = Some s' \<and> sess_ok s' \<and>
    (let cl = client s'; fl = filter on_way (out_messages cl); wt = filter (\<lambda>x. \<not> on_way x) (out_messages cl); mx = max_inflight_messages cl in
     out_messages cl = fl @ wt \<and> inflight_messages cl = int (length fl) \<and> (mx = 0 \<or> inflight_messages cl \<le> mx) \<and>
     (wt = [] \<or> mx \<noteq> 0 \<and> inflight_messages cl = mx) \<and> out_queue_len cl = int (length (out_messages cl)))"
proof -
  obtain s' where r: "run_all (handle_event c) evs s = Some s'" "sess_ok s'" using mq_client.runs[OF assms] by blast
  have w: "window_ok (client s')" using r(2) by (simp add: sess_ok_def)
  note W = window_okE[OF w]
  have f: "filter on_way (out_messages (client s')) = flying (client s')"
    "filter (\<lambda>x. \<not> on_way x) (out_messages (client s')) = waiting (client s')"
    unfolding W(2) using W(1) by (auto simp: out_ok_def filter_empty_conv filter_id_conv)
  show ?thesis using r W unfolding Let_def f by (auto simp: out_ok_def)
qed

section \<open>The queue drains\<close>

text \<open>Messages whose packet has a length that can be written.\<close>

definition encodable :: "mosquitto_message_all \<Rightarrow> bool" where
  "encodable x \<longleftrightarrow> length (m_topic x) + length (m_payload x) + 4 < MAX_REMAINING"

lemma delete_first:
  assumes s: "sess_ok s" and o: "out_messages (client s) = x # xs" and tx: "tx_ok e" "\<forall>y \<in> set (waiting (client s)). encodable y"
  shows "\<exists>s'. mosquitto_message_delete L e (m_mid x) mosq_md_out s = Some (0, s') \<and> sess_ok s' \<and>
    map m_mid (out_messages (client s')) = map m_mid xs \<and> waiting (client s') = drop 1 (waiting (client s)) \<and>
    trace s' = trace s @ map (Queued \<circ> publish_packet \<circ> started) (take 1 (waiting (client s)))"
proof -
  let ?c = "client s"
  have w: "window_ok ?c" using s by (simp add: sess_ok_def)
  note W = window_okE[OF w]
  have fl: "flying ?c \<noteq> []" using W(1,2) o by (cases "waiting ?c") (auto simp: out_ok_def)
  then obtain fl' where fl': "flying ?c = x # fl'" "xs = fl' @ waiting ?c" using W(2) o by (cases "flying ?c") auto
  have x: "on_way x" using W(1) fl'(1) by (simp add: out_ok_def)
  have t: "take_mid (m_mid x) (out_messages ?c) = Some (x, xs)" by (simp add: o)
  obtain rc s1 as bs where r: "mosquitto_message_remove e (m_mid x) mosq_md_out s = Some (rc, Some x, s1)" "window_ok (client s1)"
    "same_rest s s1" "flying ?c = as @ x # bs" "m_mid x \<notin> m_mid ` set as"
    "flying (client s1) = as @ bs @ map started (take 1 (waiting ?c))" "waiting (client s1) = drop 1 (waiting ?c)"
    "tx_ok e \<and> (\<forall>y \<in> set (waiting ?c). length (m_topic y) + length (m_payload y) + 4 < MAX_REMAINING) \<longrightarrow>
       rc = 0 \<and> trace s1 = trace s @ map (Queued \<circ> publish_packet \<circ> started) (take 1 (waiting ?c))"
    using remove_out[OF w t x, of e] by blast
  have ab: "as = []" "bs = fl'" using r(4,5) fl'(1) by (cases as; auto)+
  have rc: "rc = 0" "trace s1 = trace s @ map (Queued \<circ> publish_packet \<circ> started) (take 1 (waiting ?c))"
    using r(8) tx by (simp_all add: encodable_def)
  have "map m_mid (out_messages (client s1)) = map m_mid xs"
    unfolding window_okE(2)[OF r(2)] r(6,7) ab fl'(2) by (cases "waiting ?c") simp_all
  moreover have "sess_ok (table_del L x mosq_md_out s1)"
    using r(2) s same_rest_fields[OF r(3)] in_other[of "client s1" ?c] by (simp add: sess_ok_def)
  ultimately show ?thesis using r(1,7) rc by (simp add: mosquitto_message_delete_def MOSQ_ERR_SUCCESS_def)
qed

definition acks :: "mosq_packet list \<Rightarrow> u16 list \<Rightarrow> bool" where
  "acks ps ms \<longleftrightarrow> list_all2 (\<lambda>p m. map_sum id fst (mosquitto_read_uint16 p) = Inr m) ps ms"

lemma drain:
  assumes "sess_ok s" "tx_ok (cfg_env c)" "\<forall>y \<in> set (waiting (client s)). encodable y"
    "acks ps (map m_mid (out_messages (client s)))"
  shows "\<exists>s'. run_all (handle_event c) (map Rx_ack ps) s = Some s' \<and> sess_ok s' \<and> out_messages (client s') = [] \<and>
    published_in (trace s') = published_in (trace s) @ map m_mid (out_messages (client s)) \<and>
    queued_in (trace s') = queued_in (trace s) @ map (publish_packet \<circ> started) (waiting (client s))"
  using assms(1,3,4)
proof (induction ps arbitrary: s)
  case Nil
  then have "out_messages (client s) = []" by (simp add: acks_def)
  moreover have "waiting (client s) = []" using calculation by (simp add: waiting_def)
  ultimately show ?case using Nil by simp
next
  case (Cons p ps)
  obtain x xs where o: "out_messages (client s) = x # xs" "map_sum id fst (mosquitto_read_uint16 p) = Inr (m_mid x)"
    "acks ps (map m_mid xs)" using Cons.prems(3) by (auto simp: acks_def list_all2_Cons1)
  obtain q where q: "mosquitto_read_uint16 p = Inr (m_mid x, q)" using o(2) by (cases "mosquitto_read_uint16 p") auto
  obtain s1 where d: "mosquitto_message_delete (cfg_layout c) (cfg_env c) (m_mid x) mosq_md_out s = Some (0, s1)" "sess_ok s1"
    "map m_mid (out_messages (client s1)) = map m_mid xs" "waiting (client s1) = drop 1 (waiting (client s))"
    "trace s1 = trace s @ map (Queued \<circ> publish_packet \<circ> started) (take 1 (waiting (client s)))"
    using delete_first[OF Cons.prems(1) o(1) assms(2) Cons.prems(2)] by blast
  let ?s2 = "emit (On_publish (m_mid x)) s1"
  define s3 where "s3 = (if q2_proc (client ?s2) \<noteq> 1 then emit Dpm_sleep ?s2 else ?s2)"
  have h: "handle_event c (Rx_ack p) s = Some (0, s3)"
    using q d(1) by (simp add: mosquitto_handle_pubackcomp_def MOSQ_ERR_SUCCESS_def Let_def s3_def)
  have s3: "sess_ok s3" "out_messages (client s3) = out_messages (client s1)" "waiting (client s3) = drop 1 (waiting (client s))"
    using d(2,4) by (simp_all add: sess_ok_def s3_def)
  have "\<forall>y \<in> set (waiting (client s3)). encodable y" using Cons.prems(2) unfolding s3(3) by (meson in_set_dropD)
  then obtain s' where s': "run_all (handle_event c) (map Rx_ack ps) s3 = Some s'" "sess_ok s'" "out_messages (client s') = []"
    "published_in (trace s') = published_in (trace s3) @ map m_mid xs"
    "queued_in (trace s') = queued_in (trace s3) @ map (publish_packet \<circ> started) (drop 1 (waiting (client s)))"
    using Cons.IH[OF s3(1)] o(3) d(3) by (auto simp: s3(2,3))
  have "\<exists>u. trace s3 = trace s1 @ On_publish (m_mid x) # u \<and> queued_in u = [] \<and> published_in u = []" by (simp add: s3_def)
  then have tr: "queued_in (trace s3) = queued_in (trace s) @ map (publish_packet \<circ> started) (take 1 (waiting (client s)))"
    "published_in (trace s3) = published_in (trace s) @ [m_mid x]"
    using d(5) by (auto simp flip: map_map)
  have "run_all (handle_event c) (map Rx_ack (p # ps)) s = Some s'" unfolding list.map run_all.simps h using s'(1) by simp
  moreover have "map f (take 1 ws) @ map f (drop 1 ws) = map f ws" for f :: "mosquitto_message_all \<Rightarrow> mosq_packet" and ws
    by (simp flip: map_append)
  ultimately show ?case using s'(2-5) tr o(1) by simp
qed

text \<open>C21. The acknowledgements of the broker drain the queue: when it acknowledges the messages one after the other and the network works,
  every message that waited is sent exactly once, in the order in which the messages were published, every message is reported to the
  application exactly once, in the same order, and in the end nothing is left and nothing is counted.\<close>

theorem mqtt_queue_drains:
  assumes "sess_ok s" "tx_ok (cfg_env c)" "\<forall>y \<in> set (waiting (client s)). encodable y"
    "acks ps (map m_mid (out_messages (client s)))"
  shows "\<exists>s'. run_all (handle_event c) (map Rx_ack ps) s = Some s' \<and>
    out_messages (client s') = [] \<and> inflight_messages (client s') = 0 \<and> out_queue_len (client s') = 0 \<and>
    published_in (trace s') = published_in (trace s) @ map m_mid (out_messages (client s)) \<and>
    queued_in (trace s') = queued_in (trace s) @ map (publish_packet \<circ> started) (waiting (client s))"
proof -
  obtain s' where s': "run_all (handle_event c) (map Rx_ack ps) s = Some s'" "sess_ok s'" "out_messages (client s') = []"
    "published_in (trace s') = published_in (trace s) @ map m_mid (out_messages (client s))"
    "queued_in (trace s') = queued_in (trace s) @ map (publish_packet \<circ> started) (waiting (client s))"
    using drain[OF assms] by blast
  have "window_ok (client s')" using s'(2) by (simp add: sess_ok_def)
  then show ?thesis using s' by (simp add: window_ok_def flying_def)
qed

section \<open>A session with a window of one\<close>

definition demo_first :: mosquitto_message_all where "demo_first = demo_msg\<lparr>m_qos := 1, m_state := mosq_ms_wait_for_puback\<rparr>"

definition demo_second :: mosquitto_message_all where
  "demo_second = demo_first\<lparr>m_mid := 6, m_state := mosq_ms_invalid, m_payload := [7]\<rparr>"

definition demo_busy :: "mosquitto_message_all list \<Rightarrow> session" where
  "demo_busy wt = (demo_session (boot_state demo_pool))\<lparr>client := demo_mosq\<lparr>out_messages := demo_first # wt, inflight_messages := 1,
     max_inflight_messages := 1, out_queue_len := 1 + int (length wt)\<rparr>\<rparr>"

lemma demo_busy_ok:
  assumes "wt \<in> {[], [demo_second]}"
  shows "sess_ok (demo_busy wt)" "waiting (client (demo_busy wt)) = wt"
proof -
  have f: "on_way demo_first" "sendable demo_first" "m_qos demo_first \<noteq> 0" "\<not> on_way demo_second" "sendable demo_second" "m_qos demo_second \<noteq> 0"
    by (simp_all add: demo_first_def demo_second_def demo_msg_def sendable_def)
  have "window_ok (client (demo_busy wt))"
    by (rule window_okI[of _ "[demo_first]" wt]) (use assms f in \<open>auto simp: demo_busy_def out_ok_def\<close>)
  then show "sess_ok (demo_busy wt)" by (simp add: sess_ok_def in_ok_def demo_busy_def demo_mosq_def)
  show "waiting (client (demo_busy wt)) = wt" using assms f by (auto simp: waiting_def demo_busy_def)
qed

lemma mqtt_window_witness:
  "\<exists>s'. run_all (handle_event demo_cfg) [Publish (\<lambda>_. True) 9 (Some [97]) [1] 1 False] (demo_busy []) = Some s' \<and>
     (max_inflight_messages (client s') = 0 \<or> inflight_messages (client s') \<le> max_inflight_messages (client s')) \<and>
     out_queue_len (client s') = int (length (out_messages (client s')))"
proof -
  have "all_ok (handle_event demo_cfg) (event_ok demo_cfg) [Publish (\<lambda>_. True) 9 (Some [97]) [1] 1 False] (demo_busy [])"
    by (simp add: fits_table_def split: option.split)
  from mqtt_window[OF demo_busy_ok(1) this] show ?thesis by (auto simp: Let_def)
qed

lemma mqtt_queue_drains_witness:
  "\<exists>s'. run_all (handle_event demo_cfg) (map Rx_ack [packet_of 0x40 [0, 5], packet_of 0x40 [0, 6]]) (demo_busy [demo_second]) = Some s' \<and>
     out_messages (client s') = [] \<and> published_in (trace s') = [5, 6] \<and> queued_in (trace s') = [publish_packet (started demo_second)]"
proof -
  let ?s = "demo_busy [demo_second]" and ?ps = "[packet_of 0x40 [0, 5], packet_of 0x40 [0, 6]]"
  have m: "map m_mid (out_messages (client ?s)) = [5, 6]"
    by (simp add: demo_busy_def demo_first_def demo_second_def demo_msg_def)
  have a: "acks ?ps (map m_mid (out_messages (client ?s)))" unfolding m by (simp add: acks_def mosquitto_read_uint16_def packet_of_def)
  have w: "waiting (client ?s) = [demo_second]" using demo_busy_ok(2)[of "[demo_second]"] by simp
  have e: "\<forall>y \<in> set (waiting (client ?s)). encodable y" unfolding w by (simp add: encodable_def demo_second_def demo_first_def demo_msg_def)
  have tx: "tx_ok (cfg_env demo_cfg)" by (simp add: tx_ok_def demo_cfg_def demo_env_def)
  have t: "trace ?s = []" by (simp add: demo_busy_def demo_session_def)
  have s: "sess_ok ?s" using demo_busy_ok(1)[of "[demo_second]"] by simp
  show ?thesis using mqtt_queue_drains[OF s tx e a] unfolding m w t by auto
qed

section \<open>Where the code departs from what it means\<close>

text \<open>A message of more than 100 bytes is acknowledged by a PUBREC packet and held, but not preserved: deep sleep loses it.\<close>

lemma long_message_not_preserved:
  assumes "sess_ok s" "mq_msg_tbl_presvd_enabled (table s)" "m_qos msg = 2" "m_state msg = mosq_ms_wait_for_pubrel"
    "length (m_topic msg) \<le> 64" "length (m_payload msg) > 100" "found (m_mid msg) s = None"
  shows "\<exists>s'. queue_received L e msg s = Some s' \<and> msg \<in> set (in_messages (client s')) \<and> table s' = table s"
proof -
  have fit: "fits_table s (m_topic msg)" using assms(5) by (simp add: fits_table_def)
  obtain s' rc where q: "queue_received L e msg s = Some s'" "in_messages (client s') = others (m_mid msg) s @ [msg]"
    "mq_msg_tbl_presvd_add L msg mosq_md_in (table s) = Some (rc, table s')"
    using queue_received_spec[OF assms(1,3,4) fit, of L e] assms(7) by auto
  have "table s' = table s"
    using q(3) assms(2,6) by (auto simp: mq_msg_tbl_presvd_add_def MQTT_MSG_TBL_PRESVD_MAX_PLAYLOAD_LEN_def split: option.splits)
  then show ?thesis using q(1,2) by (intro exI[of _ s']) simp
qed

text \<open>A message that waited and is sent when there is room is not put into the table: deep sleep loses it.\<close>

lemma waiting_not_preserved:
  assumes "window_ok (client s)" "take_mid m (out_messages (client s)) = Some (x, ms)" "on_way x" "waiting (client s) = w # ws"
  shows "\<exists>rc s'. mosquitto_message_remove e m mosq_md_out s = Some (rc, Some x, s') \<and> started w \<in> set (flying (client s')) \<and> table s' = table s"
proof -
  obtain rc s' as bs where r: "mosquitto_message_remove e m mosq_md_out s = Some (rc, Some x, s')" "same_rest s s'"
    "flying (client s') = as @ bs @ map started (take 1 (waiting (client s)))"
    using remove_out[OF assms(1-3), of e] by blast
  then show ?thesis using same_rest_fields(1)[OF r(2)] assms(4) by auto
qed

text \<open>
  When the message that takes the place of an acknowledged one cannot be sent, the acknowledged message is neither reported nor taken
  out of the table.
\<close>

lemma acknowledged_not_reported:
  "\<exists>s'. handle_event (demo_cfg\<lparr>cfg_env := demo_env\<lparr>tx_rc := \<lambda>k. MOSQ_ERR_ERRNO\<rparr>\<rparr>) (Rx_ack (packet_of 0x40 [0, 5])) (demo_busy [demo_second]) =
     Some (MOSQ_ERR_SUCCESS, s') \<and> out_messages (client s') = [started demo_second] \<and> published_in (trace s') = []"
proof -
  let ?s = "demo_busy [demo_second]" and ?e = "demo_env\<lparr>tx_rc := \<lambda>k. MOSQ_ERR_ERRNO\<rparr>"
  have w: "window_ok (client ?s)" "waiting (client ?s) = [demo_second]"
    using demo_busy_ok[of "[demo_second]"] by (simp_all add: sess_ok_def)
  have t: "take_mid 5 (out_messages (client ?s)) = Some (demo_first, [demo_second])"
    by (simp add: demo_busy_def demo_first_def demo_msg_def)
  define s1 where "s1 = on_client (\<lambda>c. c\<lparr>out_messages := [demo_second], out_queue_len := out_queue_len c - 1,
      inflight_messages := inflight_messages c - 1\<rparr>) ?s"
  have q: "m_qos demo_first > 0" by (simp add: demo_first_def)
  have snd: "sendable demo_second" "\<not> on_way demo_second" "m_qos demo_second \<noteq> 0"
    by (simp_all add: sendable_def demo_second_def demo_first_def demo_msg_def)
  have room: "0 < max_inflight_messages (client s1)" "inflight_messages (client s1) = max_inflight_messages (client s1) - 1"
    by (simp_all add: s1_def demo_busy_def)
  obtain rc s2 where p: "promote ?e [demo_second] s1 = Some (rc, [started demo_second], s2)" "quiet (count_inflight 1 s1) s2"
    "mosquitto_send_publish ?e (started demo_second) (count_inflight 1 s1) = Some (rc, s2)"
    using promote_one[OF snd(2,1,3) room, of ?e "[]"] by blast
  have rc: "rc \<noteq> 0"
    using p(3) send_publish[of "m_topic demo_second" "m_payload demo_second" "m_qos demo_second" True True]
    by (auto simp: mosquitto_send_publish_def transmit_def sending_def demo_env_def Let_def MOSQ_ERR_ERRNO_def
        demo_second_def demo_first_def demo_msg_def started_def)
  define s3 where "s3 = on_client (\<lambda>c. c\<lparr>out_messages := [started demo_second]\<rparr>) s2"
  have "mosquitto_message_remove ?e 5 mosq_md_out ?s = Some (rc, Some demo_first, s3)"
    using t p(1) q by (simp add: mosquitto_message_remove_def s3_def flip: s1_def)
  then have d: "mosquitto_message_delete packed ?e 5 mosq_md_out ?s = Some (rc, s3)"
    using rc by (simp add: mosquitto_message_delete_def MOSQ_ERR_SUCCESS_def)
  have rd: "mosquitto_read_uint16 (packet_of 0x40 [0, 5]) = Inr (5, (packet_of 0x40 [0, 5])\<lparr>pk_pos := 2\<rparr>)"
    by (simp add: mosquitto_read_uint16_def packet_of_def)
  have c: "out_messages (client s3) = [started demo_second]" "q2_proc (client s3) = 0"
    using quietD(1)[OF p(2)] by (simp_all add: s3_def s1_def count_inflight_def demo_busy_def demo_mosq_def)
  have "published_in (trace s3) = []" using quiet_trace(2)[OF p(2)]
    by (simp add: s3_def s1_def count_inflight_def demo_busy_def demo_session_def)
  then show ?thesis using rc d rd c
    by (simp add: mosquitto_handle_pubackcomp_def demo_cfg_def MOSQ_ERR_SUCCESS_def Let_def)
qed

text \<open>An acknowledgement for a message that still waits takes it out of the queue unsent and counts one too many as done.\<close>

lemma waiting_acknowledged:
  "\<exists>s'. handle_event demo_cfg (Rx_ack (packet_of 0x40 [0, 6])) (demo_busy [demo_second]) = Some (MOSQ_ERR_SUCCESS, s') \<and>
     out_messages (client s') = [demo_first] \<and> on_way demo_first \<and> inflight_messages (client s') = 0 \<and> published_in (trace s') = [6] \<and>
     queued_in (trace s') = []"
proof -
  let ?s = "demo_busy [demo_second]"
  have rd: "mosquitto_read_uint16 (packet_of 0x40 [0, 6]) = Inr (6, (packet_of 0x40 [0, 6])\<lparr>pk_pos := 2\<rparr>)"
    by (simp add: mosquitto_read_uint16_def packet_of_def)
  have f: "m_state demo_first \<noteq> mosq_ms_invalid" "m_mid demo_first = 5" "m_mid demo_second = 6" "m_qos demo_second = 1"
    by (simp_all add: demo_first_def demo_second_def demo_msg_def)
  have "mosquitto_message_remove (cfg_env demo_cfg) 6 mosq_md_out ?s = Some (MOSQ_ERR_SUCCESS, Some demo_second,
      on_client (\<lambda>c. c\<lparr>out_messages := [demo_first], out_queue_len := 1, inflight_messages := 0\<rparr>) ?s)"
    using f by (simp add: mosquitto_message_remove_def demo_busy_def on_client_def)
  then show ?thesis using rd f
    by (simp add: mosquitto_handle_pubackcomp_def mosquitto_message_delete_def Let_def demo_busy_def demo_mosq_def demo_session_def
        MOSQ_ERR_SUCCESS_def)
qed

end
