(* ===== verification/Mqtt_Link_Claims.thy ===== *)
theory Mqtt_Link_Claims
  imports Mqtt_Link_Props Mqtt_Client
begin

text \<open>
  The properties of the MQTT client on its connection: it refines the session, and it notices a silent broker. A client to run them on.
\<close>

section \<open>The client refines the session\<close>

text \<open>C22. The client does to its session what the packets mean, from a well-formed session and under these conditions: the data of the CONNECT packet have lengths
  that the packet can express and its protocol is MQTT 3.1 or 3.1.1, the topics that are published (and, while the table of messages is in use, those of
  received messages with quality of service 2) have at most 64 characters, the broker does not acknowledge a message that still waits for its turn, and the callbacks
  inside a write send neither PUBLISH nor SUBSCRIBE packets. For every such sequence of packets of every kind, publishing directly and through the loop, subscribing,
  rounds of the loop with its timers and the message that waits, timer interrupts, new connections and disconnections, every call returns, the window of the
  session is kept, the received messages that are held and the messages that the application gets, in their order, are those of the session's events in the
  sequence, and nothing else that happens on the connection adds, loses or repeats one.\<close>

theorem mqtt_link_refines:
  assumes "sess_ok (sess l)" "all_ok (handle_link c) (link_ok c) evs l"
  shows "\<exists>l'. run_all (handle_link c) evs l = Some l' \<and> sess_ok (sess l') \<and>
    map_of (pending (sess l')) = fold (link_held c) evs (map_of (pending (sess l))) \<and>
    messages_in (trace (sess l')) = messages_in (trace (sess l)) @ outputs (link_held c) (link_handed c) evs (map_of (pending (sess l)))"
  by (rule mq_link.runs[OF assms])

section \<open>A silent broker\<close>

text \<open>C24. A broker that has fallen silent is noticed: when nothing arrives any more on a connection that is up, the network and the allocator grant what they are asked
  for, the callbacks inside a write do not publish or subscribe, the topic of a message that waits has at most 64 characters, and the rounds of the loop are at most
  \<open>g\<close> seconds apart, the client sends a PINGREQ packet, and after two keep-alive periods and two such gaps at most the loop has ended, the socket is closed and
  the application has been told.\<close>

theorem mqtt_silent_broker:
  assumes "alive t 0 l" "sends c" "steady g t ts" "ts \<noteq> []" "last ts \<ge> t + 2 * period l + g"
  shows "\<exists>l'. mosquitto_loop_forever c ts l = Some (MOSQ_ERR_NO_CONN, l') \<and> \<not> sock_open l' \<and>
    Queued (packet_for 0 0xC0 []) \<in> set (trace (sess l')) \<and> On_disconnect \<in> set (trace (sess l'))"
  using quiet_rounds[OF assms(1,2,3) order.refl _ assms(4,5)] alive_period[OF assms(1)] by simp

text \<open>The application is told twice: the check of the period and the check of the answer both close the connection in the same round.\<close>

lemma disconnect_reported_twice:
  assumes a: "alive t p l" "sends c" and p: "p \<noteq> 0" "now - t \<ge> period l" "now - p \<ge> period l"
  shows "\<exists>l' ps qs. mosquitto_loop c True now l = Some (MOSQ_ERR_NO_CONN, l') \<and>
    trace (sess l') = trace (sess l) @ [On_disconnect] @ map Queued ps @ [On_disconnect] @ map Queued qs"
proof -
  obtain l1 where l1: "mosquitto_check_keepalive c now l = Some l1" "up t p l1" "period l1 = period l" "\<not> sock_open l1"
    "trace (sess l1) = trace (sess l) @ [On_disconnect]"
    using waiting_check[OF a(1) p(1), of c now] p(2) by auto
  have "cs (net l) = mosq_cs_connected" using a(1) by (simp add: alive_def up_def)
  from round_end[OF l1(2) a(2) l1(1) this] obtain l' ps qs where "mosquitto_loop c True now l = Some (MOSQ_ERR_NO_CONN, l')"
    "trace (sess l') = trace (sess l1) @ map Queued ps @ [On_disconnect] @ map Queued qs"
    using l1(3,4) p by auto
  then show ?thesis using l1(5) by (intro exI[of _ l'] exI[of _ ps] exI[of _ qs]) simp
qed

section \<open>A client to run the properties on\<close>

definition demo_link :: mosq_link where
  "demo_link = \<lparr>sess = demo_busy [], net = demo_net, last_msg_in = 0, ping_t = 0, sock_open = True, unsub_topic = 0, sub_connect_retry_count = 0,
     subRetryCount = 0, subPingStatus = PING_STS_NONE, connect_ind_sent = False,
     mpub_message_buf = None, mpub_topic = Some [97], n_pub = 0\<rparr>"

definition demo_link_cfg :: link_cfg where
  "demo_link_cfg = \<lparr>l_cfg = demo_cfg, l_wire = good_net, l_topics = [[97]], l_qos = 0,
     l_connect = \<lparr>c_protocol = mosq_p_mqtt311, c_id = [99], c_will = None, c_username = None, c_password = None\<rparr>,
     l_topic = [97], l_pub_qos = 0, l_mem = (\<lambda>k i. True)\<rparr>"

lemma mqtt_silent_broker_witness:
  "\<exists>l'. mosquitto_loop_forever demo_link_cfg [30, 60, 90, 120, 150] demo_link = Some (MOSQ_ERR_NO_CONN, l') \<and> \<not> sock_open l'"
proof -
  have "alive 0 0 demo_link" using demo_busy_ok(1)[of "[]"] by (simp add: alive_def up_def topic_fits_def demo_link_def demo_net_def)
  moreover have "sends demo_link_cfg" by (simp add: sends_def tx_ok_def demo_link_cfg_def demo_cfg_def demo_env_def good_net_calm)
  ultimately show ?thesis
    using mqtt_silent_broker[of 0 demo_link demo_link_cfg 30 "[30, 60, 90, 120, 150]"] by (auto simp: demo_link_def demo_net_def)
qed

definition demo_plain :: mosq_packet where "demo_plain = packet_of 0x30 [0, 3, 97, 47, 98, 1, 2]"

lemma mqtt_link_refines_witness:
  "\<exists>l'. run_all (handle_link demo_link_cfg)
      [Round True 30, Incoming (\<lambda>_. True) True 9 (packet_of 0x20 [0, 0]), Incoming (\<lambda>_. True) True 9 demo_plain] demo_link = Some l' \<and>
    messages_in (trace (sess l')) = [([1, 2], [97, 47, 98])]"
proof -
  let ?evs = "[Round True 30, Incoming (\<lambda>_. True) True 9 (packet_of 0x20 [0, 0]), Incoming (\<lambda>_. True) True 9 demo_plain]"
  have r: "read_publish (cfg_atcmd demo_cfg) (\<lambda>_. True) 9 demo_plain =
      Inr \<lparr>m_timestamp = 9, m_state = mosq_ms_invalid, m_dup = False, m_mid = 0, m_topic = [97, 47, 98], m_payload = [1, 2], m_qos = 0, m_retain = False\<rparr>"
    by (simp add: read_publish_def demo_plain_def demo_cfg_def packet_of_def mosquitto_read_string_def mosquitto_read_uint16_def
        mosquitto_read_bytes_def strlen_def MQTT_MSG_MAX_LEN_def Let_def)
  have e: "session_event (?evs ! 0) = None" "session_event (?evs ! 1) = None" "session_event (?evs ! 2) = Some (Rx_publish (\<lambda>_. True) 9 demo_plain)"
    by (simp_all add: packet_event_def command_codes packet_of_def demo_plain_def)
  have a: "args_ok (l_connect demo_link_cfg) \<and> c_protocol (l_connect demo_link_cfg) \<in> {mosq_p_mqtt31, mosq_p_mqtt311}" "calm (l_wire demo_link_cfg)"
    by (simp_all add: demo_link_cfg_def args_ok_def good_net_calm)
  have lc: "l_cfg demo_link_cfg = demo_cfg" by (simp add: demo_link_cfg_def)
  have "topic_fits demo_link" by (simp add: topic_fits_def demo_link_def)
  then have "link_ok demo_link_cfg (?evs ! 0) demo_link" using a by (simp add: link_ok_def)
  moreover have "link_ok demo_link_cfg x l" if "x \<in> set (tl ?evs)" for x l using that e a r by (auto simp: link_ok_def lc)
  ultimately have "all_ok (handle_link demo_link_cfg) (link_ok demo_link_cfg) ?evs demo_link"
    by (simp del: handle_link.simps split: option.split prod.split)
  then obtain l' where l': "run_all (handle_link demo_link_cfg) ?evs demo_link = Some l'"
    "messages_in (trace (sess l')) = messages_in (trace (sess demo_link)) @
       outputs (link_held demo_link_cfg) (link_handed demo_link_cfg) ?evs (map_of (pending (sess demo_link)))"
    using mqtt_link_refines[of demo_link demo_link_cfg ?evs] demo_busy_ok(1)[of "[]"] by (auto simp: demo_link_def)
  have "outputs (link_held demo_link_cfg) (link_handed demo_link_cfg) ?evs M = [([1, 2], [97, 47, 98])]" for M
    using e r by (simp add: link_held_def link_handed_def lc)
  moreover have "messages_in (trace (sess demo_link)) = []" by (simp add: demo_link_def demo_busy_def demo_session_def)
  ultimately show ?thesis using l' by (intro exI[of _ l']) simp
qed

end
