(* ===== verification/Spec2Isabelle.thy ===== *)
theory Spec2Isabelle
  imports Watchdog_Props Pool_Claims Timer_Props Coap_Props Coap_Block Coap_Copy Ip_Props Dpm_Claims Dpm_Remain Time_Props Mqtt_Link_Claims
begin

text \<open>
  \<^bold>\<open>A verification library for the core services of the DA16200 SDK.\<close>

  The DA16200 is a Wi-Fi microcontroller that spends most of its life in deep sleep. Its SDK is FreeRTOS, lwIP, a Wi-Fi
  stack and a layer of services written for the chip (\<^verbatim>\<open>src/core/system\<close>, \<^verbatim>\<open>src/core/bsp\<close>). This library models that layer,
  since it is the program's own logic; what it stands on is third-party code.

  \<^bold>\<open>The parts and how they interact.\<close> In deep sleep (``DPM'') only a small retention memory and a real-time counter keep
  running. Retention memory holds a heap; the heap holds a pool of named areas that applications use; fixed places of it hold the retention timers and
  the table of named timers. Every module that has work to do registers with the sleep manager; when all of them have asked
  for sleep, a daemon powers the chip down with the next timer as wake-up time. After the wake-up the heap and the pool are recovered, the
  timers that ran out in the meantime expire, and a task calls their callbacks. Independently of that a watchdog service
  resets the chip when a task stops reporting. The clock is the counter plus an offset that is retained. On top of these the SDK has an MQTT client, which keeps its unfinished messages in an area of the pool over sleep, a CoAP codec, address functions
  and checks of user input.

  \<^bold>\<open>Theories and sources.\<close> Each component has a theory with its definitions, in the order of the code and under
  its names, and one or more theories of lemmas; the theorems that state its guarantees are in the last of them.

  \<^item> \<^verbatim>\<open>Prelude\<close>: types of machine integers, collections of rewrite rules, lemmas on lists and words.
  \<^item> Watchdog. \<^verbatim>\<open>Wdog_Driver\<close> is \<^verbatim>\<open>core/bsp/driver/src/DA16200/wdog.c\<close>: registers, switch, \<^verbatim>\<open>WDOG_IOCTL\<close>, interrupt.
    \<^verbatim>\<open>Sys_Watchdog\<close> is \<^verbatim>\<open>core/system/src/common/da16x_sys_watchdog.c\<close>: the tables of tasks, registration, suspension, notification,
    latency, rescale time, the callback of the interrupt and the console command, over the driver. \<^verbatim>\<open>Task_Masks\<close> reads
    the pairs of 32-bit masks as sets of identifiers, \<^verbatim>\<open>Watchdog_Spec\<close> shows that every operation refines an operation on
    these sets, \<^verbatim>\<open>Watchdog_Props\<close> that the reachable states are well-formed and when the callback restarts the counter or resets the chip.
  \<^item> Retention heap. \<^verbatim>\<open>Rtm_Mem\<close> is \<^verbatim>\<open>core/system/src/dpm/da16x_dpm_rtm_mem.c\<close> on an array of bytes: init, recovery, malloc, calloc,
    free, trim, status. \<^verbatim>\<open>Rtm_Blocks\<close>, \<^verbatim>\<open>Rtm_Heap\<close> and \<^verbatim>\<open>Rtm_Trim\<close> relate the bytes to a list of blocks and the operations to operations on
    it; \<^verbatim>\<open>Rtm_Live\<close> is the interface that clients use; \<^verbatim>\<open>Rtm_Props\<close> states the guarantees.
  \<^item> Pool of named areas. \<^verbatim>\<open>User_Pool\<close> is the linked list of nodes of \<^verbatim>\<open>core/system/src/dpm/da16x_dpm.c\<close> (\<^verbatim>\<open>dpm_user_rtm_*\<close>) and the calls of
    \<^verbatim>\<open>util_api.c\<close> (\<^verbatim>\<open>user_rtm_*\<close>) above it. \<^verbatim>\<open>Pool_Props\<close> relates the list in memory to a finite map from names to areas, on the interface of
    the heap; \<^verbatim>\<open>Pool_Claims\<close> states the guarantees.
  \<^item> Retention timers. \<^verbatim>\<open>Ret_Timer\<close> is \<^verbatim>\<open>core/system/src/ramlib/da16200_timer.c\<close> with the counter functions of
    \<^verbatim>\<open>da16x_rtcifbcfm.c\<close>: a list of time differences in a table of 16. \<^verbatim>\<open>Timer_Agenda\<close>, \<^verbatim>\<open>Timer_Loops\<close> and \<^verbatim>\<open>Timer_Ops\<close> read it as
    an agenda, a sorted list of timers with their expiry times; \<^verbatim>\<open>Timer_Props\<close> states what setting, killing, the
    interrupt, sleeping and waking do to the agenda.
  \<^item> Sleep manager. \<^verbatim>\<open>Dpm_Sleep\<close> is the table of modules, the calls of the tasks and the loop of the daemon (\<^verbatim>\<open>da16x_dpm.c\<close>,
    \<^verbatim>\<open>dpm_sleep_daemon\<close>). \<^verbatim>\<open>Dpm_Props\<close> relates the table to two sets of names; \<^verbatim>\<open>Dpm_Daemon\<close> is the step relation of the daemon, its
    trigger timer and the calls; \<^verbatim>\<open>Dpm_Claims\<close> states safety and liveness.
  \<^item> Named timers. \<^verbatim>\<open>Dpm_Timer\<close> is the table of named timers and the timer task of the same file, over the Wi-Fi
    driver's timer calls, which are parameters. \<^verbatim>\<open>Dpm_Timer_Props\<close> relates it to a finite map, \<^verbatim>\<open>Dpm_Timer_Claims\<close> states that and what a round
    of the task calls; \<^verbatim>\<open>Dpm_Remain\<close> is the remaining time read off the list of the retention timers.
  \<^item> Time. \<^verbatim>\<open>Sys_Time\<close> is \<^verbatim>\<open>core/system/src/common/main/da16x_time.c\<close>: the clock and the conversion to dates; \<^verbatim>\<open>Time_Props\<close> shows that
    the clock counts on over a wrap of the counter and that dates follow the Gregorian calendar.
  \<^item> CoAP codec. \<^verbatim>\<open>Coap_Utils\<close> is \<^verbatim>\<open>core/system/src/coap/coap_utils.c\<close>: parser, generator, responses, owned buffers, blocks.
    \<^verbatim>\<open>Coap_Bits\<close> reads its bit arrays as numbers; \<^verbatim>\<open>Coap_Props\<close> has the round trip and the bounds, \<^verbatim>\<open>Coap_Block\<close> block-wise
    transfer, \<^verbatim>\<open>Coap_Copy\<close> owned packets and the search for options.
  \<^item> MQTT. \<^verbatim>\<open>Mqtt_Table\<close> is \<^verbatim>\<open>core/system/src/mqtt_client/client/mqtt_msg_tbl_presvd.c\<close>: the table of messages that are
    preserved over sleep, its mirror in the pool and its recovery, with the queues of \<^verbatim>\<open>lib/messages_mosq.c\<close>. \<^verbatim>\<open>Mqtt_Props\<close> relates it to a
    finite map, \<^verbatim>\<open>Mqtt_Claims\<close> goes through the calls on the interface of the store, \<^verbatim>\<open>Mqtt_Sleep\<close> states the guarantees. \<^verbatim>\<open>Mqtt_Packet\<close> is
    the packets of \<^verbatim>\<open>lib/send_mosq.c\<close>, \<^verbatim>\<open>lib/util_mosq.c\<close>, \<^verbatim>\<open>lib/net_mosq.c\<close> and \<^verbatim>\<open>lib/read_handle.c\<close>: writing, taking off the
    network, reading; \<^verbatim>\<open>Mqtt_Packet_Props\<close> has the lemmas and \<^verbatim>\<open>Mqtt_Packet_Claims\<close> the round trip. \<^verbatim>\<open>Mqtt_Session\<close> is the session of
    \<^verbatim>\<open>lib/messages_mosq.c\<close>, \<^verbatim>\<open>lib/mosquitto.c\<close>, \<^verbatim>\<open>lib/read_handle.c\<close> and \<^verbatim>\<open>lib/util_mosq.c\<close>: identifiers, publishing, acknowledgements,
    repeated sending, new connections, over the table and the packets. \<^verbatim>\<open>Mqtt_Window\<close> and \<^verbatim>\<open>Mqtt_Events\<close> have the invariant of its window and what each
    event hands on, \<^verbatim>\<open>Mqtt_Once\<close> adds deep sleep and shows delivery exactly once, \<^verbatim>\<open>Mqtt_Client\<close> the window and its flow. \<^verbatim>\<open>Mqtt_Topic\<close> is the match
    and the split of topics of \<^verbatim>\<open>lib/util_mosq.c\<close> and \<^verbatim>\<open>lib/mosquitto.c\<close>. \<^verbatim>\<open>Mqtt_Wire\<close> is the queue of packets in front of the network, with the callbacks that send from inside a write (\<^verbatim>\<open>lib/net_mosq.c\<close>,
    \<^verbatim>\<open>_mosquitto_reconnect\<close> in \<^verbatim>\<open>lib/mosquitto.c\<close>); \<^verbatim>\<open>Mqtt_Link\<close> puts session and queue together: the handlers of all packets (\<^verbatim>\<open>lib/read_handle.c\<close>),
    keep-alive and the loop (\<^verbatim>\<open>lib/util_mosq.c\<close>, \<^verbatim>\<open>lib/mosquitto.c\<close>), subscribing and the messages of the application (\<^verbatim>\<open>client/sub_client.c\<close>) and new connections. \<^verbatim>\<open>Mqtt_Link_Props\<close>
    reads it as events of the session, \<^verbatim>\<open>Mqtt_Link_Claims\<close> states the guarantees.
  \<^item> Utilities. \<^verbatim>\<open>Ip_Utils\<close> and \<^verbatim>\<open>Ip_Props\<close>: IPv4 addresses, masks, subnets and number printing of
    \<^verbatim>\<open>core/system/src/common/common_utils.c\<close>. \<^verbatim>\<open>Util_Api\<close>: number and date checks of \<^verbatim>\<open>common/main/util_api.c\<close>.

  \<^bold>\<open>Conventions.\<close> A C structure is a record, an enumeration or a set of error codes a datatype or the integer the code
  returns; machine integers are words where wrap-around matters and naturals or integers with the reduction written out where the code converts.
  Operations pass the state explicitly and return the result code with the new state. Memory that the code addresses by
  pointer (the retention heap and the nodes in it) is an array of bytes with 32-bit fields read from it. \<^term>\<open>None\<close> as the result of
  a whole operation means that the code would not return or would leave the memory it owns; theorems state that the result is
  \<^term>\<open>Some\<close> value, so they include that the call returns. Loops over pointers are \<^verbatim>\<open>partial_function (option)\<close> and proved to
  end on well-formed states; loops with a bound in the code recurse on a count: 16 rounds for lists of timers, which have at most 16 members, 50 attempts
  in the confirmation of a task, 16 options of a CoAP packet. A call that waits for the daemon returns \<^verbatim>\<open>Blocked\<close>
  and is tried again; the daemon's loop is cut where it can be interrupted, between its waiting, its decision, the
  power-down and its result. Callbacks, other tasks, hardware counters, the Wi-Fi driver and the C allocator are arguments, as is the layout
  in bytes that the compiler gives to the table of MQTT messages, of which only the length and that it can be read back are used. The network is a list of
  events, what arrives together or a read that fails; a packet that is sent is appended to a trace of effects, as are the callbacks of the MQTT session, which
  are assumed to leave the session alone. The callbacks that run inside a write of packets may send packets, which are an argument: they may enter the write
  again, and a write that would free a packet twice has no result; \<^verbatim>\<open>calm\<close> says that they send neither PUBLISH nor SUBSCRIBE packets, and then every write
  returns. What the network accepts of a write, the time, the state of the Wi-Fi link and the result of connecting a socket are
  arguments; the time does not advance during a call.

  \<^bold>\<open>Interfaces.\<close> \<^verbatim>\<open>wdog_device\<close> (what the service needs of the driver, instance \<^verbatim>\<open>dev\<close>), \<^verbatim>\<open>id_table\<close> (a set of task identifiers, instance
  \<^verbatim>\<open>tm\<close> on the masks), \<^verbatim>\<open>retention_heap\<close> (what the pool needs of the heap, instance \<^verbatim>\<open>rtm_impl\<close>), \<^verbatim>\<open>sleep_registry\<close> (what
  the daemon needs of the table, instance \<^verbatim>\<open>dpm_impl\<close>), \<^verbatim>\<open>message_store\<close> (what the MQTT client needs of its table, instance \<^verbatim>\<open>mq_store\<close>) and \<^verbatim>\<open>event_system\<close>
  (a handler of events whose invariant, view and output follow from the events, instances \<^verbatim>\<open>mq_client\<close>, with deep sleep \<^verbatim>\<open>mq_life\<close> and, on the connection, \<^verbatim>\<open>mq_link\<close>) are locales, interpreted on the definitions of the providing component.

  \<^bold>\<open>What the theorems show.\<close>

  \<^item> Heap: a successful allocation is aligned, inside the heap, disjoint from all others and leaves them as they are; freeing removes exactly its
    argument; malloc followed by free restores the block list; trimming keeps the contents; all calls return;
    a zeroed allocation of two 16-bit factors does so, is all zero, and refuses a product of more than 16 bits; recovery after sleep rebuilds the state.
  \<^item> Pool: allocation under a fresh name adds one entry and reports why it refuses; release removes one; the
    pool after sleep is the pool before.
  \<^item> Timers: the agenda after setting, killing, the interrupt, sleeping and waking; named timers are a map; every expired
    timer whose task is ready is called once; the remaining time is at most one second short per predecessor.
  \<^item> Sleep manager: the table refines two sets; a registered module that has not asked for sleep prevents the
    power-down; when all have asked the chip is powered down after a bounded number of steps; blocked calls end.
  \<^item> Watchdog: reachable states are well-formed; the callback restarts the counter exactly when every monitored task has
    reported or has latency left, and a latency of n tolerates exactly n missing reports.
  \<^item> Time: readings add up over wraps of the counter; seconds and dates are converted both ways before 2100.
  \<^item> CoAP: a generated packet is parsed back; parsed parts lie inside the buffer, one behind the other; blocks reassemble to the payload; the block option
    is read back.
  \<^item> MQTT: the table of preserved messages is a map of at most ten messages and survives sleep; every packet is written completely and inside
    its allocation; a message that is published is read back whatever pieces the network cuts it into. The window of outgoing messages is kept and counted exactly,
    its queue drains in order, and messages of quality of service 2 are handed on exactly once, also over deep sleep. The match of topics decides
    the match of MQTT on their levels, with one exception. On a connection the broker gets the packets that entered the queue in their order, each whole up to the last, whatever the callbacks send as long as the calls return; the client on its connection refines
    the session, and a broker that has fallen silent is noticed within two keep-alive periods and two gaps between rounds of the loop.
  \<^item> Utilities: addresses are printed and read back, checks of addresses and masks decide what they mean,
    subnet ranges are membership, numbers are printed and read back, dates are checked by the calendar.

  Lemmas beside the theorems record, on concrete inputs, where the code departs from what it means.

  \<^bold>\<open>Not modelled.\<close> Third-party code (FreeRTOS, lwIP, mbedTLS, curl, wpa\_supplicant, the headers of the BLE chip)
  and the binary MAC and RAM library; register-level drivers other than the watchdog; functions that only print; the
  formatting of dates; the start of the daemon before its loop; AT commands, provisioning and OTA, which are
  mostly sockets, flash and console. Of the MQTT client its set-up, the connecting of the socket, TLS and console, and of CoAP the client and the server, which run over sockets. What is left of
  the SDK's own logic is string handling around calls of these parts.
\<close>

end
